(* ===== verification/Go_Prelude.thy ===== *)
theory Go_Prelude
  imports Main "HOL-Library.Word" "HOL-Library.Sublist"
begin

text \<open>
  Shared vocabulary of the development: Go's byte slices and strings, the error values the
  modelled packages return, big-endian integer layout (\<^verbatim>\<open>encoding/binary\<close> with the
  byte order of \<^verbatim>\<open>src/astral/byte_order.go\<close>), and the decimal and hexadecimal number
  text of \<^verbatim>\<open>strconv\<close>.  Every component theory imports this one.

  A Go \<^verbatim>\<open>string\<close> is a byte sequence; it is an HOL \<^typ>\<open>string\<close> here (a \<^typ>\<open>char\<close> is eight
  bits), and \<open>str_bytes\<close> / \<open>bytes_str\<close> convert where the code converts between
  \<^verbatim>\<open>string\<close> and \<^verbatim>\<open>[]byte\<close>.  An error is a value of \<open>error\<close>; a function that returns
  \<^verbatim>\<open>(T, error)\<close> returns \<open>error + T\<close>.
\<close>

named_theorems wire_simps \<open>byte-layout equations\<close>
named_theorems codec_intros \<open>round-trip rules for codecs\<close>

subsection \<open>Types\<close>

type_synonym byte = "8 word"
type_synonym bytes = "8 word list"

datatype error =
    IoEOF
  | IoUnexpectedEOF
  | ErrDepthExceeded
  | ErrStreamCorrupted string
  | ErrBlueprintNotFound string
  | ErrBlueprintInvalid string
  | ErrAlreadyRegistered string
  | ErrFieldTypeMismatch string
  | ErrBlueprintCycle "string list"
  | ErrDuplicateObject string
  | ErrInvalidFlag nat
  | ErrSyntax
  | ErrRange
  | ErrMsg string

type_synonym 'a res = "error + 'a"

subsection \<open>Strings and bytes\<close>

lemma unat_byte: "unat (b :: byte) < 256"
proof -
  have "unat b < 2 ^ LENGTH(8)" by (rule unsigned_less)
  then show ?thesis by simp
qed

lemma word256_zero [simp]: "(256 :: byte) = 0"
  by (rule word_unat_eq_iff [THEN iffD2]) simp

definition str_bytes :: "string \<Rightarrow> bytes" where
  "str_bytes s = map (\<lambda>c. of_nat (of_char c)) s"

definition bytes_str :: "bytes \<Rightarrow> string" where
  "bytes_str bs = map (\<lambda>b. char_of (unat b)) bs"

lemma length_str_bytes [simp]: "length (str_bytes s) = length s"
  by (simp add: str_bytes_def)

lemma length_bytes_str [simp]: "length (bytes_str bs) = length bs"
  by (simp add: bytes_str_def)

lemma str_bytes_Nil [simp]: "str_bytes [] = []" and bytes_str_Nil [simp]: "bytes_str [] = []"
  by (simp_all add: str_bytes_def bytes_str_def)

lemma unat_of_char [simp]: "unat (of_nat (of_char c) :: byte) = of_char c"
proof -
  have "of_char c < (256 :: nat)" by simp
  then show ?thesis by (simp add: unat_of_nat del: of_nat_of_char)
qed

lemma bytes_str_bytes [simp]: "bytes_str (str_bytes s) = s"
  by (induction s) (simp_all add: str_bytes_def bytes_str_def)

lemma str_bytes_str [simp]: "str_bytes (bytes_str bs) = bs"
proof (induction bs)
  case (Cons b bs)
  have "unat b < 256" by (rule unat_byte)
  then show ?case using Cons by (simp add: str_bytes_def bytes_str_def)
qed (simp add: str_bytes_def bytes_str_def)

subsection \<open>Big-endian integers\<close>

fun nat_be :: "nat \<Rightarrow> nat \<Rightarrow> bytes" where
  "nat_be 0 v = []"
| "nat_be (Suc k) v = nat_be k (v div 256) @ [of_nat v]"

definition be_nat :: "bytes \<Rightarrow> nat" where
  "be_nat bs = foldl (\<lambda>acc b. acc * 256 + unat b) 0 bs"

lemma length_nat_be [simp]: "length (nat_be k v) = k"
  by (induction k arbitrary: v) simp_all

lemma be_nat_Nil [simp]: "be_nat [] = 0"
  by (simp add: be_nat_def)

lemma be_nat_snoc [simp]: "be_nat (bs @ [b]) = be_nat bs * 256 + unat b"
  by (simp add: be_nat_def)

lemma be_nat_nat_be [simp]: "be_nat (nat_be k v) = v mod 256 ^ k"
proof (induction k arbitrary: v)
  case (Suc k)
  have "unat (of_nat v :: byte) = v mod 256" by (simp add: unat_of_nat)
  then have "be_nat (nat_be (Suc k) v) = (v div 256) mod 256 ^ k * 256 + v mod 256"
    by (simp add: Suc)
  also have "\<dots> = v mod (256 * 256 ^ k)" by (simp add: mod_mult2_eq)
  finally show ?case by simp
qed simp

lemma be_nat_bound: "be_nat bs < 256 ^ length bs"
proof (induction bs rule: rev_induct)
  case (snoc b bs)
  have "unat b < 256" by (rule unat_byte)
  with snoc show ?case by simp
qed simp

lemma nat_be_be_nat [simp]: "length bs = k \<Longrightarrow> nat_be k (be_nat bs) = bs"
proof (induction bs arbitrary: k rule: rev_induct)
  case (snoc b bs)
  have "unat b < 256" by (rule unat_byte)
  moreover have "(of_nat (be_nat bs * 256 + unat b) :: byte) = b"
    by simp
  ultimately show ?case using snoc by auto
qed simp


subsection \<open>Number text (strconv)\<close>

text \<open>
  \<^verbatim>\<open>strconv.FormatUint\<close>, \<^verbatim>\<open>ParseUint\<close> and \<^verbatim>\<open>ParseInt\<close> in bases 10 and 16.  The parser
  checks each digit as it goes: a range error is reported at the digit that overflows, before
  any later character is looked at.
\<close>

definition digit_char :: "nat \<Rightarrow> char" where
  "digit_char d = (if d < 10 then char_of (48 + d) else char_of (87 + d))"

definition digit_val :: "char \<Rightarrow> nat option" where
  "digit_val c =
     (let k = of_char c :: nat in
      if 48 \<le> k \<and> k \<le> 57 then Some (k - 48)
      else if 97 \<le> k \<and> k \<le> 122 then Some (k - 87)
      else if 65 \<le> k \<and> k \<le> 90 then Some (k - 55)
      else None)"

fun formatUint :: "nat \<Rightarrow> nat \<Rightarrow> string" where
  "formatUint base n =
     (if base < 2 \<or> n < base then [digit_char n]
      else formatUint base (n div base) @ [digit_char (n mod base)])"

declare formatUint.simps [simp del]

fun parse_digits :: "nat \<Rightarrow> nat \<Rightarrow> nat \<Rightarrow> string \<Rightarrow> nat res" where
  "parse_digits base maxv acc [] = Inr acc"
| "parse_digits base maxv acc (c # cs) =
     (case digit_val c of
        None \<Rightarrow> Inl ErrSyntax
      | Some d \<Rightarrow>
          if base \<le> d then Inl ErrSyntax
          else if maxv < acc * base + d then Inl ErrRange
          else parse_digits base maxv (acc * base + d) cs)"

definition parseUint :: "string \<Rightarrow> nat \<Rightarrow> nat \<Rightarrow> nat res" where
  "parseUint s base bits =
     (if s = [] then Inl ErrSyntax else parse_digits base (2 ^ bits - 1) 0 s)"

definition parseInt :: "string \<Rightarrow> nat \<Rightarrow> nat \<Rightarrow> int res" where
  "parseInt s base bits =
     (case s of
        [] \<Rightarrow> Inl ErrSyntax
      | c # cs \<Rightarrow>
          let neg = (c = CHR ''-'');
              body = (if c = CHR ''-'' \<or> c = CHR ''+'' then cs else s)
          in case parseUint body base bits of
               Inl e \<Rightarrow> Inl e
             | Inr un \<Rightarrow>
                 if \<not> neg \<and> 2 ^ (bits - 1) \<le> un then Inl ErrRange
                 else if neg \<and> 2 ^ (bits - 1) < un then Inl ErrRange
                 else Inr (if neg then - int un else int un))"

definition formatInt :: "int \<Rightarrow> string" where
  "formatInt i = (if i < 0 then CHR ''-'' # formatUint 10 (nat (- i)) else formatUint 10 (nat i))"

lemma of_char_digit_char:
  "d < 36 \<Longrightarrow> (of_char (digit_char d) :: nat) = (if d < 10 then 48 + d else 87 + d)"
  by (simp add: digit_char_def)

lemma digit_val_char [simp]: "d < 36 \<Longrightarrow> digit_val (digit_char d) = Some d"
  by (auto simp: digit_val_def of_char_digit_char Let_def)

lemma formatUint_nonempty [simp]: "formatUint base n \<noteq> []"
  by (subst formatUint.simps) simp

lemma parse_digits_snoc:
  "parse_digits base maxv acc (xs @ ys) =
     (case parse_digits base maxv acc xs of Inl e \<Rightarrow> Inl e | Inr a \<Rightarrow> parse_digits base maxv a ys)"
  by (induction xs arbitrary: acc) (auto split: option.splits)

lemma parse_digits_format:
  "2 \<le> base \<Longrightarrow> base \<le> 36 \<Longrightarrow> n \<le> maxv \<Longrightarrow>
     parse_digits base maxv 0 (formatUint base n) = Inr n"
proof (induction base n rule: formatUint.induct)
  case (1 base n)
  show ?case
  proof (cases "n < base")
    case True
    with 1(2-4) show ?thesis by (subst formatUint.simps) simp
  next
    case False
    have le: "n div base \<le> maxv" using 1(4) by (meson div_le_dividend order_trans)
    from False 1(2) have "parse_digits base maxv 0 (formatUint base (n div base)) = Inr (n div base)"
      using 1(1) 1(3) le by simp
    moreover have m: "n mod base < base" using 1(2) by simp
    moreover have "n mod base < 36" using m 1(3) by linarith
    ultimately show ?thesis using False 1(2-4)
      by (subst formatUint.simps) (simp add: parse_digits_snoc not_le)
  qed
qed

lemma parseUint_format [simp]:
  "2 \<le> base \<Longrightarrow> base \<le> 36 \<Longrightarrow> n < 2 ^ bits \<Longrightarrow> parseUint (formatUint base n) base bits = Inr n"
  by (simp add: parseUint_def parse_digits_format)

lemma parse_digits_bound: "parse_digits base maxv acc cs = Inr n \<Longrightarrow> acc \<le> maxv \<Longrightarrow> n \<le> maxv"
  by (induction cs arbitrary: acc) (auto split: option.splits if_splits)

lemma parseUint_bound: "parseUint s base bits = Inr n \<Longrightarrow> n < 2 ^ bits"
  using parse_digits_bound [of base "2 ^ bits - 1" 0 s n]
  by (auto simp: parseUint_def split: if_splits intro: Nat.le_imp_less_Suc [THEN less_le_trans])

lemma formatUint_head_digit:
  "2 \<le> base \<Longrightarrow> base \<le> 36 \<Longrightarrow> formatUint base n = c # cs \<Longrightarrow> \<exists>d < 36. c = digit_char d"
proof (induction base n arbitrary: c cs rule: formatUint.induct)
  case (1 base n)
  show ?case
  proof (cases "n < base")
    case True
    with 1(2-4) have "c = digit_char n \<and> n < 36" by (simp add: formatUint.simps [of base n])
    then show ?thesis by blast
  next
    case False
    obtain x xs where x: "formatUint base (n div base) = x # xs"
      by (cases "formatUint base (n div base)") auto
    with False 1 show ?thesis by (auto simp: formatUint.simps [of base n])
  qed
qed

lemma digit_char_not_sign: "d < 36 \<Longrightarrow> digit_char d \<noteq> CHR ''-'' \<and> digit_char d \<noteq> CHR ''+''"
  using of_char_digit_char [of d] by (auto split: if_splits)

lemma parseInt_format:
  assumes "- (2 ^ (bits - 1)) \<le> i" "i < 2 ^ (bits - 1)" "0 < bits"
  shows "parseInt (formatInt i) 10 bits = Inr i"
proof -
  have lt: "nat \<bar>i\<bar> < 2 ^ bits"
  proof -
    have "\<bar>i\<bar> \<le> 2 ^ (bits - 1)" using assms by linarith
    also have "\<dots> < (2 :: int) ^ bits" using assms(3) by (simp add: power_strict_increasing)
    finally show ?thesis by (simp add: nat_less_iff)
  qed
  show ?thesis
  proof (cases "i < 0")
    case True
    then have p: "parseUint (formatUint 10 (nat (- i))) 10 bits = Inr (nat (- i))" using lt by simp
    have "nat (- i) \<le> 2 ^ (bits - 1)" using assms(1) by (simp add: nat_le_iff)
    then show ?thesis using True p by (simp add: parseInt_def formatInt_def)
  next
    case False
    then have p: "parseUint (formatUint 10 (nat i)) 10 bits = Inr (nat i)" using lt by simp
    obtain c cs where c: "formatUint 10 (nat i) = c # cs" by (cases "formatUint 10 (nat i)") auto
    then have "c \<noteq> CHR ''-'' \<and> c \<noteq> CHR ''+''"
      using formatUint_head_digit [of 10 "nat i" c cs] digit_char_not_sign by auto
    moreover have "nat i < 2 ^ (bits - 1)" using assms(2) False by (simp add: nat_less_iff)
    ultimately show ?thesis using False p c by (simp add: parseInt_def formatInt_def)
  qed
qed

subsection \<open>Byte-string search (strings, bytes)\<close>

fun index_byte :: "string \<Rightarrow> char \<Rightarrow> nat option" where
  "index_byte [] c = None"
| "index_byte (x # xs) c = (if x = c then Some 0 else map_option Suc (index_byte xs c))"

definition to_lower :: "char \<Rightarrow> char" where
  "to_lower c = (let k = of_char c :: nat in if 65 \<le> k \<and> k \<le> 90 then char_of (k + 32) else c)"

definition ToLower :: "string \<Rightarrow> string" where
  "ToLower s = map to_lower s"

lemma index_byte_None: "index_byte s c = None \<longleftrightarrow> c \<notin> set s"
  by (induction s) auto

lemma index_byte_Some:
  "index_byte s c = Some i \<Longrightarrow>
     i < length s \<and> s ! i = c \<and> c \<notin> set (take i s) \<and> s = take i s @ c # drop (Suc i) s"
  by (induction s arbitrary: i) (auto split: if_splits)

lemma index_byte_append [simp]: "c \<notin> set p \<Longrightarrow> index_byte (p @ c # s) c = Some (length p)"
  by (induction p) auto

text \<open>\<^verbatim>\<open>strings.Cut\<close> and \<^verbatim>\<open>strings.Split\<close> at a one-byte separator.\<close>

fun cut :: "char \<Rightarrow> string \<Rightarrow> string \<times> string \<times> bool" where
  "cut sep [] = ([], [], False)"
| "cut sep (c # cs) =
     (if c = sep then ([], cs, True) else (case cut sep cs of (a, b, f) \<Rightarrow> (c # a, b, f)))"

fun Split :: "char \<Rightarrow> string \<Rightarrow> string list" where
  "Split sep [] = [[]]"
| "Split sep (c # cs) =
     (if c = sep then [] # Split sep cs
      else case Split sep cs of [] \<Rightarrow> [[c]] | s # ss \<Rightarrow> (c # s) # ss)"

lemma Split_nonempty [simp]: "Split sep s \<noteq> []"
  by (cases s) (auto split: list.splits)

lemma Split_plain [simp]: "sep \<notin> set s \<Longrightarrow> Split sep s = [s]"
  by (induction s) auto

lemma Split_append: "sep \<notin> set s \<Longrightarrow> Split sep (s @ sep # t) = s # Split sep t"
  by (induction s) auto

text \<open>\<^verbatim>\<open>strings.Join\<close>, the inverse of Split where no part holds the separator.\<close>

fun Join :: "string list \<Rightarrow> string \<Rightarrow> string" where
  "Join [] sep = []"
| "Join [x] sep = x"
| "Join (x # xs) sep = x @ sep @ Join xs sep"

lemma Join_Cons: "xs \<noteq> [] \<Longrightarrow> Join (x # xs) sep = x @ sep @ Join xs sep"
  by (cases xs) simp_all

lemma Split_Join: "xs \<noteq> [] \<Longrightarrow> (\<forall>x \<in> set xs. c \<notin> set x) \<Longrightarrow> Split c (Join xs [c]) = xs"
proof (induction xs "[c]" rule: Join.induct)
  case (3 x y ys)
  then show ?case by (simp add: Split_append)
qed simp_all

lemma Split_parts: "x \<in> set (Split c s) \<Longrightarrow> c \<notin> set x"
proof (induction s arbitrary: x)
  case (Cons a s)
  then show ?case by (cases "Split c s") (auto split: if_splits)
qed simp

lemma Join_Split: "Join (Split c s) [c] = s"
proof (induction s)
  case (Cons a s)
  show ?case
  proof (cases "a = c")
    case True
    then show ?thesis using Cons by (simp add: Join_Cons)
  next
    case False
    obtain y ys where "Split c s = y # ys" by (meson neq_Nil_conv Split_nonempty)
    then show ?thesis using Cons False by (cases ys) simp_all
  qed
qed simp

lemma cut_none: "sep \<notin> set s \<Longrightarrow> cut sep s = (s, [], False)"
  by (induction s) auto

lemma cut_at: "sep \<notin> set a \<Longrightarrow> cut sep (a @ sep # b) = (a, b, True)"
  by (induction a) auto

lemma formatUint_chars: "c \<in> set (formatUint 10 n) \<Longrightarrow> \<exists>d < 10. c = digit_char d"
proof (induction "10 :: nat" n rule: formatUint.induct)
  case (1 n)
  show ?case
  proof (cases "n < 10")
    case True
    then have "c = digit_char n" using 1(2) by (subst (asm) formatUint.simps) simp
    then show ?thesis using True by blast
  next
    case False
    then have "c \<in> set (formatUint 10 (n div 10)) \<or> c = digit_char (n mod 10)"
      using 1(2) by (subst (asm) formatUint.simps) auto
    moreover have "n mod 10 < 10" by simp
    moreover have "\<not> ((10 :: nat) < 2 \<or> n < 10)" using False by simp
    ultimately show ?thesis using 1(1) by blast
  qed
qed

lemma digit_char_range: "d < 10 \<Longrightarrow> 48 \<le> (of_char (digit_char d) :: nat) \<and> (of_char (digit_char d) :: nat) \<le> 57"
  by (simp add: digit_char_def)

lemma formatUint_avoids: "(of_char c :: nat) < 48 \<or> 57 < (of_char c :: nat) \<Longrightarrow> c \<notin> set (formatUint 10 n)"
  using formatUint_chars digit_char_range by (metis not_le)

end
