(* ===== verification/SigMap.thy ===== *)
theory SigMap
  imports Main "HOL-Library.AList"
begin

text \<open>
  The synchronised containers of \<^verbatim>\<open>src/sig/map.go\<close> and \<^verbatim>\<open>src/sig/set.go\<close>.

  A \<^verbatim>\<open>sig.Map\<close> is an association list in the order an iteration visits it, keys distinct; every
  method runs under the map's lock, so each operation is one atomic step.  Go iterates a map in
  an unspecified order, so the theorems speak of sets and lookups, never of positions.
  A \<^verbatim>\<open>sig.Set\<close> keeps its items in insertion order beside a membership map.
\<close>

type_synonym ('k, 'v) gomap = "('k \<times> 'v) list"

definition map_inv :: "('k, 'v) gomap \<Rightarrow> bool" where
  "map_inv m \<longleftrightarrow> distinct (map fst m)"

definition Map_Get :: "('k, 'v) gomap \<Rightarrow> 'k \<Rightarrow> 'v option" where
  "Map_Get m k = map_of m k"

definition Map_Set :: "('k, 'v) gomap \<Rightarrow> 'k \<Rightarrow> 'v \<Rightarrow> 'v \<times> bool \<times> ('k, 'v) gomap" where
  "Map_Set m k v =
     (case map_of m k of
        Some old \<Rightarrow> (old, False, m)
      | None \<Rightarrow> (v, True, m @ [(k, v)]))"

definition Map_Replace :: "('k, 'v) gomap \<Rightarrow> 'k \<Rightarrow> 'v \<Rightarrow> 'v option \<times> ('k, 'v) gomap" where
  "Map_Replace m k v = (map_of m k, AList.update k v m)"

definition Map_Delete :: "('k, 'v) gomap \<Rightarrow> 'k \<Rightarrow> 'v option \<times> ('k, 'v) gomap" where
  "Map_Delete m k =
     (case map_of m k of
        None \<Rightarrow> (None, m)
      | Some old \<Rightarrow> (Some old, AList.delete k m))"

definition Map_Len :: "('k, 'v) gomap \<Rightarrow> nat" where
  "Map_Len m = length m"

definition Map_Clone :: "('k, 'v) gomap \<Rightarrow> ('k, 'v) gomap" where
  "Map_Clone m = fold (\<lambda>(k, v) c. AList.update k v c) m []"

definition Map_Keys :: "('k, 'v) gomap \<Rightarrow> 'k list" where
  "Map_Keys m = map fst m"

definition Map_Values :: "('k, 'v) gomap \<Rightarrow> 'v list" where
  "Map_Values m = map snd m"

definition Map_Select :: "('k \<Rightarrow> 'v \<Rightarrow> bool) \<Rightarrow> ('k, 'v) gomap \<Rightarrow> ('k, 'v) gomap" where
  "Map_Select f m = filter (\<lambda>(k, v). f k v) m"

text \<open>\<^verbatim>\<open>Each\<close> stops at the first error.\<close>

fun Map_Each :: "('k \<Rightarrow> 'v \<Rightarrow> 's \<Rightarrow> 'e option \<times> 's) \<Rightarrow> ('k, 'v) gomap \<Rightarrow> 's \<Rightarrow> 'e option \<times> 's" where
  "Map_Each f [] s = (None, s)"
| "Map_Each f ((k, v) # m) s =
     (case f k v s of (Some e, s1) \<Rightarrow> (Some e, s1) | (None, s1) \<Rightarrow> Map_Each f m s1)"

subsection \<open>The map interface\<close>

text \<open>
  What the registry and the routers rely on: \<^verbatim>\<open>Set\<close> never overwrites, \<^verbatim>\<open>Replace\<close> always does,
  \<^verbatim>\<open>Delete\<close> removes, and lookups of other keys are untouched.
\<close>

locale keyed_store =
  fixes lookup :: "'m \<Rightarrow> 'k \<Rightarrow> 'v option"
    and set_new :: "'m \<Rightarrow> 'k \<Rightarrow> 'v \<Rightarrow> 'v \<times> bool \<times> 'm"
    and remove :: "'m \<Rightarrow> 'k \<Rightarrow> 'v option \<times> 'm"
    and inv :: "'m \<Rightarrow> bool"
  assumes set_fresh: "inv m \<Longrightarrow> lookup m k = None \<Longrightarrow>
      \<exists>m'. set_new m k v = (v, True, m') \<and> inv m' \<and> lookup m' = (lookup m)(k \<mapsto> v)"
    and set_taken: "inv m \<Longrightarrow> lookup m k = Some old \<Longrightarrow> set_new m k v = (old, False, m)"
    and remove_law: "inv m \<Longrightarrow> inv (snd (remove m k)) \<and>
      fst (remove m k) = lookup m k \<and> lookup (snd (remove m k)) = (lookup m)(k := None)"
begin

lemma set_new_inv: "inv m \<Longrightarrow> inv (snd (snd (set_new m k v)))"
  using set_fresh [of m k v] set_taken [of m k _ v] by (cases "lookup m k") auto

lemma set_new_lookup:
  "inv m \<Longrightarrow> lookup (snd (snd (set_new m k v))) j =
     (if j = k then Some (case lookup m k of None \<Rightarrow> v | Some old \<Rightarrow> old) else lookup m j)"
  using set_fresh [of m k v] set_taken [of m k _ v] by (cases "lookup m k") auto

text \<open>Set and then Delete of a fresh key is the identity on lookups.\<close>

lemma set_then_remove:
  "inv m \<Longrightarrow> lookup m k = None \<Longrightarrow> lookup (snd (remove (snd (snd (set_new m k v))) k)) = lookup m"
  using set_fresh [of m k v] remove_law by fastforce

text \<open>The first of two Sets of one key wins, whatever runs in between on other keys.\<close>

lemma first_set_wins:
  "inv m \<Longrightarrow> lookup m k = None \<Longrightarrow> j \<noteq> k \<Longrightarrow>
     lookup (snd (snd (set_new (snd (snd (set_new (snd (snd (set_new m k v))) j u))) k w))) k = Some v"
  by (simp add: set_new_lookup set_new_inv)

end

interpretation gm: keyed_store Map_Get Map_Set Map_Delete map_inv
proof unfold_locales
  fix m :: "('k \<times> 'v) list" and k v
  assume "map_inv m" and n: "Map_Get m k = None"
  then have "k \<notin> fst ` set m" by (simp add: Map_Get_def map_of_eq_None_iff)
  with \<open>map_inv m\<close> show "\<exists>m'. Map_Set m k v = (v, True, m') \<and> map_inv m' \<and> Map_Get m' = (Map_Get m)(k \<mapsto> v)"
    using n by (auto simp: Map_Set_def Map_Get_def map_inv_def map_add_def fun_eq_iff split: option.splits)
next
  fix m :: "('k \<times> 'v) list" and k old v
  assume "map_inv m" and "Map_Get m k = Some old"
  then show "Map_Set m k v = (old, False, m)" by (simp add: Map_Set_def Map_Get_def)
next
  fix m :: "('k \<times> 'v) list" and k
  assume inv: "map_inv m"
  then have "distinct (map fst (AList.delete k m))" by (simp add: map_inv_def distinct_delete)
  with inv show "map_inv (snd (Map_Delete m k)) \<and> fst (Map_Delete m k) = Map_Get m k \<and>
      Map_Get (snd (Map_Delete m k)) = (Map_Get m)(k := None)"
    by (auto simp: Map_Delete_def Map_Get_def map_inv_def delete_conv fun_eq_iff split: option.splits)
qed

lemma Map_Clone_lookup: "map_inv m \<Longrightarrow> Map_Get (Map_Clone m) = Map_Get m"
proof -
  have "map_of (fold (\<lambda>(k, v) c. AList.update k v c) m c) = map_of c ++ map_of m" if "distinct (map fst m)" for c
    using that
  proof (induction m arbitrary: c)
    case (Cons p m)
    obtain k v where p: "p = (k, v)" by force
    have "map_of m k = None" using Cons.prems p by (auto simp: map_of_eq_None_iff)
    then show ?case using Cons p by (auto simp: update_conv' fun_eq_iff map_add_def split: option.splits)
  qed simp
  then show "map_inv m \<Longrightarrow> ?thesis"
    by (simp add: Map_Clone_def Map_Get_def map_inv_def fun_eq_iff)
qed

lemma Map_Replace_lookup: "Map_Get (snd (Map_Replace m k v)) = (Map_Get m)(k \<mapsto> v)"
  by (simp add: Map_Replace_def Map_Get_def update_conv' fun_eq_iff)

lemma Map_Replace_inv: "map_inv m \<Longrightarrow> map_inv (snd (Map_Replace m k v))"
  by (simp add: Map_Replace_def map_inv_def distinct_update)

subsection \<open>Sets\<close>

record 'a goset =
  items :: "'a list"
  dup :: "'a set"

definition Set_empty :: "'a goset" where
  "Set_empty = \<lparr>items = [], dup = {}\<rparr>"

definition set_inv :: "'a goset \<Rightarrow> bool" where
  "set_inv s \<longleftrightarrow> distinct (items s) \<and> set (items s) = dup s"

text \<open>\<^verbatim>\<open>Add\<close> skips what is already there and reports the index of each duplicate.\<close>

fun Set_Add_loop :: "nat \<Rightarrow> 'a list \<Rightarrow> 'a goset \<Rightarrow> nat list \<Rightarrow> nat list \<times> 'a goset" where
  "Set_Add_loop idx [] s errs = (errs, s)"
| "Set_Add_loop idx (x # xs) s errs =
     (if x \<in> dup s then Set_Add_loop (Suc idx) xs s (errs @ [idx])
      else Set_Add_loop (Suc idx) xs \<lparr>items = items s @ [x], dup = insert x (dup s)\<rparr> errs)"

definition Set_Add :: "'a list \<Rightarrow> 'a goset \<Rightarrow> nat list \<times> 'a goset" where
  "Set_Add xs s = Set_Add_loop 0 xs s []"

definition Set_Remove :: "'a \<Rightarrow> 'a goset \<Rightarrow> bool \<times> 'a goset" where
  "Set_Remove x s =
     (if x \<notin> dup s then (False, s)
      else (True, \<lparr>items = remove1 x (items s), dup = dup s - {x}\<rparr>))"

definition Set_Clear :: "'a goset \<Rightarrow> 'a goset" where
  "Set_Clear s = \<lparr>items = [], dup = {}\<rparr>"

definition Set_Contains :: "'a goset \<Rightarrow> 'a \<Rightarrow> bool" where
  "Set_Contains s x \<longleftrightarrow> x \<in> dup s"

definition Set_Clone :: "'a goset \<Rightarrow> 'a list" where
  "Set_Clone s = items s"

definition Set_Count :: "'a goset \<Rightarrow> nat" where
  "Set_Count s = length (items s)"

definition Set_Select :: "('a \<Rightarrow> bool) \<Rightarrow> 'a goset \<Rightarrow> 'a list" where
  "Set_Select f s = filter f (items s)"

definition Set_Sort :: "('a \<Rightarrow> 'b::linorder) \<Rightarrow> 'a goset \<Rightarrow> 'a goset" where
  "Set_Sort key s = s\<lparr>items := sort_key key (items s)\<rparr>"

lemma Set_Add_loop_inv: "set_inv s \<Longrightarrow> set_inv (snd (Set_Add_loop idx xs s errs))"
  by (induction xs arbitrary: idx s errs) (auto simp: set_inv_def)

lemma Set_Add_loop_dup: "dup (snd (Set_Add_loop idx xs s errs)) = dup s \<union> set xs"
  by (induction xs arbitrary: idx s errs) (auto simp: set_inv_def)

lemma Set_Remove_inv: "set_inv s \<Longrightarrow> set_inv (snd (Set_Remove x s))"
  by (auto simp: set_inv_def Set_Remove_def set_remove1_eq)

lemma Set_Sort_inv: "set_inv s \<Longrightarrow> set_inv (Set_Sort key s)"
  by (simp add: set_inv_def Set_Sort_def)

text \<open>The collection interface the priority router relies on.\<close>

locale collection =
  fixes add :: "'a list \<Rightarrow> 's \<Rightarrow> nat list \<times> 's" and remove :: "'a \<Rightarrow> 's \<Rightarrow> bool \<times> 's"
    and contains :: "'s \<Rightarrow> 'a \<Rightarrow> bool" and elems :: "'s \<Rightarrow> 'a list" and inv :: "'s \<Rightarrow> bool"
  assumes add_inv: "inv s \<Longrightarrow> inv (snd (add xs s))"
    and add_contains: "inv s \<Longrightarrow> contains (snd (add xs s)) y = (contains s y \<or> y \<in> set xs)"
    and remove_inv: "inv s \<Longrightarrow> inv (snd (remove x s))"
    and remove_contains: "inv s \<Longrightarrow> contains (snd (remove x s)) y = (contains s y \<and> y \<noteq> x)"
    and remove_reports: "inv s \<Longrightarrow> fst (remove x s) = contains s x"
    and elems_contains: "inv s \<Longrightarrow> set (elems s) = {x. contains s x}"
    and elems_distinct: "inv s \<Longrightarrow> distinct (elems s)"
begin

lemma elems_add: "inv s \<Longrightarrow> set (elems (snd (add xs s))) = set (elems s) \<union> set xs"
proof -
  assume s: "inv s"
  show ?thesis
    unfolding elems_contains [OF s] elems_contains [OF add_inv [OF s]] add_contains [OF s] by blast
qed

lemma elems_remove: "inv s \<Longrightarrow> set (elems (snd (remove x s))) = set (elems s) - {x}"
proof -
  assume s: "inv s"
  show ?thesis
    unfolding elems_contains [OF s] elems_contains [OF remove_inv [OF s]] remove_contains [OF s] by blast
qed

lemma length_elems_remove:
  assumes "inv s" "contains s x"
  shows "Suc (length (elems (snd (remove x s)))) = length (elems s)"
proof -
  have "card (set (elems (snd (remove x s)))) = card (set (elems s) - {x})"
    using assms by (simp add: elems_remove)
  moreover have "x \<in> set (elems s)" using assms by (simp add: elems_contains)
  ultimately show ?thesis
    using assms elems_distinct [OF assms(1)] elems_distinct [OF remove_inv [OF assms(1), of x]]
      card_Suc_Diff1 [of "set (elems s)" x] by (simp add: distinct_card)
qed

end

interpretation gs: collection Set_Add Set_Remove Set_Contains Set_Clone set_inv
proof unfold_locales
  fix s :: "'a goset" and xs x y
  assume s: "set_inv s"
  show "set_inv (snd (Set_Add xs s))" using s by (simp add: Set_Add_def Set_Add_loop_inv)
  show "Set_Contains (snd (Set_Add xs s)) y = (Set_Contains s y \<or> y \<in> set xs)"
    by (simp add: Set_Contains_def Set_Add_def Set_Add_loop_dup)
  show "set_inv (snd (Set_Remove x s))" using s by (rule Set_Remove_inv)
  show "Set_Contains (snd (Set_Remove x s)) y = (Set_Contains s y \<and> y \<noteq> x)"
    by (auto simp: Set_Contains_def Set_Remove_def)
  show "fst (Set_Remove x s) = Set_Contains s x" by (simp add: Set_Contains_def Set_Remove_def)
  show "set (Set_Clone s) = {x. Set_Contains s x}" and "distinct (Set_Clone s)"
    using s by (simp_all add: set_inv_def Set_Clone_def Set_Contains_def)
qed

end
