(* ===== verification/Blueprint.thy ===== *)
theory Blueprint
  imports Go_Prelude SigMap
begin

text \<open>
  Runtime type descriptors: \<^verbatim>\<open>src/astral/blueprint.go\<close> (Blueprint, Field, Kind,
  \<^verbatim>\<open>validateBlueprint\<close>, \<^verbatim>\<open>validateSpec\<close>), the seven Spec carriers (\<^verbatim>\<open>*_spec.go\<close>), and the
  defensive copy of \<^verbatim>\<open>blueprints.go\<close>.  An interface-typed \<^verbatim>\<open>Field.Spec\<close> that is Go's nil is
  \<open>None\<close>.  The lemmas characterise acceptance (\<open>validateBlueprint_ok_iff\<close>) and show that an
  accepted blueprint has what construction and the JSON codec rely on.
\<close>

subsection \<open>Data\<close>

datatype spec =
    PrimitiveSpec (PrimitiveType: string)
  | RefSpec string
  | SliceSpec string
  | ArraySpec string "32 word"
  | MapSpec string string
  | PtrSpec string
  | ObjectSpec

record field =
  Name :: string
  Spec :: "spec option"

record blueprint =
  Type :: string
  Fields :: "field list"
  Underlying :: string

datatype BlueprintKind = BlueprintKindStruct | BlueprintKindAlias

definition Kind :: "blueprint \<Rightarrow> BlueprintKind" where
  "Kind bp = (if Underlying bp \<noteq> [] then BlueprintKindAlias else BlueprintKindStruct)"

definition NewBlueprint :: "string \<Rightarrow> field list \<Rightarrow> blueprint" where
  "NewBlueprint typeName fs = \<lparr>Type = typeName, Fields = fs, Underlying = []\<rparr>"

definition NewBlueprintAlias :: "string \<Rightarrow> string \<Rightarrow> blueprint" where
  "NewBlueprintAlias typeName underlying = \<lparr>Type = typeName, Fields = [], Underlying = underlying\<rparr>"

definition isASCII :: "string \<Rightarrow> bool" where
  "isASCII s = (\<forall>c \<in> set s. \<not> ((of_char c :: nat) < 0x20 \<or> (of_char c :: nat) > 0x7E))"

definition MaxBlueprintNameLen :: nat where "MaxBlueprintNameLen = 255"
definition MaxArraySpecLength :: nat where "MaxArraySpecLength = 2 ^ 16"

fun ReferencedType :: "spec \<Rightarrow> string" where
  "ReferencedType (PrimitiveSpec p) = []"
| "ReferencedType (RefSpec t) = t"
| "ReferencedType (SliceSpec t) = t"
| "ReferencedType (ArraySpec t n) = t"
| "ReferencedType (MapSpec k v) = v"
| "ReferencedType (PtrSpec t) = t"
| "ReferencedType ObjectSpec = []"

text \<open>
  What \<^verbatim>\<open>f.Spec.ReferencedType()\<close> yields.  A nil Spec would panic; every caller runs on
  validated blueprints, which have none (\<open>validated_specs\<close>).
\<close>

definition field_ref :: "field \<Rightarrow> string" where
  "field_ref f = (case Spec f of None \<Rightarrow> [] | Some s \<Rightarrow> ReferencedType s)"

definition primitiveAllowlist :: "string list" where
  "primitiveAllowlist =
     [''string8'', ''string16'', ''string32'', ''string64'',
      ''uint8'', ''uint16'', ''uint32'', ''uint64'',
      ''bytes8'', ''bytes16'', ''bytes32'', ''bytes64'',
      ''bool'', ''time'', ''identity'', ''object_id.sha256'',
      ''nonce64'', ''duration'', ''zone'']"

definition isAllowedPrimitive :: "string \<Rightarrow> bool" where
  "isAllowedPrimitive name = list_ex (\<lambda>p. p = name) primitiveAllowlist"

definition IsPrimitiveType :: "string \<Rightarrow> bool" where
  "IsPrimitiveType name = isAllowedPrimitive name"

definition mapKeyAllowlist :: "string list" where
  "mapKeyAllowlist = [''string16'', ''uint8'', ''uint16'', ''uint32'', ''uint64'']"

definition isAllowedMapKey :: "string \<Rightarrow> bool" where
  "isAllowedMapKey name = list_ex (\<lambda>k. k = name) mapKeyAllowlist"

subsection \<open>Validation\<close>

fun validateSpec :: "spec option \<Rightarrow> error option" where
  "validateSpec (Some (PrimitiveSpec p)) =
     (if isAllowedPrimitive p then None else Some (ErrBlueprintInvalid ''primitive not in allowlist''))"
| "validateSpec (Some (RefSpec t)) =
     (if t = [] then Some (ErrBlueprintInvalid ''RefSpec.Type empty'') else None)"
| "validateSpec (Some (SliceSpec t)) = None"
| "validateSpec (Some (ArraySpec t n)) =
     (if MaxArraySpecLength < unat n then Some (ErrBlueprintInvalid ''ArraySpec.Length exceeds'') else None)"
| "validateSpec (Some (MapSpec k v)) =
     (if isAllowedMapKey k then None else Some (ErrBlueprintInvalid ''MapSpec.KeyType not in allowlist''))"
| "validateSpec (Some (PtrSpec t)) =
     (if t = [] then Some (ErrBlueprintInvalid ''PtrSpec.Type empty'') else None)"
| "validateSpec (Some ObjectSpec) = None"
| "validateSpec None = Some (ErrBlueprintInvalid ''unknown Spec'')"

definition selfReference :: "string \<Rightarrow> spec option \<Rightarrow> error option" where
  "selfReference typ sp =
     (case sp of
        Some (RefSpec t) \<Rightarrow> if t = typ then Some (ErrBlueprintInvalid ''self-referential RefSpec'') else None
      | Some (PtrSpec t) \<Rightarrow> if t = typ then Some (ErrBlueprintInvalid ''self-referential PtrSpec'') else None
      | _ \<Rightarrow> None)"

text \<open>The field loop; \<open>seen\<close> holds the lower-cased names met so far.\<close>

fun validateFields :: "string \<Rightarrow> string list \<Rightarrow> field list \<Rightarrow> error option" where
  "validateFields typ seen [] = None"
| "validateFields typ seen (f # fs) =
     (let name = Name f; key = ToLower name in
      if name = [] then Some (ErrBlueprintInvalid ''empty Field.Name'')
      else if \<not> isASCII name then Some (ErrBlueprintInvalid ''Field.Name must be ASCII'')
      else if MaxBlueprintNameLen < length name then Some (ErrBlueprintInvalid ''Field.Name exceeds'')
      else if key \<in> set seen then Some (ErrBlueprintInvalid ''duplicate Field'')
      else case selfReference typ (Spec f) of
        Some e \<Rightarrow> Some e
      | None \<Rightarrow>
          (case validateSpec (Spec f) of
             Some e \<Rightarrow> Some e
           | None \<Rightarrow> validateFields typ (key # seen) fs))"

definition validateBlueprint :: "blueprint option \<Rightarrow> error option" where
  "validateBlueprint obp =
     (case obp of
        None \<Rightarrow> Some (ErrBlueprintInvalid ''empty Type'')
      | Some bp \<Rightarrow>
          if Type bp = [] then Some (ErrBlueprintInvalid ''empty Type'')
          else if \<not> isASCII (Type bp) then Some (ErrBlueprintInvalid ''Type must be ASCII'')
          else if MaxBlueprintNameLen < length (Type bp) then Some (ErrBlueprintInvalid ''Type exceeds'')
          else if Underlying bp \<noteq> [] \<and> 0 < length (Fields bp)
            then Some (ErrBlueprintInvalid ''kind ambiguous'')
          else if Kind bp = BlueprintKindAlias then
            (if isAllowedPrimitive (Underlying bp) then None
             else Some (ErrBlueprintInvalid ''Underlying not in primitive allowlist''))
          else validateFields (Type bp) [] (Fields bp))"

subsection \<open>The defensive copy\<close>

text \<open>
  Values have no identity in this model, so a copy is the value rebuilt constructor by
  constructor as the code rebuilds it; \<open>cloneBlueprint_id\<close> is the faithfulness of the copy.
\<close>

definition cloneSpec :: "spec option \<Rightarrow> spec option" where
  "cloneSpec s =
     (case s of
        Some (PrimitiveSpec p) \<Rightarrow> Some (PrimitiveSpec p)
      | Some (RefSpec t) \<Rightarrow> Some (RefSpec t)
      | Some (SliceSpec t) \<Rightarrow> Some (SliceSpec t)
      | Some (ArraySpec t n) \<Rightarrow> Some (ArraySpec t n)
      | Some (MapSpec k v) \<Rightarrow> Some (MapSpec k v)
      | Some (PtrSpec t) \<Rightarrow> Some (PtrSpec t)
      | Some ObjectSpec \<Rightarrow> Some ObjectSpec
      | None \<Rightarrow> None)"

definition cloneBlueprint :: "blueprint \<Rightarrow> blueprint" where
  "cloneBlueprint bp =
     \<lparr>Type = Type bp,
      Fields = (if 0 < length (Fields bp)
                then map (\<lambda>f. \<lparr>Name = Name f, Spec = cloneSpec (Spec f)\<rparr>) (Fields bp) else []),
      Underlying = Underlying bp\<rparr>"

subsection \<open>Facts\<close>

lemma isAllowedPrimitive_iff: "isAllowedPrimitive name \<longleftrightarrow> name \<in> set primitiveAllowlist"
  by (auto simp: isAllowedPrimitive_def list_ex_iff)

lemma isAllowedMapKey_iff: "isAllowedMapKey name \<longleftrightarrow> name \<in> set mapKeyAllowlist"
  by (auto simp: isAllowedMapKey_def list_ex_iff)

lemma cloneSpec_id [simp]: "cloneSpec s = s"
  by (simp add: cloneSpec_def split: option.splits spec.splits)

lemma cloneBlueprint_id [simp]: "cloneBlueprint bp = bp"
proof -
  have "map (\<lambda>f. \<lparr>Name = Name f, Spec = Spec f\<rparr>) fs = fs" for fs :: "field list"
    by (induction fs) simp_all
  then show ?thesis by (simp add: cloneBlueprint_def)
qed

definition good_name :: "string \<Rightarrow> bool" where
  "good_name s \<longleftrightarrow> s \<noteq> [] \<and> isASCII s \<and> length s \<le> MaxBlueprintNameLen"

definition good_field :: "string \<Rightarrow> field \<Rightarrow> bool" where
  "good_field typ f \<longleftrightarrow>
     good_name (Name f) \<and> validateSpec (Spec f) = None \<and>
     Spec f \<noteq> Some (RefSpec typ) \<and> Spec f \<noteq> Some (PtrSpec typ)"

lemma selfReference_None:
  "selfReference typ sp = None \<longleftrightarrow> sp \<noteq> Some (RefSpec typ) \<and> sp \<noteq> Some (PtrSpec typ)"
  by (auto simp: selfReference_def split: option.splits spec.splits)

lemma good_field_alt:
  "good_field typ f \<longleftrightarrow>
     good_name (Name f) \<and> validateSpec (Spec f) = None \<and> selfReference typ (Spec f) = None"
  by (simp add: good_field_def selfReference_None)

lemma validateFields_ok_iff:
  "validateFields typ seen fs = None \<longleftrightarrow>
     (\<forall>f \<in> set fs. good_field typ f) \<and> distinct (map (\<lambda>f. ToLower (Name f)) fs) \<and>
     set seen \<inter> (\<lambda>f. ToLower (Name f)) ` set fs = {}"
proof (induction fs arbitrary: seen)
  case (Cons f fs)
  have "validateFields typ seen (f # fs) = None \<longleftrightarrow>
      good_field typ f \<and> ToLower (Name f) \<notin> set seen \<and>
      validateFields typ (ToLower (Name f) # seen) fs = None"
    by (auto simp: good_field_alt good_name_def Let_def split: option.splits)
  then show ?case using Cons.IH [of "ToLower (Name f) # seen"] by auto
qed simp

lemma validateBlueprint_ok_iff:
  "validateBlueprint (Some bp) = None \<longleftrightarrow>
     good_name (Type bp) \<and>
     (Underlying bp \<noteq> [] \<and> Fields bp = [] \<and> isAllowedPrimitive (Underlying bp) \<or>
      Underlying bp = [] \<and> (\<forall>f \<in> set (Fields bp). good_field (Type bp) f) \<and>
      distinct (map (\<lambda>f. ToLower (Name f)) (Fields bp)))"
  by (auto simp: validateBlueprint_def good_name_def Kind_def validateFields_ok_iff)

lemma validateBlueprint_error:
  "validateBlueprint obp = Some e \<Longrightarrow> \<exists>m. e = ErrBlueprintInvalid m"
proof -
  have sp: "validateSpec s = Some e \<Longrightarrow> \<exists>m. e = ErrBlueprintInvalid m" for s e
    by (cases s rule: validateSpec.cases) (auto split: if_splits)
  have sr: "selfReference t s = Some e \<Longrightarrow> \<exists>m. e = ErrBlueprintInvalid m" for t s e
    by (auto simp: selfReference_def split: option.splits spec.splits if_splits)
  have vf: "validateFields t seen fs = Some e \<Longrightarrow> \<exists>m. e = ErrBlueprintInvalid m" for t seen fs e
    by (induction fs arbitrary: seen)
      (auto simp: Let_def split: if_splits option.splits intro: sr sp)
  show "validateBlueprint obp = Some e \<Longrightarrow> ?thesis"
    by (auto simp: validateBlueprint_def split: option.splits if_splits intro: vf)
qed

lemma validated_names_distinct:
  "validateBlueprint (Some bp) = None \<Longrightarrow> distinct (map Name (Fields bp))"
  by (auto simp: validateBlueprint_ok_iff distinct_map inj_on_def)

lemma validated_specs:
  "validateBlueprint (Some bp) = None \<Longrightarrow> f \<in> set (Fields bp) \<Longrightarrow> \<exists>s. Spec f = Some s"
  by (cases "Spec f") (auto simp: validateBlueprint_ok_iff good_field_def)

lemma validated_array_bound:
  "validateBlueprint (Some bp) = None \<Longrightarrow> f \<in> set (Fields bp) \<Longrightarrow> Spec f = Some (ArraySpec t n) \<Longrightarrow>
     unat n \<le> 2 ^ 16"
  by (auto simp: validateBlueprint_ok_iff good_field_def MaxArraySpecLength_def split: if_splits)

end
