(* ===== verification/Ledger.thy ===== *)
theory Ledger
  imports Go_Prelude
begin

text \<open>
  The per-call resource ledger of the codec and the streams it guards:
  \<^verbatim>\<open>src/astral/depth.go\<close> (budget, objectReader, objectWriter), \<^verbatim>\<open>read_bounded.go\<close>,
  \<^verbatim>\<open>write_payload.go\<close> and \<^verbatim>\<open>build_budget.go\<close>.

  A stream is an in-memory one (\<^verbatim>\<open>bytes.Reader\<close> / \<^verbatim>\<open>bytes.Buffer\<close>): \<open>inp\<close> is what is still
  to be read, \<open>out\<close> what was written.  The ledger field is \<open>None\<close> on a naked stream and
  \<open>Some b\<close> once a codec entry wrapped it, so \<^verbatim>\<open>attachReader\<close> and \<^verbatim>\<open>attachWriter\<close> are the
  change from \<open>None\<close> to a fresh ledger for the extent of one call.  A codec operation
  returns the error (or value), the byte count \<^verbatim>\<open>n\<close> that the Go function reports, and the
  stream afterwards.  The second half states the round-trip contract \<open>reads_back\<close> and the
  composition rules every codec of the development is proved with.
\<close>

subsection \<open>The ledger\<close>

definition MaxBlueprintDepth :: nat where "MaxBlueprintDepth = 64"
definition MaxCodecFrames :: nat where "MaxCodecFrames = 2 ^ 20"
definition MaxCodecBytes :: nat where "MaxCodecBytes = 2 ^ 28"

record budget =
  depth :: nat
  frames :: nat
  nbytes :: nat

definition fresh_budget :: budget where
  "fresh_budget = \<lparr>depth = 0, frames = 0, nbytes = 0\<rparr>"

definition enter :: "budget \<Rightarrow> error option \<times> budget" where
  "enter b =
     (let b1 = b\<lparr>depth := depth b + 1\<rparr> in
      if MaxBlueprintDepth < depth b1 then (Some ErrDepthExceeded, b1)
      else let b2 = b1\<lparr>frames := frames b1 + 1\<rparr> in
        if MaxCodecFrames < frames b2 then (Some ErrDepthExceeded, b2) else (None, b2))"

definition exit :: "budget \<Rightarrow> budget" where
  "exit b = b\<lparr>depth := depth b - 1\<rparr>"

definition charge :: "nat \<Rightarrow> budget \<Rightarrow> error option \<times> budget" where
  "charge n b =
     (if n = 0 then (None, b)
      else let b1 = b\<lparr>nbytes := nbytes b + n\<rparr> in
        if MaxCodecBytes < nbytes b1 then (Some ErrDepthExceeded, b1) else (None, b1))"

subsection \<open>Streams\<close>

record rstate =
  inp :: bytes
  rb :: "budget option"

record wstate =
  out :: bytes
  wb :: "budget option"

type_synonym writer = "wstate \<Rightarrow> error option \<times> nat \<times> wstate"
type_synonym 'a reader = "rstate \<Rightarrow> 'a res \<times> nat \<times> rstate"

definition Write :: "bytes \<Rightarrow> writer" where
  "Write p w =
     (let w1 = w\<lparr>out := out w @ p\<rparr> in
      case wb w of
        None \<Rightarrow> (None, length p, w1)
      | Some b \<Rightarrow> (let (e, b1) = charge (length p) b in (e, length p, w1\<lparr>wb := Some b1\<rparr>)))"

definition room :: "budget option \<Rightarrow> nat \<Rightarrow> nat" where
  "room ob want = (case ob of None \<Rightarrow> want | Some b \<Rightarrow> min want (MaxCodecBytes - nbytes b))"

definition spend :: "nat \<Rightarrow> budget option \<Rightarrow> budget option" where
  "spend k ob = map_option (\<lambda>b. b\<lparr>nbytes := nbytes b + k\<rparr>) ob"

text \<open>
  \<^verbatim>\<open>objectReader.Read\<close> hands over at most the bytes the ledger still allows; \<^verbatim>\<open>io.ReadFull\<close>
  calls it until the buffer is full or it reports an error.  A short read at the end of the
  input is \<^verbatim>\<open>io.EOF\<close> when nothing was read and \<^verbatim>\<open>io.ErrUnexpectedEOF\<close> otherwise; a read the
  ledger cut short ends with the budget error.
\<close>

definition ReadFull :: "nat \<Rightarrow> bytes reader" where
  "ReadFull want r =
     (if want = 0 then (Inr [], 0, r)
      else let allowed = room (rb r) want;
               k = min allowed (length (inp r));
               r1 = r\<lparr>inp := drop k (inp r), rb := spend k (rb r)\<rparr>
        in if k = want then (Inr (take k (inp r)), k, r1)
           else if k = allowed then (Inl ErrDepthExceeded, k, r1)
           else if k = 0 then (Inl IoEOF, 0, r1)
           else (Inl IoUnexpectedEOF, k, r1))"

subsection \<open>Sequencing\<close>

text \<open>
  The shape every codec method has: run a step, return its error at once, otherwise run the
  next one and add the counts.
\<close>

definition wskip :: writer where
  "wskip w = (None, 0, w)"

definition wfail :: "error \<Rightarrow> writer" where
  "wfail e w = (Some e, 0, w)"

definition wseq :: "writer \<Rightarrow> writer \<Rightarrow> writer" where
  "wseq m1 m2 w =
     (case m1 w of
        (Some e, n, w1) \<Rightarrow> (Some e, n, w1)
      | (None, n, w1) \<Rightarrow> (case m2 w1 of (e, m, w2) \<Rightarrow> (e, n + m, w2)))"

definition rret :: "'a \<Rightarrow> 'a reader" where
  "rret v r = (Inr v, 0, r)"

definition rfail :: "error \<Rightarrow> 'a reader" where
  "rfail e r = (Inl e, 0, r)"

definition rbind :: "'a reader \<Rightarrow> ('a \<Rightarrow> 'b reader) \<Rightarrow> 'b reader" where
  "rbind m f r =
     (case m r of
        (Inl e, n, r1) \<Rightarrow> (Inl e, n, r1)
      | (Inr v, n, r1) \<Rightarrow> (case f v r1 of (x, k, r2) \<Rightarrow> (x, n + k, r2)))"

definition rmap :: "('a \<Rightarrow> 'b) \<Rightarrow> 'a reader \<Rightarrow> 'b reader" where
  "rmap f m = rbind m (\<lambda>v. rret (f v))"

text \<open>
  A guarded frame: attach a ledger when the stream has none, enter, run the body, and unwind
  the depth on every path (\<^verbatim>\<open>enterWriter\<close> / \<^verbatim>\<open>enterReader\<close> with the deferred exit).
\<close>

definition attach :: "budget option \<Rightarrow> budget" where
  "attach ob = (case ob of None \<Rightarrow> fresh_budget | Some b \<Rightarrow> b)"

definition detach :: "budget option \<Rightarrow> budget option \<Rightarrow> budget option" where
  "detach orig now = (case orig of None \<Rightarrow> None | Some _ \<Rightarrow> map_option exit now)"

definition wframe :: "writer \<Rightarrow> writer" where
  "wframe body w =
     (case enter (attach (wb w)) of
        (Some e, b1) \<Rightarrow> (Some e, 0, w\<lparr>wb := detach (wb w) (Some b1)\<rparr>)
      | (None, b1) \<Rightarrow>
          (case body (w\<lparr>wb := Some b1\<rparr>) of
             (e, n, w1) \<Rightarrow> (e, n, w1\<lparr>wb := detach (wb w) (wb w1)\<rparr>)))"

definition rframe :: "'a reader \<Rightarrow> 'a reader" where
  "rframe body r =
     (case enter (attach (rb r)) of
        (Some e, b1) \<Rightarrow> (Inl e, 0, r\<lparr>rb := detach (rb r) (Some b1)\<rparr>)
      | (None, b1) \<Rightarrow>
          (case body (r\<lparr>rb := Some b1\<rparr>) of
             (v, n, r1) \<Rightarrow> (v, n, r1\<lparr>rb := detach (rb r) (rb r1)\<rparr>)))"

subsection \<open>Length-prefixed payloads\<close>

definition growChunk :: nat where "growChunk = 64 * 2 ^ 10"

definition writePayload :: "bytes \<Rightarrow> writer" where
  "writePayload b w = (if b = [] then (None, 0, w) else Write b w)"

text \<open>
  \<^verbatim>\<open>readNBytes\<close>: the loop counts down the bytes still wanted (\<^verbatim>\<open>want - len(buf)\<close>); each round
  reads at most one chunk, and a round that sees the end of the input reports an
  unexpected end.
\<close>

function readNBytes_loop :: "nat \<Rightarrow> bytes \<Rightarrow> nat \<Rightarrow> bytes reader" where
  "readNBytes_loop left buf n r =
     (if 0 < left then
        (let grow = min left growChunk in
         case ReadFull grow r of
           (Inr chunk, m, r1) \<Rightarrow> readNBytes_loop (left - grow) (buf @ chunk) (n + m) r1
         | (Inl e, m, r1) \<Rightarrow> (Inl (if e = IoEOF then IoUnexpectedEOF else e), n + m, r1))
      else (Inr buf, n, r))"
  by pat_completeness auto
termination
  by (relation "measure (\<lambda>(left, buf, n, r). left)") (auto simp: growChunk_def)

declare readNBytes_loop.simps [simp del]

definition readNBytes :: "nat \<Rightarrow> bytes reader" where
  "readNBytes want r = (if want = 0 then (Inr [], 0, r) else readNBytes_loop want [] 0 r)"

subsection \<open>The construction budget\<close>

definition MaxBlueprintNodes :: nat where "MaxBlueprintNodes = 4096"

definition newBuildBudget :: nat where "newBuildBudget = MaxBlueprintNodes"

definition take_node :: "nat \<Rightarrow> bool \<times> nat" where
  "take_node left = (if left = 0 then (False, left) else (True, left - 1))"


subsection \<open>The round-trip contract\<close>

text \<open>
  \<open>led_le ob ow\<close>: the reader's ledger has spent no more than the writer's.  \<open>keeps\<close>: an
  operation leaves the nesting depth where it found it, and a naked stream naked.
  \<open>reads_back W R v\<close>: whenever \<open>W\<close> succeeds, the bytes it appended are read back by \<open>R\<close> as
  \<open>v\<close> under any ledger that is not ahead of the writer's, whatever follows them, and both
  report the number of those bytes.
\<close>

definition led_le :: "budget option \<Rightarrow> budget option \<Rightarrow> bool" where
  "led_le ob ow =
     (case ow of
        None \<Rightarrow> ob = None
      | Some bw \<Rightarrow>
          (case ob of
             None \<Rightarrow> True
           | Some br \<Rightarrow> depth br \<le> depth bw \<and> frames br \<le> frames bw \<and> nbytes br \<le> nbytes bw))"

definition keeps :: "budget option \<Rightarrow> budget option \<Rightarrow> bool" where
  "keeps ob ob' =
     (case ob of
        None \<Rightarrow> ob' = None
      | Some b \<Rightarrow> (case ob' of None \<Rightarrow> False | Some b' \<Rightarrow> depth b' = depth b))"

definition reads_back :: "writer \<Rightarrow> 'a reader \<Rightarrow> 'a \<Rightarrow> bool" where
  "reads_back W R v \<longleftrightarrow>
     (\<forall>w n w'. W w = (None, n, w') \<longrightarrow>
        keeps (wb w) (wb w') \<and>
        (\<exists>bs. out w' = out w @ bs \<and> length bs = n \<and>
           (\<forall>rest ob. led_le ob (wb w) \<longrightarrow>
              (\<exists>ob'. R \<lparr>inp = bs @ rest, rb = ob\<rparr> = (Inr v, n, \<lparr>inp = rest, rb = ob'\<rparr>) \<and>
                     keeps ob ob' \<and> led_le ob' (wb w')))))"

lemma reads_backI:
  assumes "\<And>w n w'. W w = (None, n, w') \<Longrightarrow>
    keeps (wb w) (wb w') \<and> (\<exists>bs. out w' = out w @ bs \<and> length bs = n \<and>
      (\<forall>rest ob. led_le ob (wb w) \<longrightarrow>
         (\<exists>ob'. R \<lparr>inp = bs @ rest, rb = ob\<rparr> = (Inr v, n, \<lparr>inp = rest, rb = ob'\<rparr>) \<and>
                keeps ob ob' \<and> led_le ob' (wb w'))))"
  shows "reads_back W R v"
  using assms unfolding reads_back_def by blast

lemma reads_backE:
  assumes "reads_back W R v" and "W w = (None, n, w')"
  obtains bs where "keeps (wb w) (wb w')" and "out w' = out w @ bs" and "length bs = n"
    and "\<And>rest ob. led_le ob (wb w) \<Longrightarrow>
      \<exists>ob'. R \<lparr>inp = bs @ rest, rb = ob\<rparr> = (Inr v, n, \<lparr>inp = rest, rb = ob'\<rparr>) \<and>
            keeps ob ob' \<and> led_le ob' (wb w')"
  using assms unfolding reads_back_def by blast

lemma keeps_refl [simp]: "keeps ob ob"
  by (simp add: keeps_def split: option.splits)

lemma keeps_trans: "keeps a b \<Longrightarrow> keeps b c \<Longrightarrow> keeps a c"
  by (auto simp: keeps_def split: option.splits)

lemma led_le_refl [simp]: "led_le ob ob"
  by (simp add: led_le_def split: option.splits)

lemma led_le_None [simp]: "led_le None ow"
  by (simp add: led_le_def split: option.splits)

lemma rb_skip [codec_intros]: "reads_back wskip (rret v) v"
  by (rule reads_backI) (auto simp: wskip_def rret_def)

lemma rb_fail [codec_intros]: "reads_back (wfail e) R v"
  by (rule reads_backI) (simp add: wfail_def)

lemma rb_seq:
  assumes 1: "reads_back W1 R1 v1" and 2: "reads_back W2 (R2 v1) v2"
  shows "reads_back (wseq W1 W2) (rbind R1 R2) v2"
proof (rule reads_backI)
  fix w n w'
  assume "wseq W1 W2 w = (None, n, w')"
  then obtain n1 w1 n2 where a: "W1 w = (None, n1, w1)" and b: "W2 w1 = (None, n2, w')"
    and n: "n = n1 + n2"
    by (auto simp: wseq_def split: prod.splits option.splits)
  from 1 a obtain bs1 where k1: "keeps (wb w) (wb w1)" and o1: "out w1 = out w @ bs1"
    and l1: "length bs1 = n1" and r1: "\<And>rest ob. led_le ob (wb w) \<Longrightarrow>
      \<exists>ob'. R1 \<lparr>inp = bs1 @ rest, rb = ob\<rparr> = (Inr v1, n1, \<lparr>inp = rest, rb = ob'\<rparr>) \<and>
            keeps ob ob' \<and> led_le ob' (wb w1)" by (rule reads_backE) blast
  from 2 b obtain bs2 where k2: "keeps (wb w1) (wb w')" and o2: "out w' = out w1 @ bs2"
    and l2: "length bs2 = n2" and r2: "\<And>rest ob. led_le ob (wb w1) \<Longrightarrow>
      \<exists>ob'. R2 v1 \<lparr>inp = bs2 @ rest, rb = ob\<rparr> = (Inr v2, n2, \<lparr>inp = rest, rb = ob'\<rparr>) \<and>
            keeps ob ob' \<and> led_le ob' (wb w')" by (rule reads_backE) blast
  have "\<exists>ob'. rbind R1 R2 \<lparr>inp = (bs1 @ bs2) @ rest, rb = ob\<rparr> = (Inr v2, n, \<lparr>inp = rest, rb = ob'\<rparr>) \<and>
          keeps ob ob' \<and> led_le ob' (wb w')" if le: "led_le ob (wb w)" for rest ob
  proof -
    from r1 [OF le, of "bs2 @ rest"] obtain ob1 where
      e1: "R1 \<lparr>inp = bs1 @ bs2 @ rest, rb = ob\<rparr> = (Inr v1, n1, \<lparr>inp = bs2 @ rest, rb = ob1\<rparr>)"
      and "keeps ob ob1" and le1: "led_le ob1 (wb w1)" by blast
    from r2 [OF le1, of rest] obtain ob2 where
      "R2 v1 \<lparr>inp = bs2 @ rest, rb = ob1\<rparr> = (Inr v2, n2, \<lparr>inp = rest, rb = ob2\<rparr>)"
      and "keeps ob1 ob2" and "led_le ob2 (wb w')" by blast
    with e1 \<open>keeps ob ob1\<close> n show ?thesis by (auto simp: rbind_def intro: keeps_trans)
  qed
  moreover have "keeps (wb w) (wb w')" using k1 k2 by (rule keeps_trans)
  ultimately show "keeps (wb w) (wb w') \<and> (\<exists>bs. out w' = out w @ bs \<and> length bs = n \<and>
      (\<forall>rest ob. led_le ob (wb w) \<longrightarrow>
         (\<exists>ob'. rbind R1 R2 \<lparr>inp = bs @ rest, rb = ob\<rparr> = (Inr v2, n, \<lparr>inp = rest, rb = ob'\<rparr>) \<and>
                keeps ob ob' \<and> led_le ob' (wb w'))))"
    using o1 o2 l1 l2 n by (intro conjI exI [of _ "bs1 @ bs2"]) auto
qed

lemma wseq_skip [simp]: "wseq W wskip = W" and wskip_seq [simp]: "wseq wskip W = W"
  by (auto simp: wseq_def wskip_def fun_eq_iff split: prod.splits option.splits)

lemma rbind_ret [simp]: "rbind (rret v) f = f v"
  by (auto simp: rbind_def rret_def fun_eq_iff split: prod.splits)

lemma rb_map: "reads_back W R v \<Longrightarrow> reads_back W (rmap f R) (f v)"
  using rb_seq [of W R v wskip "\<lambda>v. rret (f v)" "f v"] by (simp add: rmap_def rb_skip)

definition fits :: "nat \<Rightarrow> budget option \<Rightarrow> bool" where
  "fits k ob = (case ob of None \<Rightarrow> True | Some b \<Rightarrow> k = 0 \<or> nbytes b + k \<le> MaxCodecBytes)"

lemma fits_zero [simp]: "fits 0 ob"
  by (simp add: fits_def split: option.splits)

lemma spend_zero [simp]: "spend 0 ob = ob"
  by (cases ob) (simp_all add: spend_def)

lemma spend_spend [simp]: "spend j (spend k ob) = spend (k + j) ob"
  by (cases ob) (simp_all add: spend_def)

lemma keeps_spend [simp]: "keeps ob (spend k ob)"
  by (simp add: keeps_def spend_def split: option.splits)

lemma led_le_fits: "led_le ob ow \<Longrightarrow> fits k ow \<Longrightarrow> fits k ob"
  by (auto simp: led_le_def fits_def split: option.splits)

lemma led_le_spend: "led_le ob ow \<Longrightarrow> led_le (spend k ob) (spend k ow)"
  by (auto simp: led_le_def spend_def split: option.splits)

lemma fits_split: "fits (j + k) ob \<longleftrightarrow> fits (j + k) ob \<and> fits j ob \<and> fits k (spend j ob)"
  by (auto simp: fits_def spend_def split: option.splits)

lemma ReadFull_ok:
  assumes "length p = k" and "fits k ob"
  shows "ReadFull k \<lparr>inp = p @ rest, rb = ob\<rparr> = (Inr p, k, \<lparr>inp = rest, rb = spend k ob\<rparr>)"
proof (cases "k = 0")
  case True
  then show ?thesis using assms by (simp add: ReadFull_def)
next
  case False
  have "room ob k = k" using assms False by (auto simp: room_def fits_def split: option.splits)
  then show ?thesis using False assms by (simp add: ReadFull_def)
qed

lemma Write_ok_iff:
  "Write p w = (None, n, w') \<longleftrightarrow>
     n = length p \<and> w' = w\<lparr>out := out w @ p, wb := spend (length p) (wb w)\<rparr> \<and> fits (length p) (wb w)"
  by (cases "wb w") (auto simp: Write_def charge_def spend_def fits_def Let_def split: if_splits)

lemma Write_Nil [simp]: "Write [] = wskip"
  by (auto simp: Write_def wskip_def charge_def fun_eq_iff split: option.splits)

lemma writePayload_eq [simp]: "writePayload p = Write p"
  by (auto simp: writePayload_def wskip_def fun_eq_iff)

text \<open>A raw write is read back by any reader that consumes exactly those bytes.\<close>

lemma rb_write_gen:
  assumes R: "\<And>rest ob. fits (length p) ob \<Longrightarrow>
    R \<lparr>inp = p @ rest, rb = ob\<rparr> = (Inr v, length p, \<lparr>inp = rest, rb = spend (length p) ob\<rparr>)"
  shows "reads_back (Write p) R v"
proof (rule reads_backI)
  fix w n w'
  assume wr: "Write p w = (None, n, w')"
  have "R \<lparr>inp = p @ rest, rb = ob\<rparr> = (Inr v, n, \<lparr>inp = rest, rb = spend (length p) ob\<rparr>) \<and>
      led_le (spend (length p) ob) (wb w')" if le: "led_le ob (wb w)" for rest ob
    using wr R [of ob rest] led_le_fits [OF le] led_le_spend [OF le] by (auto simp: Write_ok_iff)
  then show "keeps (wb w) (wb w') \<and> (\<exists>bs. out w' = out w @ bs \<and> length bs = n \<and>
      (\<forall>rest ob. led_le ob (wb w) \<longrightarrow>
         (\<exists>ob'. R \<lparr>inp = bs @ rest, rb = ob\<rparr> = (Inr v, n, \<lparr>inp = rest, rb = ob'\<rparr>) \<and>
                keeps ob ob' \<and> led_le ob' (wb w'))))"
    using wr by (intro conjI exI [of _ p]) (auto simp: Write_ok_iff intro: keeps_spend)
qed

lemma rb_write [codec_intros]: "length p = k \<Longrightarrow> reads_back (Write p) (ReadFull k) p"
  by (rule rb_write_gen) (simp add: ReadFull_ok)

lemma readNBytes_loop_ok:
  "length p = left \<Longrightarrow> fits left (rb r) \<Longrightarrow> inp r = p @ rest \<Longrightarrow>
     readNBytes_loop left buf n r = (Inr (buf @ p), n + left, \<lparr>inp = rest, rb = spend left (rb r)\<rparr>)"
proof (induction left buf n r arbitrary: p rule: readNBytes_loop.induct)
  case (1 left buf n r)
  show ?case
  proof (cases "left = 0")
    case True
    with 1(2-4) show ?thesis by (subst readNBytes_loop.simps) simp
  next
    case False
    define g where "g = min left growChunk"
    have g: "g \<le> left" "length (take g p) = g" using 1(2) by (auto simp: g_def)
    have f: "fits g (rb r)" "fits (left - g) (spend g (rb r))"
      using 1(3) g(1) fits_split [of g "left - g" "rb r"] by auto
    have r: "r = \<lparr>inp = take g p @ (drop g p @ rest), rb = rb r\<rparr>" using 1(4) by simp
    have rd: "ReadFull g r = (Inr (take g p), g, \<lparr>inp = drop g p @ rest, rb = spend g (rb r)\<rparr>)"
      by (subst r) (rule ReadFull_ok [OF g(2) f(1)])
    have "readNBytes_loop (left - g) (buf @ take g p) (n + g)
            \<lparr>inp = drop g p @ rest, rb = spend g (rb r)\<rparr> =
          (Inr ((buf @ take g p) @ drop g p), n + g + (left - g),
           \<lparr>inp = rest, rb = spend (left - g) (spend g (rb r))\<rparr>)"
      using 1(1) [of g] False rd f(2) g 1(2) by (simp add: g_def)
    then show ?thesis using False rd g
      by (subst readNBytes_loop.simps) (simp add: Let_def flip: g_def)
  qed
qed

lemma rb_readNBytes [codec_intros]:
  "length p = k \<Longrightarrow> reads_back (Write p) (readNBytes k) p"
  by (rule rb_write_gen) (auto simp: readNBytes_def readNBytes_loop_ok)

subsection \<open>Frames in round trips\<close>

lemma enter_ok_iff:
  "enter b = (None, b') \<longleftrightarrow>
     depth b < MaxBlueprintDepth \<and> frames b < MaxCodecFrames \<and>
     b' = b\<lparr>depth := depth b + 1, frames := frames b + 1\<rparr>"
  by (auto simp: enter_def Let_def)

lemma wframe_ok:
  assumes "wframe W w = (None, n, w')"
  obtains b1 w1 where "enter (attach (wb w)) = (None, b1)"
    and "W (w\<lparr>wb := Some b1\<rparr>) = (None, n, w1)" and "w' = w1\<lparr>wb := detach (wb w) (wb w1)\<rparr>"
  using assms by (auto simp: wframe_def split: prod.splits option.splits)

lemma keeps_detach:
  "enter (attach ob) = (e, b1) \<Longrightarrow> keeps (Some b1) ob' \<Longrightarrow> keeps ob (detach ob ob')"
  by (auto simp: keeps_def detach_def attach_def enter_def exit_def Let_def
      split: option.splits if_splits)

lemma led_le_enter:
  "led_le ob ow \<Longrightarrow> enter (attach ow) = (None, b1) \<Longrightarrow>
     \<exists>b2. enter (attach ob) = (None, b2) \<and> led_le (Some b2) (Some b1)"
  by (auto simp: enter_ok_iff led_le_def attach_def fresh_budget_def split: option.splits)

lemma led_le_detach:
  "led_le ob ow \<Longrightarrow> keeps (Some b2) ob' \<Longrightarrow> keeps (Some b1) ow' \<Longrightarrow>
     enter (attach ow) = (None, b1) \<Longrightarrow> enter (attach ob) = (None, b2) \<Longrightarrow>
     led_le ob' ow' \<Longrightarrow> led_le (detach ob ob') (detach ow ow')"
  by (auto simp: enter_ok_iff led_le_def detach_def attach_def keeps_def exit_def
      split: option.splits)

lemma led_le_detach_right:
  "led_le ob ow \<Longrightarrow> keeps ob ob' \<Longrightarrow> keeps (Some b1) ow' \<Longrightarrow>
     enter (attach ow) = (None, b1) \<Longrightarrow> led_le ob' ow' \<Longrightarrow> led_le ob' (detach ow ow')"
  by (auto simp: enter_ok_iff led_le_def detach_def attach_def keeps_def exit_def
      split: option.splits)

lemma rb_frame [codec_intros]:
  assumes rt: "reads_back W R v"
  shows "reads_back (wframe W) (rframe R) v"
proof (rule reads_backI)
  fix w n w'
  assume "wframe W w = (None, n, w')"
  then obtain b1 w1 where en: "enter (attach (wb w)) = (None, b1)"
    and W: "W (w\<lparr>wb := Some b1\<rparr>) = (None, n, w1)" and w': "w' = w1\<lparr>wb := detach (wb w) (wb w1)\<rparr>"
    by (rule wframe_ok)
  from rt W obtain bs where k: "keeps (Some b1) (wb w1)" and o1: "out w1 = out w @ bs"
    and l: "length bs = n" and r: "\<And>rest ob. led_le ob (Some b1) \<Longrightarrow>
      \<exists>ob'. R \<lparr>inp = bs @ rest, rb = ob\<rparr> = (Inr v, n, \<lparr>inp = rest, rb = ob'\<rparr>) \<and>
            keeps ob ob' \<and> led_le ob' (wb w1)" by (rule reads_backE) auto
  have "\<exists>ob'. rframe R \<lparr>inp = bs @ rest, rb = ob\<rparr> = (Inr v, n, \<lparr>inp = rest, rb = ob'\<rparr>) \<and>
          keeps ob ob' \<and> led_le ob' (wb w')" if le: "led_le ob (wb w)" for rest ob
  proof -
    from led_le_enter [OF le en] obtain b2 where en2: "enter (attach ob) = (None, b2)"
      and "led_le (Some b2) (Some b1)" by blast
    from r [OF this(2), of rest] obtain ob' where
      "R \<lparr>inp = bs @ rest, rb = Some b2\<rparr> = (Inr v, n, \<lparr>inp = rest, rb = ob'\<rparr>)"
      and k2: "keeps (Some b2) ob'" and "led_le ob' (wb w1)" by blast
    with en2 led_le_detach [OF le k2 k en en2] keeps_detach [OF en2 k2] w'
    show ?thesis by (simp add: rframe_def)
  qed
  with o1 l keeps_detach [OF en k] w'
  show "keeps (wb w) (wb w') \<and> (\<exists>bs. out w' = out w @ bs \<and> length bs = n \<and>
      (\<forall>rest ob. led_le ob (wb w) \<longrightarrow>
         (\<exists>ob'. rframe R \<lparr>inp = bs @ rest, rb = ob\<rparr> = (Inr v, n, \<lparr>inp = rest, rb = ob'\<rparr>) \<and>
                keeps ob ob' \<and> led_le ob' (wb w'))))"
    by auto
qed

text \<open>The writer may open a frame the reader does not (the slow element paths read so).\<close>

lemma rb_wframe [codec_intros]:
  assumes rt: "reads_back W R v"
  shows "reads_back (wframe W) R v"
proof (rule reads_backI)
  fix w n w'
  assume "wframe W w = (None, n, w')"
  then obtain b1 w1 where en: "enter (attach (wb w)) = (None, b1)"
    and W: "W (w\<lparr>wb := Some b1\<rparr>) = (None, n, w1)" and w': "w' = w1\<lparr>wb := detach (wb w) (wb w1)\<rparr>"
    by (rule wframe_ok)
  from rt W obtain bs where k: "keeps (Some b1) (wb w1)" and o1: "out w1 = out w @ bs"
    and l: "length bs = n" and r: "\<And>rest ob. led_le ob (Some b1) \<Longrightarrow>
      \<exists>ob'. R \<lparr>inp = bs @ rest, rb = ob\<rparr> = (Inr v, n, \<lparr>inp = rest, rb = ob'\<rparr>) \<and>
            keeps ob ob' \<and> led_le ob' (wb w1)" by (rule reads_backE) auto
  have "\<exists>ob'. R \<lparr>inp = bs @ rest, rb = ob\<rparr> = (Inr v, n, \<lparr>inp = rest, rb = ob'\<rparr>) \<and>
          keeps ob ob' \<and> led_le ob' (wb w')" if le: "led_le ob (wb w)" for rest ob
  proof -
    have "led_le ob (Some b1)" using le en
      by (auto simp: enter_ok_iff led_le_def attach_def split: option.splits)
    from r [OF this, of rest] obtain ob' where
      "R \<lparr>inp = bs @ rest, rb = ob\<rparr> = (Inr v, n, \<lparr>inp = rest, rb = ob'\<rparr>)"
      and k2: "keeps ob ob'" and "led_le ob' (wb w1)" by blast
    with led_le_detach_right [OF le k2 k en] w' show ?thesis by auto
  qed
  with o1 l keeps_detach [OF en k] w'
  show "keeps (wb w) (wb w') \<and> (\<exists>bs. out w' = out w @ bs \<and> length bs = n \<and>
      (\<forall>rest ob. led_le ob (wb w) \<longrightarrow>
         (\<exists>ob'. R \<lparr>inp = bs @ rest, rb = ob\<rparr> = (Inr v, n, \<lparr>inp = rest, rb = ob'\<rparr>) \<and>
                keeps ob ob' \<and> led_le ob' (wb w'))))"
    by auto
qed

text \<open>On a plain stream.\<close>

lemma reads_back_naked:
  assumes "reads_back W R v" and "W \<lparr>out = [], wb = None\<rparr> = (None, n, w)"
  shows "n = length (out w) \<and> R \<lparr>inp = out w @ rest, rb = None\<rparr> = (Inr v, n, \<lparr>inp = rest, rb = None\<rparr>)"
  using reads_backE [OF assms] by (fastforce simp: keeps_def led_le_def)

end
