(* ===== verification/Scalars.thy ===== *)
theory Scalars
  imports Ledger
begin

text \<open>
  The scalar and length-prefixed astral types: \<^verbatim>\<open>src/astral/fixed_width.go\<close>,
  \<^verbatim>\<open>uint_types.go\<close>, \<^verbatim>\<open>int_types.go\<close>, \<^verbatim>\<open>bool.go\<close>, \<^verbatim>\<open>byte_types.go\<close>,
  \<^verbatim>\<open>string_types.go\<close>, \<^verbatim>\<open>nonce.go\<close>, \<^verbatim>\<open>zone.go\<close>, \<^verbatim>\<open>duration.go\<close>, \<^verbatim>\<open>time.go\<close>,
  \<^verbatim>\<open>object_type.go\<close>, \<^verbatim>\<open>stamp.go\<close> and \<^verbatim>\<open>type_encoder.go\<close>.

  An \<open>N\<close>-bit integer is an \<open>N word\<close>; a signed one is the same word read with \<open>sint\<close>.  The wire
  width is \<open>LENGTH('a) div 8\<close>, as \<^verbatim>\<open>binary.Size\<close> computes it.  A \<open>Time\<close> is the instant in
  nanoseconds since the Unix epoch.  Each type has its binary codec and its text codec; the
  locale \<open>wire_codec\<close> states the round trip every binary codec promises and is interpreted
  for each of them.
\<close>

unbundle bit_operations_syntax

subsection \<open>Fixed-width values\<close>

definition writeFixed :: "'a::len word \<Rightarrow> writer" where
  "writeFixed v w =
     (case Write (nat_be (LENGTH('a) div 8) (unat v)) w of
        (Some e, n, w1) \<Rightarrow> (Some e, 0, w1)
      | (None, n, w1) \<Rightarrow> (None, LENGTH('a) div 8, w1))"

definition readFixed :: "'a::len word reader" where
  "readFixed r =
     (case ReadFull (LENGTH('a) div 8) r of
        (Inl e, n, r1) \<Rightarrow> (Inl e, 0, r1)
      | (Inr bs, n, r1) \<Rightarrow> (Inr (of_nat (be_nat bs)), LENGTH('a) div 8, r1))"

definition parseIntText :: "string \<Rightarrow> 'a::len word res" where
  "parseIntText text =
     (case parseInt text 10 (LENGTH('a) div 8 * 8) of Inl e \<Rightarrow> Inl e | Inr i \<Rightarrow> Inr (of_int i))"

definition parseUintText :: "string \<Rightarrow> 'a::len word res" where
  "parseUintText text =
     (case parseUint text 10 (LENGTH('a) div 8 * 8) of Inl e \<Rightarrow> Inl e | Inr u \<Rightarrow> Inr (of_nat u))"

subsection \<open>Unsigned and signed integers\<close>

definition Uint8_ObjectType :: "string" where
  "Uint8_ObjectType = ''uint8''"

definition Uint8_WriteTo :: "8 word \<Rightarrow> writer" where
  "Uint8_WriteTo u = writeFixed u"

definition Uint8_ReadFrom :: "8 word reader" where
  "Uint8_ReadFrom = readFixed"

definition Uint8_MarshalText :: "8 word \<Rightarrow> string" where
  "Uint8_MarshalText u = formatUint 10 (unat u)"

definition Uint8_UnmarshalText :: "string \<Rightarrow> 8 word res" where
  "Uint8_UnmarshalText text = parseUintText text"

definition Uint16_ObjectType :: "string" where
  "Uint16_ObjectType = ''uint16''"

definition Uint16_WriteTo :: "16 word \<Rightarrow> writer" where
  "Uint16_WriteTo u = writeFixed u"

definition Uint16_ReadFrom :: "16 word reader" where
  "Uint16_ReadFrom = readFixed"

definition Uint16_MarshalText :: "16 word \<Rightarrow> string" where
  "Uint16_MarshalText u = formatUint 10 (unat u)"

definition Uint16_UnmarshalText :: "string \<Rightarrow> 16 word res" where
  "Uint16_UnmarshalText text = parseUintText text"

definition Uint32_ObjectType :: "string" where
  "Uint32_ObjectType = ''uint32''"

definition Uint32_WriteTo :: "32 word \<Rightarrow> writer" where
  "Uint32_WriteTo u = writeFixed u"

definition Uint32_ReadFrom :: "32 word reader" where
  "Uint32_ReadFrom = readFixed"

definition Uint32_MarshalText :: "32 word \<Rightarrow> string" where
  "Uint32_MarshalText u = formatUint 10 (unat u)"

definition Uint32_UnmarshalText :: "string \<Rightarrow> 32 word res" where
  "Uint32_UnmarshalText text = parseUintText text"

definition Uint64_ObjectType :: "string" where
  "Uint64_ObjectType = ''uint64''"

definition Uint64_WriteTo :: "64 word \<Rightarrow> writer" where
  "Uint64_WriteTo u = writeFixed u"

definition Uint64_ReadFrom :: "64 word reader" where
  "Uint64_ReadFrom = readFixed"

definition Uint64_MarshalText :: "64 word \<Rightarrow> string" where
  "Uint64_MarshalText u = formatUint 10 (unat u)"

definition Uint64_UnmarshalText :: "string \<Rightarrow> 64 word res" where
  "Uint64_UnmarshalText text = parseUintText text"

definition Int8_WriteTo :: "8 word \<Rightarrow> writer" where
  "Int8_WriteTo i = writeFixed i"

definition Int8_ReadFrom :: "8 word reader" where
  "Int8_ReadFrom = readFixed"

definition Int8_MarshalText :: "8 word \<Rightarrow> string" where
  "Int8_MarshalText i = formatInt (sint i)"

definition Int8_UnmarshalText :: "string \<Rightarrow> 8 word res" where
  "Int8_UnmarshalText text = parseIntText text"

definition Int16_WriteTo :: "16 word \<Rightarrow> writer" where
  "Int16_WriteTo i = writeFixed i"

definition Int16_ReadFrom :: "16 word reader" where
  "Int16_ReadFrom = readFixed"

definition Int16_MarshalText :: "16 word \<Rightarrow> string" where
  "Int16_MarshalText i = formatInt (sint i)"

definition Int16_UnmarshalText :: "string \<Rightarrow> 16 word res" where
  "Int16_UnmarshalText text = parseIntText text"

definition Int32_WriteTo :: "32 word \<Rightarrow> writer" where
  "Int32_WriteTo i = writeFixed i"

definition Int32_ReadFrom :: "32 word reader" where
  "Int32_ReadFrom = readFixed"

definition Int32_MarshalText :: "32 word \<Rightarrow> string" where
  "Int32_MarshalText i = formatInt (sint i)"

definition Int32_UnmarshalText :: "string \<Rightarrow> 32 word res" where
  "Int32_UnmarshalText text = parseIntText text"

definition Int64_WriteTo :: "64 word \<Rightarrow> writer" where
  "Int64_WriteTo i = writeFixed i"

definition Int64_ReadFrom :: "64 word reader" where
  "Int64_ReadFrom = readFixed"

definition Int64_MarshalText :: "64 word \<Rightarrow> string" where
  "Int64_MarshalText i = formatInt (sint i)"

definition Int64_UnmarshalText :: "string \<Rightarrow> 64 word res" where
  "Int64_UnmarshalText text = parseIntText text"

subsection \<open>Booleans\<close>

definition Bool_WriteTo :: "bool \<Rightarrow> writer" where
  "Bool_WriteTo b w =
     (case Write [if b then 1 else 0] w of
        (Some e, n, w1) \<Rightarrow> (Some e, 0, w1)
      | (None, n, w1) \<Rightarrow> (None, 1, w1))"

definition Bool_ReadFrom :: "bool reader" where
  "Bool_ReadFrom r =
     (case ReadFull 1 r of
        (Inl e, n, r1) \<Rightarrow> (Inl e, 0, r1)
      | (Inr bs, n, r1) \<Rightarrow> (Inr (bs ! 0 \<noteq> 0), 1, r1))"

definition Bool_String :: "bool \<Rightarrow> string" where
  "Bool_String b = (if b then ''true'' else ''false'')"

definition Bool_UnmarshalText :: "string \<Rightarrow> bool res" where
  "Bool_UnmarshalText text =
     (let t = ToLower text in
      if t \<in> {''true'', ''yes'', ''t'', ''y''} then Inr True
      else if t \<in> {''false'', ''no'', ''f'', ''n''} then Inr False
      else Inl (ErrMsg ''parse error''))"

subsection \<open>Length-prefixed bytes and strings\<close>

text \<open>
  The 8-, 16- and 32-bit writers refuse a payload whose length does not fit the prefix; the
  64-bit one has no check to make.  \<^verbatim>\<open>String8\<close> and \<^verbatim>\<open>String16\<close> read with \<^verbatim>\<open>io.ReadFull\<close>, the
  other six with \<open>readNBytes\<close>.
\<close>

definition Bytes8_WriteTo :: "bytes \<Rightarrow> writer" where
  "Bytes8_WriteTo b =
     (if 2 ^ 8 - 1 < length b then wfail (ErrMsg ''bytes8: data too large'')
      else wseq (Uint8_WriteTo (of_nat (length b))) (writePayload b))"

definition Bytes8_ReadFrom :: "bytes reader" where
  "Bytes8_ReadFrom = rbind Uint8_ReadFrom (\<lambda>l. readNBytes (unat l))"

definition Bytes16_WriteTo :: "bytes \<Rightarrow> writer" where
  "Bytes16_WriteTo b =
     (if 2 ^ 16 - 1 < length b then wfail (ErrMsg ''bytes16: data too large'')
      else wseq (Uint16_WriteTo (of_nat (length b))) (writePayload b))"

definition Bytes16_ReadFrom :: "bytes reader" where
  "Bytes16_ReadFrom = rbind Uint16_ReadFrom (\<lambda>l. readNBytes (unat l))"

definition Bytes32_WriteTo :: "bytes \<Rightarrow> writer" where
  "Bytes32_WriteTo b =
     (if 2 ^ 32 - 1 < length b then wfail (ErrMsg ''bytes32: data too large'')
      else wseq (Uint32_WriteTo (of_nat (length b))) (writePayload b))"

definition Bytes32_ReadFrom :: "bytes reader" where
  "Bytes32_ReadFrom = rbind Uint32_ReadFrom (\<lambda>l. readNBytes (unat l))"

definition Bytes64_WriteTo :: "bytes \<Rightarrow> writer" where
  "Bytes64_WriteTo b =
     wseq (Uint64_WriteTo (of_nat (length b))) (writePayload b)"

definition Bytes64_ReadFrom :: "bytes reader" where
  "Bytes64_ReadFrom = rbind Uint64_ReadFrom (\<lambda>l. readNBytes (unat l))"

definition String8_WriteTo :: "string \<Rightarrow> writer" where
  "String8_WriteTo s =
     (if 2 ^ 8 - 1 < length s then wfail (ErrMsg ''string8: data too large'')
      else wseq (Uint8_WriteTo (of_nat (length s))) (writePayload (str_bytes s)))"

definition String8_ReadFrom :: "string reader" where
  "String8_ReadFrom =
     rbind Uint8_ReadFrom (\<lambda>l. rmap bytes_str (ReadFull (unat l)))"

definition String16_WriteTo :: "string \<Rightarrow> writer" where
  "String16_WriteTo s =
     (if 2 ^ 16 - 1 < length s then wfail (ErrMsg ''string16: data too large'')
      else wseq (Uint16_WriteTo (of_nat (length s))) (writePayload (str_bytes s)))"

definition String16_ReadFrom :: "string reader" where
  "String16_ReadFrom =
     rbind Uint16_ReadFrom (\<lambda>l. rmap bytes_str (ReadFull (unat l)))"

definition String32_WriteTo :: "string \<Rightarrow> writer" where
  "String32_WriteTo s =
     (if 2 ^ 32 - 1 < length s then wfail (ErrMsg ''string32: data too large'')
      else wseq (Uint32_WriteTo (of_nat (length s))) (writePayload (str_bytes s)))"

definition String32_ReadFrom :: "string reader" where
  "String32_ReadFrom =
     rbind Uint32_ReadFrom (\<lambda>l. rmap bytes_str (readNBytes (unat l)))"

definition String64_WriteTo :: "string \<Rightarrow> writer" where
  "String64_WriteTo s =
     wseq (Uint64_WriteTo (of_nat (length s))) (writePayload (str_bytes s))"

definition String64_ReadFrom :: "string reader" where
  "String64_ReadFrom =
     rbind Uint64_ReadFrom (\<lambda>l. rmap bytes_str (readNBytes (unat l)))"

subsection \<open>Nonce, zone, duration, time\<close>

definition Nonce_WriteTo :: "64 word \<Rightarrow> writer" where
  "Nonce_WriteTo nonce w =
     (case Write (nat_be 8 (unat nonce)) w of
        (Some e, n, w1) \<Rightarrow> (Some e, 0, w1)
      | (None, n, w1) \<Rightarrow> (None, 8, w1))"

definition Nonce_ReadFrom :: "64 word reader" where
  "Nonce_ReadFrom r =
     (case ReadFull 8 r of
        (Inl e, n, r1) \<Rightarrow> (Inl e, 0, r1)
      | (Inr bs, n, r1) \<Rightarrow> (Inr (of_nat (be_nat bs)), 8, r1))"

text \<open>\<^verbatim>\<open>%016x\<close>: hexadecimal, left-padded with zeros to sixteen digits.\<close>

definition Nonce_String :: "64 word \<Rightarrow> string" where
  "Nonce_String nonce =
     (let h = formatUint 16 (unat nonce) in replicate (16 - length h) CHR ''0'' @ h)"

definition Nonce_UnmarshalText :: "string \<Rightarrow> 64 word res" where
  "Nonce_UnmarshalText text =
     (case parseUint text 16 64 of Inl e \<Rightarrow> Inl e | Inr u \<Rightarrow> Inr (of_nat u))"

definition ZoneDevice :: "8 word" where "ZoneDevice = 1"
definition ZoneVirtual :: "8 word" where "ZoneVirtual = 2"
definition ZoneNetwork :: "8 word" where "ZoneNetwork = 4"
definition ZoneAll :: "8 word" where "ZoneAll = ZoneDevice OR ZoneVirtual OR ZoneNetwork"

fun Zones_loop :: "8 word \<Rightarrow> string \<Rightarrow> 8 word" where
  "Zones_loop zone [] = zone"
| "Zones_loop zone (c # cs) =
     Zones_loop
       (if c = CHR ''d'' then zone OR ZoneDevice
        else if c = CHR ''v'' then zone OR ZoneVirtual
        else if c = CHR ''n'' then zone OR ZoneNetwork
        else zone) cs"

definition Zones :: "string \<Rightarrow> 8 word" where
  "Zones s = Zones_loop 0 s"

definition Zone_Is :: "8 word \<Rightarrow> 8 word \<Rightarrow> bool" where
  "Zone_Is zone check \<longleftrightarrow> zone AND check = check"

definition Zone_String :: "8 word \<Rightarrow> string" where
  "Zone_String zone =
     (if zone AND ZoneDevice \<noteq> 0 then ''d'' else []) @
     (if zone AND ZoneVirtual \<noteq> 0 then ''v'' else []) @
     (if zone AND ZoneNetwork \<noteq> 0 then ''n'' else [])"

definition Zone_WriteTo :: "8 word \<Rightarrow> writer" where
  "Zone_WriteTo zone = Uint8_WriteTo zone"

definition Zone_ReadFrom :: "8 word reader" where
  "Zone_ReadFrom = Uint8_ReadFrom"

definition Duration_WriteTo :: "64 word \<Rightarrow> writer" where
  "Duration_WriteTo d w =
     (case Write (nat_be 8 (unat d)) w of
        (Some e, n, w1) \<Rightarrow> (Some e, 0, w1)
      | (None, n, w1) \<Rightarrow> (None, 8, w1))"

definition Duration_ReadFrom :: "64 word reader" where
  "Duration_ReadFrom r =
     (case ReadFull 8 r of
        (Inl e, n, r1) \<Rightarrow> (Inl e, 0, r1)
      | (Inr bs, n, r1) \<Rightarrow> (Inr (of_nat (be_nat bs)), 8, r1))"

text \<open>\<^verbatim>\<open>UnixNano\<close> computes in 64 bits, so an instant outside them wraps.\<close>

definition Time_WriteTo :: "int \<Rightarrow> writer" where
  "Time_WriteTo t = Uint64_WriteTo (of_int t)"

definition Time_ReadFrom :: "int reader" where
  "Time_ReadFrom = rmap sint Uint64_ReadFrom"

subsection \<open>Type tags and the canonical header\<close>

definition ObjectType_WriteTo :: "string \<Rightarrow> writer" where
  "ObjectType_WriteTo h = String8_WriteTo h"

definition ObjectType_ReadFrom :: "string reader" where
  "ObjectType_ReadFrom = String8_ReadFrom"

definition magic :: "32 word" where "magic = 0x41444330"

definition Stamp_WriteTo :: writer where
  "Stamp_WriteTo w =
     (case Write (nat_be 4 (unat magic)) w of
        (Some e, n, w1) \<Rightarrow> (Some e, 0, w1)
      | (None, n, w1) \<Rightarrow> (None, 4, w1))"

text \<open>
  A failed read leaves \<^verbatim>\<open>m\<close> at zero, so the magic test that follows replaces the read error
  with its own.
\<close>

definition Stamp_ReadFrom :: "unit reader" where
  "Stamp_ReadFrom r =
     (case ReadFull 4 r of
        (Inl e, n, r1) \<Rightarrow> (Inl (ErrMsg ''invalid magic bytes''), 0, r1)
      | (Inr bs, n, r1) \<Rightarrow>
          if (of_nat (be_nat bs) :: 32 word) \<noteq> magic
          then (Inl (ErrMsg ''invalid magic bytes''), 4, r1)
          else (Inr (), 4, r1))"

definition CanonicalTypeEncoder :: "string \<Rightarrow> writer" where
  "CanonicalTypeEncoder t =
     (if t = [] then wfail (ErrMsg ''empty type'')
      else wseq Stamp_WriteTo (ObjectType_WriteTo t))"

definition CanonicalTypeDecoder :: "string reader" where
  "CanonicalTypeDecoder = rbind Stamp_ReadFrom (\<lambda>_. ObjectType_ReadFrom)"

definition ShortTypeEncoder :: "string \<Rightarrow> writer" where
  "ShortTypeEncoder t =
     (if t = [] then wfail (ErrMsg ''empty type'') else ObjectType_WriteTo t)"

definition ShortTypeDecoder :: "string reader" where
  "ShortTypeDecoder = ObjectType_ReadFrom"

text \<open>
  The indexed codec numbers types by their position in a list.  Building the reverse map
  overwrites, so a repeated name encodes as its last position, and the position is cut to
  eight bits.
\<close>

fun index_rev :: "nat \<Rightarrow> string list \<Rightarrow> (string \<Rightarrow> 8 word option) \<Rightarrow> (string \<Rightarrow> 8 word option)" where
  "index_rev i [] m = m"
| "index_rev i (v # vs) m = index_rev (Suc i) vs (m(v \<mapsto> of_nat i))"

definition IndexedTypeEncoder :: "string list \<Rightarrow> string \<Rightarrow> writer" where
  "IndexedTypeEncoder types t =
     (case index_rev 0 types Map.empty t of
        None \<Rightarrow> wfail (ErrMsg ''invalid type'')
      | Some code \<Rightarrow> Uint8_WriteTo code)"

definition IndexedTypeDecoder :: "string list \<Rightarrow> string reader" where
  "IndexedTypeDecoder types =
     rbind Uint8_ReadFrom (\<lambda>code.
       if length types \<le> unat code then rfail (ErrMsg ''invalid type code'')
       else rret (types ! unat code))"

subsection \<open>The codec interface\<close>

text \<open>
  What an astral type promises of its binary codec: on the values it accepts, what
  \<^verbatim>\<open>WriteTo\<close> emits is what \<^verbatim>\<open>ReadFrom\<close> restores, byte count included.
\<close>

locale wire_codec =
  fixes W :: "'a \<Rightarrow> writer" and R :: "'a reader" and ok :: "'a \<Rightarrow> bool"
  assumes round_trip: "ok v \<Longrightarrow> reads_back (W v) R v"
begin

text \<open>Two values in a row: the second starts where the first ended.\<close>

lemma pair_round_trip:
  assumes "ok x" "ok y"
  shows "reads_back (wseq (W x) (W y)) (rbind R (\<lambda>a. rmap (\<lambda>b. (a, b)) R)) (x, y)"
  by (rule rb_seq [OF round_trip [OF assms(1)]]) (rule rb_map [OF round_trip [OF assms(2)]])

text \<open>On naked streams: decoding the encoded bytes gives the value and leaves the rest.\<close>

lemma naked_round_trip:
  assumes "ok v" and "W v \<lparr>out = [], wb = None\<rparr> = (None, n, w')"
  shows "n = length (out w') \<and>
    R \<lparr>inp = out w' @ rest, rb = None\<rparr> = (Inr v, n, \<lparr>inp = rest, rb = None\<rparr>)"
proof -
  obtain bs where "keeps None (wb w')" "out w' = bs" "length bs = n"
    and r: "\<And>rest ob. led_le ob None \<Longrightarrow>
      \<exists>ob'. R \<lparr>inp = bs @ rest, rb = ob\<rparr> = (Inr v, n, \<lparr>inp = rest, rb = ob'\<rparr>) \<and>
            keeps ob ob' \<and> led_le ob' (wb w')"
    using reads_backE [OF round_trip [OF assms(1)] assms(2)] by auto
  with r [of None rest] show ?thesis by (auto simp: keeps_def)
qed

text \<open>An encoding determines its value.\<close>

lemma write_inj:
  assumes "ok x" "ok y"
    and "W x \<lparr>out = [], wb = None\<rparr> = (None, n, w1)" and "W y \<lparr>out = [], wb = None\<rparr> = (None, m, w2)"
    and "out w1 = out w2"
  shows "x = y"
proof -
  have "R \<lparr>inp = out w1, rb = None\<rparr> = (Inr x, n, \<lparr>inp = [], rb = None\<rparr>)"
    using naked_round_trip [OF assms(1,3), of "[]"] by simp
  moreover have "R \<lparr>inp = out w1, rb = None\<rparr> = (Inr y, m, \<lparr>inp = [], rb = None\<rparr>)"
    using naked_round_trip [OF assms(2,4), of "[]"] assms(5) by simp
  ultimately show ?thesis by simp
qed

end

lemma rb_wmono:
  assumes "reads_back W R v" and "\<And>w n w'. W' w = (None, n, w') \<Longrightarrow> W w = (None, n, w')"
  shows "reads_back W' R v"
  using assms unfolding reads_back_def by blast

lemma pow256: "(256 :: nat) ^ k = 2 ^ (8 * k)"
  by (simp add: power_mult)

text \<open>The codecs that rewrite the count to a constant on success.\<close>

definition counted :: "nat \<Rightarrow> bytes \<Rightarrow> writer" where
  "counted k p w =
     (case Write p w of (Some e, n, w1) \<Rightarrow> (Some e, 0, w1) | (None, n, w1) \<Rightarrow> (None, k, w1))"

definition rcounted :: "nat \<Rightarrow> (bytes \<Rightarrow> 'a) \<Rightarrow> 'a reader" where
  "rcounted k f r =
     (case ReadFull k r of (Inl e, n, r1) \<Rightarrow> (Inl e, 0, r1) | (Inr bs, n, r1) \<Rightarrow> (Inr (f bs), k, r1))"

lemma rb_counted: "length p = k \<Longrightarrow> f p = v \<Longrightarrow> reads_back (counted k p) (rcounted k f) v"
  by (rule rb_wmono [OF rb_write_gen [of p]])
    (auto simp: rcounted_def ReadFull_ok counted_def Write_ok_iff split: prod.splits option.splits)

lemma of_nat_be_nat_word:
  assumes "8 * k = LENGTH('a::len)"
  shows "(of_nat (be_nat (nat_be k (unat v))) :: 'a word) = v"
proof -
  have "unat v < 256 ^ k" using unsigned_less [of v] assms by (simp add: pow256)
  then show ?thesis by simp
qed

lemma rb_counted_be:
  fixes v :: "'a::len word"
  assumes "8 * k = LENGTH('a)"
  shows "reads_back (counted k (nat_be k (unat v))) (rcounted k (\<lambda>bs. of_nat (be_nat bs))) v"
  by (rule rb_counted) (simp, rule of_nat_be_nat_word [OF assms])

lemma rb_fixed [codec_intros]:
  fixes v :: "'a::len word"
  assumes "8 dvd LENGTH('a)"
  shows "reads_back (writeFixed v) readFixed v"
proof -
  have w: "writeFixed v = counted (LENGTH('a) div 8) (nat_be (LENGTH('a) div 8) (unat v))"
    by (simp add: writeFixed_def counted_def fun_eq_iff)
  have r: "(readFixed :: 'a word reader) = rcounted (LENGTH('a) div 8) (\<lambda>bs. of_nat (be_nat bs))"
    by (simp add: readFixed_def rcounted_def fun_eq_iff)
  show ?thesis unfolding w r
    by (rule rb_counted_be) (use assms in simp)
qed

lemmas uint_codec_defs =
  Uint8_WriteTo_def Uint16_WriteTo_def Uint32_WriteTo_def Uint64_WriteTo_def
  Uint8_ReadFrom_def Uint16_ReadFrom_def Uint32_ReadFrom_def Uint64_ReadFrom_def
  Int8_WriteTo_def Int16_WriteTo_def Int32_WriteTo_def Int64_WriteTo_def
  Int8_ReadFrom_def Int16_ReadFrom_def Int32_ReadFrom_def Int64_ReadFrom_def

interpretation u8: wire_codec Uint8_WriteTo Uint8_ReadFrom "\<lambda>_. True"
  by unfold_locales (simp add: uint_codec_defs rb_fixed)
interpretation u16: wire_codec Uint16_WriteTo Uint16_ReadFrom "\<lambda>_. True"
  by unfold_locales (simp add: uint_codec_defs rb_fixed)
interpretation u32: wire_codec Uint32_WriteTo Uint32_ReadFrom "\<lambda>_. True"
  by unfold_locales (simp add: uint_codec_defs rb_fixed)
interpretation u64: wire_codec Uint64_WriteTo Uint64_ReadFrom "\<lambda>_. True"
  by unfold_locales (simp add: uint_codec_defs rb_fixed)
interpretation i8: wire_codec Int8_WriteTo Int8_ReadFrom "\<lambda>_. True"
  by unfold_locales (simp add: uint_codec_defs rb_fixed)
interpretation i16: wire_codec Int16_WriteTo Int16_ReadFrom "\<lambda>_. True"
  by unfold_locales (simp add: uint_codec_defs rb_fixed)
interpretation i32: wire_codec Int32_WriteTo Int32_ReadFrom "\<lambda>_. True"
  by unfold_locales (simp add: uint_codec_defs rb_fixed)
interpretation i64: wire_codec Int64_WriteTo Int64_ReadFrom "\<lambda>_. True"
  by unfold_locales (simp add: uint_codec_defs rb_fixed)

interpretation boolc: wire_codec Bool_WriteTo Bool_ReadFrom "\<lambda>_. True"
proof unfold_locales
  fix v :: bool
  have w: "Bool_WriteTo v = counted 1 [if v then 1 else 0]"
    by (simp only: Bool_WriteTo_def counted_def fun_eq_iff) simp
  have r: "Bool_ReadFrom = rcounted 1 (\<lambda>bs. bs ! 0 \<noteq> 0)"
    by (simp only: Bool_ReadFrom_def rcounted_def fun_eq_iff) simp
  show "reads_back (Bool_WriteTo v) Bool_ReadFrom v" unfolding w r by (rule rb_counted) simp_all
qed

lemma rb_prefixed:
  assumes "reads_back (WL l) RL l" and "length p = unat l"
    and "reads_back (Write p) (RP (unat l)) v"
  shows "reads_back (wseq (WL l) (writePayload p)) (rbind RL (\<lambda>l. RP (unat l))) v"
  by (rule rb_seq [OF assms(1)]) (simp add: assms(3))

lemma unat_of_nat_small: "n < 2 ^ LENGTH('a::len) \<Longrightarrow> unat (of_nat n :: 'a word) = n"
  by (simp add: unat_of_nat)

lemma rb_Bytes:
  "reads_back (Bytes8_WriteTo b) Bytes8_ReadFrom b"
  "reads_back (Bytes16_WriteTo b) Bytes16_ReadFrom b"
  "reads_back (Bytes32_WriteTo b) Bytes32_ReadFrom b"
  "length b < 2 ^ 64 \<Longrightarrow> reads_back (Bytes64_WriteTo b) Bytes64_ReadFrom b"
  unfolding Bytes8_WriteTo_def Bytes16_WriteTo_def Bytes32_WriteTo_def Bytes64_WriteTo_def
    Bytes8_ReadFrom_def Bytes16_ReadFrom_def Bytes32_ReadFrom_def Bytes64_ReadFrom_def
  by (auto intro!: rb_fail rb_prefixed rb_readNBytes u8.round_trip u16.round_trip u32.round_trip
      u64.round_trip simp: unat_of_nat_small not_less simp del: writePayload_eq)

lemma rb_String:
  "reads_back (String8_WriteTo s) String8_ReadFrom s"
  "reads_back (String16_WriteTo s) String16_ReadFrom s"
  "reads_back (String32_WriteTo s) String32_ReadFrom s"
  "length s < 2 ^ 64 \<Longrightarrow> reads_back (String64_WriteTo s) String64_ReadFrom s"
proof -
  have full: "reads_back (Write (str_bytes s)) (rmap bytes_str (ReadFull (length s))) s"
    using rb_map [OF rb_write [of "str_bytes s" "length s"], of bytes_str] by simp
  have chunk: "reads_back (Write (str_bytes s)) (rmap bytes_str (readNBytes (length s))) s"
    using rb_map [OF rb_readNBytes [of "str_bytes s" "length s"], of bytes_str] by simp
  show "reads_back (String8_WriteTo s) String8_ReadFrom s"
    "reads_back (String16_WriteTo s) String16_ReadFrom s"
    "reads_back (String32_WriteTo s) String32_ReadFrom s"
    "length s < 2 ^ 64 \<Longrightarrow> reads_back (String64_WriteTo s) String64_ReadFrom s"
    unfolding String8_WriteTo_def String16_WriteTo_def String32_WriteTo_def String64_WriteTo_def
      String8_ReadFrom_def String16_ReadFrom_def String32_ReadFrom_def String64_ReadFrom_def
    by (auto intro!: rb_fail rb_prefixed u8.round_trip u16.round_trip u32.round_trip
        u64.round_trip simp: unat_of_nat_small not_less full chunk simp del: writePayload_eq)
qed

interpretation bytes8: wire_codec Bytes8_WriteTo Bytes8_ReadFrom "\<lambda>_. True"
  by unfold_locales (rule rb_Bytes)
interpretation bytes16: wire_codec Bytes16_WriteTo Bytes16_ReadFrom "\<lambda>_. True"
  by unfold_locales (rule rb_Bytes)
interpretation bytes32: wire_codec Bytes32_WriteTo Bytes32_ReadFrom "\<lambda>_. True"
  by unfold_locales (rule rb_Bytes)
interpretation bytes64: wire_codec Bytes64_WriteTo Bytes64_ReadFrom "\<lambda>b. length b < 2 ^ 64"
  by unfold_locales (rule rb_Bytes)
interpretation string8: wire_codec String8_WriteTo String8_ReadFrom "\<lambda>_. True"
  by unfold_locales (rule rb_String)
interpretation string16: wire_codec String16_WriteTo String16_ReadFrom "\<lambda>_. True"
  by unfold_locales (rule rb_String)
interpretation string32: wire_codec String32_WriteTo String32_ReadFrom "\<lambda>_. True"
  by unfold_locales (rule rb_String)
interpretation string64: wire_codec String64_WriteTo String64_ReadFrom "\<lambda>s. length s < 2 ^ 64"
  by unfold_locales (rule rb_String)

lemma nonce_counted:
  "Nonce_WriteTo v = counted 8 (nat_be 8 (unat v))"
  "Nonce_ReadFrom = rcounted 8 (\<lambda>bs. of_nat (be_nat bs))"
  "Duration_WriteTo v = counted 8 (nat_be 8 (unat v))"
  "Duration_ReadFrom = rcounted 8 (\<lambda>bs. of_nat (be_nat bs))"
  by (simp_all add: Nonce_WriteTo_def Nonce_ReadFrom_def Duration_WriteTo_def
      Duration_ReadFrom_def counted_def rcounted_def fun_eq_iff)

interpretation nonce: wire_codec Nonce_WriteTo Nonce_ReadFrom "\<lambda>_. True"
  unfolding nonce_counted by unfold_locales (rule rb_counted_be, simp)
interpretation duration: wire_codec Duration_WriteTo Duration_ReadFrom "\<lambda>_. True"
  unfolding nonce_counted by unfold_locales (rule rb_counted_be, simp)
interpretation zone: wire_codec Zone_WriteTo Zone_ReadFrom "\<lambda>_. True"
  by unfold_locales (simp add: Zone_WriteTo_def Zone_ReadFrom_def u8.round_trip)
interpretation object_type: wire_codec ObjectType_WriteTo ObjectType_ReadFrom "\<lambda>_. True"
  by unfold_locales (simp add: ObjectType_WriteTo_def ObjectType_ReadFrom_def rb_String)

lemma sint_of_int_64: "- (2 ^ 63) \<le> t \<Longrightarrow> t < 2 ^ 63 \<Longrightarrow> sint (of_int t :: 64 word) = t"
  by (simp add: signed_of_int signed_take_bit_int_eq_self)

interpretation time: wire_codec Time_WriteTo Time_ReadFrom "\<lambda>t. - (2 ^ 63) \<le> t \<and> t < 2 ^ 63"
proof unfold_locales
  fix t :: int
  assume "- (2 ^ 63) \<le> t \<and> t < 2 ^ 63"
  then have "sint (of_int t :: 64 word) = t" by (simp add: sint_of_int_64)
  then show "reads_back (Time_WriteTo t) Time_ReadFrom t"
    using rb_map [OF u64.round_trip [of "of_int t"], of sint]
    by (simp add: Time_WriteTo_def Time_ReadFrom_def)
qed


interpretation stamp: wire_codec "\<lambda>_. Stamp_WriteTo" Stamp_ReadFrom "\<lambda>_. True"
proof unfold_locales
  fix v :: unit
  have w: "Stamp_WriteTo = counted 4 (nat_be 4 (unat magic))"
    by (simp add: Stamp_WriteTo_def counted_def fun_eq_iff)
  have m: "(of_nat (be_nat (nat_be 4 (unat magic))) :: 32 word) = magic"
    by (rule of_nat_be_nat_word) simp
  show "reads_back Stamp_WriteTo Stamp_ReadFrom v" unfolding w
    by (rule rb_wmono [OF rb_write_gen [of "nat_be 4 (unat magic)"]])
      (auto simp: Stamp_ReadFrom_def ReadFull_ok counted_def Write_ok_iff m
        simp del: be_nat_nat_be split: prod.splits option.splits)
qed

interpretation canonical_tag: wire_codec CanonicalTypeEncoder CanonicalTypeDecoder "\<lambda>_. True"
  unfolding CanonicalTypeEncoder_def CanonicalTypeDecoder_def
  by unfold_locales (auto intro!: rb_fail rb_seq stamp.round_trip object_type.round_trip)

interpretation short_tag: wire_codec ShortTypeEncoder ShortTypeDecoder "\<lambda>_. True"
  unfolding ShortTypeEncoder_def ShortTypeDecoder_def
  by unfold_locales (auto intro!: rb_fail object_type.round_trip)

text \<open>The reverse index names a position of the list, as long as positions fit a byte.\<close>

lemma index_rev_mem:
  "index_rev i ts m t = Some c \<Longrightarrow> m t = Some c \<or> (\<exists>j < length ts. ts ! j = t \<and> c = of_nat (i + j))"
proof (induction ts arbitrary: i m)
  case (Cons v vs)
  from Cons.prems have "index_rev (Suc i) vs (m(v \<mapsto> of_nat i)) t = Some c" by simp
  from Cons.IH [OF this]
  consider (map) "(m(v \<mapsto> of_nat i)) t = Some c" | (later) j where "j < length vs" "vs ! j = t" "c = of_nat (Suc i + j)"
    by blast
  then show ?case
  proof cases
    case map
    then show ?thesis by (cases "v = t") (auto intro!: exI [of _ 0])
  next
    case later
    then show ?thesis by (auto intro!: exI [of _ "Suc j"])
  qed
qed simp

lemma index_rev_dom: "t \<in> set ts \<Longrightarrow> index_rev i ts m t \<noteq> None"
proof -
  have keep: "m t \<noteq> None \<Longrightarrow> index_rev i ts m t \<noteq> None" for i ts and m :: "string \<Rightarrow> 8 word option"
    by (induction ts arbitrary: i m) auto
  show "t \<in> set ts \<Longrightarrow> index_rev i ts m t \<noteq> None"
  proof (induction ts arbitrary: i m)
    case (Cons v vs)
    then show ?case using keep [of "m(v \<mapsto> of_nat i)" "Suc i" vs] by (cases "t \<in> set vs") auto
  qed simp
qed

lemma rb_indexed:
  assumes "length types \<le> 256"
  shows "reads_back (IndexedTypeEncoder types t) (IndexedTypeDecoder types) t"
proof (cases "index_rev 0 types Map.empty t")
  case None
  then show ?thesis by (simp add: IndexedTypeEncoder_def rb_fail)
next
  case (Some c)
  from index_rev_mem [OF Some] obtain j where j: "j < length types" "types ! j = t" "c = of_nat j"
    by auto
  then have u: "unat c = j" using assms by (simp add: unat_of_nat)
  have "reads_back (wseq (Uint8_WriteTo c) wskip) (IndexedTypeDecoder types) t"
    unfolding IndexedTypeDecoder_def
    by (rule rb_seq [OF u8.round_trip]) (use u j in \<open>simp_all add: rb_skip\<close>)
  then show ?thesis using Some by (simp add: IndexedTypeEncoder_def)
qed

subsection \<open>Text codecs\<close>

locale text_codec =
  fixes show_text :: "'a \<Rightarrow> string" and read_text :: "string \<Rightarrow> 'a res"
  assumes text_round_trip: "read_text (show_text v) = Inr v"
begin

lemma show_text_inj: "show_text a = show_text b \<Longrightarrow> a = b"
  by (metis text_round_trip sum.inject(2))

end

lemma parseUintText_format:
  fixes u :: "'a::len word"
  assumes "8 dvd LENGTH('a)"
  shows "parseUintText (formatUint 10 (unat u)) = Inr u"
  using assms unsigned_less [of u] by (simp add: parseUintText_def)

lemma parseIntText_format:
  fixes i :: "'a::len word"
  assumes "8 dvd LENGTH('a)"
  shows "parseIntText (formatInt (sint i)) = Inr i"
proof -
  have "- (2 ^ (LENGTH('a) - 1)) \<le> sint i" "sint i < 2 ^ (LENGTH('a) - 1)"
    using sint_greater_eq [of i] sint_less [of i] by simp_all
  then have "parseInt (formatInt (sint i)) 10 (LENGTH('a) div 8 * 8) = Inr (sint i)"
    using parseInt_format [of "LENGTH('a)" "sint i"] assms by simp
  then show ?thesis by (simp add: parseIntText_def)
qed

lemmas int_text_defs =
  Uint8_MarshalText_def Uint16_MarshalText_def Uint32_MarshalText_def Uint64_MarshalText_def
  Uint8_UnmarshalText_def Uint16_UnmarshalText_def Uint32_UnmarshalText_def Uint64_UnmarshalText_def
  Int8_MarshalText_def Int16_MarshalText_def Int32_MarshalText_def Int64_MarshalText_def
  Int8_UnmarshalText_def Int16_UnmarshalText_def Int32_UnmarshalText_def Int64_UnmarshalText_def

interpretation u8t: text_codec Uint8_MarshalText Uint8_UnmarshalText
  by unfold_locales (simp add: int_text_defs parseUintText_format)
interpretation u16t: text_codec Uint16_MarshalText Uint16_UnmarshalText
  by unfold_locales (simp add: int_text_defs parseUintText_format)
interpretation u32t: text_codec Uint32_MarshalText Uint32_UnmarshalText
  by unfold_locales (simp add: int_text_defs parseUintText_format)
interpretation u64t: text_codec Uint64_MarshalText Uint64_UnmarshalText
  by unfold_locales (simp add: int_text_defs parseUintText_format)
interpretation i8t: text_codec Int8_MarshalText Int8_UnmarshalText
  by unfold_locales (simp add: int_text_defs parseIntText_format)
interpretation i16t: text_codec Int16_MarshalText Int16_UnmarshalText
  by unfold_locales (simp add: int_text_defs parseIntText_format)
interpretation i32t: text_codec Int32_MarshalText Int32_UnmarshalText
  by unfold_locales (simp add: int_text_defs parseIntText_format)
interpretation i64t: text_codec Int64_MarshalText Int64_UnmarshalText
  by unfold_locales (simp add: int_text_defs parseIntText_format)
interpretation boolt: text_codec Bool_String Bool_UnmarshalText
proof unfold_locales
  fix v
  show "Bool_UnmarshalText (Bool_String v) = Inr v"
    by (cases v) (simp_all add: Bool_String_def Bool_UnmarshalText_def ToLower_def to_lower_def)
qed

lemma parse_digits_zeros: "0 < base \<Longrightarrow> parse_digits base maxv 0 (replicate k CHR ''0'' @ s) = parse_digits base maxv 0 s"
  by (induction k) (simp_all add: digit_val_def)

interpretation noncet: text_codec Nonce_String Nonce_UnmarshalText
proof unfold_locales
  fix v :: "64 word"
  have "unat v < 2 ^ 64" using unsigned_less [of v] by simp
  then show "Nonce_UnmarshalText (Nonce_String v) = Inr v"
    by (simp add: Nonce_String_def Nonce_UnmarshalText_def Let_def parseUint_def
        parse_digits_zeros parse_digits_format)
qed

subsection \<open>Zones\<close>

lemma Zones_loop_char:
  "Zones_loop z s = z OR (if CHR ''d'' \<in> set s then ZoneDevice else 0)
     OR (if CHR ''v'' \<in> set s then ZoneVirtual else 0) OR (if CHR ''n'' \<in> set s then ZoneNetwork else 0)"
  by (induction s arbitrary: z) (auto simp: ac_simps or.assoc)

end
