(* ===== verification/Objectify.thy ===== *)
theory Objectify
  imports Scalars "HOL-Library.AList" "HOL-Library.List_Lexorder" "HOL-Library.Multiset"
begin

text \<open>
  The reflective codec: \<^verbatim>\<open>src/astral/objectify.go\<close> and the value views \<^verbatim>\<open>struct_value.go\<close>,
  \<^verbatim>\<open>slice_value.go\<close>, \<^verbatim>\<open>array_value.go\<close>, \<^verbatim>\<open>map_value.go\<close>, \<^verbatim>\<open>ptr_value.go\<close> and
  \<^verbatim>\<open>interface_value.go\<close>.  What \<^verbatim>\<open>objectify\<close> dispatches on by reflection is an argument here:
  each view is a combinator over the codecs of its parts, so a Go type is the composition of
  the combinators its shape selects, and \<open>flagged\<close> is what \<^verbatim>\<open>elemNeedsPresenceFlag\<close> reports for
  the element type.  Every combinator comes with its rule for \<open>reads_back\<close>.
\<close>

subsection \<open>Sequences of codecs\<close>

definition writeAll :: "writer list \<Rightarrow> writer" where
  "writeAll ws = foldr wseq ws wskip"

fun readAll :: "'a reader list \<Rightarrow> 'a list reader" where
  "readAll [] = rret []"
| "readAll (R # Rs) = rbind R (\<lambda>v. rmap (Cons v) (readAll Rs))"

subsection \<open>The presence flag\<close>

definition presenceFlagOne :: bytes where "presenceFlagOne = [1]"

definition writePresence :: "bool \<Rightarrow> writer" where
  "writePresence flagged = (if flagged then counted 1 presenceFlagOne else wskip)"

definition consumePresenceFlag :: "unit reader" where
  "consumePresenceFlag r =
     (case (readFixed :: 8 word reader) r of
        (Inl e, n, r1) \<Rightarrow> (Inl e, 0, r1)
      | (Inr flag, n, r1) \<Rightarrow> if flag \<noteq> 1 then (Inl (ErrInvalidFlag (unat flag)), 1, r1) else (Inr (), 1, r1))"

definition readPresence :: "bool \<Rightarrow> unit reader" where
  "readPresence flagged = (if flagged then consumePresenceFlag else rret ())"

subsection \<open>Structs, slices and arrays\<close>

text \<open>
  A struct that is not the root of an \<^verbatim>\<open>Objectify\<close> call and implements Object uses its own
  codec inside the struct's frame; otherwise the exported fields follow in declaration order.
\<close>

definition structValue_WriteTo :: "bool \<Rightarrow> writer option \<Rightarrow> writer list \<Rightarrow> writer" where
  "structValue_WriteTo root own fs =
     wframe (case own of Some W \<Rightarrow> if \<not> root then W else writeAll fs | None \<Rightarrow> writeAll fs)"

definition structValue_ReadFrom :: "bool \<Rightarrow> 'a list reader option \<Rightarrow> 'a reader list \<Rightarrow> 'a list reader" where
  "structValue_ReadFrom root own fs =
     rframe (case own of Some R \<Rightarrow> if \<not> root then R else readAll fs | None \<Rightarrow> readAll fs)"

definition writeElems :: "bool \<Rightarrow> writer list \<Rightarrow> writer" where
  "writeElems flagged ws = writeAll (map (\<lambda>W. wseq (writePresence flagged) W) ws)"

fun readElems :: "bool \<Rightarrow> 'a reader \<Rightarrow> nat \<Rightarrow> 'a list reader" where
  "readElems flagged R 0 = rret []"
| "readElems flagged R (Suc k) =
     rbind (readPresence flagged) (\<lambda>_. rbind R (\<lambda>v. rmap (Cons v) (readElems flagged R k)))"

definition sliceValue_WriteTo :: "bool \<Rightarrow> writer list \<Rightarrow> writer" where
  "sliceValue_WriteTo flagged ws =
     wframe (wseq (writeFixed (of_nat (length ws) :: 32 word)) (writeElems flagged ws))"

definition sliceValue_ReadFrom :: "bool \<Rightarrow> 'a reader \<Rightarrow> 'a list reader" where
  "sliceValue_ReadFrom flagged R =
     rframe (rbind (readFixed :: 32 word reader) (\<lambda>l. readElems flagged R (unat l)))"

definition arrayValue_WriteTo :: "bool \<Rightarrow> writer list \<Rightarrow> writer" where
  "arrayValue_WriteTo flagged ws = wframe (writeElems flagged ws)"

definition arrayValue_ReadFrom :: "bool \<Rightarrow> 'a reader \<Rightarrow> nat \<Rightarrow> 'a list reader" where
  "arrayValue_ReadFrom flagged R len = rframe (readElems flagged R len)"

subsection \<open>Pointers and interfaces\<close>

text \<open>A nil pointer is \<open>None\<close>; \<open>skip\<close> is \<^verbatim>\<open>skipNilFlag\<close>.\<close>

definition ptrValue_WriteTo :: "bool \<Rightarrow> writer option \<Rightarrow> writer" where
  "ptrValue_WriteTo skip p =
     wframe (case p of
               None \<Rightarrow> if skip then wskip else writeFixed (0 :: 8 word)
             | Some W \<Rightarrow> wseq (if skip then wskip else writeFixed (1 :: 8 word)) W)"

definition ptrValue_ReadFrom :: "bool \<Rightarrow> 'a reader \<Rightarrow> 'a option reader" where
  "ptrValue_ReadFrom skip R =
     rframe (if skip then rmap Some R
             else rbind (readFixed :: 8 word reader)
               (\<lambda>nilFlag. if nilFlag = 0 then rret None
                          else if nilFlag = 1 then rmap Some R
                          else rfail (ErrMsg ''invalid nil flag'')))"

definition nilTypeName :: string where "nilTypeName = ''nil''"

text \<open>
  An absent slot is \<open>None\<close> (interface-nil, a typed nil pointer and \<^verbatim>\<open>*Nil\<close> alike, as
  \<^verbatim>\<open>IsAbsent\<close> folds them); otherwise the concrete object's type name and codec.
\<close>

definition interfaceValue_WriteTo :: "(string \<times> writer) option \<Rightarrow> writer" where
  "interfaceValue_WriteTo slot =
     wframe (case slot of
               None \<Rightarrow> writeFixed (0 :: 8 word)
             | Some (objectType, W) \<Rightarrow>
                 if objectType = [] then wfail (ErrMsg ''interface contains an untyped object'')
                 else wseq (String8_WriteTo objectType) W)"

text \<open>
  \<open>new\<close> resolves a type name: \<open>Inl\<close> the error of an unknown or unconvertible type, \<open>Inr\<close> the
  \<^verbatim>\<open>ReadFrom\<close> of the object the registry built.
\<close>

definition interfaceValue_ReadFrom :: "(string \<Rightarrow> 'a reader res) \<Rightarrow> 'a option reader" where
  "interfaceValue_ReadFrom new =
     rframe (rbind String8_ReadFrom
       (\<lambda>objectType. if length objectType = 0 \<or> objectType = nilTypeName then rret None
          else case new objectType of Inl e \<Rightarrow> rfail e | Inr R \<Rightarrow> rmap Some R))"

subsection \<open>Maps\<close>

datatype mapkey = KString string | KUint "64 word"

datatype gokind = String | Uint8 | Uint16 | Uint32 | Uint64 | Uint | OtherKind

definition supportedMapKey :: "gokind \<Rightarrow> nat option" where
  "supportedMapKey k =
     (case k of String \<Rightarrow> Some 0 | Uint8 \<Rightarrow> Some 1 | Uint16 \<Rightarrow> Some 2 | Uint32 \<Rightarrow> Some 4
      | Uint64 \<Rightarrow> Some 8 | _ \<Rightarrow> None)"

text \<open>The key's Go value has the map's key kind: a string for width 0, an unsigned integer otherwise.\<close>

definition writeMapKey :: "mapkey \<Rightarrow> nat \<Rightarrow> writer" where
  "writeMapKey k width =
     (case k of
        KString s \<Rightarrow> String16_WriteTo s
      | KUint u \<Rightarrow> Write (drop (8 - width) (nat_be 8 (unat u))))"

definition readMapKey :: "nat \<Rightarrow> mapkey reader" where
  "readMapKey width =
     (if width = 0 then rmap KString String16_ReadFrom
      else rmap (\<lambda>bs. KUint (of_nat (be_nat bs))) (ReadFull width))"

definition key_ok :: "nat \<Rightarrow> mapkey \<Rightarrow> bool" where
  "key_ok width k =
     (case k of KString s \<Rightarrow> width = 0
      | KUint u \<Rightarrow> width \<in> {1, 2, 4, 8} \<and> unat u < 256 ^ width)"

text \<open>Each key and value is staged in a buffer of its own, which is a naked writer.\<close>

definition stage :: "writer \<Rightarrow> bytes res" where
  "stage W = (case W \<lparr>out = [], wb = None\<rparr> of (Some e, n, w) \<Rightarrow> Inl e | (None, n, w) \<Rightarrow> Inr (out w))"

fun stagePairs :: "nat \<Rightarrow> bool \<Rightarrow> (mapkey \<times> writer) list \<Rightarrow> (bytes \<times> bytes) list res" where
  "stagePairs width flagged [] = Inr []"
| "stagePairs width flagged ((k, W) # rest) =
     (case stage (writeMapKey k width) of
        Inl e \<Rightarrow> Inl e
      | Inr kb \<Rightarrow>
          (case stage (wseq (writePresence flagged) W) of
             Inl e \<Rightarrow> Inl e
           | Inr vb \<Rightarrow>
               (case stagePairs width flagged rest of
                  Inl e \<Rightarrow> Inl e
                | Inr ps \<Rightarrow> Inr ((kb, vb) # ps))))"

definition mapValue_WriteTo :: "gokind \<Rightarrow> bool \<Rightarrow> (mapkey \<times> writer) list \<Rightarrow> writer" where
  "mapValue_WriteTo kind flagged entries =
     wframe (case supportedMapKey kind of
        None \<Rightarrow> wfail (ErrMsg ''map_value: unsupported key kind'')
      | Some width \<Rightarrow>
          wseq (writeFixed (of_nat (length entries) :: 32 word))
            (case stagePairs width flagged entries of
               Inl e \<Rightarrow> wfail e
             | Inr pairs \<Rightarrow> writeAll (map (\<lambda>(kb, vb). wseq (Write kb) (Write vb)) (sort_key fst pairs))))"

fun readEntries :: "nat \<Rightarrow> bool \<Rightarrow> 'a reader \<Rightarrow> nat \<Rightarrow> (mapkey \<times> 'a) list \<Rightarrow> (mapkey \<times> 'a) list reader" where
  "readEntries width flagged R 0 m = rret m"
| "readEntries width flagged R (Suc l) m =
     rbind (readMapKey width) (\<lambda>k. rbind (readPresence flagged) (\<lambda>_. rbind R
       (\<lambda>v. readEntries width flagged R l (AList.update k v m))))"

definition mapValue_ReadFrom :: "gokind \<Rightarrow> bool \<Rightarrow> 'a reader \<Rightarrow> (mapkey \<times> 'a) list reader" where
  "mapValue_ReadFrom kind flagged R =
     rframe (case supportedMapKey kind of
        None \<Rightarrow> rfail (ErrMsg ''map_value: unsupported key kind'')
      | Some width \<Rightarrow> rbind (readFixed :: 32 word reader) (\<lambda>l. readEntries width flagged R (unat l) []))"

subsection \<open>Round-trip rules\<close>

lemma wseq_assoc: "wseq (wseq a b) c = wseq a (wseq b c)"
  by (auto simp: wseq_def fun_eq_iff split: prod.splits option.splits)

lemma rbind_assoc: "rbind (rbind a b) c = rbind a (\<lambda>x. rbind (b x) c)"
  by (auto simp: rbind_def fun_eq_iff split: prod.splits sum.splits)

lemma rb_all:
  "list_all2 (\<lambda>(W, R) v. reads_back W R v) cs vs \<Longrightarrow>
     reads_back (writeAll (map fst cs)) (readAll (map snd cs)) vs"
proof (induction rule: list_all2_induct)
  case Nil
  then show ?case by (simp add: writeAll_def rb_skip)
next
  case (Cons c cs v vs)
  obtain W R where c: "c = (W, R)" by force
  have "reads_back (wseq W (writeAll (map fst cs))) (rbind R (\<lambda>v. rmap (Cons v) (readAll (map snd cs)))) (v # vs)"
    by (rule rb_seq) (use Cons c in \<open>auto intro: rb_map\<close>)
  then show ?case by (simp add: c writeAll_def)
qed

lemma rb_struct:
  "list_all2 (\<lambda>(W, R) v. reads_back W R v) cs vs \<Longrightarrow>
     reads_back (structValue_WriteTo True W (map fst cs)) (structValue_ReadFrom True R (map snd cs)) vs"
  unfolding structValue_WriteTo_def structValue_ReadFrom_def
  by (cases W; cases R; simp) (auto intro: rb_frame rb_all)

lemma rb_struct_own:
  "reads_back W R vs \<Longrightarrow>
     reads_back (structValue_WriteTo False (Some W) ws) (structValue_ReadFrom False (Some R) Rs) vs"
  unfolding structValue_WriteTo_def structValue_ReadFrom_def by (simp add: rb_frame)

lemma rb_presence: "reads_back (writePresence flagged) (readPresence flagged) ()"
proof (cases flagged)
  case True
  have "consumePresenceFlag = rbind (readFixed :: 8 word reader)
      (\<lambda>f. if f \<noteq> 1 then rfail (ErrInvalidFlag (unat f)) else rret ())"
    by (auto simp: consumePresenceFlag_def rbind_def rfail_def rret_def readFixed_def fun_eq_iff
        split: prod.splits sum.splits)
  moreover have "counted 1 presenceFlagOne = wseq (writeFixed (1 :: 8 word)) wskip"
    by (auto simp: writeFixed_def counted_def presenceFlagOne_def fun_eq_iff split: prod.splits option.splits)
  moreover have "reads_back (wseq (writeFixed (1 :: 8 word)) wskip) (rbind (readFixed :: 8 word reader)
      (\<lambda>f. if f \<noteq> 1 then rfail (ErrInvalidFlag (unat f)) else rret ())) ()"
    by (rule rb_seq [OF rb_fixed]) (simp_all add: rb_skip)
  ultimately show ?thesis using True by (simp add: writePresence_def readPresence_def)
qed (simp add: writePresence_def readPresence_def rb_skip)

lemma rb_elems:
  "list_all2 (\<lambda>W v. reads_back W R v) ws vs \<Longrightarrow>
     reads_back (writeElems flagged ws) (readElems flagged R (length vs)) vs"
proof (induction rule: list_all2_induct)
  case Nil
  then show ?case by (simp add: writeElems_def writeAll_def rb_skip)
next
  case (Cons W ws v vs)
  have "reads_back (wseq (writePresence flagged) (wseq W (writeElems flagged ws)))
      (readElems flagged R (Suc (length vs))) (v # vs)"
    unfolding readElems.simps by (intro rb_seq [OF rb_presence] rb_seq [OF Cons(1)] rb_map Cons(3))
  then show ?case by (simp add: writeElems_def writeAll_def wseq_assoc)
qed

lemma rb_slice:
  assumes "list_all2 (\<lambda>W v. reads_back W R v) ws vs" and "length vs < 2 ^ 32"
  shows "reads_back (sliceValue_WriteTo flagged ws) (sliceValue_ReadFrom flagged R) vs"
  unfolding sliceValue_WriteTo_def sliceValue_ReadFrom_def
proof (rule rb_frame, rule rb_seq [OF rb_fixed])
  have len: "length ws = length vs" using assms(1) by (rule list_all2_lengthD)
  show "reads_back (writeElems flagged ws) (readElems flagged R (unat (of_nat (length ws) :: 32 word))) vs"
    using rb_elems [OF assms(1), of flagged] assms(2) by (simp add: len unat_of_nat_small)
qed simp

lemma rb_array:
  assumes "list_all2 (\<lambda>W v. reads_back W R v) ws vs"
  shows "reads_back (arrayValue_WriteTo flagged ws) (arrayValue_ReadFrom flagged R (length vs)) vs"
  unfolding arrayValue_WriteTo_def arrayValue_ReadFrom_def by (intro rb_frame rb_elems assms)

lemma rb_ptr_nil: "reads_back (ptrValue_WriteTo False None) (ptrValue_ReadFrom False R) None"
proof -
  have "reads_back (wseq (writeFixed (0 :: 8 word)) wskip) (rbind readFixed
      (\<lambda>f :: 8 word. if f = 0 then rret None else if f = 1 then rmap Some R
                     else rfail (ErrMsg ''invalid nil flag''))) None"
    by (rule rb_seq [OF rb_fixed]) (simp_all add: rb_skip)
  then show ?thesis unfolding ptrValue_WriteTo_def ptrValue_ReadFrom_def by (simp add: rb_frame)
qed

lemma rb_ptr:
  assumes "reads_back W R v"
  shows "reads_back (ptrValue_WriteTo skip (Some W)) (ptrValue_ReadFrom skip R) (Some v)"
proof -
  have "reads_back (wseq (writeFixed (1 :: 8 word)) W) (rbind readFixed
      (\<lambda>f :: 8 word. if f = 0 then rret None else if f = 1 then rmap Some R
                     else rfail (ErrMsg ''invalid nil flag''))) (Some v)"
    by (rule rb_seq [OF rb_fixed]) (simp_all add: rb_map assms)
  then show ?thesis using rb_map [OF assms, of Some]
    unfolding ptrValue_WriteTo_def ptrValue_ReadFrom_def by (simp add: rb_frame)
qed

lemma rb_interface_nil: "reads_back (interfaceValue_WriteTo None) (interfaceValue_ReadFrom new) None"
proof -
  have "writeFixed (0 :: 8 word) = String8_WriteTo []"
    by (auto simp: String8_WriteTo_def Uint8_WriteTo_def)
  moreover have "reads_back (wseq (String8_WriteTo []) wskip) (rbind String8_ReadFrom
       (\<lambda>t. if length t = 0 \<or> t = nilTypeName then rret None
          else case new t of Inl e \<Rightarrow> rfail e | Inr R \<Rightarrow> rmap Some R)) None"
    by (rule rb_seq [OF rb_String(1)]) (simp add: rb_skip)
  ultimately show ?thesis unfolding interfaceValue_WriteTo_def interfaceValue_ReadFrom_def
    by (simp add: rb_frame)
qed

lemma rb_interface:
  assumes "new t = Inr R" and "reads_back W R v" and "t \<noteq> nilTypeName"
  shows "reads_back (interfaceValue_WriteTo (Some (t, W))) (interfaceValue_ReadFrom new) (Some v)"
proof -
  have "t \<noteq> [] \<Longrightarrow> reads_back (wseq (String8_WriteTo t) W) (rbind String8_ReadFrom
       (\<lambda>t. if length t = 0 \<or> t = nilTypeName then rret None
          else case new t of Inl e \<Rightarrow> rfail e | Inr R \<Rightarrow> rmap Some R)) (Some v)"
    by (rule rb_seq [OF rb_String(1)]) (use assms in \<open>simp add: rb_map\<close>)
  then show ?thesis unfolding interfaceValue_WriteTo_def interfaceValue_ReadFrom_def
    by (intro rb_frame) (auto intro: rb_fail)
qed

subsection \<open>Maps of frame-free values\<close>

text \<open>
  \<open>plain W R v p\<close>: \<open>W\<close> writes the bytes \<open>p\<close> to a naked stream and \<open>R\<close> reads them back as \<open>v\<close>
  spending only those bytes.  Every codec that opens no frame satisfies it.
\<close>

definition plain :: "writer \<Rightarrow> 'a reader \<Rightarrow> 'a \<Rightarrow> bytes \<Rightarrow> bool" where
  "plain W R v p \<longleftrightarrow>
     (\<forall>o1. W \<lparr>out = o1, wb = None\<rparr> = (None, length p, \<lparr>out = o1 @ p, wb = None\<rparr>)) \<and>
     (\<forall>rest ob. fits (length p) ob \<longrightarrow>
        R \<lparr>inp = p @ rest, rb = ob\<rparr> = (Inr v, length p, \<lparr>inp = rest, rb = spend (length p) ob\<rparr>))"

lemma plain_reads_back: "plain W R v p \<Longrightarrow> reads_back (Write p) R v"
  by (rule rb_write_gen) (simp add: plain_def)

lemma plain_stage: "plain W R v p \<Longrightarrow> stage W = Inr p"
  by (simp add: plain_def stage_def)

lemma plain_read:
  "plain W R v p \<Longrightarrow> fits (length p) ob \<Longrightarrow>
     R \<lparr>inp = p @ rest, rb = ob\<rparr> = (Inr v, length p, \<lparr>inp = rest, rb = spend (length p) ob\<rparr>)"
  by (simp add: plain_def)

lemma plain_inj: "plain W R v p \<Longrightarrow> plain W' R v' p \<Longrightarrow> v = v'"
  using plain_read [of W R v p None "[]"] plain_read [of W' R v' p None "[]"] by (simp add: fits_def)

lemma plain_skip: "plain wskip (rret v) v []"
  by (simp add: plain_def wskip_def rret_def)

lemma plain_map: "plain W R v p \<Longrightarrow> plain W (rmap f R) (f v) p"
  by (simp add: plain_def rmap_def rbind_def rret_def)

lemma plain_Write: "length p = k \<Longrightarrow> plain (Write p) (ReadFull k) p p"
  by (simp add: plain_def Write_def ReadFull_ok)

lemma plain_fixed:
  fixes v :: "'a::len word"
  assumes "8 dvd LENGTH('a)"
  shows "plain (writeFixed v) readFixed v (nat_be (LENGTH('a) div 8) (unat v))"
  using assms of_nat_be_nat_word [of "LENGTH('a) div 8" v]
  by (auto simp: plain_def writeFixed_def readFixed_def Write_def ReadFull_ok)

lemma plain_seq:
  assumes 1: "plain W1 R1 v1 p1" and 2: "plain W2 (R2 v1) v2 p2"
  shows "plain (wseq W1 W2) (rbind R1 R2) v2 (p1 @ p2)"
proof -
  have "rbind R1 R2 \<lparr>inp = (p1 @ p2) @ rest, rb = ob\<rparr> =
      (Inr v2, length (p1 @ p2), \<lparr>inp = rest, rb = spend (length (p1 @ p2)) ob\<rparr>)"
    if "fits (length (p1 @ p2)) ob" for rest ob
  proof -
    have f: "fits (length p1) ob" "fits (length p2) (spend (length p1) ob)"
      using that fits_split [of "length p1" "length p2" ob] by auto
    show ?thesis using 1 2 f by (simp add: plain_def rbind_def)
  qed
  then show ?thesis using 1 2 by (simp add: plain_def wseq_def)
qed

lemma plain_presence: "plain (writePresence fl) (readPresence fl) () (if fl then presenceFlagOne else [])"
proof (cases fl)
  case True
  have "plain (counted 1 presenceFlagOne) consumePresenceFlag () presenceFlagOne"
    using ReadFull_ok [of "[1]" 1]
    by (auto simp: plain_def counted_def presenceFlagOne_def Write_def consumePresenceFlag_def readFixed_def be_nat_def)
  then show ?thesis using True by (simp add: writePresence_def readPresence_def)
qed (simp add: writePresence_def readPresence_def plain_skip)

lemma plain_String16:
  assumes "length s < 2 ^ 16"
  shows "plain (String16_WriteTo s) String16_ReadFrom s (nat_be 2 (length s) @ str_bytes s)"
proof -
  have "plain (writeFixed (of_nat (length s) :: 16 word)) readFixed (of_nat (length s) :: 16 word) (nat_be 2 (length s))"
    using plain_fixed [of "of_nat (length s) :: 16 word"] assms by (simp add: unat_of_nat_small)
  moreover have "plain (Write (str_bytes s)) (rmap bytes_str (ReadFull (length s))) s (str_bytes s)"
    using plain_map [OF plain_Write [of "str_bytes s" "length s"], of bytes_str] by simp
  ultimately show ?thesis using assms
    unfolding String16_WriteTo_def String16_ReadFrom_def Uint16_WriteTo_def Uint16_ReadFrom_def
    by (auto intro!: plain_seq simp: unat_of_nat_small)
qed

lemma drop_nat_be: "drop j (nat_be (j + k) v) = nat_be k v"
  by (induction k arbitrary: v) simp_all

definition kbytes :: "nat \<Rightarrow> mapkey \<Rightarrow> bytes" where
  "kbytes width k =
     (case k of KString s \<Rightarrow> nat_be 2 (length s) @ str_bytes s | KUint u \<Rightarrow> nat_be width (unat u))"

definition key_fits :: "nat \<Rightarrow> mapkey \<Rightarrow> bool" where
  "key_fits width k =
     (case k of KString s \<Rightarrow> width = 0 \<and> length s < 2 ^ 16
      | KUint u \<Rightarrow> width \<in> {1, 2, 4, 8} \<and> unat u < 256 ^ width)"

lemma plain_mapKey:
  assumes "key_fits width k"
  shows "plain (writeMapKey k width) (readMapKey width) k (kbytes width k)"
proof (cases k)
  case (KString s)
  then show ?thesis using assms plain_map [OF plain_String16, of s KString]
    by (simp add: key_fits_def writeMapKey_def readMapKey_def kbytes_def)
next
  case (KUint u)
  then have w: "width \<in> {1, 2, 4, 8}" and u: "unat u < 256 ^ width"
    using assms by (simp_all add: key_fits_def)
  have "drop (8 - width) (nat_be 8 (unat u)) = nat_be width (unat u)"
    using w drop_nat_be [of "8 - width" width "unat u"] by auto
  moreover have "(of_nat (be_nat (nat_be width (unat u))) :: 64 word) = u" using u by simp
  ultimately show ?thesis
    using w KUint plain_map [OF plain_Write [of "nat_be width (unat u)" width], of "\<lambda>bs. KUint (of_nat (be_nat bs))"]
    by (auto simp: writeMapKey_def readMapKey_def kbytes_def)
qed

lemma kbytes_inj: "key_fits width k \<Longrightarrow> key_fits width k' \<Longrightarrow> kbytes width k = kbytes width k' \<Longrightarrow> k = k'"
  using plain_mapKey [of width k] plain_mapKey [of width k'] by (auto intro: plain_inj)

text \<open>An entry with its staged payload: key, codec, value, payload bytes.\<close>

type_synonym 'a mapentry = "mapkey \<times> writer \<times> 'a \<times> bytes"

definition entry_ok :: "nat \<Rightarrow> 'a reader \<Rightarrow> 'a mapentry \<Rightarrow> bool" where
  "entry_ok width R e = (case e of (k, W, v, p) \<Rightarrow> key_fits width k \<and> plain W R v p)"

definition entry_writer :: "'a mapentry \<Rightarrow> mapkey \<times> writer" where
  "entry_writer e = (case e of (k, W, v, p) \<Rightarrow> (k, W))"

definition entry_value :: "'a mapentry \<Rightarrow> mapkey \<times> 'a" where
  "entry_value e = (case e of (k, W, v, p) \<Rightarrow> (k, v))"

definition entry_pair :: "nat \<Rightarrow> bool \<Rightarrow> 'a mapentry \<Rightarrow> bytes \<times> bytes" where
  "entry_pair width flagged e =
     (case e of (k, W, v, p) \<Rightarrow> (kbytes width k, (if flagged then presenceFlagOne else []) @ p))"

lemma stagePairs_ok:
  "\<forall>e \<in> set es. entry_ok width R e \<Longrightarrow>
     stagePairs width flagged (map entry_writer es) = Inr (map (entry_pair width flagged) es)"
proof (induction es)
  case (Cons e es)
  obtain k W v p where e: "e = (k, W, v, p)" by (cases e) auto
  have "key_fits width k" "plain W R v p" using Cons.prems by (auto simp: e entry_ok_def)
  then have "stage (writeMapKey k width) = Inr (kbytes width k)"
    "stage (wseq (writePresence flagged) W) = Inr ((if flagged then presenceFlagOne else []) @ p)"
    using plain_stage [OF plain_mapKey, of width k]
      plain_stage [OF plain_seq [OF plain_presence [of flagged], of W "\<lambda>_. R" v p]] by auto
  then show ?case using Cons e by (auto simp: entry_writer_def entry_pair_def)
qed simp

lemma rb_entries:
  "\<forall>e \<in> set es. entry_ok width R e \<Longrightarrow>
     reads_back (writeAll (map (\<lambda>(kb, vb). wseq (Write kb) (Write vb)) (map (entry_pair width flagged) es)))
       (readEntries width flagged R (length es) m)
       (fold (\<lambda>(k, v). AList.update k v) (map entry_value es) m)"
proof (induction es arbitrary: m)
  case Nil
  then show ?case by (simp add: writeAll_def rb_skip)
next
  case (Cons e es)
  obtain k W v p where e: "e = (k, W, v, p)" by (cases e) auto
  have k: "key_fits width k" and pl: "plain W R v p" using Cons.prems by (auto simp: e entry_ok_def)
  let ?pr = "if flagged then presenceFlagOne else []"
  let ?rest = "writeAll (map (\<lambda>(kb, vb). wseq (Write kb) (Write vb)) (map (entry_pair width flagged) es))"
  let ?fin = "fold (\<lambda>(k, v). AList.update k v) (map entry_value es) (AList.update k v m)"
  have val: "reads_back (Write (?pr @ p)) (rbind (readPresence flagged) (\<lambda>_. R)) v"
    by (rule plain_reads_back [OF plain_seq [OF plain_presence pl]])
  have IH: "reads_back ?rest (readEntries width flagged R (length es) (AList.update k v m)) ?fin"
    using Cons by simp
  have "reads_back (wseq (Write (?pr @ p)) ?rest)
      (rbind (rbind (readPresence flagged) (\<lambda>_. R)) (\<lambda>v. readEntries width flagged R (length es) (AList.update k v m))) ?fin"
    by (rule rb_seq [OF val]) (rule IH)
  then have "reads_back (wseq (Write (?pr @ p)) ?rest)
      (rbind (readPresence flagged) (\<lambda>_. rbind R (\<lambda>v. readEntries width flagged R (length es) (AList.update k v m)))) ?fin"
    unfolding rbind_assoc .
  then have "reads_back (wseq (Write (kbytes width k)) (wseq (Write (?pr @ p)) ?rest))
      (rbind (readMapKey width) (\<lambda>k. rbind (readPresence flagged) (\<lambda>_. rbind R
        (\<lambda>v. readEntries width flagged R (length es) (AList.update k v m))))) ?fin"
    by (rule rb_seq [OF plain_reads_back [OF plain_mapKey [OF k]]])
  moreover have "entry_pair width flagged e = (kbytes width k, ?pr @ p)" "entry_value e = (k, v)"
    by (simp_all add: e entry_pair_def entry_value_def)
  ultimately show ?case by (simp add: writeAll_def wseq_assoc)
qed

lemma fold_update_distinct:
  "distinct (map fst kvs) \<Longrightarrow> fst ` set kvs \<inter> fst ` set m = {} \<Longrightarrow>
     fold (\<lambda>(k, v). AList.update k v) kvs m = m @ kvs"
proof (induction kvs arbitrary: m)
  case (Cons e kvs)
  obtain k v where e: "e = (k, v)" by force
  have "AList.update k v m = m @ [(k, v)]" using Cons.prems e by (induction m) auto
  then show ?case using Cons e by auto
qed simp

lemma sort_key_map:
  assumes "\<And>x. key (f x) = g x"
  shows "sort_key key (map f xs) = map f (sort_key g xs)"
proof -
  have "insort_key key (f x) (map f ys) = map f (insort_key g x ys)" for x ys
    by (induction ys) (auto simp: assms)
  then show ?thesis by (induction xs) (simp_all add: sort_key_def)
qed

lemma sort_key_pair:
  "sort_key fst (map (entry_pair width flagged) es) =
     map (entry_pair width flagged) (sort_key (\<lambda>e. kbytes width (fst e)) es)"
  by (rule sort_key_map) (simp add: entry_pair_def split_beta)

lemma rb_map_value:
  assumes width: "supportedMapKey kind = Some width"
    and ok: "\<forall>e \<in> set es. entry_ok width R e" and dist: "distinct (map fst es)"
    and len: "length es < 2 ^ 32"
  shows "reads_back (mapValue_WriteTo kind flagged (map entry_writer es)) (mapValue_ReadFrom kind flagged R)
           (map entry_value (sort_key (\<lambda>e. kbytes width (fst e)) es))"
proof -
  let ?es = "sort_key (\<lambda>e. kbytes width (fst e)) es"
  have keys: "map (fst \<circ> entry_value) ?es = map fst ?es" by (simp add: entry_value_def split_beta)
  have "distinct (map fst ?es)" using dist by (simp add: distinct_map)
  then have "fold (\<lambda>(k, v). AList.update k v) (map entry_value ?es) [] = map entry_value ?es"
    using fold_update_distinct [of "map entry_value ?es" "[]"] by (simp add: keys)
  then have "reads_back (writeAll (map (\<lambda>(kb, vb). wseq (Write kb) (Write vb)) (sort_key fst (map (entry_pair width flagged) es))))
      (readEntries width flagged R (length es) []) (map entry_value ?es)"
    using rb_entries [of ?es width R flagged "[]"] ok by (simp add: sort_key_pair)
  then have "reads_back (wseq (writeFixed (of_nat (length es) :: 32 word))
       (writeAll (map (\<lambda>(kb, vb). wseq (Write kb) (Write vb)) (sort_key fst (map (entry_pair width flagged) es)))))
      (rbind (readFixed :: 32 word reader) (\<lambda>l. readEntries width flagged R (unat l) [])) (map entry_value ?es)"
    using len by (intro rb_seq [OF rb_fixed]) (simp_all add: unat_of_nat_small)
  then show ?thesis using stagePairs_ok [OF ok, of flagged] width
    by (simp add: mapValue_WriteTo_def mapValue_ReadFrom_def rb_frame)
qed

subsection \<open>Maps of any values\<close>

text \<open>What staging makes of one entry.\<close>

definition staged :: "nat \<Rightarrow> bool \<Rightarrow> mapkey \<times> writer \<Rightarrow> (bytes \<times> bytes) res" where
  "staged width flagged e =
     (case stage (writeMapKey (fst e) width) of
        Inl err \<Rightarrow> Inl err
      | Inr kb \<Rightarrow> (case stage (wseq (writePresence flagged) (snd e)) of Inl err \<Rightarrow> Inl err | Inr vb \<Rightarrow> Inr (kb, vb)))"

lemma stagePairs_staged:
  "stagePairs width flagged es =
     (case es of [] \<Rightarrow> Inr []
      | e # rest \<Rightarrow> (case staged width flagged e of Inl err \<Rightarrow> Inl err
          | Inr p \<Rightarrow> (case stagePairs width flagged rest of Inl err \<Rightarrow> Inl err | Inr ps \<Rightarrow> Inr (p # ps))))"
  by (cases es) (auto simp: staged_def split: sum.splits)

lemma stagePairs_Inr_iff:
  "stagePairs width flagged es = Inr ps \<longleftrightarrow> list_all2 (\<lambda>e p. staged width flagged e = Inr p) es ps"
proof (induction es arbitrary: ps)
  case (Cons e es)
  show ?case
  proof (cases "stagePairs width flagged es")
    case (Inl err)
    then show ?thesis using Cons.IH by (subst stagePairs_staged) (auto simp: list_all2_Cons1 split: sum.splits)
  next
    case (Inr qs)
    then have "list_all2 (\<lambda>e p. staged width flagged e = Inr p) es zs \<longleftrightarrow> qs = zs" for zs
      using Cons.IH [of zs] by simp
    then show ?thesis using Inr by (subst stagePairs_staged) (auto simp: list_all2_Cons1 split: sum.splits)
  qed
qed auto

lemma stagePairs_exists:
  "(\<exists>ps. stagePairs width flagged es = Inr ps) \<longleftrightarrow> (\<forall>e \<in> set es. \<exists>p. staged width flagged e = Inr p)"
proof (induction es)
  case (Cons e es)
  then show ?case by (subst stagePairs_staged) (auto split: sum.splits)
qed simp

lemma staged_key: "key_ok width (fst e) \<Longrightarrow> staged width flagged e = Inr p \<Longrightarrow> key_fits width (fst e) \<and> fst p = kbytes width (fst e)"
proof -
  assume ok: "key_ok width (fst e)" and st: "staged width flagged e = Inr p"
  have fit: "key_fits width (fst e)"
  proof (cases "fst e")
    case (KString s)
    then have "length s < 2 ^ 16" using st
      by (auto simp: staged_def writeMapKey_def String16_WriteTo_def stage_def wfail_def split: if_splits)
    then show ?thesis using ok KString by (simp add: key_fits_def key_ok_def)
  qed (use ok in \<open>simp add: key_fits_def key_ok_def\<close>)
  then show ?thesis using st plain_stage [OF plain_mapKey [OF fit]] by (auto simp: staged_def split: sum.splits)
qed

text \<open>
  The order of iteration does not show: either every entry can be staged, and the bytes are the
  same, or some entry cannot, and nothing but the error comes of any order.
\<close>

lemma map_value_canonical:
  assumes width: "supportedMapKey kind = Some width"
    and ok: "\<forall>e \<in> set es. key_ok width (fst e)" and dist: "distinct (map fst es)" and perm: "mset es = mset es'"
  shows "if \<forall>e \<in> set es. \<exists>p. staged width flagged e = Inr p
    then mapValue_WriteTo kind flagged es = mapValue_WriteTo kind flagged es'
    else \<forall>w. fst (mapValue_WriteTo kind flagged es w) \<noteq> None \<and> fst (mapValue_WriteTo kind flagged es' w) \<noteq> None"
proof -
  have s: "set es' = set es" and len: "length es' = length es" using perm by (metis set_mset_mset, metis mset_eq_length)
  show ?thesis
  proof (cases "\<forall>e \<in> set es. \<exists>p. staged width flagged e = Inr p")
    case True
    define f where "f e = (SOME p. staged width flagged e = Inr p)" for e
    have f: "staged width flagged e = Inr (f e)" if "e \<in> set es" for e
      unfolding f_def using someI_ex [of "\<lambda>p. staged width flagged e = Inr p"] True that by blast
    have st: "stagePairs width flagged es = Inr (map f es)" "stagePairs width flagged es' = Inr (map f es')"
      using f s by (auto simp: stagePairs_Inr_iff list_all2_map2 intro!: list.rel_refl_strong)
    have k: "key_fits width (fst e) \<and> fst (f e) = kbytes width (fst e)" if "e \<in> set es" for e
      using staged_key [OF _ f [OF that]] ok that by blast
    have "inj_on (\<lambda>e. fst (f e)) (set es)"
    proof (rule inj_onI)
      fix x y assume xy: "x \<in> set es" "y \<in> set es" "fst (f x) = fst (f y)"
      then have "fst x = fst y" using k [of x] k [of y] kbytes_inj [of width "fst x" "fst y"] by auto
      then show "x = y" using dist xy(1,2) by (auto simp: distinct_map dest: inj_onD)
    qed
    then have "sort_key (\<lambda>e. fst (f e)) es = sort_key (\<lambda>e. fst (f e)) es'"
      using perm by (intro sort_key_inj_key_eq) auto
    then have "sort_key fst (map f es) = sort_key fst (map f es')" by (simp add: sort_key_map)
    then show ?thesis using True st width len by (simp add: mapValue_WriteTo_def)
  next
    case False
    have fails: "fst (mapValue_WriteTo kind flagged xs w) \<noteq> None" if "stagePairs width flagged xs = Inl e" for xs e w
      using that width
      by (auto simp: mapValue_WriteTo_def wframe_def wseq_def wfail_def split: option.splits prod.splits)
    then show ?thesis using False s stagePairs_exists [of width flagged es] stagePairs_exists [of width flagged es']
      by (cases "stagePairs width flagged es"; cases "stagePairs width flagged es'") auto
  qed
qed

end
