(* ===== verification/Reflect.thy ===== *)
theory Reflect
  imports Blueprint Objectify
begin

text \<open>
  Blueprint derivation: \<^verbatim>\<open>src/astral/blueprint_reflect.go\<close>.  A \<^verbatim>\<open>reflect.Type\<close> is a \<open>gotype\<close>: its
  shape, its name, and what its method sets answer when a zero instance is probed (the
  \<^verbatim>\<open>ObjectType()\<close> of the value and of the pointer, \<^verbatim>\<open>UnderlyingPrimitive()\<close> and
  \<^verbatim>\<open>DeclareBlueprint()\<close>).  The lemmas show that every derived Blueprint passes
  \<^verbatim>\<open>validateBlueprint\<close>, carries the type's own name, and describes exactly the exported fields
  in order.
\<close>

subsection \<open>Go types as reflection sees them\<close>

datatype gotype =
    GoType (shape: goshape) (go_name: string) (vobj: "string option") (pobj: "string option")
      (primitive_alias: "string option") (declares: "blueprint option option")
and goshape =
    SInterface bool | SPtr gotype | SSlice gotype | SArray gotype nat | SMap gotype gotype
  | SStruct "gofield list" | SBasic gokind
and gofield = GoField (sfName: string) (exported: bool) (sfType: gotype)

definition named :: "string option \<Rightarrow> string res" where
  "named o1 =
     (case o1 of
        None \<Rightarrow> Inl (ErrMsg ''does not implement Object'')
      | Some n \<Rightarrow> if n = [] then Inl (ErrMsg ''ObjectType() returned empty'') else Inr n)"

definition concreteObjectTypeOf :: "gotype \<Rightarrow> string res" where
  "concreteObjectTypeOf t =
     (case shape t of
        SInterface b \<Rightarrow> Inl (ErrMsg ''expected concrete type, got interface'')
      | SPtr e \<Rightarrow> named (pobj e)
      | _ \<Rightarrow> (case vobj t of Some n \<Rightarrow> named (Some n) | None \<Rightarrow> named (pobj t)))"

definition nonempty :: "string option \<Rightarrow> string option" where
  "nonempty o1 = (case o1 of Some n \<Rightarrow> if n = [] then None else Some n | None \<Rightarrow> None)"

definition tryObjectType :: "gotype \<Rightarrow> string option" where
  "tryObjectType t =
     (case shape t of
        SInterface b \<Rightarrow> None
      | SPtr e \<Rightarrow> nonempty (pobj e)
      | _ \<Rightarrow> (case nonempty (vobj t) of Some n \<Rightarrow> Some n | None \<Rightarrow> nonempty (pobj t)))"

definition elemTypeName :: "gotype \<Rightarrow> string res" where
  "elemTypeName t =
     (case shape t of
        SInterface embedsObject \<Rightarrow>
          if embedsObject then Inr [] else Inl (ErrMsg ''interface does not embed astral.Object'')
      | _ \<Rightarrow> concreteObjectTypeOf t)"

definition mapKeyTypeName :: "gotype \<Rightarrow> string res" where
  "mapKeyTypeName t =
     (case shape t of
        SBasic String \<Rightarrow> Inr ''string16''
      | SBasic Uint8 \<Rightarrow> Inr ''uint8''
      | SBasic Uint16 \<Rightarrow> Inr ''uint16''
      | SBasic Uint32 \<Rightarrow> Inr ''uint32''
      | SBasic Uint64 \<Rightarrow> Inr ''uint64''
      | _ \<Rightarrow> Inl (ErrMsg ''unsupported map key type''))"

definition specFromType :: "gotype \<Rightarrow> spec res" where
  "specFromType t =
     (case shape t of
        SInterface embedsObject \<Rightarrow>
          if embedsObject then Inr ObjectSpec else Inl (ErrMsg ''interface does not embed astral.Object'')
      | SPtr e \<Rightarrow> (case concreteObjectTypeOf e of Inl err \<Rightarrow> Inl err | Inr n \<Rightarrow> Inr (PtrSpec n))
      | sh \<Rightarrow>
          (case tryObjectType t of
             Some n \<Rightarrow> if isAllowedPrimitive n then Inr (PrimitiveSpec n) else Inr (RefSpec n)
           | None \<Rightarrow>
               (case sh of
                  SSlice e \<Rightarrow> (case elemTypeName e of Inl err \<Rightarrow> Inl err | Inr n \<Rightarrow> Inr (SliceSpec n))
                | SArray e len \<Rightarrow>
                    (case elemTypeName e of Inl err \<Rightarrow> Inl err | Inr n \<Rightarrow> Inr (ArraySpec n (of_nat len)))
                | SMap k e \<Rightarrow>
                    (case mapKeyTypeName k of
                       Inl err \<Rightarrow> Inl err
                     | Inr kn \<Rightarrow> (case elemTypeName e of Inl err \<Rightarrow> Inl err | Inr n \<Rightarrow> Inr (MapSpec kn n)))
                | _ \<Rightarrow> Inl (ErrMsg ''does not implement Object and is not a supported container''))))"

subsection \<open>Derivation\<close>

definition emptyObject_name :: string where "emptyObject_name = ''astral.EmptyObject''"

text \<open>\<open>None\<close>: \<^verbatim>\<open>t\<close> declares no Blueprint of its own; \<open>Some\<close>: the declaration, or its validation error.\<close>

definition declaredBlueprint :: "gotype \<Rightarrow> string \<Rightarrow> blueprint res option" where
  "declaredBlueprint t typeName =
     (case declares t of
        None \<Rightarrow> None
      | Some declared \<Rightarrow>
          if typeName = [] then None
          else case declared of
            None \<Rightarrow> None
          | Some d \<Rightarrow>
              if Type d \<noteq> typeName then None
              else case validateBlueprint (Some d) of
                Some e \<Rightarrow> Some (Inl e)
              | None \<Rightarrow> Some (Inr (cloneBlueprint d)))"

fun structFields :: "gofield list \<Rightarrow> field list res" where
  "structFields [] = Inr []"
| "structFields (sf # sfs) =
     (if \<not> exported sf then structFields sfs
      else if go_name (sfType sf) = emptyObject_name then structFields sfs
      else case specFromType (sfType sf) of
        Inl e \<Rightarrow> Inl e
      | Inr s \<Rightarrow>
          (case structFields sfs of
             Inl e \<Rightarrow> Inl e
           | Inr fs \<Rightarrow> Inr (\<lparr>Name = sfName sf, Spec = Some s\<rparr> # fs)))"

definition checked :: "blueprint \<Rightarrow> blueprint res" where
  "checked bp = (case validateBlueprint (Some bp) of Some e \<Rightarrow> Inl e | None \<Rightarrow> Inr bp)"

definition BlueprintFromType :: "gotype \<Rightarrow> blueprint res" where
  "BlueprintFromType t0 =
     (let t = (case shape t0 of SPtr e \<Rightarrow> e | _ \<Rightarrow> t0);
          tn = concreteObjectTypeOf t;
          typeName = (case tn of Inl e \<Rightarrow> [] | Inr n \<Rightarrow> n)
      in case declaredBlueprint t typeName of
        Some r \<Rightarrow> r
      | None \<Rightarrow>
          (case primitive_alias t of
             Some underlying \<Rightarrow>
               (case tn of
                  Inl e \<Rightarrow> Inl e
                | Inr n \<Rightarrow> checked \<lparr>Type = n, Fields = [], Underlying = underlying\<rparr>)
           | None \<Rightarrow>
               (case shape t of
                  SStruct sfs \<Rightarrow>
                    (case tn of
                       Inl e \<Rightarrow> Inl e
                     | Inr n \<Rightarrow>
                         (case structFields sfs of
                            Inl e \<Rightarrow> Inl e
                          | Inr fs \<Rightarrow> checked \<lparr>Type = n, Fields = fs, Underlying = []\<rparr>))
                | _ \<Rightarrow> Inl (ErrMsg ''want struct or *struct''))))"

subsection \<open>Facts\<close>

lemma checked_ok: "checked bp = Inr b \<longleftrightarrow> validateBlueprint (Some bp) = None \<and> b = bp"
  by (auto simp: checked_def split: option.splits)

lemma declaredBlueprint_ok:
  "declaredBlueprint t n = Some (Inr b) \<Longrightarrow> validateBlueprint (Some b) = None \<and> Type b = n \<and> n \<noteq> []"
  by (auto simp: declaredBlueprint_def split: option.splits if_splits)

lemma derived_valid: "BlueprintFromType t = Inr b \<Longrightarrow> validateBlueprint (Some b) = None"
  by (auto simp: BlueprintFromType_def Let_def checked_ok
      split: option.splits sum.splits goshape.splits dest: declaredBlueprint_ok)

lemma derived_type:
  assumes "BlueprintFromType t = Inr b"
  shows "concreteObjectTypeOf (case shape t of SPtr e \<Rightarrow> e | _ \<Rightarrow> t) = Inr (Type b)"
proof -
  define t1 where "t1 = (case shape t of SPtr e \<Rightarrow> e | _ \<Rightarrow> t)"
  show ?thesis using assms unfolding BlueprintFromType_def Let_def t1_def [symmetric]
    by (auto simp: checked_ok split: option.splits sum.splits goshape.splits dest: declaredBlueprint_ok)
qed

definition described :: "gofield list \<Rightarrow> gofield list" where
  "described sfs = filter (\<lambda>sf. exported sf \<and> go_name (sfType sf) \<noteq> emptyObject_name) sfs"

lemma structFields_ok:
  "structFields sfs = Inr fs \<Longrightarrow>
     list_all2 (\<lambda>sf f. Name f = sfName sf \<and> (\<exists>s. specFromType (sfType sf) = Inr s \<and> Spec f = Some s))
       (described sfs) fs"
  by (induction sfs arbitrary: fs) (auto simp: described_def split: if_splits sum.splits)

lemma mapKeyTypeName_allowed: "mapKeyTypeName t = Inr n \<Longrightarrow> isAllowedMapKey n"
  by (auto simp: mapKeyTypeName_def isAllowedMapKey_def mapKeyAllowlist_def split: goshape.splits gokind.splits)

lemma derived_struct_fields:
  assumes "BlueprintFromType t = Inr b" and "shape t = SStruct sfs"
    and "declares t = None" and "primitive_alias t = None"
  shows "Underlying b = [] \<and>
     list_all2 (\<lambda>sf f. Name f = sfName sf \<and> (\<exists>s. specFromType (sfType sf) = Inr s \<and> Spec f = Some s))
       (described sfs) (Fields b)"
  using assms
  by (auto simp: BlueprintFromType_def declaredBlueprint_def checked_ok split: sum.splits dest: structFields_ok)

end
