(* ===== verification/Blueprint_Order.thy ===== *)
theory Blueprint_Order
  imports Blueprint "HOL-Library.Multiset" "HOL-Library.List_Lexorder" "HOL-Library.Char_ord"
begin

text \<open>
  \<^verbatim>\<open>orderBlueprintsByReference\<close> of \<^verbatim>\<open>src/astral/blueprints.go\<close>: Kahn's algorithm over the
  references between blueprints.  A Go map that is only read with its zero value as default
  (\<^verbatim>\<open>inDeg\<close>, \<^verbatim>\<open>adj\<close>) is a total function, \<^verbatim>\<open>emitted\<close> and \<^verbatim>\<open>inSet\<close> are sets.  The lemmas show
  that the result is a permutation of the input names, that an absent error means every
  reference precedes its user, that the error appears exactly when the references are
  cyclic, and that the result does not depend on the order of the input (which comes out of
  a Go map iteration).
\<close>

subsection \<open>The algorithm\<close>

type_synonym degrees = "string \<Rightarrow> int"
type_synonym adjacency = "string \<Rightarrow> string list"

definition addReference :: "string set \<Rightarrow> string \<Rightarrow> field \<Rightarrow> degrees \<times> adjacency \<Rightarrow> degrees \<times> adjacency" where
  "addReference inSet name f g =
     (let ref = field_ref f in
      if ref = [] \<or> ref \<notin> inSet \<or> ref = name then g
      else ((fst g)(name := fst g name + 1), (snd g)(ref := snd g ref @ [name])))"

definition referenceGraph :: "blueprint list \<Rightarrow> degrees \<times> adjacency" where
  "referenceGraph bps =
     (let inSet = set (map Type bps) in
      fold (\<lambda>b g. fold (addReference inSet (Type b)) (Fields b) g) bps (\<lambda>_. 0, \<lambda>_. []))"

text \<open>One sweep over the sorted names; the flag records progress.\<close>

fun order_pass :: "adjacency \<Rightarrow> string list \<Rightarrow> string set \<Rightarrow> degrees \<Rightarrow> string list \<Rightarrow> bool \<Rightarrow>
    string set \<times> degrees \<times> string list \<times> bool" where
  "order_pass adj [] emitted inDeg out progress = (emitted, inDeg, out, progress)"
| "order_pass adj (n # ns) emitted inDeg out progress =
     (if n \<in> emitted \<or> inDeg n \<noteq> 0 then order_pass adj ns emitted inDeg out progress
      else order_pass adj ns (insert n emitted) (fold (\<lambda>d g. g(d := g d - 1)) (adj n) inDeg)
             (out @ [n]) True)"

lemma order_pass_progress:
  "order_pass adj ns em deg ou pr = (em', deg', ou', pr') \<Longrightarrow>
     length ou \<le> length ou' \<and> (pr' \<and> \<not> pr \<longrightarrow> length ou < length ou')"
  by (induction adj ns em deg ou pr rule: order_pass.induct) (auto split: if_splits)

function order_loop :: "adjacency \<Rightarrow> string list \<Rightarrow> string set \<Rightarrow> degrees \<Rightarrow> string list \<Rightarrow>
    string list \<times> error option" where
  "order_loop adj names emitted inDeg out =
     (if length out < length names then
        (case order_pass adj names emitted inDeg out False of
           (emitted1, inDeg1, out1, progress) \<Rightarrow>
             if \<not> progress then
               (let stuck = filter (\<lambda>n. n \<notin> emitted1) names
                in (out1 @ stuck, Some (ErrBlueprintCycle stuck)))
             else order_loop adj names emitted1 inDeg1 out1)
      else (out, None))"
  by pat_completeness auto
termination
  by (relation "measure (\<lambda>(adj, names, em, deg, ou). length names - length ou)")
    (auto dest!: order_pass_progress [OF sym] intro: diff_less_mono2)

declare order_loop.simps [simp del]

definition orderBlueprintsByReference :: "blueprint list \<Rightarrow> string list \<times> error option" where
  "orderBlueprintsByReference bps =
     (if length bps = 0 then ([], None)
      else let (inDeg, adj) = referenceGraph bps; names = sort (map Type bps)
        in order_loop adj names {} inDeg [])"

subsection \<open>The reference relation\<close>

definition edges_of :: "string set \<Rightarrow> blueprint \<Rightarrow> (string \<times> string) list" where
  "edges_of S b =
     map (\<lambda>f. (field_ref f, Type b))
       (filter (\<lambda>f. \<not> (field_ref f = [] \<or> field_ref f \<notin> S \<or> field_ref f = Type b)) (Fields b))"

definition edges :: "blueprint list \<Rightarrow> (string \<times> string) list" where
  "edges bps = concat (map (edges_of (set (map Type bps))) bps)"

definition into :: "(string \<times> string) list \<Rightarrow> string set \<Rightarrow> degrees" where
  "into E em n = int (length (filter (\<lambda>e. snd e = n \<and> fst e \<notin> em) E))"

definition outof :: "(string \<times> string) list \<Rightarrow> adjacency" where
  "outof E r = map snd (filter (\<lambda>e. fst e = r) E)"

lemma fold_addReference:
  "fold (addReference S name) fs g =
     (\<lambda>n. fst g n + into (edges_of S \<lparr>Type = name, Fields = fs, Underlying = u\<rparr>) {} n,
      \<lambda>r. snd g r @ outof (edges_of S \<lparr>Type = name, Fields = fs, Underlying = u\<rparr>) r)"
  by (induction fs arbitrary: g)
    (auto simp: addReference_def edges_of_def into_def outof_def Let_def fun_eq_iff prod_eq_iff)

lemma referenceGraph_eq: "referenceGraph bps = (into (edges bps) {}, outof (edges bps))"
proof -
  have step: "fold (addReference S (Type b)) (Fields b) g =
      (\<lambda>n. fst g n + into (edges_of S b) {} n, \<lambda>r. snd g r @ outof (edges_of S b) r)" for S b g
    using fold_addReference [of S "Type b" "Fields b" g "Underlying b"] by (cases b) simp
  have "fold (\<lambda>b g. fold (addReference S (Type b)) (Fields b) g) bs g =
      (\<lambda>n. fst g n + into (concat (map (edges_of S) bs)) {} n,
       \<lambda>r. snd g r @ outof (concat (map (edges_of S) bs)) r)" for S bs g
    by (induction bs arbitrary: g)
      (simp_all add: step into_def outof_def fun_eq_iff prod_eq_iff add.assoc)
  then show ?thesis by (simp add: referenceGraph_def edges_def Let_def fun_eq_iff)
qed

lemma edges_iff:
  "(r, m) \<in> set (edges bps) \<longleftrightarrow>
     (\<exists>b \<in> set bps. \<exists>f \<in> set (Fields b). m = Type b \<and> r = field_ref f \<and> r \<noteq> [] \<and>
        r \<in> Type ` set bps \<and> r \<noteq> m)"
  by (force simp: edges_def edges_of_def)

lemma edges_closed: "(r, m) \<in> set (edges bps) \<Longrightarrow> r \<in> Type ` set bps \<and> m \<in> Type ` set bps"
  by (auto simp: edges_iff)

subsection \<open>The invariant of the sweep\<close>

lemma fold_decrement: "fold (\<lambda>d g. g(d := g d - 1)) ds deg = (\<lambda>n. deg n - int (count_list ds n))"
  by (induction ds arbitrary: deg) (auto simp: fun_eq_iff)

lemma into_insert:
  "k \<notin> em \<Longrightarrow> into E em n - int (count_list (outof E k) n) = into E (insert k em) n"
  by (induction E) (auto simp: into_def outof_def)

lemma into_zero: "into E em n = 0 \<longleftrightarrow> (\<forall>r. (r, n) \<in> set E \<longrightarrow> r \<in> em)"
  by (auto simp: into_def filter_empty_conv)

definition precedes :: "'a list \<Rightarrow> 'a \<Rightarrow> 'a \<Rightarrow> bool" where
  "precedes xs r m \<longleftrightarrow> (\<exists>us vs. xs = us @ m # vs \<and> r \<in> set us)"

lemma precedes_append: "precedes xs r m \<Longrightarrow> precedes (xs @ ys) r m"
  by (force simp: precedes_def)

lemma precedes_snoc: "r \<in> set xs \<Longrightarrow> precedes (xs @ [m]) r m"
  by (force simp: precedes_def)

definition order_inv :: "(string \<times> string) list \<Rightarrow> string list \<Rightarrow> string set \<Rightarrow> degrees \<Rightarrow> string list \<Rightarrow> bool" where
  "order_inv E names em deg ou \<longleftrightarrow>
     set ou = em \<and> distinct ou \<and> em \<subseteq> set names \<and> deg = into E em \<and>
     (\<forall>(r, m) \<in> set E. m \<in> em \<longrightarrow> precedes ou r m)"

lemma order_inv_emit:
  assumes inv: "order_inv E names em deg ou" and n: "n \<in> set names" "n \<notin> em" "deg n = 0"
  shows "order_inv E names (insert n em) (fold (\<lambda>d g. g(d := g d - 1)) (outof E n) deg) (ou @ [n])"
proof -
  have "into E em n = 0" using inv n by (simp add: order_inv_def)
  then have "\<forall>r. (r, n) \<in> set E \<longrightarrow> r \<in> set ou" using inv by (simp add: into_zero order_inv_def)
  then have "\<forall>(r, m) \<in> set E. m \<in> insert n em \<longrightarrow> precedes (ou @ [n]) r m"
    using inv by (auto simp: order_inv_def intro: precedes_append precedes_snoc)
  then show ?thesis using inv n into_insert [of n em E]
    by (auto simp: order_inv_def fold_decrement fun_eq_iff)
qed

lemma order_pass_inv:
  "order_pass (outof E) ns em deg ou pr = (em', deg', ou', pr') \<Longrightarrow> order_inv E names em deg ou \<Longrightarrow>
     set ns \<subseteq> set names \<Longrightarrow> order_inv E names em' deg' ou'"
proof (induction ns arbitrary: em deg ou pr)
  case (Cons n ns)
  show ?case
  proof (cases "n \<in> em \<or> deg n \<noteq> 0")
    case True
    then show ?thesis using Cons by auto
  next
    case False
    then have "order_inv E names (insert n em) (fold (\<lambda>d g. g(d := g d - 1)) (outof E n) deg) (ou @ [n])"
      using Cons.prems by (auto intro: order_inv_emit)
    with False show ?thesis using Cons.prems Cons.IH by auto
  qed
qed simp

lemma order_pass_stuck:
  "order_pass adj ns em deg ou pr = (em', deg', ou', False) \<Longrightarrow>
     \<not> pr \<and> em' = em \<and> deg' = deg \<and> ou' = ou \<and> (\<forall>n \<in> set ns. n \<in> em \<or> deg n \<noteq> 0)"
proof (induction adj ns em deg ou pr rule: order_pass.induct)
  case (2 adj n ns em deg ou pr)
  then show ?case by (cases "n \<in> em \<or> deg n \<noteq> 0") auto
qed simp

text \<open>What the loop delivers, from any state the invariant allows.\<close>

definition order_done :: "(string \<times> string) list \<Rightarrow> string list \<Rightarrow> string list \<times> error option \<Rightarrow> bool" where
  "order_done E names res \<longleftrightarrow>
     distinct (fst res) \<and> set (fst res) = set names \<and>
     (case snd res of
        None \<Rightarrow> \<forall>(r, m) \<in> set E. precedes (fst res) r m
      | Some e \<Rightarrow> \<exists>stuck. e = ErrBlueprintCycle stuck \<and> stuck \<noteq> [] \<and> set stuck \<subseteq> set names \<and>
          (\<forall>m \<in> set stuck. \<exists>r \<in> set stuck. (r, m) \<in> set E))"

lemma order_stuck_done:
  assumes inv: "order_inv E names em deg ou" and stuck: "\<forall>n \<in> set names. n \<in> em \<or> deg n \<noteq> 0"
    and short: "length ou < length names" and dist: "distinct names"
    and closed: "\<And>r m. (r, m) \<in> set E \<Longrightarrow> r \<in> set names \<and> m \<in> set names"
  shows "order_done E names (ou @ filter (\<lambda>n. n \<notin> em) names, Some (ErrBlueprintCycle (filter (\<lambda>n. n \<notin> em) names)))"
proof -
  have "set ou \<noteq> set names" using inv short dist
    by (metis distinct_card less_irrefl order_inv_def)
  then have ne: "filter (\<lambda>n. n \<notin> em) names \<noteq> []"
    using inv by (auto simp: order_inv_def filter_empty_conv)
  have "\<exists>r \<in> set (filter (\<lambda>n. n \<notin> em) names). (r, m) \<in> set E"
    if "m \<in> set (filter (\<lambda>n. n \<notin> em) names)" for m
  proof -
    have "into E em m \<noteq> 0" using that stuck inv by (auto simp: order_inv_def)
    then show ?thesis using closed by (auto simp: into_zero)
  qed
  then show ?thesis using ne inv dist by (auto simp: order_done_def order_inv_def)
qed

lemma order_loop_done:
  assumes "order_inv E names em deg ou" and "distinct names"
    and "\<And>r m. (r, m) \<in> set E \<Longrightarrow> r \<in> set names \<and> m \<in> set names"
  shows "order_done E names (order_loop (outof E) names em deg ou)"
  using assms
proof (induction "outof E" names em deg ou rule: order_loop.induct)
  case (1 names em deg ou)
  note closed = "1.prems"(3)
  show ?case
  proof (cases "length ou < length names")
    case True
    obtain em1 deg1 ou1 pr where p: "order_pass (outof E) names em deg ou False = (em1, deg1, ou1, pr)"
      by (cases "order_pass (outof E) names em deg ou False") auto
    have inv1: "order_inv E names em1 deg1 ou1" using order_pass_inv [OF p "1.prems"(1)] by simp
    show ?thesis
    proof (cases pr)
      case True
      have "order_done E names (order_loop (outof E) names em1 deg1 ou1)"
        by (rule "1.hyps" [OF \<open>length ou < length names\<close> p [symmetric]]) (use True inv1 "1.prems" in auto)
      then show ?thesis using True \<open>length ou < length names\<close> p by (subst order_loop.simps) simp
    next
      case False
      with p have eq: "em1 = em" "deg1 = deg" "ou1 = ou" "\<forall>n \<in> set names. n \<in> em \<or> deg n \<noteq> 0"
        using order_pass_stuck [of "outof E" names em deg ou False em1 deg1 ou1] by auto
      show ?thesis
        using order_stuck_done [OF "1.prems"(1) eq(4) \<open>length ou < length names\<close> "1.prems"(2) closed]
          False True p eq by (subst order_loop.simps) (simp add: Let_def)
    qed
  next
    case False
    have "set ou \<subseteq> set names" "distinct ou" "length names \<le> length ou"
      using "1.prems"(1) False by (auto simp: order_inv_def)
    then have "set ou = set names"
      using "1.prems"(2) card_subset_eq [of "set names" "set ou"]
      by (metis List.finite_set card_mono distinct_card le_antisym)
    moreover have "\<forall>(r, m) \<in> set E. precedes ou r m"
      using "1.prems"(1) closed \<open>set ou = set names\<close> by (fastforce simp: order_inv_def)
    ultimately show ?thesis using \<open>distinct ou\<close> False by (subst order_loop.simps) (simp add: order_done_def)
  qed
qed

lemma order_inv_init: "order_inv E names {} (into E {}) []"
  by (simp add: order_inv_def)

lemma order_correct:
  assumes "distinct (map Type bps)"
  shows "order_done (edges bps) (sort (map Type bps)) (orderBlueprintsByReference bps)"
proof (cases bps)
  case Nil
  then show ?thesis by (simp add: orderBlueprintsByReference_def order_done_def edges_def)
next
  case (Cons b bs)
  have "order_done (edges bps) (sort (map Type bps))
      (order_loop (outof (edges bps)) (sort (map Type bps)) {} (into (edges bps) {}) [])"
    by (rule order_loop_done [OF order_inv_init]) (use assms in \<open>auto dest: edges_closed\<close>)
  then show ?thesis using Cons by (simp add: orderBlueprintsByReference_def referenceGraph_eq)
qed

subsection \<open>Order and acyclicity\<close>

lemma precedes_position:
  "distinct xs \<Longrightarrow> precedes xs r m \<Longrightarrow>
     length (takeWhile (\<lambda>x. x \<noteq> r) xs) < length (takeWhile (\<lambda>x. x \<noteq> m) xs)"
proof -
  assume "distinct xs" "precedes xs r m"
  then obtain us vs where xs: "xs = us @ m # vs" and r: "r \<in> set us" and m: "m \<notin> set us"
    by (auto simp: precedes_def)
  have "takeWhile (\<lambda>x. x \<noteq> m) xs = us" using xs m by (auto simp: takeWhile_append takeWhile_eq_all_conv)
  moreover obtain as bs where "us = as @ r # bs" "r \<notin> set as" using split_list_first [OF r] by blast
  then have "takeWhile (\<lambda>x. x \<noteq> r) xs = as" "length as < length us"
    using xs by (auto simp: takeWhile_append takeWhile_eq_all_conv)
  ultimately show ?thesis by simp
qed

lemma precedes_acyclic:
  assumes "distinct xs" and "\<forall>(r, m) \<in> E. precedes xs r m"
  shows "acyclic E"
proof -
  have "E \<subseteq> measure (\<lambda>x. length (takeWhile (\<lambda>y. y \<noteq> x) xs))"
    using assms precedes_position [of xs] by auto
  then show ?thesis by (meson acyclic_subset wf_acyclic wf_measure)
qed

lemma stuck_cyclic:
  assumes "stuck \<noteq> []" and pred: "\<forall>m \<in> set stuck. \<exists>r \<in> set stuck. (r, m) \<in> set E"
  shows "\<not> acyclic (set E)"
proof
  assume "acyclic (set E)"
  then have "wf (set E)" by (simp add: finite_acyclic_wf)
  moreover obtain x where "x \<in> set stuck" using assms(1) by (cases stuck) auto
  ultimately obtain z where "z \<in> set stuck" "\<And>y. (y, z) \<in> set E \<Longrightarrow> y \<notin> set stuck"
    by (rule wfE_min) blast
  with pred show False by blast
qed

lemma order_error_iff:
  assumes "distinct (map Type bps)"
  shows "snd (orderBlueprintsByReference bps) = None \<longleftrightarrow> acyclic (set (edges bps))"
  using order_correct [OF assms] precedes_acyclic [of "fst (orderBlueprintsByReference bps)"] stuck_cyclic
  by (auto simp: order_done_def split: option.splits)

subsection \<open>Independence from the input order\<close>

lemma order_pass_cong:
  assumes "\<And>r. mset (adj r) = mset (adj' r)"
  shows "order_pass adj ns em deg ou pr = order_pass adj' ns em deg ou pr"
proof (induction ns arbitrary: em deg ou pr)
  case (Cons n ns)
  have "count_list (adj n) = count_list (adj' n)"
    using assms by (metis count_mset ext)
  then show ?case using Cons by (simp add: fold_decrement)
qed simp

lemma order_loop_cong:
  assumes "\<And>r. mset (adj r) = mset (adj' r)"
  shows "order_loop adj names em deg ou = order_loop adj' names em deg ou"
  using assms
proof (induction adj names em deg ou rule: order_loop.induct)
  case (1 adj names em deg ou)
  obtain em1 deg1 ou1 pr where p: "order_pass adj names em deg ou False = (em1, deg1, ou1, pr)"
    by (cases "order_pass adj names em deg ou False") auto
  have p': "order_pass adj' names em deg ou False = (em1, deg1, ou1, pr)"
    using order_pass_cong [of adj adj' names em deg ou False] "1.prems" p by simp
  have rec: "order_loop adj names em1 deg1 ou1 = order_loop adj' names em1 deg1 ou1"
    if "length ou < length names" pr
    by (rule "1.IH" [OF that(1) p [symmetric]]) (use that "1.prems" in auto)
  show ?case
    unfolding order_loop.simps [of adj names em deg ou] order_loop.simps [of adj' names em deg ou] p p'
    using rec by simp
qed

lemma mset_edges:
  assumes "mset bps = mset bps'"
  shows "mset (edges bps) = mset (edges bps')"
proof -
  have S: "set (map Type bps) = set (map Type bps')" using assms by (metis mset_map set_mset_mset)
  have "mset (concat (map (edges_of T) xs)) = sum_mset (image_mset (\<lambda>b. mset (edges_of T b)) (mset xs))" for T xs
    by (induction xs) simp_all
  then show ?thesis unfolding edges_def S using assms by metis
qed

lemma order_input_order:
  assumes m: "mset bps = mset bps'"
  shows "orderBlueprintsByReference bps = orderBlueprintsByReference bps'"
proof -
  have E: "mset (filter P (edges bps)) = mset (filter P (edges bps'))" for P
    using mset_edges [OF m] by (metis mset_filter)
  have "mset (outof (edges bps) r) = mset (outof (edges bps') r)" for r
    using E [of "\<lambda>e. fst e = r"] by (simp add: outof_def)
  then have "order_loop (outof (edges bps)) = order_loop (outof (edges bps'))"
    by (intro ext order_loop_cong)
  moreover have "into (edges bps) {} = into (edges bps') {}"
    by (simp add: into_def fun_eq_iff mset_eq_length [OF E])
  moreover have "sort (map Type bps) = sort (map Type bps')"
    using m by (intro properties_for_sort) (auto simp: mset_map)
  moreover have "length bps = length bps'" using m by (rule mset_eq_length)
  ultimately show ?thesis
    by (simp add: orderBlueprintsByReference_def referenceGraph_eq)
qed

end
