(* ===== verification/Base32.thy ===== *)
theory Base32
  imports Go_Prelude
begin

text \<open>
  \<^verbatim>\<open>encoding/base32\<close> as the sources use it (\<^verbatim>\<open>src/astral/object_id.go\<close> with the zBase32
  alphabet, \<^verbatim>\<open>src/api/tor/digest.go\<close> with the standard one): encoding in five-byte quanta,
  and the padded decoder, which drops \<^verbatim>\<open>\r\<close> and \<^verbatim>\<open>\n\<close>, reads quanta of eight characters and
  accepts a tail of \<^verbatim>\<open>=\<close> that completes the last one.
\<close>

subsection \<open>Digits\<close>

fun digits :: "nat \<Rightarrow> nat \<Rightarrow> nat \<Rightarrow> nat list" where
  "digits b 0 v = []"
| "digits b (Suc k) v = digits b k (v div b) @ [v mod b]"

definition undigits :: "nat \<Rightarrow> nat list \<Rightarrow> nat" where
  "undigits b ds = foldl (\<lambda>acc d. acc * b + d) 0 ds"

lemma length_digits [simp]: "length (digits b k v) = k"
  by (induction k arbitrary: v) simp_all

lemma undigits_snoc [simp]: "undigits b (ds @ [d]) = undigits b ds * b + d"
  by (simp add: undigits_def)

lemma undigits_digits: "undigits b (digits b k v) = v mod b ^ k"
proof (induction k arbitrary: v)
  case (Suc k)
  then show ?case by (simp add: mod_mult2_eq)
qed (simp add: undigits_def)

lemma digits_bound: "0 < b \<Longrightarrow> d \<in> set (digits b k v) \<Longrightarrow> d < b"
  by (induction k arbitrary: v) auto

subsection \<open>Encoding\<close>

text \<open>One quantum: \<open>n\<close> bytes become the digits of their value, shifted left to whole digits.\<close>

definition quantum_digits :: "nat \<Rightarrow> nat" where
  "quantum_digits n = (8 * n + 4) div 5"

definition encode_quantum :: "bytes \<Rightarrow> nat list" where
  "encode_quantum bs =
     (let k = quantum_digits (length bs)
      in digits 32 k (be_nat bs * 2 ^ (5 * k - 8 * length bs)))"

function b32_encode :: "string \<Rightarrow> bytes \<Rightarrow> string" where
  "b32_encode alpha bs =
     (if bs = [] then []
      else if length bs < 5
      then map (nth alpha) (encode_quantum bs) @ replicate (8 - quantum_digits (length bs)) CHR ''=''
      else map (nth alpha) (encode_quantum (take 5 bs)) @ b32_encode alpha (drop 5 bs))"
  by pat_completeness auto
termination
  by (relation "measure (\<lambda>(alpha, bs). length bs)") auto

declare b32_encode.simps [simp del]

lemma b32_step:
  "5 \<le> length bs \<Longrightarrow>
     b32_encode alpha bs = map (nth alpha) (encode_quantum (take 5 bs)) @ b32_encode alpha (drop 5 bs)"
  by (subst b32_encode.simps) auto

subsection \<open>Decoding\<close>

definition decode_map :: "string \<Rightarrow> char \<Rightarrow> nat option" where
  "decode_map alpha c = index_byte alpha c"

text \<open>
  Reading one quantum: \<open>dbuf\<close> is what the quantum has so far.  The result is its digits,
  whether padding ended the input, and what is left.
\<close>

fun read_quantum :: "string \<Rightarrow> nat list \<Rightarrow> string \<Rightarrow> (nat list \<times> bool \<times> string) res" where
  "read_quantum alpha dbuf src =
     (if 8 \<le> length dbuf then Inr (dbuf, False, src)
      else case src of
        [] \<Rightarrow> Inl (ErrMsg ''illegal base32 data'')
      | c # rest \<Rightarrow>
          if c = CHR ''='' \<and> 2 \<le> length dbuf \<and> length rest < 8 then
            (if length rest + length dbuf < 7 then Inl (ErrMsg ''illegal base32 data'')
             else if \<exists>x \<in> set (take (7 - length dbuf) rest). x \<noteq> CHR ''='' then Inl (ErrMsg ''illegal base32 data'')
             else if length dbuf \<in> {1, 3, 6} then Inl (ErrMsg ''illegal base32 data'')
             else Inr (dbuf, True, rest))
          else (case decode_map alpha c of
                  None \<Rightarrow> Inl (ErrMsg ''illegal base32 data'')
                | Some d \<Rightarrow> read_quantum alpha (dbuf @ [d]) rest))"

declare read_quantum.simps [simp del]

definition decode_quantum :: "nat list \<Rightarrow> bytes" where
  "decode_quantum ds =
     (let n = 5 * length ds div 8 in nat_be n (undigits 32 ds div 2 ^ (5 * length ds - 8 * n)))"

lemma read_quantum_rest:
  "read_quantum alpha dbuf src = Inr (ds, e, rest) \<Longrightarrow> length dbuf < 8 \<Longrightarrow> length rest < length src"
proof (induction alpha dbuf src rule: read_quantum.induct)
  case (1 alpha dbuf src)
  show ?case
  proof (cases src)
    case Nil
    with 1(2,3) have "read_quantum alpha dbuf [] = Inr (ds, e, rest)" "length dbuf < 8" by simp_all
    then show ?thesis by (simp add: read_quantum.simps [of alpha dbuf "[]"])
  next
    case (Cons c cs)
    show ?thesis
    proof (cases "c = CHR ''='' \<and> 2 \<le> length dbuf \<and> length cs < 8")
      case True
      from 1(2) Cons have "read_quantum alpha dbuf (c # cs) = Inr (ds, e, rest)" by simp
      with True 1(3) Cons show ?thesis by (subst (asm) read_quantum.simps) (auto split: if_splits)
    next
      case False
      then obtain d where d: "decode_map alpha c = Some d"
        and r: "read_quantum alpha (dbuf @ [d]) cs = Inr (ds, e, rest)"
        using 1(2,3) Cons by (auto simp: read_quantum.simps [of alpha dbuf "c # cs"] split: option.splits if_splits)
      show ?thesis
      proof (cases "length dbuf < 7")
        case True
        then show ?thesis using 1(1) [OF _ Cons False d r] 1(3) Cons by simp
      next
        case full: False
        then show ?thesis using r Cons 1(3) by (simp add: read_quantum.simps [of alpha "dbuf @ [d]"])
      qed
    qed
  qed
qed

function b32_decode_loop :: "string \<Rightarrow> string \<Rightarrow> bytes res" where
  "b32_decode_loop alpha src =
     (if src = [] then Inr []
      else case read_quantum alpha [] src of
        Inl e \<Rightarrow> Inl e
      | Inr (ds, fin, rest) \<Rightarrow>
          if fin then Inr (decode_quantum ds)
          else (case b32_decode_loop alpha rest of
                  Inl e \<Rightarrow> Inl e
                | Inr bs \<Rightarrow> Inr (decode_quantum ds @ bs)))"
  by pat_completeness auto
termination
  by (relation "measure (\<lambda>(alpha, src). length src)") (auto dest: read_quantum_rest)

declare b32_decode_loop.simps [simp del]

definition strip_newlines :: "string \<Rightarrow> string" where
  "strip_newlines s = filter (\<lambda>c. of_char c \<noteq> (10 :: nat) \<and> of_char c \<noteq> (13 :: nat)) s"

definition b32_decode :: "string \<Rightarrow> string \<Rightarrow> bytes res" where
  "b32_decode alpha s = b32_decode_loop alpha (strip_newlines s)"

subsection \<open>Round trip\<close>

definition alphabet_ok :: "string \<Rightarrow> bool" where
  "alphabet_ok alpha \<longleftrightarrow>
     length alpha = 32 \<and> distinct alpha \<and> CHR ''='' \<notin> set alpha \<and> strip_newlines alpha = alpha"

lemma decode_map_nth:
  "alphabet_ok alpha \<Longrightarrow> d < 32 \<Longrightarrow> decode_map alpha (alpha ! d) = Some d"
proof -
  assume ok: "alphabet_ok alpha" and d: "d < 32"
  have len: "length alpha = 32" and dist: "distinct alpha" using ok by (auto simp: alphabet_ok_def)
  have split: "alpha = take d alpha @ alpha ! d # drop (Suc d) alpha"
    using d len by (simp add: id_take_nth_drop)
  have "alpha ! d \<notin> set (take d alpha)"
    using dist d len by (auto simp: in_set_conv_nth nth_eq_iff_index_eq)
  then have "index_byte (take d alpha @ alpha ! d # drop (Suc d) alpha) (alpha ! d) = Some d"
    using d len by simp
  then show ?thesis using split by (simp add: decode_map_def)
qed

lemma nth_alpha_no_pad: "alphabet_ok alpha \<Longrightarrow> d < 32 \<Longrightarrow> alpha ! d \<noteq> CHR ''=''"
  by (metis alphabet_ok_def nth_mem)

lemma read_quantum_digits:
  assumes "alphabet_ok alpha"
  shows "length dbuf + length ds = 8 \<Longrightarrow> \<forall>d \<in> set ds. d < 32 \<Longrightarrow>
    read_quantum alpha dbuf (map (nth alpha) ds @ rest) = Inr (dbuf @ ds, False, rest)"
proof (induction ds arbitrary: dbuf)
  case Nil
  then show ?case by (simp add: read_quantum.simps [of alpha dbuf])
next
  case (Cons d ds)
  then have "read_quantum alpha (dbuf @ [d]) (map (nth alpha) ds @ rest) = Inr ((dbuf @ [d]) @ ds, False, rest)"
    by (intro Cons.IH) auto
  moreover have "decode_map alpha (alpha ! d) = Some d" "alpha ! d \<noteq> CHR ''=''"
    using Cons.prems assms by (simp_all add: decode_map_nth nth_alpha_no_pad)
  ultimately show ?case using Cons.prems by (simp add: read_quantum.simps [of alpha dbuf])
qed

lemma quantum_round_trip: "length bs = 5 \<Longrightarrow> decode_quantum (encode_quantum bs) = bs"
proof -
  assume len: "length bs = 5"
  have "be_nat bs < 32 ^ 8" using be_nat_bound [of bs] len by simp
  then have "undigits 32 (digits 32 8 (be_nat bs)) = be_nat bs"
    by (simp add: undigits_digits)
  then show ?thesis using len
    by (simp add: decode_quantum_def encode_quantum_def quantum_digits_def Let_def)
qed

lemma encode_quantum_props:
  shows "length bs = 5 \<Longrightarrow> length (encode_quantum bs) = 8"
    and "d \<in> set (encode_quantum bs) \<Longrightarrow> d < 32"
  by (auto simp: encode_quantum_def quantum_digits_def Let_def intro: digits_bound)

lemma b32_length: "length bs = 5 * k \<Longrightarrow> length (b32_encode alpha bs) = 8 * k"
proof (induction k arbitrary: bs)
  case 0
  then show ?case by (simp add: b32_encode.simps)
next
  case (Suc k)
  then have "length (b32_encode alpha (drop 5 bs)) = 8 * k" by simp
  moreover have "bs \<noteq> []" using Suc.prems by auto
  ultimately show ?case using Suc.prems
    by (simp add: b32_encode.simps [of alpha bs] encode_quantum_props)
qed

lemma b32_decode_loop_encode:
  assumes ok: "alphabet_ok alpha"
  shows "length bs = 5 * k \<Longrightarrow> b32_decode_loop alpha (b32_encode alpha bs) = Inr bs"
proof (induction k arbitrary: bs)
  case 0
  then show ?case by (simp add: b32_encode.simps b32_decode_loop.simps)
next
  case (Suc k)
  have t: "length (take 5 bs) = 5" and ne: "bs \<noteq> []" using Suc.prems by auto
  have "read_quantum alpha [] (b32_encode alpha bs) =
      Inr (encode_quantum (take 5 bs), False, b32_encode alpha (drop 5 bs))"
    using read_quantum_digits [OF ok, of "[]" "encode_quantum (take 5 bs)" "b32_encode alpha (drop 5 bs)"]
      Suc.prems encode_quantum_props(1) [OF t] encode_quantum_props(2) [of _ "take 5 bs"] t ne
    by (simp add: b32_encode.simps [of alpha bs])
  moreover have "b32_decode_loop alpha (b32_encode alpha (drop 5 bs)) = Inr (drop 5 bs)"
    using Suc by simp
  moreover have "b32_encode alpha bs \<noteq> []" using b32_length [of bs "Suc k" alpha] Suc.prems by auto
  ultimately show ?case using quantum_round_trip [OF t]
    by (simp add: b32_decode_loop.simps [of alpha "b32_encode alpha bs"])
qed

lemma set_b32_encode:
  assumes "alphabet_ok alpha"
  shows "length bs = 5 * k \<Longrightarrow> set (b32_encode alpha bs) \<subseteq> set alpha"
proof (induction k arbitrary: bs)
  case 0
  then show ?case by (simp add: b32_encode.simps)
next
  case (Suc k)
  then have "set (b32_encode alpha (drop 5 bs)) \<subseteq> set alpha" by simp
  moreover have "set (map (nth alpha) (encode_quantum (take 5 bs))) \<subseteq> set alpha"
    using assms encode_quantum_props(2) [of _ "take 5 bs"] by (force simp: alphabet_ok_def)
  ultimately show ?case using Suc.prems by (simp add: b32_encode.simps [of alpha bs])
qed

lemma strip_newlines_id:
  "alphabet_ok alpha \<Longrightarrow> set s \<subseteq> set alpha \<Longrightarrow> strip_newlines s = s"
  unfolding alphabet_ok_def strip_newlines_def filter_id_conv by blast

lemma b32_round_trip:
  assumes "alphabet_ok alpha" and "length bs = 5 * k"
  shows "b32_decode alpha (b32_encode alpha bs) = Inr bs"
  using strip_newlines_id [OF assms(1) set_b32_encode [OF assms]] b32_decode_loop_encode [OF assms]
  by (simp add: b32_decode_def)

subsection \<open>Leading zeros\<close>

lemma digits_zero [simp]: "digits b k 0 = replicate k 0"
  by (induction k) (simp_all add: replicate_append_same)

lemma digits_leading: "v < b ^ k \<Longrightarrow> 0 < b \<Longrightarrow> digits b (j + k) v = replicate j 0 @ digits b k v"
proof (induction k arbitrary: v)
  case (Suc k)
  then have "v div b < b ^ k" by (simp add: less_mult_imp_div_less mult.commute)
  then show ?case using Suc by simp
qed simp

lemma digits_Cons: "digits b (Suc k) v = (v div b ^ k mod b) # digits b k v"
proof (induction k arbitrary: v)
  case (Suc k)
  then show ?case by (simp add: div_mult2_eq)
qed simp

lemma be_nat_zeros [simp]: "be_nat (replicate k 0 @ bs) = be_nat bs"
proof (induction bs rule: rev_induct)
  case Nil
  show ?case by (induction k) (simp_all add: replicate_append_same [symmetric])
next
  case (snoc b bs)
  then show ?case by (simp flip: append_assoc)
qed

end
