(* ===== verification/ObjectID.thy ===== *)
theory ObjectID
  imports Scalars Base32
begin

text \<open>
  Content identifiers, \<^verbatim>\<open>src/astral/object_id.go\<close>: the binary form (Size and Hash, forty
  bytes), the \<^verbatim>\<open>data1\<close> text form, which drops leading zero digits, and the \<^verbatim>\<open>data0\<close> form of the
  hash alone; and \<^verbatim>\<open>src/astral/object_resolver.go\<close>, the writer that computes an identifier
  over what passes through it.  SHA-256 is a parameter of the resolver.  \<open>Hash\<close> is a list
  where Go has an array of thirty-two bytes; \<open>oid_ok\<close> states its length.
\<close>

record objectID =
  Size :: "64 word"
  Hash :: bytes

definition oid_ok :: "objectID \<Rightarrow> bool" where
  "oid_ok i \<longleftrightarrow> length (Hash i) = 32"

definition zeroID :: objectID where
  "zeroID = \<lparr>Size = 0, Hash = replicate 32 0\<rparr>"

definition zBase32CharSet :: string where
  "zBase32CharSet = ''ybndrfg8ejkmcpqxot1uwisza345h769''"

definition idPrefix :: string where "idPrefix = ''data1''"
definition partialIDPrefix :: string where "partialIDPrefix = ''data0''"
definition fullIDBodyLen :: nat where "fullIDBodyLen = 64"
definition partialIDBodyLen :: nat where "partialIDBodyLen = 52"

subsection \<open>Binary form\<close>

definition ObjectID_WriteTo :: "objectID \<Rightarrow> writer" where
  "ObjectID_WriteTo i =
     wseq (counted 8 (nat_be 8 (unat (Size i)))) (Write (Hash i))"

definition ObjectID_ReadFrom :: "objectID reader" where
  "ObjectID_ReadFrom =
     rbind (rcounted 8 (\<lambda>bs. of_nat (be_nat bs)))
       (\<lambda>size. rmap (\<lambda>h. \<lparr>Size = size, Hash = h\<rparr>) (ReadFull 32))"

subsection \<open>Text forms\<close>

definition oid_bytes :: "objectID \<Rightarrow> bytes" where
  "oid_bytes i = nat_be 8 (unat (Size i)) @ Hash i"

definition ObjectID_String :: "objectID \<Rightarrow> string" where
  "ObjectID_String i =
     idPrefix @ dropWhile (\<lambda>c. c = zBase32CharSet ! 0) (b32_encode zBase32CharSet (oid_bytes i))"

definition ObjectID_PartialString :: "objectID \<Rightarrow> string" where
  "ObjectID_PartialString i =
     partialIDPrefix @
     drop (64 - partialIDBodyLen) (b32_encode zBase32CharSet (replicate 8 0 @ Hash i))"

definition decodeID :: "string \<Rightarrow> objectID res" where
  "decodeID encoded =
     (case b32_decode zBase32CharSet encoded of
        Inl e \<Rightarrow> Inl e
      | Inr data \<Rightarrow>
          if length data \<noteq> 40 then Inl (ErrMsg ''invalid data length'')
          else Inr \<lparr>Size = of_nat (be_nat (take 8 data)), Hash = drop 8 data\<rparr>)"

definition parseFullID :: "string \<Rightarrow> objectID res" where
  "parseFullID body =
     (if fullIDBodyLen < length body then Inl (ErrMsg ''invalid id length'')
      else decodeID (replicate (fullIDBodyLen - length body) (zBase32CharSet ! 0) @ body))"

definition parsePartialID :: "string \<Rightarrow> objectID res" where
  "parsePartialID body =
     (if length body \<noteq> partialIDBodyLen then Inl (ErrMsg ''invalid partial id length'')
      else if body ! 0 \<noteq> zBase32CharSet ! 0 \<and> body ! 0 \<noteq> zBase32CharSet ! 1
      then Inl (ErrMsg ''invalid partial id first character'')
      else case decodeID (replicate (fullIDBodyLen - partialIDBodyLen) (zBase32CharSet ! 0) @ body) of
        Inl e \<Rightarrow> Inl e
      | Inr i \<Rightarrow> if Size i \<noteq> 0 then Inl (ErrMsg ''invalid partial id size'') else Inr i)"

definition ParseID :: "string \<Rightarrow> objectID res" where
  "ParseID s =
     (if prefix idPrefix s then parseFullID (drop (length idPrefix) s)
      else if prefix partialIDPrefix s then parsePartialID (drop (length partialIDPrefix) s)
      else Inl (ErrMsg ''invalid prefix''))"

text \<open>The SQL forms: a column value is a string, null, or something else.\<close>

datatype sql_value = SqlNull | SqlString string | SqlBytes bytes | SqlOther

definition ObjectID_Scan :: "sql_value \<Rightarrow> objectID res" where
  "ObjectID_Scan src =
     (case src of
        SqlNull \<Rightarrow> Inr zeroID
      | SqlString str \<Rightarrow> ParseID str
      | _ \<Rightarrow> Inl (ErrMsg ''typecast failed''))"

subsection \<open>Comparison\<close>

definition ObjectID_IsEqual :: "objectID \<Rightarrow> objectID \<Rightarrow> bool" where
  "ObjectID_IsEqual i other = (if Size i \<noteq> Size other then False else Hash i = Hash other)"

definition ObjectID_IsZero :: "objectID option \<Rightarrow> bool" where
  "ObjectID_IsZero p =
     (case p of
        None \<Rightarrow> True
      | Some i \<Rightarrow> if Size i \<noteq> 0 then False else list_all (\<lambda>b. b = 0) (Hash i))"

subsection \<open>Resolvers\<close>

text \<open>
  The state of a \<^verbatim>\<open>WriteResolver\<close>: what was hashed so far, the size, and the bytes the
  underlying writer (if any) accepted.  The underlying writer is a function that answers how
  many bytes it took and whether it failed.
\<close>

record resolver =
  hashed :: bytes
  rsize :: "64 word"

definition newResolver :: resolver where
  "newResolver = \<lparr>hashed = [], rsize = 0\<rparr>"

definition WriteResolver_Write ::
  "(bytes \<Rightarrow> nat \<times> error option) option \<Rightarrow> bytes \<Rightarrow> resolver \<Rightarrow> nat \<times> error option \<times> resolver" where
  "WriteResolver_Write ow p r =
     (case ow of
        None \<Rightarrow> (length p, None, r\<lparr>hashed := hashed r @ p, rsize := rsize r + of_nat (length p)\<rparr>)
      | Some f \<Rightarrow>
          (case f p of (n, err) \<Rightarrow>
             (n, err, r\<lparr>hashed := (if 0 < n then hashed r @ take n p else hashed r),
                        rsize := rsize r + of_nat n\<rparr>)))"

definition WriteResolver_Resolve :: "(bytes \<Rightarrow> bytes) \<Rightarrow> resolver \<Rightarrow> objectID" where
  "WriteResolver_Resolve sha256 r = \<lparr>Size = rsize r, Hash = take 32 (sha256 (hashed r))\<rparr>"

text \<open>\<^verbatim>\<open>Resolve\<close> over a reader: the chunks it delivers until the end of the input.\<close>

fun Resolve_loop :: "bytes list \<Rightarrow> resolver \<Rightarrow> resolver" where
  "Resolve_loop [] r = r"
| "Resolve_loop (p # ps) r =
     Resolve_loop ps (if p \<noteq> [] then snd (snd (WriteResolver_Write None p r)) else r)"

definition Resolve :: "(bytes \<Rightarrow> bytes) \<Rightarrow> bytes list \<Rightarrow> objectID" where
  "Resolve sha256 chunks = WriteResolver_Resolve sha256 (Resolve_loop chunks newResolver)"

subsection \<open>Lemmas\<close>

lemma zalphabet_ok: "alphabet_ok zBase32CharSet"
  by (simp add: alphabet_ok_def zBase32CharSet_def strip_newlines_def)

lemma oid_eta: "\<lparr>Size = Size i, Hash = Hash i\<rparr> = i"
  by (cases i) simp

interpretation oid: wire_codec ObjectID_WriteTo ObjectID_ReadFrom oid_ok
proof unfold_locales
  fix i
  assume ok: "oid_ok i"
  have "reads_back (Write (Hash i)) (rmap (\<lambda>h. \<lparr>Size = Size i, Hash = h\<rparr>) (ReadFull 32)) i"
    using rb_map [OF rb_write [of "Hash i" 32], of "\<lambda>h. \<lparr>Size = Size i, Hash = h\<rparr>"] ok
    by (simp add: oid_ok_def oid_eta)
  then show "reads_back (ObjectID_WriteTo i) ObjectID_ReadFrom i"
    unfolding ObjectID_WriteTo_def ObjectID_ReadFrom_def
    by (intro rb_seq [OF rb_counted_be]) simp_all
qed

lemma replicate_dropWhile:
  "replicate (length s - length (dropWhile (\<lambda>c. c = a) s)) a @ dropWhile (\<lambda>c. c = a) s = s"
  by (induction s) (auto simp: Suc_diff_le length_dropWhile_le)

lemma length_oid_bytes: "oid_ok i \<Longrightarrow> length (oid_bytes i) = 5 * 8"
  by (simp add: oid_bytes_def oid_ok_def)

lemma decodeID_encode:
  assumes "length bs = 40"
  shows "decodeID (b32_encode zBase32CharSet bs) =
    Inr \<lparr>Size = of_nat (be_nat (take 8 bs)), Hash = drop 8 bs\<rparr>"
  using b32_round_trip [OF zalphabet_ok, of bs 8] assms by (simp add: decodeID_def)

lemma parse_string: "oid_ok i \<Longrightarrow> ParseID (ObjectID_String i) = Inr i"
proof -
  assume ok: "oid_ok i"
  let ?e = "b32_encode zBase32CharSet (oid_bytes i)"
  have len: "length ?e = 64" using b32_length [OF length_oid_bytes [OF ok]] by simp
  then have "length (dropWhile (\<lambda>c. c = zBase32CharSet ! 0) ?e) \<le> 64"
    by (metis length_dropWhile_le)
  moreover have "replicate (64 - length (dropWhile (\<lambda>c. c = zBase32CharSet ! 0) ?e)) (zBase32CharSet ! 0) @
      dropWhile (\<lambda>c. c = zBase32CharSet ! 0) ?e = ?e"
    using replicate_dropWhile [of ?e "zBase32CharSet ! 0"] len by simp
  moreover have "decodeID ?e = Inr i"
    using decodeID_encode [of "oid_bytes i"] length_oid_bytes [OF ok] of_nat_be_nat_word [of 8 "Size i"]
    by (simp add: oid_bytes_def del: be_nat_nat_be)
  ultimately show ?thesis
    by (simp add: ParseID_def ObjectID_String_def parseFullID_def fullIDBodyLen_def)
qed

lemma encode_partial:
  assumes "length h = 32"
  shows "take 12 (b32_encode zBase32CharSet (replicate 8 0 @ h)) = replicate 12 (zBase32CharSet ! 0)"
    and "\<exists>d < 2. b32_encode zBase32CharSet (replicate 8 0 @ h) ! 12 = zBase32CharSet ! d"
proof -
  let ?a = zBase32CharSet
  let ?b = "replicate 8 0 @ h :: bytes"
  define v where "v = be_nat (take 2 h)"
  have v: "v < 2 ^ 16" using be_nat_bound [of "take 2 h"] assms by (simp add: v_def)
  have q1: "encode_quantum (take 5 ?b) = replicate 8 0"
    by (simp add: encode_quantum_def quantum_digits_def Let_def
        be_nat_zeros [of 5 "[]", simplified])
  have "take 5 (drop 5 ?b) = replicate 3 0 @ take 2 h" by (simp add: numeral_eq_Suc)
  then have q2: "encode_quantum (take 5 (drop 5 ?b)) = digits 32 (4 + 4) v"
    using assms by (simp add: encode_quantum_def quantum_digits_def Let_def v_def)
  have "digits 32 (4 + 4) v = replicate 4 0 @ digits 32 4 v"
    using v by (intro digits_leading) simp_all
  also have "digits 32 4 v = (v div 32 ^ 3 mod 32) # digits 32 3 v"
  proof -
    have four: "(4 :: nat) = Suc 3" by simp
    show ?thesis unfolding four by (rule digits_Cons)
  qed
  finally have q2': "encode_quantum (take 5 (drop 5 ?b)) =
      replicate 4 0 @ (v div 32 ^ 3 mod 32) # digits 32 3 v" using q2 by simp
  have top: "v div 32 ^ 3 mod 32 < 2" using v by simp
  let ?t = "b32_encode ?a (drop 5 (drop 5 ?b))"
  have s1: "b32_encode ?a ?b = map (nth ?a) (encode_quantum (take 5 ?b)) @ b32_encode ?a (drop 5 ?b)"
    by (rule b32_step) (use assms in simp)
  have s2: "b32_encode ?a (drop 5 ?b) = map (nth ?a) (encode_quantum (take 5 (drop 5 ?b))) @ ?t"
    by (rule b32_step) (use assms in simp)
  have r12: "replicate 12 (?a ! 0) = replicate 8 (?a ! 0) @ replicate 4 (?a ! 0)"
    using replicate_add [of 8 4 "?a ! 0"] by simp
  have e: "b32_encode ?a ?b = replicate 12 (?a ! 0) @ ?a ! (v div 32 ^ 3 mod 32) #
      map (nth ?a) (digits 32 3 v) @ ?t"
    unfolding s1 s2 q1 q2' r12 by (simp only: map_append map_replicate list.map append.simps append_assoc)
  show "take 12 (b32_encode ?a ?b) = replicate 12 (?a ! 0)" using e by simp
  show "\<exists>d < 2. b32_encode ?a ?b ! 12 = ?a ! d" using e top by (auto simp: nth_append)
qed

lemma parse_partial:
  assumes "oid_ok i"
  shows "ParseID (ObjectID_PartialString i) = Inr (i\<lparr>Size := 0\<rparr>)"
proof -
  have h: "length (Hash i) = 32" using assms by (simp add: oid_ok_def)
  let ?e = "b32_encode zBase32CharSet (replicate 8 0 @ Hash i)"
  have len: "length ?e = 64" using b32_length [of "replicate 8 0 @ Hash i" 8] h by simp
  obtain d where d: "d < 2" "?e ! 12 = zBase32CharSet ! d" using encode_partial(2) [OF h] by blast
  then have first: "drop 12 ?e ! 0 = zBase32CharSet ! 0 \<or> drop 12 ?e ! 0 = zBase32CharSet ! 1"
    using len by (auto simp: less_Suc_eq numeral_2_eq_2)
  have "replicate 12 (zBase32CharSet ! 0) @ drop 12 ?e = ?e"
    using encode_partial(1) [OF h] by (metis append_take_drop_id)
  moreover have "decodeID ?e = Inr (i\<lparr>Size := 0\<rparr>)"
    using decodeID_encode [of "replicate 8 0 @ Hash i"] h be_nat_zeros [of 8 "[]"]
    by (cases i) simp
  ultimately have "parsePartialID (drop 12 ?e) = Inr (i\<lparr>Size := 0\<rparr>)"
    using first len by (simp add: parsePartialID_def partialIDBodyLen_def fullIDBodyLen_def)
  then show ?thesis
    by (simp add: ParseID_def ObjectID_PartialString_def partialIDPrefix_def idPrefix_def partialIDBodyLen_def)
qed

lemma decodeID_ok: "decodeID s = Inr i \<Longrightarrow> oid_ok i"
  by (auto simp: decodeID_def oid_ok_def split: sum.splits if_splits)

lemma ParseID_ok: "ParseID s = Inr i \<Longrightarrow> oid_ok i"
  by (auto simp: ParseID_def parseFullID_def parsePartialID_def dest: decodeID_ok
      split: if_splits sum.splits)

lemma Resolve_loop_eq:
  "Resolve_loop ps r =
     r\<lparr>hashed := hashed r @ concat ps, rsize := rsize r + of_nat (length (concat ps))\<rparr>"
  by (induction ps arbitrary: r) (auto simp: WriteResolver_Write_def)

lemma Resolve_eq:
  "Resolve sha256 ps = \<lparr>Size = of_nat (length (concat ps)), Hash = take 32 (sha256 (concat ps))\<rparr>"
  by (simp add: Resolve_def Resolve_loop_eq newResolver_def WriteResolver_Resolve_def)

end
