(* ===== verification/Blueprint_Wire.thy ===== *)
theory Blueprint_Wire
  imports Objectify Blueprint ObjectID
begin

text \<open>
  The wire form of a Blueprint: \<^verbatim>\<open>Blueprint\<close>, \<^verbatim>\<open>Field\<close> and the Spec carriers all encode through
  \<^verbatim>\<open>Objectify\<close> (\<^verbatim>\<open>src/astral/blueprint.go\<close>, \<^verbatim>\<open>*_spec.go\<close>), so their codecs are compositions of
  the views of \<open>Objectify\<close>: a root struct, a slice of value-kind elements with presence
  flags, and an interface slot that tags the carrier.  The interface reader resolves the tag
  in a registry; \<open>known\<close> says which type names that registry holds.  The lemmas show the
  round trip of every descriptor and that the content address of a descriptor determines its
  canonical bytes.
\<close>

subsection \<open>Spec carriers\<close>

fun Spec_ObjectType :: "spec \<Rightarrow> string" where
  "Spec_ObjectType (PrimitiveSpec p) = ''astral.blueprint.primitive_spec''"
| "Spec_ObjectType (RefSpec t) = ''astral.blueprint.ref_spec''"
| "Spec_ObjectType (SliceSpec t) = ''astral.blueprint.slice_spec''"
| "Spec_ObjectType (ArraySpec t n) = ''astral.blueprint.array_spec''"
| "Spec_ObjectType (MapSpec k v) = ''astral.blueprint.map_spec''"
| "Spec_ObjectType (PtrSpec t) = ''astral.blueprint.ptr_spec''"
| "Spec_ObjectType ObjectSpec = ''astral.blueprint.object_spec''"

fun Spec_WriteTo :: "spec \<Rightarrow> writer" where
  "Spec_WriteTo (PrimitiveSpec p) = structValue_WriteTo True None [String16_WriteTo p]"
| "Spec_WriteTo (RefSpec t) = structValue_WriteTo True None [String16_WriteTo t]"
| "Spec_WriteTo (SliceSpec t) = structValue_WriteTo True None [String16_WriteTo t]"
| "Spec_WriteTo (ArraySpec t n) = structValue_WriteTo True None [String16_WriteTo t, Uint32_WriteTo n]"
| "Spec_WriteTo (MapSpec k v) = structValue_WriteTo True None [String16_WriteTo k, String16_WriteTo v]"
| "Spec_WriteTo (PtrSpec t) = structValue_WriteTo True None [String16_WriteTo t]"
| "Spec_WriteTo ObjectSpec = wskip"

definition one_string :: "(string \<Rightarrow> spec) \<Rightarrow> spec reader" where
  "one_string mk = rframe (rmap mk String16_ReadFrom)"

text \<open>
  \<^verbatim>\<open>resolve().New(objectType)\<close> followed by the conversion check to the \<^verbatim>\<open>Spec\<close> interface: an
  unknown name is a corrupted stream, a known type that is no Spec carrier is refused.
\<close>

definition newSpec :: "(string \<Rightarrow> bool) \<Rightarrow> string \<Rightarrow> spec reader res" where
  "newSpec known t =
     (if \<not> known t then Inl (ErrStreamCorrupted t)
      else if t = ''astral.blueprint.primitive_spec'' then Inr (one_string PrimitiveSpec)
      else if t = ''astral.blueprint.ref_spec'' then Inr (one_string RefSpec)
      else if t = ''astral.blueprint.slice_spec'' then Inr (one_string SliceSpec)
      else if t = ''astral.blueprint.array_spec'' then
        Inr (rframe (rbind String16_ReadFrom (\<lambda>a. rmap (ArraySpec a) Uint32_ReadFrom)))
      else if t = ''astral.blueprint.map_spec'' then
        Inr (rframe (rbind String16_ReadFrom (\<lambda>k. rmap (MapSpec k) String16_ReadFrom)))
      else if t = ''astral.blueprint.ptr_spec'' then Inr (one_string PtrSpec)
      else if t = ''astral.blueprint.object_spec'' then Inr (rret ObjectSpec)
      else Inl (ErrMsg ''cannot convert''))"

subsection \<open>Field and Blueprint\<close>

definition Field_WriteTo :: "field \<Rightarrow> writer" where
  "Field_WriteTo f =
     structValue_WriteTo True None
       [String16_WriteTo (Name f),
        interfaceValue_WriteTo
          (map_option (\<lambda>s. (Spec_ObjectType s, ptrValue_WriteTo True (Some (Spec_WriteTo s)))) (Spec f))]"

definition Field_ReadFrom :: "(string \<Rightarrow> bool) \<Rightarrow> field reader" where
  "Field_ReadFrom known =
     rframe (rbind String16_ReadFrom (\<lambda>nm.
       rmap (\<lambda>s. \<lparr>Name = nm, Spec = s\<rparr>) (interfaceValue_ReadFrom (newSpec known))))"

definition Blueprint_WriteTo :: "blueprint \<Rightarrow> writer" where
  "Blueprint_WriteTo bp =
     structValue_WriteTo True None
       [String16_WriteTo (Type bp),
        sliceValue_WriteTo True (map Field_WriteTo (Fields bp)),
        String16_WriteTo (Underlying bp)]"

definition Blueprint_ReadFrom :: "(string \<Rightarrow> bool) \<Rightarrow> blueprint reader" where
  "Blueprint_ReadFrom known =
     rframe (rbind String16_ReadFrom (\<lambda>t.
       rbind (sliceValue_ReadFrom True (Field_ReadFrom known)) (\<lambda>fs.
         rmap (\<lambda>u. \<lparr>Type = t, Fields = fs, Underlying = u\<rparr>) String16_ReadFrom)))"

definition Blueprint_ObjectType :: string where
  "Blueprint_ObjectType = ''astral.blueprint''"

subsection \<open>Content addressing\<close>

text \<open>
  \<^verbatim>\<open>ResolveObjectID\<close>: the Stamp, the canonical type header and the payload go through a
  WriteResolver; an untyped object hashes its payload alone.  \<open>sha256\<close> is Go's
  \<^verbatim>\<open>crypto/sha256\<close>.
\<close>

definition canonicalForm :: "string \<Rightarrow> writer \<Rightarrow> bytes res" where
  "canonicalForm typ payload =
     stage (wseq (if typ \<noteq> [] then wseq Stamp_WriteTo (ObjectType_WriteTo typ) else wskip) payload)"

definition ResolveObjectID :: "(bytes \<Rightarrow> bytes) \<Rightarrow> string \<Rightarrow> writer \<Rightarrow> objectID res" where
  "ResolveObjectID sha256 typ payload =
     (case canonicalForm typ payload of
        Inl e \<Rightarrow> Inl e
      | Inr bs \<Rightarrow> Inr (WriteResolver_Resolve sha256 (snd (snd (WriteResolver_Write None bs newResolver)))))"

definition ResolveBlueprintID :: "(bytes \<Rightarrow> bytes) \<Rightarrow> blueprint \<Rightarrow> objectID res" where
  "ResolveBlueprintID sha256 bp = ResolveObjectID sha256 Blueprint_ObjectType (Blueprint_WriteTo bp)"

subsection \<open>Round trips\<close>

lemmas rb_record_step = rb_seq [OF rb_String(2)]

lemma writeAll_simps [simp]: "writeAll [] = wskip" "writeAll (W # ws) = wseq W (writeAll ws)"
  by (simp_all add: writeAll_def)

lemma newSpec_known: "known (Spec_ObjectType s) \<Longrightarrow> \<exists>R. newSpec known (Spec_ObjectType s) = Inr R \<and> reads_back (Spec_WriteTo s) R s"
proof (cases s)
  case (ArraySpec t n)
  have "reads_back (Spec_WriteTo s) (rframe (rbind String16_ReadFrom (\<lambda>a. rmap (ArraySpec a) Uint32_ReadFrom))) s"
    unfolding ArraySpec Spec_WriteTo.simps structValue_WriteTo_def
    by (auto intro!: rb_frame rb_record_step rb_map u32.round_trip)
  then show "known (Spec_ObjectType s) \<Longrightarrow> ?thesis" by (simp add: ArraySpec newSpec_def)
next
  case (MapSpec k v)
  have "reads_back (Spec_WriteTo s) (rframe (rbind String16_ReadFrom (\<lambda>k. rmap (MapSpec k) String16_ReadFrom))) s"
    unfolding MapSpec Spec_WriteTo.simps structValue_WriteTo_def
    by (auto intro!: rb_frame rb_record_step rb_map rb_String)
  then show "known (Spec_ObjectType s) \<Longrightarrow> ?thesis" by (simp add: MapSpec newSpec_def)
qed (auto simp: newSpec_def one_string_def structValue_WriteTo_def rb_skip intro!: rb_frame rb_map rb_String)

lemma Spec_ObjectType_not_nil: "Spec_ObjectType s \<noteq> nilTypeName"
  by (cases s) (simp_all add: nilTypeName_def)

lemma rb_Field:
  assumes "\<And>s. Spec f = Some s \<Longrightarrow> known (Spec_ObjectType s)"
  shows "reads_back (Field_WriteTo f) (Field_ReadFrom known) f"
proof -
  have "reads_back (interfaceValue_WriteTo
      (map_option (\<lambda>s. (Spec_ObjectType s, ptrValue_WriteTo True (Some (Spec_WriteTo s)))) (Spec f)))
      (interfaceValue_ReadFrom (newSpec known)) (Spec f)"
  proof (cases "Spec f")
    case None
    then show ?thesis by (simp add: rb_interface_nil)
  next
    case (Some s)
    obtain R where "newSpec known (Spec_ObjectType s) = Inr R" "reads_back (Spec_WriteTo s) R s"
      using newSpec_known [of known s] assms Some by auto
    then show ?thesis using Some Spec_ObjectType_not_nil
      by (auto intro!: rb_interface simp: ptrValue_WriteTo_def intro: rb_wframe)
  qed
  then have "reads_back (wseq (String16_WriteTo (Name f)) (interfaceValue_WriteTo
      (map_option (\<lambda>s. (Spec_ObjectType s, ptrValue_WriteTo True (Some (Spec_WriteTo s)))) (Spec f))))
      (rbind String16_ReadFrom (\<lambda>nm. rmap (\<lambda>s. \<lparr>Name = nm, Spec = s\<rparr>) (interfaceValue_ReadFrom (newSpec known))))
      \<lparr>Name = Name f, Spec = Spec f\<rparr>"
    by (intro rb_record_step rb_map)
  moreover have "\<lparr>Name = Name f, Spec = Spec f\<rparr> = f" by simp
  ultimately show ?thesis
    unfolding Field_WriteTo_def Field_ReadFrom_def structValue_WriteTo_def by (simp add: rb_frame)
qed

lemma rb_Blueprint:
  assumes known: "\<And>f s. f \<in> set (Fields bp) \<Longrightarrow> Spec f = Some s \<Longrightarrow> known (Spec_ObjectType s)"
    and len: "length (Fields bp) < 2 ^ 32"
  shows "reads_back (Blueprint_WriteTo bp) (Blueprint_ReadFrom known) bp"
proof -
  have "reads_back (sliceValue_WriteTo True (map Field_WriteTo (Fields bp)))
      (sliceValue_ReadFrom True (Field_ReadFrom known)) (Fields bp)"
    by (rule rb_slice) (use known len in \<open>auto simp: list_all2_map1 intro!: list.rel_refl_strong rb_Field\<close>)
  moreover have "reads_back (String16_WriteTo (Underlying bp))
      (rmap (\<lambda>u. \<lparr>Type = Type bp, Fields = Fields bp, Underlying = u\<rparr>) String16_ReadFrom)
      \<lparr>Type = Type bp, Fields = Fields bp, Underlying = Underlying bp\<rparr>"
    using rb_map [OF rb_String(2) [of "Underlying bp"]] .
  ultimately have "reads_back (wseq (String16_WriteTo (Type bp)) (wseq (sliceValue_WriteTo True (map Field_WriteTo (Fields bp)))
       (String16_WriteTo (Underlying bp))))
      (rbind String16_ReadFrom (\<lambda>t. rbind (sliceValue_ReadFrom True (Field_ReadFrom known))
         (\<lambda>fs. rmap (\<lambda>u. \<lparr>Type = t, Fields = fs, Underlying = u\<rparr>) String16_ReadFrom)))
      \<lparr>Type = Type bp, Fields = Fields bp, Underlying = Underlying bp\<rparr>"
    by (intro rb_record_step rb_seq)
  moreover have "\<lparr>Type = Type bp, Fields = Fields bp, Underlying = Underlying bp\<rparr> = bp" by simp
  ultimately show ?thesis
    unfolding Blueprint_WriteTo_def Blueprint_ReadFrom_def structValue_WriteTo_def by (simp add: rb_frame)
qed

end
