(* ===== verification/Registry.thy ===== *)
theory Registry
  imports Reflect Blueprint_Order Blueprint_Wire
begin

text \<open>
  The type registry: \<^verbatim>\<open>src/astral/blueprints.go\<close>.  A \<open>registry\<close> is one \<^verbatim>\<open>Blueprints\<close> level with its
  parent chain; its entries are the \<^verbatim>\<open>sig.Map\<close> of the level, in insertion order.  An entry is a
  stored \<^verbatim>\<open>*Blueprint\<close> or a compile-time prototype, given by its Go type.  Operations return
  their result and the registry afterwards.  The lemmas show that registration keeps the
  registry valid and closed under references, that a reachable registry never holds a
  reference cycle, and that replaying the dependency order into another registry succeeds.
\<close>

subsection \<open>State\<close>

datatype entry = BlueprintEntry blueprint | ProtoEntry gotype

datatype registry = Blueprints (entries: "(string \<times> entry) list") (Parent: "registry option")

datatype entryKind = kindStructProto | kindRuntimeBP | kindAliasProto

definition classify :: "string \<Rightarrow> entry \<Rightarrow> entryKind" where
  "classify name obj =
     (case obj of
        BlueprintEntry b \<Rightarrow> if Type b = name then kindRuntimeBP else kindStructProto
      | ProtoEntry t \<Rightarrow> if primitive_alias t \<noteq> None then kindAliasProto else kindStructProto)"

definition NewBlueprints :: "registry option \<Rightarrow> registry" where
  "NewBlueprints parent = Blueprints [] parent"

text \<open>The Go types of Blueprint and Field, as the reflector sees them.\<close>

definition gt_String16 :: gotype where
  "gt_String16 = GoType (SBasic String) ''astral.String16'' (Some ''string16'') (Some ''string16'') None None"

definition gt_Spec :: gotype where
  "gt_Spec = GoType (SInterface True) ''astral.Spec'' None None None None"

definition gt_Field :: gotype where
  "gt_Field = GoType (SStruct [GoField ''Name'' True gt_String16, GoField ''Spec'' True gt_Spec])
     ''astral.Field'' None (Some ''astral.blueprint.field'') None None"

definition gt_Blueprint :: gotype where
  "gt_Blueprint = GoType (SStruct [GoField ''Type'' True gt_String16,
       GoField ''Fields'' True (GoType (SSlice gt_Field) ''[]astral.Field'' None None None None),
       GoField ''Underlying'' True gt_String16])
     ''astral.Blueprint'' None (Some ''astral.blueprint'') None None"

definition entry_ObjectType :: "entry \<Rightarrow> string" where
  "entry_ObjectType o1 =
     (case o1 of
        BlueprintEntry b \<Rightarrow> Blueprint_ObjectType
      | ProtoEntry t \<Rightarrow> (case pobj t of Some n \<Rightarrow> n | None \<Rightarrow> []))"

definition BlueprintOf :: "entry \<Rightarrow> blueprint res" where
  "BlueprintOf o1 = (case o1 of BlueprintEntry b \<Rightarrow> BlueprintFromType gt_Blueprint | ProtoEntry t \<Rightarrow> BlueprintFromType t)"

subsection \<open>Lookup\<close>

fun has :: "registry \<Rightarrow> string \<Rightarrow> bool" where
  "has (Blueprints es p) typeName =
     (case Map_Get es typeName of
        Some _ \<Rightarrow> True
      | None \<Rightarrow> (case p of Some q \<Rightarrow> has q typeName | None \<Rightarrow> False))"

fun getBlueprintRef :: "registry \<Rightarrow> string \<Rightarrow> blueprint option" where
  "getBlueprintRef (Blueprints es p) typeName =
     (case Map_Get es typeName of
        None \<Rightarrow> (case p of Some q \<Rightarrow> getBlueprintRef q typeName | None \<Rightarrow> None)
      | Some (BlueprintEntry b) \<Rightarrow> if Type b \<noteq> typeName then None else Some b
      | Some (ProtoEntry t) \<Rightarrow> None)"

definition GetBlueprint :: "registry \<Rightarrow> string \<Rightarrow> blueprint option" where
  "GetBlueprint bp typeName =
     (case getBlueprintRef bp typeName of None \<Rightarrow> None | Some b \<Rightarrow> Some (cloneBlueprint b))"

subsection \<open>Registration\<close>

definition set_entry :: "registry \<Rightarrow> string \<Rightarrow> entry \<Rightarrow> bool \<times> registry" where
  "set_entry bp name o1 =
     (case Map_Set (entries bp) name o1 of (_, ok, es) \<Rightarrow> (ok, Blueprints es (Parent bp)))"

fun Add_check :: "entry list \<Rightarrow> error option" where
  "Add_check [] = None"
| "Add_check (o1 # os) =
     (if length (entry_ObjectType o1) = 0 then Some (ErrMsg ''object type is empty'')
      else case o1 of
        BlueprintEntry b \<Rightarrow>
          if Type b \<noteq> [] then Some (ErrMsg ''Add: use RegisterBlueprint for runtime Blueprint'') else Add_check os
      | ProtoEntry t \<Rightarrow> Add_check os)"

fun Add_loop :: "entry list \<Rightarrow> registry \<Rightarrow> error option \<times> registry" where
  "Add_loop [] bp = (None, bp)"
| "Add_loop (o1 # os) bp =
     (let name = entry_ObjectType o1 in
      if has bp name then (Some (ErrMsg ''already added''), bp)
      else case set_entry bp name o1 of
        (ok, bp1) \<Rightarrow> if \<not> ok then (Some (ErrMsg ''already added''), bp1) else Add_loop os bp1)"

definition Add :: "entry list \<Rightarrow> registry \<Rightarrow> error option \<times> registry" where
  "Add objects bp = (case Add_check objects of Some e \<Rightarrow> (Some e, bp) | None \<Rightarrow> Add_loop objects bp)"

fun validateReferences :: "registry \<Rightarrow> field list \<Rightarrow> error option" where
  "validateReferences bp [] = None"
| "validateReferences bp (f # fs) =
     (if field_ref f = [] \<or> has bp (field_ref f) then validateReferences bp fs
      else Some (ErrBlueprintInvalid ''references unregistered type''))"

definition RegisterBlueprint :: "(bytes \<Rightarrow> bytes) \<Rightarrow> blueprint option \<Rightarrow> registry \<Rightarrow> objectID res \<times> registry" where
  "RegisterBlueprint sha256 ob bp =
     (case ob of
        None \<Rightarrow> (Inl (ErrBlueprintInvalid ''empty Type''), bp)
      | Some b \<Rightarrow>
          (case validateBlueprint (Some b) of
             Some e \<Rightarrow> (Inl e, bp)
           | None \<Rightarrow>
               let typeName = Type b in
               if has bp typeName then (Inl (ErrAlreadyRegistered typeName), bp)
               else case (if Kind b = BlueprintKindStruct then validateReferences bp (Fields b)
                          else if \<not> has bp (Underlying b)
                            then Some (ErrBlueprintInvalid ''alias underlying not reachable'') else None) of
                 Some e \<Rightarrow> (Inl e, bp)
               | None \<Rightarrow>
                   (let stored = cloneBlueprint b in
                    case set_entry bp typeName (BlueprintEntry stored) of
                      (ok, bp1) \<Rightarrow>
                        if \<not> ok then (Inl (ErrAlreadyRegistered typeName), bp1)
                        else (ResolveBlueprintID sha256 stored, bp1))))"

definition Register :: "(bytes \<Rightarrow> bytes) \<Rightarrow> entry \<Rightarrow> registry \<Rightarrow> objectID res \<times> registry" where
  "Register sha256 o1 bp =
     (case o1 of
        BlueprintEntry v \<Rightarrow> RegisterBlueprint sha256 (Some v) bp
      | ProtoEntry t \<Rightarrow> (Inl (ErrBlueprintInvalid ''Register: want *Blueprint''), bp))"

subsection \<open>Enumeration in dependency order\<close>

definition dedup :: "string list \<Rightarrow> string list" where
  "dedup ns = foldl (\<lambda>ou n. if n \<in> set ou then ou else ou @ [n]) [] ns"

definition is_runtime_alias :: "string \<times> entry \<Rightarrow> bool" where
  "is_runtime_alias e =
     (case e of (n, BlueprintEntry b) \<Rightarrow> Type b = n \<and> Kind b = BlueprintKindAlias | _ \<Rightarrow> False)"

definition runtime_structs :: "(string \<times> entry) list \<Rightarrow> blueprint list" where
  "runtime_structs es =
     List.map_filter (\<lambda>e. case e of
        (n, BlueprintEntry b) \<Rightarrow> if Type b = n \<and> Kind b = BlueprintKindStruct then Some b else None
      | _ \<Rightarrow> None) es"

definition orderProtoNames :: "(string \<times> entry) list \<Rightarrow> string list \<times> string list" where
  "orderProtoNames proto =
     (let leaves = map fst (filter (\<lambda>(n, o1). isl (BlueprintOf o1)) proto);
          derived = List.map_filter (\<lambda>(n, o1). case BlueprintOf o1 of Inl e \<Rightarrow> None | Inr b \<Rightarrow> Some b) proto
      in (sort leaves, fst (orderBlueprintsByReference derived)))"

fun OrderedBlueprints :: "registry \<Rightarrow> string list" where
  "OrderedBlueprints (Blueprints es p) =
     (let out0 = (case p of None \<Rightarrow> [] | Some q \<Rightarrow> dedup (OrderedBlueprints q));
          fresh = filter (\<lambda>(n, o1). n \<notin> set out0) es;
          aliases = map fst (filter (\<lambda>(n, o1). is_runtime_alias (n, o1) \<or> classify n o1 = kindAliasProto) fresh);
          proto = filter (\<lambda>(n, o1). classify n o1 = kindStructProto) fresh;
          (leaves, structs) = orderProtoNames proto
      in out0 @ leaves @ sort aliases @ structs @ fst (orderBlueprintsByReference (runtime_structs fresh)))"

definition appendByName :: "blueprint list \<Rightarrow> blueprint list \<Rightarrow> string list \<Rightarrow> blueprint list" where
  "appendByName ou bps names =
     ou @ List.map_filter (\<lambda>n. find (\<lambda>b. Type b = n) (rev bps)) names"

text \<open>
  \<^verbatim>\<open>AllBlueprints\<close> returns the blueprints and the joined errors, flattened to a list (empty for
  Go's nil).  A duplicate type coming up from the parent is dropped.
\<close>

definition dedup_bps :: "blueprint list \<Rightarrow> blueprint list" where
  "dedup_bps bs = foldl (\<lambda>ou b. if Type b \<in> Type ` set ou then ou else ou @ [b]) [] bs"

definition alias_of :: "string \<times> entry \<Rightarrow> error + blueprint option" where
  "alias_of e =
     (case e of (n, o1) \<Rightarrow>
        if is_runtime_alias (n, o1) then (case o1 of BlueprintEntry b \<Rightarrow> Inr (Some b) | ProtoEntry t \<Rightarrow> Inr None)
        else if classify n o1 = kindAliasProto then
          (case BlueprintOf o1 of Inl err \<Rightarrow> Inl err | Inr b \<Rightarrow> Inr (Some b))
        else Inr None)"

definition proto_of :: "string \<times> entry \<Rightarrow> error + blueprint option" where
  "proto_of e =
     (case e of (n, o1) \<Rightarrow>
        if classify n o1 = kindStructProto then
          (case BlueprintOf o1 of
             Inl err \<Rightarrow> if IsPrimitiveType n then Inr None else Inl err
           | Inr b \<Rightarrow> Inr (Some b))
        else Inr None)"

definition successes :: "(error + blueprint option) list \<Rightarrow> blueprint list" where
  "successes rs = List.map_filter (\<lambda>r. case r of Inr (Some b) \<Rightarrow> Some b | _ \<Rightarrow> None) rs"

definition failures :: "(error + blueprint option) list \<Rightarrow> error list" where
  "failures rs = List.map_filter (\<lambda>r. case r of Inl e \<Rightarrow> Some e | _ \<Rightarrow> None) rs"

definition runtime_by_name :: "blueprint list \<Rightarrow> string list \<Rightarrow> blueprint list" where
  "runtime_by_name runtime names = List.map_filter (\<lambda>n. find (\<lambda>b. Type b = n) runtime) names"

definition opt_list :: "'a option \<Rightarrow> 'a list" where
  "opt_list x = (case x of None \<Rightarrow> [] | Some y \<Rightarrow> [y])"

fun AllBlueprints :: "registry \<Rightarrow> blueprint list \<times> error list" where
  "AllBlueprints (Blueprints es p) =
     (let (parent, perr) = (case p of None \<Rightarrow> ([], []) | Some q \<Rightarrow> AllBlueprints q);
          out0 = dedup_bps parent;
          fresh = filter (\<lambda>(n, o1). n \<notin> Type ` set out0) es;
          aliases = sort_key Type (successes (map alias_of fresh));
          proto = successes (map proto_of fresh);
          runtime = runtime_structs fresh;
          (protoOrdered, protoCycleErr) = orderBlueprintsByReference proto;
          (ordered, cycleErr) = orderBlueprintsByReference runtime
      in (appendByName (out0 @ aliases) proto protoOrdered @ runtime_by_name runtime ordered,
          perr @ failures (map alias_of fresh) @ failures (map proto_of fresh)
            @ opt_list protoCycleErr @ opt_list cycleErr))"

subsection \<open>Invariant\<close>

definition has_parent :: "registry option \<Rightarrow> string \<Rightarrow> bool" where
  "has_parent p n = (case p of None \<Rightarrow> False | Some q \<Rightarrow> has q n)"

lemma has_iff: "has (Blueprints es p) n \<longleftrightarrow> n \<in> fst ` set es \<or> has_parent p n"
proof (cases "Map_Get es n")
  case None
  then have "n \<notin> fst ` set es" by (simp add: Map_Get_def map_of_eq_None_iff)
  then show ?thesis using None by (simp add: has_parent_def)
next
  case (Some a)
  then have "n \<in> fst ` set es" by (force simp: Map_Get_def dest: map_of_SomeD)
  then show ?thesis using Some by simp
qed

declare has.simps [simp del]

lemma has_sel: "has bp n \<longleftrightarrow> n \<in> fst ` set (entries bp) \<or> has_parent (Parent bp) n"
  by (cases bp) (simp add: has_iff)

text \<open>
  Every stored Blueprint is either the blank prototype of \<^verbatim>\<open>Blueprint\<close> itself or a validated
  descriptor under its own name, and its references resolve to entries stored before it or
  in the parent chain.
\<close>

definition entry_valid :: "string \<times> entry \<Rightarrow> bool" where
  "entry_valid e =
     (case e of
        (n, BlueprintEntry b) \<Rightarrow>
          Type b = n \<and> validateBlueprint (Some b) = None \<or> Type b = [] \<and> n = Blueprint_ObjectType
      | (n, ProtoEntry t) \<Rightarrow> n = entry_ObjectType (ProtoEntry t) \<and> n \<noteq> [])"

definition refs_before :: "registry option \<Rightarrow> (string \<times> entry) list \<Rightarrow> bool" where
  "refs_before p es \<longleftrightarrow>
     (\<forall>us n b vs f. es = us @ (n, BlueprintEntry b) # vs \<longrightarrow> Type b = n \<longrightarrow> f \<in> set (Fields b) \<longrightarrow>
        field_ref f = [] \<or> has_parent p (field_ref f) \<or> field_ref f \<in> fst ` set us)"

definition reg_inv :: "registry \<Rightarrow> bool" where
  "reg_inv bp \<longleftrightarrow>
     map_inv (entries bp) \<and> (\<forall>e \<in> set (entries bp). entry_valid e \<and> \<not> has_parent (Parent bp) (fst e)) \<and>
     refs_before (Parent bp) (entries bp)"

lemma refs_before_snoc:
  assumes "refs_before p es"
    and "\<And>b f. o1 = BlueprintEntry b \<Longrightarrow> Type b = n \<Longrightarrow> f \<in> set (Fields b) \<Longrightarrow>
      field_ref f = [] \<or> has (Blueprints es p) (field_ref f)"
  shows "refs_before p (es @ [(n, o1)])"
  unfolding refs_before_def
proof (intro allI impI)
  fix us m b vs f
  assume eq: "es @ [(n, o1)] = us @ (m, BlueprintEntry b) # vs" and t: "Type b = m" and f: "f \<in> set (Fields b)"
  show "field_ref f = [] \<or> has_parent p (field_ref f) \<or> field_ref f \<in> fst ` set us"
  proof (cases vs rule: rev_cases)
    case Nil
    then show ?thesis using eq t f assms(2) [of b f] by (auto simp: has_iff)
  next
    case (snoc vs' x)
    then have "es = us @ (m, BlueprintEntry b) # vs'" using eq by simp
    then show ?thesis using assms(1) t f unfolding refs_before_def by blast
  qed
qed

lemma set_entry_fresh:
  "\<not> has bp n \<Longrightarrow> set_entry bp n o1 = (True, Blueprints (entries bp @ [(n, o1)]) (Parent bp))"
proof -
  assume "\<not> has bp n"
  then have "map_of (entries bp) n = None" by (auto simp: has_sel map_of_eq_None_iff)
  then show ?thesis by (simp add: set_entry_def Map_Set_def)
qed

lemma reg_inv_extend:
  assumes "reg_inv bp" and "\<not> has bp n" and "entry_valid (n, o1)"
    and "\<And>b f. o1 = BlueprintEntry b \<Longrightarrow> Type b = n \<Longrightarrow> f \<in> set (Fields b) \<Longrightarrow>
      field_ref f = [] \<or> has bp (field_ref f)"
  shows "reg_inv (Blueprints (entries bp @ [(n, o1)]) (Parent bp))"
proof -
  have new: "n \<notin> fst ` set (entries bp)" "\<not> has_parent (Parent bp) n" using assms(2) by (auto simp: has_sel)
  have "refs_before (Parent bp) (entries bp @ [(n, o1)])"
    by (rule refs_before_snoc) (use assms in \<open>auto simp: reg_inv_def\<close>)
  then show ?thesis using assms(1,3) new by (auto simp: reg_inv_def map_inv_def)
qed

lemma validateReferences_None:
  "validateReferences bp fs = None \<longleftrightarrow> (\<forall>f \<in> set fs. field_ref f = [] \<or> has bp (field_ref f))"
  by (induction fs) auto

definition register_ok :: "registry \<Rightarrow> blueprint \<Rightarrow> bool" where
  "register_ok bp b \<longleftrightarrow>
     validateBlueprint (Some b) = None \<and> \<not> has bp (Type b) \<and>
     (\<forall>f \<in> set (Fields b). field_ref f = [] \<or> has bp (field_ref f)) \<and>
     (Underlying b \<noteq> [] \<longrightarrow> has bp (Underlying b))"

definition extend :: "registry \<Rightarrow> string \<Rightarrow> entry \<Rightarrow> registry" where
  "extend bp n o1 = Blueprints (entries bp @ [(n, o1)]) (Parent bp)"

lemma has_extend [simp]: "has (extend bp n o1) m \<longleftrightarrow> m = n \<or> has bp m"
  by (auto simp: has_sel extend_def)

lemma alias_no_fields: "validateBlueprint (Some b) = None \<Longrightarrow> Underlying b \<noteq> [] \<Longrightarrow> Fields b = []"
  by (auto simp: validateBlueprint_ok_iff)

lemma RegisterBlueprint_ok:
  "register_ok bp b \<Longrightarrow>
     RegisterBlueprint sha256 (Some b) bp = (ResolveBlueprintID sha256 b, extend bp (Type b) (BlueprintEntry b))"
  using validateReferences_None [of bp "Fields b"]
  by (cases "Underlying b = []")
    (simp_all add: RegisterBlueprint_def register_ok_def Kind_def set_entry_fresh extend_def Let_def)

lemma RegisterBlueprint_refused:
  "\<not> register_ok bp b \<Longrightarrow> \<exists>e. RegisterBlueprint sha256 (Some b) bp = (Inl e, bp)"
proof (cases "validateBlueprint (Some b)")
  case None
  assume no: "\<not> register_ok bp b"
  show ?thesis
  proof (cases "has bp (Type b)")
    case True
    then show ?thesis using None by (simp add: RegisterBlueprint_def)
  next
    case False
    then show ?thesis using None no alias_no_fields [OF None]
      by (cases "Underlying b = []")
        (auto simp: RegisterBlueprint_def register_ok_def Kind_def validateReferences_None [symmetric]
          split: option.splits)
  qed
qed (simp add: RegisterBlueprint_def)

lemma RegisterBlueprint_inv:
  assumes "reg_inv bp" shows "reg_inv (snd (RegisterBlueprint sha256 ob bp))"
proof (cases ob)
  case None
  then show ?thesis using assms by (simp add: RegisterBlueprint_def)
next
  case (Some b)
  show ?thesis
  proof (cases "register_ok bp b")
    case True
    have "reg_inv (extend bp (Type b) (BlueprintEntry b))"
      unfolding extend_def by (rule reg_inv_extend) (use True assms in \<open>auto simp: register_ok_def entry_valid_def\<close>)
    then show ?thesis using Some RegisterBlueprint_ok [OF True] by simp
  next
    case False
    then show ?thesis using Some RegisterBlueprint_refused [OF False, of sha256] assms by auto
  qed
qed

lemma Add_loop_inv:
  "reg_inv bp \<Longrightarrow> Add_check os = None \<Longrightarrow> reg_inv (snd (Add_loop os bp))"
proof (induction os arbitrary: bp)
  case (Cons o1 os)
  have ne: "entry_ObjectType o1 \<noteq> []" and blank: "\<And>b. o1 = BlueprintEntry b \<Longrightarrow> Type b = []"
    and rest: "Add_check os = None"
    using Cons.prems(2) by (auto split: if_splits entry.splits)
  have valid: "entry_valid (entry_ObjectType o1, o1)"
    using ne blank by (cases o1) (auto simp: entry_valid_def entry_ObjectType_def)
  show ?case
  proof (cases "has bp (entry_ObjectType o1)")
    case True
    then show ?thesis using Cons.prems by simp
  next
    case False
    have "reg_inv (Blueprints (entries bp @ [(entry_ObjectType o1, o1)]) (Parent bp))"
      by (rule reg_inv_extend [OF Cons.prems(1) False valid]) (use ne blank in auto)
    then show ?thesis using False Cons.IH rest by (simp add: set_entry_fresh)
  qed
qed simp

lemma Add_inv: "reg_inv bp \<Longrightarrow> reg_inv (snd (Add os bp))"
  by (simp add: Add_def Add_loop_inv split: option.splits)

lemma NewBlueprints_inv: "reg_inv (NewBlueprints p)"
  by (simp add: NewBlueprints_def reg_inv_def map_inv_def refs_before_def)

subsection \<open>Reachable registries\<close>

inductive reg_reachable :: "registry option \<Rightarrow> registry \<Rightarrow> bool" for p where
  reach_new: "reg_reachable p (NewBlueprints p)"
| reach_add: "reg_reachable p bp \<Longrightarrow> reg_reachable p (snd (Add os bp))"
| reach_register: "reg_reachable p bp \<Longrightarrow> reg_reachable p (snd (RegisterBlueprint sha256 ob bp))"

lemma reachable_inv: "reg_reachable p bp \<Longrightarrow> reg_inv bp"
  by (induction rule: reg_reachable.induct) (auto intro: NewBlueprints_inv Add_inv RegisterBlueprint_inv)

subsection \<open>No reference cycles\<close>

lemma runtime_structs_iff:
  "b \<in> set (runtime_structs es) \<longleftrightarrow> (Type b, BlueprintEntry b) \<in> set es \<and> Kind b = BlueprintKindStruct"
  by (induction es) (auto simp: runtime_structs_def map_filter_simps split: entry.splits if_splits)

lemma runtime_structs_Cons:
  "runtime_structs ((n, o1) # es) =
     (case o1 of BlueprintEntry b \<Rightarrow> if Type b = n \<and> Kind b = BlueprintKindStruct then [b] else [] | _ \<Rightarrow> [])
       @ runtime_structs es"
  by (simp add: runtime_structs_def map_filter_simps split: entry.splits)

lemma runtime_structs_distinct: "map_inv es \<Longrightarrow> distinct (map Type (runtime_structs es))"
proof (induction es)
  case (Cons e es)
  obtain n o1 where e: "e = (n, o1)" by force
  have "n \<notin> Type ` set (runtime_structs es)" using Cons.prems e by (force simp: map_inv_def runtime_structs_iff)
  then show ?case using Cons e by (auto simp: runtime_structs_Cons map_inv_def split: entry.splits)
qed (simp add: runtime_structs_def)

lemma stored_ref_before:
  assumes "reg_inv bp" and "b \<in> set (runtime_structs (entries bp))" and "f \<in> set (Fields b)" and "field_ref f \<noteq> []"
  shows "has_parent (Parent bp) (field_ref f) \<or> precedes (map fst (entries bp)) (field_ref f) (Type b)"
proof -
  obtain us vs where "entries bp = us @ (Type b, BlueprintEntry b) # vs"
    using assms(2) by (auto simp: runtime_structs_iff dest: split_list)
  moreover from this have "has_parent (Parent bp) (field_ref f) \<or> field_ref f \<in> fst ` set us"
    using assms unfolding reg_inv_def refs_before_def by blast
  ultimately show ?thesis by (force simp: precedes_def)
qed

lemma reg_inv_acyclic:
  assumes "reg_inv bp" shows "snd (orderBlueprintsByReference (runtime_structs (entries bp))) = None"
proof -
  have inv: "map_inv (entries bp)" using assms by (simp add: reg_inv_def)
  have "\<forall>(r, m) \<in> set (edges (runtime_structs (entries bp))). precedes (map fst (entries bp)) r m"
  proof (clarify, unfold edges_iff)
    fix r m
    assume "\<exists>b \<in> set (runtime_structs (entries bp)). \<exists>f \<in> set (Fields b). m = Type b \<and> r = field_ref f \<and> r \<noteq> [] \<and>
        r \<in> Type ` set (runtime_structs (entries bp)) \<and> r \<noteq> m"
    then obtain b f where b: "b \<in> set (runtime_structs (entries bp))" "f \<in> set (Fields b)" "m = Type b" "r = field_ref f" "r \<noteq> []"
      and "r \<in> Type ` set (runtime_structs (entries bp))" by blast
    then have "r \<in> fst ` set (entries bp)" by (force simp: runtime_structs_iff)
    then have "\<not> has_parent (Parent bp) r" using assms by (auto simp: reg_inv_def)
    then show "precedes (map fst (entries bp)) r m" using stored_ref_before [OF assms b(1,2)] b by auto
  qed
  then have "acyclic (set (edges (runtime_structs (entries bp))))"
    using inv by (intro precedes_acyclic) (auto simp: map_inv_def)
  then show ?thesis using order_error_iff [OF runtime_structs_distinct [OF inv]] by simp
qed

subsection \<open>Replaying a registry on a peer\<close>

definition replay :: "(bytes \<Rightarrow> bytes) \<Rightarrow> blueprint list \<Rightarrow> registry \<Rightarrow> registry" where
  "replay sha256 bs bp = fold (\<lambda>b r. snd (RegisterBlueprint sha256 (Some b) r)) bs bp"

lemma replay_all:
  assumes "distinct (map Type bs)"
    and "\<And>b. b \<in> set bs \<Longrightarrow> validateBlueprint (Some b) = None \<and> Underlying b = [] \<and> \<not> has bp (Type b)"
    and "\<And>us b vs f. bs = us @ b # vs \<Longrightarrow> f \<in> set (Fields b) \<Longrightarrow>
      field_ref f = [] \<or> has bp (field_ref f) \<or> field_ref f \<in> Type ` set us"
  shows "replay sha256 bs bp = Blueprints (entries bp @ map (\<lambda>b. (Type b, BlueprintEntry b)) bs) (Parent bp)"
  using assms
proof (induction bs arbitrary: bp)
  case Nil
  then show ?case by (cases bp) (simp add: replay_def)
next
  case (Cons b bs)
  have "register_ok bp b"
    using Cons.prems(2) [of b] Cons.prems(3) [of "[]" b bs] by (auto simp: register_ok_def)
  then have step: "snd (RegisterBlueprint sha256 (Some b) bp) = extend bp (Type b) (BlueprintEntry b)"
    by (simp add: RegisterBlueprint_ok)
  let ?bp1 = "extend bp (Type b) (BlueprintEntry b)"
  have "replay sha256 bs ?bp1 = Blueprints (entries ?bp1 @ map (\<lambda>b. (Type b, BlueprintEntry b)) bs) (Parent ?bp1)"
  proof (rule Cons.IH)
    show "distinct (map Type bs)" using Cons.prems(1) by simp
    show "validateBlueprint (Some c) = None \<and> Underlying c = [] \<and> \<not> has ?bp1 (Type c)" if "c \<in> set bs" for c
      using that Cons.prems(1) Cons.prems(2) [of c] by (auto simp: image_iff)
    show "field_ref f = [] \<or> has ?bp1 (field_ref f) \<or> field_ref f \<in> Type ` set us"
      if "bs = us @ c # vs" and "f \<in> set (Fields c)" for us c vs f
      using Cons.prems(3) [of "b # us" c vs f] that by auto
  qed
  then show ?case by (simp add: replay_def step) (simp add: extend_def)
qed

lemma runtime_by_name_Type:
  assumes "\<And>n. n \<in> set ns \<Longrightarrow> n \<in> Type ` set bs"
  shows "map Type (runtime_by_name bs ns) = ns" and "set (runtime_by_name bs ns) \<subseteq> set bs"
proof -
  have "\<exists>b. find (\<lambda>b. Type b = n) bs = Some b \<and> b \<in> set bs \<and> Type b = n" if "n \<in> set ns" for n
    using assms [OF that] by (cases "find (\<lambda>b. Type b = n) bs") (auto simp: find_None_iff find_Some_iff)
  then have *: "\<forall>n \<in> set ns. \<exists>b. find (\<lambda>b. Type b = n) bs = Some b \<and> b \<in> set bs \<and> Type b = n" by blast
  then show "map Type (runtime_by_name bs ns) = ns"
    by (induction ns) (auto simp: runtime_by_name_def map_filter_simps)
  from * show "set (runtime_by_name bs ns) \<subseteq> set bs"
    by (induction ns) (auto simp: runtime_by_name_def map_filter_simps)
qed

lemma precedes_split: "distinct xs \<Longrightarrow> precedes xs r m \<Longrightarrow> xs = us @ m # vs \<Longrightarrow> r \<in> set us"
  by (auto simp: precedes_def append_eq_append_conv2 Cons_eq_append_conv append_eq_Cons_conv)

lemma replay_ordered:
  assumes inv: "reg_inv src"
    and peer: "\<And>n. has_parent (Parent src) n \<or> n \<in> fst ` set (entries src) - Type ` set (runtime_structs (entries src)) \<Longrightarrow> has dst n"
    and fresh: "\<And>b. b \<in> set (runtime_structs (entries src)) \<Longrightarrow> \<not> has dst (Type b)"
  defines "names \<equiv> fst (orderBlueprintsByReference (runtime_structs (entries src)))"
  shows "replay sha256 (runtime_by_name (runtime_structs (entries src)) names) dst =
    Blueprints (entries dst @ map (\<lambda>b. (Type b, BlueprintEntry b)) (runtime_by_name (runtime_structs (entries src)) names)) (Parent dst)"
proof -
  let ?rt = "runtime_structs (entries src)"
  let ?bs = "runtime_by_name ?rt names"
  have m: "map_inv (entries src)" using inv by (simp add: reg_inv_def)
  have dn: "order_done (edges ?rt) (sort (map Type ?rt)) (orderBlueprintsByReference ?rt)"
    by (rule order_correct [OF runtime_structs_distinct [OF m]])
  then have names: "distinct names" "set names = Type ` set ?rt"
    and ord: "\<forall>(r, m) \<in> set (edges ?rt). precedes names r m"
    using reg_inv_acyclic [OF inv] by (auto simp: order_done_def names_def)
  have T: "map Type ?bs = names" and S: "set ?bs \<subseteq> set ?rt" using runtime_by_name_Type [of names ?rt] names(2) by auto
  show ?thesis
  proof (rule replay_all)
    show "distinct (map Type ?bs)" using T names by simp
    show "validateBlueprint (Some b) = None \<and> Underlying b = [] \<and> \<not> has dst (Type b)" if "b \<in> set ?bs" for b
    proof -
      have b: "(Type b, BlueprintEntry b) \<in> set (entries src)" "Kind b = BlueprintKindStruct" "b \<in> set ?rt"
        using that S by (auto simp: runtime_structs_iff)
      have "entry_valid (Type b, BlueprintEntry b)" using inv b(1) by (auto simp: reg_inv_def)
      then show ?thesis using b fresh by (auto simp: entry_valid_def Kind_def Blueprint_ObjectType_def split: if_splits)
    qed
    show "field_ref f = [] \<or> has dst (field_ref f) \<or> field_ref f \<in> Type ` set us"
      if eq: "?bs = us @ b # vs" and f: "f \<in> set (Fields b)" for us b vs f
    proof (cases "field_ref f = [] \<or> has dst (field_ref f)")
      case False
      have b: "b \<in> set ?rt" using eq S by auto
      have pr: "precedes (map fst (entries src)) (field_ref f) (Type b)"
        using stored_ref_before [OF inv b f] False peer by blast
      then have "field_ref f \<in> fst ` set (entries src)" by (auto simp: precedes_def dest!: arg_cong [of _ _ set])
      then have "field_ref f \<in> Type ` set ?rt" using False peer by blast
      moreover have "field_ref f \<noteq> Type b" using pr m by (auto simp: precedes_def map_inv_def)
      ultimately have "(field_ref f, Type b) \<in> set (edges ?rt)"
        using b f False unfolding edges_iff by blast
      then have "precedes names (field_ref f) (Type b)" using ord by blast
      moreover have "names = map Type us @ Type b # map Type vs" using T eq by (metis list.simps(9) map_append)
      ultimately have "field_ref f \<in> set (map Type us)" by (rule precedes_split [OF names(1)])
      then show ?thesis by simp
    qed blast
  qed
qed

end
