(* ===== verification/Primitives.thy ===== *)
theory Primitives
  imports ObjectID
begin

text \<open>
  The compile-time leaf types as one value type: the allowlisted primitives of
  \<^verbatim>\<open>src/astral/primitive_spec.go\<close> (identity apart, which has a theory of its own) and the
  signed integers.  \<open>prim_type\<close> is \<^verbatim>\<open>ObjectType\<close>, \<open>prim_zero\<close> what \<^verbatim>\<open>reflect.New\<close> makes of the
  registered prototype, and the two codec functions dispatch to the codecs of \<open>Scalars\<close> and
  \<open>ObjectID\<close>.  \<open>rb_prim\<close> collects their round trips.
\<close>

datatype prim =
    PUint8 "8 word"
  | PUint16 "16 word"
  | PUint32 "32 word"
  | PUint64 "64 word"
  | PInt8 "8 word"
  | PInt16 "16 word"
  | PInt32 "32 word"
  | PInt64 "64 word"
  | PString8 string
  | PString16 string
  | PString32 string
  | PString64 string
  | PBytes8 bytes
  | PBytes16 bytes
  | PBytes32 bytes
  | PBytes64 bytes
  | PBool bool
  | PTime int
  | PObjectID objectID
  | PNonce "64 word"
  | PDuration "64 word"
  | PZone "8 word"

text \<open>The zero \<^verbatim>\<open>time.Time\<close>, January 1 of year 1, in nanoseconds from the Unix epoch.\<close>

definition zeroTime :: int where "zeroTime = - 62135596800 * 10 ^ 9"

fun prim_type :: "prim \<Rightarrow> string" where
  "prim_type (PUint8 x) = ''uint8''"
| "prim_type (PUint16 x) = ''uint16''"
| "prim_type (PUint32 x) = ''uint32''"
| "prim_type (PUint64 x) = ''uint64''"
| "prim_type (PInt8 x) = ''int8''"
| "prim_type (PInt16 x) = ''int16''"
| "prim_type (PInt32 x) = ''int32''"
| "prim_type (PInt64 x) = ''int64''"
| "prim_type (PString8 x) = ''string8''"
| "prim_type (PString16 x) = ''string16''"
| "prim_type (PString32 x) = ''string32''"
| "prim_type (PString64 x) = ''string64''"
| "prim_type (PBytes8 x) = ''bytes8''"
| "prim_type (PBytes16 x) = ''bytes16''"
| "prim_type (PBytes32 x) = ''bytes32''"
| "prim_type (PBytes64 x) = ''bytes64''"
| "prim_type (PBool x) = ''bool''"
| "prim_type (PTime x) = ''time''"
| "prim_type (PObjectID x) = ''object_id.sha256''"
| "prim_type (PNonce x) = ''nonce64''"
| "prim_type (PDuration x) = ''duration''"
| "prim_type (PZone x) = ''zone''"

definition prim_zeros :: "(string \<times> prim) list" where
  "prim_zeros =
     [(''uint8'', PUint8 0),
      (''uint16'', PUint16 0),
      (''uint32'', PUint32 0),
      (''uint64'', PUint64 0),
      (''int8'', PInt8 0),
      (''int16'', PInt16 0),
      (''int32'', PInt32 0),
      (''int64'', PInt64 0),
      (''string8'', PString8 []),
      (''string16'', PString16 []),
      (''string32'', PString32 []),
      (''string64'', PString64 []),
      (''bytes8'', PBytes8 []),
      (''bytes16'', PBytes16 []),
      (''bytes32'', PBytes32 []),
      (''bytes64'', PBytes64 []),
      (''bool'', PBool False),
      (''time'', PTime zeroTime),
      (''object_id.sha256'', PObjectID zeroID),
      (''nonce64'', PNonce 0),
      (''duration'', PDuration 0),
      (''zone'', PZone 0)]"

definition prim_zero :: "string \<Rightarrow> prim option" where
  "prim_zero name = map_of prim_zeros name"

fun prim_WriteTo :: "prim \<Rightarrow> writer" where
  "prim_WriteTo (PUint8 x) = Uint8_WriteTo x"
| "prim_WriteTo (PUint16 x) = Uint16_WriteTo x"
| "prim_WriteTo (PUint32 x) = Uint32_WriteTo x"
| "prim_WriteTo (PUint64 x) = Uint64_WriteTo x"
| "prim_WriteTo (PInt8 x) = Int8_WriteTo x"
| "prim_WriteTo (PInt16 x) = Int16_WriteTo x"
| "prim_WriteTo (PInt32 x) = Int32_WriteTo x"
| "prim_WriteTo (PInt64 x) = Int64_WriteTo x"
| "prim_WriteTo (PString8 x) = String8_WriteTo x"
| "prim_WriteTo (PString16 x) = String16_WriteTo x"
| "prim_WriteTo (PString32 x) = String32_WriteTo x"
| "prim_WriteTo (PString64 x) = String64_WriteTo x"
| "prim_WriteTo (PBytes8 x) = Bytes8_WriteTo x"
| "prim_WriteTo (PBytes16 x) = Bytes16_WriteTo x"
| "prim_WriteTo (PBytes32 x) = Bytes32_WriteTo x"
| "prim_WriteTo (PBytes64 x) = Bytes64_WriteTo x"
| "prim_WriteTo (PBool x) = Bool_WriteTo x"
| "prim_WriteTo (PTime x) = Time_WriteTo x"
| "prim_WriteTo (PObjectID x) = ObjectID_WriteTo x"
| "prim_WriteTo (PNonce x) = Nonce_WriteTo x"
| "prim_WriteTo (PDuration x) = Duration_WriteTo x"
| "prim_WriteTo (PZone x) = Zone_WriteTo x"

text \<open>\<open>prim_ReadFrom p\<close> reads into the carrier \<open>p\<close>, whose own value does not matter.\<close>

fun prim_ReadFrom :: "prim \<Rightarrow> prim reader" where
  "prim_ReadFrom (PUint8 x) = rmap PUint8 Uint8_ReadFrom"
| "prim_ReadFrom (PUint16 x) = rmap PUint16 Uint16_ReadFrom"
| "prim_ReadFrom (PUint32 x) = rmap PUint32 Uint32_ReadFrom"
| "prim_ReadFrom (PUint64 x) = rmap PUint64 Uint64_ReadFrom"
| "prim_ReadFrom (PInt8 x) = rmap PInt8 Int8_ReadFrom"
| "prim_ReadFrom (PInt16 x) = rmap PInt16 Int16_ReadFrom"
| "prim_ReadFrom (PInt32 x) = rmap PInt32 Int32_ReadFrom"
| "prim_ReadFrom (PInt64 x) = rmap PInt64 Int64_ReadFrom"
| "prim_ReadFrom (PString8 x) = rmap PString8 String8_ReadFrom"
| "prim_ReadFrom (PString16 x) = rmap PString16 String16_ReadFrom"
| "prim_ReadFrom (PString32 x) = rmap PString32 String32_ReadFrom"
| "prim_ReadFrom (PString64 x) = rmap PString64 String64_ReadFrom"
| "prim_ReadFrom (PBytes8 x) = rmap PBytes8 Bytes8_ReadFrom"
| "prim_ReadFrom (PBytes16 x) = rmap PBytes16 Bytes16_ReadFrom"
| "prim_ReadFrom (PBytes32 x) = rmap PBytes32 Bytes32_ReadFrom"
| "prim_ReadFrom (PBytes64 x) = rmap PBytes64 Bytes64_ReadFrom"
| "prim_ReadFrom (PBool x) = rmap PBool Bool_ReadFrom"
| "prim_ReadFrom (PTime x) = rmap PTime Time_ReadFrom"
| "prim_ReadFrom (PObjectID x) = rmap PObjectID ObjectID_ReadFrom"
| "prim_ReadFrom (PNonce x) = rmap PNonce Nonce_ReadFrom"
| "prim_ReadFrom (PDuration x) = rmap PDuration Duration_ReadFrom"
| "prim_ReadFrom (PZone x) = rmap PZone Zone_ReadFrom"

text \<open>The values the wire can carry: everything but instants and lengths beyond 64 bits.\<close>

fun prim_ok :: "prim \<Rightarrow> bool" where
  "prim_ok (PString64 x) \<longleftrightarrow> length x < 2 ^ 64"
| "prim_ok (PBytes64 x) \<longleftrightarrow> length x < 2 ^ 64"
| "prim_ok (PTime x) \<longleftrightarrow> - (2 ^ 63) \<le> x \<and> x < 2 ^ 63"
| "prim_ok (PObjectID x) \<longleftrightarrow> oid_ok x"
| "prim_ok _ \<longleftrightarrow> True"

lemma prim_zero_type: "prim_zero n = Some z \<Longrightarrow> prim_type z = n"
  by (auto simp: prim_zero_def prim_zeros_def split: if_splits)

lemma prim_zero_known: "prim_zero (prim_type p) \<noteq> None"
  by (cases p) (simp_all add: prim_zero_def prim_zeros_def)

lemma prim_ReadFrom_cong: "prim_type p = prim_type q \<Longrightarrow> prim_ReadFrom p = prim_ReadFrom q"
  by (cases p; cases q) simp_all

lemmas leaf_round_trips =
  u8.round_trip u16.round_trip u32.round_trip u64.round_trip
  i8.round_trip i16.round_trip i32.round_trip i64.round_trip
  boolc.round_trip bytes8.round_trip bytes16.round_trip bytes32.round_trip bytes64.round_trip
  string8.round_trip string16.round_trip string32.round_trip string64.round_trip
  nonce.round_trip duration.round_trip zone.round_trip time.round_trip oid.round_trip

lemma rb_prim: "prim_ok p \<Longrightarrow> reads_back (prim_WriteTo p) (prim_ReadFrom p) p"
  by (cases p) (auto intro!: rb_map leaf_round_trips)

interpretation primc: wire_codec prim_WriteTo "prim_ReadFrom z" "\<lambda>p. prim_ok p \<and> prim_type p = prim_type z" for z
  by unfold_locales (metis rb_prim prim_ReadFrom_cong)

end
