(* ===== verification/Runtime.thy ===== *)
theory Runtime
  imports Registry Primitives
begin

text \<open>
  Runtime objects and their construction: \<^verbatim>\<open>src/astral/runtime_object.go\<close> (RuntimeObject,
  \<^verbatim>\<open>newRuntimeObjectAt\<close>, \<^verbatim>\<open>specZeroAtErr\<close>), \<^verbatim>\<open>Blueprints.New\<close> and \<^verbatim>\<open>newAt\<close> of
  \<^verbatim>\<open>blueprints.go\<close>, the constructors of \<^verbatim>\<open>runtime_slice.go\<close>, \<^verbatim>\<open>runtime_array.go\<close> and
  \<^verbatim>\<open>runtime_map.go\<close>.

  \<open>newAt\<close> recurses through the registry, not through its argument, and \<^verbatim>\<open>bps.New\<close> of a primitive
  restarts the depth count, so the recursion is fuelled and an exhausted fuel is \<open>None\<close>.
  \<open>newAt_total\<close> shows that \<open>newFuel\<close> is always enough when the primitive names are bound to
  compile-time prototypes (as in every registry below the default one), \<open>newAt_nodes\<close> that a
  construction stays within the node budget, and \<open>newAt_diverges\<close> that without that condition
  no fuel is enough.
\<close>

subsection \<open>Objects\<close>

text \<open>
  \<open>Absent\<close> is Go's nil in an Object slot, \<open>NilObj\<close> the \<^verbatim>\<open>*Nil\<close> marker.  A compile-time object
  outside \<open>prim\<close> is \<open>Native\<close>: its type name and its payload.  \<open>RSlice\<close>, \<open>RArray\<close> and \<open>RMap\<close> carry the
  element type name of their Spec (empty: heterogeneous).
\<close>

datatype obj =
    Absent
  | NilObj
  | Prim prim
  | Native string bytes
  | Struct blueprint "obj list"
  | Alias blueprint obj
  | RSlice string "obj list"
  | RArray string "obj list"
  | RMap gokind string "(mapkey \<times> obj) list"

fun ObjectType :: "obj \<Rightarrow> string" where
  "ObjectType Absent = []"
| "ObjectType NilObj = nilTypeName"
| "ObjectType (Prim p) = prim_type p"
| "ObjectType (Native n pl) = n"
| "ObjectType (Struct bp vs) = Type bp"
| "ObjectType (Alias bp v) = Type bp"
| "ObjectType (RSlice en vs) = ''slice''"
| "ObjectType (RArray en vs) = ''array''"
| "ObjectType (RMap k vn es) = ''map''"

definition isPtrNil :: "obj \<Rightarrow> bool" where
  "isPtrNil v \<longleftrightarrow> v = Absent \<or> v = NilObj"

subsection \<open>Lookup and the prototype of an entry\<close>

text \<open>The entry under a name, with the level of the chain that holds it.\<close>

fun lookup_entry :: "registry \<Rightarrow> string \<Rightarrow> (entry \<times> registry) option" where
  "lookup_entry (Blueprints es p) name =
     (case Map_Get es name of
        Some e \<Rightarrow> Some (e, Blueprints es p)
      | None \<Rightarrow> (case p of Some q \<Rightarrow> lookup_entry q name | None \<Rightarrow> None))"

definition newProto :: "entry \<Rightarrow> obj" where
  "newProto e =
     (let n = entry_ObjectType e in
      if n = nilTypeName then NilObj
      else case prim_zero n of Some z \<Rightarrow> Prim z | None \<Rightarrow> Native n [])"

definition isRuntimeBlueprintType :: "registry \<Rightarrow> string \<Rightarrow> bool" where
  "isRuntimeBlueprintType bps typeName \<longleftrightarrow> typeName \<noteq> [] \<and> getBlueprintRef bps typeName \<noteq> None"

text \<open>
  \<^verbatim>\<open>resolveElemType\<close>: what is not a runtime Blueprint is materialised once, which for a
  prototype cannot fail.
\<close>

definition resolveElemType :: "registry \<Rightarrow> string \<Rightarrow> error option" where
  "resolveElemType bps typeName =
     (if typeName = [] then None
      else if isRuntimeBlueprintType bps typeName then None
      else case lookup_entry bps typeName of
        None \<Rightarrow> Some (ErrBlueprintNotFound typeName)
      | Some _ \<Rightarrow> None)"

definition resolveKeyType :: "string \<Rightarrow> gokind res" where
  "resolveKeyType name =
     (if name = ''string16'' then Inr String
      else if name = ''uint8'' then Inr Uint8
      else if name = ''uint16'' then Inr Uint16
      else if name = ''uint32'' then Inr Uint32
      else if name = ''uint64'' then Inr Uint64
      else Inl (ErrMsg ''runtime_map: unsupported key type''))"

definition newRuntimeSliceWith :: "registry \<Rightarrow> string \<Rightarrow> obj res" where
  "newRuntimeSliceWith bps t = (case resolveElemType bps t of Some e \<Rightarrow> Inl e | None \<Rightarrow> Inr (RSlice t []))"

definition newRuntimeArrayWith :: "registry \<Rightarrow> string \<Rightarrow> 32 word \<Rightarrow> obj res" where
  "newRuntimeArrayWith bps t len =
     (case resolveElemType bps t of Some e \<Rightarrow> Inl e | None \<Rightarrow> Inr (RArray t (replicate (unat len) Absent)))"

definition newRuntimeMapWith :: "registry \<Rightarrow> string \<Rightarrow> string \<Rightarrow> obj res" where
  "newRuntimeMapWith bps k t =
     (case resolveKeyType k of
        Inl e \<Rightarrow> Inl e
      | Inr kt \<Rightarrow> (case resolveElemType bps t of Some e \<Rightarrow> Inl e | None \<Rightarrow> Inr (RMap kt t [])))"

subsection \<open>Construction\<close>

text \<open>
  Results: the outer option is the fuel, then the error or value, and the node budget left.
  \<open>rec\<close> is \<open>newAt\<close> with one unit of fuel less.
\<close>

type_synonym 'a built = "('a res \<times> nat) option"
type_synonym newer = "registry \<Rightarrow> string \<Rightarrow> nat \<Rightarrow> nat \<Rightarrow> obj option built"

text \<open>\<^verbatim>\<open>bps.New\<close>: depth zero, a fresh budget, every error folded into nil.\<close>

definition newWith :: "newer \<Rightarrow> registry \<Rightarrow> string \<Rightarrow> obj option option" where
  "newWith rec bps typeName =
     (case rec bps typeName 0 newBuildBudget of
        None \<Rightarrow> None
      | Some (Inl e, _) \<Rightarrow> Some None
      | Some (Inr v, _) \<Rightarrow> Some v)"

definition slot :: "obj option \<Rightarrow> obj" where
  "slot v = (case v of None \<Rightarrow> Absent | Some x \<Rightarrow> x)"

definition specZeroAtErr :: "newer \<Rightarrow> registry \<Rightarrow> spec option \<Rightarrow> nat \<Rightarrow> nat \<Rightarrow> obj built" where
  "specZeroAtErr rec bps sp dpt left =
     (case sp of
        Some (PrimitiveSpec p) \<Rightarrow>
          (case newWith rec bps p of None \<Rightarrow> None | Some v \<Rightarrow> Some (Inr (slot v), left))
      | Some (RefSpec t) \<Rightarrow>
          (case rec bps t dpt left of
             None \<Rightarrow> None
           | Some (Inl e, left1) \<Rightarrow> Some (Inl e, left1)
           | Some (Inr v, left1) \<Rightarrow> Some (Inr (slot v), left1))
      | Some (SliceSpec t) \<Rightarrow>
          Some (Inr (case newRuntimeSliceWith bps t of Inl e \<Rightarrow> Absent | Inr s \<Rightarrow> s), left)
      | Some (ArraySpec t n) \<Rightarrow>
          Some (Inr (case newRuntimeArrayWith bps t n of Inl e \<Rightarrow> Absent | Inr a \<Rightarrow> a), left)
      | Some (MapSpec k t) \<Rightarrow>
          Some (Inr (case newRuntimeMapWith bps k t of Inl e \<Rightarrow> Absent | Inr m \<Rightarrow> m), left)
      | Some (PtrSpec t) \<Rightarrow> Some (Inr NilObj, left)
      | Some ObjectSpec \<Rightarrow> Some (Inr NilObj, left)
      | None \<Rightarrow> Some (Inr Absent, left))"

fun zeroFields :: "newer \<Rightarrow> registry \<Rightarrow> field list \<Rightarrow> nat \<Rightarrow> nat \<Rightarrow> obj list built" where
  "zeroFields rec bps [] dpt left = Some (Inr [], left)"
| "zeroFields rec bps (f # fs) dpt left =
     (case specZeroAtErr rec bps (Spec f) (dpt + 1) left of
        None \<Rightarrow> None
      | Some (Inl e, left1) \<Rightarrow> Some (Inl e, left1)
      | Some (Inr v, left1) \<Rightarrow>
          (case zeroFields rec bps fs dpt left1 of
             None \<Rightarrow> None
           | Some (Inl e, left2) \<Rightarrow> Some (Inl e, left2)
           | Some (Inr vs, left2) \<Rightarrow> Some (Inr (v # vs), left2)))"

definition newRuntimeObjectAt :: "newer \<Rightarrow> registry \<Rightarrow> blueprint \<Rightarrow> nat \<Rightarrow> nat \<Rightarrow> obj built" where
  "newRuntimeObjectAt rec bps bp dpt left =
     (if MaxBlueprintDepth < dpt then Some (Inl ErrDepthExceeded, left)
      else case take_node left of
        (False, left1) \<Rightarrow> Some (Inl ErrDepthExceeded, left1)
      | (True, left1) \<Rightarrow>
          (case validateBlueprint (Some bp) of
             Some e \<Rightarrow> Some (Inl e, left1)
           | None \<Rightarrow>
               if Kind bp = BlueprintKindAlias then
                 (case newWith rec bps (Underlying bp) of
                    None \<Rightarrow> None
                  | Some None \<Rightarrow> Some (Inl (ErrBlueprintNotFound (Underlying bp)), left1)
                  | Some (Some v) \<Rightarrow> Some (Inr (Alias bp v), left1))
               else
                 (case zeroFields rec bps (Fields bp) dpt left1 of
                    None \<Rightarrow> None
                  | Some (Inl e, left2) \<Rightarrow> Some (Inl e, left2)
                  | Some (Inr vs, left2) \<Rightarrow> Some (Inr (Struct bp vs), left2))))"

fun newAt :: "nat \<Rightarrow> newer" where
  "newAt 0 bp typeName dpt left = None"
| "newAt (Suc fuel) bp typeName dpt left =
     (case lookup_entry bp typeName of
        None \<Rightarrow> Some (Inr None, left)
      | Some (p, level) \<Rightarrow>
          (case p of
             BlueprintEntry b \<Rightarrow>
               if classify typeName p = kindRuntimeBP then
                 (case newRuntimeObjectAt (newAt fuel) level b dpt left of
                    None \<Rightarrow> None
                  | Some (Inl e, left1) \<Rightarrow>
                      Some (if e = ErrDepthExceeded then Inl e else Inr None, left1)
                  | Some (Inr ro, left1) \<Rightarrow> Some (Inr (Some ro), left1))
               else Some (Inr (Some (newProto p)), left)
           | ProtoEntry t \<Rightarrow> Some (Inr (Some (newProto p)), left)))"

definition newFuel :: nat where "newFuel = MaxBlueprintDepth + 3"

definition New :: "registry \<Rightarrow> string \<Rightarrow> obj option" where
  "New bp typeName = (case newWith (newAt newFuel) bp typeName of None \<Rightarrow> None | Some v \<Rightarrow> v)"

subsection \<open>Construction terminates\<close>

text \<open>The allowlisted primitive names, where registered, are compile-time prototypes.\<close>

fun prims_concrete :: "registry \<Rightarrow> bool" where
  "prims_concrete (Blueprints es p) \<longleftrightarrow>
     (\<forall>(n, e) \<in> set es. isAllowedPrimitive n \<longrightarrow> classify n e \<noteq> kindRuntimeBP) \<and>
     (case p of None \<Rightarrow> True | Some q \<Rightarrow> prims_concrete q)"

lemma lookup_concrete:
  "lookup_entry r n = Some (e, lvl) \<Longrightarrow> prims_concrete r \<Longrightarrow>
     prims_concrete lvl \<and> (isAllowedPrimitive n \<longrightarrow> classify n e \<noteq> kindRuntimeBP)"
proof (induction r n rule: lookup_entry.induct)
  case (1 es p name)
  show ?case
  proof (cases "Map_Get es name")
    case None
    then show ?thesis using 1 by (auto split: option.splits)
  next
    case (Some a)
    then have "(name, a) \<in> set es" by (simp add: Map_Get_def map_of_SomeD)
    then show ?thesis using 1 Some by auto
  qed
qed

lemma newAt_prim:
  assumes "prims_concrete r" and "isAllowedPrimitive n"
  obtains v where "newAt (Suc k) r n d left = Some (Inr v, left)" and "\<And>x. v = Some x \<Longrightarrow> \<exists>e. x = newProto e"
proof (cases "lookup_entry r n")
  case None
  then show ?thesis using that [of None] by simp
next
  case (Some a)
  obtain e lvl where a: "a = (e, lvl)" by force
  have "classify n e \<noteq> kindRuntimeBP" using lookup_concrete [of r n e lvl] assms Some a by simp
  then have "newAt (Suc k) r n d left = Some (Inr (Some (newProto e)), left)"
    using Some a by (auto split: entry.splits)
  then show ?thesis using that by blast
qed

lemma newWith_prim:
  assumes "prims_concrete r" and "isAllowedPrimitive n" and "0 < k"
  obtains v where "newWith (newAt k) r n = Some v" and "\<And>x. v = Some x \<Longrightarrow> \<exists>e. x = newProto e"
proof -
  obtain k' where "k = Suc k'" using assms(3) by (cases k) auto
  then show ?thesis using newAt_prim [OF assms(1,2), of k' 0 newBuildBudget] that
    by (metis (no_types, lifting) newWith_def option.simps(5) prod.simps(2) sum.simps(6))
qed

lemma validated_primitive:
  "validateBlueprint (Some b) = None \<Longrightarrow> f \<in> set (Fields b) \<Longrightarrow> Spec f = Some (PrimitiveSpec p) \<Longrightarrow>
     isAllowedPrimitive p"
  by (auto simp: validateBlueprint_ok_iff good_field_def split: if_splits)

lemma zeroFields_total:
  "(\<And>f left. f \<in> set fs \<Longrightarrow> specZeroAtErr rec bps (Spec f) (d + 1) left \<noteq> None) \<Longrightarrow>
     zeroFields rec bps fs d left \<noteq> None"
proof (induction fs arbitrary: left)
  case (Cons f fs)
  obtain r left1 where r: "specZeroAtErr rec bps (Spec f) (d + 1) left = Some (r, left1)"
    using Cons.prems [of f left] by force
  have "zeroFields rec bps fs d left1 \<noteq> None" using Cons by simp
  then show ?case using r by (auto split: sum.splits option.splits)
qed simp

lemma newAt_total:
  "prims_concrete r \<Longrightarrow> 0 < k \<Longrightarrow> MaxBlueprintDepth + 3 \<le> k + d \<Longrightarrow> newAt k r t d left \<noteq> None"
proof (induction k arbitrary: r t d left)
  case (Suc k)
  show ?case
  proof (cases "lookup_entry r t")
    case (Some a)
    obtain e lvl where a: "a = (e, lvl)" by force
    have c: "prims_concrete lvl" using lookup_concrete [of r t e lvl] Suc.prems Some a by simp
    have w: "newRuntimeObjectAt (newAt k) lvl b d left \<noteq> None" for b
    proof (cases "d \<le> MaxBlueprintDepth \<and> validateBlueprint (Some b) = None")
      case True
      then have k: "0 < k" using Suc.prems by simp
      have f: "specZeroAtErr (newAt k) lvl (Spec f) (d + 1) l \<noteq> None" if "f \<in> set (Fields b)" for f l
      proof -
        have ref: "newAt k lvl t (d + 1) l \<noteq> None" for t using Suc.IH [OF c k] Suc.prems(3) by simp
        have prim: "newWith (newAt k) lvl p \<noteq> None" if "Spec f = Some (PrimitiveSpec p)" for p
          using newWith_prim [OF c validated_primitive k] True \<open>f \<in> set (Fields b)\<close> that by (metis option.distinct(1))
        show ?thesis
        proof (cases "Spec f")
          case (Some s)
          then show ?thesis using ref prim
            by (cases s) (auto simp: specZeroAtErr_def split: option.splits sum.splits)
        qed (simp add: specZeroAtErr_def)
      qed
      have "newWith (newAt k) lvl (Underlying b) \<noteq> None" if "Kind b = BlueprintKindAlias"
        using newWith_prim [OF c _ k] True that
        by (metis BlueprintKind.distinct(1) Kind_def option.distinct(1) validateBlueprint_ok_iff)
      moreover have "zeroFields (newAt k) lvl (Fields b) d (left - 1) \<noteq> None" by (rule zeroFields_total) (rule f)
      ultimately show ?thesis using True
        by (auto simp: newRuntimeObjectAt_def take_node_def split: option.splits prod.splits sum.splits)
    qed (auto simp: newRuntimeObjectAt_def take_node_def split: option.splits)
    show ?thesis
    proof (cases e)
      case (BlueprintEntry b)
      then show ?thesis using Some a w [of b] by (auto split: option.splits sum.splits)
    qed (use Some a in simp)
  qed simp
qed simp

subsection \<open>Construction stays within the node budget\<close>

fun nodes :: "obj \<Rightarrow> nat" where
  "nodes (Struct bp vs) = Suc (sum_list (map nodes vs))"
| "nodes (Alias bp v) = Suc (nodes v)"
| "nodes (RSlice en vs) = sum_list (map nodes vs)"
| "nodes (RArray en vs) = sum_list (map nodes vs)"
| "nodes (RMap k vn es) = sum_list (map (\<lambda>(k, v). nodes v) es)"
| "nodes _ = 0"

lemma nodes_newProto [simp]: "nodes (newProto e) = 0"
  by (simp add: newProto_def Let_def split: option.splits)

definition build_bounded :: "obj built \<Rightarrow> nat \<Rightarrow> bool" where
  "build_bounded r left \<longleftrightarrow>
     (case r of None \<Rightarrow> True | Some (Inl e, l) \<Rightarrow> l \<le> left | Some (Inr v, l) \<Rightarrow> nodes v + l \<le> left)"

lemma zeroFields_bounded:
  assumes "\<And>f left. f \<in> set fs \<Longrightarrow> build_bounded (specZeroAtErr rec bps (Spec f) (d + 1) left) left"
    and "zeroFields rec bps fs d left = Some (r, l)"
  shows "l \<le> left \<and> (\<forall>vs. r = Inr vs \<longrightarrow> sum_list (map nodes vs) + l \<le> left)"
  using assms
proof (induction fs arbitrary: left r l)
  case (Cons f fs)
  have w: "build_bounded (specZeroAtErr rec bps (Spec f) (d + 1) left) left" using Cons.prems(1) by simp
  show ?case
    using Cons.prems(2) w Cons.IH [OF Cons.prems(1)]
    by (fastforce simp: build_bounded_def split: option.splits prod.splits sum.splits)
qed simp

lemma newWith_prim_nodes:
  assumes "prims_concrete r" and "isAllowedPrimitive n" and "newWith (newAt k) r n = Some (Some x)"
  shows "nodes x = 0"
proof -
  have "0 < k" using assms(3) by (cases k) (auto simp: newWith_def)
  then show ?thesis using newWith_prim [OF assms(1,2)] assms(3) by (metis nodes_newProto option.inject)
qed

definition newer_bounded :: "newer \<Rightarrow> registry \<Rightarrow> bool" where
  "newer_bounded rec r \<longleftrightarrow>
     (\<forall>t d left x l. rec r t d left = Some (x, l) \<longrightarrow>
        l \<le> left \<and> (\<forall>v. x = Inr (Some v) \<longrightarrow> nodes v + l \<le> left))"

lemma bounded_spec:
  assumes rec: "newer_bounded (newAt k) r" and c: "prims_concrete r"
    and p: "\<And>p. sp = Some (PrimitiveSpec p) \<Longrightarrow> isAllowedPrimitive p"
  shows "build_bounded (specZeroAtErr (newAt k) r sp d l) l"
proof (cases sp)
  case (Some s)
  show ?thesis
  proof (cases s)
    case (PrimitiveSpec q)
    show ?thesis using newWith_prim_nodes [OF c p, of q k] Some PrimitiveSpec
      by (simp add: specZeroAtErr_def build_bounded_def slot_def split: option.splits)
  next
    case (RefSpec t)
    show ?thesis
    proof (cases "newAt k r t d l")
      case (Some a)
      obtain x l' where a: "a = (x, l')" by force
      have "l' \<le> l \<and> (\<forall>v. x = Inr (Some v) \<longrightarrow> nodes v + l' \<le> l)"
        using rec Some a unfolding newer_bounded_def by blast
      then show ?thesis using \<open>sp = Some s\<close> RefSpec Some a
        by (simp add: specZeroAtErr_def build_bounded_def slot_def split: option.splits sum.splits)
    qed (use Some RefSpec in \<open>simp add: specZeroAtErr_def build_bounded_def\<close>)
  qed (use Some in \<open>auto simp: specZeroAtErr_def build_bounded_def newRuntimeSliceWith_def newRuntimeArrayWith_def
        newRuntimeMapWith_def sum_list_replicate split: option.splits sum.splits\<close>)
qed (simp add: specZeroAtErr_def build_bounded_def)

lemma bounded_object:
  assumes rec: "newer_bounded (newAt k) r" and c: "prims_concrete r"
  shows "build_bounded (newRuntimeObjectAt (newAt k) r b d left) left"
proof (cases "d \<le> MaxBlueprintDepth \<and> 0 < left \<and> validateBlueprint (Some b) = None")
  case True
  show ?thesis
  proof (cases "Kind b = BlueprintKindAlias")
    case al: True
    have "isAllowedPrimitive (Underlying b)"
      using True al by (auto simp: validateBlueprint_ok_iff Kind_def split: if_splits)
    then have "nodes v = 0" if "newWith (newAt k) r (Underlying b) = Some (Some v)" for v
      using newWith_prim_nodes [OF c _ that] by simp
    then show ?thesis using True al
      by (auto simp: newRuntimeObjectAt_def take_node_def build_bounded_def split: option.splits)
  next
    case st: False
    have f: "build_bounded (specZeroAtErr (newAt k) r (Spec f) (d + 1) l) l" if "f \<in> set (Fields b)" for f l
      by (rule bounded_spec [OF rec c]) (use True that validated_primitive in blast)
    show ?thesis
    proof (cases "zeroFields (newAt k) r (Fields b) d (left - 1)")
      case (Some a)
      obtain x l' where a: "a = (x, l')" by force
      have "l' \<le> left - 1 \<and> (\<forall>vs. x = Inr vs \<longrightarrow> sum_list (map nodes vs) + l' \<le> left - 1)"
        by (rule zeroFields_bounded [OF f]) (use Some a in auto)
      then show ?thesis using True st Some a
        by (auto simp: newRuntimeObjectAt_def take_node_def build_bounded_def split: sum.splits)
    qed (use True st in \<open>simp add: newRuntimeObjectAt_def take_node_def build_bounded_def\<close>)
  qed
qed (auto simp: newRuntimeObjectAt_def take_node_def build_bounded_def split: option.splits)

lemma newAt_bounded: "prims_concrete r \<Longrightarrow> newer_bounded (newAt k) r"
proof (induction k arbitrary: r)
  case (Suc k)
  show ?case unfolding newer_bounded_def
  proof (intro allI impI)
    fix t d left x l
    assume n: "newAt (Suc k) r t d left = Some (x, l)"
    show "l \<le> left \<and> (\<forall>v. x = Inr (Some v) \<longrightarrow> nodes v + l \<le> left)"
    proof (cases "lookup_entry r t")
      case (Some a)
      obtain e lvl where a: "a = (e, lvl)" by force
      have "prims_concrete lvl" using lookup_concrete [of r t e lvl] Suc.prems Some a by simp
      then have w: "build_bounded (newRuntimeObjectAt (newAt k) lvl b d left) left" for b
        using bounded_object Suc.IH by blast
      show ?thesis
      proof (cases e)
        case (BlueprintEntry b)
        then show ?thesis using n Some a w [of b]
          by (auto simp: build_bounded_def split: option.splits prod.splits sum.splits if_splits)
      qed (use n Some a in auto)
    qed (use n in auto)
  qed
qed (simp add: newer_bounded_def)

lemma New_nodes:
  assumes "prims_concrete r" and "New r t = Some o1"
  shows "nodes o1 \<le> MaxBlueprintNodes"
  using assms newAt_bounded [OF assms(1), of newFuel]
  by (auto simp: New_def newWith_def newer_bounded_def newBuildBudget_def split: option.splits prod.splits sum.splits)
    fastforce

subsection \<open>A registry on which construction does not end\<close>

definition loopBlueprint :: blueprint where
  "loopBlueprint = \<lparr>Type = ''uint8'', Fields = [\<lparr>Name = ''x'', Spec = Some (PrimitiveSpec ''uint8'')\<rparr>], Underlying = []\<rparr>"

definition loopRegistry :: registry where
  "loopRegistry = Blueprints [(''uint8'', BlueprintEntry loopBlueprint)] None"

lemma loop_valid: "validateBlueprint (Some loopBlueprint) = None"
  by (simp add: loopBlueprint_def validateBlueprint_def isASCII_def Kind_def MaxBlueprintNameLen_def
      selfReference_def isAllowedPrimitive_def primitiveAllowlist_def Let_def)

lemma newAt_diverges: "d \<le> MaxBlueprintDepth \<Longrightarrow> 0 < left \<Longrightarrow> newAt k loopRegistry ''uint8'' d left = None"
proof (induction k arbitrary: d left)
  case (Suc k)
  have "newAt k loopRegistry ''uint8'' 0 newBuildBudget = None"
    by (rule Suc.IH) (simp_all add: newBuildBudget_def MaxBlueprintNodes_def)
  then have "newWith (newAt k) loopRegistry ''uint8'' = None" by (simp add: newWith_def)
  then have "newRuntimeObjectAt (newAt k) loopRegistry loopBlueprint d left = None"
    using Suc.prems loop_valid
    by (simp add: newRuntimeObjectAt_def take_node_def)
      (simp add: loopBlueprint_def Kind_def specZeroAtErr_def)
  then show ?case by (simp add: loopRegistry_def Map_Get_def classify_def loopBlueprint_def)
qed simp

subsection \<open>Construction of prototypes and of runtime blueprints\<close>

lemma newWith_proto:
  "lookup_entry r n = Some (e, lvl) \<Longrightarrow> classify n e \<noteq> kindRuntimeBP \<Longrightarrow> 0 < k \<Longrightarrow>
     newWith (newAt k) r n = Some (Some (newProto e))"
  by (cases k) (auto simp: newWith_def split: entry.splits)

lemma New_proto:
  "lookup_entry r n = Some (e, lvl) \<Longrightarrow> classify n e \<noteq> kindRuntimeBP \<Longrightarrow> New r n = Some (newProto e)"
  by (simp add: New_def newWith_proto newFuel_def)

lemma New_runtime:
  assumes "lookup_entry r n = Some (BlueprintEntry b, lvl)" and "Type b = n"
    and "newRuntimeObjectAt (newAt (Suc (Suc MaxBlueprintDepth))) lvl b 0 newBuildBudget = Some (Inr ro, l)"
  shows "New r n = Some ro"
proof -
  have "newAt (Suc (Suc (Suc MaxBlueprintDepth))) r n 0 newBuildBudget = Some (Inr (Some ro), l)"
    using assms by (simp add: classify_def)
  moreover have "newFuel = Suc (Suc (Suc MaxBlueprintDepth))" by (simp add: newFuel_def)
  ultimately have "newAt newFuel r n 0 newBuildBudget = Some (Inr (Some ro), l)" by (simp only:)
  then show ?thesis by (simp add: New_def newWith_def)
qed

end
