(* ===== verification/Reader_Steps.thy ===== *)
theory Reader_Steps
  imports Primitives Objectify
begin

text \<open>
  What every reader of the codec does to its stream, proved once.  \<open>within S R\<close> says that running
  \<open>R\<close> takes any stream to one related by \<open>S\<close>.  The locale \<open>reader_step\<close> lists what such a relation
  needs: it is a preorder, a full read respects it, and so does a frame around a body that
  does.  Inside the locale every reader built from the combinators is shown to stay within
  \<open>S\<close>.  Two relations are interpreted: the nesting depth is left as it was (\<open>rsafe\<close>), and
  what leaves the input is charged to the ledger and stays within its limit (\<open>metered\<close>).
\<close>

definition within :: "(rstate \<Rightarrow> rstate \<Rightarrow> bool) \<Rightarrow> 'a reader \<Rightarrow> bool" where
  "within S R \<longleftrightarrow> (\<forall>r. S r (snd (snd (R r))))"

lemma withinD: "within S R \<Longrightarrow> R r = (v, n, r1) \<Longrightarrow> S r r1"
  unfolding within_def by (metis snd_conv)

lemma withinI: "(\<And>r v n r1. R r = (v, n, r1) \<Longrightarrow> S r r1) \<Longrightarrow> within S R"
  unfolding within_def by (metis prod.collapse)

lemma Bool_rcounted: "Bool_ReadFrom = rcounted 1 (\<lambda>bs. bs ! 0 \<noteq> 0)"
  by (simp add: Bool_ReadFrom_def rcounted_def fun_eq_iff del: One_nat_def)

locale reader_step =
  fixes S :: "rstate \<Rightarrow> rstate \<Rightarrow> bool"
  assumes S_refl: "S r r"
    and S_trans: "S r r1 \<Longrightarrow> S r1 r2 \<Longrightarrow> S r r2"
    and S_ReadFull: "ReadFull k r = (v, n, r1) \<Longrightarrow> S r r1"
    and S_frame: "enter (attach (rb r)) = (e, b1) \<Longrightarrow> S (r\<lparr>rb := Some b1\<rparr>) r1 \<Longrightarrow>
      S r (r1\<lparr>rb := detach (rb r) (rb r1)\<rparr>)"
begin

lemma in_rret [codec_intros]: "within S (rret v)" and in_rfail [codec_intros]: "within S (rfail e)"
  by (simp_all add: within_def rret_def rfail_def S_refl)

lemma in_rbind [codec_intros]:
  assumes "within S m" and "\<And>v. within S (f v)"
  shows "within S (rbind m f)"
proof (rule withinI)
  fix r y n r2
  assume rb: "rbind m f r = (y, n, r2)"
  obtain x k r1 where m: "m r = (x, k, r1)" by (cases "m r") auto
  have "S r1 r2"
  proof (cases x)
    case (Inl e)
    then show ?thesis using rb m by (simp add: rbind_def S_refl)
  next
    case (Inr v)
    then show ?thesis using rb m withinD [OF assms(2)] by (auto simp: rbind_def split: prod.splits)
  qed
  then show "S r r2" using withinD [OF assms(1) m] by (rule S_trans [rotated])
qed

lemma in_rmap [codec_intros]: "within S R \<Longrightarrow> within S (rmap f R)"
  unfolding rmap_def by (intro codec_intros)

lemma in_ReadFull [codec_intros]: "within S (ReadFull k)"
  by (rule withinI) (rule S_ReadFull)

lemma in_readFixed [codec_intros]: "within S readFixed"
  by (rule withinI) (auto simp: readFixed_def split: prod.splits sum.splits dest: S_ReadFull)

lemma in_rcounted [codec_intros]: "within S (rcounted k f)"
  by (rule withinI) (auto simp: rcounted_def split: prod.splits sum.splits dest: S_ReadFull)

lemma in_loop: "S r (snd (snd (readNBytes_loop left buf n r)))"
proof (induction left buf n r rule: readNBytes_loop.induct)
  case (1 left buf n r)
  obtain x m r1 where rd: "ReadFull (min left growChunk) r = (x, m, r1)"
    by (cases "ReadFull (min left growChunk) r") auto
  then show ?case using "1.IH" [OF _ refl rd [symmetric]] S_ReadFull [OF rd]
    by (subst readNBytes_loop.simps) (auto simp: Let_def S_refl split: sum.splits intro: S_trans)
qed

lemma in_readNBytes [codec_intros]: "within S (readNBytes k)"
  by (auto simp: within_def readNBytes_def in_loop S_refl)

lemma in_rframe [codec_intros]: "within S R \<Longrightarrow> within S (rframe R)"
proof (rule withinI)
  fix r x n r2
  assume R: "within S R" and fr: "rframe R r = (x, n, r2)"
  obtain e b1 where en: "enter (attach (rb r)) = (e, b1)" by force
  show "S r r2"
  proof (cases e)
    case None
    then show ?thesis using fr en S_frame [OF en withinD [OF R]] by (auto simp: rframe_def split: prod.splits)
  next
    case (Some err)
    then show ?thesis using fr en S_frame [OF en S_refl] by (auto simp: rframe_def)
  qed
qed

lemma in_leaf [codec_intros]:
  "within S Uint8_ReadFrom" "within S Uint16_ReadFrom" "within S Uint32_ReadFrom" "within S Uint64_ReadFrom"
  "within S Int8_ReadFrom" "within S Int16_ReadFrom" "within S Int32_ReadFrom" "within S Int64_ReadFrom"
  unfolding uint_codec_defs by (intro codec_intros)+

lemma in_bytes [codec_intros]:
  "within S Bytes8_ReadFrom" "within S Bytes16_ReadFrom" "within S Bytes32_ReadFrom" "within S Bytes64_ReadFrom"
  "within S String8_ReadFrom" "within S String16_ReadFrom" "within S String32_ReadFrom" "within S String64_ReadFrom"
  unfolding Bytes8_ReadFrom_def Bytes16_ReadFrom_def Bytes32_ReadFrom_def Bytes64_ReadFrom_def
    String8_ReadFrom_def String16_ReadFrom_def String32_ReadFrom_def String64_ReadFrom_def
  by (intro codec_intros)+

lemma in_other [codec_intros]:
  "within S Bool_ReadFrom" "within S Time_ReadFrom" "within S ObjectID_ReadFrom" "within S Nonce_ReadFrom"
  "within S Duration_ReadFrom" "within S Zone_ReadFrom" "within S ObjectType_ReadFrom"
  unfolding Bool_rcounted Time_ReadFrom_def ObjectID_ReadFrom_def nonce_counted Zone_ReadFrom_def ObjectType_ReadFrom_def
  by (intro codec_intros)+

lemma in_prim [codec_intros]: "within S (prim_ReadFrom p)"
  by (cases p) (simp_all add: codec_intros)

lemma in_readAll [codec_intros]: "(\<And>R. R \<in> set Rs \<Longrightarrow> within S R) \<Longrightarrow> within S (readAll Rs)"
  by (induction Rs) (auto intro!: codec_intros)

lemma in_readPresence [codec_intros]: "within S (readPresence fl)"
proof -
  have "within S consumePresenceFlag"
    by (rule withinI) (auto simp: consumePresenceFlag_def split: prod.splits sum.splits if_splits dest: withinD [OF in_readFixed])
  then show ?thesis by (simp add: readPresence_def in_rret)
qed

lemma in_readElems [codec_intros]: "within S R \<Longrightarrow> within S (readElems fl R k)"
  by (induction k) (auto intro!: codec_intros)

lemma in_readMapKey [codec_intros]: "within S (readMapKey width)"
  by (simp add: readMapKey_def codec_intros)

lemma in_readEntries [codec_intros]: "within S R \<Longrightarrow> within S (readEntries width fl R l m)"
  by (induction l arbitrary: m) (auto intro!: codec_intros)

lemma in_views [codec_intros]:
  "within S R \<Longrightarrow> within S (sliceValue_ReadFrom fl R)"
  "within S R \<Longrightarrow> within S (arrayValue_ReadFrom fl R len)"
  "within S R \<Longrightarrow> within S (ptrValue_ReadFrom skip R)"
  "within S R \<Longrightarrow> within S (mapValue_ReadFrom kind fl R)"
  unfolding sliceValue_ReadFrom_def arrayValue_ReadFrom_def ptrValue_ReadFrom_def mapValue_ReadFrom_def
  by (auto intro!: codec_intros split: option.splits)

lemma in_interface [codec_intros]:
  "(\<And>t R. new t = Inr R \<Longrightarrow> within S R) \<Longrightarrow> within S (interfaceValue_ReadFrom new)"
  unfolding interfaceValue_ReadFrom_def by (auto intro!: codec_intros split: sum.splits)

lemma in_tags [codec_intros]:
  "within S CanonicalTypeDecoder" "within S ShortTypeDecoder" "within S (IndexedTypeDecoder types)"
proof -
  have "within S Stamp_ReadFrom"
    by (rule withinI) (auto simp: Stamp_ReadFrom_def split: prod.splits sum.splits if_splits dest: S_ReadFull)
  then show "within S CanonicalTypeDecoder" unfolding CanonicalTypeDecoder_def by (intro codec_intros)
  show "within S ShortTypeDecoder" "within S (IndexedTypeDecoder types)"
    unfolding ShortTypeDecoder_def IndexedTypeDecoder_def by (auto intro!: codec_intros)
qed

end

subsection \<open>The nesting depth\<close>

definition keeps_depth :: "rstate \<Rightarrow> rstate \<Rightarrow> bool" where
  "keeps_depth r r1 \<longleftrightarrow> keeps (rb r) (rb r1)"

abbreviation rsafe :: "'a reader \<Rightarrow> bool" where
  "rsafe \<equiv> within keeps_depth"

interpretation depth_step: reader_step keeps_depth
proof unfold_locales
  fix r r1 r2 :: rstate
  show "keeps_depth r r" by (simp add: keeps_depth_def)
  show "keeps_depth r r1 \<Longrightarrow> keeps_depth r1 r2 \<Longrightarrow> keeps_depth r r2"
    unfolding keeps_depth_def by (rule keeps_trans)
next
  fix k r v n r1
  show "ReadFull k r = (v, n, r1) \<Longrightarrow> keeps_depth r r1"
    by (auto simp: keeps_depth_def ReadFull_def Let_def split: if_splits)
next
  fix r r1 :: rstate and e b1
  assume "enter (attach (rb r)) = (e, b1)" and "keeps_depth (r\<lparr>rb := Some b1\<rparr>) r1"
  then show "keeps_depth r (r1\<lparr>rb := detach (rb r) (rb r1)\<rparr>)"
    by (simp add: keeps_depth_def keeps_detach)
qed

lemma rsafeD: "rsafe R \<Longrightarrow> R r = (v, n, r1) \<Longrightarrow> keeps (rb r) (rb r1)"
  using withinD unfolding keeps_depth_def by blast

subsection \<open>The byte count\<close>

definition charged :: "rstate \<Rightarrow> rstate \<Rightarrow> bool" where
  "charged r r1 \<longleftrightarrow>
     (\<exists>k \<le> length (inp r). inp r1 = drop k (inp r) \<and>
        (case rb r of
           None \<Rightarrow> rb r1 = None
         | Some b \<Rightarrow> \<exists>b1. rb r1 = Some b1 \<and> nbytes b1 = nbytes b + k \<and>
             (nbytes b \<le> MaxCodecBytes \<longrightarrow> nbytes b1 \<le> MaxCodecBytes)))"

abbreviation metered :: "'a reader \<Rightarrow> bool" where
  "metered \<equiv> within charged"

lemma charged_Read:
  assumes "ReadFull k r = (v, n, r1)"
  shows "charged r r1"
proof -
  define j where "j = (if k = 0 then 0 else min (room (rb r) k) (length (inp r)))"
  have r1: "r1 = r\<lparr>inp := drop j (inp r), rb := spend j (rb r)\<rparr>" and le: "j \<le> length (inp r)"
    using assms by (auto simp: ReadFull_def Let_def j_def split: if_splits)
  have "nbytes b + j \<le> MaxCodecBytes" if "rb r = Some b" "nbytes b \<le> MaxCodecBytes" for b
    using that by (auto simp: j_def room_def)
  then show ?thesis unfolding charged_def r1 using le
    by (intro exI [of _ j]) (auto simp: spend_def split: option.splits)
qed

lemma charged_trans: "charged r r1 \<Longrightarrow> charged r1 r2 \<Longrightarrow> charged r r2"
proof -
  assume "charged r r1" "charged r1 r2"
  then obtain j k where "j \<le> length (inp r)" "inp r1 = drop j (inp r)" "k \<le> length (inp r1)" "inp r2 = drop k (inp r1)"
    and "case rb r of None \<Rightarrow> rb r1 = None | Some b \<Rightarrow> \<exists>b1. rb r1 = Some b1 \<and> nbytes b1 = nbytes b + j \<and>
        (nbytes b \<le> MaxCodecBytes \<longrightarrow> nbytes b1 \<le> MaxCodecBytes)"
    and "case rb r1 of None \<Rightarrow> rb r2 = None | Some b \<Rightarrow> \<exists>b1. rb r2 = Some b1 \<and> nbytes b1 = nbytes b + k \<and>
        (nbytes b \<le> MaxCodecBytes \<longrightarrow> nbytes b1 \<le> MaxCodecBytes)"
    unfolding charged_def by blast
  then show ?thesis unfolding charged_def
    by (intro exI [of _ "j + k"]) (auto simp: add.commute split: option.splits)
qed

interpretation byte_step: reader_step charged
proof unfold_locales
  show "charged r r" for r unfolding charged_def by (intro exI [of _ 0]) (auto split: option.splits)
  show "charged r r1 \<Longrightarrow> charged r1 r2 \<Longrightarrow> charged r r2" for r r1 r2 by (rule charged_trans)
  show "ReadFull k r = (v, n, r1) \<Longrightarrow> charged r r1" for k r v n r1 by (rule charged_Read)
next
  fix r r1 :: rstate and e b1
  assume en: "enter (attach (rb r)) = (e, b1)" and ch: "charged (r\<lparr>rb := Some b1\<rparr>) r1"
  have "nbytes b1 = nbytes (attach (rb r))" using en by (auto simp: enter_def Let_def split: if_splits)
  then show "charged r (r1\<lparr>rb := detach (rb r) (rb r1)\<rparr>)" using ch
    by (cases "rb r") (auto simp: charged_def detach_def attach_def exit_def)
qed

end
