(* ===== verification/Runtime_Codec.thy ===== *)
theory Runtime_Codec
  imports Runtime Reader_Steps
begin

text \<open>
  The codec of runtime objects: \<^verbatim>\<open>WriteTo\<close>, \<^verbatim>\<open>ReadFrom\<close>, \<^verbatim>\<open>writeField\<close>, \<^verbatim>\<open>readField\<close> and
  \<^verbatim>\<open>readPolymorphic\<close> of \<^verbatim>\<open>src/astral/runtime_object.go\<close>, the element paths of
  \<^verbatim>\<open>runtime_slice.go\<close>, \<^verbatim>\<open>runtime_array.go\<close>, \<^verbatim>\<open>runtime_map.go\<close> and \<^verbatim>\<open>runtime_blueprint_codec.go\<close>, and
  \<^verbatim>\<open>Encode\<close> / \<^verbatim>\<open>Decode\<close> of \<^verbatim>\<open>object.go\<close>.

  A compile-time object outside the primitives is its payload; \<open>nread\<close> is its type's
  \<^verbatim>\<open>ReadFrom\<close>, returning the payload it consumed.  Reading recurses through the registry and
  is fuelled; \<open>readInto_fuel\<close> shows that \<open>readFuel\<close> is never what ends it, because every
  recursion passes a frame of the ledger.
\<close>

subsection \<open>Writing\<close>

text \<open>An element of a runtime container: an interface slot when heterogeneous, a pointer otherwise.\<close>

definition elem_WriteTo :: "string \<Rightarrow> obj \<Rightarrow> writer \<Rightarrow> writer" where
  "elem_WriteTo elemName v W =
     (if elemName = [] then
        interfaceValue_WriteTo (if isPtrNil v then None else Some (ObjectType v, ptrValue_WriteTo True (Some W)))
      else ptrValue_WriteTo False (if v = Absent then None else Some W))"

text \<open>\<open>W\<close> is the value's own \<^verbatim>\<open>WriteTo\<close>.\<close>

definition writeField :: "spec option \<Rightarrow> obj \<Rightarrow> writer \<Rightarrow> writer" where
  "writeField sp v W =
     (case sp of
        None \<Rightarrow> wfail (ErrMsg ''unknown spec'')
      | Some (PtrSpec t) \<Rightarrow>
          wseq (Bool_WriteTo (\<not> isPtrNil v)) (if isPtrNil v then wskip else W)
      | Some ObjectSpec \<Rightarrow>
          if v = Absent then wfail (ErrMsg ''nil value for ObjectSpec'')
          else if isPtrNil v then ObjectType_WriteTo []
          else wseq (ShortTypeEncoder (ObjectType v)) W
      | Some _ \<Rightarrow> if v = Absent then wfail (ErrMsg ''nil value for spec'') else W)"

fun obj_WriteTo :: "obj \<Rightarrow> writer" where
  "obj_WriteTo Absent = wfail (ErrMsg ''nil object'')"
| "obj_WriteTo NilObj = wskip"
| "obj_WriteTo (Prim p) = prim_WriteTo p"
| "obj_WriteTo (Native n payload) = Write payload"
| "obj_WriteTo (Struct bp vs) =
     wframe (writeAll (map (\<lambda>(f, v, W). writeField (Spec f) v W)
       (zip (Fields bp) (map (\<lambda>v. (v, obj_WriteTo v)) vs))))"
| "obj_WriteTo (Alias bp v) = obj_WriteTo v"
| "obj_WriteTo (RSlice en vs) = sliceValue_WriteTo False (map (\<lambda>v. elem_WriteTo en v (obj_WriteTo v)) vs)"
| "obj_WriteTo (RArray en vs) = arrayValue_WriteTo False (map (\<lambda>v. elem_WriteTo en v (obj_WriteTo v)) vs)"
| "obj_WriteTo (RMap kind vn es) =
     mapValue_WriteTo kind False (map (\<lambda>(k, v). (k, elem_WriteTo vn v (obj_WriteTo v))) es)"

subsection \<open>Reading\<close>

text \<open>\<open>rec o\<close> reads into the freshly built object \<open>o\<close>.\<close>

type_synonym into = "obj \<Rightarrow> obj reader"

definition newReader :: "registry \<Rightarrow> into \<Rightarrow> (string \<Rightarrow> error) \<Rightarrow> string \<Rightarrow> obj reader res" where
  "newReader bps rec missing t = (case New bps t of None \<Rightarrow> Inl (missing t) | Some o1 \<Rightarrow> Inr (rec o1))"

definition readNamed :: "registry \<Rightarrow> into \<Rightarrow> string \<Rightarrow> obj reader" where
  "readNamed bps rec t =
     (case newReader bps rec ErrBlueprintNotFound t of Inl e \<Rightarrow> rfail e | Inr R \<Rightarrow> R)"

definition readPolymorphic :: "registry \<Rightarrow> into \<Rightarrow> obj reader" where
  "readPolymorphic bps rec =
     rbind ObjectType_ReadFrom (\<lambda>typ.
       if typ = [] \<or> typ = nilTypeName then rret NilObj
       else case newReader bps rec ErrStreamCorrupted typ of Inl e \<Rightarrow> rfail e | Inr R \<Rightarrow> R)"

definition is_runtime :: "obj \<Rightarrow> bool" where
  "is_runtime o1 = (case o1 of Struct bp vs \<Rightarrow> True | Alias bp v \<Rightarrow> True | _ \<Rightarrow> False)"

text \<open>\<^verbatim>\<open>readRuntimeBlueprintPtr\<close> and its map twin: the nil flag, then a bound RuntimeObject.\<close>

definition readRuntimeBlueprintPtr :: "registry \<Rightarrow> into \<Rightarrow> string \<Rightarrow> obj reader" where
  "readRuntimeBlueprintPtr bps rec typeName =
     rbind (readFixed :: 8 word reader) (\<lambda>nilFlag.
       if nilFlag = 0 then rret Absent
       else if nilFlag \<noteq> 1 then rfail (ErrInvalidFlag (unat nilFlag))
       else case New bps typeName of
         Some o1 \<Rightarrow> if is_runtime o1 then rec o1 else rfail (ErrBlueprintNotFound typeName)
       | None \<Rightarrow> rfail (ErrBlueprintNotFound typeName))"

text \<open>The generic element reader: the interface view or the pointer view of the element type.\<close>

definition elem_ReadFrom :: "registry \<Rightarrow> into \<Rightarrow> string \<Rightarrow> obj reader" where
  "elem_ReadFrom bps rec en =
     (if en = [] then rmap slot (interfaceValue_ReadFrom (newReader bps rec ErrStreamCorrupted))
      else rmap slot (ptrValue_ReadFrom False (readNamed bps rec en)))"

definition RuntimeSlice_ReadFrom :: "registry \<Rightarrow> into \<Rightarrow> string \<Rightarrow> obj reader" where
  "RuntimeSlice_ReadFrom bps rec en =
     rmap (RSlice en)
       (if isRuntimeBlueprintType bps en
        then rbind (readFixed :: 32 word reader)
          (\<lambda>l. readElems False (readRuntimeBlueprintPtr bps rec en) (unat l))
        else sliceValue_ReadFrom False (elem_ReadFrom bps rec en))"

definition RuntimeArray_ReadFrom :: "registry \<Rightarrow> into \<Rightarrow> string \<Rightarrow> nat \<Rightarrow> obj reader" where
  "RuntimeArray_ReadFrom bps rec en len =
     rmap (RArray en)
       (if isRuntimeBlueprintType bps en then readElems False (readRuntimeBlueprintPtr bps rec en) len
        else arrayValue_ReadFrom False (elem_ReadFrom bps rec en) len)"

definition RuntimeMap_ReadFrom :: "registry \<Rightarrow> into \<Rightarrow> gokind \<Rightarrow> string \<Rightarrow> obj reader" where
  "RuntimeMap_ReadFrom bps rec kind vn =
     rmap (RMap kind vn)
       (if isRuntimeBlueprintType bps vn
        then (case supportedMapKey kind of
                None \<Rightarrow> rfail (ErrMsg ''runtime_map: unsupported key kind'')
              | Some width \<Rightarrow>
                  rbind (readFixed :: 32 word reader)
                    (\<lambda>l. readEntries width False (readRuntimeBlueprintPtr bps rec vn) (unat l) []))
        else mapValue_ReadFrom kind False (elem_ReadFrom bps rec vn))"

definition readField :: "registry \<Rightarrow> into \<Rightarrow> spec option \<Rightarrow> obj reader" where
  "readField bps rec sp =
     (case sp of
        None \<Rightarrow> rfail (ErrMsg ''unknown spec'')
      | Some (PrimitiveSpec p) \<Rightarrow> readNamed bps rec p
      | Some (RefSpec t) \<Rightarrow> readNamed bps rec t
      | Some (SliceSpec t) \<Rightarrow>
          (case newRuntimeSliceWith bps t of Inl e \<Rightarrow> rfail e | Inr _ \<Rightarrow> RuntimeSlice_ReadFrom bps rec t)
      | Some (ArraySpec t n) \<Rightarrow>
          (case newRuntimeArrayWith bps t n of Inl e \<Rightarrow> rfail e | Inr _ \<Rightarrow> RuntimeArray_ReadFrom bps rec t (unat n))
      | Some (MapSpec k t) \<Rightarrow>
          (case newRuntimeMapWith bps k t of
             Inl e \<Rightarrow> rfail e
           | Inr _ \<Rightarrow>
               (case resolveKeyType k of Inl e \<Rightarrow> rfail e | Inr kt \<Rightarrow> RuntimeMap_ReadFrom bps rec kt t))
      | Some (PtrSpec t) \<Rightarrow>
          rbind Uint8_ReadFrom (\<lambda>presence.
            if presence = 0 then rret NilObj
            else if presence \<noteq> 1 then rfail (ErrInvalidFlag (unat presence))
            else readNamed bps rec t)
      | Some ObjectSpec \<Rightarrow> readPolymorphic bps rec)"

fun readInto :: "(string \<Rightarrow> bytes reader) \<Rightarrow> registry \<Rightarrow> nat \<Rightarrow> into" where
  "readInto nread bps 0 o1 = rfail ErrDepthExceeded"
| "readInto nread bps (Suc fuel) o1 =
     (case o1 of
        Absent \<Rightarrow> rfail (ErrMsg ''nil object'')
      | NilObj \<Rightarrow> rret NilObj
      | Prim p \<Rightarrow> rmap Prim (prim_ReadFrom p)
      | Native n _ \<Rightarrow> rmap (Native n) (nread n)
      | Struct bp _ \<Rightarrow>
          rframe (rmap (Struct bp) (readAll (map (\<lambda>f. readField bps (readInto nread bps fuel) (Spec f)) (Fields bp))))
      | Alias bp v \<Rightarrow> rmap (Alias bp) (readInto nread bps fuel v)
      | RSlice en _ \<Rightarrow> RuntimeSlice_ReadFrom bps (readInto nread bps fuel) en
      | RArray en vs \<Rightarrow> RuntimeArray_ReadFrom bps (readInto nread bps fuel) en (length vs)
      | RMap kind vn _ \<Rightarrow> RuntimeMap_ReadFrom bps (readInto nread bps fuel) kind vn)"

definition readFuel :: nat where "readFuel = MaxBlueprintDepth + 3"

definition obj_ReadFrom :: "(string \<Rightarrow> bytes reader) \<Rightarrow> registry \<Rightarrow> into" where
  "obj_ReadFrom nread bps = readInto nread bps readFuel"

subsection \<open>Encode and Decode\<close>

text \<open>
  \<^verbatim>\<open>Encode\<close> attaches one ledger for the tag and the payload; \<^verbatim>\<open>Decode\<close> reads the tag from the
  bare reader and attaches afterwards.  The configured type encoder and decoder are
  arguments.
\<close>

definition wattach :: "writer \<Rightarrow> writer" where
  "wattach body w =
     (case body (w\<lparr>wb := Some (attach (wb w))\<rparr>) of
        (e, n, w1) \<Rightarrow> (e, n, w1\<lparr>wb := (case wb w of None \<Rightarrow> None | Some _ \<Rightarrow> wb w1)\<rparr>))"

definition rattach :: "'a reader \<Rightarrow> 'a reader" where
  "rattach body r =
     (case body (r\<lparr>rb := Some (attach (rb r))\<rparr>) of
        (v, n, r1) \<Rightarrow> (v, n, r1\<lparr>rb := (case rb r of None \<Rightarrow> None | Some _ \<Rightarrow> rb r1)\<rparr>))"

definition Encode :: "(string \<Rightarrow> writer) \<Rightarrow> obj \<Rightarrow> writer" where
  "Encode enc o1 = wattach (wseq (enc (ObjectType o1)) (obj_WriteTo o1))"

definition Decode :: "(string \<Rightarrow> bytes reader) \<Rightarrow> registry \<Rightarrow> string reader \<Rightarrow> obj reader" where
  "Decode nread bps dec =
     rbind dec (\<lambda>typ.
       case New bps typ of
         None \<Rightarrow> rfail (ErrStreamCorrupted typ)
       | Some o1 \<Rightarrow> rattach (obj_ReadFrom nread bps o1))"

definition EncodeBytes :: "(string \<Rightarrow> writer) \<Rightarrow> obj \<Rightarrow> bytes res" where
  "EncodeBytes enc o1 =
     (case Encode enc o1 \<lparr>out = [], wb = None\<rparr> of (Some e, n, w) \<Rightarrow> Inl e | (None, n, w) \<Rightarrow> Inr (out w))"

subsection \<open>What the readers do to their stream\<close>

definition into_within :: "(rstate \<Rightarrow> rstate \<Rightarrow> bool) \<Rightarrow> registry \<Rightarrow> into \<Rightarrow> bool" where
  "into_within S bps rec \<longleftrightarrow> (\<forall>t o1. New bps t = Some o1 \<longrightarrow> within S (rec o1))"

abbreviation into_safe :: "registry \<Rightarrow> into \<Rightarrow> bool" where
  "into_safe \<equiv> into_within keeps_depth"

lemmas into_safe_def = into_within_def [of keeps_depth]

context reader_step
begin

lemma in_newReader: "into_within S bps rec \<Longrightarrow> newReader bps rec mi t = Inr R \<Longrightarrow> within S R"
  by (auto simp: newReader_def into_within_def split: option.splits)

lemma in_named [codec_intros]: "into_within S bps rec \<Longrightarrow> within S (readNamed bps rec t)"
  by (auto simp: readNamed_def intro: codec_intros in_newReader split: sum.splits)

lemma in_elem [codec_intros]: "into_within S bps rec \<Longrightarrow> within S (elem_ReadFrom bps rec en)"
  unfolding elem_ReadFrom_def by (auto intro!: codec_intros intro: in_newReader)

lemma in_bpPtr [codec_intros]: "into_within S bps rec \<Longrightarrow> within S (readRuntimeBlueprintPtr bps rec t)"
  unfolding readRuntimeBlueprintPtr_def
  by (auto simp: into_within_def intro!: codec_intros split: option.splits)

lemma in_containers [codec_intros]:
  assumes "into_within S bps rec"
  shows "within S (RuntimeSlice_ReadFrom bps rec en)" "within S (RuntimeArray_ReadFrom bps rec en len)"
    "within S (RuntimeMap_ReadFrom bps rec kind en)" "within S (readPolymorphic bps rec)"
  unfolding RuntimeSlice_ReadFrom_def RuntimeArray_ReadFrom_def RuntimeMap_ReadFrom_def readPolymorphic_def
  using assms by (auto intro!: codec_intros intro: in_newReader split: option.splits sum.splits)

lemma in_readField [codec_intros]: "into_within S bps rec \<Longrightarrow> within S (readField bps rec sp)"
  unfolding readField_def by (auto intro!: codec_intros split: option.splits spec.splits sum.splits)

lemma in_readInto:
  assumes "\<And>n. within S (nread n)"
  shows "within S (readInto nread bps k o1)"
proof (induction k arbitrary: o1)
  case (Suc k)
  then have "into_within S bps (readInto nread bps k)" by (simp add: into_within_def)
  then show ?case using Suc assms by (cases o1) (auto intro!: codec_intros)
qed (simp add: codec_intros)

end

lemmas rsafe_newReader = depth_step.in_newReader
lemmas rsafe_readInto = depth_step.in_readInto
lemmas rsafe_rret = depth_step.in_rret

subsection \<open>The ledger bounds the recursion\<close>

definition rdep :: "rstate \<Rightarrow> nat" where
  "rdep r = (case rb r of None \<Rightarrow> 0 | Some b \<Rightarrow> depth b)"

text \<open>\<open>agree d R R'\<close>: the readers do the same on every stream at depth \<open>d\<close> or below.\<close>

definition agree :: "nat \<Rightarrow> 'a reader \<Rightarrow> 'a reader \<Rightarrow> bool" where
  "agree d R R' \<longleftrightarrow> (\<forall>r. d \<le> rdep r \<longrightarrow> R r = R' r)"

named_theorems agree_intros

lemma agree_refl [agree_intros, simp]: "agree d R R"
  by (simp add: agree_def)

lemma agree_mono: "agree d R R' \<Longrightarrow> d \<le> d' \<Longrightarrow> agree d' R R'"
  by (auto simp: agree_def)

lemma agree_zero: "agree 0 R R' \<longleftrightarrow> R = R'"
  by (auto simp: agree_def)

lemma keeps_rdep: "keeps (rb r) (rb r1) \<Longrightarrow> rdep r1 = rdep r"
  by (auto simp: keeps_def rdep_def split: option.splits)

lemma agree_rbind [agree_intros]:
  assumes "agree d m m'" and "rsafe m" and "\<And>v. agree d (f v) (f' v)"
  shows "agree d (rbind m f) (rbind m' f')"
  unfolding agree_def
proof (intro allI impI)
  fix r
  assume d: "d \<le> rdep r"
  obtain x n r1 where m: "m r = (x, n, r1)" by (cases "m r") auto
  have "d \<le> rdep r1" using keeps_rdep [OF rsafeD [OF assms(2) m]] d by simp
  then show "rbind m f r = rbind m' f' r"
    using assms(1,3) d m by (auto simp: agree_def rbind_def split: sum.splits)
qed

lemma agree_rmap [agree_intros]: "agree d R R' \<Longrightarrow> rsafe R \<Longrightarrow> agree d (rmap f R) (rmap f R')"
  unfolding rmap_def by (intro agree_rbind) auto

lemma agree_rframe:
  assumes "d < MaxBlueprintDepth \<Longrightarrow> agree (Suc d) R R'"
  shows "agree d (rframe R) (rframe R')"
  unfolding agree_def
proof (intro allI impI)
  fix r
  assume d: "d \<le> rdep r"
  obtain e b1 where en: "enter (attach (rb r)) = (e, b1)" by force
  show "rframe R r = rframe R' r"
  proof (cases e)
    case None
    then have "depth b1 = Suc (rdep r)" "rdep r < MaxBlueprintDepth"
      using en by (auto simp: enter_ok_iff rdep_def attach_def fresh_budget_def split: option.splits)
    then have "R (r\<lparr>rb := Some b1\<rparr>) = R' (r\<lparr>rb := Some b1\<rparr>)"
      using assms d by (auto simp: agree_def rdep_def)
    then show ?thesis using en None by (simp add: rframe_def)
  qed (use en in \<open>simp add: rframe_def\<close>)
qed

lemma agree_frame [agree_intros]: "agree d R R' \<Longrightarrow> agree d (rframe R) (rframe R')"
  by (rule agree_rframe) (erule agree_mono, simp)

lemma agree_readAll:
  "list_all2 (agree d) Rs Rs' \<Longrightarrow> (\<And>R. R \<in> set Rs \<Longrightarrow> rsafe R) \<Longrightarrow> agree d (readAll Rs) (readAll Rs')"
proof (induction rule: list_all2_induct)
  case (Cons R Rs R' Rs')
  then have "agree d (rmap (Cons v) (readAll Rs)) (rmap (Cons v) (readAll Rs'))" for v
    by (intro agree_rmap) (auto intro!: codec_intros)
  then show ?case using Cons by (auto intro!: agree_rbind)
qed simp

lemma agree_readElems [agree_intros]:
  "agree d R R' \<Longrightarrow> rsafe R \<Longrightarrow> agree d (readElems fl R k) (readElems fl R' k)"
  by (induction k) (auto intro!: agree_intros codec_intros)

lemma agree_readEntries [agree_intros]:
  "agree d R R' \<Longrightarrow> rsafe R \<Longrightarrow> agree d (readEntries width fl R l m) (readEntries width fl R' l m)"
  by (induction l arbitrary: m) (auto intro!: agree_intros codec_intros)

lemma agree_views [agree_intros]:
  assumes "agree d R R'" and "rsafe R"
  shows "agree d (sliceValue_ReadFrom fl R) (sliceValue_ReadFrom fl R')"
    "agree d (arrayValue_ReadFrom fl R len) (arrayValue_ReadFrom fl R' len)"
    "agree d (ptrValue_ReadFrom skip R) (ptrValue_ReadFrom skip R')"
    "agree d (mapValue_ReadFrom kind fl R) (mapValue_ReadFrom kind fl R')"
  unfolding sliceValue_ReadFrom_def arrayValue_ReadFrom_def ptrValue_ReadFrom_def mapValue_ReadFrom_def
  using assms by (auto intro!: agree_intros codec_intros split: option.splits)

definition into_agree :: "nat \<Rightarrow> registry \<Rightarrow> into \<Rightarrow> into \<Rightarrow> bool" where
  "into_agree d bps rec rec' \<longleftrightarrow> (\<forall>t o1. New bps t = Some o1 \<longrightarrow> agree d (rec o1) (rec' o1))"

definition res_agree :: "nat \<Rightarrow> 'a reader res \<Rightarrow> 'a reader res \<Rightarrow> bool" where
  "res_agree d x y \<longleftrightarrow>
     (case x of Inl e \<Rightarrow> y = Inl e | Inr R \<Rightarrow> (case y of Inl e \<Rightarrow> False | Inr R' \<Rightarrow> agree d R R' \<and> rsafe R))"

lemma res_agree_case:
  "res_agree d x y \<Longrightarrow>
     agree d (case x of Inl e \<Rightarrow> rfail e | Inr R \<Rightarrow> R) (case y of Inl e \<Rightarrow> rfail e | Inr R \<Rightarrow> R)"
  by (auto simp: res_agree_def split: sum.splits)

lemma agree_interface [agree_intros]:
  assumes "\<And>t. res_agree d (new t) (new' t)"
  shows "agree d (interfaceValue_ReadFrom new) (interfaceValue_ReadFrom new')"
proof -
  have "agree d (case new t of Inl e \<Rightarrow> rfail e | Inr R \<Rightarrow> rmap Some R)
      (case new' t of Inl e \<Rightarrow> rfail e | Inr R \<Rightarrow> rmap Some R)" for t
    using assms [of t] by (auto simp: res_agree_def split: sum.splits intro!: agree_rmap)
  then show ?thesis unfolding interfaceValue_ReadFrom_def by (auto intro!: agree_intros codec_intros)
qed

lemma agree_readField:
  assumes ag: "into_agree d bps rec rec'" and safe: "into_safe bps rec"
  shows "agree d (readField bps rec sp) (readField bps rec' sp)"
proof -
  have new: "res_agree d (newReader bps rec mi t) (newReader bps rec' mi t)" for mi t
    using ag safe by (auto simp: newReader_def res_agree_def into_agree_def into_safe_def split: option.splits)
  have named [agree_intros]: "agree d (readNamed bps rec t) (readNamed bps rec' t)" for t
    unfolding readNamed_def by (rule res_agree_case [OF new])
  have poly [agree_intros]: "agree d (readPolymorphic bps rec) (readPolymorphic bps rec')"
    unfolding readPolymorphic_def by (auto intro!: agree_intros codec_intros res_agree_case [OF new])
  have elem [agree_intros]: "agree d (elem_ReadFrom bps rec t) (elem_ReadFrom bps rec' t)" for t
    unfolding elem_ReadFrom_def
    by (auto intro!: agree_intros codec_intros new safe intro: rsafe_newReader [OF safe])
  have ptr [agree_intros]: "agree d (readRuntimeBlueprintPtr bps rec t) (readRuntimeBlueprintPtr bps rec' t)" for t
    unfolding readRuntimeBlueprintPtr_def using ag
    by (auto simp: into_agree_def intro!: agree_intros codec_intros split: option.splits)
  have "agree d (RuntimeSlice_ReadFrom bps rec t) (RuntimeSlice_ReadFrom bps rec' t)"
    "agree d (RuntimeArray_ReadFrom bps rec t l) (RuntimeArray_ReadFrom bps rec' t l)"
    "agree d (RuntimeMap_ReadFrom bps rec k t) (RuntimeMap_ReadFrom bps rec' k t)" for t l k
    unfolding RuntimeSlice_ReadFrom_def RuntimeArray_ReadFrom_def RuntimeMap_ReadFrom_def
    by (auto intro!: agree_intros codec_intros safe elem ptr split: option.splits)
  then show ?thesis unfolding readField_def
    by (auto intro!: agree_intros codec_intros named poly split: option.splits spec.splits sum.splits)
qed

text \<open>What \<open>New\<close> can return: an alias holds a leaf, and no bare container appears.\<close>

definition is_leaf :: "obj \<Rightarrow> bool" where
  "is_leaf o1 = (case o1 of NilObj \<Rightarrow> True | Prim p \<Rightarrow> True | Native n pl \<Rightarrow> True | _ \<Rightarrow> False)"

definition leafy :: "obj \<Rightarrow> bool" where
  "leafy o1 = (case o1 of Struct bp vs \<Rightarrow> True | Alias bp v \<Rightarrow> is_leaf v | _ \<Rightarrow> is_leaf o1)"

lemma is_leaf_newProto [simp]: "is_leaf (newProto e)"
  by (simp add: newProto_def is_leaf_def Let_def split: option.splits)

lemma newWith_leaf:
  assumes "prims_concrete r" and "isAllowedPrimitive n" and "newWith (newAt k) r n = Some (Some x)"
  shows "is_leaf x"
proof -
  have "0 < k" using assms(3) by (cases k) (auto simp: newWith_def)
  then show ?thesis using newWith_prim [OF assms(1,2)] assms(3) by (metis is_leaf_newProto option.inject)
qed

lemma newRuntimeObjectAt_leafy:
  assumes "prims_concrete r" and "newRuntimeObjectAt (newAt k) r b d left = Some (Inr v, l)"
  shows "leafy v"
proof (cases "Kind b = BlueprintKindAlias")
  case True
  then have "validateBlueprint (Some b) = None \<Longrightarrow> isAllowedPrimitive (Underlying b)"
    by (auto simp: validateBlueprint_ok_iff Kind_def split: if_splits)
  then show ?thesis using assms True newWith_leaf
    by (auto simp: newRuntimeObjectAt_def leafy_def split: if_splits prod.splits option.splits bool.splits)
next
  case False
  then show ?thesis using assms(2)
    by (auto simp: newRuntimeObjectAt_def leafy_def split: if_splits prod.splits option.splits bool.splits sum.splits)
qed

lemma newAt_leafy: "prims_concrete r \<Longrightarrow> newAt k r t d left = Some (Inr (Some v), l) \<Longrightarrow> leafy v"
proof (cases k)
  case (Suc k')
  assume c: "prims_concrete r" and n: "newAt k r t d left = Some (Inr (Some v), l)"
  from n Suc obtain e lvl where lk: "lookup_entry r t = Some (e, lvl)" by (auto split: option.splits)
  have "prims_concrete lvl" using lookup_concrete [OF lk c] by simp
  moreover have "leafy (newProto e')" for e'
    by (simp add: newProto_def leafy_def is_leaf_def Let_def split: option.splits)
  ultimately show ?thesis using n Suc lk newRuntimeObjectAt_leafy
    by (auto split: entry.splits if_splits option.splits prod.splits sum.splits)
qed simp

lemma New_leafy: "prims_concrete bps \<Longrightarrow> New bps t = Some o1 \<Longrightarrow> leafy o1"
  by (auto simp: New_def newWith_def split: option.splits prod.splits sum.splits intro: newAt_leafy)

lemma readInto_step:
  assumes c: "prims_concrete bps" and nat: "\<And>n. rsafe (nread n)"
  shows "leafy o1 \<Longrightarrow> d \<le> MaxBlueprintDepth \<Longrightarrow> MaxBlueprintDepth + 3 \<le> k + d \<Longrightarrow>
    agree d (readInto nread bps k o1) (readInto nread bps (Suc k) o1)"
proof (induction k arbitrary: d o1)
  case (Suc k)
  have k: "0 < k" using Suc.prems by simp
  have leaf: "readInto nread bps k v = readInto nread bps (Suc k) v" if "is_leaf v" for v
    using that k by (cases k; cases v) (auto simp: is_leaf_def)
  show ?case
  proof (cases o1)
    case (Struct bp vs)
    have "agree (Suc d) (rmap (Struct bp) (readAll (map (\<lambda>f. readField bps (readInto nread bps k) (Spec f)) (Fields bp))))
        (rmap (Struct bp) (readAll (map (\<lambda>f. readField bps (readInto nread bps (Suc k)) (Spec f)) (Fields bp))))"
      if "d < MaxBlueprintDepth"
    proof -
      have "into_agree (Suc d) bps (readInto nread bps k) (readInto nread bps (Suc k))"
        unfolding into_agree_def using Suc.IH [OF New_leafy [OF c]] that Suc.prems by auto
      moreover have safe: "into_safe bps (readInto nread bps k)"
        using rsafe_readInto [OF nat] by (simp add: into_safe_def)
      ultimately show ?thesis
        by (intro agree_rmap agree_readAll)
          (auto simp: list_all2_map1 list_all2_map2 intro!: list.rel_refl_strong agree_readField codec_intros)
    qed
    then show ?thesis using Struct by (auto intro: agree_rframe)
  next
    case (Alias bp v)
    then have "readInto nread bps k v = readInto nread bps (Suc k) v" using Suc.prems leaf by (simp add: leafy_def)
    then show ?thesis unfolding Alias readInto.simps(2) [of _ _ k] readInto.simps(2) [of _ _ "Suc k"] by simp
  qed (use Suc.prems in \<open>auto simp: leafy_def is_leaf_def\<close>)
qed simp

lemma readInto_fuel:
  assumes "prims_concrete bps" and "\<And>n. rsafe (nread n)" and "leafy o1" and "readFuel \<le> k"
  shows "readInto nread bps k o1 = obj_ReadFrom nread bps o1"
  using assms(4)
proof (induction k rule: dec_induct)
  case (step k)
  have "agree 0 (readInto nread bps k o1) (readInto nread bps (Suc k) o1)"
    by (rule readInto_step) (use assms step in \<open>auto simp: readFuel_def\<close>)
  then show ?case using step by (simp add: agree_zero)
qed (simp add: obj_ReadFrom_def)

subsection \<open>Well-formed objects\<close>

text \<open>
  \<open>like z v\<close>: reading into the fresh object \<open>z\<close> can produce \<open>v\<close>.  \<open>obj_ok\<close>: every value inside fits
  the schema that will read it back; \<open>nok\<close> says which payloads a compile-time type has.
  Maps are left out: their values are staged on naked writers (see \<open>mapValue_WriteTo\<close>), so
  their round trip has a rule of its own in \<open>Objectify\<close>.
\<close>

fun like :: "obj \<Rightarrow> obj \<Rightarrow> bool" where
  "like NilObj NilObj = True"
| "like (Prim p) (Prim q) \<longleftrightarrow> prim_type p = prim_type q"
| "like (Native n x) (Native m y) \<longleftrightarrow> n = m"
| "like (Struct b vs) (Struct c ws) \<longleftrightarrow> b = c"
| "like (Alias b v) (Alias c w) \<longleftrightarrow> b = c \<and> like v w"
| "like _ _ = False"

definition named_ok :: "registry \<Rightarrow> string \<Rightarrow> obj \<Rightarrow> bool" where
  "named_ok bps t v = (case New bps t of None \<Rightarrow> False | Some z \<Rightarrow> like z v)"

definition field_ok :: "registry \<Rightarrow> spec option \<Rightarrow> obj \<Rightarrow> bool" where
  "field_ok bps sp v =
     (case sp of
        None \<Rightarrow> False
      | Some (PrimitiveSpec p) \<Rightarrow> named_ok bps p v
      | Some (RefSpec t) \<Rightarrow> named_ok bps t v
      | Some (SliceSpec t) \<Rightarrow> (case v of RSlice en vs \<Rightarrow> en = t \<and> resolveElemType bps t = None | _ \<Rightarrow> False)
      | Some (ArraySpec t n) \<Rightarrow>
          (case v of RArray en vs \<Rightarrow> en = t \<and> length vs = unat n \<and> resolveElemType bps t = None | _ \<Rightarrow> False)
      | Some (MapSpec k t) \<Rightarrow> False
      | Some (PtrSpec t) \<Rightarrow> v = NilObj \<or> named_ok bps t v \<and> t \<noteq> nilTypeName
      | Some ObjectSpec \<Rightarrow> v = NilObj \<or> named_ok bps (ObjectType v) v \<and> ObjectType v \<noteq> nilTypeName)"

definition elem_ok :: "registry \<Rightarrow> string \<Rightarrow> obj \<Rightarrow> bool" where
  "elem_ok bps en v \<longleftrightarrow>
     v = Absent \<or>
     (if en = [] then named_ok bps (ObjectType v) v \<and> ObjectType v \<noteq> nilTypeName
      else named_ok bps en v \<and> (isRuntimeBlueprintType bps en \<longrightarrow> is_runtime v))"

fun obj_ok :: "(string \<Rightarrow> bytes \<Rightarrow> bool) \<Rightarrow> registry \<Rightarrow> obj \<Rightarrow> bool" where
  "obj_ok nok bps Absent = True"
| "obj_ok nok bps NilObj = True"
| "obj_ok nok bps (Prim p) = prim_ok p"
| "obj_ok nok bps (Native n pl) = nok n pl"
| "obj_ok nok bps (Struct bp vs) \<longleftrightarrow>
     list_all2 (\<lambda>f v. field_ok bps (Spec f) v) (Fields bp) vs \<and> (\<forall>v \<in> set vs. obj_ok nok bps v)"
| "obj_ok nok bps (Alias bp v) = obj_ok nok bps v"
| "obj_ok nok bps (RSlice en vs) \<longleftrightarrow>
     length vs < 2 ^ 32 \<and> (\<forall>v \<in> set vs. elem_ok bps en v \<and> obj_ok nok bps v)"
| "obj_ok nok bps (RArray en vs) \<longleftrightarrow> (\<forall>v \<in> set vs. elem_ok bps en v \<and> obj_ok nok bps v)"
| "obj_ok nok bps (RMap kind vn es) = False"

fun height :: "obj \<Rightarrow> nat" where
  "height (Struct bp vs) = Suc (foldr max (map height vs) 0)"
| "height (Alias bp v) = Suc (height v)"
| "height (RSlice en vs) = Suc (foldr max (map height vs) 0)"
| "height (RArray en vs) = Suc (foldr max (map height vs) 0)"
| "height (RMap kind vn es) = Suc (foldr max (map (\<lambda>(k, v). height v) es) 0)"
| "height _ = 1"

lemma height_member: "v \<in> set vs \<Longrightarrow> height v \<le> foldr max (map height vs) 0"
  by (induction vs) (auto simp: le_max_iff_disj)

subsection \<open>Round trip\<close>

definition reads_like :: "registry \<Rightarrow> into \<Rightarrow> obj \<Rightarrow> bool" where
  "reads_like bps rec v \<longleftrightarrow> (\<forall>z. like z v \<longrightarrow> reads_back (obj_WriteTo v) (rec z) v)"

lemma rb_named:
  "reads_like bps rec v \<Longrightarrow> named_ok bps t v \<Longrightarrow> reads_back (obj_WriteTo v) (readNamed bps rec t) v"
  by (auto simp: readNamed_def newReader_def named_ok_def reads_like_def split: option.splits)

lemma named_not_absent: "named_ok bps t v \<Longrightarrow> v \<noteq> Absent"
  by (auto simp: named_ok_def split: option.splits)

lemma rb_flag: "reads_back (Bool_WriteTo b) (readFixed :: 8 word reader) (if b then 1 else 0)"
proof -
  have "Bool_WriteTo b = writeFixed (if b then 1 else 0 :: 8 word)"
    by (simp add: Bool_WriteTo_def writeFixed_def fun_eq_iff split: prod.splits option.splits)
  then show ?thesis by (simp add: rb_fixed)
qed

lemma rb_elem:
  assumes rec: "reads_like bps rec v" and ok: "elem_ok bps en v"
  shows "reads_back (elem_WriteTo en v (obj_WriteTo v)) (elem_ReadFrom bps rec en) v"
proof (cases "v = Absent")
  case True
  then show ?thesis
    using rb_map [OF rb_interface_nil, of slot] rb_map [OF rb_ptr_nil, of slot]
    by (auto simp: elem_WriteTo_def elem_ReadFrom_def isPtrNil_def slot_def)
next
  case False
  show ?thesis
  proof (cases "en = []")
    case True
    then have n: "named_ok bps (ObjectType v) v" "ObjectType v \<noteq> nilTypeName" using ok False by (auto simp: elem_ok_def)
    then obtain z where z: "New bps (ObjectType v) = Some z" "like z v" by (auto simp: named_ok_def split: option.splits)
    have "reads_back (ptrValue_WriteTo True (Some (obj_WriteTo v))) (rec z) v"
      using rec z(2) by (simp add: ptrValue_WriteTo_def reads_like_def rb_wframe)
    then have "reads_back (interfaceValue_WriteTo (Some (ObjectType v, ptrValue_WriteTo True (Some (obj_WriteTo v)))))
        (interfaceValue_ReadFrom (newReader bps rec ErrStreamCorrupted)) (Some v)"
      by (intro rb_interface) (use z n in \<open>auto simp: newReader_def\<close>)
    from rb_map [OF this, of slot] show ?thesis using True False n
      by (auto simp: elem_WriteTo_def elem_ReadFrom_def isPtrNil_def slot_def)
  next
    case ne: False
    then have "reads_back (obj_WriteTo v) (readNamed bps rec en) v"
      using ok False rec by (auto simp: elem_ok_def intro: rb_named)
    from rb_map [OF rb_ptr [OF this, of False], of slot] show ?thesis using ne False
      by (simp add: elem_WriteTo_def elem_ReadFrom_def slot_def)
  qed
qed

lemma rb_bpPtr:
  assumes rec: "reads_like bps rec v" and ok: "elem_ok bps en v" and rt: "isRuntimeBlueprintType bps en"
  shows "reads_back (elem_WriteTo en v (obj_WriteTo v)) (readRuntimeBlueprintPtr bps rec en) v"
proof -
  have en: "en \<noteq> []" using rt by (simp add: isRuntimeBlueprintType_def)
  show ?thesis
  proof (cases "v = Absent")
    case True
    have "reads_back (wseq (writeFixed (0 :: 8 word)) wskip) (readRuntimeBlueprintPtr bps rec en) Absent"
      unfolding readRuntimeBlueprintPtr_def by (rule rb_seq [OF rb_fixed]) (simp_all add: rb_skip)
    then show ?thesis using True en by (simp add: elem_WriteTo_def ptrValue_WriteTo_def rb_wframe)
  next
    case False
    then obtain z where z: "New bps en = Some z" "like z v" and "is_runtime v"
      using ok en rt by (auto simp: elem_ok_def named_ok_def split: option.splits)
    then have "is_runtime z" by (cases z; cases v) (auto simp: is_runtime_def)
    then have "reads_back (wseq (writeFixed (1 :: 8 word)) (obj_WriteTo v)) (readRuntimeBlueprintPtr bps rec en) v"
      unfolding readRuntimeBlueprintPtr_def
      by (intro rb_seq [OF rb_fixed]) (use rec z in \<open>simp_all add: reads_like_def\<close>)
    then show ?thesis using False en by (simp add: elem_WriteTo_def ptrValue_WriteTo_def rb_wframe)
  qed
qed

lemma rb_slice_obj:
  assumes el: "\<And>v. v \<in> set vs \<Longrightarrow> elem_ok bps en v \<and> reads_like bps rec v" and len: "length vs < 2 ^ 32"
  shows "reads_back (obj_WriteTo (RSlice en vs)) (RuntimeSlice_ReadFrom bps rec en) (RSlice en vs)"
proof -
  let ?ws = "map (\<lambda>v. elem_WriteTo en v (obj_WriteTo v)) vs"
  have "reads_back (sliceValue_WriteTo False ?ws)
      (if isRuntimeBlueprintType bps en
       then rbind (readFixed :: 32 word reader) (\<lambda>l. readElems False (readRuntimeBlueprintPtr bps rec en) (unat l))
       else sliceValue_ReadFrom False (elem_ReadFrom bps rec en)) vs"
  proof (cases "isRuntimeBlueprintType bps en")
    case True
    have "list_all2 (\<lambda>W v. reads_back W (readRuntimeBlueprintPtr bps rec en) v) ?ws vs"
      using el True by (auto simp: list_all2_map1 intro!: list.rel_refl_strong rb_bpPtr)
    from rb_elems [OF this, of False] len
    have "reads_back (wseq (writeFixed (of_nat (length ?ws) :: 32 word)) (writeElems False ?ws))
        (rbind (readFixed :: 32 word reader) (\<lambda>l. readElems False (readRuntimeBlueprintPtr bps rec en) (unat l))) vs"
      by (intro rb_seq [OF rb_fixed]) (simp_all add: unat_of_nat_small)
    then show ?thesis using True by (simp add: sliceValue_WriteTo_def rb_wframe)
  next
    case False
    have "reads_back (sliceValue_WriteTo False ?ws) (sliceValue_ReadFrom False (elem_ReadFrom bps rec en)) vs"
      by (rule rb_slice) (use el len in \<open>auto simp: list_all2_map1 intro!: list.rel_refl_strong rb_elem\<close>)
    then show ?thesis using False by simp
  qed
  from rb_map [OF this, of "RSlice en"] show ?thesis by (simp add: RuntimeSlice_ReadFrom_def)
qed

lemma rb_array_obj:
  assumes el: "\<And>v. v \<in> set vs \<Longrightarrow> elem_ok bps en v \<and> reads_like bps rec v"
  shows "reads_back (obj_WriteTo (RArray en vs)) (RuntimeArray_ReadFrom bps rec en (length vs)) (RArray en vs)"
proof -
  let ?ws = "map (\<lambda>v. elem_WriteTo en v (obj_WriteTo v)) vs"
  have "reads_back (arrayValue_WriteTo False ?ws)
      (if isRuntimeBlueprintType bps en then readElems False (readRuntimeBlueprintPtr bps rec en) (length vs)
       else arrayValue_ReadFrom False (elem_ReadFrom bps rec en) (length vs)) vs"
  proof (cases "isRuntimeBlueprintType bps en")
    case True
    have "list_all2 (\<lambda>W v. reads_back W (readRuntimeBlueprintPtr bps rec en) v) ?ws vs"
      using el True by (auto simp: list_all2_map1 intro!: list.rel_refl_strong rb_bpPtr)
    from rb_elems [OF this, of False] show ?thesis using True by (simp add: arrayValue_WriteTo_def rb_wframe)
  next
    case False
    have "reads_back (arrayValue_WriteTo False ?ws) (arrayValue_ReadFrom False (elem_ReadFrom bps rec en) (length vs)) vs"
      by (rule rb_array) (use el in \<open>auto simp: list_all2_map1 intro!: list.rel_refl_strong rb_elem\<close>)
    then show ?thesis using False by simp
  qed
  from rb_map [OF this, of "RArray en"] show ?thesis by (simp add: RuntimeArray_ReadFrom_def)
qed

text \<open>The values inside a container or a PtrSpec slot that a field writes, one level down.\<close>

definition below_ok :: "registry \<Rightarrow> into \<Rightarrow> obj \<Rightarrow> bool" where
  "below_ok bps rec v =
     (case v of
        RSlice en vs \<Rightarrow> length vs < 2 ^ 32 \<and> (\<forall>x \<in> set vs. elem_ok bps en x \<and> reads_like bps rec x)
      | RArray en vs \<Rightarrow> (\<forall>x \<in> set vs. elem_ok bps en x \<and> reads_like bps rec x)
      | _ \<Rightarrow> True)"

lemma rb_field:
  assumes ok: "field_ok bps sp v" and rec: "reads_like bps rec v" and below: "below_ok bps rec v"
  shows "reads_back (writeField sp v (obj_WriteTo v)) (readField bps rec sp) v"
proof (cases sp)
  case (Some s)
  show ?thesis
  proof (cases s)
    case (PrimitiveSpec p)
    then show ?thesis using Some ok rb_named [OF rec] named_not_absent by (auto simp: writeField_def readField_def field_ok_def)
  next
    case (RefSpec t)
    then show ?thesis using Some ok rb_named [OF rec] named_not_absent by (auto simp: writeField_def readField_def field_ok_def)
  next
    case (SliceSpec t)
    then obtain vs where "v = RSlice t vs" "resolveElemType bps t = None"
      using Some ok by (auto simp: field_ok_def split: obj.splits)
    then show ?thesis using Some SliceSpec below
      by (auto simp: writeField_def readField_def newRuntimeSliceWith_def below_ok_def simp del: obj_WriteTo.simps intro!: rb_slice_obj)
  next
    case (ArraySpec t n)
    then obtain vs where "v = RArray t vs" "resolveElemType bps t = None" "length vs = unat n"
      using Some ok by (auto simp: field_ok_def split: obj.splits)
    then show ?thesis using Some ArraySpec below rb_array_obj [of vs bps t rec]
      by (auto simp: writeField_def readField_def newRuntimeArrayWith_def below_ok_def simp del: obj_WriteTo.simps)
  next
    case (PtrSpec t)
    show ?thesis
    proof (cases "v = NilObj")
      case True
      have "reads_back (wseq (Bool_WriteTo False) wskip) (readField bps rec sp) NilObj"
        using Some PtrSpec
        by (auto simp: readField_def uint_codec_defs simp del: wseq_skip
            intro!: rb_seq [OF rb_flag [of False, simplified]] rb_skip)
      then show ?thesis using Some PtrSpec True by (simp add: writeField_def isPtrNil_def)
    next
      case False
      then have "reads_back (obj_WriteTo v) (readNamed bps rec t) v" "v \<noteq> Absent"
        using Some PtrSpec ok rb_named [OF rec] named_not_absent by (auto simp: field_ok_def)
      then show ?thesis using Some PtrSpec False
        by (auto simp: writeField_def readField_def isPtrNil_def uint_codec_defs
            intro!: rb_seq [OF rb_flag [of True, simplified]])
    qed
  next
    case ObjectSpec
    show ?thesis
    proof (cases "v = NilObj")
      case True
      have "reads_back (wseq (ObjectType_WriteTo []) wskip) (readPolymorphic bps rec) NilObj"
        unfolding readPolymorphic_def by (rule rb_seq [OF object_type.round_trip]) (simp_all add: rb_skip)
      then show ?thesis using Some ObjectSpec True by (simp add: writeField_def readField_def isPtrNil_def)
    next
      case False
      then have n: "named_ok bps (ObjectType v) v" "ObjectType v \<noteq> nilTypeName" "v \<noteq> Absent"
        using Some ObjectSpec ok named_not_absent by (auto simp: field_ok_def)
      have "reads_back (wseq (ObjectType_WriteTo (ObjectType v)) (obj_WriteTo v)) (readPolymorphic bps rec) v" if "ObjectType v \<noteq> []"
        unfolding readPolymorphic_def
        by (rule rb_seq [OF object_type.round_trip])
          (use n rec that in \<open>auto simp: newReader_def named_ok_def reads_like_def split: option.splits\<close>)
      moreover have "reads_back (wseq (wfail e) W) R v" for e W R
        by (rule reads_backI) (simp add: wseq_def wfail_def)
      ultimately show ?thesis using Some ObjectSpec False n
        by (simp add: writeField_def readField_def isPtrNil_def ShortTypeEncoder_def)
    qed
  qed (use Some ok in \<open>auto simp: field_ok_def\<close>)
qed (use ok in \<open>simp add: field_ok_def\<close>)

lemma rb_fields:
  assumes "list_all2 (\<lambda>f v. field_ok bps (Spec f) v) fs vs"
    and "\<And>v. v \<in> set vs \<Longrightarrow> reads_like bps rec v \<and> below_ok bps rec v"
  shows "reads_back (writeAll (map (\<lambda>(f, v, W). writeField (Spec f) v W) (zip fs (map (\<lambda>v. (v, obj_WriteTo v)) vs))))
    (readAll (map (\<lambda>f. readField bps rec (Spec f)) fs)) vs"
  using assms
proof (induction rule: list_all2_induct)
  case (Cons f fs v vs)
  have 1: "reads_back (writeField (Spec f) v (obj_WriteTo v)) (readField bps rec (Spec f)) v"
    using Cons by (intro rb_field) auto
  have "reads_back (wseq (writeField (Spec f) v (obj_WriteTo v))
      (writeAll (map (\<lambda>(f, v, W). writeField (Spec f) v W) (zip fs (map (\<lambda>v. (v, obj_WriteTo v)) vs)))))
      (rbind (readField bps rec (Spec f)) (\<lambda>v. rmap (Cons v) (readAll (map (\<lambda>f. readField bps rec (Spec f)) fs)))) (v # vs)"
    by (rule rb_seq [OF 1], rule rb_map) (use Cons in auto)
  then show ?case by simp
qed (simp add: rb_skip)

lemma reads_like_readInto:
  assumes native: "\<And>n p. nok n p \<Longrightarrow> reads_back (Write p) (nread n) p"
  shows "obj_ok nok bps v \<Longrightarrow> height v \<le> k \<Longrightarrow> reads_like bps (readInto nread bps k) v"
proof (induction k arbitrary: v)
  case 0
  then show ?case by (cases v) auto
next
  case (Suc k)
  show ?case unfolding reads_like_def
  proof (intro allI impI)
    fix z
    assume lk: "like z v"
    show "reads_back (obj_WriteTo v) (readInto nread bps (Suc k) z) v"
    proof (cases v)
      case NilObj
      then show ?thesis using lk by (cases z) (auto simp: rb_skip)
    next
      case (Prim p)
      then obtain q where "z = Prim q" "prim_type q = prim_type p" using lk by (cases z) auto
      then show ?thesis using Prim Suc.prems(1) rb_map [OF rb_prim [of p], of Prim] prim_ReadFrom_cong [of q p] by simp
    next
      case (Native n p)
      then obtain q where "z = Native n q" using lk by (cases z) auto
      then show ?thesis using Native Suc.prems(1) rb_map [OF native [of n p], of "Native n"] by simp
    next
      case (Struct bp vs)
      then obtain zs where z: "z = Struct bp zs" using lk by (cases z) auto
      have sub: "reads_like bps (readInto nread bps k) x \<and> below_ok bps (readInto nread bps k) x" if x: "x \<in> set vs" for x
      proof -
        have ok: "obj_ok nok bps x" and h: "height x \<le> k"
          using Suc.prems Struct x height_member [OF x] by auto
        have el: "obj_ok nok bps y \<Longrightarrow> height y \<le> height x \<Longrightarrow> reads_like bps (readInto nread bps k) y" for y
          using Suc.IH h by force
        have "below_ok bps (readInto nread bps k) x"
        proof (cases x)
          case (RSlice en ys)
          then show ?thesis using ok height_member [of _ ys] by (auto simp: below_ok_def intro!: el) force
        next
          case (RArray en ys)
          then show ?thesis using ok height_member [of _ ys] by (auto simp: below_ok_def intro!: el) force
        qed (auto simp: below_ok_def)
        then show ?thesis using Suc.IH [OF ok h] by simp
      qed
      have "list_all2 (\<lambda>f v. field_ok bps (Spec f) v) (Fields bp) vs" using Suc.prems(1) Struct by simp
      from rb_frame [OF rb_map [OF rb_fields [OF this sub], of "Struct bp"]]
      show ?thesis using Struct z by simp
    next
      case (Alias bp w)
      then obtain y where "z = Alias bp y" "like y w" using lk by (cases z) auto
      moreover have "reads_like bps (readInto nread bps k) w" using Suc Alias by simp
      ultimately show ?thesis using Alias rb_map [of _ _ w "Alias bp"] by (simp add: reads_like_def)
    qed (use lk in \<open>cases z; auto\<close>)+
  qed
qed

lemma rb_obj:
  assumes native: "\<And>n p. nok n p \<Longrightarrow> reads_back (Write p) (nread n) p" and safe: "\<And>n. rsafe (nread n)"
    and c: "prims_concrete bps" and new: "New bps t = Some z" and lk: "like z v" and ok: "obj_ok nok bps v"
  shows "reads_back (obj_WriteTo v) (obj_ReadFrom nread bps z) v"
proof -
  have "reads_like bps (readInto nread bps (max (height v) readFuel)) v"
    by (rule reads_like_readInto [OF native ok]) auto
  then have "reads_back (obj_WriteTo v) (readInto nread bps (max (height v) readFuel) z) v"
    using lk by (simp add: reads_like_def)
  then show ?thesis using readInto_fuel [OF c safe New_leafy [OF c new]] by simp
qed

text \<open>\<^verbatim>\<open>Decode\<close> after \<^verbatim>\<open>Encode\<close> on a naked stream, whatever follows the object.\<close>

lemma decode_encode:
  assumes native: "\<And>n p. nok n p \<Longrightarrow> reads_back (Write p) (nread n) p" and safe: "\<And>n. rsafe (nread n)"
    and c: "prims_concrete bps" and named: "named_ok bps (ObjectType v) v" and ok: "obj_ok nok bps v"
    and tag: "reads_back (enc (ObjectType v)) dec (ObjectType v)"
    and encoded: "EncodeBytes enc v = Inr bs"
  shows "Decode nread bps dec \<lparr>inp = bs @ rest, rb = None\<rparr> = (Inr v, length bs, \<lparr>inp = rest, rb = None\<rparr>)"
proof -
  obtain z where z: "New bps (ObjectType v) = Some z" "like z v" using named by (auto simp: named_ok_def split: option.splits)
  let ?w0 = "\<lparr>out = [], wb = Some fresh_budget\<rparr>"
  obtain n w' where "wseq (enc (ObjectType v)) (obj_WriteTo v) ?w0 = (None, n, w')" and bs: "bs = out w'"
    using encoded by (auto simp: EncodeBytes_def Encode_def wattach_def attach_def split: prod.splits option.splits)
  then obtain n1 w1 n2 where a: "enc (ObjectType v) ?w0 = (None, n1, w1)" and b: "obj_WriteTo v w1 = (None, n2, w')"
    by (auto simp: wseq_def split: prod.splits option.splits)
  from tag a obtain bs1 where k1: "keeps (Some fresh_budget) (wb w1)" and o1: "out w1 = bs1" and l1: "length bs1 = n1"
    and r1: "\<And>rest ob. led_le ob (Some fresh_budget) \<Longrightarrow> \<exists>ob'. dec \<lparr>inp = bs1 @ rest, rb = ob\<rparr> =
      (Inr (ObjectType v), n1, \<lparr>inp = rest, rb = ob'\<rparr>) \<and> keeps ob ob' \<and> led_le ob' (wb w1)"
    by (rule reads_backE) auto
  from rb_obj [OF native safe c z(1,2) ok] b obtain bs2 where o2: "out w' = bs1 @ bs2" and l2: "length bs2 = n2"
    and r2: "\<And>rest ob. led_le ob (wb w1) \<Longrightarrow> \<exists>ob'. obj_ReadFrom nread bps z \<lparr>inp = bs2 @ rest, rb = ob\<rparr> =
      (Inr v, n2, \<lparr>inp = rest, rb = ob'\<rparr>) \<and> keeps ob ob' \<and> led_le ob' (wb w')"
    by (rule reads_backE) (auto simp: o1)
  have d: "dec \<lparr>inp = bs1 @ bs2 @ rest, rb = None\<rparr> = (Inr (ObjectType v), n1, \<lparr>inp = bs2 @ rest, rb = None\<rparr>)"
    using r1 [of None "bs2 @ rest"] by (auto simp: keeps_def)
  have "led_le (Some fresh_budget) (wb w1)"
    using k1 by (auto simp: keeps_def led_le_def fresh_budget_def split: option.splits)
  from r2 [OF this, of rest] obtain ob' where
    "obj_ReadFrom nread bps z \<lparr>inp = bs2 @ rest, rb = Some fresh_budget\<rparr> = (Inr v, n2, \<lparr>inp = rest, rb = ob'\<rparr>)" by blast
  with d show ?thesis using z(1) bs o2 l1 l2
    by (simp add: Decode_def rbind_def rattach_def attach_def)
qed

end
