(* ===== verification/Sample.thy ===== *)
theory Sample
  imports Runtime_Codec
begin

text \<open>
  A small concrete world: a registry with the \<^verbatim>\<open>uint8\<close> prototype and one runtime Blueprint with a
  primitive, a slice and an optional field, and an object of it with its encoding.  The
  witnesses of the development evaluate on it.
\<close>

definition demo :: blueprint where
  "demo = \<lparr>Type = ''demo'', Fields = [\<lparr>Name = ''a'', Spec = Some (PrimitiveSpec ''uint8'')\<rparr>,
     \<lparr>Name = ''b'', Spec = Some (SliceSpec ''uint8'')\<rparr>, \<lparr>Name = ''c'', Spec = Some (PtrSpec ''uint8'')\<rparr>],
     Underlying = []\<rparr>"

definition gt_Uint8 :: gotype where
  "gt_Uint8 = GoType (SBasic Uint8) ''astral.Uint8'' (Some ''uint8'') (Some ''uint8'') None None"

definition sampleRegistry :: registry where
  "sampleRegistry = Blueprints [(''uint8'', ProtoEntry gt_Uint8), (''demo'', BlueprintEntry demo)] None"

definition sampleObject :: obj where
  "sampleObject = Struct demo [Prim (PUint8 7), RSlice ''uint8'' [Prim (PUint8 1), Absent], NilObj]"

definition sampleBytes :: bytes where
  "sampleBytes = [4, 100, 101, 109, 111, 7, 0, 0, 0, 2, 1, 1, 0, 0]"

lemma sample_lookup:
  "lookup_entry sampleRegistry ''uint8'' = Some (ProtoEntry gt_Uint8, sampleRegistry)"
  "lookup_entry sampleRegistry ''demo'' = Some (BlueprintEntry demo, sampleRegistry)"
  by code_simp+

lemma sample_uint8: "New sampleRegistry ''uint8'' = Some (Prim (PUint8 0))"
proof -
  have "newProto (ProtoEntry gt_Uint8) = Prim (PUint8 0)" by code_simp
  moreover have "classify ''uint8'' (ProtoEntry gt_Uint8) \<noteq> kindRuntimeBP" by code_simp
  ultimately show ?thesis using New_proto [OF sample_lookup(1)] by simp
qed

lemma demo_valid: "validateBlueprint (Some demo) = None"
  by code_simp

lemma demo_sel [simp]:
  "Type demo = ''demo''" "Underlying demo = []"
  "Fields demo = [\<lparr>Name = ''a'', Spec = Some (PrimitiveSpec ''uint8'')\<rparr>,
     \<lparr>Name = ''b'', Spec = Some (SliceSpec ''uint8'')\<rparr>, \<lparr>Name = ''c'', Spec = Some (PtrSpec ''uint8'')\<rparr>]"
  by (simp_all add: demo_def)

lemma sample_demo: "New sampleRegistry ''demo'' = Some (Struct demo [Prim (PUint8 0), RSlice ''uint8'' [], NilObj])"
proof (rule New_runtime [OF sample_lookup(2)])
  have p: "newProto (ProtoEntry gt_Uint8) = Prim (PUint8 0)" by code_simp
  have "classify ''uint8'' (ProtoEntry gt_Uint8) \<noteq> kindRuntimeBP" by code_simp
  from newWith_proto [OF sample_lookup(1) this]
  show "newRuntimeObjectAt (newAt (Suc (Suc MaxBlueprintDepth))) sampleRegistry demo 0 newBuildBudget =
      Some (Inr (Struct demo [Prim (PUint8 0), RSlice ''uint8'' [], NilObj]), 4095)"
    using demo_valid
    by (simp add: newRuntimeObjectAt_def take_node_def newBuildBudget_def MaxBlueprintNodes_def Kind_def
        specZeroAtErr_def newRuntimeSliceWith_def resolveElemType_def sample_lookup p slot_def)
qed simp

lemma sample_concrete: "prims_concrete sampleRegistry"
  by code_simp

lemma sample_resolve: "resolveElemType sampleRegistry ''uint8'' = None"
  by (simp add: resolveElemType_def sample_lookup)

lemma sample_not_runtime: "\<not> isRuntimeBlueprintType sampleRegistry ''uint8''"
  by code_simp

lemma sample_ok:
  "named_ok sampleRegistry (ObjectType sampleObject) sampleObject"
  "obj_ok (\<lambda>n p. p = []) sampleRegistry sampleObject"
  by (simp_all add: sampleObject_def named_ok_def sample_demo sample_uint8 field_ok_def elem_ok_def
      sample_resolve sample_not_runtime)

lemma nat_be_numeral: "nat_be (numeral k) v = nat_be (pred_numeral k) (v div 256) @ [of_nat v]"
  using nat_be.simps(2) [of "pred_numeral k" v] by (simp only: numeral_eq_Suc [symmetric])

lemmas write_eval =
  EncodeBytes_def Encode_def wattach_def attach_def fresh_budget_def wseq_def ShortTypeEncoder_def
  ObjectType_WriteTo_def String8_WriteTo_def String16_WriteTo_def Uint8_WriteTo_def Uint16_WriteTo_def writeFixed_def
  Write_def charge_def MaxCodecBytes_def str_bytes_def wframe_def enter_def MaxBlueprintDepth_def MaxCodecFrames_def
  writeField_def sliceValue_WriteTo_def writeElems_def elem_WriteTo_def ptrValue_WriteTo_def wskip_def
  detach_def exit_def writePresence_def Bool_WriteTo_def isPtrNil_def nat_be_numeral

lemma sample_encoded: "EncodeBytes ShortTypeEncoder sampleObject = Inr sampleBytes"
  unfolding sampleObject_def sampleBytes_def demo_def by (simp add: write_eval)

lemma sample_native:
  "rsafe (rret [] :: bytes reader)" "p = [] \<Longrightarrow> reads_back (Write p) (rret []) p"
  by (simp_all add: rsafe_rret rb_skip)

end
