(* ===== verification/Codec_Room.thy ===== *)
theory Codec_Room
  imports Runtime_Codec
begin

text \<open>
  Round trips that do not rest on the writer's ledger.  The values of a map are staged on writers
  with ledgers of their own, so a writer that succeeds says nothing of the nesting the reader will
  meet inside a map.  \<open>reads_room D F W R v\<close> asks the reader's ledger for that room instead: \<open>D\<close> levels,
  \<open>F\<close> frames and as many bytes as were written.  With it the round trip of runtime objects covers
  maps, and compile-time types that open frames (\<^verbatim>\<open>src/astral/map_value.go\<close>, \<^verbatim>\<open>runtime_map.go\<close>,
  \<^verbatim>\<open>depth.go\<close>).
\<close>

subsection \<open>Room in a ledger\<close>

definition room_for :: "nat \<Rightarrow> nat \<Rightarrow> nat \<Rightarrow> budget \<Rightarrow> bool" where
  "room_for D F n b \<longleftrightarrow>
     depth b + D \<le> MaxBlueprintDepth \<and> frames b + F \<le> MaxCodecFrames \<and> nbytes b + n \<le> MaxCodecBytes"

definition charged_at_most :: "nat \<Rightarrow> nat \<Rightarrow> budget \<Rightarrow> budget \<Rightarrow> bool" where
  "charged_at_most F n b b' \<longleftrightarrow> depth b' = depth b \<and> frames b' \<le> frames b + F \<and> nbytes b' \<le> nbytes b + n"

definition reads_room :: "nat \<Rightarrow> nat \<Rightarrow> writer \<Rightarrow> 'a reader \<Rightarrow> 'a \<Rightarrow> bool" where
  "reads_room D F W R v \<longleftrightarrow>
     (\<forall>w n w'. W w = (None, n, w') \<longrightarrow>
        (\<exists>bs. out w' = out w @ bs \<and> length bs = n \<and>
           (\<forall>rest b. room_for D F n b \<longrightarrow>
              (\<exists>b'. R \<lparr>inp = bs @ rest, rb = Some b\<rparr> = (Inr v, n, \<lparr>inp = rest, rb = Some b'\<rparr>) \<and> charged_at_most F n b b'))))"

lemma reads_roomI:
  assumes "\<And>w n w'. W w = (None, n, w') \<Longrightarrow>
    \<exists>bs. out w' = out w @ bs \<and> length bs = n \<and>
      (\<forall>rest b. room_for D F n b \<longrightarrow>
         (\<exists>b'. R \<lparr>inp = bs @ rest, rb = Some b\<rparr> = (Inr v, n, \<lparr>inp = rest, rb = Some b'\<rparr>) \<and> charged_at_most F n b b'))"
  shows "reads_room D F W R v"
  using assms unfolding reads_room_def by blast

lemma reads_roomE:
  assumes "reads_room D F W R v" and "W w = (None, n, w')"
  obtains bs where "out w' = out w @ bs" and "length bs = n"
    and "\<And>rest b. room_for D F n b \<Longrightarrow>
      \<exists>b'. R \<lparr>inp = bs @ rest, rb = Some b\<rparr> = (Inr v, n, \<lparr>inp = rest, rb = Some b'\<rparr>) \<and> charged_at_most F n b b'"
  using assms unfolding reads_room_def by blast

lemma rr_mono:
  assumes "reads_room D F W R v" and "D \<le> D'" and "F \<le> F'"
  shows "reads_room D' F' W R v"
proof (rule reads_roomI)
  fix w n w'
  assume "W w = (None, n, w')"
  then obtain bs where bs: "out w' = out w @ bs" "length bs = n" and r: "\<And>rest b. room_for D F n b \<Longrightarrow>
      \<exists>b'. R \<lparr>inp = bs @ rest, rb = Some b\<rparr> = (Inr v, n, \<lparr>inp = rest, rb = Some b'\<rparr>) \<and> charged_at_most F n b b'"
    using reads_roomE [OF assms(1)] by blast
  have "room_for D F n b" if "room_for D' F' n b" for b using that assms(2,3) by (auto simp: room_for_def)
  moreover have "charged_at_most F' n b b'" if "charged_at_most F n b b'" for b b' using that assms(3) by (auto simp: charged_at_most_def)
  ultimately show "\<exists>bs. out w' = out w @ bs \<and> length bs = n \<and> (\<forall>rest b. room_for D' F' n b \<longrightarrow>
      (\<exists>b'. R \<lparr>inp = bs @ rest, rb = Some b\<rparr> = (Inr v, n, \<lparr>inp = rest, rb = Some b'\<rparr>) \<and> charged_at_most F' n b b'))"
    using bs r by (intro exI [of _ bs]) blast
qed

lemma rr_skip: "reads_room 0 0 wskip (rret v) v"
  by (rule reads_roomI) (auto simp: wskip_def rret_def charged_at_most_def)

lemma rr_fail: "reads_room D F (wfail e) R v"
  by (rule reads_roomI) (simp add: wfail_def)

lemma rr_seq:
  assumes 1: "reads_room D F1 W1 R1 v1" and 2: "reads_room D F2 W2 (R2 v1) v2"
  shows "reads_room D (F1 + F2) (wseq W1 W2) (rbind R1 R2) v2"
proof (rule reads_roomI)
  fix w n w'
  assume "wseq W1 W2 w = (None, n, w')"
  then obtain n1 w1 n2 where a: "W1 w = (None, n1, w1)" and b: "W2 w1 = (None, n2, w')" and n: "n = n1 + n2"
    by (auto simp: wseq_def split: prod.splits option.splits)
  from 1 a obtain bs1 where o1: "out w1 = out w @ bs1" "length bs1 = n1" and r1: "\<And>rest b. room_for D F1 n1 b \<Longrightarrow>
      \<exists>b'. R1 \<lparr>inp = bs1 @ rest, rb = Some b\<rparr> = (Inr v1, n1, \<lparr>inp = rest, rb = Some b'\<rparr>) \<and> charged_at_most F1 n1 b b'"
    by (rule reads_roomE) blast
  from 2 b obtain bs2 where o2: "out w' = out w1 @ bs2" "length bs2 = n2" and r2: "\<And>rest b. room_for D F2 n2 b \<Longrightarrow>
      \<exists>b'. R2 v1 \<lparr>inp = bs2 @ rest, rb = Some b\<rparr> = (Inr v2, n2, \<lparr>inp = rest, rb = Some b'\<rparr>) \<and> charged_at_most F2 n2 b b'"
    by (rule reads_roomE) blast
  have "\<exists>b'. rbind R1 R2 \<lparr>inp = (bs1 @ bs2) @ rest, rb = Some b\<rparr> = (Inr v2, n, \<lparr>inp = rest, rb = Some b'\<rparr>) \<and> charged_at_most (F1 + F2) n b b'"
    if rm: "room_for D (F1 + F2) n b" for rest b
  proof -
    have "room_for D F1 n1 b" using rm n by (auto simp: room_for_def)
    from r1 [OF this, of "bs2 @ rest"] obtain b1 where
      e1: "R1 \<lparr>inp = bs1 @ bs2 @ rest, rb = Some b\<rparr> = (Inr v1, n1, \<lparr>inp = bs2 @ rest, rb = Some b1\<rparr>)"
      and c1: "charged_at_most F1 n1 b b1" by blast
    have "room_for D F2 n2 b1" using rm n c1 by (auto simp: room_for_def charged_at_most_def)
    from r2 [OF this, of rest] obtain b2 where
      "R2 v1 \<lparr>inp = bs2 @ rest, rb = Some b1\<rparr> = (Inr v2, n2, \<lparr>inp = rest, rb = Some b2\<rparr>)" and c2: "charged_at_most F2 n2 b1 b2" by blast
    with e1 show ?thesis using n c1 c2 by (auto simp: rbind_def charged_at_most_def)
  qed
  then show "\<exists>bs. out w' = out w @ bs \<and> length bs = n \<and> (\<forall>rest b. room_for D (F1 + F2) n b \<longrightarrow>
      (\<exists>b'. rbind R1 R2 \<lparr>inp = bs @ rest, rb = Some b\<rparr> = (Inr v2, n, \<lparr>inp = rest, rb = Some b'\<rparr>) \<and> charged_at_most (F1 + F2) n b b'))"
    using o1 o2 n by (intro exI [of _ "bs1 @ bs2"]) auto
qed

lemma rr_map: "reads_room D F W R v \<Longrightarrow> reads_room D F W (rmap f R) (f v)"
  using rr_seq [of D F W R v 0 wskip "\<lambda>v. rret (f v)" "f v"] rr_mono [OF rr_skip, of D 0 "f v"] by (simp add: rmap_def)

text \<open>A frame of the reader takes one level and one frame; one that only the writer opens costs the reader nothing.\<close>

lemma rr_frame:
  assumes rt: "reads_room D F W R v"
  shows "reads_room (Suc D) (Suc F) (wframe W) (rframe R) v"
proof (rule reads_roomI)
  fix w n w'
  assume "wframe W w = (None, n, w')"
  then obtain b1 w1 where W: "W (w\<lparr>wb := Some b1\<rparr>) = (None, n, w1)" and w': "w' = w1\<lparr>wb := detach (wb w) (wb w1)\<rparr>"
    by (rule wframe_ok)
  from rt W obtain bs where o1: "out w1 = out w @ bs" "length bs = n" and r: "\<And>rest b. room_for D F n b \<Longrightarrow>
      \<exists>b'. R \<lparr>inp = bs @ rest, rb = Some b\<rparr> = (Inr v, n, \<lparr>inp = rest, rb = Some b'\<rparr>) \<and> charged_at_most F n b b'"
    by (rule reads_roomE) auto
  have "\<exists>b'. rframe R \<lparr>inp = bs @ rest, rb = Some b\<rparr> = (Inr v, n, \<lparr>inp = rest, rb = Some b'\<rparr>) \<and> charged_at_most (Suc F) n b b'"
    if rm: "room_for (Suc D) (Suc F) n b" for rest b
  proof -
    let ?b = "b\<lparr>depth := depth b + 1, frames := frames b + 1\<rparr>"
    have en: "enter b = (None, ?b)" using rm by (auto simp: enter_ok_iff room_for_def)
    have "room_for D F n ?b" using rm by (auto simp: room_for_def)
    from r [OF this, of rest] obtain b' where
      "R \<lparr>inp = bs @ rest, rb = Some ?b\<rparr> = (Inr v, n, \<lparr>inp = rest, rb = Some b'\<rparr>)" and "charged_at_most F n ?b b'" by blast
    then show ?thesis using en by (auto simp: rframe_def attach_def detach_def exit_def charged_at_most_def)
  qed
  then show "\<exists>bs. out w' = out w @ bs \<and> length bs = n \<and> (\<forall>rest b. room_for (Suc D) (Suc F) n b \<longrightarrow>
      (\<exists>b'. rframe R \<lparr>inp = bs @ rest, rb = Some b\<rparr> = (Inr v, n, \<lparr>inp = rest, rb = Some b'\<rparr>) \<and> charged_at_most (Suc F) n b b'))"
    using o1 w' by (intro exI [of _ bs]) auto
qed

lemma rr_wframe:
  assumes rt: "reads_room D F W R v"
  shows "reads_room D F (wframe W) R v"
proof (rule reads_roomI)
  fix w n w'
  assume "wframe W w = (None, n, w')"
  then obtain b1 w1 where W: "W (w\<lparr>wb := Some b1\<rparr>) = (None, n, w1)" and w': "w' = w1\<lparr>wb := detach (wb w) (wb w1)\<rparr>"
    by (rule wframe_ok)
  from rt W show "\<exists>bs. out w' = out w @ bs \<and> length bs = n \<and> (\<forall>rest b. room_for D F n b \<longrightarrow>
      (\<exists>b'. R \<lparr>inp = bs @ rest, rb = Some b\<rparr> = (Inr v, n, \<lparr>inp = rest, rb = Some b'\<rparr>) \<and> charged_at_most F n b b'))"
    by (rule reads_roomE) (auto simp: w')
qed

text \<open>What was staged is read like what was written.\<close>

lemma rr_staged: "reads_room D F W R v \<Longrightarrow> stage W = Inr p \<Longrightarrow> reads_room D F (Write p) R v"
proof (rule reads_roomI)
  fix w n w'
  assume rr: "reads_room D F W R v" and st: "stage W = Inr p" and wr: "Write p w = (None, n, w')"
  obtain m u where u: "W \<lparr>out = [], wb = None\<rparr> = (None, m, u)" "out u = p"
    using st by (auto simp: stage_def split: prod.splits option.splits)
  from rr u(1) obtain bs where "out u = bs" "length bs = m" and r: "\<And>rest b. room_for D F m b \<Longrightarrow>
      \<exists>b'. R \<lparr>inp = bs @ rest, rb = Some b\<rparr> = (Inr v, m, \<lparr>inp = rest, rb = Some b'\<rparr>) \<and> charged_at_most F m b b'"
    by (rule reads_roomE) auto
  then have "bs = p" "m = n" using u(2) wr by (auto simp: Write_ok_iff)
  then show "\<exists>bs. out w' = out w @ bs \<and> length bs = n \<and> (\<forall>rest b. room_for D F n b \<longrightarrow>
      (\<exists>b'. R \<lparr>inp = bs @ rest, rb = Some b\<rparr> = (Inr v, n, \<lparr>inp = rest, rb = Some b'\<rparr>) \<and> charged_at_most F n b b'))"
    using r wr by (intro exI [of _ p]) (auto simp: Write_ok_iff)
qed

subsection \<open>Writers without frames\<close>

text \<open>\<open>flat W\<close>: where \<open>W\<close> succeeds it appends bytes that do not depend on the ledger, and it needs room for these only.\<close>

definition flat :: "writer \<Rightarrow> bool" where
  "flat W \<longleftrightarrow>
     (\<forall>w n w'. W w = (None, n, w') \<longrightarrow>
        (\<exists>bs. length bs = n \<and> (\<forall>w2. fits n (wb w2) \<longrightarrow> W w2 = (None, n, w2\<lparr>out := out w2 @ bs, wb := spend n (wb w2)\<rparr>)) \<and>
           fits n (wb w) \<and> w' = w\<lparr>out := out w @ bs, wb := spend n (wb w)\<rparr>))"

lemma flat_Write [codec_intros]: "flat (Write p)"
  unfolding flat_def by (auto simp: Write_ok_iff)

lemma flat_skip [codec_intros]: "flat wskip"
  using flat_Write [of "[]"] by simp

lemma flat_fail [codec_intros]: "flat (wfail e)"
  by (simp add: flat_def wfail_def)

lemma flat_seq [codec_intros]:
  assumes "flat A" and "flat B"
  shows "flat (wseq A B)"
  unfolding flat_def
proof (intro allI impI)
  fix w n w'
  assume "wseq A B w = (None, n, w')"
  then obtain n1 w1 n2 where a: "A w = (None, n1, w1)" and b: "B w1 = (None, n2, w')" and n: "n = n1 + n2"
    by (auto simp: wseq_def split: prod.splits option.splits)
  obtain xs where xs: "length xs = n1" "\<And>w2. fits n1 (wb w2) \<Longrightarrow> A w2 = (None, n1, w2\<lparr>out := out w2 @ xs, wb := spend n1 (wb w2)\<rparr>)"
    "fits n1 (wb w)" "w1 = w\<lparr>out := out w @ xs, wb := spend n1 (wb w)\<rparr>"
    using assms(1) a unfolding flat_def by blast
  obtain ys where ys: "length ys = n2" "\<And>w2. fits n2 (wb w2) \<Longrightarrow> B w2 = (None, n2, w2\<lparr>out := out w2 @ ys, wb := spend n2 (wb w2)\<rparr>)"
    "fits n2 (wb w1)" "w' = w1\<lparr>out := out w1 @ ys, wb := spend n2 (wb w1)\<rparr>"
    using assms(2) b unfolding flat_def by blast
  have "wseq A B w2 = (None, n, w2\<lparr>out := out w2 @ xs @ ys, wb := spend n (wb w2)\<rparr>)" if "fits n (wb w2)" for w2
  proof -
    have "fits n1 (wb w2)" "fits n2 (spend n1 (wb w2))" using that fits_split [of n1 n2 "wb w2"] n by auto
    then show ?thesis using xs(2) [of w2] ys(2) [of "w2\<lparr>out := out w2 @ xs, wb := spend n1 (wb w2)\<rparr>"] n by (simp add: wseq_def)
  qed
  moreover have "fits n (wb w)" using xs(3,4) ys(3) n by (auto simp: fits_def spend_def split: option.splits)
  ultimately show "\<exists>bs. length bs = n \<and> (\<forall>w2. fits n (wb w2) \<longrightarrow> wseq A B w2 = (None, n, w2\<lparr>out := out w2 @ bs, wb := spend n (wb w2)\<rparr>)) \<and>
      fits n (wb w) \<and> w' = w\<lparr>out := out w @ bs, wb := spend n (wb w)\<rparr>"
    using xs(1,4) ys(1,4) n by (intro exI [of _ "xs @ ys"]) auto
qed

lemma flat_fixed_count:
  assumes "\<And>w. W w = (case Write p w of (Some e, n, w1) \<Rightarrow> (Some e, 0, w1) | (None, n, w1) \<Rightarrow> (None, k, w1))" and "length p = k"
  shows "flat W"
proof -
  have "m = length p" if "Write p w = (None, m, u)" for w m u using that by (simp add: Write_ok_iff)
  then have "W w = (None, n, w') \<longleftrightarrow> Write p w = (None, n, w')" for w n w'
    using assms(2) by (auto simp: assms(1) split: prod.splits option.splits)
  then show ?thesis using flat_Write [of p] unfolding flat_def by simp
qed

lemma rr_flat:
  assumes rt: "reads_back W R v" and fl: "flat W"
  shows "reads_room 0 0 W R v"
proof (rule reads_roomI)
  fix w n w'
  assume W: "W w = (None, n, w')"
  obtain bs where bs: "length bs = n" "\<And>w2. fits n (wb w2) \<Longrightarrow> W w2 = (None, n, w2\<lparr>out := out w2 @ bs, wb := spend n (wb w2)\<rparr>)"
    "w' = w\<lparr>out := out w @ bs, wb := spend n (wb w)\<rparr>"
    using fl W unfolding flat_def by blast
  have "\<exists>b'. R \<lparr>inp = bs @ rest, rb = Some b\<rparr> = (Inr v, n, \<lparr>inp = rest, rb = Some b'\<rparr>) \<and> charged_at_most 0 n b b'"
    if rm: "room_for 0 0 n b" for rest b
  proof -
    let ?w = "\<lparr>out = [], wb = Some b\<rparr>"
    have "W ?w = (None, n, \<lparr>out = bs, wb = spend n (Some b)\<rparr>)" using bs(2) [of ?w] rm by (simp add: fits_def room_for_def)
    from reads_backE [OF rt this] have "\<exists>ob'. R \<lparr>inp = bs @ rest, rb = Some b\<rparr> = (Inr v, n, \<lparr>inp = rest, rb = ob'\<rparr>) \<and>
        keeps (Some b) ob' \<and> led_le ob' (spend n (Some b))"
      by (metis append.left_neutral led_le_refl wstate.select_convs(1,2))
    then show ?thesis by (auto simp: keeps_def led_le_def spend_def charged_at_most_def split: option.splits)
  qed
  then show "\<exists>bs. out w' = out w @ bs \<and> length bs = n \<and> (\<forall>rest b. room_for 0 0 n b \<longrightarrow>
      (\<exists>b'. R \<lparr>inp = bs @ rest, rb = Some b\<rparr> = (Inr v, n, \<lparr>inp = rest, rb = Some b'\<rparr>) \<and> charged_at_most 0 n b b'))"
    using bs(1,3) by (intro exI [of _ bs]) auto
qed

lemma flat_fixed [codec_intros]: "flat (writeFixed (v :: 'a::len word))"
  by (rule flat_fixed_count [OF writeFixed_def]) simp

lemma flat_words [codec_intros]: "flat (Nonce_WriteTo n)" "flat (Duration_WriteTo d)" "flat (Bool_WriteTo b)"
  by (rule flat_fixed_count [OF Nonce_WriteTo_def], simp)
    (rule flat_fixed_count [OF Duration_WriteTo_def], simp, rule flat_fixed_count [OF Bool_WriteTo_def], simp)

lemma flat_counted [codec_intros]: "length p = k \<Longrightarrow> flat (counted k p)"
  by (rule flat_fixed_count [OF counted_def])

lemma flat_strings [codec_intros]:
  "flat (String8_WriteTo s)" "flat (String16_WriteTo s)" "flat (String32_WriteTo s)" "flat (String64_WriteTo s)"
  "flat (Bytes8_WriteTo b)" "flat (Bytes16_WriteTo b)" "flat (Bytes32_WriteTo b)" "flat (Bytes64_WriteTo b)"
  by (auto simp: String8_WriteTo_def String16_WriteTo_def String32_WriteTo_def String64_WriteTo_def
      Bytes8_WriteTo_def Bytes16_WriteTo_def Bytes32_WriteTo_def Bytes64_WriteTo_def uint_codec_defs intro!: codec_intros)

lemma flat_prim [codec_intros]: "flat (prim_WriteTo p)"
  by (cases p) (auto simp: uint_codec_defs Int8_WriteTo_def Int16_WriteTo_def Int32_WriteTo_def Int64_WriteTo_def
      Time_WriteTo_def Zone_WriteTo_def ObjectID_WriteTo_def intro!: codec_intros)

subsection \<open>The views\<close>

lemma rr_leaf: "reads_back W R v \<Longrightarrow> flat W \<Longrightarrow> reads_room D F W R v"
  by (rule rr_mono [OF rr_flat]) auto

lemma rr_fixed: "8 dvd LENGTH('a) \<Longrightarrow> reads_room D 0 (writeFixed (v :: 'a::len word)) readFixed v"
  by (rule rr_leaf) (auto intro: rb_fixed flat_fixed)

text \<open>A leaf in front of something else costs no room.\<close>

lemma rr_seq_leaf:
  "reads_back W1 R1 v1 \<Longrightarrow> flat W1 \<Longrightarrow> reads_room D F W2 (R2 v1) v2 \<Longrightarrow> reads_room D F (wseq W1 W2) (rbind R1 R2) v2"
  using rr_seq [of D 0 W1 R1 v1 F W2 R2 v2] rr_leaf [of W1 R1 v1 D 0] by simp

lemma rr_elems:
  "(\<And>v. v \<in> set vs \<Longrightarrow> reads_room D (f v) (g v) R v) \<Longrightarrow>
     reads_room D (sum_list (map f vs)) (writeElems False (map g vs)) (readElems False R (length vs)) vs"
proof (induction vs)
  case Nil
  then show ?case using rr_mono [OF rr_skip, of D 0] by (simp add: writeElems_def)
next
  case (Cons v vs)
  have "reads_room D (f v + sum_list (map f vs)) (wseq (g v) (writeElems False (map g vs)))
      (rbind R (\<lambda>v. rmap (Cons v) (readElems False R (length vs)))) (v # vs)"
    by (rule rr_seq [of _ _ _ _ v]) (auto intro!: rr_map Cons)
  then show ?case by (simp add: writeElems_def writePresence_def readPresence_def)
qed

lemma rr_slice:
  assumes "\<And>v. v \<in> set vs \<Longrightarrow> reads_room D (f v) (g v) R v" and "length vs < 2 ^ 32"
  shows "reads_room (Suc D) (Suc (sum_list (map f vs))) (sliceValue_WriteTo False (map g vs)) (sliceValue_ReadFrom False R) vs"
  unfolding sliceValue_WriteTo_def sliceValue_ReadFrom_def
  by (rule rr_frame, rule rr_seq_leaf [OF rb_fixed flat_fixed])
    (use rr_elems [OF assms(1)] assms(2) in \<open>simp_all add: unat_of_nat_small\<close>)

lemma rr_array:
  assumes "\<And>v. v \<in> set vs \<Longrightarrow> reads_room D (f v) (g v) R v"
  shows "reads_room (Suc D) (Suc (sum_list (map f vs))) (arrayValue_WriteTo False (map g vs)) (arrayValue_ReadFrom False R (length vs)) vs"
  unfolding arrayValue_WriteTo_def arrayValue_ReadFrom_def by (intro rr_frame rr_elems assms)

lemma rr_ptr_nil: "reads_room (Suc D) (Suc F) (ptrValue_WriteTo False None) (ptrValue_ReadFrom False R) None"
proof -
  have "reads_room D F (wseq (writeFixed (0 :: 8 word)) wskip) (rbind readFixed
      (\<lambda>f :: 8 word. if f = 0 then rret None else if f = 1 then rmap Some R
                     else rfail (ErrMsg ''invalid nil flag''))) None"
    by (rule rr_seq_leaf [OF rb_fixed flat_fixed]) (simp_all add: rr_leaf rb_skip flat_skip)
  then show ?thesis unfolding ptrValue_WriteTo_def ptrValue_ReadFrom_def by (simp add: rr_frame)
qed

lemma rr_ptr:
  assumes "reads_room D F W R v"
  shows "reads_room (Suc D) (Suc F) (ptrValue_WriteTo False (Some W)) (ptrValue_ReadFrom False R) (Some v)"
proof -
  have "reads_room D F (wseq (writeFixed (1 :: 8 word)) W) (rbind readFixed
      (\<lambda>f :: 8 word. if f = 0 then rret None else if f = 1 then rmap Some R
                     else rfail (ErrMsg ''invalid nil flag''))) (Some v)"
    by (rule rr_seq_leaf [OF rb_fixed flat_fixed]) (simp_all add: rr_map assms)
  then show ?thesis unfolding ptrValue_WriteTo_def ptrValue_ReadFrom_def by (simp add: rr_frame)
qed

lemma rr_interface_nil: "reads_room (Suc D) (Suc F) (interfaceValue_WriteTo None) (interfaceValue_ReadFrom new) None"
proof -
  have "writeFixed (0 :: 8 word) = String8_WriteTo []" by (auto simp: String8_WriteTo_def Uint8_WriteTo_def)
  moreover have "reads_room D F (wseq (String8_WriteTo []) wskip) (rbind String8_ReadFrom
       (\<lambda>t. if length t = 0 \<or> t = nilTypeName then rret None
          else case new t of Inl e \<Rightarrow> rfail e | Inr R \<Rightarrow> rmap Some R)) None"
    by (rule rr_seq_leaf [OF rb_String(1) flat_strings(1)]) (simp add: rr_leaf rb_skip flat_skip)
  ultimately show ?thesis unfolding interfaceValue_WriteTo_def interfaceValue_ReadFrom_def by (simp add: rr_frame)
qed

lemma rr_interface:
  assumes "new t = Inr R" and "reads_room D F W R v" and "t \<noteq> nilTypeName"
  shows "reads_room (Suc D) (Suc F) (interfaceValue_WriteTo (Some (t, W))) (interfaceValue_ReadFrom new) (Some v)"
proof -
  have "t \<noteq> [] \<Longrightarrow> reads_room D F (wseq (String8_WriteTo t) W) (rbind String8_ReadFrom
       (\<lambda>t. if length t = 0 \<or> t = nilTypeName then rret None
          else case new t of Inl e \<Rightarrow> rfail e | Inr R \<Rightarrow> rmap Some R)) (Some v)"
    by (rule rr_seq_leaf [OF rb_String(1) flat_strings(1)]) (use assms in \<open>simp add: rr_map\<close>)
  then show ?thesis unfolding interfaceValue_WriteTo_def interfaceValue_ReadFrom_def
    by (intro rr_frame) (auto intro: rr_fail)
qed

subsection \<open>Maps\<close>

text \<open>The entries of a map in the order of their encoded keys; \<open>g\<close> writes a value.\<close>

definition entries_ok :: "nat \<Rightarrow> (mapkey \<times> 'a) list \<Rightarrow> bool" where
  "entries_ok width es \<longleftrightarrow>
     (\<forall>e \<in> set es. key_fits width (fst e)) \<and> distinct (map fst es) \<and> sorted (map (\<lambda>e. kbytes width (fst e)) es) \<and> length es < 2 ^ 32"

definition pairs_writer :: "(bytes \<times> bytes) list \<Rightarrow> writer" where
  "pairs_writer ps = writeAll (map (\<lambda>(kb, vb). wseq (Write kb) (Write vb)) ps)"

lemma rr_pairs:
  assumes "\<forall>e \<in> set es. key_fits width (fst e)"
    and "\<And>e. e \<in> set es \<Longrightarrow> reads_room D (f (snd e)) (g (snd e)) R (snd e)"
    and "stagePairs width False (map (\<lambda>(k, v). (k, g v)) es) = Inr ps"
  shows "map fst ps = map (\<lambda>e. kbytes width (fst e)) es \<and>
    reads_room D (sum_list (map (\<lambda>e. f (snd e)) es)) (pairs_writer ps) (readEntries width False R (length es) m)
      (fold (\<lambda>(k, v). AList.update k v) es m)"
  using assms
proof (induction es arbitrary: ps m)
  case Nil
  then show ?case using rr_mono [OF rr_skip, of D 0] by (simp add: pairs_writer_def)
next
  case (Cons e es)
  obtain k v where e: "e = (k, v)" by force
  have kf: "key_fits width k" using Cons.prems(1) e by simp
  note st = plain_stage [OF plain_mapKey [OF kf]]
  obtain vb qs where vb: "stage (g v) = Inr vb" and qs: "stagePairs width False (map (\<lambda>(k, v). (k, g v)) es) = Inr qs"
    and ps: "ps = (kbytes width k, vb) # qs"
    using Cons.prems(3) st by (auto simp: e writePresence_def split: sum.splits)
  have IH: "map fst qs = map (\<lambda>e. kbytes width (fst e)) es" "reads_room D (sum_list (map (\<lambda>e. f (snd e)) es)) (pairs_writer qs)
      (readEntries width False R (length es) m1) (fold (\<lambda>(k, v). AList.update k v) es m1)" for m1
    using Cons.IH [OF _ _ qs, of m1] Cons.prems(1,2) by auto
  have "reads_room D (f v) (Write vb) R v" using rr_staged [OF _ vb] Cons.prems(2) [of e] e by simp
  then have "reads_room D (f v + sum_list (map (\<lambda>e. f (snd e)) es)) (wseq (Write vb) (pairs_writer qs))
      (rbind R (\<lambda>v. readEntries width False R (length es) (AList.update k v m)))
      (fold (\<lambda>(k, v). AList.update k v) es (AList.update k v m))"
    by (rule rr_seq) (rule IH(2))
  then have "reads_room D (f v + sum_list (map (\<lambda>e. f (snd e)) es)) (wseq (Write (kbytes width k)) (wseq (Write vb) (pairs_writer qs)))
      (rbind (readMapKey width) (\<lambda>k. rbind R (\<lambda>v. readEntries width False R (length es) (AList.update k v m))))
      (fold (\<lambda>(k, v). AList.update k v) es (AList.update k v m))"
    by (rule rr_seq_leaf [OF plain_reads_back [OF plain_mapKey [OF kf]] flat_Write])
  then show ?case using IH(1) by (simp add: e ps pairs_writer_def wseq_assoc readPresence_def)
qed

lemma rr_entries:
  assumes ok: "entries_ok width es"
    and el: "\<And>e. e \<in> set es \<Longrightarrow> reads_room D (f (snd e)) (g (snd e)) R (snd e)"
  shows "reads_room D (sum_list (map (\<lambda>e. f (snd e)) es))
    (case stagePairs width False (map (\<lambda>(k, v). (k, g v)) es) of Inl e \<Rightarrow> wfail e | Inr ps \<Rightarrow> pairs_writer (sort_key fst ps))
    (readEntries width False R (length es) []) es"
proof (cases "stagePairs width False (map (\<lambda>(k, v). (k, g v)) es)")
  case (Inr ps)
  have kf: "\<forall>e \<in> set es. key_fits width (fst e)" using ok by (simp add: entries_ok_def)
  note r = rr_pairs [where es = es and f = f and g = g and D = D and R = R and m = "[]", OF kf el Inr]
  have "sorted (map fst ps)" using r ok by (simp add: entries_ok_def)
  then have "sort_key fst ps = ps" by (rule sort_key_id_if_sorted)
  moreover have "fold (\<lambda>(k, v). AList.update k v) es [] = es"
    using fold_update_distinct [of es "[]"] ok by (simp add: entries_ok_def)
  ultimately show ?thesis using r Inr by simp
qed (simp add: rr_fail)

subsection \<open>Objects\<close>

text \<open>
  The levels and frames the reader of an object opens at most; \<open>nc\<close> gives them for the payload of a
  compile-time type.
\<close>

type_synonym native_cost = "string \<Rightarrow> bytes \<Rightarrow> nat \<times> nat"

text \<open>
  What is asked of the compile-time types: their payloads, those \<open>nok\<close> admits, are read back by the
  type's own reader wherever the ledger has the room \<open>nc\<close> gives, and no reader leaves the depth
  changed.  A type coded by Objectify or a bundle opens frames and has a cost accordingly.
\<close>

definition natives_room :: "(string \<Rightarrow> bytes \<Rightarrow> bool) \<Rightarrow> native_cost \<Rightarrow> (string \<Rightarrow> bytes reader) \<Rightarrow> bool" where
  "natives_room nok nc nread \<longleftrightarrow>
     (\<forall>n p. nok n p \<longrightarrow> reads_room (fst (nc n p)) (snd (nc n p)) (Write p) (nread n) p) \<and> (\<forall>n. rsafe (nread n))"

fun rdepth :: "native_cost \<Rightarrow> obj \<Rightarrow> nat" where
  "rdepth nc (Native n p) = fst (nc n p)"
| "rdepth nc (Struct bp vs) = Suc (foldr max (map (rdepth nc) vs) 0)"
| "rdepth nc (Alias bp v) = rdepth nc v"
| "rdepth nc (RSlice en vs) = Suc (Suc (foldr max (map (rdepth nc) vs) 0))"
| "rdepth nc (RArray en vs) = Suc (Suc (foldr max (map (rdepth nc) vs) 0))"
| "rdepth nc (RMap kind vn es) = Suc (Suc (foldr max (map (\<lambda>(k, v). rdepth nc v) es) 0))"
| "rdepth nc _ = 0"

fun rframes :: "native_cost \<Rightarrow> obj \<Rightarrow> nat" where
  "rframes nc (Native n p) = snd (nc n p)"
| "rframes nc (Struct bp vs) = Suc (sum_list (map (rframes nc) vs))"
| "rframes nc (Alias bp v) = rframes nc v"
| "rframes nc (RSlice en vs) = Suc (sum_list (map (\<lambda>v. Suc (rframes nc v)) vs))"
| "rframes nc (RArray en vs) = Suc (sum_list (map (\<lambda>v. Suc (rframes nc v)) vs))"
| "rframes nc (RMap kind vn es) = Suc (sum_list (map (\<lambda>(k, v). Suc (rframes nc v)) es))"
| "rframes nc _ = 0"

lemma rdepth_member: "v \<in> set vs \<Longrightarrow> rdepth nc v \<le> foldr max (map (rdepth nc) vs) 0"
  by (induction vs) (auto simp: le_max_iff_disj)

lemma rdepth_entry: "(k, v) \<in> set es \<Longrightarrow> rdepth nc v \<le> foldr max (map (\<lambda>(k, v). rdepth nc v) es) 0"
  by (induction es) (auto simp: le_max_iff_disj)

text \<open>As \<open>field_ok\<close> and \<open>obj_ok\<close>, with maps: a map value is its entries in the order of their encoded keys.\<close>

definition field_fits :: "registry \<Rightarrow> spec option \<Rightarrow> obj \<Rightarrow> bool" where
  "field_fits bps sp v =
     (case sp of
        Some (MapSpec k t) \<Rightarrow>
          (case v of RMap kt vn es \<Rightarrow> vn = t \<and> resolveKeyType k = Inr kt \<and> resolveElemType bps t = None | _ \<Rightarrow> False)
      | _ \<Rightarrow> field_ok bps sp v)"

fun obj_fits :: "(string \<Rightarrow> bytes \<Rightarrow> bool) \<Rightarrow> registry \<Rightarrow> obj \<Rightarrow> bool" where
  "obj_fits nok bps Absent = True"
| "obj_fits nok bps NilObj = True"
| "obj_fits nok bps (Prim p) = prim_ok p"
| "obj_fits nok bps (Native n pl) = nok n pl"
| "obj_fits nok bps (Struct bp vs) \<longleftrightarrow>
     list_all2 (\<lambda>f v. field_fits bps (Spec f) v) (Fields bp) vs \<and> (\<forall>v \<in> set vs. obj_fits nok bps v)"
| "obj_fits nok bps (Alias bp v) = obj_fits nok bps v"
| "obj_fits nok bps (RSlice en vs) \<longleftrightarrow>
     length vs < 2 ^ 32 \<and> (\<forall>v \<in> set vs. elem_ok bps en v \<and> obj_fits nok bps v)"
| "obj_fits nok bps (RArray en vs) \<longleftrightarrow> (\<forall>v \<in> set vs. elem_ok bps en v \<and> obj_fits nok bps v)"
| "obj_fits nok bps (RMap kind vn es) \<longleftrightarrow>
     (case supportedMapKey kind of None \<Rightarrow> False | Some width \<Rightarrow> entries_ok width es) \<and>
     (\<forall>(k, v) \<in> set es. elem_ok bps vn v \<and> obj_fits nok bps v)"

definition room_like :: "native_cost \<Rightarrow> registry \<Rightarrow> into \<Rightarrow> obj \<Rightarrow> bool" where
  "room_like nc bps rec v \<longleftrightarrow> (\<forall>z. like z v \<longrightarrow> reads_room (rdepth nc v) (rframes nc v) (obj_WriteTo v) (rec z) v)"

lemma rr_named:
  "room_like nc bps rec v \<Longrightarrow> named_ok bps t v \<Longrightarrow> reads_room (rdepth nc v) (rframes nc v) (obj_WriteTo v) (readNamed bps rec t) v"
  by (auto simp: readNamed_def newReader_def named_ok_def room_like_def split: option.splits)

lemma rr_elem:
  assumes rec: "room_like nc bps rec v" and ok: "elem_ok bps en v"
  shows "reads_room (Suc (rdepth nc v)) (Suc (rframes nc v)) (elem_WriteTo en v (obj_WriteTo v)) (elem_ReadFrom bps rec en) v"
proof (cases "v = Absent")
  case True
  then show ?thesis
    using rr_map [OF rr_interface_nil, where f = slot] rr_map [OF rr_ptr_nil, where f = slot]
    by (auto simp: elem_WriteTo_def elem_ReadFrom_def isPtrNil_def slot_def)
next
  case False
  show ?thesis
  proof (cases "en = []")
    case True
    then have n: "named_ok bps (ObjectType v) v" "ObjectType v \<noteq> nilTypeName" using ok False by (auto simp: elem_ok_def)
    then obtain z where z: "New bps (ObjectType v) = Some z" "like z v" by (auto simp: named_ok_def split: option.splits)
    have "reads_room (rdepth nc v) (rframes nc v) (ptrValue_WriteTo True (Some (obj_WriteTo v))) (rec z) v"
      using rec z(2) by (simp add: ptrValue_WriteTo_def room_like_def rr_wframe)
    then have "reads_room (Suc (rdepth nc v)) (Suc (rframes nc v))
        (interfaceValue_WriteTo (Some (ObjectType v, ptrValue_WriteTo True (Some (obj_WriteTo v)))))
        (interfaceValue_ReadFrom (newReader bps rec ErrStreamCorrupted)) (Some v)"
      by (intro rr_interface) (use z n in \<open>auto simp: newReader_def\<close>)
    from rr_map [OF this, of slot] show ?thesis using True False n
      by (auto simp: elem_WriteTo_def elem_ReadFrom_def isPtrNil_def slot_def)
  next
    case ne: False
    then have "reads_room (rdepth nc v) (rframes nc v) (obj_WriteTo v) (readNamed bps rec en) v"
      using ok False rec by (auto simp: elem_ok_def intro: rr_named)
    from rr_map [OF rr_ptr [OF this], of slot] show ?thesis using ne False
      by (simp add: elem_WriteTo_def elem_ReadFrom_def slot_def)
  qed
qed

lemma rr_bpPtr:
  assumes rec: "room_like nc bps rec v" and ok: "elem_ok bps en v" and rt: "isRuntimeBlueprintType bps en"
  shows "reads_room (Suc (rdepth nc v)) (Suc (rframes nc v)) (elem_WriteTo en v (obj_WriteTo v)) (readRuntimeBlueprintPtr bps rec en) v"
proof -
  have en: "en \<noteq> []" using rt by (simp add: isRuntimeBlueprintType_def)
  have "reads_room (rdepth nc v) (rframes nc v) (elem_WriteTo en v (obj_WriteTo v)) (readRuntimeBlueprintPtr bps rec en) v"
  proof (cases "v = Absent")
    case True
    have "reads_room 0 0 (wseq (writeFixed (0 :: 8 word)) wskip) (readRuntimeBlueprintPtr bps rec en) Absent"
      unfolding readRuntimeBlueprintPtr_def by (rule rr_seq_leaf [OF rb_fixed flat_fixed]) (simp_all add: rr_skip)
    then show ?thesis using True en by (simp add: elem_WriteTo_def ptrValue_WriteTo_def rr_wframe)
  next
    case False
    then obtain z where z: "New bps en = Some z" "like z v" and "is_runtime v"
      using ok en rt by (auto simp: elem_ok_def named_ok_def split: option.splits)
    then have "is_runtime z" by (cases z; cases v) (auto simp: is_runtime_def)
    then have "reads_room (rdepth nc v) (rframes nc v) (wseq (writeFixed (1 :: 8 word)) (obj_WriteTo v)) (readRuntimeBlueprintPtr bps rec en) v"
      unfolding readRuntimeBlueprintPtr_def
      by (intro rr_seq_leaf [OF rb_fixed flat_fixed]) (use rec z in \<open>simp_all add: room_like_def\<close>)
    then show ?thesis using False en by (simp add: elem_WriteTo_def ptrValue_WriteTo_def rr_wframe)
  qed
  then show ?thesis by (rule rr_mono) auto
qed

text \<open>The containers, whose element reader is the runtime one or the generic one.\<close>

lemma rr_elem_any:
  assumes "room_like nc bps rec v" "elem_ok bps en v" "rdepth nc v \<le> d"
  shows "reads_room (Suc d) (Suc (rframes nc v)) (elem_WriteTo en v (obj_WriteTo v))
    (if isRuntimeBlueprintType bps en then readRuntimeBlueprintPtr bps rec en else elem_ReadFrom bps rec en) v"
  using rr_mono [OF rr_bpPtr [OF assms(1,2)], of "Suc d"] rr_mono [OF rr_elem [OF assms(1,2)], of "Suc d"] assms(3) by simp

lemma rr_slice_obj:
  assumes el: "\<And>v. v \<in> set vs \<Longrightarrow> elem_ok bps en v \<and> room_like nc bps rec v" and len: "length vs < 2 ^ 32"
  shows "reads_room (rdepth nc (RSlice en vs)) (rframes nc (RSlice en vs)) (obj_WriteTo (RSlice en vs)) (RuntimeSlice_ReadFrom bps rec en) (RSlice en vs)"
proof -
  let ?d = "foldr max (map (rdepth nc) vs) 0" and ?f = "\<lambda>v. Suc (rframes nc v)" and ?g = "\<lambda>v. elem_WriteTo en v (obj_WriteTo v)"
  note one = rr_elem_any [where d = ?d, OF conjunct2 [OF el] conjunct1 [OF el] rdepth_member]
  have "reads_room (Suc (Suc ?d)) (Suc (sum_list (map ?f vs))) (sliceValue_WriteTo False (map ?g vs))
      (if isRuntimeBlueprintType bps en
       then rbind (readFixed :: 32 word reader) (\<lambda>l. readElems False (readRuntimeBlueprintPtr bps rec en) (unat l))
       else sliceValue_ReadFrom False (elem_ReadFrom bps rec en)) vs"
  proof (cases "isRuntimeBlueprintType bps en")
    case True
    have "reads_room (Suc ?d) (sum_list (map ?f vs)) (writeElems False (map ?g vs)) (readElems False (readRuntimeBlueprintPtr bps rec en) (length vs)) vs"
      using one True by (intro rr_elems) simp
    then have "reads_room (Suc ?d) (sum_list (map ?f vs)) (wseq (writeFixed (of_nat (length vs) :: 32 word)) (writeElems False (map ?g vs)))
        (rbind (readFixed :: 32 word reader) (\<lambda>l. readElems False (readRuntimeBlueprintPtr bps rec en) (unat l))) vs"
      using len by (intro rr_seq_leaf [OF rb_fixed flat_fixed]) (simp_all add: unat_of_nat_small)
    then have "reads_room (Suc ?d) (sum_list (map ?f vs)) (sliceValue_WriteTo False (map ?g vs))
        (rbind (readFixed :: 32 word reader) (\<lambda>l. readElems False (readRuntimeBlueprintPtr bps rec en) (unat l))) vs"
      by (simp add: sliceValue_WriteTo_def rr_wframe)
    then show ?thesis using True by (simp add: rr_mono)
  next
    case False
    then show ?thesis using one len by (simp add: rr_slice)
  qed
  from rr_map [OF this, of "RSlice en"] show ?thesis by (simp add: RuntimeSlice_ReadFrom_def)
qed

lemma rr_array_obj:
  assumes el: "\<And>v. v \<in> set vs \<Longrightarrow> elem_ok bps en v \<and> room_like nc bps rec v"
  shows "reads_room (rdepth nc (RArray en vs)) (rframes nc (RArray en vs)) (obj_WriteTo (RArray en vs)) (RuntimeArray_ReadFrom bps rec en (length vs)) (RArray en vs)"
proof -
  let ?d = "foldr max (map (rdepth nc) vs) 0" and ?f = "\<lambda>v. Suc (rframes nc v)" and ?g = "\<lambda>v. elem_WriteTo en v (obj_WriteTo v)"
  note one = rr_elem_any [where d = ?d, OF conjunct2 [OF el] conjunct1 [OF el] rdepth_member]
  have "reads_room (Suc (Suc ?d)) (Suc (sum_list (map ?f vs))) (arrayValue_WriteTo False (map ?g vs))
      (if isRuntimeBlueprintType bps en then readElems False (readRuntimeBlueprintPtr bps rec en) (length vs)
       else arrayValue_ReadFrom False (elem_ReadFrom bps rec en) (length vs)) vs"
  proof (cases "isRuntimeBlueprintType bps en")
    case True
    have "reads_room (Suc ?d) (sum_list (map ?f vs)) (writeElems False (map ?g vs)) (readElems False (readRuntimeBlueprintPtr bps rec en) (length vs)) vs"
      using one True by (intro rr_elems) simp
    then have "reads_room (Suc ?d) (sum_list (map ?f vs)) (arrayValue_WriteTo False (map ?g vs)) (readElems False (readRuntimeBlueprintPtr bps rec en) (length vs)) vs"
      by (simp add: arrayValue_WriteTo_def rr_wframe)
    then show ?thesis using True by (simp add: rr_mono)
  next
    case False
    then show ?thesis using one by (simp add: rr_array)
  qed
  from rr_map [OF this, of "RArray en"] show ?thesis by (simp add: RuntimeArray_ReadFrom_def)
qed

lemma rr_map_obj:
  assumes el: "\<And>k v. (k, v) \<in> set es \<Longrightarrow> elem_ok bps vn v \<and> room_like nc bps rec v"
    and width: "supportedMapKey kind = Some width" and ok: "entries_ok width es"
  shows "reads_room (rdepth nc (RMap kind vn es)) (rframes nc (RMap kind vn es)) (obj_WriteTo (RMap kind vn es)) (RuntimeMap_ReadFrom bps rec kind vn) (RMap kind vn es)"
proof -
  let ?d = "foldr max (map (\<lambda>(k, v). rdepth nc v) es) 0" and ?f = "\<lambda>v. Suc (rframes nc v)" and ?g = "\<lambda>v. elem_WriteTo vn v (obj_WriteTo v)"
  let ?R = "if isRuntimeBlueprintType bps vn then readRuntimeBlueprintPtr bps rec vn else elem_ReadFrom bps rec vn"
  let ?W = "wseq (writeFixed (of_nat (length es) :: 32 word))
    (case stagePairs width False (map (\<lambda>(k, v). (k, ?g v)) es) of Inl e \<Rightarrow> wfail e | Inr ps \<Rightarrow> pairs_writer (sort_key fst ps))"
  have one: "reads_room (Suc ?d) (?f (snd e)) (?g (snd e)) ?R (snd e)" if "e \<in> set es" for e
    using that el [of "fst e" "snd e"] rdepth_entry [of "fst e" "snd e" es nc] by (intro rr_elem_any) auto
  have f: "map (\<lambda>e. ?f (snd e)) es = map (\<lambda>(k, v). ?f v) es" by (simp add: case_prod_unfold)
  have len: "length es < 2 ^ 32" using ok by (simp add: entries_ok_def)
  have body: "reads_room (Suc ?d) (sum_list (map (\<lambda>(k, v). ?f v) es)) ?W
      (rbind (readFixed :: 32 word reader) (\<lambda>l. readEntries width False ?R (unat l) [])) es"
    using rr_entries [where f = ?f and g = ?g and D = "Suc ?d" and R = ?R, OF ok one] len
    by (intro rr_seq_leaf [OF rb_fixed flat_fixed]) (simp_all add: unat_of_nat_small f)
  have w: "obj_WriteTo (RMap kind vn es) = wframe ?W"
    unfolding pairs_writer_def using width by (simp add: mapValue_WriteTo_def case_prod_unfold)
  have "reads_room (Suc (Suc ?d)) (Suc (sum_list (map (\<lambda>(k, v). ?f v) es))) (wframe ?W)
      (if isRuntimeBlueprintType bps vn
       then rbind (readFixed :: 32 word reader) (\<lambda>l. readEntries width False (readRuntimeBlueprintPtr bps rec vn) (unat l) [])
       else mapValue_ReadFrom kind False (elem_ReadFrom bps rec vn)) es"
  proof (cases "isRuntimeBlueprintType bps vn")
    case True
    then show ?thesis using rr_mono [OF rr_wframe [OF body], of "Suc (Suc ?d)" "Suc (sum_list (map (\<lambda>(k, v). ?f v) es))"] by simp
  next
    case False
    then show ?thesis using rr_frame [OF body] width by (simp add: mapValue_ReadFrom_def)
  qed
  moreover have "RuntimeMap_ReadFrom bps rec kind vn = rmap (RMap kind vn) (if isRuntimeBlueprintType bps vn
       then rbind (readFixed :: 32 word reader) (\<lambda>l. readEntries width False (readRuntimeBlueprintPtr bps rec vn) (unat l) [])
       else mapValue_ReadFrom kind False (elem_ReadFrom bps rec vn))"
    using width by (simp add: RuntimeMap_ReadFrom_def)
  ultimately show ?thesis unfolding w using rr_map [of _ _ _ _ es "RMap kind vn"] by simp
qed

text \<open>The values inside a container that a field writes, one level down.\<close>

definition room_below :: "native_cost \<Rightarrow> registry \<Rightarrow> into \<Rightarrow> obj \<Rightarrow> bool" where
  "room_below nc bps rec v =
     (case v of
        RSlice en vs \<Rightarrow> length vs < 2 ^ 32 \<and> (\<forall>x \<in> set vs. elem_ok bps en x \<and> room_like nc bps rec x)
      | RArray en vs \<Rightarrow> (\<forall>x \<in> set vs. elem_ok bps en x \<and> room_like nc bps rec x)
      | RMap kind vn es \<Rightarrow>
          (case supportedMapKey kind of None \<Rightarrow> False | Some width \<Rightarrow> entries_ok width es) \<and>
          (\<forall>(k, x) \<in> set es. elem_ok bps vn x \<and> room_like nc bps rec x)
      | _ \<Rightarrow> True)"

lemma rr_field:
  assumes ok: "field_fits bps sp v" and rec: "room_like nc bps rec v" and below: "room_below nc bps rec v"
  shows "reads_room (rdepth nc v) (rframes nc v) (writeField sp v (obj_WriteTo v)) (readField bps rec sp) v"
proof (cases sp)
  case (Some s)
  show ?thesis
  proof (cases s)
    case (PrimitiveSpec p)
    then show ?thesis using Some ok rr_named [OF rec] named_not_absent by (auto simp: writeField_def readField_def field_fits_def field_ok_def)
  next
    case (RefSpec t)
    then show ?thesis using Some ok rr_named [OF rec] named_not_absent by (auto simp: writeField_def readField_def field_fits_def field_ok_def)
  next
    case (SliceSpec t)
    then obtain vs where v: "v = RSlice t vs" "resolveElemType bps t = None"
      using Some ok by (auto simp: field_fits_def field_ok_def split: obj.splits)
    then have "reads_room (rdepth nc v) (rframes nc v) (obj_WriteTo v) (RuntimeSlice_ReadFrom bps rec t) v"
      using below rr_slice_obj [of vs bps t nc rec] by (simp add: room_below_def)
    then show ?thesis using Some SliceSpec v by (simp add: writeField_def readField_def newRuntimeSliceWith_def)
  next
    case (ArraySpec t n)
    then obtain vs where v: "v = RArray t vs" "resolveElemType bps t = None" "length vs = unat n"
      using Some ok by (auto simp: field_fits_def field_ok_def split: obj.splits)
    then have "reads_room (rdepth nc v) (rframes nc v) (obj_WriteTo v) (RuntimeArray_ReadFrom bps rec t (length vs)) v"
      using below rr_array_obj [of vs bps t nc rec] by (simp add: room_below_def)
    then show ?thesis using Some ArraySpec v by (simp add: writeField_def readField_def newRuntimeArrayWith_def)
  next
    case (MapSpec k t)
    then obtain kt es where v: "v = RMap kt t es" "resolveKeyType k = Inr kt" "resolveElemType bps t = None"
      using Some ok by (auto simp: field_fits_def split: obj.splits)
    then obtain width where "supportedMapKey kt = Some width" "entries_ok width es"
      using below by (auto simp: room_below_def split: option.splits)
    then have "reads_room (rdepth nc v) (rframes nc v) (obj_WriteTo v) (RuntimeMap_ReadFrom bps rec kt t) v"
      using below v rr_map_obj [of es bps t nc rec kt width] by (auto simp: room_below_def)
    then show ?thesis using Some MapSpec v by (simp add: writeField_def readField_def newRuntimeMapWith_def)
  next
    case (PtrSpec t)
    show ?thesis
    proof (cases "v = NilObj")
      case True
      have "reads_room 0 0 (wseq (Bool_WriteTo False) wskip) (readField bps rec sp) NilObj"
        using Some PtrSpec
        by (auto simp: readField_def uint_codec_defs simp del: wseq_skip
            intro!: rr_seq_leaf [OF rb_flag [of False, simplified] flat_words(3)] rr_skip)
      then show ?thesis using Some PtrSpec True by (simp add: writeField_def isPtrNil_def)
    next
      case False
      then have "reads_room (rdepth nc v) (rframes nc v) (obj_WriteTo v) (readNamed bps rec t) v" "v \<noteq> Absent"
        using Some PtrSpec ok rr_named [OF rec] named_not_absent by (auto simp: field_fits_def field_ok_def)
      then show ?thesis using Some PtrSpec False
        by (auto simp: writeField_def readField_def isPtrNil_def uint_codec_defs
            intro!: rr_seq_leaf [OF rb_flag [of True, simplified] flat_words(3)])
    qed
  next
    case ObjectSpec
    show ?thesis
    proof (cases "v = NilObj")
      case True
      have "reads_room 0 0 (wseq (ObjectType_WriteTo []) wskip) (readPolymorphic bps rec) NilObj"
        unfolding readPolymorphic_def
        by (rule rr_seq_leaf [OF object_type.round_trip]) (simp_all add: rr_skip ObjectType_WriteTo_def flat_strings)
      then show ?thesis using Some ObjectSpec True by (simp add: writeField_def readField_def isPtrNil_def)
    next
      case False
      then have n: "named_ok bps (ObjectType v) v" "ObjectType v \<noteq> nilTypeName" "v \<noteq> Absent"
        using Some ObjectSpec ok named_not_absent by (auto simp: field_fits_def field_ok_def)
      have "reads_room (rdepth nc v) (rframes nc v) (wseq (ObjectType_WriteTo (ObjectType v)) (obj_WriteTo v)) (readPolymorphic bps rec) v" if "ObjectType v \<noteq> []"
        unfolding readPolymorphic_def
        by (rule rr_seq_leaf [OF object_type.round_trip])
          (use n rec that in \<open>auto simp: newReader_def named_ok_def room_like_def ObjectType_WriteTo_def flat_strings split: option.splits\<close>)
      moreover have "reads_room D F (wseq (wfail e) W) R v" for D F e W R
        by (rule reads_roomI) (simp add: wseq_def wfail_def)
      ultimately show ?thesis using Some ObjectSpec False n
        by (simp add: writeField_def readField_def isPtrNil_def ShortTypeEncoder_def)
    qed
  qed
qed (use ok in \<open>simp add: field_fits_def field_ok_def\<close>)

lemma rr_fields:
  assumes "list_all2 (\<lambda>f v. field_fits bps (Spec f) v) fs vs"
    and "\<And>v. v \<in> set vs \<Longrightarrow> room_like nc bps rec v \<and> room_below nc bps rec v \<and> rdepth nc v \<le> D"
  shows "reads_room D (sum_list (map (rframes nc) vs))
    (writeAll (map (\<lambda>(f, v, W). writeField (Spec f) v W) (zip fs (map (\<lambda>v. (v, obj_WriteTo v)) vs))))
    (readAll (map (\<lambda>f. readField bps rec (Spec f)) fs)) vs"
  using assms
proof (induction rule: list_all2_induct)
  case (Cons f fs v vs)
  have 1: "reads_room D (rframes nc v) (writeField (Spec f) v (obj_WriteTo v)) (readField bps rec (Spec f)) v"
    using Cons by (intro rr_mono [OF rr_field]) auto
  have "reads_room D (rframes nc v + sum_list (map (rframes nc) vs)) (wseq (writeField (Spec f) v (obj_WriteTo v))
      (writeAll (map (\<lambda>(f, v, W). writeField (Spec f) v W) (zip fs (map (\<lambda>v. (v, obj_WriteTo v)) vs)))))
      (rbind (readField bps rec (Spec f)) (\<lambda>v. rmap (Cons v) (readAll (map (\<lambda>f. readField bps rec (Spec f)) fs)))) (v # vs)"
    by (rule rr_seq [OF 1], rule rr_map) (use Cons in auto)
  then show ?case by simp
next
  case Nil
  then show ?case using rr_mono [OF rr_skip, of D 0] by simp
qed

text \<open>The members of a container, each with room.\<close>

lemma room_below_members:
  assumes "obj_fits nok bps x" and "\<And>y. obj_fits nok bps y \<Longrightarrow> height y \<le> height x \<Longrightarrow> room_like nc bps rec y"
  shows "room_below nc bps rec x"
proof (cases x)
  case (RSlice en ys)
  then show ?thesis using assms height_member [of _ ys] by (fastforce simp: room_below_def)
next
  case (RArray en ys)
  then show ?thesis using assms height_member [of _ ys] by (fastforce simp: room_below_def)
next
  case (RMap kind vn es)
  have "height v \<le> foldr max (map (\<lambda>(k, v). height v) es) 0" if "(k, v) \<in> set es" for k v
    using that by (induction es) (auto simp: le_max_iff_disj)
  then have "room_like nc bps rec v" if "(k, v) \<in> set es" for k v
    using that assms(2) [of v] assms(1) RMap by fastforce
  then show ?thesis using assms(1) RMap by (auto simp: room_below_def)
qed (auto simp: room_below_def)

lemma room_like_readInto:
  assumes native: "\<And>n p. nok n p \<Longrightarrow> reads_room (fst (nc n p)) (snd (nc n p)) (Write p) (nread n) p"
  shows "obj_fits nok bps v \<Longrightarrow> height v \<le> k \<Longrightarrow> room_like nc bps (readInto nread bps k) v"
proof (induction k arbitrary: v)
  case 0
  then show ?case by (cases v) auto
next
  case (Suc k)
  show ?case unfolding room_like_def
  proof (intro allI impI)
    fix z
    assume lk: "like z v"
    show "reads_room (rdepth nc v) (rframes nc v) (obj_WriteTo v) (readInto nread bps (Suc k) z) v"
    proof (cases v)
      case NilObj
      then show ?thesis using lk by (cases z) (auto simp: rr_skip)
    next
      case (Prim p)
      then obtain q where "z = Prim q" "prim_type q = prim_type p" using lk by (cases z) auto
      then show ?thesis using Prim Suc.prems(1) rr_map [OF rr_flat [OF rb_prim [of p] flat_prim], of Prim] prim_ReadFrom_cong [of q p] by simp
    next
      case (Native n p)
      then obtain q where "z = Native n q" using lk by (cases z) auto
      then show ?thesis using Native Suc.prems(1) rr_map [OF native [of n p], of "Native n"] by simp
    next
      case (Struct bp vs)
      then obtain zs where z: "z = Struct bp zs" using lk by (cases z) auto
      have sub: "room_like nc bps (readInto nread bps k) x \<and> room_below nc bps (readInto nread bps k) x \<and>
          rdepth nc x \<le> foldr max (map (rdepth nc) vs) 0" if x: "x \<in> set vs" for x
      proof -
        have ok: "obj_fits nok bps x" and h: "height x \<le> k"
          using Suc.prems Struct x height_member [OF x] by auto
        have "room_below nc bps (readInto nread bps k) x" using Suc.IH h by (intro room_below_members [OF ok]) force
        then show ?thesis using Suc.IH [OF ok h] rdepth_member [OF x] by simp
      qed
      have "list_all2 (\<lambda>f v. field_fits bps (Spec f) v) (Fields bp) vs" using Suc.prems(1) Struct by simp
      from rr_frame [OF rr_map [OF rr_fields [OF this sub], of "Struct bp"]]
      show ?thesis using Struct z by simp
    next
      case (Alias bp w)
      then obtain y where "z = Alias bp y" "like y w" using lk by (cases z) auto
      moreover have "room_like nc bps (readInto nread bps k) w" using Suc Alias by simp
      ultimately show ?thesis using Alias rr_map [of _ _ _ _ w "Alias bp"] by (simp add: room_like_def)
    qed (use lk in \<open>cases z; auto\<close>)+
  qed
qed

lemma rr_obj:
  assumes native: "\<And>n p. nok n p \<Longrightarrow> reads_room (fst (nc n p)) (snd (nc n p)) (Write p) (nread n) p"
    and safe: "\<And>n. rsafe (nread n)"
    and c: "prims_concrete bps" and new: "New bps t = Some z" and lk: "like z v" and ok: "obj_fits nok bps v"
  shows "reads_room (rdepth nc v) (rframes nc v) (obj_WriteTo v) (obj_ReadFrom nread bps z) v"
proof -
  have "room_like nc bps (readInto nread bps (max (height v) readFuel)) v"
    by (rule room_like_readInto [OF native ok]) auto
  then have "reads_room (rdepth nc v) (rframes nc v) (obj_WriteTo v) (readInto nread bps (max (height v) readFuel) z) v"
    using lk by (simp add: room_like_def)
  then show ?thesis using readInto_fuel [OF c safe New_leafy [OF c new]] by simp
qed

subsection \<open>The bytes a writer is charged\<close>

text \<open>A writer under a ledger that succeeds was charged what it reports, and stayed within the limit.\<close>

definition pays :: "writer \<Rightarrow> bool" where
  "pays W \<longleftrightarrow>
     (\<forall>w n w' b. W w = (None, n, w') \<longrightarrow> wb w = Some b \<longrightarrow> nbytes b \<le> MaxCodecBytes \<longrightarrow>
        (\<exists>b'. wb w' = Some b' \<and> nbytes b' = nbytes b + n \<and> nbytes b' \<le> MaxCodecBytes))"

named_theorems pays_intros

lemma pays_flat: "flat W \<Longrightarrow> pays W"
  unfolding flat_def pays_def by (fastforce simp: spend_def fits_def)

lemmas pays_leaves [pays_intros] =
  flat_Write [THEN pays_flat] flat_skip [THEN pays_flat] flat_fail [THEN pays_flat] flat_fixed [THEN pays_flat]
  flat_words [THEN pays_flat] flat_strings [THEN pays_flat] flat_prim [THEN pays_flat]

lemma pays_seq [pays_intros]:
  assumes "pays A" "pays B" shows "pays (wseq A B)"
  unfolding pays_def
proof (intro allI impI)
  fix w n w' b
  assume "wseq A B w = (None, n, w')" and b: "wb w = Some b" "nbytes b \<le> MaxCodecBytes"
  then obtain n1 w1 n2 where s: "A w = (None, n1, w1)" "B w1 = (None, n2, w')" "n = n1 + n2"
    by (auto simp: wseq_def split: prod.splits option.splits)
  obtain b1 where b1: "wb w1 = Some b1" "nbytes b1 = nbytes b + n1" "nbytes b1 \<le> MaxCodecBytes"
    using assms(1) s(1) b unfolding pays_def by blast
  obtain b2 where "wb w' = Some b2" "nbytes b2 = nbytes b1 + n2" "nbytes b2 \<le> MaxCodecBytes"
    using assms(2) s(2) b1 unfolding pays_def by blast
  then show "\<exists>b'. wb w' = Some b' \<and> nbytes b' = nbytes b + n \<and> nbytes b' \<le> MaxCodecBytes" using b1 s(3) by auto
qed

lemma pays_frame [pays_intros]:
  assumes "pays W" shows "pays (wframe W)"
  unfolding pays_def
proof (intro allI impI)
  fix w n w' b
  assume "wframe W w = (None, n, w')" and b: "wb w = Some b" "nbytes b \<le> MaxCodecBytes"
  then obtain b1 w1 where f: "enter (attach (wb w)) = (None, b1)" "W (w\<lparr>wb := Some b1\<rparr>) = (None, n, w1)"
    "w' = w1\<lparr>wb := detach (wb w) (wb w1)\<rparr>" by (auto elim: wframe_ok)
  have "nbytes b1 = nbytes b" using f(1) b by (auto simp: enter_ok_iff attach_def)
  then obtain b2 where "wb w1 = Some b2" "nbytes b2 = nbytes b + n" "nbytes b2 \<le> MaxCodecBytes"
    using assms f(2) b unfolding pays_def by fastforce
  then show "\<exists>b'. wb w' = Some b' \<and> nbytes b' = nbytes b + n \<and> nbytes b' \<le> MaxCodecBytes"
    using f(3) b by (auto simp: detach_def exit_def)
qed

lemma pays_all [pays_intros]: "(\<And>W. W \<in> set ws \<Longrightarrow> pays W) \<Longrightarrow> pays (writeAll ws)"
  by (induction ws) (auto intro!: pays_intros)

lemma pays_pairs: "pays (writeAll (map (\<lambda>(kb, vb). wseq (Write kb) (Write vb)) ps))"
  by (rule pays_all) (auto intro!: pays_intros)

lemma pays_elem [pays_intros]: "pays W \<Longrightarrow> pays (elem_WriteTo en v W)"
  unfolding elem_WriteTo_def interfaceValue_WriteTo_def ptrValue_WriteTo_def
  by (auto intro!: pays_frame pays_seq pays_leaves)

lemma pays_field [pays_intros]: "pays W \<Longrightarrow> pays (writeField sp v W)"
  unfolding writeField_def ShortTypeEncoder_def ObjectType_WriteTo_def
  by (auto intro!: pays_seq pays_leaves split: option.splits spec.splits)

lemma pays_obj: "pays (obj_WriteTo v)"
proof (induction v rule: obj_WriteTo.induct)
  case (5 bp vs)
  then show ?case by (auto intro!: pays_frame pays_all pays_field dest!: set_zip_rightD)
next
  case (7 en vs)
  then show ?case unfolding obj_WriteTo.simps sliceValue_WriteTo_def writeElems_def writePresence_def
    by (auto intro!: pays_frame pays_seq pays_all pays_elem pays_leaves)
next
  case (8 en vs)
  then show ?case unfolding obj_WriteTo.simps arrayValue_WriteTo_def writeElems_def writePresence_def
    by (auto intro!: pays_frame pays_all pays_elem)
next
  case (9 kind vn es)
  then show ?case unfolding obj_WriteTo.simps mapValue_WriteTo_def
    by (auto intro!: pays_frame pays_seq pays_pairs pays_leaves split: option.splits sum.splits)
qed (auto intro!: pays_leaves)

subsection \<open>Encode and Decode\<close>

lemma decode_encode_room:
  assumes native: "\<And>n p. nok n p \<Longrightarrow> reads_room (fst (nc n p)) (snd (nc n p)) (Write p) (nread n) p"
    and safe: "\<And>n. rsafe (nread n)"
    and c: "prims_concrete bps" and named: "named_ok bps (ObjectType v) v" and ok: "obj_fits nok bps v"
    and rm: "rdepth nc v \<le> MaxBlueprintDepth" "rframes nc v \<le> MaxCodecFrames"
    and tag: "reads_back (enc (ObjectType v)) dec (ObjectType v)" and fl: "flat (enc (ObjectType v))"
    and encoded: "EncodeBytes enc v = Inr bs"
  shows "Decode nread bps dec \<lparr>inp = bs @ rest, rb = None\<rparr> = (Inr v, length bs, \<lparr>inp = rest, rb = None\<rparr>)"
proof -
  obtain z where z: "New bps (ObjectType v) = Some z" "like z v" using named by (auto simp: named_ok_def split: option.splits)
  let ?w0 = "\<lparr>out = [], wb = Some fresh_budget\<rparr>"
  obtain n w' where "wseq (enc (ObjectType v)) (obj_WriteTo v) ?w0 = (None, n, w')" and bs: "bs = out w'"
    using encoded by (auto simp: EncodeBytes_def Encode_def wattach_def attach_def split: prod.splits option.splits)
  then obtain n1 w1 n2 where a: "enc (ObjectType v) ?w0 = (None, n1, w1)" and b: "obj_WriteTo v w1 = (None, n2, w')"
    by (auto simp: wseq_def split: prod.splits option.splits)
  from tag a obtain bs1 where o1: "out w1 = bs1" "length bs1 = n1"
    and r1: "\<And>rest ob. led_le ob (Some fresh_budget) \<Longrightarrow> \<exists>ob'. dec \<lparr>inp = bs1 @ rest, rb = ob\<rparr> =
      (Inr (ObjectType v), n1, \<lparr>inp = rest, rb = ob'\<rparr>) \<and> keeps ob ob' \<and> led_le ob' (wb w1)"
    by (rule reads_backE) auto
  obtain b1 where b1: "wb w1 = Some b1" "nbytes b1 \<le> MaxCodecBytes"
    using pays_flat [OF fl] a unfolding pays_def by (fastforce simp: fresh_budget_def)
  then have n2: "n2 \<le> MaxCodecBytes" using pays_obj [of v] b unfolding pays_def by fastforce
  from rr_obj [OF native safe c z ok] b obtain bs2 where o2: "out w' = bs1 @ bs2" "length bs2 = n2"
    and r2: "\<And>rest b. room_for (rdepth nc v) (rframes nc v) n2 b \<Longrightarrow> \<exists>b'. obj_ReadFrom nread bps z \<lparr>inp = bs2 @ rest, rb = Some b\<rparr> =
      (Inr v, n2, \<lparr>inp = rest, rb = Some b'\<rparr>) \<and> charged_at_most (rframes nc v) n2 b b'"
    by (rule reads_roomE) (auto simp: o1)
  have d: "dec \<lparr>inp = bs1 @ bs2 @ rest, rb = None\<rparr> = (Inr (ObjectType v), n1, \<lparr>inp = bs2 @ rest, rb = None\<rparr>)"
    using r1 [of None "bs2 @ rest"] by (auto simp: keeps_def)
  have "room_for (rdepth nc v) (rframes nc v) n2 fresh_budget" using rm n2 by (simp add: room_for_def fresh_budget_def)
  from r2 [OF this, of rest] obtain b' where
    "obj_ReadFrom nread bps z \<lparr>inp = bs2 @ rest, rb = Some fresh_budget\<rparr> = (Inr v, n2, \<lparr>inp = rest, rb = Some b'\<rparr>)" by blast
  with d show ?thesis using z(1) bs o1 o2 by (simp add: Decode_def rbind_def rattach_def attach_def)
qed

end
