(* ===== verification/Native_Values.thy ===== *)
theory Native_Values
  imports Scalars
begin

text \<open>
  Object views over native Go values: \<^verbatim>\<open>src/astral/int_values.go\<close>, \<^verbatim>\<open>bool_value.go\<close> and
  \<^verbatim>\<open>string_value.go\<close>.  A \<^verbatim>\<open>reflect.Value\<close> of an integer kind is the word it holds; \<open>settable\<close> is what
  \<^verbatim>\<open>CanSet\<close> answers.  Setting a value that is not settable panics in Go; the integer views refuse
  to read into one before they touch the stream, the JSON readers do not check.

  The locale \<open>native_view\<close> is what the reflective codec relies on: a view writes the bytes of
  the astral type of the same width and reads them back.
\<close>

subsection \<open>Integers\<close>

definition cannotSet :: error where
  "cannotSet = ErrMsg ''cannot set value''"

definition panicked :: error where
  "panicked = ErrMsg ''reflect.Value.Set using unaddressable value''"

definition uint8Value_ObjectType :: string where
  "uint8Value_ObjectType = ''uint8''"

definition uint8Value_WriteTo :: "8 word \<Rightarrow> writer" where
  "uint8Value_WriteTo i w =
     (case Write (nat_be 1 (unat i)) w of (Some e, n, w1) \<Rightarrow> (Some e, 0, w1) | (None, n, w1) \<Rightarrow> (None, 1, w1))"

definition uint8Value_ReadFrom :: "bool \<Rightarrow> 8 word reader" where
  "uint8Value_ReadFrom settable r =
     (if \<not> settable then (Inl cannotSet, 0, r)
      else case ReadFull 1 r of
        (Inl e, n, r1) \<Rightarrow> (Inl e, 0, r1)
      | (Inr bs, n, r1) \<Rightarrow> (Inr (of_nat (be_nat bs)), 1, r1))"

definition uint8Value_MarshalJSON :: "8 word \<Rightarrow> string" where
  "uint8Value_MarshalJSON i = formatUint 10 (unat i)"

definition uint8Value_UnmarshalJSON :: "bool \<Rightarrow> string \<Rightarrow> 8 word res" where
  "uint8Value_UnmarshalJSON settable bytes =
     (case parseUintText bytes of Inl e \<Rightarrow> Inl e | Inr v \<Rightarrow> if settable then Inr v else Inl panicked)"

definition uint8Value_String :: "8 word \<Rightarrow> string" where
  "uint8Value_String i = formatUint 10 (unat i)"

definition uint16Value_ObjectType :: string where
  "uint16Value_ObjectType = ''uint16''"

definition uint16Value_WriteTo :: "16 word \<Rightarrow> writer" where
  "uint16Value_WriteTo i w =
     (case Write (nat_be 2 (unat i)) w of (Some e, n, w1) \<Rightarrow> (Some e, 0, w1) | (None, n, w1) \<Rightarrow> (None, 2, w1))"

definition uint16Value_ReadFrom :: "bool \<Rightarrow> 16 word reader" where
  "uint16Value_ReadFrom settable r =
     (if \<not> settable then (Inl cannotSet, 0, r)
      else case ReadFull 2 r of
        (Inl e, n, r1) \<Rightarrow> (Inl e, 0, r1)
      | (Inr bs, n, r1) \<Rightarrow> (Inr (of_nat (be_nat bs)), 2, r1))"

definition uint16Value_MarshalJSON :: "16 word \<Rightarrow> string" where
  "uint16Value_MarshalJSON i = formatUint 10 (unat i)"

definition uint16Value_UnmarshalJSON :: "bool \<Rightarrow> string \<Rightarrow> 16 word res" where
  "uint16Value_UnmarshalJSON settable bytes =
     (case parseUintText bytes of Inl e \<Rightarrow> Inl e | Inr v \<Rightarrow> if settable then Inr v else Inl panicked)"

definition uint16Value_String :: "16 word \<Rightarrow> string" where
  "uint16Value_String i = formatUint 10 (unat i)"

definition uint32Value_ObjectType :: string where
  "uint32Value_ObjectType = ''uint32''"

definition uint32Value_WriteTo :: "32 word \<Rightarrow> writer" where
  "uint32Value_WriteTo i w =
     (case Write (nat_be 4 (unat i)) w of (Some e, n, w1) \<Rightarrow> (Some e, 0, w1) | (None, n, w1) \<Rightarrow> (None, 4, w1))"

definition uint32Value_ReadFrom :: "bool \<Rightarrow> 32 word reader" where
  "uint32Value_ReadFrom settable r =
     (if \<not> settable then (Inl cannotSet, 0, r)
      else case ReadFull 4 r of
        (Inl e, n, r1) \<Rightarrow> (Inl e, 0, r1)
      | (Inr bs, n, r1) \<Rightarrow> (Inr (of_nat (be_nat bs)), 4, r1))"

definition uint32Value_MarshalJSON :: "32 word \<Rightarrow> string" where
  "uint32Value_MarshalJSON i = formatUint 10 (unat i)"

definition uint32Value_UnmarshalJSON :: "bool \<Rightarrow> string \<Rightarrow> 32 word res" where
  "uint32Value_UnmarshalJSON settable bytes =
     (case parseUintText bytes of Inl e \<Rightarrow> Inl e | Inr v \<Rightarrow> if settable then Inr v else Inl panicked)"

definition uint32Value_String :: "32 word \<Rightarrow> string" where
  "uint32Value_String i = formatUint 10 (unat i)"

definition uint64Value_ObjectType :: string where
  "uint64Value_ObjectType = ''uint64''"

definition uint64Value_WriteTo :: "64 word \<Rightarrow> writer" where
  "uint64Value_WriteTo i w =
     (case Write (nat_be 8 (unat i)) w of (Some e, n, w1) \<Rightarrow> (Some e, 0, w1) | (None, n, w1) \<Rightarrow> (None, 8, w1))"

definition uint64Value_ReadFrom :: "bool \<Rightarrow> 64 word reader" where
  "uint64Value_ReadFrom settable r =
     (if \<not> settable then (Inl cannotSet, 0, r)
      else case ReadFull 8 r of
        (Inl e, n, r1) \<Rightarrow> (Inl e, 0, r1)
      | (Inr bs, n, r1) \<Rightarrow> (Inr (of_nat (be_nat bs)), 8, r1))"

definition uint64Value_MarshalJSON :: "64 word \<Rightarrow> string" where
  "uint64Value_MarshalJSON i = formatUint 10 (unat i)"

definition uint64Value_UnmarshalJSON :: "bool \<Rightarrow> string \<Rightarrow> 64 word res" where
  "uint64Value_UnmarshalJSON settable bytes =
     (case parseUintText bytes of Inl e \<Rightarrow> Inl e | Inr v \<Rightarrow> if settable then Inr v else Inl panicked)"

definition uint64Value_String :: "64 word \<Rightarrow> string" where
  "uint64Value_String i = formatUint 10 (unat i)"

definition int8Value_ObjectType :: string where
  "int8Value_ObjectType = ''int8''"

definition int8Value_WriteTo :: "8 word \<Rightarrow> writer" where
  "int8Value_WriteTo i w =
     (case Write (nat_be 1 (unat i)) w of (Some e, n, w1) \<Rightarrow> (Some e, 0, w1) | (None, n, w1) \<Rightarrow> (None, 1, w1))"

definition int8Value_ReadFrom :: "bool \<Rightarrow> 8 word reader" where
  "int8Value_ReadFrom settable r =
     (if \<not> settable then (Inl cannotSet, 0, r)
      else case ReadFull 1 r of
        (Inl e, n, r1) \<Rightarrow> (Inl e, 0, r1)
      | (Inr bs, n, r1) \<Rightarrow> (Inr (of_nat (be_nat bs)), 1, r1))"

definition int8Value_MarshalJSON :: "8 word \<Rightarrow> string" where
  "int8Value_MarshalJSON i = formatInt (sint i)"

definition int8Value_UnmarshalJSON :: "bool \<Rightarrow> string \<Rightarrow> 8 word res" where
  "int8Value_UnmarshalJSON settable bytes =
     (case parseIntText bytes of Inl e \<Rightarrow> Inl e | Inr v \<Rightarrow> if settable then Inr v else Inl panicked)"

definition int8Value_String :: "8 word \<Rightarrow> string" where
  "int8Value_String i = formatInt (sint i)"

definition int16Value_ObjectType :: string where
  "int16Value_ObjectType = ''int16''"

definition int16Value_WriteTo :: "16 word \<Rightarrow> writer" where
  "int16Value_WriteTo i w =
     (case Write (nat_be 2 (unat i)) w of (Some e, n, w1) \<Rightarrow> (Some e, 0, w1) | (None, n, w1) \<Rightarrow> (None, 2, w1))"

definition int16Value_ReadFrom :: "bool \<Rightarrow> 16 word reader" where
  "int16Value_ReadFrom settable r =
     (if \<not> settable then (Inl cannotSet, 0, r)
      else case ReadFull 2 r of
        (Inl e, n, r1) \<Rightarrow> (Inl e, 0, r1)
      | (Inr bs, n, r1) \<Rightarrow> (Inr (of_nat (be_nat bs)), 2, r1))"

definition int16Value_MarshalJSON :: "16 word \<Rightarrow> string" where
  "int16Value_MarshalJSON i = formatInt (sint i)"

definition int16Value_UnmarshalJSON :: "bool \<Rightarrow> string \<Rightarrow> 16 word res" where
  "int16Value_UnmarshalJSON settable bytes =
     (case parseIntText bytes of Inl e \<Rightarrow> Inl e | Inr v \<Rightarrow> if settable then Inr v else Inl panicked)"

definition int16Value_String :: "16 word \<Rightarrow> string" where
  "int16Value_String i = formatInt (sint i)"

definition int32Value_ObjectType :: string where
  "int32Value_ObjectType = ''int32''"

definition int32Value_WriteTo :: "32 word \<Rightarrow> writer" where
  "int32Value_WriteTo i w =
     (case Write (nat_be 4 (unat i)) w of (Some e, n, w1) \<Rightarrow> (Some e, 0, w1) | (None, n, w1) \<Rightarrow> (None, 4, w1))"

definition int32Value_ReadFrom :: "bool \<Rightarrow> 32 word reader" where
  "int32Value_ReadFrom settable r =
     (if \<not> settable then (Inl cannotSet, 0, r)
      else case ReadFull 4 r of
        (Inl e, n, r1) \<Rightarrow> (Inl e, 0, r1)
      | (Inr bs, n, r1) \<Rightarrow> (Inr (of_nat (be_nat bs)), 4, r1))"

definition int32Value_MarshalJSON :: "32 word \<Rightarrow> string" where
  "int32Value_MarshalJSON i = formatInt (sint i)"

definition int32Value_UnmarshalJSON :: "bool \<Rightarrow> string \<Rightarrow> 32 word res" where
  "int32Value_UnmarshalJSON settable bytes =
     (case parseIntText bytes of Inl e \<Rightarrow> Inl e | Inr v \<Rightarrow> if settable then Inr v else Inl panicked)"

definition int32Value_String :: "32 word \<Rightarrow> string" where
  "int32Value_String i = formatInt (sint i)"

definition int64Value_ObjectType :: string where
  "int64Value_ObjectType = ''int64''"

definition int64Value_WriteTo :: "64 word \<Rightarrow> writer" where
  "int64Value_WriteTo i w =
     (case Write (nat_be 8 (unat i)) w of (Some e, n, w1) \<Rightarrow> (Some e, 0, w1) | (None, n, w1) \<Rightarrow> (None, 8, w1))"

definition int64Value_ReadFrom :: "bool \<Rightarrow> 64 word reader" where
  "int64Value_ReadFrom settable r =
     (if \<not> settable then (Inl cannotSet, 0, r)
      else case ReadFull 8 r of
        (Inl e, n, r1) \<Rightarrow> (Inl e, 0, r1)
      | (Inr bs, n, r1) \<Rightarrow> (Inr (of_nat (be_nat bs)), 8, r1))"

definition int64Value_MarshalJSON :: "64 word \<Rightarrow> string" where
  "int64Value_MarshalJSON i = formatInt (sint i)"

definition int64Value_UnmarshalJSON :: "bool \<Rightarrow> string \<Rightarrow> 64 word res" where
  "int64Value_UnmarshalJSON settable bytes =
     (case parseIntText bytes of Inl e \<Rightarrow> Inl e | Inr v \<Rightarrow> if settable then Inr v else Inl panicked)"

definition int64Value_String :: "64 word \<Rightarrow> string" where
  "int64Value_String i = formatInt (sint i)"

subsection \<open>Booleans and strings\<close>

definition boolValue_WriteTo :: "bool \<Rightarrow> writer" where
  "boolValue_WriteTo b w =
     (case Write [if b then 1 else 0] w of (Some e, n, w1) \<Rightarrow> (Some e, 0, w1) | (None, n, w1) \<Rightarrow> (None, 1, w1))"

definition boolValue_ReadFrom :: "bool \<Rightarrow> bool reader" where
  "boolValue_ReadFrom settable r =
     (case ReadFull 1 r of
        (Inl e, n, r1) \<Rightarrow> (Inl e, 0, r1)
      | (Inr bs, n, r1) \<Rightarrow> if settable then (Inr (bs ! 0 \<noteq> 0), 1, r1) else (Inl panicked, 1, r1))"

text \<open>A native string is coded as a \<^verbatim>\<open>String32\<close>.\<close>

definition stringValue_WriteTo :: "string \<Rightarrow> writer" where
  "stringValue_WriteTo s = String32_WriteTo s"

definition stringValue_ReadFrom :: "bool \<Rightarrow> string reader" where
  "stringValue_ReadFrom settable = rbind String32_ReadFrom (\<lambda>s. if settable then rret s else rfail panicked)"

subsection \<open>The contract\<close>

locale native_view =
  fixes view_write :: "'a \<Rightarrow> writer" and view_read :: "bool \<Rightarrow> 'a reader"
    and astral_write :: "'a \<Rightarrow> writer" and astral_read :: "'a reader"
  assumes same_bytes: "view_write v = astral_write v"
    and astral_codec: "reads_back (astral_write v) astral_read v"
    and same_read: "view_read True = astral_read"
    and refuses: "view_read False r \<noteq> (Inr v, n, r1)"
begin

lemma view_round_trip: "reads_back (view_write v) (view_read True) v"
  using astral_codec [of v] by (simp add: same_bytes same_read)

text \<open>A view and the astral type can be exchanged across the wire.\<close>

lemma view_reads_astral: "reads_back (astral_write v) (view_read True) v"
  and astral_reads_view: "reads_back (view_write v) astral_read v"
  using astral_codec [of v] by (simp_all add: same_bytes same_read)

end

lemma widths: "LENGTH(8) div 8 = (1 :: nat)" "LENGTH(16) div 8 = (2 :: nat)" "LENGTH(32) div 8 = (4 :: nat)" "LENGTH(64) div 8 = (8 :: nat)"
  by simp_all

text \<open>The integer views print and parse the decimal text of the value.\<close>

locale native_int = native_view view_write view_read astral_write astral_read
  for view_write :: "'a \<Rightarrow> writer" and view_read :: "bool \<Rightarrow> 'a reader" and astral_write :: "'a \<Rightarrow> writer" and astral_read :: "'a reader" +
  fixes to_json :: "'a \<Rightarrow> string" and from_json :: "bool \<Rightarrow> string \<Rightarrow> 'a res"
  assumes json_round_trip: "from_json True (to_json v) = Inr v"
begin

lemma json_injective: "to_json v = to_json u \<Longrightarrow> v = u"
  by (metis json_round_trip sum.inject(2))

end

interpretation uint8v: native_int uint8Value_WriteTo uint8Value_ReadFrom Uint8_WriteTo Uint8_ReadFrom uint8Value_MarshalJSON uint8Value_UnmarshalJSON
proof unfold_locales
  show "uint8Value_WriteTo v = Uint8_WriteTo v" for v
    by (simp only: uint8Value_WriteTo_def Uint8_WriteTo_def writeFixed_def fun_eq_iff widths simp_thms)
  show "uint8Value_ReadFrom True = Uint8_ReadFrom" by (simp only: uint8Value_ReadFrom_def Uint8_ReadFrom_def readFixed_def fun_eq_iff widths simp_thms if_False if_True not_True_eq_False)
qed (simp_all add: u8.round_trip uint8Value_ReadFrom_def uint8Value_MarshalJSON_def uint8Value_UnmarshalJSON_def parseUintText_format)

interpretation uint16v: native_int uint16Value_WriteTo uint16Value_ReadFrom Uint16_WriteTo Uint16_ReadFrom uint16Value_MarshalJSON uint16Value_UnmarshalJSON
proof unfold_locales
  show "uint16Value_WriteTo v = Uint16_WriteTo v" for v
    by (simp only: uint16Value_WriteTo_def Uint16_WriteTo_def writeFixed_def fun_eq_iff widths simp_thms)
  show "uint16Value_ReadFrom True = Uint16_ReadFrom" by (simp only: uint16Value_ReadFrom_def Uint16_ReadFrom_def readFixed_def fun_eq_iff widths simp_thms if_False if_True not_True_eq_False)
qed (simp_all add: u16.round_trip uint16Value_ReadFrom_def uint16Value_MarshalJSON_def uint16Value_UnmarshalJSON_def parseUintText_format)

interpretation uint32v: native_int uint32Value_WriteTo uint32Value_ReadFrom Uint32_WriteTo Uint32_ReadFrom uint32Value_MarshalJSON uint32Value_UnmarshalJSON
proof unfold_locales
  show "uint32Value_WriteTo v = Uint32_WriteTo v" for v
    by (simp only: uint32Value_WriteTo_def Uint32_WriteTo_def writeFixed_def fun_eq_iff widths simp_thms)
  show "uint32Value_ReadFrom True = Uint32_ReadFrom" by (simp only: uint32Value_ReadFrom_def Uint32_ReadFrom_def readFixed_def fun_eq_iff widths simp_thms if_False if_True not_True_eq_False)
qed (simp_all add: u32.round_trip uint32Value_ReadFrom_def uint32Value_MarshalJSON_def uint32Value_UnmarshalJSON_def parseUintText_format)

interpretation uint64v: native_int uint64Value_WriteTo uint64Value_ReadFrom Uint64_WriteTo Uint64_ReadFrom uint64Value_MarshalJSON uint64Value_UnmarshalJSON
proof unfold_locales
  show "uint64Value_WriteTo v = Uint64_WriteTo v" for v
    by (simp only: uint64Value_WriteTo_def Uint64_WriteTo_def writeFixed_def fun_eq_iff widths simp_thms)
  show "uint64Value_ReadFrom True = Uint64_ReadFrom" by (simp only: uint64Value_ReadFrom_def Uint64_ReadFrom_def readFixed_def fun_eq_iff widths simp_thms if_False if_True not_True_eq_False)
qed (simp_all add: u64.round_trip uint64Value_ReadFrom_def uint64Value_MarshalJSON_def uint64Value_UnmarshalJSON_def parseUintText_format)

interpretation int8v: native_int int8Value_WriteTo int8Value_ReadFrom Int8_WriteTo Int8_ReadFrom int8Value_MarshalJSON int8Value_UnmarshalJSON
proof unfold_locales
  show "int8Value_WriteTo v = Int8_WriteTo v" for v
    by (simp only: int8Value_WriteTo_def Int8_WriteTo_def writeFixed_def fun_eq_iff widths simp_thms)
  show "int8Value_ReadFrom True = Int8_ReadFrom" by (simp only: int8Value_ReadFrom_def Int8_ReadFrom_def readFixed_def fun_eq_iff widths simp_thms if_False if_True not_True_eq_False)
qed (simp_all add: i8.round_trip int8Value_ReadFrom_def int8Value_MarshalJSON_def int8Value_UnmarshalJSON_def parseIntText_format)

interpretation int16v: native_int int16Value_WriteTo int16Value_ReadFrom Int16_WriteTo Int16_ReadFrom int16Value_MarshalJSON int16Value_UnmarshalJSON
proof unfold_locales
  show "int16Value_WriteTo v = Int16_WriteTo v" for v
    by (simp only: int16Value_WriteTo_def Int16_WriteTo_def writeFixed_def fun_eq_iff widths simp_thms)
  show "int16Value_ReadFrom True = Int16_ReadFrom" by (simp only: int16Value_ReadFrom_def Int16_ReadFrom_def readFixed_def fun_eq_iff widths simp_thms if_False if_True not_True_eq_False)
qed (simp_all add: i16.round_trip int16Value_ReadFrom_def int16Value_MarshalJSON_def int16Value_UnmarshalJSON_def parseIntText_format)

interpretation int32v: native_int int32Value_WriteTo int32Value_ReadFrom Int32_WriteTo Int32_ReadFrom int32Value_MarshalJSON int32Value_UnmarshalJSON
proof unfold_locales
  show "int32Value_WriteTo v = Int32_WriteTo v" for v
    by (simp only: int32Value_WriteTo_def Int32_WriteTo_def writeFixed_def fun_eq_iff widths simp_thms)
  show "int32Value_ReadFrom True = Int32_ReadFrom" by (simp only: int32Value_ReadFrom_def Int32_ReadFrom_def readFixed_def fun_eq_iff widths simp_thms if_False if_True not_True_eq_False)
qed (simp_all add: i32.round_trip int32Value_ReadFrom_def int32Value_MarshalJSON_def int32Value_UnmarshalJSON_def parseIntText_format)

interpretation int64v: native_int int64Value_WriteTo int64Value_ReadFrom Int64_WriteTo Int64_ReadFrom int64Value_MarshalJSON int64Value_UnmarshalJSON
proof unfold_locales
  show "int64Value_WriteTo v = Int64_WriteTo v" for v
    by (simp only: int64Value_WriteTo_def Int64_WriteTo_def writeFixed_def fun_eq_iff widths simp_thms)
  show "int64Value_ReadFrom True = Int64_ReadFrom" by (simp only: int64Value_ReadFrom_def Int64_ReadFrom_def readFixed_def fun_eq_iff widths simp_thms if_False if_True not_True_eq_False)
qed (simp_all add: i64.round_trip int64Value_ReadFrom_def int64Value_MarshalJSON_def int64Value_UnmarshalJSON_def parseIntText_format)

interpretation boolv: native_view boolValue_WriteTo boolValue_ReadFrom Bool_WriteTo Bool_ReadFrom
proof unfold_locales
  show "boolValue_WriteTo v = Bool_WriteTo v" for v by (simp only: boolValue_WriteTo_def Bool_WriteTo_def fun_eq_iff) simp
  show "boolValue_ReadFrom True = Bool_ReadFrom" by (simp only: boolValue_ReadFrom_def Bool_ReadFrom_def fun_eq_iff if_True simp_thms)
qed (auto simp: boolc.round_trip boolValue_ReadFrom_def split: prod.splits sum.splits)

interpretation stringv: native_view stringValue_WriteTo stringValue_ReadFrom String32_WriteTo String32_ReadFrom
proof unfold_locales
  show "stringValue_ReadFrom True = String32_ReadFrom"
    by (auto simp: stringValue_ReadFrom_def rbind_def rret_def fun_eq_iff split: prod.splits sum.splits)
qed (auto simp: string32.round_trip stringValue_WriteTo_def stringValue_ReadFrom_def rbind_def rfail_def split: prod.splits sum.splits)

end
