(* ===== verification/Go_Values.thy ===== *)
theory Go_Values
  imports Runtime_Codec Native_Values
begin

text \<open>
  The reflective codec on whole Go values: \<^verbatim>\<open>objectify\<close> and \<^verbatim>\<open>Objectified\<close> of \<^verbatim>\<open>src/astral/objectify.go\<close>, which
  choose the view of a value by its kind, over the views of \<open>Objectify\<close> and \<open>Native_Values\<close>.

  A \<open>gtype\<close> is what reflection sees of a type: a named type with a codec of its own, a native
  kind, or a composite.  A struct lists its exported fields in order, embedded \<^verbatim>\<open>EmptyObject\<close>s left
  out, and says how its methods take part: none, an Object whose WriteTo and ReadFrom call
  Objectify on itself, or such an Object with JSON methods as well, which \<^verbatim>\<open>objectify\<close> uses without a
  struct view around it.  A \<open>gval\<close> is a value of such a type.  What an interface holds is a
  pointer to an object of the registry.
\<close>

datatype basicKind = KBool | KUint8 | KUint16 | KUint32 | KUint64 | KInt8 | KInt16 | KInt32 | KInt64 | KString

datatype structKind = PlainStruct | ObjectStruct | ValueStruct

datatype gtype =
    TPrim string
  | TNative string
  | TBasic basicKind
  | TPtr gtype
  | TSlice gtype
  | TArray gtype nat
  | TMap gokind gtype
  | TStruct structKind string "(string \<times> gtype) list"
  | TInterface

datatype gval =
    VPrim prim
  | VNative bytes
  | VNil
  | VPtr gval
  | VList "gval list"
  | VMap "(mapkey \<times> gval) list"
  | VStruct "gval list"
  | VObj obj

definition mistyped :: error where
  "mistyped = ErrMsg ''unsupported type''"

definition elemNeedsPresenceFlag :: "gtype \<Rightarrow> bool" where
  "elemNeedsPresenceFlag t = (case t of TPtr e \<Rightarrow> False | TInterface \<Rightarrow> False | _ \<Rightarrow> True)"

subsection \<open>Native kinds\<close>

definition view_WriteTo :: "basicKind \<Rightarrow> prim \<Rightarrow> writer" where
  "view_WriteTo k p =
     (case p of
        PBool x \<Rightarrow> if k = KBool then boolValue_WriteTo x else wfail mistyped
      | PUint8 x \<Rightarrow> if k = KUint8 then uint8Value_WriteTo x else wfail mistyped
      | PUint16 x \<Rightarrow> if k = KUint16 then uint16Value_WriteTo x else wfail mistyped
      | PUint32 x \<Rightarrow> if k = KUint32 then uint32Value_WriteTo x else wfail mistyped
      | PUint64 x \<Rightarrow> if k = KUint64 then uint64Value_WriteTo x else wfail mistyped
      | PInt8 x \<Rightarrow> if k = KInt8 then int8Value_WriteTo x else wfail mistyped
      | PInt16 x \<Rightarrow> if k = KInt16 then int16Value_WriteTo x else wfail mistyped
      | PInt32 x \<Rightarrow> if k = KInt32 then int32Value_WriteTo x else wfail mistyped
      | PInt64 x \<Rightarrow> if k = KInt64 then int64Value_WriteTo x else wfail mistyped
      | PString32 x \<Rightarrow> if k = KString then stringValue_WriteTo x else wfail mistyped
      | _ \<Rightarrow> wfail mistyped)"

fun view_ReadFrom :: "basicKind \<Rightarrow> prim reader" where
  "view_ReadFrom KBool = rmap PBool (boolValue_ReadFrom True)"
| "view_ReadFrom KUint8 = rmap PUint8 (uint8Value_ReadFrom True)"
| "view_ReadFrom KUint16 = rmap PUint16 (uint16Value_ReadFrom True)"
| "view_ReadFrom KUint32 = rmap PUint32 (uint32Value_ReadFrom True)"
| "view_ReadFrom KUint64 = rmap PUint64 (uint64Value_ReadFrom True)"
| "view_ReadFrom KInt8 = rmap PInt8 (int8Value_ReadFrom True)"
| "view_ReadFrom KInt16 = rmap PInt16 (int16Value_ReadFrom True)"
| "view_ReadFrom KInt32 = rmap PInt32 (int32Value_ReadFrom True)"
| "view_ReadFrom KInt64 = rmap PInt64 (int64Value_ReadFrom True)"
| "view_ReadFrom KString = rmap PString32 (stringValue_ReadFrom True)"

text \<open>The name of the astral type a native kind is coded as.\<close>

fun kind_prim :: "basicKind \<Rightarrow> string" where
  "kind_prim KBool = ''bool''"
| "kind_prim KUint8 = ''uint8''"
| "kind_prim KUint16 = ''uint16''"
| "kind_prim KUint32 = ''uint32''"
| "kind_prim KUint64 = ''uint64''"
| "kind_prim KInt8 = ''int8''"
| "kind_prim KInt16 = ''int16''"
| "kind_prim KInt32 = ''int32''"
| "kind_prim KInt64 = ''int64''"
| "kind_prim KString = ''string32''"

subsection \<open>Dispatch\<close>

text \<open>A nested struct: the frame of its view, and inside it the codec its own methods run.\<close>

definition struct_WriteTo :: "structKind \<Rightarrow> writer list \<Rightarrow> writer" where
  "struct_WriteTo k ws =
     (case k of
        PlainStruct \<Rightarrow> structValue_WriteTo False None ws
      | ObjectStruct \<Rightarrow> structValue_WriteTo False (Some (structValue_WriteTo True None ws)) ws
      | ValueStruct \<Rightarrow> structValue_WriteTo True None ws)"

definition struct_ReadFrom :: "structKind \<Rightarrow> 'a reader list \<Rightarrow> 'a list reader" where
  "struct_ReadFrom k rs =
     (case k of
        PlainStruct \<Rightarrow> structValue_ReadFrom False None rs
      | ObjectStruct \<Rightarrow> structValue_ReadFrom False (Some (structValue_ReadFrom True None rs)) rs
      | ValueStruct \<Rightarrow> structValue_ReadFrom True None rs)"

definition field_writers :: "(string \<times> (gval \<Rightarrow> writer)) list \<Rightarrow> gval list \<Rightarrow> writer list" where
  "field_writers fs vs = map (\<lambda>(f, v). snd f v) (zip fs vs)"

primrec gv_WriteTo :: "gtype \<Rightarrow> gval \<Rightarrow> writer" where
  "gv_WriteTo (TPrim n) = (\<lambda>v. case v of VPrim p \<Rightarrow> if prim_type p = n then prim_WriteTo p else wfail mistyped | _ \<Rightarrow> wfail mistyped)"
| "gv_WriteTo (TNative n) = (\<lambda>v. case v of VNative bs \<Rightarrow> Write bs | _ \<Rightarrow> wfail mistyped)"
| "gv_WriteTo (TBasic k) = (\<lambda>v. case v of VPrim p \<Rightarrow> view_WriteTo k p | _ \<Rightarrow> wfail mistyped)"
| "gv_WriteTo (TPtr t) =
     (\<lambda>v. case v of
        VNil \<Rightarrow> ptrValue_WriteTo False None
      | VPtr x \<Rightarrow> ptrValue_WriteTo False (Some (gv_WriteTo t x))
      | _ \<Rightarrow> wfail mistyped)"
| "gv_WriteTo (TSlice t) =
     (\<lambda>v. case v of VList vs \<Rightarrow> sliceValue_WriteTo (elemNeedsPresenceFlag t) (map (gv_WriteTo t) vs) | _ \<Rightarrow> wfail mistyped)"
| "gv_WriteTo (TArray t n) =
     (\<lambda>v. case v of VList vs \<Rightarrow> arrayValue_WriteTo (elemNeedsPresenceFlag t) (map (gv_WriteTo t) vs) | _ \<Rightarrow> wfail mistyped)"
| "gv_WriteTo (TMap k t) =
     (\<lambda>v. case v of
        VMap es \<Rightarrow> mapValue_WriteTo k (elemNeedsPresenceFlag t) (map (\<lambda>(key, x). (key, gv_WriteTo t x)) es)
      | _ \<Rightarrow> wfail mistyped)"
| "gv_WriteTo (TStruct k n fs) =
     (\<lambda>v. case v of VStruct vs \<Rightarrow> struct_WriteTo k (field_writers (map (map_prod id gv_WriteTo) fs) vs) | _ \<Rightarrow> wfail mistyped)"
| "gv_WriteTo TInterface =
     (\<lambda>v. case v of VObj x \<Rightarrow> elem_WriteTo [] x (obj_WriteTo x) | _ \<Rightarrow> wfail mistyped)"

definition ptr_val :: "gval option \<Rightarrow> gval" where
  "ptr_val p = (case p of None \<Rightarrow> VNil | Some v \<Rightarrow> VPtr v)"

primrec gv_ReadFrom :: "(string \<Rightarrow> bytes reader) \<Rightarrow> registry \<Rightarrow> gtype \<Rightarrow> gval reader" where
  "gv_ReadFrom nread bps (TPrim n) = (case prim_zero n of None \<Rightarrow> rfail mistyped | Some z \<Rightarrow> rmap VPrim (prim_ReadFrom z))"
| "gv_ReadFrom nread bps (TNative n) = rmap VNative (nread n)"
| "gv_ReadFrom nread bps (TBasic k) = rmap VPrim (view_ReadFrom k)"
| "gv_ReadFrom nread bps (TPtr t) = rmap ptr_val (ptrValue_ReadFrom False (gv_ReadFrom nread bps t))"
| "gv_ReadFrom nread bps (TSlice t) =
     rmap VList (sliceValue_ReadFrom (elemNeedsPresenceFlag t) (gv_ReadFrom nread bps t))"
| "gv_ReadFrom nread bps (TArray t n) =
     rmap VList (arrayValue_ReadFrom (elemNeedsPresenceFlag t) (gv_ReadFrom nread bps t) n)"
| "gv_ReadFrom nread bps (TMap k t) =
     rmap VMap (mapValue_ReadFrom k (elemNeedsPresenceFlag t) (gv_ReadFrom nread bps t))"
| "gv_ReadFrom nread bps (TStruct k n fs) =
     rmap VStruct (struct_ReadFrom k (map snd (map (map_prod id (gv_ReadFrom nread bps)) fs)))"
| "gv_ReadFrom nread bps TInterface = rmap VObj (elem_ReadFrom bps (obj_ReadFrom nread bps) [])"

text \<open>\<^verbatim>\<open>Objectify(&x)\<close>: a struct at the root never uses its own methods.\<close>

definition Objectified_WriteTo :: "gtype \<Rightarrow> gval \<Rightarrow> writer" where
  "Objectified_WriteTo t v =
     (case t of
        TStruct k n fs \<Rightarrow>
          (case v of
             VStruct vs \<Rightarrow> structValue_WriteTo True None (field_writers (map (map_prod id gv_WriteTo) fs) vs)
           | _ \<Rightarrow> wfail mistyped)
      | _ \<Rightarrow> gv_WriteTo t v)"

definition Objectified_ReadFrom :: "(string \<Rightarrow> bytes reader) \<Rightarrow> registry \<Rightarrow> gtype \<Rightarrow> gval reader" where
  "Objectified_ReadFrom nread bps t =
     (case t of
        TStruct k n fs \<Rightarrow> rmap VStruct (structValue_ReadFrom True None (map snd (map (map_prod id (gv_ReadFrom nread bps)) fs)))
      | _ \<Rightarrow> gv_ReadFrom nread bps t)"

subsection \<open>Typing\<close>

text \<open>
  \<open>gv_fits\<close>: a value of the type that the wire can carry.  Maps are left out: their values are
  staged outside the ledger, so their round trip needs values without frames.
\<close>

primrec gv_fits :: "(string \<Rightarrow> bytes \<Rightarrow> bool) \<Rightarrow> registry \<Rightarrow> gtype \<Rightarrow> gval \<Rightarrow> bool" where
  "gv_fits nok bps (TPrim n) = (\<lambda>v. case v of VPrim p \<Rightarrow> prim_ok p \<and> prim_type p = n | _ \<Rightarrow> False)"
| "gv_fits nok bps (TNative n) = (\<lambda>v. case v of VNative bs \<Rightarrow> nok n bs | _ \<Rightarrow> False)"
| "gv_fits nok bps (TBasic k) = (\<lambda>v. case v of VPrim p \<Rightarrow> prim_type p = kind_prim k | _ \<Rightarrow> False)"
| "gv_fits nok bps (TPtr t) = (\<lambda>v. case v of VNil \<Rightarrow> True | VPtr x \<Rightarrow> gv_fits nok bps t x | _ \<Rightarrow> False)"
| "gv_fits nok bps (TSlice t) =
     (\<lambda>v. case v of VList vs \<Rightarrow> length vs < 2 ^ 32 \<and> list_all (gv_fits nok bps t) vs | _ \<Rightarrow> False)"
| "gv_fits nok bps (TArray t n) =
     (\<lambda>v. case v of VList vs \<Rightarrow> length vs = n \<and> list_all (gv_fits nok bps t) vs | _ \<Rightarrow> False)"
| "gv_fits nok bps (TMap k t) = (\<lambda>v. False)"
| "gv_fits nok bps (TStruct k n fs) =
     (\<lambda>v. case v of VStruct vs \<Rightarrow> list_all2 (\<lambda>f x. snd f x) (map (map_prod id (gv_fits nok bps)) fs) vs | _ \<Rightarrow> False)"
| "gv_fits nok bps TInterface = (\<lambda>v. case v of VObj x \<Rightarrow> elem_ok bps [] x \<and> obj_ok nok bps x | _ \<Rightarrow> False)"

text \<open>What \<^verbatim>\<open>objectify\<close> accepts: named types it knows and maps with a supported key.\<close>

primrec gtype_ok :: "string list \<Rightarrow> gtype \<Rightarrow> bool" where
  "gtype_ok natives (TPrim n) = (prim_zero n \<noteq> None)"
| "gtype_ok natives (TNative n) = (n \<in> set natives)"
| "gtype_ok natives (TBasic k) = True"
| "gtype_ok natives (TPtr t) = gtype_ok natives t"
| "gtype_ok natives (TSlice t) = gtype_ok natives t"
| "gtype_ok natives (TArray t n) = gtype_ok natives t"
| "gtype_ok natives (TMap k t) = (supportedMapKey k \<noteq> None \<and> gtype_ok natives t)"
| "gtype_ok natives (TStruct k n fs) = list_all (\<lambda>f. snd f) (map (map_prod id (gtype_ok natives)) fs)"
| "gtype_ok natives TInterface = True"

text \<open>Whether values of the type contain maps.\<close>

primrec map_free :: "gtype \<Rightarrow> bool" where
  "map_free (TPrim n) = True"
| "map_free (TNative n) = True"
| "map_free (TBasic k) = True"
| "map_free (TPtr t) = map_free t"
| "map_free (TSlice t) = map_free t"
| "map_free (TArray t n) = map_free t"
| "map_free (TMap k t) = False"
| "map_free (TStruct k n fs) = list_all (\<lambda>f. snd f) (map (map_prod id map_free) fs)"
| "map_free TInterface = True"

subsection \<open>Round trip\<close>

lemma rb_view:
  assumes "prim_type p = kind_prim k"
  shows "reads_back (view_WriteTo k p) (view_ReadFrom k) p"
  using assms
  by (cases k; cases p)
    (simp_all add: view_WriteTo_def rb_map boolv.view_round_trip uint8v.view_round_trip uint16v.view_round_trip uint32v.view_round_trip
      uint64v.view_round_trip int8v.view_round_trip int16v.view_round_trip int32v.view_round_trip int64v.view_round_trip
      stringv.view_round_trip)

lemma rb_interface_slot:
  assumes native: "\<And>n p. nok n p \<Longrightarrow> reads_back (Write p) (nread n) p" and safe: "\<And>n. rsafe (nread n)" and c: "prims_concrete bps"
    and ok: "elem_ok bps [] x" "obj_ok nok bps x"
  shows "reads_back (elem_WriteTo [] x (obj_WriteTo x)) (elem_ReadFrom bps (obj_ReadFrom nread bps) []) x"
proof -
  let ?rec = "readInto nread bps (max (height x) readFuel)"
  have "newReader bps ?rec e = newReader bps (obj_ReadFrom nread bps) e" for e
    using readInto_fuel [OF c safe New_leafy [OF c]] by (auto simp: newReader_def fun_eq_iff split: option.splits)
  then have "elem_ReadFrom bps ?rec [] = elem_ReadFrom bps (obj_ReadFrom nread bps) []"
    by (simp add: elem_ReadFrom_def)
  moreover have "reads_like bps ?rec x" by (rule reads_like_readInto [OF native ok(2)]) auto
  ultimately show ?thesis using rb_elem [OF _ ok(1), of ?rec] by simp
qed

lemma rb_struct_kind:
  "list_all2 (\<lambda>(W, R) v. reads_back W R v) cs vs \<Longrightarrow>
     reads_back (struct_WriteTo k (map fst cs)) (struct_ReadFrom k (map snd cs)) vs"
  by (cases k) (auto simp: struct_WriteTo_def struct_ReadFrom_def structValue_WriteTo_def structValue_ReadFrom_def
      intro!: rb_frame rb_all)

lemma field_codecs:
  assumes "list_all2 (\<lambda>f v. snd f v) (map (map_prod id F) fs) vs"
    and "\<And>n t v. (n, t) \<in> set fs \<Longrightarrow> F t v \<Longrightarrow> reads_back (G t v) (H t) v"
  obtains cs where "field_writers (map (map_prod id G) fs) vs = map fst cs" and "map snd (map (map_prod id H) fs) = map snd cs"
    and "list_all2 (\<lambda>(W, R) v. reads_back W R v) cs vs"
proof
  let ?cs = "map (\<lambda>(f, v). (G (snd f) v, H (snd f))) (zip fs vs)"
  have len: "length fs = length vs" using list_all2_lengthD [OF assms(1)] by simp
  show "field_writers (map (map_prod id G) fs) vs = map fst ?cs"
    using len by (intro nth_equalityI) (simp_all add: field_writers_def)
  show "map snd (map (map_prod id H) fs) = map snd ?cs" using len by (intro nth_equalityI) simp_all
  show "list_all2 (\<lambda>(W, R) v. reads_back W R v) ?cs vs" unfolding list_all2_conv_all_nth
  proof (intro conjI allI impI)
    fix i assume i: "i < length ?cs"
    then have "F (snd (fs ! i)) (vs ! i)" using list_all2_nthD [OF assms(1), of i] len by simp
    moreover have "(fst (fs ! i), snd (fs ! i)) \<in> set fs" using i len by simp
    ultimately have "reads_back (G (snd (fs ! i)) (vs ! i)) (H (snd (fs ! i))) (vs ! i)" using assms(2) by blast
    then show "(\<lambda>(W, R) v. reads_back W R v) (?cs ! i) (vs ! i)" using i by simp
  qed (use len in simp)
qed

lemma rb_gv:
  assumes native: "\<And>n p. nok n p \<Longrightarrow> reads_back (Write p) (nread n) p" and safe: "\<And>n. rsafe (nread n)" and c: "prims_concrete bps"
  shows "gv_fits nok bps t v \<Longrightarrow> reads_back (gv_WriteTo t v) (gv_ReadFrom nread bps t) v"
proof (induction t arbitrary: v)
  case (TPrim n)
  then obtain p where p: "v = VPrim p" "prim_ok p" "prim_type p = n" by (auto split: gval.splits)
  then obtain z where z: "prim_zero n = Some z" using prim_zero_known [of p] by auto
  then have "prim_ReadFrom z = prim_ReadFrom p" using prim_ReadFrom_cong [of z p] prim_zero_type [OF z] p(3) by simp
  then show ?case using rb_map [OF rb_prim [OF p(2)], of VPrim] p z by simp
next
  case (TNative n)
  then show ?case using rb_map [OF native [of n], of _ VNative] by (auto split: gval.splits)
next
  case (TBasic k)
  then show ?case using rb_map [OF rb_view, of _ k VPrim] by (auto split: gval.splits)
next
  case (TPtr t)
  show ?case
  proof (cases v)
    case VNil
    then show ?thesis using rb_map [OF rb_ptr_nil, of ptr_val] by (simp add: ptr_val_def)
  next
    case (VPtr x)
    then show ?thesis using rb_map [OF rb_ptr [OF TPtr.IH [of x], of False], of ptr_val] TPtr.prems by (simp add: ptr_val_def)
  qed (use TPtr.prems in auto)
next
  case (TSlice t)
  then obtain vs where v: "v = VList vs" "length vs < 2 ^ 32" "list_all (gv_fits nok bps t) vs" by (auto split: gval.splits)
  then have "list_all2 (\<lambda>W x. reads_back W (gv_ReadFrom nread bps t) x) (map (gv_WriteTo t) vs) vs"
    using TSlice.IH by (auto simp: list_all_iff list_all2_conv_all_nth)
  from rb_map [OF rb_slice [OF this v(2), of "elemNeedsPresenceFlag t"], of VList] show ?case using v(1) by simp
next
  case (TArray t n)
  then obtain vs where v: "v = VList vs" "length vs = n" "list_all (gv_fits nok bps t) vs" by (auto split: gval.splits)
  then have "list_all2 (\<lambda>W x. reads_back W (gv_ReadFrom nread bps t) x) (map (gv_WriteTo t) vs) vs"
    using TArray.IH by (auto simp: list_all_iff list_all2_conv_all_nth)
  from rb_map [OF rb_array [OF this, of "elemNeedsPresenceFlag t"], of VList] show ?case using v(1,2) by simp
next
  case (TStruct k tn fs)
  then obtain vs where v: "v = VStruct vs" "list_all2 (\<lambda>f x. snd f x) (map (map_prod id (gv_fits nok bps)) fs) vs"
    by (auto split: gval.splits)
  show ?case
  proof (rule field_codecs [OF v(2), of gv_WriteTo "gv_ReadFrom nread bps"])
    show "reads_back (gv_WriteTo t x) (gv_ReadFrom nread bps t) x" if "(n, t) \<in> set fs" "gv_fits nok bps t x" for n t x
      using TStruct.IH [OF that(1)] that(2) by simp
  next
    fix cs
    assume "field_writers (map (map_prod id gv_WriteTo) fs) vs = map fst cs"
      "map snd (map (map_prod id (gv_ReadFrom nread bps)) fs) = map snd cs" "list_all2 (\<lambda>(W, R) v. reads_back W R v) cs vs"
    then show ?thesis using rb_map [OF rb_struct_kind [of cs vs k], of VStruct] v(1) by simp
  qed
next
  case TInterface
  then obtain x where x: "v = VObj x" "elem_ok bps [] x" "obj_ok nok bps x" by (auto split: gval.splits)
  show ?case using rb_map [where f = VObj, OF rb_interface_slot [of nok, OF native safe c x(2,3)]] x(1) by simp
qed (auto split: gval.splits)

lemma rb_objectified:
  assumes "\<And>n p. nok n p \<Longrightarrow> reads_back (Write p) (nread n) p" and "\<And>n. rsafe (nread n)" and "prims_concrete bps" and "gv_fits nok bps t v"
  shows "reads_back (Objectified_WriteTo t v) (Objectified_ReadFrom nread bps t) v"
proof (cases "\<exists>k n fs. t = TStruct k n fs")
  case True
  then obtain k n fs where t: "t = TStruct k n fs" by blast
  have "gv_fits nok bps (TStruct ValueStruct n fs) v" using assms(4) t by simp
  from rb_gv [OF assms(1-3) this] t show ?thesis
    by (auto simp: Objectified_WriteTo_def Objectified_ReadFrom_def struct_WriteTo_def struct_ReadFrom_def split: gval.splits)
next
  case False
  then show ?thesis using rb_gv [OF assms(1-3) assms(4)] by (cases t) (auto simp: Objectified_WriteTo_def Objectified_ReadFrom_def)
qed

end
