(* ===== verification/Values_Room.thy ===== *)
theory Values_Room
  imports Codec_Room Go_Values
begin

text \<open>
  The round trip of Go values by the room of the reader's ledger, as \<open>Codec_Room\<close> has it for runtime
  objects: maps included, and compile-time types that open frames.  The views of
  \<^verbatim>\<open>src/astral/objectify.go\<close> put presence flags in front of some elements; a flagged container is
  one whose elements write and read the flag themselves.
\<close>

subsection \<open>Presence flags\<close>

lemma flat_presence: "flat (writePresence flagged)"
  by (simp add: writePresence_def flat_skip flat_counted presenceFlagOne_def)

lemma rr_presence:
  "reads_room D F W R v \<Longrightarrow> reads_room D F (wseq (writePresence flagged) W) (rbind (readPresence flagged) (\<lambda>_. R)) v"
  by (rule rr_seq_leaf [OF rb_presence flat_presence])

lemma unflag_writeElems: "writeElems flagged ws = writeElems False (map (wseq (writePresence flagged)) ws)"
  by (simp add: writeElems_def writePresence_def [of False] comp_def)

lemma unflag_readElems: "readElems flagged R l = readElems False (rbind (readPresence flagged) (\<lambda>_. R)) l"
  by (induction l) (simp_all add: readPresence_def [of False] rbind_assoc)

lemma unflag_slice:
  "sliceValue_WriteTo flagged ws = sliceValue_WriteTo False (map (wseq (writePresence flagged)) ws)"
  "sliceValue_ReadFrom flagged R = sliceValue_ReadFrom False (rbind (readPresence flagged) (\<lambda>_. R))"
  by (simp_all add: sliceValue_WriteTo_def sliceValue_ReadFrom_def unflag_writeElems [of flagged] unflag_readElems [of flagged])

lemma unflag_array:
  "arrayValue_WriteTo flagged ws = arrayValue_WriteTo False (map (wseq (writePresence flagged)) ws)"
  "arrayValue_ReadFrom flagged R l = arrayValue_ReadFrom False (rbind (readPresence flagged) (\<lambda>_. R)) l"
  by (simp_all add: arrayValue_WriteTo_def arrayValue_ReadFrom_def unflag_writeElems [of flagged] unflag_readElems [of flagged])

lemma unflag_stagePairs:
  "stagePairs width flagged es = stagePairs width False (map (\<lambda>(k, W). (k, wseq (writePresence flagged) W)) es)"
proof (induction es)
  case (Cons e es)
  have "wseq (writePresence False) W = W" for W by (simp add: writePresence_def)
  then show ?case using Cons by (cases e) (simp only: stagePairs.simps list.map prod.case)
qed simp

lemma unflag_readEntries: "readEntries width flagged R l m = readEntries width False (rbind (readPresence flagged) (\<lambda>_. R)) l m"
  by (induction l arbitrary: m) (simp_all add: readPresence_def [of False] rbind_assoc)

lemma unflag_map:
  "mapValue_WriteTo kind flagged es = mapValue_WriteTo kind False (map (\<lambda>(k, W). (k, wseq (writePresence flagged) W)) es)"
  "mapValue_ReadFrom kind flagged R = mapValue_ReadFrom kind False (rbind (readPresence flagged) (\<lambda>_. R))"
  by (cases "supportedMapKey kind";
      simp add: mapValue_WriteTo_def mapValue_ReadFrom_def unflag_stagePairs [of _ flagged] unflag_readEntries [of _ flagged])+

lemma rr_mapValue:
  assumes width: "supportedMapKey kind = Some width" and ok: "entries_ok width es"
    and el: "\<And>e. e \<in> set es \<Longrightarrow> reads_room D (f (snd e)) (g (snd e)) R (snd e)"
  shows "reads_room (Suc D) (Suc (sum_list (map (\<lambda>e. f (snd e)) es)))
    (mapValue_WriteTo kind False (map (\<lambda>(k, v). (k, g v)) es)) (mapValue_ReadFrom kind False R) es"
proof -
  have len: "length es < 2 ^ 32" using ok by (simp add: entries_ok_def)
  have "reads_room D (sum_list (map (\<lambda>e. f (snd e)) es)) (wseq (writeFixed (of_nat (length es) :: 32 word))
      (case stagePairs width False (map (\<lambda>(k, v). (k, g v)) es) of Inl e \<Rightarrow> wfail e | Inr ps \<Rightarrow> pairs_writer (sort_key fst ps)))
      (rbind (readFixed :: 32 word reader) (\<lambda>l. readEntries width False R (unat l) [])) es"
    using rr_entries [where f = f and g = g and D = D and R = R, OF ok el] len
    by (intro rr_seq_leaf [OF rb_fixed flat_fixed]) (simp_all add: unat_of_nat_small)
  from rr_frame [OF this] show ?thesis
    unfolding mapValue_WriteTo_def mapValue_ReadFrom_def pairs_writer_def width option.case length_map .
qed

subsection \<open>Values\<close>

text \<open>
  As \<open>gv_fits\<close>, with maps: a map value is its entries in the order of their encoded keys.
  \<open>gdepth\<close> and \<open>gframes\<close> bound the levels and the frames the reader opens.
\<close>

primrec gv_carried :: "(string \<Rightarrow> bytes \<Rightarrow> bool) \<Rightarrow> registry \<Rightarrow> gtype \<Rightarrow> gval \<Rightarrow> bool" where
  "gv_carried nok bps (TPrim n) = (\<lambda>v. case v of VPrim p \<Rightarrow> prim_ok p \<and> prim_type p = n | _ \<Rightarrow> False)"
| "gv_carried nok bps (TNative n) = (\<lambda>v. case v of VNative bs \<Rightarrow> nok n bs | _ \<Rightarrow> False)"
| "gv_carried nok bps (TBasic k) = (\<lambda>v. case v of VPrim p \<Rightarrow> prim_type p = kind_prim k | _ \<Rightarrow> False)"
| "gv_carried nok bps (TPtr t) = (\<lambda>v. case v of VNil \<Rightarrow> True | VPtr x \<Rightarrow> gv_carried nok bps t x | _ \<Rightarrow> False)"
| "gv_carried nok bps (TSlice t) =
     (\<lambda>v. case v of VList vs \<Rightarrow> length vs < 2 ^ 32 \<and> list_all (gv_carried nok bps t) vs | _ \<Rightarrow> False)"
| "gv_carried nok bps (TArray t n) =
     (\<lambda>v. case v of VList vs \<Rightarrow> length vs = n \<and> list_all (gv_carried nok bps t) vs | _ \<Rightarrow> False)"
| "gv_carried nok bps (TMap k t) =
     (\<lambda>v. case v of
        VMap es \<Rightarrow> (case supportedMapKey k of None \<Rightarrow> False | Some width \<Rightarrow> entries_ok width es) \<and>
          list_all (\<lambda>e. gv_carried nok bps t (snd e)) es
      | _ \<Rightarrow> False)"
| "gv_carried nok bps (TStruct k n fs) =
     (\<lambda>v. case v of VStruct vs \<Rightarrow> list_all2 (\<lambda>f x. snd f x) (map (map_prod id (gv_carried nok bps)) fs) vs | _ \<Rightarrow> False)"
| "gv_carried nok bps TInterface = (\<lambda>v. case v of VObj x \<Rightarrow> elem_ok bps [] x \<and> obj_fits nok bps x | _ \<Rightarrow> False)"

definition struct_levels :: "structKind \<Rightarrow> nat" where
  "struct_levels k = (case k of ObjectStruct \<Rightarrow> 2 | _ \<Rightarrow> 1)"

definition field_costs :: "(string \<times> (gval \<Rightarrow> nat)) list \<Rightarrow> gval list \<Rightarrow> nat list" where
  "field_costs fs vs = map (\<lambda>(f, v). snd f v) (zip fs vs)"

primrec gdepth :: "native_cost \<Rightarrow> gtype \<Rightarrow> gval \<Rightarrow> nat" where
  "gdepth nc (TPrim n) = (\<lambda>v. 0)"
| "gdepth nc (TNative n) = (\<lambda>v. case v of VNative bs \<Rightarrow> fst (nc n bs) | _ \<Rightarrow> 0)"
| "gdepth nc (TBasic k) = (\<lambda>v. 0)"
| "gdepth nc (TPtr t) = (\<lambda>v. case v of VPtr x \<Rightarrow> Suc (gdepth nc t x) | _ \<Rightarrow> 1)"
| "gdepth nc (TSlice t) = (\<lambda>v. case v of VList vs \<Rightarrow> Suc (foldr max (map (gdepth nc t) vs) 0) | _ \<Rightarrow> 1)"
| "gdepth nc (TArray t n) = (\<lambda>v. case v of VList vs \<Rightarrow> Suc (foldr max (map (gdepth nc t) vs) 0) | _ \<Rightarrow> 1)"
| "gdepth nc (TMap k t) = (\<lambda>v. case v of VMap es \<Rightarrow> Suc (foldr max (map (\<lambda>e. gdepth nc t (snd e)) es) 0) | _ \<Rightarrow> 1)"
| "gdepth nc (TStruct k n fs) =
     (\<lambda>v. case v of VStruct vs \<Rightarrow> struct_levels k + foldr max (field_costs (map (map_prod id (gdepth nc)) fs) vs) 0 | _ \<Rightarrow> 1)"
| "gdepth nc TInterface = (\<lambda>v. case v of VObj x \<Rightarrow> Suc (rdepth nc x) | _ \<Rightarrow> 1)"

primrec gframes :: "native_cost \<Rightarrow> gtype \<Rightarrow> gval \<Rightarrow> nat" where
  "gframes nc (TPrim n) = (\<lambda>v. 0)"
| "gframes nc (TNative n) = (\<lambda>v. case v of VNative bs \<Rightarrow> snd (nc n bs) | _ \<Rightarrow> 0)"
| "gframes nc (TBasic k) = (\<lambda>v. 0)"
| "gframes nc (TPtr t) = (\<lambda>v. case v of VPtr x \<Rightarrow> Suc (gframes nc t x) | _ \<Rightarrow> 1)"
| "gframes nc (TSlice t) = (\<lambda>v. case v of VList vs \<Rightarrow> Suc (sum_list (map (gframes nc t) vs)) | _ \<Rightarrow> 1)"
| "gframes nc (TArray t n) = (\<lambda>v. case v of VList vs \<Rightarrow> Suc (sum_list (map (gframes nc t) vs)) | _ \<Rightarrow> 1)"
| "gframes nc (TMap k t) = (\<lambda>v. case v of VMap es \<Rightarrow> Suc (sum_list (map (\<lambda>e. gframes nc t (snd e)) es)) | _ \<Rightarrow> 1)"
| "gframes nc (TStruct k n fs) =
     (\<lambda>v. case v of VStruct vs \<Rightarrow> struct_levels k + sum_list (field_costs (map (map_prod id (gframes nc)) fs) vs) | _ \<Rightarrow> 1)"
| "gframes nc TInterface = (\<lambda>v. case v of VObj x \<Rightarrow> Suc (rframes nc x) | _ \<Rightarrow> 1)"

lemma flat_view: "flat (view_WriteTo k p)"
proof -
  have "flat (uint8Value_WriteTo a)" "flat (uint16Value_WriteTo b)" "flat (uint32Value_WriteTo c)" "flat (uint64Value_WriteTo d)"
    "flat (int8Value_WriteTo a)" "flat (int16Value_WriteTo b)" "flat (int32Value_WriteTo c)" "flat (int64Value_WriteTo d)"
    "flat (boolValue_WriteTo e)" for a b c d e
    by (rule flat_fixed_count [OF uint8Value_WriteTo_def], simp) (rule flat_fixed_count [OF uint16Value_WriteTo_def], simp,
      rule flat_fixed_count [OF uint32Value_WriteTo_def], simp, rule flat_fixed_count [OF uint64Value_WriteTo_def], simp,
      rule flat_fixed_count [OF int8Value_WriteTo_def], simp, rule flat_fixed_count [OF int16Value_WriteTo_def], simp,
      rule flat_fixed_count [OF int32Value_WriteTo_def], simp, rule flat_fixed_count [OF int64Value_WriteTo_def], simp,
      rule flat_fixed_count [OF boolValue_WriteTo_def], simp)
  then show ?thesis by (cases p) (simp_all add: view_WriteTo_def stringValue_WriteTo_def flat_strings flat_fail)
qed

lemma rr_interface_slot:
  assumes native: "\<And>n p. nok n p \<Longrightarrow> reads_room (fst (nc n p)) (snd (nc n p)) (Write p) (nread n) p"
    and safe: "\<And>n. rsafe (nread n)" and c: "prims_concrete bps" and ok: "elem_ok bps [] x" "obj_fits nok bps x"
  shows "reads_room (Suc (rdepth nc x)) (Suc (rframes nc x)) (elem_WriteTo [] x (obj_WriteTo x)) (elem_ReadFrom bps (obj_ReadFrom nread bps) []) x"
proof -
  let ?rec = "readInto nread bps (max (height x) readFuel)"
  have "newReader bps ?rec e = newReader bps (obj_ReadFrom nread bps) e" for e
    using readInto_fuel [OF c safe New_leafy [OF c]] by (auto simp: newReader_def fun_eq_iff split: option.splits)
  then have "elem_ReadFrom bps ?rec [] = elem_ReadFrom bps (obj_ReadFrom nread bps) []"
    by (simp add: elem_ReadFrom_def)
  moreover have "room_like nc bps ?rec x" by (rule room_like_readInto [OF native ok(2)]) auto
  ultimately show ?thesis using rr_elem [OF _ ok(1), of nc ?rec] by simp
qed

lemma rr_all:
  assumes "list_all2 (\<lambda>f x. snd f x) (map (map_prod id P) fs) vs"
    and "\<And>n t v. (n, t) \<in> set fs \<Longrightarrow> P t v \<Longrightarrow> reads_room (d t v) (f t v) (G t v) (H t) v"
  shows "reads_room (foldr max (field_costs (map (map_prod id d) fs) vs) 0) (sum_list (field_costs (map (map_prod id f) fs) vs))
    (writeAll (field_writers (map (map_prod id G) fs) vs)) (readAll (map snd (map (map_prod id H) fs))) vs"
  using assms
proof (induction fs arbitrary: vs)
  case Nil
  then show ?case using rr_skip by (simp add: field_costs_def field_writers_def)
next
  case (Cons a fs)
  obtain n t where a: "a = (n, t)" by force
  obtain v us where vs: "vs = v # us" "P t v" "list_all2 (\<lambda>f x. snd f x) (map (map_prod id P) fs) us"
    using Cons.prems(1) a by (cases vs) (auto simp: id_def)
  let ?D = "max (d t v) (foldr max (field_costs (map (map_prod id d) fs) us) 0)"
  have 1: "reads_room ?D (f t v) (G t v) (H t) v" using Cons.prems(2) [of n t v] a vs(2) by (auto intro: rr_mono)
  have 2: "reads_room ?D (sum_list (field_costs (map (map_prod id f) fs) us)) (writeAll (field_writers (map (map_prod id G) fs) us))
      (readAll (map snd (map (map_prod id H) fs))) us"
    by (rule rr_mono [OF Cons.IH [OF vs(3)]]) (use Cons.prems(2) in \<open>auto simp: id_def\<close>)
  have "reads_room ?D (f t v + sum_list (field_costs (map (map_prod id f) fs) us))
      (wseq (G t v) (writeAll (field_writers (map (map_prod id G) fs) us)))
      (rbind (H t) (\<lambda>v. rmap (Cons v) (readAll (map snd (map (map_prod id H) fs))))) (v # us)"
    by (rule rr_seq [OF 1], rule rr_map [OF 2])
  then show ?case by (simp add: a vs(1) field_costs_def field_writers_def id_def)
qed

lemma rr_struct_kind:
  assumes "reads_room D F (writeAll ws) (readAll rs) vs"
  shows "reads_room (struct_levels k + D) (struct_levels k + F) (struct_WriteTo k ws) (struct_ReadFrom k rs) vs"
  using rr_frame [OF assms] rr_frame [OF rr_frame [OF assms]]
  by (cases k) (simp_all add: struct_levels_def struct_WriteTo_def struct_ReadFrom_def structValue_WriteTo_def structValue_ReadFrom_def)

lemma max_member: "x \<in> set xs \<Longrightarrow> h x \<le> foldr max (map h xs) (0 :: nat)"
  by (induction xs) (auto simp: le_max_iff_disj)

lemma rr_gv:
  assumes native: "\<And>n p. nok n p \<Longrightarrow> reads_room (fst (nc n p)) (snd (nc n p)) (Write p) (nread n) p"
    and safe: "\<And>n. rsafe (nread n)" and c: "prims_concrete bps"
  shows "gv_carried nok bps t v \<Longrightarrow> reads_room (gdepth nc t v) (gframes nc t v) (gv_WriteTo t v) (gv_ReadFrom nread bps t) v"
proof (induction t arbitrary: v)
  case (TPrim n)
  then obtain p where p: "v = VPrim p" "prim_ok p" "prim_type p = n" by (auto split: gval.splits)
  then obtain z where z: "prim_zero n = Some z" using prim_zero_known [of p] by auto
  then have "prim_ReadFrom z = prim_ReadFrom p" using prim_ReadFrom_cong [of z p] prim_zero_type [OF z] p(3) by simp
  then show ?case using rr_map [OF rr_flat [OF rb_prim [OF p(2)] flat_prim], of VPrim] p z by simp
next
  case (TNative n)
  then show ?case using rr_map [OF native [of n], of _ VNative] by (auto split: gval.splits)
next
  case (TBasic k)
  then show ?case using rr_map [OF rr_flat [OF rb_view flat_view], of _ k VPrim] by (auto split: gval.splits)
next
  case (TPtr t)
  show ?case
  proof (cases v)
    case VNil
    then show ?thesis using rr_map [OF rr_ptr_nil [of 0 0], of ptr_val] by (simp add: ptr_val_def)
  next
    case (VPtr x)
    then show ?thesis using rr_map [OF rr_ptr [OF TPtr.IH [of x]], of ptr_val] TPtr.prems by (simp add: ptr_val_def)
  qed (use TPtr.prems in auto)
next
  case (TSlice t)
  then obtain vs where v: "v = VList vs" "length vs < 2 ^ 32" "list_all (gv_carried nok bps t) vs" by (auto split: gval.splits)
  let ?g = "\<lambda>x. wseq (writePresence (elemNeedsPresenceFlag t)) (gv_WriteTo t x)"
  have "reads_room (foldr max (map (gdepth nc t) vs) 0) (gframes nc t x) (?g x)
      (rbind (readPresence (elemNeedsPresenceFlag t)) (\<lambda>_. gv_ReadFrom nread bps t)) x" if "x \<in> set vs" for x
    using that v(3) TSlice.IH [of x] max_member [OF that, of "gdepth nc t"]
    by (intro rr_presence rr_mono [OF TSlice.IH]) (auto simp: list_all_iff)
  from rr_map [where f = VList, OF rr_slice [where vs = vs, OF this v(2)]] show ?case
    using v(1) by (simp add: unflag_slice [of "elemNeedsPresenceFlag t"] comp_def)
next
  case (TArray t n)
  then obtain vs where v: "v = VList vs" "length vs = n" "list_all (gv_carried nok bps t) vs" by (auto split: gval.splits)
  let ?g = "\<lambda>x. wseq (writePresence (elemNeedsPresenceFlag t)) (gv_WriteTo t x)"
  have "reads_room (foldr max (map (gdepth nc t) vs) 0) (gframes nc t x) (?g x)
      (rbind (readPresence (elemNeedsPresenceFlag t)) (\<lambda>_. gv_ReadFrom nread bps t)) x" if "x \<in> set vs" for x
    using that v(3) max_member [OF that, of "gdepth nc t"]
    by (intro rr_presence rr_mono [OF TArray.IH]) (auto simp: list_all_iff)
  from rr_map [where f = VList, OF rr_array [where vs = vs, OF this]] show ?case
    using v(1,2) by (simp add: unflag_array [of "elemNeedsPresenceFlag t"] comp_def)
next
  case (TMap k t)
  then obtain es width where v: "v = VMap es" "supportedMapKey k = Some width" "entries_ok width es"
    "list_all (\<lambda>e. gv_carried nok bps t (snd e)) es" by (auto split: gval.splits option.splits)
  let ?g = "\<lambda>x. wseq (writePresence (elemNeedsPresenceFlag t)) (gv_WriteTo t x)"
  have "reads_room (foldr max (map (\<lambda>e. gdepth nc t (snd e)) es) 0) (gframes nc t (snd e)) (?g (snd e))
      (rbind (readPresence (elemNeedsPresenceFlag t)) (\<lambda>_. gv_ReadFrom nread bps t)) (snd e)" if "e \<in> set es" for e
    using that v(4) max_member [OF that, of "\<lambda>e. gdepth nc t (snd e)"]
    by (intro rr_presence rr_mono [OF TMap.IH]) (auto simp: list_all_iff)
  from rr_map [OF rr_mapValue [where f = "gframes nc t" and g = ?g, OF v(2,3) this], where f = VMap] show ?case
    using v(1) by (simp add: unflag_map [of _ "elemNeedsPresenceFlag t"] comp_def case_prod_unfold)
next
  case (TStruct k tn fs)
  then obtain vs where v: "v = VStruct vs" "list_all2 (\<lambda>f x. snd f x) (map (map_prod id (gv_carried nok bps)) fs) vs"
    by (auto split: gval.splits)
  have "reads_room (gdepth nc t x) (gframes nc t x) (gv_WriteTo t x) (gv_ReadFrom nread bps t) x"
    if "(n, t) \<in> set fs" "gv_carried nok bps t x" for n t x
    using TStruct.IH [OF that(1)] that(2) by simp
  note fields_rr = rr_all [where d = "gdepth nc" and f = "gframes nc", OF v(2) this]
  show ?case using rr_map [where f = VStruct, OF rr_struct_kind [OF fields_rr]] v(1) by simp
next
  case TInterface
  then obtain x where x: "v = VObj x" "elem_ok bps [] x" "obj_fits nok bps x" by (auto split: gval.splits)
  show ?case using rr_map [where f = VObj, OF rr_interface_slot [of nok, OF native safe c x(2,3)]] x(1) by simp
qed

subsection \<open>On a plain stream\<close>

lemma pays_presence: "pays (writePresence flagged)"
  by (rule pays_flat [OF flat_presence])

lemma pays_elems: "(\<And>W. W \<in> set ws \<Longrightarrow> pays W) \<Longrightarrow> pays (writeElems flagged ws)"
  unfolding writeElems_def by (rule pays_all) (auto intro!: pays_seq pays_presence)

lemma pays_struct: "(\<And>W. W \<in> set ws \<Longrightarrow> pays W) \<Longrightarrow> pays (struct_WriteTo k ws)"
  by (cases k) (auto simp: struct_WriteTo_def structValue_WriteTo_def intro!: pays_frame pays_all)

lemma pays_gv: "pays (gv_WriteTo t v)"
proof (induction t arbitrary: v)
  case (TMap k t)
  show ?case
    by (auto simp: mapValue_WriteTo_def split: gval.splits option.splits sum.splits intro!: pays_frame pays_seq pays_pairs pays_leaves)
next
  case (TStruct k n fs)
  have "pays W" if "W \<in> set (field_writers (map (map_prod id gv_WriteTo) fs) vs)" for W vs
  proof -
    obtain f x where f: "(f, x) \<in> set (zip (map (map_prod id gv_WriteTo) fs) vs)" "W = snd f x"
      using \<open>W \<in> _\<close> by (auto simp: field_writers_def)
    then obtain m t where "(m, t) \<in> set fs" "f = (m, gv_WriteTo t)" by (auto dest!: set_zip_leftD)
    then show ?thesis using TStruct.IH [of "(m, t)" t] f(2) by auto
  qed
  then show ?case by (auto intro!: pays_struct pays_leaves split: gval.splits)
next
  case TInterface
  show ?case by (auto intro!: pays_elem pays_obj pays_leaves split: gval.splits)
qed (auto simp: ptrValue_WriteTo_def sliceValue_WriteTo_def arrayValue_WriteTo_def pays_flat [OF flat_view]
    intro!: pays_frame pays_seq pays_elems pays_leaves split: gval.splits)

lemma rr_naked:
  assumes rt: "reads_room D F W R v" and W: "pays W" and fit: "D < MaxBlueprintDepth" "F < MaxCodecFrames"
    and wr: "wframe W \<lparr>out = [], wb = None\<rparr> = (None, n, w)"
  shows "n = length (out w) \<and> rframe R \<lparr>inp = out w @ rest, rb = None\<rparr> = (Inr v, n, \<lparr>inp = rest, rb = None\<rparr>)"
proof -
  obtain b1 w1 where b1: "enter (attach None) = (None, b1)" and w1: "W \<lparr>out = [], wb = Some b1\<rparr> = (None, n, w1)"
    "w = w1\<lparr>wb := detach None (wb w1)\<rparr>" using wr by (auto elim: wframe_ok)
  have lb: "b1 = \<lparr>depth = 1, frames = 1, nbytes = 0\<rparr>" using b1 by (simp add: enter_ok_iff attach_def fresh_budget_def)
  have "n \<le> MaxCodecBytes" using W w1(1) lb unfolding pays_def by fastforce
  then have rm: "room_for D F n b1" using fit lb by (simp add: room_for_def)
  from rt w1(1) obtain bs where "out w1 = bs" "length bs = n" and
    "\<exists>b'. R \<lparr>inp = bs @ rest, rb = Some b1\<rparr> = (Inr v, n, \<lparr>inp = rest, rb = Some b'\<rparr>) \<and> charged_at_most F n b1 b'"
    using rm by (elim reads_roomE) auto
  then show ?thesis using b1 w1(2) by (auto simp: rframe_def detach_def)
qed

lemma objectified_naked:
  assumes native: "\<And>n p. nok n p \<Longrightarrow> reads_room (fst (nc n p)) (snd (nc n p)) (Write p) (nread n) p"
    and safe: "\<And>n. rsafe (nread n)" and c: "prims_concrete bps" and ok: "gv_carried nok bps (TStruct k tn fs) v"
    and fit: "gdepth nc (TStruct k tn fs) v \<le> MaxBlueprintDepth" "gframes nc (TStruct k tn fs) v \<le> MaxCodecFrames"
    and wr: "Objectified_WriteTo (TStruct k tn fs) v \<lparr>out = [], wb = None\<rparr> = (None, n, w)"
  shows "n = length (out w) \<and>
    Objectified_ReadFrom nread bps (TStruct k tn fs) \<lparr>inp = out w @ rest, rb = None\<rparr> = (Inr v, n, \<lparr>inp = rest, rb = None\<rparr>)"
proof -
  obtain vs where v: "v = VStruct vs" "list_all2 (\<lambda>f x. snd f x) (map (map_prod id (gv_carried nok bps)) fs) vs"
    using ok by (auto split: gval.splits)
  let ?W = "writeAll (field_writers (map (map_prod id gv_WriteTo) fs) vs)"
  let ?R = "readAll (map snd (map (map_prod id (gv_ReadFrom nread bps)) fs))"
  note rt = rr_all [where d = "gdepth nc" and f = "gframes nc", OF v(2) rr_gv [of nok nc, OF native safe c]]
  have "pays W" if "W \<in> set (field_writers (map (map_prod id gv_WriteTo) fs) vs)" for W
    using that by (auto simp: field_writers_def pays_gv dest!: set_zip_leftD)
  then have p: "pays ?W" by (rule pays_all)
  have l: "struct_levels k \<ge> 1" by (simp add: struct_levels_def split: structKind.splits)
  have "wframe ?W \<lparr>out = [], wb = None\<rparr> = (None, n, w)"
    using wr v(1) by (simp add: Objectified_WriteTo_def structValue_WriteTo_def)
  from rr_naked [OF rt p _ _ this, of rest] have "n = length (out w) \<and> rframe ?R \<lparr>inp = out w @ rest, rb = None\<rparr> = (Inr vs, n, \<lparr>inp = rest, rb = None\<rparr>)"
    using fit v(1) l by simp
  then show ?thesis by (simp add: v(1) Objectified_ReadFrom_def structValue_ReadFrom_def rmap_def rbind_def rret_def)
qed

end
