(* ===== verification/Hex.thy ===== *)
theory Hex
  imports Go_Prelude
begin

text \<open>
  The hexadecimal text of byte strings, \<^verbatim>\<open>encoding/hex\<close>: lower-case digits on output, either case on
  input, and the two errors of its decoder.
\<close>

definition hex_encode :: "bytes \<Rightarrow> string" where
  "hex_encode bs = concat (map (\<lambda>b. [digit_char (unat b div 16), digit_char (unat b mod 16)]) bs)"

definition hex_val :: "char \<Rightarrow> nat option" where
  "hex_val c = (case digit_val c of None \<Rightarrow> None | Some d \<Rightarrow> if d < 16 then Some d else None)"

definition hex_invalid :: error where
  "hex_invalid = ErrMsg ''encoding/hex: invalid byte''"

definition hex_odd :: error where
  "hex_odd = ErrMsg ''encoding/hex: odd length hex string''"

fun hex_decode :: "string \<Rightarrow> bytes res" where
  "hex_decode [] = Inr []"
| "hex_decode [c] = (case hex_val c of None \<Rightarrow> Inl hex_invalid | Some d \<Rightarrow> Inl hex_odd)"
| "hex_decode (a # b # s) =
     (case hex_val a of
        None \<Rightarrow> Inl hex_invalid
      | Some x \<Rightarrow>
          (case hex_val b of
             None \<Rightarrow> Inl hex_invalid
           | Some y \<Rightarrow> (case hex_decode s of Inl e \<Rightarrow> Inl e | Inr bs \<Rightarrow> Inr (of_nat (16 * x + y) # bs))))"

lemma hex_encode_Nil [simp]: "hex_encode [] = []"
  and hex_encode_Cons [simp]: "hex_encode (b # bs) = digit_char (unat b div 16) # digit_char (unat b mod 16) # hex_encode bs"
  by (simp_all add: hex_encode_def)

lemma length_hex_encode [simp]: "length (hex_encode bs) = 2 * length bs"
  by (induction bs) simp_all

lemma hex_val_digit [simp]: "d < 16 \<Longrightarrow> hex_val (digit_char d) = Some d"
  by (simp add: hex_val_def)

lemma hex_round_trip [simp]: "hex_decode (hex_encode bs) = Inr bs"
proof (induction bs)
  case (Cons b bs)
  have "unat b div 16 < 16" using unat_byte [of b] by simp
  then show ?case using Cons by simp
qed simp

lemma hex_val_lower: "hex_val c = Some d \<Longrightarrow> d < 16 \<and> to_lower c = digit_char d"
proof -
  assume h: "hex_val c = Some d"
  have "char_of (of_char c :: nat) = c" by simp
  with h show ?thesis
    by (auto simp: hex_val_def digit_val_def to_lower_def digit_char_def Let_def split: if_splits option.splits)
qed

text \<open>The decoder accepts exactly the encodings, up to the case of the digits.\<close>

lemma hex_decode_sound: "hex_decode s = Inr bs \<Longrightarrow> ToLower s = hex_encode bs"
proof (induction s arbitrary: bs rule: hex_decode.induct)
  case (3 a b s)
  then obtain x y cs where d: "hex_val a = Some x" "hex_val b = Some y" "hex_decode s = Inr cs" "bs = of_nat (16 * x + y) # cs"
    by (auto split: option.splits sum.splits)
  then have lt: "x < 16" "y < 16" "to_lower a = digit_char x" "to_lower b = digit_char y" using hex_val_lower by blast+
  then have "unat (of_nat (16 * x + y) :: byte) = 16 * x + y"
    by (simp add: unat_of_nat take_bit_nat_eq_self del: of_nat_add of_nat_mult)
  then show ?case using d lt 3 by (simp add: ToLower_def)
qed (auto simp: ToLower_def split: option.splits)

lemma hex_decode_length: "hex_decode s = Inr bs \<Longrightarrow> length s = 2 * length bs"
  using hex_decode_sound [of s bs] length_hex_encode [of bs] by (metis ToLower_def length_map)

end
