(* ===== verification/Identity.thy ===== *)
theory Identity
  imports Hex Scalars
begin

text \<open>
  Identities: \<^verbatim>\<open>src/astral/identity.go\<close>.  An identity is its compressed public key, and the zero identity
  (a nil pointer or one without a key, which every method treats alike) is \<open>None\<close>.  Which
  33-byte strings are compressed points is the argument \<open>curve\<close>: the answer of the curve library's
  \<^verbatim>\<open>ParsePubKey\<close>, whose result serialises to the bytes it was parsed from.
\<close>

type_synonym identity = "bytes option"

definition keyLen :: nat where "keyLen = 33"

definition anonymous :: string where "anonymous = ''anyone''"

definition anyoneKey :: string where "anyoneKey = concat (replicate 33 ''00'')"

definition ErrInvalidKeyLength :: error where "ErrInvalidKeyLength = ErrMsg ''invalid key length''"

definition ErrZeroIdentity :: error where "ErrZeroIdentity = ErrMsg ''zero identity''"

definition parsePubKey :: "(bytes \<Rightarrow> bool) \<Rightarrow> bytes \<Rightarrow> bytes res" where
  "parsePubKey curve b = (if curve b then Inr b else Inl (ErrMsg ''invalid public key''))"

definition ParseIdentity :: "(bytes \<Rightarrow> bool) \<Rightarrow> string \<Rightarrow> identity res" where
  "ParseIdentity curve s =
     (if s = anyoneKey \<or> s = anonymous then Inr None
      else if length s \<noteq> 66 then Inl ErrInvalidKeyLength
      else case hex_decode s of
        Inl e \<Rightarrow> Inl e
      | Inr pkBytes \<Rightarrow> (case parsePubKey curve pkBytes of Inl e \<Rightarrow> Inl e | Inr pk \<Rightarrow> Inr (Some pk)))"

definition Identity_IsZero :: "identity \<Rightarrow> bool" where
  "Identity_IsZero i = (i = None)"

definition Identity_IsEqual :: "identity \<Rightarrow> identity \<Rightarrow> bool" where
  "Identity_IsEqual i other =
     (if Identity_IsZero i then Identity_IsZero other
      else if Identity_IsZero other then False
      else the i = the other)"

definition Identity_String :: "identity \<Rightarrow> string" where
  "Identity_String i = (case i of None \<Rightarrow> anyoneKey | Some pk \<Rightarrow> hex_encode pk)"

definition Identity_Fingerprint :: "identity \<Rightarrow> string" where
  "Identity_Fingerprint i = (let h = Identity_String i in take 8 h @ '':'' @ drop (length h - 8) h)"

definition Identity_WriteTo :: "identity \<Rightarrow> writer" where
  "Identity_WriteTo i = (case i of None \<Rightarrow> Write (replicate keyLen 0) | Some pk \<Rightarrow> Write pk)"

definition Identity_ReadFrom :: "(bytes \<Rightarrow> bool) \<Rightarrow> identity reader" where
  "Identity_ReadFrom curve =
     rbind (ReadFull keyLen) (\<lambda>buf.
       if list_all (\<lambda>b. b = 0) buf then rret None
       else case parsePubKey curve buf of Inl e \<Rightarrow> rfail e | Inr pk \<Rightarrow> rret (Some pk))"

definition Identity_MarshalText :: "identity \<Rightarrow> string" where
  "Identity_MarshalText i = Identity_String i"

definition Identity_UnmarshalText :: "(bytes \<Rightarrow> bool) \<Rightarrow> string \<Rightarrow> identity res" where
  "Identity_UnmarshalText curve s = ParseIdentity curve s"

definition Identity_MarshalJSON :: "identity \<Rightarrow> string" where
  "Identity_MarshalJSON i =
     (if Identity_IsZero i then [CHR 0x22] @ anonymous @ [CHR 0x22] else [CHR 0x22] @ Identity_String i @ [CHR 0x22])"

text \<open>\<open>Some s\<close> is a string column, \<open>None\<close> any other driver value.\<close>

definition Identity_Scan :: "(bytes \<Rightarrow> bool) \<Rightarrow> string option \<Rightarrow> identity res" where
  "Identity_Scan curve src =
     (case src of None \<Rightarrow> Inl (ErrMsg ''typecast failed'') | Some str \<Rightarrow> ParseIdentity curve str)"

subsection \<open>Valid identities\<close>

definition identity_ok :: "(bytes \<Rightarrow> bool) \<Rightarrow> identity \<Rightarrow> bool" where
  "identity_ok curve i = (case i of None \<Rightarrow> True | Some pk \<Rightarrow> curve pk)"

text \<open>What the curve library documents: compressed points have 33 bytes and a leading 2 or 3.\<close>

definition curve_ok :: "(bytes \<Rightarrow> bool) \<Rightarrow> bool" where
  "curve_ok curve \<longleftrightarrow> (\<forall>b. curve b \<longrightarrow> length b = keyLen \<and> (hd b = 2 \<or> hd b = 3))"

lemma curve_key:
  assumes "curve_ok curve" and "curve b"
  shows "length b = 33" and "\<not> list_all (\<lambda>x. x = 0) b"
proof -
  show "length b = 33" using assms by (simp add: curve_ok_def keyLen_def)
  moreover have "hd b = 2 \<or> hd b = 3" using assms by (simp add: curve_ok_def)
  ultimately show "\<not> list_all (\<lambda>x. x = 0) b" by (cases b) auto
qed

lemma Identity_IsEqual_iff: "Identity_IsEqual i j \<longleftrightarrow> i = j"
  by (cases i; cases j) (auto simp: Identity_IsEqual_def Identity_IsZero_def)

lemma anyoneKey_zeros: "anyoneKey = hex_encode (replicate 33 0)"
proof -
  have "digit_char 0 = CHR ''0''" by code_simp
  then have "concat (replicate n ''00'') = hex_encode (replicate n 0)" for n by (induction n) simp_all
  then show ?thesis by (simp only: anyoneKey_def)
qed

lemma hex_inj: "hex_encode a = hex_encode b \<Longrightarrow> a = b"
  by (metis hex_round_trip sum.inject(2))

lemma rb_identity:
  assumes "curve_ok curve" and "identity_ok curve i"
  shows "reads_back (Identity_WriteTo i) (Identity_ReadFrom curve) i"
proof -
  have z: "reads_back (wseq (Write p) wskip) (Identity_ReadFrom curve) i"
    if "length p = 33" "(if list_all (\<lambda>b. b = 0) p then rret None
       else case parsePubKey curve p of Inl e \<Rightarrow> rfail e | Inr pk \<Rightarrow> rret (Some pk)) = rret i" for p
    unfolding Identity_ReadFrom_def by (rule rb_seq [OF rb_write]) (use that in \<open>simp_all add: keyLen_def rb_skip\<close>)
  show ?thesis
  proof (cases i)
    case None
    then show ?thesis using z [of "replicate 33 0"] by (simp add: Identity_WriteTo_def keyLen_def list_all_iff)
  next
    case (Some pk)
    then show ?thesis using z [of pk] assms curve_key [OF assms(1), of pk]
      by (simp add: Identity_WriteTo_def parsePubKey_def identity_ok_def)
  qed
qed

lemma ParseIdentity_String:
  assumes "curve_ok curve" and "identity_ok curve i"
  shows "ParseIdentity curve (Identity_String i) = Inr i"
proof (cases i)
  case None
  then show ?thesis by (simp add: ParseIdentity_def Identity_String_def)
next
  case (Some pk)
  have pk: "length pk = 33" "\<not> list_all (\<lambda>x. x = 0) pk" "curve pk" using assms Some curve_key by (auto simp: identity_ok_def)
  have "hex_encode pk \<noteq> anyoneKey" using hex_inj [of pk "replicate 33 0"] pk(2) by (auto simp: anyoneKey_zeros list_all_iff)
  moreover have "hex_encode pk \<noteq> anonymous"
  proof
    assume "hex_encode pk = anonymous"
    then have "length (hex_encode pk) = length anonymous" by (rule arg_cong)
    then show False using pk(1) by (simp add: anonymous_def)
  qed
  ultimately show ?thesis using Some pk by (simp add: ParseIdentity_def Identity_String_def parsePubKey_def)
qed

text \<open>What is accepted is a valid identity, and its text is the canonical one up to case.\<close>

lemma ParseIdentity_sound:
  assumes "ParseIdentity curve s = Inr i"
  shows "identity_ok curve i \<and> (s = anonymous \<or> ToLower s = Identity_String i)"
proof (cases "s = anyoneKey \<or> s = anonymous")
  case True
  have "ToLower anyoneKey = anyoneKey" by code_simp
  then show ?thesis using True assms by (auto simp: ParseIdentity_def identity_ok_def Identity_String_def)
next
  case False
  then show ?thesis using assms hex_decode_sound [of s]
    by (auto simp: ParseIdentity_def identity_ok_def Identity_String_def parsePubKey_def split: if_splits sum.splits)
qed

end
