(* ===== verification/Sample_Room.thy ===== *)
theory Sample_Room
  imports Sample Values_Room Identity
begin

text \<open>
  A sample with a map and a compile-time type: a registry with the prototypes of \<^verbatim>\<open>uint8\<close> and \<^verbatim>\<open>identity\<close>
  and a runtime Blueprint with an owner and a map of optional bytes.  The codec of the owner is that
  of \<open>Identity\<close>, over a curve that takes every 33 bytes with a leading 2.
\<close>

definition sampleCurve :: "bytes \<Rightarrow> bool" where
  "sampleCurve p \<longleftrightarrow> length p = 33 \<and> hd p = 2"

definition identityCodec :: "string \<Rightarrow> bytes reader" where
  "identityCodec n = rmap (\<lambda>i. case i of None \<Rightarrow> replicate keyLen 0 | Some pk \<Rightarrow> pk) (Identity_ReadFrom sampleCurve)"

definition identityPayload :: "string \<Rightarrow> bytes \<Rightarrow> bool" where
  "identityPayload n p \<longleftrightarrow> n = ''identity'' \<and> sampleCurve p"

lemma identity_back: "identityPayload n p \<Longrightarrow> reads_back (Write p) (identityCodec n) p"
proof -
  assume p: "identityPayload n p"
  have "curve_ok sampleCurve" by (simp add: curve_ok_def sampleCurve_def keyLen_def)
  from rb_identity [OF this, of "Some p"] have "reads_back (Write p) (Identity_ReadFrom sampleCurve) (Some p)"
    using p by (simp add: identityPayload_def identity_ok_def Identity_WriteTo_def)
  from rb_map [OF this, of "\<lambda>i. case i of None \<Rightarrow> replicate keyLen 0 | Some pk \<Rightarrow> pk"]
  show ?thesis by (simp add: identityCodec_def)
qed

lemma identity_safe: "rsafe (identityCodec n)"
  unfolding identityCodec_def Identity_ReadFrom_def parsePubKey_def
  by (auto intro!: codec_intros depth_step.in_rmap depth_step.in_rbind depth_step.in_ReadFull depth_step.in_rret depth_step.in_rfail split: sum.splits)

lemma identity_room: "natives_room identityPayload (\<lambda>n p. (0, 0)) identityCodec"
  using rr_flat [OF identity_back flat_Write] identity_safe by (auto simp: natives_room_def)

definition book :: blueprint where
  "book = \<lparr>Type = ''book'', Fields = [\<lparr>Name = ''owner'', Spec = Some (RefSpec ''identity'')\<rparr>,
     \<lparr>Name = ''marks'', Spec = Some (MapSpec ''uint8'' ''uint8'')\<rparr>], Underlying = []\<rparr>"

definition gt_Identity :: gotype where
  "gt_Identity = GoType (SStruct []) ''astral.Identity'' None (Some ''identity'') None None"

definition roomRegistry :: registry where
  "roomRegistry = Blueprints [(''uint8'', ProtoEntry gt_Uint8), (''identity'', ProtoEntry gt_Identity), (''book'', BlueprintEntry book)] None"

definition sampleKey :: bytes where
  "sampleKey = 2 # replicate 32 7"

definition roomObject :: obj where
  "roomObject = Struct book [Native ''identity'' sampleKey, RMap Uint8 ''uint8'' [(KUint 1, Prim (PUint8 6)), (KUint 3, Absent)]]"

definition roomBytes :: bytes where
  "roomBytes = [4, 98, 111, 111, 107] @ sampleKey @ [0, 0, 0, 2, 1, 1, 6, 3, 0]"

lemma room_lookup:
  "lookup_entry roomRegistry ''uint8'' = Some (ProtoEntry gt_Uint8, roomRegistry)"
  "lookup_entry roomRegistry ''identity'' = Some (ProtoEntry gt_Identity, roomRegistry)"
  "lookup_entry roomRegistry ''book'' = Some (BlueprintEntry book, roomRegistry)"
  by code_simp+

lemma room_protos:
  "newProto (ProtoEntry gt_Uint8) = Prim (PUint8 0)" "newProto (ProtoEntry gt_Identity) = Native ''identity'' []"
  "classify ''uint8'' (ProtoEntry gt_Uint8) \<noteq> kindRuntimeBP" "classify ''identity'' (ProtoEntry gt_Identity) \<noteq> kindRuntimeBP"
  "validateBlueprint (Some book) = None" "\<not> isRuntimeBlueprintType roomRegistry ''uint8''"
  by code_simp+

lemma room_leaves:
  "New roomRegistry ''uint8'' = Some (Prim (PUint8 0))" "New roomRegistry ''identity'' = Some (Native ''identity'' [])"
  using New_proto [OF room_lookup(1)] New_proto [OF room_lookup(2)] room_protos by simp_all

lemma book_sel [simp]:
  "Type book = ''book''" "Underlying book = []"
  "Fields book = [\<lparr>Name = ''owner'', Spec = Some (RefSpec ''identity'')\<rparr>, \<lparr>Name = ''marks'', Spec = Some (MapSpec ''uint8'' ''uint8'')\<rparr>]"
  by (simp_all add: book_def)

lemma room_book: "\<exists>z. New roomRegistry ''book'' = Some z \<and> like z roomObject"
proof -
  have "New roomRegistry ''book'' = Some (Struct book [Native ''identity'' [], RMap Uint8 ''uint8'' []])"
  proof (rule New_runtime [OF room_lookup(3)])
    show "newRuntimeObjectAt (newAt (Suc (Suc MaxBlueprintDepth))) roomRegistry book 0 newBuildBudget =
        Some (Inr (Struct book [Native ''identity'' [], RMap Uint8 ''uint8'' []]), 4095)"
      using room_protos newWith_proto [OF room_lookup(2)]
      by (simp add: newRuntimeObjectAt_def take_node_def newBuildBudget_def MaxBlueprintNodes_def Kind_def
          specZeroAtErr_def newRuntimeMapWith_def resolveKeyType_def resolveElemType_def room_lookup slot_def)
  qed simp
  then show ?thesis by (simp add: roomObject_def)
qed

lemma room_concrete: "prims_concrete roomRegistry"
  by code_simp

lemma room_named: "named_ok roomRegistry (ObjectType roomObject) roomObject"
  using room_book by (auto simp: named_ok_def roomObject_def)

lemma room_fits: "obj_fits identityPayload roomRegistry roomObject"
  by (simp add: roomObject_def field_fits_def field_ok_def elem_ok_def named_ok_def room_leaves room_protos resolveKeyType_def resolveElemType_def
      room_lookup identityPayload_def sampleCurve_def sampleKey_def supportedMapKey_def entries_ok_def key_fits_def kbytes_def)

lemma room_encoded: "EncodeBytes ShortTypeEncoder roomObject = Inr roomBytes"
  unfolding roomObject_def roomBytes_def book_def sampleKey_def
  by (simp add: write_eval mapValue_WriteTo_def supportedMapKey_def stage_def writeMapKey_def sort_key_def)

end
