(* ===== verification/Properties_Codec.thy ===== *)
theory Properties_Codec
  imports Sample_Room
begin

text \<open>
  The properties of the object codec, each stated over the definitions of \<open>Ledger\<close>,
  \<open>Objectify\<close>, \<open>Blueprint_Wire\<close>, \<open>Runtime\<close> and \<open>Runtime_Codec\<close>, with its witness on the sample
  world.
\<close>

subsection \<open>Encoding and decoding runtime objects\<close>



text \<open>
  Without maps, and with compile-time types that open no frame, the writer's ledger dominates the
  reader's and no bound is needed: what was encoded is decoded.
\<close>

lemma map_free_round_trip:
  assumes "\<And>n p. nok n p \<Longrightarrow> reads_back (Write p) (nread n) p" and "\<And>n. rsafe (nread n)"
    and "prims_concrete bps" and "named_ok bps (ObjectType v) v" and "obj_ok nok bps v"
    and "EncodeBytes ShortTypeEncoder v = Inr bs"
  shows "Decode nread bps ShortTypeDecoder \<lparr>inp = bs @ rest, rb = None\<rparr> =
    (Inr v, length bs, \<lparr>inp = rest, rb = None\<rparr>)"
  using short_tag.round_trip by (intro decode_encode [OF assms(1,2,3,4,5) _ assms(6)]) auto

text \<open>
  Reading always ends.  The reader recurses through the registry, so nothing in its argument
  shrinks; but every recursion opens a frame of the ledger, and the result with
  \<open>readFuel\<close> levels of recursion is the result with any greater number.
\<close>

theorem decode_recursion_bounded:
  assumes "prims_concrete bps" and "\<And>n. rsafe (nread n)" and "New bps t = Some o1" and "readFuel \<le> k"
  shows "readInto nread bps k o1 = readInto nread bps readFuel o1"
  using readInto_fuel [OF assms(1,2) New_leafy [OF assms(1,3)] assms(4)] by (simp add: obj_ReadFrom_def)

lemma ReadFull_consumes: "ReadFull k r = (v, n, r1) \<Longrightarrow> \<exists>j \<le> k. inp r1 = drop j (inp r)"
proof -
  assume rd: "ReadFull k r = (v, n, r1)"
  have "room (rb r) k \<le> k" by (simp add: room_def split: option.splits)
  then show ?thesis using rd
    by (intro exI [of _ "if k = 0 then 0 else min (room (rb r) k) (length (inp r))"])
      (auto simp: ReadFull_def Let_def split: if_splits)
qed

lemma tag_consumes: "ShortTypeDecoder r = (v, n, r1) \<Longrightarrow> \<exists>j \<le> 256. inp r1 = drop j (inp r)"
proof -
  assume tag: "ShortTypeDecoder r = (v, n, r1)"
  obtain x m r2 where rd: "Uint8_ReadFrom r = (x, m, r2)" by (cases "Uint8_ReadFrom r") auto
  then obtain i where i: "i \<le> 1" "inp r2 = drop i (inp r)"
    by (auto simp: uint_codec_defs readFixed_def split: prod.splits sum.splits dest!: ReadFull_consumes)
  have "\<exists>j \<le> 255. inp r1 = drop j (inp r2)"
  proof (cases x)
    case (Inr l)
    obtain y k r3 where rn: "ReadFull (unat l) r2 = (y, k, r3)" by (cases "ReadFull (unat l) r2") auto
    then have "\<exists>j \<le> unat l. inp r3 = drop j (inp r2)" by (rule ReadFull_consumes)
    moreover have "unat l < 2 ^ 8" by (rule order_less_le_trans [OF unsigned_less]) simp
    then have "unat l \<le> 255" by simp
    moreover have "r1 = r3" using tag rd rn Inr
      by (auto simp: ShortTypeDecoder_def ObjectType_ReadFrom_def String8_ReadFrom_def rbind_def rmap_def rret_def split: sum.splits)
    ultimately show ?thesis by (meson order_trans)
  next
    case (Inl e)
    then have "r1 = r2" using tag rd
      by (auto simp: ShortTypeDecoder_def ObjectType_ReadFrom_def String8_ReadFrom_def rbind_def)
    then show ?thesis by (intro exI [of _ 0]) simp
  qed
  then obtain j where "j \<le> 255" "inp r1 = drop j (inp r2)" by blast
  then show ?thesis using i by (intro exI [of _ "j + i"]) auto
qed

text \<open>
  C5: decoding is bounded on any input, well formed or not: apart from the type tag it takes at
  most \<open>MaxCodecBytes\<close> from the stream, provided the codecs of other compile-time types
  read through the reader they are given.
\<close>

theorem decode_bytes_bounded:
  assumes "\<And>n. metered (nread n)" and "Decode nread bps ShortTypeDecoder \<lparr>inp = bs, rb = None\<rparr> = (v, n, r)"
  shows "\<exists>k \<le> 256 + MaxCodecBytes. inp r = drop k bs"
proof -
  obtain t m r1 where tag: "ShortTypeDecoder \<lparr>inp = bs, rb = None\<rparr> = (t, m, r1)"
    by (cases "ShortTypeDecoder \<lparr>inp = bs, rb = None\<rparr>") auto
  obtain i where i: "i \<le> 256" "inp r1 = drop i bs" using tag_consumes [OF tag] by auto
  have none: "rb r1 = None" using withinD [OF byte_step.in_tags(2) tag] by (auto simp: charged_def)
  have "\<exists>k \<le> MaxCodecBytes. inp r = drop k (inp r1)"
  proof (cases "\<exists>ty o1. t = Inr ty \<and> New bps ty = Some o1")
    case True
    then obtain ty o1 where o1: "t = Inr ty" "New bps ty = Some o1" by blast
    let ?s = "r1\<lparr>rb := Some (attach (rb r1))\<rparr>"
    obtain x j r2 where bd: "obj_ReadFrom nread bps o1 ?s = (x, j, r2)" by (cases "obj_ReadFrom nread bps o1 ?s") auto
    have "within charged (obj_ReadFrom nread bps o1)"
      unfolding obj_ReadFrom_def by (rule byte_step.in_readInto [OF assms(1)])
    from withinD [OF this bd] have "\<exists>k \<le> MaxCodecBytes. inp r2 = drop k (inp r1)"
      by (auto simp: charged_def none attach_def fresh_budget_def)
    moreover have "inp r = inp r2" using assms(2) tag o1 bd none
      by (auto simp: Decode_def rbind_def rattach_def)
    ultimately show ?thesis by simp
  next
    case False
    then have "r = r1" using assms(2) tag
      by (auto simp: Decode_def rbind_def rfail_def split: sum.splits option.splits)
    then show ?thesis by (intro exI [of _ 0]) simp
  qed
  then obtain k where "k \<le> MaxCodecBytes" "inp r = drop k (inp r1)" by blast
  then show ?thesis using i by (intro exI [of _ "k + i"]) auto
qed

theorem decode_bytes_bounded_witness:
  "\<exists>v n r k. Decode (\<lambda>n. rret []) sampleRegistry ShortTypeDecoder \<lparr>inp = [5, 1], rb = None\<rparr> = (v, n, r) \<and>
     k \<le> 256 + MaxCodecBytes \<and> inp r = drop k [5, 1]"
  using decode_bytes_bounded [of "\<lambda>n. rret []" sampleRegistry "[5, 1]", OF byte_step.in_rret]
  by (metis prod_cases3)

subsection \<open>Construction\<close>

text \<open>
  C4: constructing a zero object terminates: with the primitive names bound to compile-time
  prototypes, the recursion of \<open>newAt\<close> never runs out of \<open>newFuel\<close>, cyclic blueprints
  included.
\<close>

theorem construction_terminates:
  assumes "prims_concrete bps"
  shows "\<exists>res. newAt newFuel bps typeName 0 left = Some res"
  using newAt_total [OF assms, of newFuel 0 typeName left] by (auto simp: newFuel_def)

theorem construction_terminates_witness: "\<exists>res. newAt newFuel sampleRegistry ''demo'' 0 7 = Some res"
  by (rule construction_terminates [OF sample_concrete])

text \<open>
  One construction allocates at most \<open>MaxBlueprintNodes\<close> runtime frames, however wide the
  blueprints fan out.
\<close>

theorem construction_within_budget:
  assumes "prims_concrete bps" and "New bps typeName = Some o1"
  shows "nodes o1 \<le> MaxBlueprintNodes"
  using assms by (rule New_nodes)

text \<open>
  Without that condition construction does not terminate.  A registry with no parent accepts
  a struct Blueprint named \<^verbatim>\<open>uint8\<close> whose field is the primitive \<^verbatim>\<open>uint8\<close>; materialising it restarts
  the depth and node counts at every level, so no amount of recursion is enough.
\<close>

theorem isolated_registry_diverges:
  "snd (RegisterBlueprint sha256 (Some loopBlueprint) (NewBlueprints None)) = loopRegistry \<and>
   (\<forall>fuel. newAt fuel loopRegistry ''uint8'' 0 newBuildBudget = None)"
proof
  have "register_ok (NewBlueprints None) loopBlueprint"
    using loop_valid by (simp add: register_ok_def NewBlueprints_def has_iff has_parent_def loopBlueprint_def field_ref_def)
  then show "snd (RegisterBlueprint sha256 (Some loopBlueprint) (NewBlueprints None)) = loopRegistry"
    by (simp add: RegisterBlueprint_ok extend_def NewBlueprints_def loopRegistry_def) (simp add: loopBlueprint_def)
  show "\<forall>fuel. newAt fuel loopRegistry ''uint8'' 0 newBuildBudget = None"
    by (simp add: newAt_diverges newBuildBudget_def MaxBlueprintNodes_def)
qed

subsection \<open>Maps\<close>

text \<open>
  C9: the encoding of a map is canonical: it does not depend on the order in which Go's map
  iteration delivers the entries.  The values are any writers, pointers, interfaces and runtime
  objects among them.  Either every entry can be staged, and then the two orders are the same
  writer, on every stream; or some entry cannot, and then no order is ever written without an error.
\<close>

theorem map_encoding_canonical:
  assumes "supportedMapKey kind = Some width" and "\<forall>e \<in> set es. key_ok width (fst e)"
    and "distinct (map fst es)" and "mset es = mset es'"
  shows "if \<forall>e \<in> set es. \<exists>p. staged width flagged e = Inr p
    then mapValue_WriteTo kind flagged es = mapValue_WriteTo kind flagged es'
    else \<forall>w. fst (mapValue_WriteTo kind flagged es w) \<noteq> None \<and> fst (mapValue_WriteTo kind flagged es' w) \<noteq> None"
  using assms by (rule map_value_canonical)

definition sampleEntries :: "(mapkey \<times> writer) list" where
  "sampleEntries = [(KUint 3, elem_WriteTo ''demo'' sampleObject (obj_WriteTo sampleObject)), (KUint 1, ptrValue_WriteTo False None)]"

lemma sampleEntries_staged: "\<forall>e \<in> set sampleEntries. \<exists>p. staged 1 False e = Inr p"
  unfolding sampleEntries_def sampleObject_def demo_def
  by (simp add: staged_def stage_def writeMapKey_def write_eval)

theorem map_encoding_canonical_witness:
  "mapValue_WriteTo Uint8 False sampleEntries = mapValue_WriteTo Uint8 False (rev sampleEntries)"
  using map_encoding_canonical [of Uint8 1 sampleEntries "rev sampleEntries" False] sampleEntries_staged
  by (simp add: supportedMapKey_def sampleEntries_def key_ok_def)

text \<open>
  A map with frame-free values decodes to its entries in the order of their encoded keys,
  under any ledger that the writer's ledger dominates.
\<close>

theorem map_round_trip:
  assumes "supportedMapKey kind = Some width" and "\<forall>e \<in> set es. entry_ok width R e"
    and "distinct (map fst es)" and "length es < 2 ^ 32"
  shows "reads_back (mapValue_WriteTo kind flagged (map entry_writer es)) (mapValue_ReadFrom kind flagged R)
           (map entry_value (sort_key (\<lambda>e. kbytes width (fst e)) es))"
  using assms by (rule rb_map_value)


end
