(* ===== verification/Properties_Registry.thy ===== *)
theory Properties_Registry
  imports Sample
begin

text \<open>
  The properties of blueprints and of the registry: what validation accepts, what the
  sequence of Add and RegisterBlueprint calls can lead to, the order in which blueprints are
  enumerated, and the schema that reflection derives.
\<close>

subsection \<open>The sample registry as a run of the program\<close>

definition topBlueprint :: blueprint where
  "topBlueprint = \<lparr>Type = ''top'', Fields = [\<lparr>Name = ''inner'', Spec = Some (RefSpec ''demo'')\<rparr>], Underlying = []\<rparr>"

definition zeroHash :: "bytes \<Rightarrow> bytes" where "zeroHash bs = replicate 32 0"

definition twoRegistry :: registry where
  "twoRegistry = Blueprints [(''uint8'', ProtoEntry gt_Uint8), (''demo'', BlueprintEntry demo), (''top'', BlueprintEntry topBlueprint)] None"

lemma sample_register_ok:
  "register_ok (Blueprints [(''uint8'', ProtoEntry gt_Uint8)] None) demo" "register_ok sampleRegistry topBlueprint"
  by code_simp+

lemma two_runtime: "runtime_structs (entries twoRegistry) = [demo, topBlueprint]"
  by code_simp

lemma two_ordered: "orderBlueprintsByReference [demo, topBlueprint] = ([''demo'', ''top''], None)"
  by code_simp

lemma sample_add: "snd (Add [ProtoEntry gt_Uint8] (NewBlueprints None)) = Blueprints [(''uint8'', ProtoEntry gt_Uint8)] None"
  by code_simp

lemma two_reachable: "reg_reachable None twoRegistry"
proof -
  let ?r1 = "snd (Add [ProtoEntry gt_Uint8] (NewBlueprints None))"
  let ?r2 = "snd (RegisterBlueprint zeroHash (Some demo) ?r1)"
  have 2: "?r2 = sampleRegistry"
    using RegisterBlueprint_ok [OF sample_register_ok(1)]
    by (simp add: sample_add extend_def sampleRegistry_def)
  then have "snd (RegisterBlueprint zeroHash (Some topBlueprint) ?r2) = twoRegistry"
    using RegisterBlueprint_ok [OF sample_register_ok(2)]
    by (simp add: extend_def sampleRegistry_def twoRegistry_def) (simp add: topBlueprint_def)
  moreover have "reg_reachable None (snd (RegisterBlueprint zeroHash (Some topBlueprint) ?r2))"
    by (intro reg_reachable.intros)
  ultimately show ?thesis by simp
qed

subsection \<open>Registration\<close>

lemma reachable_parent: "reg_reachable p bp \<Longrightarrow> Parent bp = p"
proof (induction rule: reg_reachable.induct)
  case (reach_add bp os)
  have "Parent (snd (Add_loop os bp)) = Parent bp" for bp
    by (induction os arbitrary: bp) (auto simp: set_entry_def Let_def split: if_splits prod.splits)
  then show ?case using reach_add by (simp add: Add_def split: option.splits)
next
  case (reach_register bp sha256 ob)
  then show ?case
    by (cases ob) (auto simp: RegisterBlueprint_def set_entry_def Let_def split: option.splits sum.splits prod.splits if_splits)
qed (simp add: NewBlueprints_def)

text \<open>
  C6: whatever sequence of Add and RegisterBlueprint calls produced a registry, its names are
  distinct and none shadows the parent; every named Blueprint in it passed validation and is
  stored under its own type; and each of its references resolves in the parent or in an entry
  stored before it.
\<close>

theorem registry_invariant:
  assumes "reg_reachable p bp"
  shows "distinct (map fst (entries bp)) \<and>
    (\<forall>n \<in> fst ` set (entries bp). \<not> has_parent p n) \<and>
    (\<forall>us n b vs. entries bp = us @ (n, BlueprintEntry b) # vs \<longrightarrow> Type b \<noteq> [] \<longrightarrow>
       Type b = n \<and> validateBlueprint (Some b) = None \<and>
       (\<forall>f \<in> set (Fields b). field_ref f = [] \<or> has_parent p (field_ref f) \<or> field_ref f \<in> fst ` set us))"
proof (intro conjI allI impI)
  note inv = reachable_inv [OF assms] and p = reachable_parent [OF assms]
  show "distinct (map fst (entries bp))" using inv by (simp add: reg_inv_def map_inv_def)
  show "\<forall>n \<in> fst ` set (entries bp). \<not> has_parent p n" using inv p by (auto simp: reg_inv_def)
  fix us n b vs
  assume eq: "entries bp = us @ (n, BlueprintEntry b) # vs" and t: "Type b \<noteq> []"
  then have "entry_valid (n, BlueprintEntry b)" using inv by (auto simp: reg_inv_def)
  then show v: "Type b = n" "validateBlueprint (Some b) = None" using t by (auto simp: entry_valid_def)
  show "\<forall>f \<in> set (Fields b). field_ref f = [] \<or> has_parent p (field_ref f) \<or> field_ref f \<in> fst ` set us"
    using inv p eq v(1) unfolding reg_inv_def refs_before_def by blast
qed

theorem registry_invariant_witness:
  "validateBlueprint (Some topBlueprint) = None \<and>
   list_all (\<lambda>f. field_ref f = [] \<or> has_parent None (field_ref f) \<or> field_ref f \<in> {''uint8'', ''demo''}) (Fields topBlueprint)"
proof -
  have "entries twoRegistry = [(''uint8'', ProtoEntry gt_Uint8), (''demo'', BlueprintEntry demo)] @ (''top'', BlueprintEntry topBlueprint) # []"
    by (simp add: twoRegistry_def)
  moreover have "Type topBlueprint \<noteq> []" by (simp add: topBlueprint_def)
  moreover note registry_invariant [OF two_reachable]
  ultimately have "validateBlueprint (Some topBlueprint) = None \<and> (\<forall>f \<in> set (Fields topBlueprint). field_ref f = [] \<or>
      has_parent None (field_ref f) \<or> field_ref f \<in> fst ` set [(''uint8'', ProtoEntry gt_Uint8), (''demo'', BlueprintEntry demo)])"
    by blast
  then show ?thesis by (simp add: list_all_iff)
qed


text \<open>
  The reference graph of the runtime structs of a reachable registry has no cycle, so
  enumerating them never ends in the cycle error.
\<close>

theorem registry_acyclic:
  assumes "reg_reachable p bp"
  shows "acyclic (set (edges (runtime_structs (entries bp)))) \<and>
    snd (orderBlueprintsByReference (runtime_structs (entries bp))) = None"
proof

  have inv: "reg_inv bp" by (rule reachable_inv [OF assms])
  then show 1: "snd (orderBlueprintsByReference (runtime_structs (entries bp))) = None" by (rule reg_inv_acyclic)
  have "distinct (map Type (runtime_structs (entries bp)))" using inv by (intro runtime_structs_distinct) (simp add: reg_inv_def)
  from order_error_iff [OF this] 1 show "acyclic (set (edges (runtime_structs (entries bp))))" by simp
qed

text \<open>
  C7: a peer that registers the runtime structs of a reachable registry in the order of the
  enumeration accepts every one of them, provided it knows the entries they rest on and none of the
  structs themselves.
\<close>

theorem enumeration_replays:
  assumes "reg_reachable p src"
    and "\<And>n. has_parent p n \<or> n \<in> fst ` set (entries src) - Type ` set (runtime_structs (entries src)) \<Longrightarrow> has dst n"
    and "\<And>b. b \<in> set (runtime_structs (entries src)) \<Longrightarrow> \<not> has dst (Type b)"
  shows "fold (\<lambda>b r. snd (RegisterBlueprint sha256 (Some b) r))
       (runtime_by_name (runtime_structs (entries src)) (fst (orderBlueprintsByReference (runtime_structs (entries src))))) dst =
     Blueprints (entries dst @ map (\<lambda>b. (Type b, BlueprintEntry b))
       (runtime_by_name (runtime_structs (entries src)) (fst (orderBlueprintsByReference (runtime_structs (entries src)))))) (Parent dst)"
  using replay_ordered [OF reachable_inv [OF assms(1)]] assms(2,3) unfolding replay_def reachable_parent [OF assms(1)] by blast

theorem enumeration_replays_witness:
  "fold (\<lambda>b r. snd (RegisterBlueprint zeroHash (Some b) r)) [demo, topBlueprint] (Blueprints [(''uint8'', ProtoEntry gt_Uint8)] None) =
     twoRegistry"
proof -
  have ns: "runtime_by_name [demo, topBlueprint] [''demo'', ''top''] = [demo, topBlueprint]" by code_simp
  have "has (Blueprints [(''uint8'', ProtoEntry gt_Uint8)] None) n"
    if "has_parent None n \<or> n \<in> fst ` set (entries twoRegistry) - Type ` set (runtime_structs (entries twoRegistry))" for n
    using that unfolding two_runtime by (auto simp: twoRegistry_def has_parent_def has_iff topBlueprint_def)
  moreover have "\<not> has (Blueprints [(''uint8'', ProtoEntry gt_Uint8)] None) (Type b)"
    if "b \<in> set (runtime_structs (entries twoRegistry))" for b
    using that unfolding two_runtime by (auto simp: has_iff has_parent_def topBlueprint_def)
  ultimately show ?thesis
    using enumeration_replays [OF two_reachable, of "Blueprints [(''uint8'', ProtoEntry gt_Uint8)] None" zeroHash]
    unfolding two_runtime two_ordered fst_conv ns by (simp add: twoRegistry_def) (simp add: topBlueprint_def)
qed

subsection \<open>The order of enumeration\<close>

text \<open>
  C8: sorting blueprints by reference returns every name exactly once; without an error each
  type follows the types it references, and the cycle error names only blueprints that each
  reference another one of those named.
\<close>

theorem order_topological:
  assumes "distinct (map Type bps)" and "orderBlueprintsByReference bps = (names, err)"
  shows "distinct names \<and> set names = Type ` set bps \<and>
    (case err of
       None \<Rightarrow> \<forall>b \<in> set bps. \<forall>f \<in> set (Fields b). field_ref f \<in> Type ` set bps \<longrightarrow> field_ref f \<noteq> Type b \<longrightarrow>
         field_ref f = [] \<or> precedes names (field_ref f) (Type b)
     | Some e \<Rightarrow> \<exists>stuck. e = ErrBlueprintCycle stuck \<and> stuck \<noteq> [] \<and>
         (\<forall>m \<in> set stuck. \<exists>b \<in> set bps. Type b = m \<and> (\<exists>f \<in> set (Fields b). field_ref f \<in> set stuck - {m})))"
proof -
  have dn: "distinct names" "set names = Type ` set bps" and ord: "err = None \<Longrightarrow> \<forall>(r, m) \<in> set (edges bps). precedes names r m"
    and stuck: "\<And>e. err = Some e \<Longrightarrow> \<exists>stuck. e = ErrBlueprintCycle stuck \<and> stuck \<noteq> [] \<and>
      (\<forall>m \<in> set stuck. \<exists>r \<in> set stuck. (r, m) \<in> set (edges bps))"
    using order_correct [OF assms(1)] assms(2) by (auto simp: order_done_def)
  show ?thesis
  proof (cases err)
    case None
    have "field_ref f = [] \<or> precedes names (field_ref f) (Type b)"
      if "b \<in> set bps" "f \<in> set (Fields b)" "field_ref f \<in> Type ` set bps" "field_ref f \<noteq> Type b" for b f
    proof -
      have "field_ref f \<noteq> [] \<Longrightarrow> (field_ref f, Type b) \<in> set (edges bps)" using that unfolding edges_iff by blast
      then show ?thesis using ord [OF None] by blast
    qed
    then show ?thesis using dn None by simp
  next
    case (Some e)
    then obtain st where e: "e = ErrBlueprintCycle st" "st \<noteq> []"
      and st: "\<forall>m \<in> set st. \<exists>r \<in> set st. (r, m) \<in> set (edges bps)" using stuck by blast
    have "\<forall>m \<in> set st. \<exists>b \<in> set bps. Type b = m \<and> (\<exists>f \<in> set (Fields b). field_ref f \<in> set st - {m})"
      using st unfolding edges_iff by fast
    then show ?thesis using dn Some e by auto
  qed
qed

theorem order_topological_witness:
  "distinct [''demo'', ''top''] \<and> precedes [''demo'', ''top''] ''demo'' ''top''"
proof -
  have two: "orderBlueprintsByReference [topBlueprint, demo] = ([''demo'', ''top''], None)" by code_simp
  have "distinct (map Type [topBlueprint, demo])" by (simp add: topBlueprint_def)
  from order_topological [OF this two]
  show ?thesis by (simp add: topBlueprint_def field_ref_def)
qed

text \<open>
  The cycle error is reported exactly when the references among the given blueprints form a
  cycle, and the result does not depend on the order the blueprints are given in.
\<close>

theorem order_cycle_exact:
  assumes "distinct (map Type bps)"
  shows "(snd (orderBlueprintsByReference bps) = None \<longleftrightarrow> acyclic (set (edges bps))) \<and>
    (\<forall>bps'. mset bps' = mset bps \<longrightarrow> orderBlueprintsByReference bps' = orderBlueprintsByReference bps)"
  using order_error_iff [OF assms] order_input_order by blast

subsection \<open>Validation, derivation and the wire form of schemas\<close>

text \<open>
  Validation accepts exactly the well-named aliases of a primitive without fields and the
  well-named structs whose fields have valid names and specs, do not embed the type itself and
  are distinct up to letter case; every refusal is an invalid-blueprint error.
\<close>

theorem validation_exact:
  "(validateBlueprint (Some bp) = None) =
     (good_name (Type bp) \<and>
      (if Underlying bp \<noteq> [] then Fields bp = [] \<and> isAllowedPrimitive (Underlying bp)
       else (list_all (good_field (Type bp)) (Fields bp)) \<and> distinct (map (\<lambda>f. ToLower (Name f)) (Fields bp)))) \<and>
   (case validateBlueprint obp of None \<Rightarrow> obp \<noteq> None | Some e \<Rightarrow> \<exists>m. e = ErrBlueprintInvalid m)"
proof
  show "(validateBlueprint (Some bp) = None) =
     (good_name (Type bp) \<and>
      (if Underlying bp \<noteq> [] then Fields bp = [] \<and> isAllowedPrimitive (Underlying bp)
       else (list_all (good_field (Type bp)) (Fields bp)) \<and> distinct (map (\<lambda>f. ToLower (Name f)) (Fields bp))))"
    by (auto simp: validateBlueprint_ok_iff list_all_iff)
  show "case validateBlueprint obp of None \<Rightarrow> obp \<noteq> None | Some e \<Rightarrow> \<exists>m. e = ErrBlueprintInvalid m"
    using validateBlueprint_error [of obp] by (auto simp: validateBlueprint_def split: option.splits)
qed

text \<open>
  A Blueprint derived from a Go type by reflection is valid and carries the type name that
  the type itself reports.
\<close>

theorem derivation_sound:
  assumes "BlueprintFromType t = Inr b"
  shows "validateBlueprint (Some b) = None \<and>
    concreteObjectTypeOf (case shape t of SPtr e \<Rightarrow> e | _ \<Rightarrow> t) = Inr (Type b)"
  using derived_valid [OF assms] derived_type [OF assms] by simp

end
