(* ===== verification/Properties_Values.thy ===== *)
theory Properties_Values
  imports Sample
begin

text \<open>
  The properties of the wire primitives: leaf values and their text forms, type tags, object
  identifiers, schemas on the wire, the resource ledger, and the collections of \<^verbatim>\<open>src/sig\<close>.
\<close>

subsection \<open>Leaf values\<close>

text \<open>
  Every leaf value the wire can carry is read back from what it wrote on a plain stream,
  leaving what follows, and two values of one type with the same bytes are the same value.
\<close>

theorem leaf_round_trip:
  assumes "prim_ok p" and "prim_ok q" and "prim_type q = prim_type p"
    and "prim_WriteTo p \<lparr>out = [], wb = None\<rparr> = (None, n, w)"
  shows "n = length (out w) \<and>
    prim_ReadFrom q \<lparr>inp = out w @ rest, rb = None\<rparr> = (Inr p, n, \<lparr>inp = rest, rb = None\<rparr>) \<and>
    (\<forall>m v. prim_WriteTo q \<lparr>out = [], wb = None\<rparr> = (None, m, v) \<longrightarrow> out v = out w \<longrightarrow> q = p)"
  using primc.naked_round_trip [of p q n w rest] primc.write_inj [of q q p] assms by metis

text \<open>
  The text forms of the integer types, of booleans and of nonces parse back to the value they
  print, at every width.
\<close>

theorem text_round_trips:
  "Uint8_UnmarshalText (Uint8_MarshalText a1) = Inr a1 \<and> Uint16_UnmarshalText (Uint16_MarshalText a2) = Inr a2 \<and>
   Uint32_UnmarshalText (Uint32_MarshalText a3) = Inr a3 \<and> Uint64_UnmarshalText (Uint64_MarshalText a4) = Inr a4 \<and>
   Int8_UnmarshalText (Int8_MarshalText b1) = Inr b1 \<and> Int16_UnmarshalText (Int16_MarshalText b2) = Inr b2 \<and>
   Int32_UnmarshalText (Int32_MarshalText b3) = Inr b3 \<and> Int64_UnmarshalText (Int64_MarshalText b4) = Inr b4 \<and>
   Bool_UnmarshalText (Bool_String c) = Inr c \<and> Nonce_UnmarshalText (Nonce_String d) = Inr d"
  by (intro conjI u8t.text_round_trip u16t.text_round_trip u32t.text_round_trip u64t.text_round_trip
      i8t.text_round_trip i16t.text_round_trip i32t.text_round_trip i64t.text_round_trip
      boolt.text_round_trip noncet.text_round_trip)

text \<open>
  Type tags survive the wire under each of the three encoders: the canonical one with its
  stamp, the short one, and the indexed one as long as the table of types fits a byte.
\<close>

theorem type_tags_round_trip:
  assumes "length types \<le> 256"
  shows "reads_back (CanonicalTypeEncoder t) CanonicalTypeDecoder t \<and> reads_back (ShortTypeEncoder t) ShortTypeDecoder t \<and>
    reads_back (IndexedTypeEncoder types t) (IndexedTypeDecoder types) t"
  using canonical_tag.round_trip short_tag.round_trip rb_indexed [OF assms] by blast

subsection \<open>Object identifiers\<close>

text \<open>
  The full text form of an identifier parses back to it, the partial form parses to the same
  hash with size zero, and whatever parses has a hash of thirty-two bytes.
\<close>

theorem object_id_text:
  assumes "oid_ok i"
  shows "ParseID (ObjectID_String i) = Inr i \<and> ParseID (ObjectID_PartialString i) = Inr (i\<lparr>Size := 0\<rparr>) \<and>
    (\<forall>s j. ParseID s = Inr j \<longrightarrow> length (Hash j) = 32)"
  using parse_string [OF assms] parse_partial [OF assms] ParseID_ok by (auto simp: oid_ok_def)

text \<open>
  The identifier a resolver computes depends only on the bytes written to it and not on how
  they were split into writes; its size counts them modulo \<open>2 ^ 64\<close>.
\<close>

theorem resolve_chunking:
  "Resolve sha256 chunks = \<lparr>Size = of_nat (length (concat chunks)), Hash = take 32 (sha256 (concat chunks))\<rparr>"
  by (rule Resolve_eq)

subsection \<open>Schemas on the wire\<close>

text \<open>
  A Blueprint written to a stream is read back as the same descriptor by any registry that
  knows the spec types it uses.
\<close>

theorem blueprint_wire_round_trip:
  assumes "\<And>f s. f \<in> set (Fields bp) \<Longrightarrow> Spec f = Some s \<Longrightarrow> known (Spec_ObjectType s)"
    and "length (Fields bp) < 2 ^ 32" and "Blueprint_WriteTo bp \<lparr>out = [], wb = None\<rparr> = (None, n, w)"
  shows "Blueprint_ReadFrom known \<lparr>inp = out w @ rest, rb = None\<rparr> = (Inr bp, length (out w), \<lparr>inp = rest, rb = None\<rparr>)"
proof -
  have "reads_back (Blueprint_WriteTo bp) (Blueprint_ReadFrom known) bp" by (rule rb_Blueprint) (use assms in auto)
  from reads_back_naked [OF this assms(3)] show ?thesis by simp
qed

subsection \<open>Length-prefixed payloads and zones\<close>

lemma readNBytes_loop_naked:
  "readNBytes_loop k buf n \<lparr>inp = xs, rb = None\<rparr> =
     (if k \<le> length xs then (Inr (buf @ take k xs), n + k, \<lparr>inp = drop k xs, rb = None\<rparr>)
      else (Inl IoUnexpectedEOF, n + length xs, \<lparr>inp = [], rb = None\<rparr>))"
proof (induction k arbitrary: buf n xs rule: less_induct)
  case (less k)
  define g where "g = min k growChunk"
  have rd: "ReadFull g \<lparr>inp = xs, rb = None\<rparr> =
      (if g \<le> length xs then (Inr (take g xs), g, \<lparr>inp = drop g xs, rb = None\<rparr>)
       else (Inl (if xs = [] then IoEOF else IoUnexpectedEOF), length xs, \<lparr>inp = [], rb = None\<rparr>))"
    by (auto simp: ReadFull_def room_def spend_def Let_def min_def)
  show ?case
  proof (cases "0 < k")
    case True
    then have g: "0 < g" "g \<le> k" "k - g < k" by (auto simp: g_def growChunk_def)
    show ?thesis
    proof (cases "g \<le> length xs")
      case le: True
      have "readNBytes_loop k buf n \<lparr>inp = xs, rb = None\<rparr> =
          readNBytes_loop (k - g) (buf @ take g xs) (n + g) \<lparr>inp = drop g xs, rb = None\<rparr>"
        using True le rd by (subst readNBytes_loop.simps) (simp add: Let_def g_def [symmetric])
      then show ?thesis using less.IH [OF g(3)] g le by (auto simp: take_add [symmetric])
    next
      case False
      then show ?thesis using True rd g by (subst readNBytes_loop.simps) (simp add: Let_def g_def [symmetric])
    qed
  qed (subst readNBytes_loop.simps, simp)
qed

text \<open>
  Reading a length-prefixed payload in chunks gives exactly the bytes asked for, and an input
  that ends early gives the unexpected-end error, never a short payload.
\<close>

lemma readNBytes_exact:
  "readNBytes k \<lparr>inp = xs, rb = None\<rparr> =
     (if k \<le> length xs then (Inr (take k xs), k, \<lparr>inp = drop k xs, rb = None\<rparr>)
      else (Inl IoUnexpectedEOF, length xs, \<lparr>inp = [], rb = None\<rparr>))"
  by (simp add: readNBytes_def readNBytes_loop_naked)

lemma and_exp_word: "(z :: 'a::len word) AND 2 ^ n = (if bit z n then 2 ^ n else 0)"
  by (rule bit_word_eqI) (auto simp: bit_and_iff bit_exp_iff)

text \<open>
  Parsing the text of a zone set keeps exactly its three flags, so a set without unknown bits
  survives, and membership tests agree with the letters.
\<close>

lemma zone_text:
  "Zones (Zone_String z) = z AND ZoneAll \<and>
   Zone_Is (Zones s) ZoneDevice = (CHR ''d'' \<in> set s) \<and> Zone_Is (Zones s) ZoneVirtual = (CHR ''v'' \<in> set s) \<and>
   Zone_Is (Zones s) ZoneNetwork = (CHR ''n'' \<in> set s)"
proof -
  have bits: "z AND 1 = (if bit z 0 then 1 else 0)" "z AND 2 = (if bit z 1 then 2 else 0)" "z AND 4 = (if bit z 2 then 4 else 0)"
    using and_exp_word [of z 0] and_exp_word [of z 1] and_exp_word [of z 2] by simp_all
  have "z AND ZoneAll = (z AND 1) OR (z AND 2) OR (z AND 4)"
    by (simp only: ZoneAll_def ZoneDevice_def ZoneVirtual_def ZoneNetwork_def bit.conj_disj_distrib)
  then have "Zones (Zone_String z) = z AND ZoneAll"
    by (simp add: Zones_def Zones_loop_char Zone_String_def ZoneDevice_def ZoneVirtual_def ZoneNetwork_def bits or.assoc)
  then show ?thesis
    by (simp add: Zone_Is_def Zones_def Zones_loop_char ZoneDevice_def ZoneVirtual_def ZoneNetwork_def)
qed

subsection \<open>Collections\<close>

text \<open>
  In the synchronised map the first Set of a key wins until it is deleted: a later Set
  reports the stored value and changes nothing, and Delete returns it and leaves every other
  key alone.
\<close>

lemma map_first_set_wins:
  assumes "map_inv m" and "Map_Get m k = None" and m1_def: "m1 = snd (snd (Map_Set m k v))"
  shows "Map_Set m1 k w = (v, False, m1) \<and> Map_Get m1 = (Map_Get m)(k \<mapsto> v) \<and>
    fst (Map_Delete m1 k) = Some v \<and> Map_Get (snd (Map_Delete m1 k)) = Map_Get m"
proof -
  obtain m2 where m2: "Map_Set m k v = (v, True, m2)" "map_inv m2" "Map_Get m2 = (Map_Get m)(k \<mapsto> v)"
    using gm.set_fresh [OF assms(1,2)] by blast
  then have m1: "m1 = m2" by (simp add: m1_def)
  have "Map_Set m1 k w = (v, False, m1)" by (rule gm.set_taken) (simp_all add: m1 m2)
  moreover have "Map_Get (snd (Map_Delete m1 k)) = Map_Get m"
    using gm.set_then_remove [OF assms(1,2), of v] by (simp add: m1_def)
  ultimately show ?thesis using gm.remove_law [OF m2(2), of k] m2(3) m1 by simp
qed

text \<open>
  A synchronised set keeps its items without duplicates and in step with its index: Add makes
  the members the union, Remove takes out one member and says whether it was there, and the
  snapshot lists the members once each.
\<close>

lemma set_semantics:
  assumes "set_inv s"
  shows "set_inv (snd (Set_Add xs s)) \<and> set (Set_Clone (snd (Set_Add xs s))) = set (Set_Clone s) \<union> set xs \<and>
    distinct (Set_Clone (snd (Set_Add xs s))) \<and>
    set_inv (snd (Set_Remove x s)) \<and> set (Set_Clone (snd (Set_Remove x s))) = set (Set_Clone s) - {x} \<and>
    fst (Set_Remove x s) = (x \<in> set (Set_Clone s))"
  using gs.add_inv [OF assms] gs.elems_add [OF assms] gs.remove_inv [OF assms] gs.elems_remove [OF assms]
    gs.elems_distinct [OF gs.add_inv [OF assms]] gs.remove_reports [OF assms] gs.elems_contains [OF assms] by auto

end
