(* ===== verification/Sig_Ring.thy ===== *)
theory Sig_Ring
  imports Go_Prelude
begin

text \<open>
  The ring buffer of \<^verbatim>\<open>src/sig/ring.go\<close> and its abstract specification, a first-in first-out list of
  bounded length whose push drops the oldest item when it is full.

  \<open>zero\<close> is the zero value of the element type.  An operation returns None where the Go code
  would panic on an index out of range, which happens only on a ring that was not made by
  \<open>NewRing\<close>.  Every method holds the ring's lock, so it is one atomic step.
\<close>

record 'a ring =
  ring_items :: "'a list"
  ring_head :: nat
  ring_tail :: nat
  ring_size :: nat
  ring_capacity :: nat

definition NewRing :: "'a \<Rightarrow> int \<Rightarrow> 'a ring res" where
  "NewRing zero capacity =
     (if capacity \<le> 0 then Inl (ErrMsg ''capacity must be positive'')
      else Inr \<lparr>ring_items = replicate (nat capacity) zero, ring_head = 0, ring_tail = 0, ring_size = 0,
                ring_capacity = nat capacity\<rparr>)"

definition Ring_Push :: "'a \<Rightarrow> 'a \<Rightarrow> 'a ring \<Rightarrow> (('a \<times> bool) \<times> 'a ring) option" where
  "Ring_Push zero item r =
     (if length (ring_items r) \<le> ring_head r then None
      else let old = ring_items r ! ring_head r;
               r1 = r\<lparr>ring_items := (ring_items r)[ring_head r := item],
                      ring_head := (ring_head r + 1) mod ring_capacity r\<rparr>
        in if ring_size r1 < ring_capacity r1
           then Some ((zero, False), r1\<lparr>ring_size := ring_size r1 + 1\<rparr>)
           else Some ((old, True), r1\<lparr>ring_tail := (ring_tail r1 + 1) mod ring_capacity r1\<rparr>))"

definition Ring_Pop :: "'a \<Rightarrow> 'a ring \<Rightarrow> (('a \<times> bool) \<times> 'a ring) option" where
  "Ring_Pop zero r =
     (if ring_size r = 0 then Some ((zero, False), r)
      else if length (ring_items r) \<le> ring_tail r then None
      else Some ((ring_items r ! ring_tail r, True),
        r\<lparr>ring_items := (ring_items r)[ring_tail r := zero],
          ring_tail := (ring_tail r + 1) mod ring_capacity r, ring_size := ring_size r - 1\<rparr>))"

definition Ring_Peek :: "'a \<Rightarrow> 'a ring \<Rightarrow> ('a \<times> bool) option" where
  "Ring_Peek zero r =
     (if ring_size r = 0 then Some (zero, False)
      else if length (ring_items r) \<le> ring_tail r then None
      else Some (ring_items r ! ring_tail r, True))"

definition Ring_Len :: "'a ring \<Rightarrow> nat" where
  "Ring_Len r = ring_size r"

definition Ring_Cap :: "'a ring \<Rightarrow> nat" where
  "Ring_Cap r = ring_capacity r"

definition Ring_Clear :: "'a \<Rightarrow> 'a ring \<Rightarrow> 'a ring" where
  "Ring_Clear zero r =
     r\<lparr>ring_head := 0, ring_tail := 0, ring_size := 0,
       ring_items := map (\<lambda>_. zero) (ring_items r)\<rparr>"

fun Ring_Clone_loop :: "'a ring \<Rightarrow> nat \<Rightarrow> nat \<Rightarrow> 'a list" where
  "Ring_Clone_loop r 0 pos = []"
| "Ring_Clone_loop r (Suc k) pos = ring_items r ! pos # Ring_Clone_loop r k ((pos + 1) mod ring_capacity r)"

definition Ring_Clone :: "'a ring \<Rightarrow> 'a list" where
  "Ring_Clone r = Ring_Clone_loop r (ring_size r) (ring_tail r)"

subsection \<open>The bounded queue it implements\<close>

definition bq_push :: "'a \<Rightarrow> nat \<Rightarrow> 'a \<Rightarrow> 'a list \<Rightarrow> ('a \<times> bool) \<times> 'a list" where
  "bq_push zero cap x xs = (if length xs < cap then ((zero, False), xs @ [x]) else ((hd xs, True), tl xs @ [x]))"

fun bq_pop :: "'a \<Rightarrow> 'a list \<Rightarrow> ('a \<times> bool) \<times> 'a list" where
  "bq_pop zero [] = ((zero, False), [])"
| "bq_pop zero (x # xs) = ((x, True), xs)"

text \<open>
  A client sees a bounded queue through its contents: pushes and pops act as on the list, never
  fail, and keep the capacity.
\<close>

locale bounded_queue =
  fixes push :: "'a \<Rightarrow> 'r \<Rightarrow> (('a \<times> bool) \<times> 'r) option"
    and pop :: "'r \<Rightarrow> (('a \<times> bool) \<times> 'r) option"
    and contents :: "'r \<Rightarrow> 'a list" and cap :: "'r \<Rightarrow> nat" and inv :: "'r \<Rightarrow> bool" and zero :: 'a
  assumes cap_pos: "inv r \<Longrightarrow> 0 < cap r"
    and bounded: "inv r \<Longrightarrow> length (contents r) \<le> cap r"
    and push_law: "inv r \<Longrightarrow> \<exists>r1. push x r = Some (fst (bq_push zero (cap r) x (contents r)), r1) \<and> inv r1 \<and>
      cap r1 = cap r \<and> contents r1 = snd (bq_push zero (cap r) x (contents r))"
    and pop_law: "inv r \<Longrightarrow> \<exists>r1. pop r = Some (fst (bq_pop zero (contents r)), r1) \<and> inv r1 \<and>
      cap r1 = cap r \<and> contents r1 = snd (bq_pop zero (contents r))"
begin

fun pushes :: "'a list \<Rightarrow> 'r \<Rightarrow> 'r option" where
  "pushes [] r = Some r"
| "pushes (x # xs) r = (case push x r of None \<Rightarrow> None | Some (_, r1) \<Rightarrow> pushes xs r1)"

lemma push_contents: "snd (bq_push zero c x xs) = drop (length (xs @ [x]) - c) (xs @ [x])"
  if "length xs \<le> c" "0 < c"
  using that by (cases xs) (auto simp: bq_push_def)

text \<open>After any number of pushes the queue holds the most recent items, as many as it can.\<close>

lemma pushes_keep_last:
  "inv r \<Longrightarrow> \<exists>r1. pushes xs r = Some r1 \<and> inv r1 \<and> cap r1 = cap r \<and>
     contents r1 = drop (length (contents r @ xs) - cap r) (contents r @ xs)"
proof (induction xs arbitrary: r)
  case Nil
  then show ?case using bounded by simp
next
  case (Cons x xs)
  obtain o1 r1 where r1: "push x r = Some (o1, r1)" "inv r1" "cap r1 = cap r"
    "contents r1 = snd (bq_push zero (cap r) x (contents r))"
    using push_law [OF Cons.prems, of x] by blast
  have c1: "contents r1 = drop (length (contents r @ [x]) - cap r) (contents r @ [x])"
    unfolding r1(4) by (rule push_contents) (use Cons.prems bounded cap_pos in auto)
  obtain r2 where r2: "pushes xs r1 = Some r2" "inv r2" "cap r2 = cap r1"
    "contents r2 = drop (length (contents r1 @ xs) - cap r1) (contents r1 @ xs)"
    using Cons.IH [OF r1(2)] by blast
  have "contents r2 = drop (length (contents r @ x # xs) - cap r) (contents r @ x # xs)"
    using r2(4) r1(3) c1 bounded [OF Cons.prems] by (cases "length (contents r) < cap r") (auto simp: drop_Cons')
  then show ?case using r1 r2 by simp
qed

end

subsection \<open>Refinement\<close>

definition ring_inv :: "'a ring \<Rightarrow> bool" where
  "ring_inv r \<longleftrightarrow>
     0 < ring_capacity r \<and> length (ring_items r) = ring_capacity r \<and> ring_size r \<le> ring_capacity r \<and>
     ring_tail r < ring_capacity r \<and> ring_head r = (ring_tail r + ring_size r) mod ring_capacity r"

lemma Clone_loop_eq:
  "Ring_Clone_loop r k (p mod ring_capacity r) = map (\<lambda>i. ring_items r ! ((p + i) mod ring_capacity r)) [0..<k]"
proof (induction k arbitrary: p)
  case (Suc k)
  have "map (\<lambda>i. ring_items r ! ((p + i) mod ring_capacity r)) [0..<Suc k] =
      ring_items r ! (p mod ring_capacity r) # map (\<lambda>i. ring_items r ! ((Suc p + i) mod ring_capacity r)) [0..<k]"
    by (simp add: upt_conv_Cons map_Suc_upt [symmetric] del: upt_Suc)
  then show ?case using Suc [of "Suc p"] by (simp add: mod_Suc_eq)
qed simp

lemma Clone_eq:
  "ring_inv r \<Longrightarrow> Ring_Clone r = map (\<lambda>i. ring_items r ! ((ring_tail r + i) mod ring_capacity r)) [0..<ring_size r]"
  using Clone_loop_eq [of r "ring_size r" "ring_tail r"] by (simp add: Ring_Clone_def ring_inv_def)

lemma mod_ring_inj:
  assumes "i < c" "j < c" "((t::nat) + i) mod c = (t + j) mod c"
  shows "i = j"
proof -
  have "b = a" if "a \<le> b" "b < c" "(t + a) mod c = (t + b) mod c" for a b
  proof -
    have "c dvd (t + b) - (t + a)" using that mod_eq_dvd_iff_nat [of "t + a" "t + b" c] by simp
    then show ?thesis using that by (auto dest: dvd_imp_le)
  qed
  from this [of i j] this [of j i] show ?thesis using assms by linarith
qed

lemma push_refines:
  assumes "ring_inv r"
  shows "\<exists>r1. Ring_Push zero x r = Some (fst (bq_push zero (ring_capacity r) x (Ring_Clone r)), r1) \<and> ring_inv r1 \<and>
    ring_capacity r1 = ring_capacity r \<and> Ring_Clone r1 = snd (bq_push zero (ring_capacity r) x (Ring_Clone r))"
proof -
  define c t s where "c = ring_capacity r" and "t = ring_tail r" and "s = ring_size r"
  have inv: "0 < c" "length (ring_items r) = c" "s \<le> c" "t < c" "ring_head r = (t + s) mod c"
    using assms by (simp_all add: ring_inv_def c_def t_def s_def)
  let ?its = "(ring_items r)[(t + s) mod c := x]"
  have keep: "?its ! ((t + i) mod c) = ring_items r ! ((t + i) mod c)" if "i < c" "i \<noteq> s" "s < c" for i
    using that mod_ring_inj [of i c s t] by (metis nth_list_update_neq)
  have head: "(t + s) mod c < length (ring_items r)" using inv by simp
  have clone: "Ring_Clone r = map (\<lambda>i. ring_items r ! ((t + i) mod c)) [0..<s]"
    using Clone_eq [OF assms] by (simp add: c_def t_def s_def)
  show ?thesis
  proof (cases "s < c")
    case True
    let ?r1 = "r\<lparr>ring_items := ?its, ring_head := ((t + s) mod c + 1) mod c, ring_size := s + 1\<rparr>"
    have i1: "ring_inv ?r1" using inv True by (simp add: ring_inv_def c_def [symmetric] t_def [symmetric] mod_Suc_eq)
    have "Ring_Clone ?r1 = Ring_Clone r @ [x]"
      unfolding Clone_eq [OF i1] clone using keep True head by (simp add: c_def [symmetric] t_def [symmetric])
    moreover have "Ring_Push zero x r = Some ((zero, False), ?r1)"
      using inv head True by (simp add: Ring_Push_def Let_def c_def [symmetric] s_def [symmetric] not_le)
    ultimately show ?thesis using i1 True clone by (simp add: bq_push_def c_def [symmetric])
  next
    case False
    then have sc: "s = c" using inv by simp
    then have h: "(t + s) mod c = t" using inv by simp
    let ?r1 = "r\<lparr>ring_items := ?its, ring_head := (t + 1) mod c, ring_tail := (t + 1) mod c\<rparr>"
    have i1: "ring_inv ?r1" using inv sc by (simp add: ring_inv_def c_def [symmetric] s_def [symmetric])
    have nth: "?its ! ((t + 1 + i) mod c) = (if i = c - 1 then x else ring_items r ! ((t + 1 + i) mod c))" if "i < c" for i
    proof (cases "i = c - 1")
      case True
      then have "(t + 1 + i) mod c = t" using inv by simp
      then show ?thesis using True h head by simp
    next
      case f: False
      have "Suc i < c" using f that by linarith
      then have "(t + 1 + i) mod c \<noteq> (t + 0) mod c" using mod_ring_inj [of "Suc i" c 0 t] inv by auto
      then show ?thesis using f h inv by simp
    qed
    have "Ring_Clone ?r1 = map (\<lambda>i. ?its ! ((t + 1 + i) mod c)) [0..<c]"
      unfolding Clone_eq [OF i1] using sc by (simp add: c_def [symmetric] s_def [symmetric] mod_add_left_eq mod_Suc_eq flip: add_Suc)
    also have "\<dots> = map (\<lambda>i. ring_items r ! ((t + 1 + i) mod c)) [0..<c - 1] @ [x]"
    proof -
      have up: "[0..<c] = [0..<c - 1] @ [c - 1]" using inv by (metis Suc_pred' upt_Suc_append le0)
      show ?thesis unfolding up map_append using nth inv h by simp
    qed
    also have "map (\<lambda>i. ring_items r ! ((t + 1 + i) mod c)) [0..<c - 1] = tl (Ring_Clone r)"
      unfolding clone sc by (rule nth_equalityI) (simp_all add: nth_tl less_diff_conv)
    finally have "Ring_Clone ?r1 = tl (Ring_Clone r) @ [x]" .
    moreover have "Ring_Push zero x r = Some ((ring_items r ! t, True), ?r1)"
      using inv head h sc by (simp add: Ring_Push_def Let_def not_le c_def [symmetric] s_def [symmetric] t_def [symmetric])
    moreover have "hd (Ring_Clone r) = ring_items r ! t" unfolding clone using sc inv by (simp add: hd_map)
    ultimately show ?thesis using i1 sc clone by (simp add: bq_push_def c_def [symmetric])
  qed
qed

lemma pop_refines:
  assumes "ring_inv r"
  shows "\<exists>r1. Ring_Pop zero r = Some (fst (bq_pop zero (Ring_Clone r)), r1) \<and> ring_inv r1 \<and>
    ring_capacity r1 = ring_capacity r \<and> Ring_Clone r1 = snd (bq_pop zero (Ring_Clone r))"
proof -
  define c t s where "c = ring_capacity r" and "t = ring_tail r" and "s = ring_size r"
  have inv: "0 < c" "length (ring_items r) = c" "s \<le> c" "t < c" "ring_head r = (t + s) mod c"
    using assms by (simp_all add: ring_inv_def c_def t_def s_def)
  have clone: "Ring_Clone r = map (\<lambda>i. ring_items r ! ((t + i) mod c)) [0..<s]"
    using Clone_eq [OF assms] by (simp add: c_def t_def s_def)
  show ?thesis
  proof (cases s)
    case 0
    then show ?thesis using assms clone by (simp add: Ring_Pop_def s_def [symmetric])
  next
    case (Suc k)
    let ?its = "(ring_items r)[t := zero]"
    let ?r1 = "r\<lparr>ring_items := ?its, ring_tail := (t + 1) mod c, ring_size := k\<rparr>"
    have i1: "ring_inv ?r1" using inv Suc by (simp add: ring_inv_def c_def [symmetric] mod_add_left_eq mod_Suc_eq)
    have nth: "?its ! ((t + 1 + i) mod c) = ring_items r ! ((t + 1 + i) mod c)" if "i < k" for i
    proof -
      have "Suc i < c" using that inv Suc by linarith
      then have "(t + 1 + i) mod c \<noteq> t" using mod_ring_inj [of "Suc i" c 0 t] inv by auto
      then show ?thesis by (metis nth_list_update_neq)
    qed
    have "Ring_Clone ?r1 = map (\<lambda>i. ?its ! ((t + 1 + i) mod c)) [0..<k]"
      unfolding Clone_eq [OF i1] by (simp add: c_def [symmetric] mod_add_left_eq mod_Suc_eq flip: add_Suc)
    also have "\<dots> = map (\<lambda>i. ring_items r ! ((t + Suc i) mod c)) [0..<k]" using nth by simp
    finally have r1: "Ring_Clone ?r1 = map (\<lambda>i. ring_items r ! ((t + Suc i) mod c)) [0..<k]" .
    have cl: "Ring_Clone r = ring_items r ! t # map (\<lambda>i. ring_items r ! ((t + Suc i) mod c)) [0..<k]"
      unfolding clone Suc using inv by (simp add: upt_conv_Cons map_Suc_upt [symmetric] comp_def del: upt_Suc)
    have "Ring_Pop zero r = Some ((ring_items r ! t, True), ?r1)"
      using inv Suc by (simp add: Ring_Pop_def s_def [symmetric] t_def [symmetric] c_def [symmetric])
    then show ?thesis using i1 r1 cl by simp
  qed
qed

interpretation ringq: bounded_queue "Ring_Push zero" "Ring_Pop zero" Ring_Clone Ring_Cap ring_inv zero for zero
proof unfold_locales
  fix r :: "'a ring" and x
  assume r: "ring_inv r"
  then show "0 < Ring_Cap r" by (simp add: Ring_Cap_def ring_inv_def)
  show "length (Ring_Clone r) \<le> Ring_Cap r" using Clone_eq [OF r] r by (simp add: Ring_Cap_def ring_inv_def)
  show "\<exists>r1. Ring_Push zero x r = Some (fst (bq_push zero (Ring_Cap r) x (Ring_Clone r)), r1) \<and> ring_inv r1 \<and>
      Ring_Cap r1 = Ring_Cap r \<and> Ring_Clone r1 = snd (bq_push zero (Ring_Cap r) x (Ring_Clone r))"
    unfolding Ring_Cap_def by (rule push_refines [OF r])
  show "\<exists>r1. Ring_Pop zero r = Some (fst (bq_pop zero (Ring_Clone r)), r1) \<and> ring_inv r1 \<and>
      Ring_Cap r1 = Ring_Cap r \<and> Ring_Clone r1 = snd (bq_pop zero (Ring_Clone r))"
    unfolding Ring_Cap_def by (rule pop_refines [OF r])
qed

lemma NewRing_inv: "NewRing zero n = Inr r \<Longrightarrow> ring_inv r \<and> Ring_Clone r = []"
  by (auto simp: NewRing_def ring_inv_def Ring_Clone_def split: if_splits)

lemma Clear_inv: "ring_inv r \<Longrightarrow> ring_inv (Ring_Clear zero r) \<and> Ring_Clone (Ring_Clear zero r) = []"
  by (simp add: Ring_Clear_def ring_inv_def Ring_Clone_def)

lemma Peek_hd: "ring_inv r \<Longrightarrow> Ring_Peek zero r = Some (case Ring_Clone r of [] \<Rightarrow> (zero, False) | x # _ \<Rightarrow> (x, True))"
proof -
  assume r: "ring_inv r"
  then show ?thesis unfolding Clone_eq [OF r] by (cases "ring_size r")
    (auto simp: Ring_Peek_def ring_inv_def upt_conv_Cons simp del: upt_Suc)
qed

subsection \<open>Runs\<close>

text \<open>A client's calls, in order; what each answers, on the ring and on the bounded queue.\<close>

datatype 'a ring_op = RPush 'a | RPop | RClear

fun Ring_run :: "'a \<Rightarrow> 'a ring_op list \<Rightarrow> 'a ring \<Rightarrow> (('a \<times> bool) list \<times> 'a ring) option" where
  "Ring_run zero [] r = Some ([], r)"
| "Ring_run zero (RPush x # ops) r =
     (case Ring_Push zero x r of
        None \<Rightarrow> None | Some (a, r1) \<Rightarrow> map_option (apfst (Cons a)) (Ring_run zero ops r1))"
| "Ring_run zero (RPop # ops) r =
     (case Ring_Pop zero r of
        None \<Rightarrow> None | Some (a, r1) \<Rightarrow> map_option (apfst (Cons a)) (Ring_run zero ops r1))"
| "Ring_run zero (RClear # ops) r = Ring_run zero ops (Ring_Clear zero r)"

fun bq_run :: "'a \<Rightarrow> nat \<Rightarrow> 'a ring_op list \<Rightarrow> 'a list \<Rightarrow> ('a \<times> bool) list \<times> 'a list" where
  "bq_run zero cap [] xs = ([], xs)"
| "bq_run zero cap (RPush x # ops) xs =
     (case bq_push zero cap x xs of (a, xs1) \<Rightarrow> apfst (Cons a) (bq_run zero cap ops xs1))"
| "bq_run zero cap (RPop # ops) xs = (case bq_pop zero xs of (a, xs1) \<Rightarrow> apfst (Cons a) (bq_run zero cap ops xs1))"
| "bq_run zero cap (RClear # ops) xs = bq_run zero cap ops []"

lemma Clear_cap: "ring_capacity (Ring_Clear zero r) = ring_capacity r"
  by (simp add: Ring_Clear_def)

lemma run_refines:
  "ring_inv r \<Longrightarrow> \<exists>r1. Ring_run zero ops r = Some (fst (bq_run zero (ring_capacity r) ops (Ring_Clone r)), r1) \<and>
     ring_inv r1 \<and> Ring_Clone r1 = snd (bq_run zero (ring_capacity r) ops (Ring_Clone r))"
proof (induction ops arbitrary: r)
  case (Cons op ops)
  show ?case
  proof (cases op)
    case (RPush x)
    obtain r1 where "Ring_Push zero x r = Some (fst (bq_push zero (ring_capacity r) x (Ring_Clone r)), r1)"
        "ring_inv r1" "ring_capacity r1 = ring_capacity r" "Ring_Clone r1 = snd (bq_push zero (ring_capacity r) x (Ring_Clone r))"
      using push_refines [OF Cons.prems] by blast
    then show ?thesis using Cons.IH [of r1] RPush by (auto split: prod.splits)
  next
    case RPop
    obtain r1 where "Ring_Pop zero r = Some (fst (bq_pop zero (Ring_Clone r)), r1)"
        "ring_inv r1" "ring_capacity r1 = ring_capacity r" "Ring_Clone r1 = snd (bq_pop zero (Ring_Clone r))"
      using pop_refines [OF Cons.prems] by blast
    then show ?thesis using Cons.IH [of r1] RPop by (auto split: prod.splits)
  next
    case RClear
    then show ?thesis using Cons.IH [of "Ring_Clear zero r"] Clear_inv [OF Cons.prems] by (simp add: Clear_cap)
  qed
qed simp

end
