(* ===== verification/Sig_Pool.thy ===== *)
theory Sig_Pool
  imports Go_Prelude
begin

text \<open>
  The counted resource pool of \<^verbatim>\<open>src/sig/pool.go\<close>.  Go's maps read as zero where a key is missing, so
  both counters are total functions; a Go int has 64 bits, and sums and differences wrap
  (\<open>go_int\<close>).  \<open>Pool_attempt\<close> is one round of the loop in \<^verbatim>\<open>Lock\<close>; a
  failed round waits on the condition variable, which the step relation \<open>pool_step\<close> models
  with the callers that are awake and those asleep.
\<close>

definition go_int :: "int \<Rightarrow> int" where
  "go_int x = signed_take_bit 63 x"

lemma go_int_same [simp]: "- (2 ^ 63) \<le> x \<Longrightarrow> x < 2 ^ 63 \<Longrightarrow> go_int x = x"
  by (simp add: go_int_def signed_take_bit_int_eq_self)

record pool =
  pool_cap :: "string \<Rightarrow> int"
  pool_locked :: "string \<Rightarrow> int"

definition NewPool :: pool where
  "NewPool = \<lparr>pool_cap = (\<lambda>_. 0), pool_locked = (\<lambda>_. 0)\<rparr>"

definition Pool_Add :: "string \<Rightarrow> int \<Rightarrow> pool \<Rightarrow> int \<times> pool" where
  "Pool_Add item count r =
     (let r1 = r\<lparr>pool_cap := (pool_cap r)(item := go_int (pool_cap r item + count))\<rparr> in (pool_cap r1 item, r1))"

definition Pool_lock :: "string \<Rightarrow> pool \<Rightarrow> bool \<times> pool" where
  "Pool_lock name r =
     (if go_int (pool_cap r name - pool_locked r name) \<le> 0 then (False, r)
      else (True, r\<lparr>pool_locked := (pool_locked r)(name := go_int (pool_locked r name + 1))\<rparr>))"

definition Pool_unlock :: "string \<Rightarrow> pool \<Rightarrow> bool \<times> pool" where
  "Pool_unlock name r =
     (if pool_locked r name \<le> 0 then (False, r)
      else (True, r\<lparr>pool_locked := (pool_locked r)(name := go_int (pool_locked r name - 1))\<rparr>))"

definition unlock_all :: "string list \<Rightarrow> pool \<Rightarrow> pool" where
  "unlock_all names r = fold (\<lambda>n r. snd (Pool_unlock n r)) names r"

fun attempt_loop :: "string list \<Rightarrow> string list \<Rightarrow> pool \<Rightarrow> bool \<times> pool" where
  "attempt_loop [] locked r = (True, r)"
| "attempt_loop (n # ns) locked r =
     (case Pool_lock n r of
        (True, r1) \<Rightarrow> attempt_loop ns (locked @ [n]) r1
      | (False, r1) \<Rightarrow> (False, unlock_all locked r1))"

definition Pool_attempt :: "string list \<Rightarrow> pool \<Rightarrow> bool \<times> pool" where
  "Pool_attempt names r = attempt_loop names [] r"

definition Pool_Unlock :: "string list \<Rightarrow> pool \<Rightarrow> pool" where
  "Pool_Unlock names r = unlock_all names r"

subsection \<open>One attempt\<close>

text \<open>Counters that neither went below zero nor past the largest Go int.\<close>

definition pool_inv :: "pool \<Rightarrow> bool" where
  "pool_inv r \<longleftrightarrow> (\<forall>n. 0 \<le> pool_locked r n \<and> pool_locked r n < 2 ^ 63 \<and> 0 \<le> pool_cap r n \<and> pool_cap r n < 2 ^ 63)"

lemma pool_invD:
  assumes "pool_inv r"
  shows "0 \<le> pool_locked r n" "pool_locked r n < 2 ^ 63" "0 \<le> pool_cap r n" "pool_cap r n < 2 ^ 63"
  using assms by (auto simp: pool_inv_def)

lemma Pool_lock_eq:
  assumes "pool_inv r"
  shows "Pool_lock n r =
    (if pool_locked r n < pool_cap r n then (True, r\<lparr>pool_locked := (pool_locked r)(n := pool_locked r n + 1)\<rparr>) else (False, r))"
  using pool_invD [OF assms, of n] by (auto simp: Pool_lock_def)

lemma Pool_unlock_eq:
  assumes "pool_inv r"
  shows "snd (Pool_unlock n r) =
    (if 0 < pool_locked r n then r\<lparr>pool_locked := (pool_locked r)(n := pool_locked r n - 1)\<rparr> else r)"
  using pool_invD [OF assms, of n] by (auto simp: Pool_unlock_def)

definition satisfiable :: "string list \<Rightarrow> pool \<Rightarrow> bool" where
  "satisfiable names r \<longleftrightarrow> (\<forall>n \<in> set names. int (count_list names n) \<le> pool_cap r n - pool_locked r n)"

definition hold :: "string list \<Rightarrow> pool \<Rightarrow> pool" where
  "hold names r = r\<lparr>pool_locked := (\<lambda>n. pool_locked r n + int (count_list names n))\<rparr>"

lemma pool_eqI: "pool_cap a = pool_cap b \<Longrightarrow> (\<And>n. pool_locked a n = pool_locked b n) \<Longrightarrow> (a :: pool) = b"
  by (cases a; cases b) auto

lemma hold_Nil [simp]: "hold [] r = r"
  by (simp add: hold_def)

lemma hold_snoc: "hold (ns @ [n]) r = (hold ns r)\<lparr>pool_locked := (pool_locked (hold ns r))(n := pool_locked (hold ns r) n + 1)\<rparr>"
  by (rule pool_eqI) (auto simp: hold_def)

lemma hold_fits:
  "pool_inv r \<Longrightarrow> \<forall>n \<in> set ns. int (count_list ns n) \<le> pool_cap r n - pool_locked r n \<Longrightarrow> pool_inv (hold ns r)"
proof -
  assume inv: "pool_inv r" and fit: "\<forall>n \<in> set ns. int (count_list ns n) \<le> pool_cap r n - pool_locked r n"
  have "pool_locked r n + int (count_list ns n) < 2 ^ 63" for n
    using pool_invD [OF inv, of n] fit by (cases "n \<in> set ns") (auto simp: count_list_0_iff)
  then show ?thesis using inv by (auto simp: pool_inv_def hold_def)
qed

lemma unlock_all_hold: "pool_inv (hold (us @ ns) r) \<Longrightarrow> pool_inv r \<Longrightarrow> unlock_all ns (hold (us @ ns) r) = hold us r"
proof (induction ns arbitrary: us)
  case (Cons n ns)
  have st: "snd (Pool_unlock n (hold (us @ n # ns) r)) = hold (us @ ns) r"
  proof -
    have "0 < pool_locked (hold (us @ n # ns) r) n" using pool_invD(1) [OF Cons.prems(2), of n] by (simp add: hold_def)
    then show ?thesis using Pool_unlock_eq [OF Cons.prems(1), of n] by (intro pool_eqI) (auto simp: hold_def)
  qed
  have less: "pool_locked (hold (us @ ns) r) m \<le> pool_locked (hold (us @ n # ns) r) m" "0 \<le> pool_locked (hold (us @ ns) r) m" for m
    using pool_invD(1) [OF Cons.prems(2), of m] by (simp_all add: hold_def)
  have "pool_cap (hold (us @ ns) r) = pool_cap r" by (simp add: hold_def)
  then have "pool_inv (hold (us @ ns) r)" using less pool_invD [OF Cons.prems(2)] pool_invD(2) [OF Cons.prems(1)]
    unfolding pool_inv_def by (metis order_le_less_trans)
  then show ?case using Cons st by (simp add: unlock_all_def)
qed (simp add: unlock_all_def)

lemma attempt_loop_eq:
  assumes "pool_inv r"
  shows "(\<forall>n \<in> set us. int (count_list us n) \<le> pool_cap r n - pool_locked r n) \<Longrightarrow>
    attempt_loop ns us (hold us r) =
      (if satisfiable (us @ ns) r then (True, hold (us @ ns) r) else (False, r))"
proof (induction ns arbitrary: us)
  case Nil
  then show ?case by (simp add: satisfiable_def)
next
  case (Cons n ns)
  note lock = Pool_lock_eq [OF hold_fits [OF assms Cons.prems], of n]
  show ?case
  proof (cases "int (count_list us n) < pool_cap r n - pool_locked r n")
    case True
    then have "Pool_lock n (hold us r) = (True, hold (us @ [n]) r)"
      using lock by (simp add: hold_snoc) (simp add: hold_def)
    moreover have "\<forall>m \<in> set (us @ [n]). int (count_list (us @ [n]) m) \<le> pool_cap r m - pool_locked r m"
      using Cons.prems True by auto
    ultimately show ?thesis using Cons.IH [of "us @ [n]"] by simp
  next
    case False
    then have "Pool_lock n (hold us r) = (False, hold us r)" using lock by (simp add: hold_def)
    moreover have "unlock_all us (hold us r) = r"
      using unlock_all_hold [of "[]" us r] hold_fits [OF assms Cons.prems] assms by simp
    moreover have "\<not> satisfiable (us @ n # ns) r"
    proof -
      have "int (count_list us n) < int (count_list (us @ n # ns) n)" by simp
      then have "\<not> int (count_list (us @ n # ns) n) \<le> pool_cap r n - pool_locked r n" using False by linarith
      then show ?thesis unfolding satisfiable_def by auto
    qed
    ultimately show ?thesis by simp
  qed
qed

text \<open>An attempt takes everything it asks for, counted with repetition, or nothing at all.\<close>

lemma attempt_exact:
  "pool_inv r \<Longrightarrow> Pool_attempt ns r = (if satisfiable ns r then (True, hold ns r) else (False, r))"
  using attempt_loop_eq [of r "[]" ns] by (simp add: Pool_attempt_def)

lemma unlock_all_inv:
  "pool_inv r \<Longrightarrow> pool_inv (unlock_all ns r) \<and> pool_cap (unlock_all ns r) = pool_cap r \<and>
     (\<forall>n. pool_locked (unlock_all ns r) n \<le> pool_locked r n)"
proof (induction ns arbitrary: r)
  case (Cons m ns)
  let ?r = "snd (Pool_unlock m r)"
  have "pool_locked r m - 1 < 2 ^ 63" using pool_invD(2) [OF Cons.prems, of m] by linarith
  then have "pool_inv ?r \<and> pool_cap ?r = pool_cap r \<and> (\<forall>n. pool_locked ?r n \<le> pool_locked r n)"
    using pool_invD [OF Cons.prems]
    unfolding Pool_unlock_eq [OF Cons.prems, of m] pool_inv_def by auto
  then show ?case using Cons.IH [of ?r] by (auto simp: unlock_all_def intro: order_trans)
qed (simp add: unlock_all_def)

subsection \<open>Callers that wait\<close>

text \<open>The state of a pool with its callers; \<open>added\<close> records the calls of \<^verbatim>\<open>Add\<close> so far.\<close>

record pool_state =
  the_pool :: pool
  awake :: "string list list"
  asleep :: "string list list"
  added :: "(string \<times> int) list"

definition wake :: "pool_state \<Rightarrow> pool_state" where
  "wake s = s\<lparr>awake := awake s @ asleep s, asleep := []\<rparr>"

inductive pool_step :: "pool_state \<Rightarrow> pool_state \<Rightarrow> bool" where
  lock_call: "ns \<noteq> [] \<Longrightarrow> pool_step s (s\<lparr>awake := awake s @ [ns]\<rparr>)"
| lock_ok: "awake s = us @ ns # vs \<Longrightarrow> Pool_attempt ns (the_pool s) = (True, r) \<Longrightarrow>
    pool_step s (s\<lparr>the_pool := r, awake := us @ vs\<rparr>)"
| lock_wait: "awake s = us @ ns # vs \<Longrightarrow> Pool_attempt ns (the_pool s) = (False, r) \<Longrightarrow>
    pool_step s (s\<lparr>the_pool := r, awake := us @ vs, asleep := asleep s @ [ns]\<rparr>)"
| add_call: "pool_step s (wake (s\<lparr>the_pool := snd (Pool_Add item count (the_pool s)), added := added s @ [(item, count)]\<rparr>))"
| unlock_call: "ns \<noteq> [] \<Longrightarrow> pool_step s (wake (s\<lparr>the_pool := Pool_Unlock ns (the_pool s)\<rparr>))"

inductive pool_reachable :: "pool_state \<Rightarrow> bool" where
  pool_start: "pool_reachable \<lparr>the_pool = NewPool, awake = [], asleep = [], added = []\<rparr>"
| pool_more: "pool_reachable s \<Longrightarrow> pool_step s s1 \<Longrightarrow> pool_reachable s1"

text \<open>What was added of an item, and that at no time it was below zero or past the largest Go int.\<close>

definition total_added :: "(string \<times> int) list \<Rightarrow> string \<Rightarrow> int" where
  "total_added as n = sum_list (map snd (filter (\<lambda>a. fst a = n) as))"

definition sane_adds :: "(string \<times> int) list \<Rightarrow> bool" where
  "sane_adds as \<longleftrightarrow> (\<forall>k n. 0 \<le> total_added (take k as) n \<and> total_added (take k as) n < 2 ^ 63)"

text \<open>The largest amount of an item there ever was.\<close>

definition peak :: "(string \<times> int) list \<Rightarrow> string \<Rightarrow> int" where
  "peak as n = Max ((\<lambda>k. total_added (take k as) n) ` {..length as})"

lemma total_snoc: "total_added (as @ [(m, c)]) n = total_added as n + (if m = n then c else 0)"
  by (simp add: total_added_def)

lemma sane_addsD: "sane_adds as \<Longrightarrow> 0 \<le> total_added as n \<and> total_added as n < 2 ^ 63"
  unfolding sane_adds_def by (drule spec [of _ "length as"], drule spec [of _ n]) simp

lemma sane_adds_init: "sane_adds (as @ [a]) \<Longrightarrow> sane_adds as"
  unfolding sane_adds_def
proof (intro allI)
  fix k n
  assume sane: "\<forall>k n. 0 \<le> total_added (take k (as @ [a])) n \<and> total_added (take k (as @ [a])) n < 2 ^ 63"
  show "0 \<le> total_added (take k as) n \<and> total_added (take k as) n < 2 ^ 63"
    using sane [rule_format, of "min k (length as)" n] by (simp add: min_def split: if_splits)
qed

lemma total_le_peak: "total_added as n \<le> peak as n"
  unfolding peak_def by (rule Max_ge) (auto intro!: image_eqI [of _ _ "length as"])

lemma peak_snoc: "peak as n \<le> peak (as @ [a]) n"
  unfolding peak_def
proof (rule Max_mono)
  show "(\<lambda>k. total_added (take k as) n) ` {..length as} \<subseteq> (\<lambda>k. total_added (take k (as @ [a])) n) ` {..length (as @ [a])}"
  proof
    fix x
    assume "x \<in> (\<lambda>k. total_added (take k as) n) ` {..length as}"
    then obtain k where "k \<le> length as" "x = total_added (take k as) n" by auto
    then show "x \<in> (\<lambda>k. total_added (take k (as @ [a])) n) ` {..length (as @ [a])}" by (intro image_eqI [of _ _ k]) auto
  qed
qed auto

lemma peak_less: "sane_adds as \<Longrightarrow> peak as n < 2 ^ 63"
  unfolding peak_def by (subst Max_less_iff) (auto simp: sane_adds_def)

lemma total_mono: "\<forall>a \<in> set as. 0 \<le> snd a \<Longrightarrow> total_added (take k as) n \<le> total_added as n"
proof -
  assume "\<forall>a \<in> set as. 0 \<le> snd a"
  then have "\<forall>a \<in> set (drop k as). 0 \<le> snd a" by (meson in_set_dropD)
  then have "0 \<le> total_added (drop k as) n" unfolding total_added_def by (intro sum_list_nonneg) auto
  moreover have "total_added as n = total_added (take k as) n + total_added (drop k as) n"
    unfolding total_added_def by (metis append_take_drop_id filter_append map_append sum_list_append)
  ultimately show ?thesis by simp
qed

lemma peak_raised: "\<forall>a \<in> set as. 0 \<le> snd a \<Longrightarrow> peak as n = total_added as n"
  by (rule antisym [OF _ total_le_peak]) (auto simp: peak_def total_mono)

definition pool_state_inv :: "pool_state \<Rightarrow> bool" where
  "pool_state_inv s \<longleftrightarrow>
     (\<forall>n. 0 \<le> pool_locked (the_pool s) n \<and> pool_locked (the_pool s) n \<le> peak (added s) n \<and>
          pool_cap (the_pool s) n = total_added (added s) n) \<and>
     (\<forall>ns \<in> set (asleep s). \<not> satisfiable ns (the_pool s))"

lemma pool_state_invD: "pool_state_inv s \<Longrightarrow> sane_adds (added s) \<Longrightarrow> pool_inv (the_pool s)"
  unfolding pool_inv_def pool_state_inv_def by (metis sane_addsD peak_less order_le_less_trans)

lemma hold_unsatisfiable: "\<not> satisfiable ns r \<Longrightarrow> \<not> satisfiable ns (hold ms r)"
proof
  assume no: "\<not> satisfiable ns r" and "satisfiable ns (hold ms r)"
  then have "int (count_list ns n) \<le> pool_cap r n - (pool_locked r n + int (count_list ms n))" if "n \<in> set ns" for n
    using that by (simp add: satisfiable_def hold_def)
  then have "int (count_list ns n) \<le> pool_cap r n - pool_locked r n" if "n \<in> set ns" for n
    using that by fastforce
  then show False using no by (simp add: satisfiable_def)
qed

lemma pool_step_inv: "pool_step s s1 \<Longrightarrow> sane_adds (added s1) \<Longrightarrow> (sane_adds (added s) \<Longrightarrow> pool_state_inv s) \<Longrightarrow> pool_state_inv s1"
proof (induction rule: pool_step.induct)
  case (lock_call ns s)
  then show ?case by (simp add: pool_state_inv_def)
next
  case (lock_ok s us ns vs r)
  then have sane: "sane_adds (added s)" by simp
  note inv = lock_ok.prems(2) [OF sane]
  from attempt_exact [OF pool_state_invD [OF inv sane], of ns] lock_ok(2)
  have sat: "satisfiable ns (the_pool s)" and r: "r = hold ns (the_pool s)" by (auto split: if_splits)
  have "pool_locked r n \<le> peak (added s) n" for n
  proof (cases "n \<in> set ns")
    case True
    then have "pool_locked r n \<le> total_added (added s) n" using sat r inv by (auto simp: satisfiable_def hold_def pool_state_inv_def)
    then show ?thesis using total_le_peak [of "added s" n] by linarith
  next
    case False
    then show ?thesis using inv r by (simp add: pool_state_inv_def hold_def count_list_0_iff)
  qed
  then show ?case using inv r hold_unsatisfiable by (auto simp: pool_state_inv_def hold_def)
next
  case (lock_wait s us ns vs r)
  then have sane: "sane_adds (added s)" by simp
  note inv = lock_wait.prems(2) [OF sane]
  from attempt_exact [OF pool_state_invD [OF inv sane], of ns] lock_wait(2)
  have "\<not> satisfiable ns (the_pool s)" and "r = the_pool s" by (auto split: if_splits)
  then show ?case using inv by (auto simp: pool_state_inv_def)
next
  case (add_call s item count)
  then have sane: "sane_adds (added s @ [(item, count)])" by (simp add: wake_def)
  note inv = add_call.prems(2) [OF sane_adds_init [OF sane]]
  have "go_int (total_added (added s) item + count) = total_added (added s @ [(item, count)]) item"
    using sane_addsD [OF sane, of item] by (simp add: total_snoc)
  then show ?case using inv peak_snoc [of "added s" _ "(item, count)"]
    by (auto simp: pool_state_inv_def wake_def Pool_Add_def Let_def total_snoc intro: order_trans)
next
  case (unlock_call ns s)
  then have sane: "sane_adds (added s)" by (simp add: wake_def)
  note inv = unlock_call.prems(2) [OF sane]
  from unlock_all_inv [OF pool_state_invD [OF inv sane], of ns] show ?case using inv
    by (auto simp: pool_state_inv_def wake_def Pool_Unlock_def pool_inv_def intro: order_trans)
qed

lemma pool_reachable_inv: "pool_reachable s \<Longrightarrow> sane_adds (added s) \<Longrightarrow> pool_state_inv s"
proof (induction rule: pool_reachable.induct)
  case pool_start
  then show ?case by (simp add: pool_state_inv_def NewPool_def total_added_def peak_def)
next
  case (pool_more s s1)
  then show ?case using pool_step_inv by blast
qed

end
