(* ===== verification/Sig_Queue.thy ===== *)
theory Sig_Queue
  imports Go_Prelude
begin

text \<open>
  The broadcast queue of \<^verbatim>\<open>src/sig/queue.go\<close>: a linked list of nodes, each with a channel that is closed
  once its value is there.  The nodes live in a heap and a \<^verbatim>\<open>*Queue\<close> is an address in it, since
  subscribers and writers share them.  \<^verbatim>\<open>Push\<close> and \<^verbatim>\<open>Close\<close> walk to the last node; not returning
  is the value None.  Closing a closed channel panics: the answer is then None beside the heap
  as the panic leaves it.
\<close>

datatype chan = NoChan | OpenChan | ClosedChan

record 'a qnode =
  q_wait :: chan
  q_next :: "nat option"
  q_data :: 'a

type_synonym 'a qheap = "'a qnode list"

definition make_wait :: "'a qnode \<Rightarrow> 'a qnode" where
  "make_wait n = (if q_wait n = NoChan then n\<lparr>q_wait := OpenChan\<rparr> else n)"

definition newQueue :: "'a \<Rightarrow> 'a qnode" where
  "newQueue zero = \<lparr>q_wait = NoChan, q_next = None, q_data = zero\<rparr>"

partial_function (option) Queue_Push :: "'a \<Rightarrow> 'a \<Rightarrow> nat \<Rightarrow> 'a qheap \<Rightarrow> (nat option \<times> 'a qheap) option" where
  "Queue_Push zero x q h =
     (if length h \<le> q then Some (None, h)
      else case q_next (h ! q) of
        Some n \<Rightarrow> Queue_Push zero x n h
      | None \<Rightarrow>
          (let n1 = make_wait (h ! q);
               n2 = n1\<lparr>q_data := x, q_next := Some (length h)\<rparr>
           in if q_wait n2 = ClosedChan then Some (None, h[q := n2] @ [newQueue zero])
              else Some (Some (length h), h[q := n2\<lparr>q_wait := ClosedChan\<rparr>] @ [newQueue zero])))"

definition Queue_Next :: "nat \<Rightarrow> 'a qheap \<Rightarrow> nat option" where
  "Queue_Next q h = q_next (h ! q)"

partial_function (option) Queue_Close :: "nat \<Rightarrow> 'a qheap \<Rightarrow> (unit option \<times> 'a qheap) option" where
  "Queue_Close q h =
     (if length h \<le> q then Some (None, h)
      else case q_next (h ! q) of
        Some n \<Rightarrow> Queue_Close n h
      | None \<Rightarrow>
          (let n1 = make_wait (h ! q)
           in if q_wait n1 = ClosedChan then Some (None, h[q := n1])
              else Some (Some (), h[q := n1\<lparr>q_wait := ClosedChan\<rparr>])))"

definition Queue_Wait :: "nat \<Rightarrow> 'a qheap \<Rightarrow> chan \<times> 'a qheap" where
  "Queue_Wait q h = (let n = make_wait (h ! q) in (q_wait n, h[q := n]))"

definition Queue_Data :: "nat \<Rightarrow> 'a qheap \<Rightarrow> 'a" where
  "Queue_Data q h = q_data (h ! q)"

text \<open>
  The goroutine of \<^verbatim>\<open>Subscribe\<close> at one node: it blocks while the channel is open, ends at a closed
  node without successor, and otherwise hands over the value and moves on.
\<close>

datatype 'a sub_event = Blocked | Ended | Deliver 'a nat

definition Subscribe_event :: "nat \<Rightarrow> 'a qheap \<Rightarrow> 'a sub_event" where
  "Subscribe_event q h =
     (if fst (Queue_Wait q h) \<noteq> ClosedChan then Blocked
      else case Queue_Next q h of None \<Rightarrow> Ended | Some n \<Rightarrow> Deliver (Queue_Data q h) n)"

text \<open>What a subscriber receives from a heap that no longer changes, and whether its channel closes.\<close>

partial_function (option) Subscribe_drain :: "nat \<Rightarrow> 'a qheap \<Rightarrow> ('a list \<times> bool) option" where
  "Subscribe_drain q h =
     (case Subscribe_event q h of
        Blocked \<Rightarrow> Some ([], False)
      | Ended \<Rightarrow> Some ([], True)
      | Deliver x n \<Rightarrow> Option.bind (Subscribe_drain n h) (\<lambda>r. Some (x # fst r, snd r)))"

text \<open>\<^verbatim>\<open>Handle\<close> over the delivered items: items of another type are skipped, an error stops it.\<close>

fun Handle_loop :: "('q \<Rightarrow> 't option) \<Rightarrow> ('t \<Rightarrow> 's \<Rightarrow> 'e option \<times> 's) \<Rightarrow> 'q list \<Rightarrow> 's \<Rightarrow> 'e option \<times> 's" where
  "Handle_loop cast fn [] s = (None, s)"
| "Handle_loop cast fn (item # items) s =
     (case cast item of
        None \<Rightarrow> Handle_loop cast fn items s
      | Some t \<Rightarrow> (case fn t s of (Some e, s1) \<Rightarrow> (Some e, s1) | (None, s1) \<Rightarrow> Handle_loop cast fn items s1))"

subsection \<open>The values of a queue\<close>

definition queue_of :: "'a qheap \<Rightarrow> 'a list \<Rightarrow> bool \<Rightarrow> bool" where
  "queue_of h xs closed \<longleftrightarrow>
     length h = Suc (length xs) \<and>
     (\<forall>i < length xs. h ! i = \<lparr>q_wait = ClosedChan, q_next = Some (Suc i), q_data = xs ! i\<rparr>) \<and>
     q_next (h ! length xs) = None \<and> (q_wait (h ! length xs) = ClosedChan \<longleftrightarrow> closed)"

lemma queue_of_new: "queue_of [newQueue zero] [] False"
  by (simp add: queue_of_def newQueue_def)

text \<open>Walking from any node ends at the last one.\<close>

lemma Push_walks:
  assumes "queue_of h xs c"
  shows "q \<le> length xs \<Longrightarrow> Queue_Push zero x q h = Queue_Push zero x (length xs) h"
proof (induction "length xs - q" arbitrary: q)
  case (Suc k)
  then have "q < length xs" by simp
  then have "h ! q = \<lparr>q_wait = ClosedChan, q_next = Some (Suc q), q_data = xs ! q\<rparr>" "q < length h"
    using assms by (simp_all add: queue_of_def)
  then have "Queue_Push zero x q h = Queue_Push zero x (Suc q) h" by (subst Queue_Push.simps) simp
  then show ?case using Suc by simp
qed simp

lemma Close_walks:
  assumes "queue_of h xs c"
  shows "q \<le> length xs \<Longrightarrow> Queue_Close q h = Queue_Close (length xs) h"
proof (induction "length xs - q" arbitrary: q)
  case (Suc k)
  then have "q < length xs" by simp
  then have "h ! q = \<lparr>q_wait = ClosedChan, q_next = Some (Suc q), q_data = xs ! q\<rparr>" "q < length h"
    using assms by (simp_all add: queue_of_def)
  then have "Queue_Close q h = Queue_Close (Suc q) h" by (subst Queue_Close.simps) simp
  then show ?case using Suc by simp
qed simp

lemma make_wait_sel [simp]:
  "q_next (make_wait n) = q_next n" "q_data (make_wait n) = q_data n" "q_wait (make_wait n) = ClosedChan \<longleftrightarrow> q_wait n = ClosedChan"
  by (simp_all add: make_wait_def)

text \<open>A push reaches the end, answers the fresh node, and panics exactly on a closed queue.\<close>

lemma Push_queue:
  assumes "queue_of h xs c" and "q \<le> length xs"
  shows "\<exists>h1. Queue_Push zero x q h = Some (if c then None else Some (Suc (length xs)), h1) \<and> queue_of h1 (xs @ [x]) False"
proof -
  have l: "length xs < length h" "q_next (h ! length xs) = None" "q_wait (h ! length xs) = ClosedChan \<longleftrightarrow> c"
    using assms by (simp_all add: queue_of_def)
  let ?n = "(make_wait (h ! length xs))\<lparr>q_data := x, q_next := Some (length h)\<rparr>"
  let ?h = "h[length xs := ?n\<lparr>q_wait := ClosedChan\<rparr>] @ [newQueue zero]"
  have n: "?n\<lparr>q_wait := ClosedChan\<rparr> = ?n" if c
  proof -
    have "q_wait ?n = ClosedChan" using that l(3) by simp
    then show ?thesis by (cases "make_wait (h ! length xs)") simp
  qed
  have "Queue_Push zero x (length xs) h = Some (if c then None else Some (length h), ?h)"
    using l n by (subst Queue_Push.simps) (auto simp: Let_def)
  moreover have "queue_of ?h (xs @ [x]) False"
    using assms(1) unfolding queue_of_def
    by (auto simp: nth_append nth_list_update newQueue_def less_Suc_eq)
  ultimately show ?thesis using Push_walks [OF assms] assms(1) by (auto simp: queue_of_def)
qed

lemma Close_queue:
  assumes "queue_of h xs c" and "q \<le> length xs"
  shows "\<exists>h1. Queue_Close q h = Some (if c then None else Some (), h1) \<and> queue_of h1 xs True"
proof -
  have l: "length xs < length h" "q_next (h ! length xs) = None" "q_wait (h ! length xs) = ClosedChan \<longleftrightarrow> c"
    using assms by (simp_all add: queue_of_def)
  let ?n = "make_wait (h ! length xs)"
  let ?h = "h[length xs := ?n\<lparr>q_wait := ClosedChan\<rparr>]"
  have n: "?n\<lparr>q_wait := ClosedChan\<rparr> = ?n" if c
  proof -
    have "q_wait ?n = ClosedChan" using that l(3) by simp
    then show ?thesis by (cases "make_wait (h ! length xs)") simp
  qed
  have "Queue_Close (length xs) h = Some (if c then None else Some (), ?h)"
    using l n by (subst Queue_Close.simps) (auto simp: Let_def)
  moreover have "queue_of ?h xs True" using assms(1) unfolding queue_of_def by auto
  ultimately show ?thesis using Close_walks [OF assms] by auto
qed

lemma Wait_queue: "queue_of h xs c \<Longrightarrow> q \<le> length xs \<Longrightarrow> queue_of (snd (Queue_Wait q h)) xs c"
  by (auto simp: queue_of_def Queue_Wait_def Let_def nth_list_update)

lemma event_queue:
  assumes "queue_of h xs c" and "q \<le> length xs"
  shows "Subscribe_event q h = (if q < length xs then Deliver (xs ! q) (Suc q) else if c then Ended else Blocked)"
  using assms by (auto simp: Subscribe_event_def Queue_Wait_def Queue_Next_def Queue_Data_def queue_of_def Let_def)

lemma drain_queue:
  assumes "queue_of h xs c"
  shows "q \<le> length xs \<Longrightarrow> Subscribe_drain q h = Some (drop q xs, c)"
proof (induction "length xs - q" arbitrary: q)
  case 0
  then show ?case using event_queue [OF assms, of q] by (subst Subscribe_drain.simps) auto
next
  case (Suc k)
  then have q: "q < length xs" by simp
  then have "Subscribe_drain (Suc q) h = Some (drop (Suc q) xs, c)" using Suc by simp
  then show ?case using event_queue [OF assms, of q] q
    by (subst Subscribe_drain.simps) (simp add: Cons_nth_drop_Suc)
qed

subsection \<open>Interleavings\<close>

text \<open>
  Any number of writers and waiters work on handles of one queue; a writer may push through an
  old handle.  The list records the values in the order the pushes took effect.
\<close>

inductive queue_run :: "'a \<Rightarrow> 'a qheap \<Rightarrow> 'a list \<Rightarrow> bool \<Rightarrow> bool" for zero where
  run_new: "queue_run zero [newQueue zero] [] False"
| run_push: "queue_run zero h xs False \<Longrightarrow> q < length h \<Longrightarrow> Queue_Push zero x q h = Some (r, h1) \<Longrightarrow>
    queue_run zero h1 (xs @ [x]) False"
| run_wait: "queue_run zero h xs c \<Longrightarrow> q < length h \<Longrightarrow> queue_run zero (snd (Queue_Wait q h)) xs c"
| run_close: "queue_run zero h xs False \<Longrightarrow> q < length h \<Longrightarrow> Queue_Close q h = Some (r, h1) \<Longrightarrow>
    queue_run zero h1 xs True"

lemma run_queue_of: "queue_run zero h xs c \<Longrightarrow> queue_of h xs c"
proof (induction rule: queue_run.induct)
  case run_new
  show ?case by (rule queue_of_new)
next
  case (run_push h xs q x r h1)
  then have "q \<le> length xs" by (simp add: queue_of_def)
  from Push_queue [OF run_push.IH this, of zero x] run_push.hyps show ?case by auto
next
  case (run_wait h xs c q)
  then have "q \<le> length xs" by (simp add: queue_of_def)
  with run_wait.IH show ?case by (rule Wait_queue)
next
  case (run_close h xs q r h1)
  then have "q \<le> length xs" by (simp add: queue_of_def)
  from Close_queue [OF run_close.IH this] run_close.hyps show ?case by auto
qed

end
