(* ===== verification/Sig_Diff.thy ===== *)
theory Sig_Diff
  imports Go_Prelude "HOL-Library.Multiset"
begin

text \<open>
  The slice differences of \<^verbatim>\<open>src/sig/slice_diff.go\<close> and \<^verbatim>\<open>MapSlice\<close> of \<^verbatim>\<open>src/sig/map_slice.go\<close>.  The two
  indices of the merging loops are the lists that remain.  \<open>SliceDiffFunc\<close> sorts with the caller's
  comparison and switches on the values -1, 0 and 1 alone; any other value makes its loop
  spin, so the loop is a partial function and spinning is the value None.
\<close>

definition SliceDiff :: "'a list \<Rightarrow> 'a list \<Rightarrow> 'a list \<times> 'a list" where
  "SliceDiff a b = (filter (\<lambda>v. v \<notin> set b) a, filter (\<lambda>v. v \<notin> set a) b)"

fun SliceDiffOrdered_loop :: "'a::linorder list \<Rightarrow> 'a list \<Rightarrow> 'a list \<Rightarrow> 'a list \<Rightarrow> 'a list \<times> 'a list" where
  "SliceDiffOrdered_loop (x # xs) (y # ys) oa ob =
     (if x = y then SliceDiffOrdered_loop xs ys oa ob
      else if x < y then SliceDiffOrdered_loop xs (y # ys) (oa @ [x]) ob
      else SliceDiffOrdered_loop (x # xs) ys oa (ob @ [y]))"
| "SliceDiffOrdered_loop xs ys oa ob = (oa @ xs, ob @ ys)"

definition SliceDiffOrdered :: "'a::linorder list \<Rightarrow> 'a list \<Rightarrow> 'a list \<times> 'a list" where
  "SliceDiffOrdered a b = SliceDiffOrdered_loop a b [] []"

partial_function (option) SliceDiffFunc_loop ::
  "('a \<Rightarrow> 'a \<Rightarrow> int) \<Rightarrow> 'a list \<Rightarrow> 'a list \<Rightarrow> 'a list \<Rightarrow> 'a list \<Rightarrow> ('a list \<times> 'a list) option" where
  "SliceDiffFunc_loop cmp a b oa ob =
     (case a of
        [] \<Rightarrow> Some (oa, ob @ b)
      | x # xs \<Rightarrow>
          (case b of
             [] \<Rightarrow> Some (oa @ a, ob)
           | y # ys \<Rightarrow>
               if cmp x y = 0 then SliceDiffFunc_loop cmp xs ys oa ob
               else if cmp x y = -1 then SliceDiffFunc_loop cmp xs b (oa @ [x]) ob
               else if cmp x y = 1 then SliceDiffFunc_loop cmp a ys oa (ob @ [y])
               else SliceDiffFunc_loop cmp a b oa ob))"

text \<open>\<open>compare\<close> is \<^verbatim>\<open>cmp.Compare\<close> and \<open>srt\<close> \<^verbatim>\<open>slices.SortFunc\<close>.\<close>

definition compare :: "'a::linorder \<Rightarrow> 'a \<Rightarrow> int" where
  "compare x y = (if x < y then -1 else if x = y then 0 else 1)"

definition SliceDiffFunc ::
  "(('a \<Rightarrow> 'a \<Rightarrow> int) \<Rightarrow> 'a list \<Rightarrow> 'a list) \<Rightarrow> ('a \<Rightarrow> 'a \<Rightarrow> int) \<Rightarrow> 'a list \<Rightarrow> 'a list \<Rightarrow> ('a list \<times> 'a list) option" where
  "SliceDiffFunc srt cmp a b = SliceDiffFunc_loop cmp (srt cmp a) (srt cmp b) [] []"

fun MapSlice_loop :: "('a \<Rightarrow> 'e + 'b) \<Rightarrow> 'a list \<Rightarrow> 'b list \<Rightarrow> 'e + 'b list" where
  "MapSlice_loop conv [] out = Inr out"
| "MapSlice_loop conv (a # as) out =
     (case conv a of Inl e \<Rightarrow> Inl e | Inr b \<Rightarrow> MapSlice_loop conv as (out @ [b]))"

definition MapSlice :: "('a \<Rightarrow> 'e + 'b) \<Rightarrow> 'a list \<Rightarrow> 'e + 'b list" where
  "MapSlice conv inp = MapSlice_loop conv inp []"

subsection \<open>The ordered difference is the difference of multisets\<close>

abbreviation slm :: "'a::linorder multiset \<Rightarrow> 'a list" where
  "slm \<equiv> sorted_list_of_multiset"

lemma slm_add: "\<forall>y \<in># M. x \<le> y \<Longrightarrow> slm (add_mset x M) = x # slm M"
  by (simp add: insort_is_Cons)

lemma slm_sorted: "sorted xs \<Longrightarrow> slm (mset xs) = xs"
  by (simp add: sorted_sort_id)

lemma diff_head:
  fixes x :: "'a::linorder"
  assumes "sorted (x # xs)" "sorted (y # ys)" "x < y"
  shows "mset (x # xs) - mset (y # ys) = add_mset x (mset xs - mset (y # ys))"
    and "mset (y # ys) - mset (x # xs) = mset (y # ys) - mset xs"
proof -
  have "x \<notin> set (y # ys)" using assms by (auto simp: not_le [symmetric])
  then show "mset (x # xs) - mset (y # ys) = add_mset x (mset xs - mset (y # ys))"
    by (simp add: multiset_eq_iff count_mset_0_iff Suc_diff_le)
  show "mset (y # ys) - mset (x # xs) = mset (y # ys) - mset xs"
    using \<open>x \<notin> set (y # ys)\<close> by (auto simp: multiset_eq_iff count_mset_0_iff)
qed

lemma ordered_loop:
  "sorted a \<Longrightarrow> sorted b \<Longrightarrow>
     SliceDiffOrdered_loop a b oa ob = (oa @ slm (mset a - mset b), ob @ slm (mset b - mset a))"
proof (induction a b oa ob rule: SliceDiffOrdered_loop.induct)
  case (1 x xs y ys oa ob)
  consider "x = y" | "x < y" | "y < x" by fastforce
  then show ?case
  proof cases
    case 1
    then show ?thesis using "1.IH"(1) "1.prems" by simp
  next
    case 2
    note d = diff_head [OF "1.prems" 2]
    have "\<forall>z \<in># mset xs - mset (y # ys). x \<le> z" using "1.prems" by (auto dest: in_diffD)
    from slm_add [OF this] show ?thesis using "1.IH"(2) "1.prems" less_imp_neq [OF 2] 2 unfolding d
      by (simp del: mset.simps sorted_list_of_multiset_insert)
  next
    case 3
    note d = diff_head [OF "1.prems"(2,1) 3]
    have "\<forall>z \<in># mset ys - mset (x # xs). y \<le> z" using "1.prems" by (auto dest: in_diffD)
    from slm_add [OF this] show ?thesis using "1.IH"(3) "1.prems" less_imp_neq [OF 3] less_not_sym [OF 3] unfolding d
      by (simp add: eq_commute del: mset.simps sorted_list_of_multiset_insert)
  qed
qed (simp_all add: slm_sorted sorted_sort_id)

lemma ordered_diff:
  "sorted a \<Longrightarrow> sorted b \<Longrightarrow> SliceDiffOrdered a b = (slm (mset a - mset b), slm (mset b - mset a))"
  by (simp add: SliceDiffOrdered_def ordered_loop)

lemma distinct_diff:
  assumes "sorted a" "distinct a" "distinct b"
  shows "slm (mset a - mset b) = filter (\<lambda>v. v \<notin> set b) a"
proof -
  have "mset a - mset b = mset (filter (\<lambda>v. v \<notin> set b) a)"
    using assms by (auto simp: multiset_eq_iff distinct_count_atmost_1 count_mset_0_iff)
  then show ?thesis using slm_sorted [of "filter (\<lambda>v. v \<notin> set b) a"] assms(1) sorted_wrt_filter by (metis)
qed

text \<open>On strictly ordered slices both definitions agree.\<close>

lemma ordered_agrees:
  "sorted a \<Longrightarrow> sorted b \<Longrightarrow> distinct a \<Longrightarrow> distinct b \<Longrightarrow> SliceDiffOrdered a b = SliceDiff a b"
  by (simp add: ordered_diff SliceDiff_def distinct_diff)

subsection \<open>The custom comparison\<close>

text \<open>With a comparison in the range of \<^verbatim>\<open>cmp.Compare\<close> the loop ends and computes the ordered difference.\<close>

lemma func_loop:
  fixes a b :: "'a::linorder list"
  assumes cmp: "\<And>x y. cmp x y = (if x < y then -1 else if x = y then 0 else 1)"
  shows "SliceDiffFunc_loop cmp a b oa ob = Some (SliceDiffOrdered_loop a b oa ob)"
proof (induction a b oa ob rule: SliceDiffOrdered_loop.induct)
  case (1 x xs y ys oa ob)
  then show ?case using cmp [of x y] by (subst SliceDiffFunc_loop.simps) (simp split: if_splits)
qed (subst SliceDiffFunc_loop.simps, simp split: list.splits)+

text \<open>A comparison that answers beyond one unit makes the loop spin on two equal-length heads.\<close>

lemma func_loop_spins: "SliceDiffFunc_loop (\<lambda>x y. x - y) [0 :: int] [2] oa ob = None"
proof (rule ccontr)
  assume "SliceDiffFunc_loop (\<lambda>x y. x - y) [0 :: int] [2] oa ob \<noteq> None"
  then obtain r where r: "SliceDiffFunc_loop (\<lambda>x y. x - y) [0 :: int] [2] oa ob = Some r" by blast
  have "\<not> ((\<lambda>x y. x - y :: int) = (\<lambda>x y. x - y) \<and> [0 :: int] = [0] \<and> [2 :: int] = [2])"
    by (rule SliceDiffFunc_loop.raw_induct [where P = "\<lambda>cmp a b oa ob r. \<not> (cmp = (\<lambda>x y. x - y :: int) \<and> a = [0] \<and> b = [2])", OF _ r])
      (fastforce split: list.splits if_splits)
  then show False by simp
qed

lemma MapSlice_loop_ok: "MapSlice_loop conv as out = Inr bs \<longleftrightarrow> (\<exists>cs. bs = out @ cs \<and> list_all2 (\<lambda>a b. conv a = Inr b) as cs)"
  by (induction as arbitrary: out) (auto simp: list_all2_Cons1 split: sum.splits)

end
