(* ===== verification/Sig_Sync.thy ===== *)
theory Sig_Sync
  imports Go_Prelude
begin

text \<open>
  Small synchronised components of \<^verbatim>\<open>src/sig\<close>: \<^verbatim>\<open>switch.go\<close> (a background task that can be switched on
  and off), \<^verbatim>\<open>value.go\<close> (a cell with compare-and-swap), \<^verbatim>\<open>activity.go\<close> (idle time) and \<^verbatim>\<open>retry.go\<close>
  (exponential backoff).  Each method holds its lock and is one step; a step returns None where
  the Go code panics.
\<close>

subsection \<open>Switch\<close>

text \<open>
  A task is known by the number it was started with.  \<open>sw_cancel\<close> is the cancel function of a
  task, None for nil; \<open>sw_done\<close> is the task whose done channel is held; \<open>alive\<close> are the tasks
  whose goroutine has not returned, \<open>cancelled\<close> those whose context was cancelled.
\<close>

record switch =
  sw_cancel :: "nat option"
  sw_done :: "nat option"
  sw_next :: nat
  alive :: "nat set"
  cancelled :: "nat set"

definition newSwitch :: switch where
  "newSwitch = \<lparr>sw_cancel = None, sw_done = None, sw_next = 0, alive = {}, cancelled = {}\<rparr>"

definition Switch_running :: "switch \<Rightarrow> bool" where
  "Switch_running s = (case sw_done s of None \<Rightarrow> False | Some t \<Rightarrow> t \<in> alive s)"

definition Switch_Run :: "switch \<Rightarrow> bool \<times> switch" where
  "Switch_Run s =
     (if Switch_running s then (False, s)
      else let t = sw_next s in
        (True, s\<lparr>sw_cancel := Some t, sw_done := Some t, sw_next := t + 1, alive := insert t (alive s)\<rparr>))"

definition Switch_Stop :: "switch \<Rightarrow> (bool \<times> switch) option" where
  "Switch_Stop s =
     (if \<not> Switch_running s then Some (False, s)
      else case sw_cancel s of
        None \<Rightarrow> None
      | Some t \<Rightarrow> Some (True, s\<lparr>cancelled := insert t (cancelled s), sw_cancel := None\<rparr>))"

definition Switch_Set :: "bool \<Rightarrow> switch \<Rightarrow> switch option" where
  "Switch_Set on s = (if on then Some (snd (Switch_Run s)) else map_option snd (Switch_Stop s))"

text \<open>A task's goroutine returns and closes its done channel.\<close>

definition task_exit :: "nat \<Rightarrow> switch \<Rightarrow> switch" where
  "task_exit t s = s\<lparr>alive := alive s - {t}\<rparr>"

inductive switch_reachable :: "switch \<Rightarrow> bool" where
  switch_new: "switch_reachable newSwitch"
| switch_run: "switch_reachable s \<Longrightarrow> switch_reachable (snd (Switch_Run s))"
| switch_stop: "switch_reachable s \<Longrightarrow> Switch_Stop s = Some (b, s1) \<Longrightarrow> switch_reachable s1"
| switch_exit: "switch_reachable s \<Longrightarrow> switch_reachable (task_exit t s)"

definition switch_inv :: "switch \<Rightarrow> bool" where
  "switch_inv s \<longleftrightarrow>
     (\<forall>t \<in> alive s. sw_done s = Some t) \<and> (\<forall>t. sw_cancel s = Some t \<longrightarrow> sw_done s = Some t) \<and>
     (\<forall>t. sw_done s = Some t \<longrightarrow> t < sw_next s \<and> (sw_cancel s = None \<longleftrightarrow> t \<in> cancelled s)) \<and>
     (\<forall>t \<in> cancelled s. t < sw_next s)"

text \<open>At most one task is alive, and only a cancelled one is alive without a cancel function.\<close>

lemma Run_inv: "switch_inv s \<Longrightarrow> switch_inv (snd (Switch_Run s))"
proof (cases "Switch_running s")
  case False
  assume inv: "switch_inv s"
  have "alive s = {}" using inv False by (cases "sw_done s") (auto simp: switch_inv_def Switch_running_def)
  moreover have "sw_next s \<notin> cancelled s" using inv by (auto simp: switch_inv_def)
  ultimately show ?thesis using inv False by (auto simp: switch_inv_def Switch_Run_def Let_def less_Suc_eq)
qed (simp add: Switch_Run_def)

lemma Stop_inv: "switch_inv s \<Longrightarrow> Switch_Stop s = Some (b, s1) \<Longrightarrow> switch_inv s1"
proof (cases "Switch_running s")
  case True
  assume inv: "switch_inv s" and st: "Switch_Stop s = Some (b, s1)"
  obtain t where t: "sw_cancel s = Some t" using st True by (auto simp: Switch_Stop_def split: option.splits)
  then have s1: "s1 = s\<lparr>cancelled := insert t (cancelled s), sw_cancel := None\<rparr>"
    using st True by (simp add: Switch_Stop_def)
  have "sw_done s = Some t" using inv t unfolding switch_inv_def by blast
  then show ?thesis using inv t unfolding s1 by (auto simp: switch_inv_def)
qed (simp add: Switch_Stop_def)

lemma switch_reachable_inv: "switch_reachable s \<Longrightarrow> switch_inv s"
proof (induction rule: switch_reachable.induct)
  case switch_new
  then show ?case by (simp add: switch_inv_def newSwitch_def)
next
  case (switch_run s)
  then show ?case by (simp add: Run_inv)
next
  case (switch_stop s b s1)
  then show ?case using Stop_inv by blast
next
  case (switch_exit s t)
  then show ?case by (auto simp: switch_inv_def task_exit_def)
qed

lemma Stop_panics_iff:
  "switch_inv s \<Longrightarrow> Switch_Stop s = None \<longleftrightarrow> (\<exists>t \<in> alive s. t \<in> cancelled s)"
proof (cases "Switch_running s")
  case True
  assume inv: "switch_inv s"
  obtain t where t: "sw_done s = Some t" "t \<in> alive s" using True by (auto simp: Switch_running_def split: option.splits)
  have "u = t" if "u \<in> alive s" for u
  proof -
    have "sw_done s = Some u" using inv that unfolding switch_inv_def by blast
    then show ?thesis using t(1) by simp
  qed
  then have "alive s = {t}" using t(2) by blast
  moreover have "Switch_Stop s = None \<longleftrightarrow> sw_cancel s = None" using True by (simp add: Switch_Stop_def split: option.splits)
  moreover have "sw_cancel s = None \<longleftrightarrow> t \<in> cancelled s" using inv t(1) unfolding switch_inv_def by blast
  ultimately show ?thesis by simp
next
  case False
  assume inv: "switch_inv s"
  have "alive s = {}" using inv False by (cases "sw_done s") (auto simp: switch_inv_def Switch_running_def)
  then show ?thesis using False by (simp add: Switch_Stop_def)
qed

subsection \<open>Value\<close>

definition Value_Swap :: "'a \<Rightarrow> 'a \<Rightarrow> 'a \<Rightarrow> ('a \<times> bool) \<times> 'a" where
  "Value_Swap old new v = (if v \<noteq> old then ((v, False), v) else ((new, True), new))"

definition Value_Set :: "'a \<Rightarrow> 'a \<Rightarrow> 'a" where
  "Value_Set new v = new"

definition Value_Get :: "'a \<Rightarrow> 'a" where
  "Value_Get v = v"

subsection \<open>Activity\<close>

text \<open>The last activity is None for Go's zero time; \<open>now\<close> is the clock at the call.\<close>

record activity =
  lastActivity :: "int option"
  ongoing :: int

definition Activity_Idle :: "int \<Rightarrow> activity \<Rightarrow> int" where
  "Activity_Idle now a =
     (case lastActivity a of None \<Rightarrow> -1 | Some t \<Rightarrow> if 0 < ongoing a then 0 else now - t)"

definition Activity_touch :: "int \<Rightarrow> activity \<Rightarrow> activity" where
  "Activity_touch now a = a\<lparr>lastActivity := Some now\<rparr>"

definition Activity_Add :: "int \<Rightarrow> int \<Rightarrow> activity \<Rightarrow> activity" where
  "Activity_Add now k a = Activity_touch now (a\<lparr>ongoing := ongoing a + k\<rparr>)"

definition Activity_Done :: "int \<Rightarrow> activity \<Rightarrow> activity" where
  "Activity_Done now a = Activity_Add now (-1) a"

subsection \<open>Retry\<close>

text \<open>
  Delays are nanoseconds.  \<open>grow\<close> is the float64 product with the growth factor, converted back;
  the receiver of the retry channel is ready or not when the timer fires; \<open>retry_armed\<close> says that
  the timer runs, so that the goroutine waiting for it can still wake.
\<close>

record retry =
  retryCount :: nat
  minDelay :: int
  maxDelay :: int
  nextDelay :: int
  retry_running :: bool
  retry_armed :: bool

definition NewRetry :: "int \<Rightarrow> int \<Rightarrow> bool \<Rightarrow> retry res" where
  "NewRetry lo hi factor_ok =
     (if lo \<le> 0 then Inl (ErrMsg ''minDelay must be greater than 0'')
      else if hi \<le> 0 then Inl (ErrMsg ''maxDelay must be greater than 0'')
      else if hi < lo then Inl (ErrMsg ''minDelay must be less than or equal to maxDelay'')
      else if \<not> factor_ok then Inl (ErrMsg ''factor cannot be less than 1.0'')
      else Inr \<lparr>retryCount = 0, minDelay = lo, maxDelay = hi, nextDelay = lo, retry_running = False,
              retry_armed = False\<rparr>)"

definition Retry_Retry :: "retry \<Rightarrow> retry" where
  "Retry_Retry r = (if retry_running r then r else r\<lparr>retry_running := True, retry_armed := True\<rparr>)"

definition Retry_trigger :: "(int \<Rightarrow> int) \<Rightarrow> bool \<Rightarrow> retry \<Rightarrow> retry" where
  "Retry_trigger grow ready r =
     (if ready then r\<lparr>retryCount := retryCount r + 1, nextDelay := min (grow (nextDelay r)) (maxDelay r)\<rparr> else r)"

definition Retry_fire :: "(int \<Rightarrow> int) \<Rightarrow> bool \<Rightarrow> retry \<Rightarrow> retry" where
  "Retry_fire grow ready r = (Retry_trigger grow ready r)\<lparr>retry_running := False, retry_armed := False\<rparr>"

definition Retry_Reset :: "retry \<Rightarrow> retry" where
  "Retry_Reset r = r\<lparr>nextDelay := minDelay r, retryCount := 0, retry_armed := False\<rparr>"

inductive retry_reachable :: "(int \<Rightarrow> int) \<Rightarrow> int \<Rightarrow> int \<Rightarrow> retry \<Rightarrow> bool" for grow lo hi where
  retry_new: "NewRetry lo hi True = Inr r \<Longrightarrow> retry_reachable grow lo hi r"
| retry_start: "retry_reachable grow lo hi r \<Longrightarrow> retry_reachable grow lo hi (Retry_Retry r)"
| retry_fire: "retry_reachable grow lo hi r \<Longrightarrow> retry_running r \<Longrightarrow> retry_armed r \<Longrightarrow>
    retry_reachable grow lo hi (Retry_fire grow ready r)"
| retry_reset: "retry_reachable grow lo hi r \<Longrightarrow> retry_reachable grow lo hi (Retry_Reset r)"

lemma retry_bounds:
  assumes "\<And>d. 0 < d \<Longrightarrow> d \<le> grow d" and "retry_reachable grow lo hi r"
  shows "0 < lo \<and> minDelay r = lo \<and> maxDelay r = hi \<and> lo \<le> nextDelay r \<and> nextDelay r \<le> hi"
  using assms(2)
proof (induction rule: retry_reachable.induct)
  case (retry_fire r ready)
  then show ?case using assms(1) [of "nextDelay r"] by (auto simp: Retry_fire_def Retry_trigger_def min_def)
qed (auto simp: NewRetry_def Retry_Retry_def Retry_Reset_def split: if_splits)

text \<open>
  Resetting while a retry is pending stops the timer but leaves the running flag set: the waiting
  goroutine never wakes, and neither later calls nor further resets arm the timer again.
\<close>

inductive retry_next :: "(int \<Rightarrow> int) \<Rightarrow> retry \<Rightarrow> retry \<Rightarrow> bool" for grow where
  next_start: "retry_next grow r (Retry_Retry r)"
| next_fire: "retry_running r \<Longrightarrow> retry_armed r \<Longrightarrow> retry_next grow r (Retry_fire grow ready r)"
| next_reset: "retry_next grow r (Retry_Reset r)"

lemma reset_stuck:
  "(retry_next grow)\<^sup>*\<^sup>* r r1 \<Longrightarrow> retry_running r \<Longrightarrow> \<not> retry_armed r \<Longrightarrow>
     retry_running r1 \<and> \<not> retry_armed r1 \<and> retryCount r1 \<le> retryCount r"
proof (induction rule: rtranclp_induct)
  case (step r1 r2)
  from step.hyps(2) step.IH [OF step.prems] show ?case
    by (cases rule: retry_next.cases) (auto simp: Retry_Retry_def Retry_Reset_def)
qed simp

end
