(* ===== verification/Properties_Sync.thy ===== *)
theory Properties_Sync
  imports Sig_Ring Sig_Pool Sig_Queue Sig_Diff Sig_Sync
begin

text \<open>
  The properties of the synchronisation and slice helpers of \<^verbatim>\<open>src/sig\<close>: the ring buffer, the resource
  pool, the broadcast queue, the slice differences and the switch.
\<close>

subsection \<open>The ring buffer\<close>

text \<open>
  C19: a new ring and a bounded queue of its capacity answer every sequence of pushes, pops and
  clears alike and end with the same contents; no call fails.
\<close>

theorem ring_refines_queue:
  assumes "NewRing zero n = Inr r"
  shows "\<exists>r1. Ring_run zero ops r = Some (fst (bq_run zero (nat n) ops []), r1) \<and>
    ring_inv r1 \<and> Ring_Clone r1 = snd (bq_run zero (nat n) ops [])"
proof -
  have "ring_capacity r = nat n" using assms by (auto simp: NewRing_def split: if_splits)
  then show ?thesis using run_refines [of r zero ops] NewRing_inv [OF assms] by simp
qed

theorem ring_refines_queue_witness:
  "\<exists>r r1. NewRing (0::nat) 2 = Inr r \<and>
     Ring_run 0 [RPush 5, RPush 6, RPush 7, RPop] r = Some ([(0, False), (0, False), (5, True), (6, True)], r1) \<and>
     Ring_Clone r1 = [7]"
proof -
  obtain r where r: "NewRing (0::nat) 2 = Inr r" by (simp add: NewRing_def)
  from ring_refines_queue [OF r, of "[RPush 5, RPush 6, RPush 7, RPop]"] show ?thesis
    using r by (auto simp: bq_push_def)
qed

subsection \<open>The pool\<close>

text \<open>
  C20: take any reachable state of a pool, however its callers interleave, in which what was added
  of each item never went below zero nor past the largest Go int.  Then the capacity is what was
  added, no item is locked below zero or more often than there ever were of it, nor beyond its
  capacity when nothing was taken out by a negative Add; an attempt locks all it asks for, and
  unlocking that restores the pool, or it changes nothing; and no caller sleeps whose request
  could be met: no wakeup is lost.
\<close>

theorem pool_no_lost_wakeup:
  assumes "pool_reachable s" and "sane_adds (added s)"
  shows "pool_cap (the_pool s) n = total_added (added s) n \<and>
    0 \<le> pool_locked (the_pool s) n \<and> pool_locked (the_pool s) n \<le> peak (added s) n \<and>
    ((\<forall>a \<in> set (added s). 0 \<le> snd a) \<longrightarrow> pool_locked (the_pool s) n \<le> pool_cap (the_pool s) n) \<and>
    (\<forall>ns \<in> set (asleep s). \<not> satisfiable ns (the_pool s)) \<and>
    (if satisfiable ms (the_pool s)
     then Pool_attempt ms (the_pool s) = (True, hold ms (the_pool s)) \<and> Pool_Unlock ms (hold ms (the_pool s)) = the_pool s
     else Pool_attempt ms (the_pool s) = (False, the_pool s))"
proof -
  have inv: "pool_state_inv s" by (rule pool_reachable_inv [OF assms])
  then have p: "pool_inv (the_pool s)" using assms(2) by (rule pool_state_invD)
  have "Pool_Unlock ms (hold ms (the_pool s)) = the_pool s" if "satisfiable ms (the_pool s)"
    using unlock_all_hold [of "[]" ms "the_pool s"] hold_fits [OF p] p that by (simp add: Pool_Unlock_def satisfiable_def)
  moreover have "pool_locked (the_pool s) n \<le> pool_cap (the_pool s) n" if "\<forall>a \<in> set (added s). 0 \<le> snd a"
    using inv peak_raised [OF that, of n] by (metis pool_state_inv_def)
  ultimately show ?thesis using inv attempt_exact [OF p, of ms] by (simp add: pool_state_inv_def)
qed

theorem pool_no_lost_wakeup_witness:
  "\<exists>s. pool_reachable s \<and> asleep s = [[''gpu'', ''gpu'']] \<and> pool_cap (the_pool s) ''gpu'' = 1 \<and> \<not> satisfiable [''gpu'', ''gpu''] (the_pool s)"
proof -
  define r where "r = snd (Pool_Add ''gpu'' 1 NewPool)"
  let ?s0 = "\<lparr>the_pool = NewPool, awake = [], asleep = [], added = []\<rparr>"
  let ?s1 = "\<lparr>the_pool = r, awake = [], asleep = [], added = [(''gpu'', 1)]\<rparr>"
  let ?s2 = "\<lparr>the_pool = r, awake = [[''gpu'', ''gpu'']], asleep = [], added = [(''gpu'', 1)]\<rparr>"
  let ?s3 = "\<lparr>the_pool = r, awake = [], asleep = [[''gpu'', ''gpu'']], added = [(''gpu'', 1)]\<rparr>"
  have "Pool_attempt [''gpu'', ''gpu''] r = (False, r)"
    by (simp add: Pool_attempt_def Pool_lock_def Pool_unlock_def NewPool_def unlock_all_def r_def Pool_Add_def fun_eq_iff)
  then have "pool_step ?s2 ?s3" using lock_wait [of ?s2 "[]" "[''gpu'', ''gpu'']" "[]" r] by simp
  moreover have "pool_step ?s0 ?s1" using add_call [of ?s0 "''gpu''" 1] by (simp add: wake_def r_def)
  moreover have "pool_step ?s1 ?s2" using lock_call [of "[''gpu'', ''gpu'']" ?s1] by simp
  ultimately have reach: "pool_reachable ?s3" by (meson pool_start pool_more)
  have "sane_adds [(''gpu'', 1)]" by (simp add: sane_adds_def total_added_def take_Cons split: nat.splits)
  from pool_no_lost_wakeup [OF reach, simplified, OF this, of "''gpu''" "[]"] show ?thesis
    using reach by (intro exI [of _ ?s3]) (simp add: total_added_def)
qed

subsection \<open>The broadcast queue\<close>

text \<open>
  C23: whatever writers and waiters did to a queue, through whatever handles, a subscriber that
  starts at any node comes to an end of what there is and has then received exactly the values
  pushed from that node on, in the order of the pushes; its channel is closed exactly when the
  queue was closed.
\<close>

theorem subscriber_receives_all:
  assumes "queue_run zero h xs closed" and "q < length h"
  shows "Subscribe_drain q h = Some (drop q xs, closed)"
proof -
  have q: "queue_of h xs closed" by (rule run_queue_of [OF assms(1)])
  then show ?thesis using drain_queue [OF q, of q] assms(2) by (simp add: queue_of_def)
qed

theorem subscriber_receives_all_witness:
  "\<exists>h. queue_run (0::nat) h [7, 8] True \<and> Subscribe_drain 1 h = Some ([8], True)"
proof -
  have q0: "queue_run (0::nat) [newQueue 0] [] False" by (rule run_new)
  obtain r1 h1 where h1: "Queue_Push 0 7 0 [newQueue (0::nat)] = Some (r1, h1)"
    using Push_queue [OF run_queue_of [OF q0], of 0 0 7] by auto
  have q1: "queue_run (0::nat) h1 [7] False" using run_push [OF q0 _ h1] by simp
  then have l1: "length h1 = 2" using run_queue_of [of 0 h1] by (fastforce simp: queue_of_def)
  obtain r2 h2 where h2: "Queue_Push 0 8 0 h1 = Some (r2, h2)"
    using Push_queue [OF run_queue_of [OF q1], of 0 0 8] by auto
  have q2: "queue_run (0::nat) h2 [7, 8] False" using run_push [OF q1 _ h2] l1 by simp
  then have l2: "length h2 = 3" using run_queue_of [of 0 h2] by (fastforce simp: queue_of_def)
  obtain r3 h3 where h3: "Queue_Close 2 h2 = Some (r3, h3)" using Close_queue [OF run_queue_of [OF q2], of 2] by auto
  have q3: "queue_run (0::nat) h3 [7, 8] True" using run_close [OF q2 _ h3] l2 by simp
  then have "length h3 = 3" using run_queue_of [of 0 h3] by (fastforce simp: queue_of_def)
  then show ?thesis using q3 subscriber_receives_all [OF q3, of 1] by auto
qed

subsection \<open>Slice differences\<close>

text \<open>
  Under the standard comparison and any sorter, the generic difference ends and computes the
  two multiset differences, sorted; so does the merge, on slices that are sorted already, and on
  strictly ascending ones it equals the quadratic reference.
\<close>

theorem ordered_difference:
  fixes a b :: "'a::linorder list"
  assumes "\<And>xs. mset (srt compare xs) = mset xs" and "\<And>xs. sorted (srt compare xs)"
  shows "SliceDiffFunc srt compare a b =
      Some (sorted_list_of_multiset (mset a - mset b), sorted_list_of_multiset (mset b - mset a)) \<and>
    (sorted a \<and> sorted b \<longrightarrow>
      SliceDiffOrdered a b = (sorted_list_of_multiset (mset a - mset b), sorted_list_of_multiset (mset b - mset a)) \<and>
      (distinct a \<and> distinct b \<longrightarrow> SliceDiffOrdered a b = SliceDiff a b))"
proof -
  have "SliceDiffFunc srt compare a b = Some (SliceDiffOrdered (srt compare a) (srt compare b))"
    by (simp add: SliceDiffFunc_def SliceDiffOrdered_def func_loop compare_def)
  then show ?thesis using ordered_diff [OF assms(2) assms(2), of a b] ordered_diff [of a b] ordered_agrees [of a b]
    by (simp add: assms(1))
qed

subsection \<open>The switch\<close>

text \<open>
  In every reachable state of a switch at most one task is alive, and it is the one whose done
  channel the switch holds; \<^verbatim>\<open>Stop\<close> panics exactly when that task is alive but was stopped before.
\<close>

theorem switch_single_task:
  assumes "switch_reachable s"
  shows "(t \<in> alive s \<and> u \<in> alive s \<longrightarrow> t = u \<and> sw_done s = Some t) \<and>
    (Switch_Stop s = None \<longleftrightarrow> (\<exists>t \<in> alive s. t \<in> cancelled s))"
proof -
  have inv: "switch_inv s" by (rule switch_reachable_inv [OF assms])
  then have "sw_done s = Some v" if "v \<in> alive s" for v using that unfolding switch_inv_def by blast
  then have "t \<in> alive s \<and> u \<in> alive s \<longrightarrow> t = u \<and> sw_done s = Some t" by (metis option.inject)
  then show ?thesis using Stop_panics_iff [OF inv] by blast
qed

end
