(* ===== verification/Url_Query.thy ===== *)
theory Url_Query
  imports Go_Prelude SigMap "HOL-Library.Char_ord" "HOL-Library.List_Lexorder"
begin

text \<open>
  Query strings, \<^verbatim>\<open>src/lib/query/query.go\<close>, \<^verbatim>\<open>marshal.go\<close> (the string and map cases) and
  \<^verbatim>\<open>args_to_map.go\<close>, with the parts of Go's \<^verbatim>\<open>net/url\<close> they rest on: \<^verbatim>\<open>QueryEscape\<close>,
  \<^verbatim>\<open>QueryUnescape\<close>, \<^verbatim>\<open>ParseQuery\<close> and \<^verbatim>\<open>Values.Encode\<close>.

  A \<^verbatim>\<open>map[string]string\<close> argument is the association list of an iteration; the parsed
  parameters are a partial function.
\<close>

subsection \<open>Escaping\<close>

definition unreserved :: "char \<Rightarrow> bool" where
  "unreserved c \<longleftrightarrow>
     (let n = (of_char c :: nat) in
      48 \<le> n \<and> n \<le> 57 \<or> 65 \<le> n \<and> n \<le> 90 \<or> 97 \<le> n \<and> n \<le> 122 \<or> n = 45 \<or> n = 46 \<or> n = 95 \<or> n = 126)"

definition upperhex :: "nat \<Rightarrow> char" where
  "upperhex d = char_of (if d < 10 then 48 + d else 55 + d)"

definition unhex :: "char \<Rightarrow> nat option" where
  "unhex c =
     (let n = (of_char c :: nat) in
      if 48 \<le> n \<and> n \<le> 57 then Some (n - 48)
      else if 97 \<le> n \<and> n \<le> 102 then Some (n - 87)
      else if 65 \<le> n \<and> n \<le> 70 then Some (n - 55)
      else None)"

definition escape_char :: "char \<Rightarrow> string" where
  "escape_char c =
     (if unreserved c then [c]
      else if c = CHR '' '' then ''+''
      else [CHR 0x25, upperhex (of_char c div 16), upperhex (of_char c mod 16)])"

definition QueryEscape :: "string \<Rightarrow> string" where
  "QueryEscape s = concat (map escape_char s)"

fun QueryUnescape :: "string \<Rightarrow> string res" where
  "QueryUnescape [] = Inr []"
| "QueryUnescape (c # cs) =
     (if c = CHR 0x25 then
        (case cs of
           h # l # rest \<Rightarrow>
             (case unhex h of
                None \<Rightarrow> Inl ErrSyntax
              | Some a \<Rightarrow>
                  (case unhex l of
                     None \<Rightarrow> Inl ErrSyntax
                   | Some b \<Rightarrow>
                       (case QueryUnescape rest of Inl e \<Rightarrow> Inl e | Inr s \<Rightarrow> Inr (char_of (a * 16 + b) # s))))
         | _ \<Rightarrow> Inl ErrSyntax)
      else (case QueryUnescape cs of Inl e \<Rightarrow> Inl e | Inr s \<Rightarrow> Inr ((if c = CHR ''+'' then CHR '' '' else c) # s)))"

subsection \<open>Splitting\<close>

lemma cut_length: "cut sep s = (a, b, f) \<Longrightarrow> length a + length b \<le> length s \<and> (s \<noteq> [] \<longrightarrow> length b < length s)"
  by (induction s arbitrary: a b f) (auto split: if_splits prod.splits)

text \<open>
  \<^verbatim>\<open>url.ParseQuery\<close>: the pairs it accepts in order, and whether any segment was malformed (the
  error it returns beside them).
\<close>

function ParseQuery :: "string \<Rightarrow> (string \<times> string) list \<times> bool" where
  "ParseQuery query =
     (if query = [] then ([], False)
      else case cut CHR ''&'' query of
        (seg, rest, _) \<Rightarrow>
          (case ParseQuery rest of
             (ps, bad) \<Rightarrow>
               if CHR '';'' \<in> set seg then (ps, True)
               else if seg = [] then (ps, bad)
               else case cut CHR ''='' seg of
                 (key, val, _) \<Rightarrow>
                   (case QueryUnescape key of
                      Inl _ \<Rightarrow> (ps, True)
                    | Inr k \<Rightarrow> (case QueryUnescape val of Inl _ \<Rightarrow> (ps, True) | Inr v \<Rightarrow> ((k, v) # ps, bad)))))"
  by pat_completeness auto
termination
  by (relation "measure length") (auto dest: cut_length [OF sym])

declare ParseQuery.simps [simp del]

definition Values_Encode :: "(string \<times> string) list \<Rightarrow> string" where
  "Values_Encode m =
     concat (case map (\<lambda>(k, v). QueryEscape k @ ''='' @ QueryEscape v) (sort_key fst m) of
               [] \<Rightarrow> [] | s # ss \<Rightarrow> s # map (\<lambda>t. CHR ''&'' # t) ss)"

subsection \<open>The query package\<close>

definition DefaultArgKey :: string where "DefaultArgKey = ''arg''"

definition splitPathParams :: "string \<Rightarrow> string \<times> string" where
  "splitPathParams query =
     (case index_byte query CHR ''?'' of Some i \<Rightarrow> (take i query, drop (i + 1) query) | None \<Rightarrow> (query, []))"

text \<open>The values of a key form a non-empty list, of which the first is kept.\<close>

definition Parse :: "string \<Rightarrow> string \<times> (string \<rightharpoonup> string)" where
  "Parse q =
     (case splitPathParams q of
        (path, s) \<Rightarrow> (case ParseQuery s of (vals, err) \<Rightarrow> (path, if err then Map.empty else map_of vals)))"

datatype query_args = ArgsNil | ArgsString string | ArgsMap "(string \<times> string) list"

definition Marshal :: "query_args \<Rightarrow> string res" where
  "Marshal params =
     (case params of ArgsNil \<Rightarrow> Inr [] | ArgsString a \<Rightarrow> Inr a | ArgsMap m \<Rightarrow> Inr (Values_Encode m))"

definition New_QueryString :: "string \<Rightarrow> query_args \<Rightarrow> string" where
  "New_QueryString path args =
     (if args = ArgsNil then path
      else case Marshal args of
        Inl e \<Rightarrow> path
      | Inr str \<Rightarrow> if str \<noteq> [] then path @ ''?'' @ str else path)"

fun ArgsToMap_loop :: "string list \<Rightarrow> (string \<rightharpoonup> string) \<Rightarrow> (string \<rightharpoonup> string)" where
  "ArgsToMap_loop [] params = params"
| "ArgsToMap_loop (key # args) params =
     (if \<not> prefix ''-'' key then ArgsToMap_loop args (params(DefaultArgKey \<mapsto> key))
      else (case args of
              [] \<Rightarrow> params(drop 1 key \<mapsto> [])
            | v # rest \<Rightarrow> ArgsToMap_loop rest (params(drop 1 key \<mapsto> v))))"

definition ArgsToMap :: "string list \<Rightarrow> (string \<rightharpoonup> string)" where
  "ArgsToMap args = ArgsToMap_loop args Map.empty"

subsection \<open>Round trips\<close>

lemma unhex_upperhex: "d < 16 \<Longrightarrow> unhex (upperhex d) = Some d"
  by (simp add: unhex_def upperhex_def Let_def)

lemma of_char_high: "(of_char c :: nat) div 16 < 16"
proof -
  have "(of_char c :: nat) < 256" by simp
  then show ?thesis by (simp add: div_less_iff_less_mult)
qed

lemma escape_char_plain: "c \<in> set (escape_char d) \<Longrightarrow> c \<noteq> CHR ''&'' \<and> c \<noteq> CHR ''='' \<and> c \<noteq> CHR '';'' \<and> c \<noteq> CHR ''?''"
proof -
  have hex: "upperhex k \<noteq> CHR ''&'' \<and> upperhex k \<noteq> CHR ''='' \<and> upperhex k \<noteq> CHR '';'' \<and> upperhex k \<noteq> CHR ''?''" if "k < 16" for k
  proof -
    have "of_char (upperhex k) = (if k < 10 then 48 + k else 55 + k)" using that by (simp add: upperhex_def)
    then show ?thesis by (auto dest!: arg_cong [of _ _ "of_char :: char \<Rightarrow> nat"] split: if_splits)
  qed
  show "c \<in> set (escape_char d) \<Longrightarrow> ?thesis"
    using hex [OF of_char_high [of d]] hex [of "of_char d mod 16"]
    by (auto simp: escape_char_def unreserved_def Let_def split: if_splits)
qed

lemma unescape_escape_char: "QueryUnescape (escape_char c @ s) = (case QueryUnescape s of Inl e \<Rightarrow> Inl e | Inr t \<Rightarrow> Inr (c # t))"
proof (cases "unreserved c")
  case True
  then have "c \<noteq> CHR 0x25 \<and> c \<noteq> CHR ''+''" by (auto simp: unreserved_def Let_def)
  then show ?thesis using True by (simp add: escape_char_def)
next
  case False
  have "unhex (upperhex (of_char c div 16)) = Some (of_char c div 16)" "unhex (upperhex (of_char c mod 16)) = Some (of_char c mod 16)"
    by (simp_all add: unhex_upperhex of_char_high)
  moreover have "char_of (of_char c div 16 * 16 + of_char c mod 16 :: nat) = c" by simp
  ultimately show ?thesis using False by (simp add: escape_char_def split: sum.splits)
qed

lemma unescape_escape [simp]: "QueryUnescape (QueryEscape s) = Inr s"
proof -
  have "QueryUnescape (QueryEscape s @ []) = Inr s"
    by (induction s) (simp_all add: QueryEscape_def unescape_escape_char)
  then show ?thesis by simp
qed

lemma QueryEscape_plain: "c \<in> set (QueryEscape s) \<Longrightarrow> c \<noteq> CHR ''&'' \<and> c \<noteq> CHR ''='' \<and> c \<noteq> CHR '';'' \<and> c \<noteq> CHR ''?''"
  unfolding QueryEscape_def by (auto dest: escape_char_plain)

definition segment :: "string \<times> string \<Rightarrow> string" where
  "segment p = QueryEscape (fst p) @ ''='' @ QueryEscape (snd p)"

fun join_amp :: "string list \<Rightarrow> string" where
  "join_amp [] = []"
| "join_amp [s] = s"
| "join_amp (s # t # ss) = s @ CHR ''&'' # join_amp (t # ss)"

lemma Values_Encode_eq: "Values_Encode m = join_amp (map segment (sort_key fst m))"
proof -
  have "concat (case xs of [] \<Rightarrow> [] | s # ss \<Rightarrow> s # map (\<lambda>t. CHR ''&'' # t) ss) = join_amp xs" for xs
    by (induction xs rule: join_amp.induct) simp_all
  moreover have "segment = (\<lambda>(k, v). QueryEscape k @ ''='' @ QueryEscape v)" by (auto simp: segment_def)
  ultimately show ?thesis by (simp add: Values_Encode_def)
qed

lemma ParseQuery_seg:
  assumes "CHR ''&'' \<notin> set s" "CHR '';'' \<notin> set s" "s \<noteq> []" "cut CHR ''='' s = (key, val, f)"
    "QueryUnescape key = Inr k" "QueryUnescape val = Inr v"
  shows "ParseQuery s = ([(k, v)], False)"
    and "ParseQuery (s @ CHR ''&'' # rest) = (case ParseQuery rest of (ps, bad) \<Rightarrow> ((k, v) # ps, bad))"
proof -
  have "ParseQuery [] = ([], False)" by (subst ParseQuery.simps) simp
  then show "ParseQuery s = ([(k, v)], False)" using assms by (subst ParseQuery.simps) (simp add: cut_none)
  show "ParseQuery (s @ CHR ''&'' # rest) = (case ParseQuery rest of (ps, bad) \<Rightarrow> ((k, v) # ps, bad))"
    using assms by (subst ParseQuery.simps) (simp add: cut_at split: prod.splits)
qed

lemma segment_props:
  "CHR ''&'' \<notin> set (segment p)" "CHR '';'' \<notin> set (segment p)" "segment p \<noteq> []"
  "cut CHR ''='' (segment p) = (QueryEscape (fst p), QueryEscape (snd p), True)"
  using QueryEscape_plain [of "CHR ''=''" "fst p"] cut_at [of "CHR ''=''" "QueryEscape (fst p)" "QueryEscape (snd p)"]
  by (auto simp: segment_def dest: QueryEscape_plain)

lemma ParseQuery_join: "ParseQuery (join_amp (map segment ps)) = (ps, False)"
proof (induction ps rule: induct_list012)
  case 1
  show ?case by (subst ParseQuery.simps) simp
next
  case (2 p)
  show ?case using ParseQuery_seg(1) [OF segment_props [of p]] by simp
next
  case (3 p q ps)
  show ?case using ParseQuery_seg(2) [OF segment_props [of p]] 3 by simp
qed

lemma map_of_sort: "distinct (map fst m) \<Longrightarrow> map_of (sort_key fst m) = map_of m"
  by (rule map_of_eqI) (auto simp: distinct_map intro!: map_of_eqI)

lemma Parse_New:
  assumes "CHR ''?'' \<notin> set path" and "map_inv m"
  shows "Parse (New_QueryString path (ArgsMap m)) = (path, map_of m)"
proof (cases "m = []")
  case True
  have "ParseQuery [] = ([], False)" by (subst ParseQuery.simps) simp
  moreover have "index_byte path CHR ''?'' = None" using assms(1) by (simp add: index_byte_None)
  ultimately show ?thesis using True
    by (simp add: New_QueryString_def Marshal_def Values_Encode_eq Parse_def splitPathParams_def)
next
  case False
  then have "sort_key fst m \<noteq> []" by (metis length_0_conv length_sort)
  then have "join_amp (map segment (sort_key fst m)) \<noteq> []"
    using segment_props(3) by (cases "sort_key fst m" rule: remdups_adj.cases) auto
  then have "New_QueryString path (ArgsMap m) = path @ CHR ''?'' # join_amp (map segment (sort_key fst m))"
    by (simp add: New_QueryString_def Marshal_def Values_Encode_eq)
  then show ?thesis using assms
    by (simp add: Parse_def splitPathParams_def ParseQuery_join map_of_sort map_inv_def)
qed

end
