(* ===== verification/Query_Editor.thy ===== *)
theory Query_Editor
  imports Url_Query
begin

text \<open>
  Binding query arguments to struct fields: \<^verbatim>\<open>src/lib/query/field_tag.go\<close>, \<^verbatim>\<open>field_editor.go\<close>,
  \<^verbatim>\<open>editor.go\<close>, and \<^verbatim>\<open>src/astral/log/snake_case.go\<close> which names the fields.

  A struct is the list of its fields with their kind and value; reflection over it is a
  function of that list.  Types with their own text methods, floats and byte slices are of kind
  \<open>KExt\<close>: their value is the text they print, and \<open>text_types\<close> gives what their package does
  with a text.  A pointer field is nil or points to a value; decoding into nil allocates first.
\<close>

subsection \<open>Tags and names\<close>

record fieldTag =
  Key :: string
  Skip :: bool
  Required :: bool
  Other :: "string \<rightharpoonup> string"

definition apply_tag :: "string \<Rightarrow> fieldTag \<Rightarrow> fieldTag" where
  "apply_tag v t =
     (case cut CHR '':'' v of
        (p0, p1, two) \<Rightarrow>
          if p0 = ''skip'' then t\<lparr>Skip := True\<rparr>
          else if p0 = ''required'' then t\<lparr>Required := True\<rparr>
          else if p0 = ''key'' then (if \<not> two then t else t\<lparr>Key := p1\<rparr>)
          else t\<lparr>Other := (Other t)(p0 \<mapsto> (if two then p1 else []))\<rparr>)"

definition ParseTag :: "string \<Rightarrow> fieldTag" where
  "ParseTag tag = fold apply_tag (Split CHR '';'' tag) \<lparr>Key = [], Skip = False, Required = False, Other = Map.empty\<rparr>"

definition isUpper :: "char \<Rightarrow> bool" where
  "isUpper c \<longleftrightarrow> (let n = (of_char c :: nat) in 65 \<le> n \<and> n \<le> 90)"

definition isDigit :: "char \<Rightarrow> bool" where
  "isDigit c \<longleftrightarrow> (let n = (of_char c :: nat) in 48 \<le> n \<and> n \<le> 57)"

text \<open>Identifiers of the sources are ASCII, so runes are characters; \<open>first\<close> says the index is zero.\<close>

fun ToSnakeCase_loop :: "bool \<Rightarrow> bool \<Rightarrow> string \<Rightarrow> string" where
  "ToSnakeCase_loop first lastUpper [] = []"
| "ToSnakeCase_loop first lastUpper (r # rs) =
     (if isUpper r then
        (if \<not> first \<and> ((\<not> lastUpper \<and> \<not> isDigit r) \<or> (case rs of [] \<Rightarrow> False | x # _ \<Rightarrow> \<not> isUpper x \<and> \<not> isDigit x))
         then ''_'' else []) @ to_lower r # ToSnakeCase_loop False True rs
      else r # ToSnakeCase_loop False (isUpper r \<or> isDigit r) rs)"

definition ToSnakeCase :: "string \<Rightarrow> string" where
  "ToSnakeCase str = ToSnakeCase_loop True False str"

subsection \<open>Fields\<close>

datatype fkind = KString | KInt nat | KUint nat | KBool | KExt string | KSlice | KNone

datatype fval = FNil | FString string | FInt int | FUint nat | FBool bool | FExt string | FOther

record text_types =
  tt_parse :: "string \<Rightarrow> string \<Rightarrow> string res"
  tt_zero :: "string \<Rightarrow> string"
  tt_object :: "string \<Rightarrow> string"

record qfield =
  fd_name :: string
  fd_tag :: fieldTag
  fd_kind :: fkind
  fd_ptr :: bool
  fd_val :: fval

definition zero_val :: "text_types \<Rightarrow> fkind \<Rightarrow> fval" where
  "zero_val tt k =
     (case k of
        KString \<Rightarrow> FString [] | KInt _ \<Rightarrow> FInt 0 | KUint _ \<Rightarrow> FUint 0 | KBool \<Rightarrow> FBool False
      | KExt t \<Rightarrow> FExt (tt_zero tt t) | _ \<Rightarrow> FOther)"

definition ParseBool :: "string \<Rightarrow> bool res" where
  "ParseBool s =
     (if s \<in> {''1'', ''t'', ''T'', ''TRUE'', ''true'', ''True''} then Inr True
      else if s \<in> {''0'', ''f'', ''F'', ''FALSE'', ''false'', ''False''} then Inr False
      else Inl ErrSyntax)"

text \<open>\<^verbatim>\<open>SetInt\<close> and \<^verbatim>\<open>SetUint\<close> keep the low bits of the parsed 64-bit number.\<close>

definition setInt :: "nat \<Rightarrow> int \<Rightarrow> fval" where
  "setInt bits n = FInt (signed_take_bit (bits - 1) n)"

definition setUint :: "nat \<Rightarrow> nat \<Rightarrow> fval" where
  "setUint bits n = FUint (n mod 2 ^ bits)"

definition FieldEditor_UnmarshalText :: "text_types \<Rightarrow> string \<Rightarrow> qfield \<Rightarrow> error option \<times> qfield" where
  "FieldEditor_UnmarshalText tt data f =
     (let f1 = (if fd_val f = FNil then f\<lparr>fd_val := zero_val tt (fd_kind f)\<rparr> else f) in
      case fd_kind f of
        KExt t \<Rightarrow> (case tt_parse tt t data of Inl e \<Rightarrow> (Some e, f1) | Inr v \<Rightarrow> (None, f1\<lparr>fd_val := FExt v\<rparr>))
      | KString \<Rightarrow> (None, f1\<lparr>fd_val := FString data\<rparr>)
      | KInt bits \<Rightarrow> (case parseInt data 10 64 of Inl e \<Rightarrow> (Some e, f1) | Inr n \<Rightarrow> (None, f1\<lparr>fd_val := setInt bits n\<rparr>))
      | KUint bits \<Rightarrow> (case parseUint data 10 64 of Inl e \<Rightarrow> (Some e, f1) | Inr n \<Rightarrow> (None, f1\<lparr>fd_val := setUint bits n\<rparr>))
      | KBool \<Rightarrow> (case ParseBool data of Inl e \<Rightarrow> (Some e, f1) | Inr b \<Rightarrow> (None, f1\<lparr>fd_val := FBool b\<rparr>))
      | KSlice \<Rightarrow> (None, f1)
      | KNone \<Rightarrow> (Some (ErrMsg ''field does not implement TextUnmarshaler''), f1))"

definition FieldEditor_MarshalText :: "qfield \<Rightarrow> string option res" where
  "FieldEditor_MarshalText f =
     (case fd_val f of
        FNil \<Rightarrow> Inr None
      | FString s \<Rightarrow> Inr (Some s)
      | FInt i \<Rightarrow> Inr (Some (formatInt i))
      | FUint n \<Rightarrow> Inr (Some (formatUint 10 n))
      | FBool b \<Rightarrow> Inr (Some (if b then ''true'' else ''false''))
      | FExt t \<Rightarrow> Inr (Some t)
      | FOther \<Rightarrow> Inl (ErrMsg ''field does not implement TextMarshaler''))"

definition FieldEditor_Get :: "qfield \<Rightarrow> string" where
  "FieldEditor_Get f = (case FieldEditor_MarshalText f of Inr (Some t) \<Rightarrow> t | _ \<Rightarrow> [])"

definition FieldEditor_ObjectType :: "text_types \<Rightarrow> qfield \<Rightarrow> string" where
  "FieldEditor_ObjectType tt f =
     (case fd_kind f of
        KExt t \<Rightarrow> tt_object tt t
      | KString \<Rightarrow> ''string8''
      | KInt b \<Rightarrow> ''int'' @ formatUint 10 b
      | KUint b \<Rightarrow> ''uint'' @ formatUint 10 b
      | KBool \<Rightarrow> ''bool''
      | _ \<Rightarrow> [])"

subsection \<open>Editors\<close>

text \<open>A struct field as reflection shows it.\<close>

record structField =
  sf_name :: string
  sf_exported :: bool
  sf_tag :: string
  sf_kind :: fkind
  sf_ptr :: bool
  sf_val :: fval

definition edit_field :: "bool \<Rightarrow> structField \<Rightarrow> qfield" where
  "edit_field keepCase sf =
     (let tag = ParseTag (sf_tag sf);
          name = (if Key tag \<noteq> [] then Key tag else if keepCase then sf_name sf else ToSnakeCase (sf_name sf))
      in \<lparr>fd_name = name, fd_tag = tag, fd_kind = sf_kind sf, fd_ptr = sf_ptr sf, fd_val = sf_val sf\<rparr>)"

definition editValue :: "bool \<Rightarrow> structField list \<Rightarrow> qfield list" where
  "editValue keepCase sfs =
     map (edit_field keepCase) (filter (\<lambda>sf. sf_exported sf \<and> \<not> Skip (ParseTag (sf_tag sf))) sfs)"

definition Editor_Field :: "string \<Rightarrow> qfield list \<Rightarrow> qfield option" where
  "Editor_Field name fs = find (\<lambda>f. fd_name f = name) fs"

datatype set_result = SetOk | SetNotFound | SetBad error

fun Editor_Set :: "text_types \<Rightarrow> string \<Rightarrow> string \<Rightarrow> qfield list \<Rightarrow> set_result \<times> qfield list" where
  "Editor_Set tt name value [] = (SetNotFound, [])"
| "Editor_Set tt name value (f # fs) =
     (if fd_name f = name then
        (case FieldEditor_UnmarshalText tt value f of
           (None, f1) \<Rightarrow> (SetOk, f1 # fs)
         | (Some e, f1) \<Rightarrow> (SetBad e, f1 # fs))
      else case Editor_Set tt name value fs of (r, fs1) \<Rightarrow> (r, f # fs1))"

definition Editor_Get :: "string \<Rightarrow> qfield list \<Rightarrow> string option" where
  "Editor_Get name fs = map_option FieldEditor_Get (Editor_Field name fs)"

definition Editor_Spec :: "text_types \<Rightarrow> qfield list \<Rightarrow> (string \<times> string \<times> bool) list" where
  "Editor_Spec tt fs =
     map (\<lambda>f. (fd_name f, FieldEditor_ObjectType tt f, Required (fd_tag f)))
       (filter (\<lambda>f. FieldEditor_ObjectType tt f \<noteq> []) fs)"

text \<open>\<^verbatim>\<open>SetMany\<close> over the pairs in the order of the iteration; the error names the key.\<close>

fun Editor_SetMany :: "text_types \<Rightarrow> (string \<times> string) list \<Rightarrow> qfield list \<Rightarrow> (string \<times> error) option \<times> qfield list" where
  "Editor_SetMany tt [] fs = (None, fs)"
| "Editor_SetMany tt ((key, value) # vals) fs =
     (case Editor_Set tt key value fs of
        (SetOk, fs1) \<Rightarrow> Editor_SetMany tt vals fs1
      | (SetNotFound, fs1) \<Rightarrow> Editor_SetMany tt vals fs1
      | (SetBad e, fs1) \<Rightarrow> (Some (key, e), fs1))"

datatype args_error = UnknownArgument string | BadArgument error

fun Editor_SetArgs :: "text_types \<Rightarrow> string list \<Rightarrow> string list \<Rightarrow> qfield list \<Rightarrow>
    (string list \<times> args_error option) \<times> qfield list" where
  "Editor_SetArgs tt [] unparsed fs = ((unparsed, None), fs)"
| "Editor_SetArgs tt (arg # args) unparsed fs =
     (if \<not> prefix ''-'' arg then Editor_SetArgs tt args (unparsed @ [arg]) fs
      else case args of
        [] \<Rightarrow> ((unparsed @ [arg], None), fs)
      | v # rest \<Rightarrow>
          (case Editor_Set tt (drop 1 arg) v fs of
             (SetOk, fs1) \<Rightarrow> Editor_SetArgs tt rest unparsed fs1
           | (SetNotFound, fs1) \<Rightarrow> ((unparsed, Some (UnknownArgument (drop 1 arg))), fs1)
           | (SetBad e, fs1) \<Rightarrow> ((unparsed, Some (BadArgument e)), fs1)))"

fun marshal_fields :: "qfield list \<Rightarrow> (string \<times> string) list \<Rightarrow> (string \<times> string) list res" where
  "marshal_fields [] vals = Inr vals"
| "marshal_fields (f # fs) vals =
     (case FieldEditor_MarshalText f of
        Inl e \<Rightarrow> Inl e
      | Inr None \<Rightarrow> marshal_fields fs vals
      | Inr (Some t) \<Rightarrow> marshal_fields fs (AList.update (fd_name f) t vals))"

definition Editor_MarshalQuery :: "qfield list \<Rightarrow> string res" where
  "Editor_MarshalQuery fs = (case marshal_fields fs [] of Inl e \<Rightarrow> Inl e | Inr vals \<Rightarrow> Inr (Values_Encode vals))"

fun set_all :: "text_types \<Rightarrow> (string \<times> string) list \<Rightarrow> qfield list \<Rightarrow> set_result \<times> qfield list" where
  "set_all tt [] fs = (SetOk, fs)"
| "set_all tt ((key, value) # vals) fs =
     (case Editor_Set tt key value fs of (SetOk, fs1) \<Rightarrow> set_all tt vals fs1 | (r, fs1) \<Rightarrow> (r, fs1))"

text \<open>\<^verbatim>\<open>UnmarshalQuery\<close> visits each key once, with its first value.\<close>

definition first_values :: "(string \<times> string) list \<Rightarrow> (string \<times> string) list" where
  "first_values ps = foldl (\<lambda>acc p. if fst p \<in> fst ` set acc then acc else acc @ [p]) [] ps"

definition Editor_UnmarshalQuery :: "text_types \<Rightarrow> string \<Rightarrow> qfield list \<Rightarrow> set_result \<times> qfield list" where
  "Editor_UnmarshalQuery tt text fs =
     (case ParseQuery text of
        (ps, True) \<Rightarrow> (SetBad ErrSyntax, fs)
      | (ps, False) \<Rightarrow> set_all tt (first_values ps) fs)"

subsection \<open>Required arguments\<close>

definition maxUnknownNamed :: nat where "maxUnknownNamed = 8"

text \<open>
  \<^verbatim>\<open>checkRequired\<close> of \<^verbatim>\<open>src/lib/routing/op.go\<close>: None, or the missing names and the unknown keys it
  reports (the flag says the list was cut).
\<close>

definition checkRequired :: "text_types \<Rightarrow> qfield list \<Rightarrow> (string \<times> string) list \<Rightarrow> (string list \<times> string list \<times> bool) option" where
  "checkRequired tt fs params =
     (let missing = map fst (filter (\<lambda>(n, t, req). req \<and> n \<notin> fst ` set params) (Editor_Spec tt fs));
          unknown = sort (filter (\<lambda>k. Editor_Field k fs = None \<and> k \<noteq> ''in'' \<and> k \<noteq> ''out'') (map fst params))
      in if missing = [] then None
         else Some (missing, take maxUnknownNamed unknown, maxUnknownNamed < length unknown))"

subsection \<open>Round trips\<close>

fun val_ok :: "text_types \<Rightarrow> fkind \<Rightarrow> fval \<Rightarrow> bool" where
  "val_ok tt KString (FString s) \<longleftrightarrow> True"
| "val_ok tt (KInt b) (FInt i) \<longleftrightarrow> 0 < b \<and> b \<le> 64 \<and> - (2 ^ (b - 1)) \<le> i \<and> i < 2 ^ (b - 1)"
| "val_ok tt (KUint b) (FUint n) \<longleftrightarrow> b \<le> 64 \<and> n < 2 ^ b"
| "val_ok tt KBool (FBool b) \<longleftrightarrow> True"
| "val_ok tt (KExt t) (FExt s) \<longleftrightarrow> tt_parse tt t s = Inr s"
| "val_ok tt k v \<longleftrightarrow> False"

lemma unmarshal_sel [simp]:
  "fd_name (snd (FieldEditor_UnmarshalText tt t f)) = fd_name f"
  "fd_kind (snd (FieldEditor_UnmarshalText tt t f)) = fd_kind f"
  by (auto simp: FieldEditor_UnmarshalText_def Let_def split: fkind.splits sum.splits)

lemma unmarshal_marshal:
  assumes "val_ok tt (fd_kind f) (fd_val f)" and "fd_kind g = fd_kind f" and "FieldEditor_MarshalText f = Inr (Some t)"
  shows "FieldEditor_UnmarshalText tt t g = (None, g\<lparr>fd_val := fd_val f\<rparr>)"
proof (cases "(tt, fd_kind f, fd_val f)" rule: val_ok.cases)
  case (2 tt1 b i)
  then have i: "0 < b" "b \<le> 64" "- (2 ^ (b - 1)) \<le> i" "i < 2 ^ (b - 1)" using assms(1) by auto
  have "(2 :: int) ^ (b - 1) \<le> 2 ^ 63" using i(2) by (intro power_increasing) auto
  then have "- (2 ^ 63) \<le> i \<and> i < 2 ^ 63" using i by linarith
  then have "parseInt (formatInt i) 10 64 = Inr i" by (intro parseInt_format) auto
  moreover have "signed_take_bit (b - 1) i = i" using i by (simp add: signed_take_bit_int_eq_self)
  ultimately show ?thesis using 2 assms
    by (simp add: FieldEditor_UnmarshalText_def FieldEditor_MarshalText_def setInt_def)
next
  case (3 tt1 b n)
  then have n: "b \<le> 64" "n < 2 ^ b" using assms(1) by auto
  have "(2 :: nat) ^ b \<le> 2 ^ 64" using n(1) by (intro power_increasing) auto
  then have "n < 2 ^ 64" using n by linarith
  then have "parseUint (formatUint 10 n) 10 64 = Inr n" by simp
  then show ?thesis using 3 n assms
    by (simp add: FieldEditor_UnmarshalText_def FieldEditor_MarshalText_def setUint_def)
next
  case (4 tt1 b)
  have "t = (if b then ''true'' else ''false'')" using 4 assms(3) by (simp add: FieldEditor_MarshalText_def)
  then have "ParseBool t = Inr b" by (simp add: ParseBool_def)
  then show ?thesis using 4 assms(2) by (simp add: FieldEditor_UnmarshalText_def)
qed (use assms in \<open>auto simp: FieldEditor_UnmarshalText_def FieldEditor_MarshalText_def\<close>)

text \<open>The effect of a batch of settings on one field.\<close>

definition upd :: "text_types \<Rightarrow> (string \<rightharpoonup> string) \<Rightarrow> qfield \<Rightarrow> qfield" where
  "upd tt m f = (case m (fd_name f) of None \<Rightarrow> f | Some t \<Rightarrow> snd (FieldEditor_UnmarshalText tt t f))"

definition settable :: "text_types \<Rightarrow> qfield list \<Rightarrow> string \<times> string \<Rightarrow> bool" where
  "settable tt fs p \<longleftrightarrow> (\<exists>f \<in> set fs. fd_name f = fst p \<and> fst (FieldEditor_UnmarshalText tt (snd p) f) = None)"

lemma Editor_Set_ok:
  "distinct (map fd_name fs) \<Longrightarrow> settable tt fs (k, t) \<Longrightarrow>
     Editor_Set tt k t fs = (SetOk, map (upd tt [k \<mapsto> t]) fs)"
proof (induction fs)
  case (Cons f fs)
  show ?case
  proof (cases "fd_name f = k")
    case True
    then have "k \<notin> fd_name ` set fs" using Cons.prems(1) by auto
    then have "map (upd tt [k \<mapsto> t]) fs = fs" by (intro map_idI) (auto simp: upd_def)
    moreover have "fst (FieldEditor_UnmarshalText tt t f) = None"
      using Cons.prems(2) \<open>k \<notin> fd_name ` set fs\<close> unfolding settable_def by (metis fst_conv imageI set_ConsD snd_conv)
    moreover have "upd tt [k \<mapsto> t] f = snd (FieldEditor_UnmarshalText tt t f)" using True by (simp add: upd_def)
    ultimately show ?thesis using True
      by (cases "FieldEditor_UnmarshalText tt t f") (simp del: fun_upd_apply)
  next
    case False
    then have "settable tt fs (k, t)" using Cons.prems(2) by (auto simp: settable_def)
    then show ?thesis using False Cons by (simp add: upd_def)
  qed
qed (simp add: settable_def)

lemma upd_name [simp]: "fd_name (upd tt m f) = fd_name f"
  by (simp add: upd_def split: option.splits)

lemma upd_names [simp]: "map (fd_name \<circ> upd tt m) fs = map fd_name fs"
  by simp

lemma set_all_ok:
  assumes "distinct (map fst ps)" "distinct (map fd_name fs)" "\<And>p. p \<in> set ps \<Longrightarrow> settable tt fs p"
  shows "set_all tt ps fs = (SetOk, map (upd tt (map_of ps)) fs)"
  using assms
proof (induction ps arbitrary: fs)
  case Nil
  then show ?case by (simp add: upd_def map_idI)
next
  case (Cons p ps)
  obtain k t where p: "p = (k, t)" by force
  let ?fs = "map (upd tt [k \<mapsto> t]) fs"
  have set1: "Editor_Set tt k t fs = (SetOk, ?fs)" using Cons.prems p by (intro Editor_Set_ok) auto
  have "settable tt ?fs q" if q: "q \<in> set ps" for q
  proof -
    have "fst q \<noteq> k" using Cons.prems(1) p q by auto
    moreover obtain f where "f \<in> set fs" "fd_name f = fst q" "fst (FieldEditor_UnmarshalText tt (snd q) f) = None"
      using Cons.prems(3) [of q] q by (auto simp: settable_def)
    ultimately show ?thesis by (auto simp: settable_def upd_def intro!: bexI [of _ f])
  qed
  then have "set_all tt ps ?fs = (SetOk, map (upd tt (map_of ps)) ?fs)"
    using Cons.prems by (intro Cons.IH) auto
  moreover have "upd tt (map_of ps) (upd tt [k \<mapsto> t] f) = upd tt (map_of ((k, t) # ps)) f" for f
  proof -
    have "k \<notin> fst ` set ps" using Cons.prems(1) p by auto
    then have "map_of ps k = None" by (simp add: map_of_eq_None_iff)
    then show ?thesis using p by (auto simp: upd_def split: option.splits)
  qed
  ultimately show ?case using set1 unfolding p by (simp add: comp_def del: map_of.simps)
qed

fun text_pairs :: "qfield list \<Rightarrow> (string \<times> string) list" where
  "text_pairs [] = []"
| "text_pairs (f # fs) =
     (case FieldEditor_MarshalText f of Inr (Some t) \<Rightarrow> (fd_name f, t) # text_pairs fs | _ \<Rightarrow> text_pairs fs)"

lemma text_pairs_names: "fst ` set (text_pairs fs) \<subseteq> fd_name ` set fs"
  by (induction fs) (auto split: sum.splits option.splits)

lemma marshal_fields_eq:
  "marshal_fields fs vals = Inr vs \<Longrightarrow> distinct (map fd_name fs) \<Longrightarrow> fst ` set vals \<inter> fd_name ` set fs = {} \<Longrightarrow>
     vs = vals @ text_pairs fs"
proof (induction fs arbitrary: vals)
  case (Cons f fs)
  have upd: "AList.update (fd_name f) t vals = vals @ [(fd_name f, t)]" for t
  proof -
    have "fd_name f \<notin> fst ` set vals" using Cons.prems(3) by auto
    then show ?thesis by (induction vals) auto
  qed
  show ?case using Cons.prems Cons.IH [of vals] Cons.IH [of "vals @ [(fd_name f, _)]"]
    by (auto simp: upd split: sum.splits option.splits)
qed simp

lemma text_pairs_distinct: "distinct (map fd_name fs) \<Longrightarrow> distinct (map fst (text_pairs fs))"
proof (induction fs)
  case (Cons f fs)
  have "fd_name f \<notin> fst ` set (text_pairs fs)" using Cons.prems text_pairs_names [of fs] by auto
  then show ?case using Cons by (simp split: sum.splits option.splits)
qed simp

lemma text_pairs_lookup:
  "distinct (map fd_name fs) \<Longrightarrow> f \<in> set fs \<Longrightarrow>
     map_of (text_pairs fs) (fd_name f) = (case FieldEditor_MarshalText f of Inr r \<Rightarrow> r | Inl _ \<Rightarrow> None)"
proof (induction fs)
  case (Cons g fs)
  have notin: "map_of (text_pairs fs) n = None" if "n \<notin> fd_name ` set fs" for n
    using text_pairs_names that by (auto simp: map_of_eq_None_iff)
  show ?case
  proof (cases "f = g")
    case True
    then show ?thesis using Cons.prems notin [of "fd_name g"] by (auto split: sum.splits option.splits)
  next
    case False
    then have "f \<in> set fs" using Cons.prems by simp
    moreover have "fd_name f \<noteq> fd_name g" using Cons.prems(1) imageI [OF calculation, of fd_name] by auto
    ultimately have "f \<in> set fs" "fd_name f \<noteq> fd_name g" by simp_all
    then show ?thesis using Cons by (auto split: sum.splits option.splits)
  qed
qed simp

lemma first_values_distinct: "distinct (map fst ps) \<Longrightarrow> first_values ps = ps"
proof -
  have "distinct (map fst (acc @ ps)) \<Longrightarrow>
      foldl (\<lambda>acc p. if fst p \<in> fst ` set acc then acc else acc @ [p]) acc ps = acc @ ps" for acc
    by (induction ps arbitrary: acc) (auto simp: image_Un)
  from this [of "[]"] show "distinct (map fst ps) \<Longrightarrow> ?thesis" by (simp add: first_values_def)
qed

lemma unmarshal_marshal_query:
  assumes "Editor_MarshalQuery e = Inr text" and "distinct (map fd_name e)"
    and "list_all2 (\<lambda>g f. fd_name g = fd_name f \<and> fd_kind g = fd_kind f \<and> f = g\<lparr>fd_val := fd_val f\<rparr> \<and>
           (fd_val f = FNil \<and> fd_val g = FNil \<or> val_ok tt (fd_kind f) (fd_val f))) e0 e"
  shows "Editor_UnmarshalQuery tt text e0 = (SetOk, e)"
proof -
  obtain vals where vals: "marshal_fields e [] = Inr vals" "text = Values_Encode vals"
    using assms(1) by (auto simp: Editor_MarshalQuery_def split: sum.splits)
  then have tp: "vals = text_pairs e" using marshal_fields_eq [of e "[]" vals] assms(2) by simp
  let ?ps = "sort_key fst (text_pairs e)"
  have dist: "distinct (map fst (text_pairs e))" by (rule text_pairs_distinct [OF assms(2)])
  then have dps: "distinct (map fst ?ps)" by (simp add: distinct_map)
  have parse: "ParseQuery text = (?ps, False)" using vals tp by (simp add: Values_Encode_eq ParseQuery_join)
  have names: "map fd_name e0 = map fd_name e"
    using assms(3) by (induction rule: list_all2_induct) auto
  have pair: "fd_name g = fd_name f \<and> fd_kind g = fd_kind f \<and> f = g\<lparr>fd_val := fd_val f\<rparr> \<and>
      (fd_val f = FNil \<and> fd_val g = FNil \<or> val_ok tt (fd_kind f) (fd_val f))" if "(g, f) \<in> set (zip e0 e)" for g f
    using assms(3) that by (auto simp: list_all2_iff)
  have marshal: "FieldEditor_MarshalText f = Inr None \<and> g = f \<or> (\<exists>t. FieldEditor_MarshalText f = Inr (Some t) \<and>
      FieldEditor_UnmarshalText tt t g = (None, f))" if gf: "(g, f) \<in> set (zip e0 e)" for g f
  proof (cases "fd_val f = FNil")
    case True
    have "\<not> val_ok tt (fd_kind f) FNil" by (cases "fd_kind f") simp_all
    then have "fd_val g = FNil" using pair [OF gf] True by simp
    then have "g = g\<lparr>fd_val := fd_val f\<rparr>" using True by simp
    then have "g = f" using pair [OF gf] by metis
    then show ?thesis using True by (simp add: FieldEditor_MarshalText_def)
  next
    case False
    then have ok: "val_ok tt (fd_kind f) (fd_val f)" using pair [OF gf] by blast
    then obtain t where t: "FieldEditor_MarshalText f = Inr (Some t)"
      using False by (cases "fd_val f"; cases "fd_kind f") (auto simp: FieldEditor_MarshalText_def)
    then show ?thesis using unmarshal_marshal [OF ok _ t, of g] pair [OF gf] by simp
  qed
  have "settable tt e0 p" if "p \<in> set ?ps" for p
  proof -
    have "p \<in> set (text_pairs e)" using that by simp
    then have m: "map_of (text_pairs e) (fst p) = Some (snd p)" using dist by simp
    have "fst p \<in> fd_name ` set e" using text_pairs_names \<open>p \<in> set (text_pairs e)\<close> by force
    then obtain f where f: "f \<in> set e" "fd_name f = fst p" by auto
    then obtain g where gf: "(g, f) \<in> set (zip e0 e)" "g \<in> set e0"
      using list_all2_lengthD [OF assms(3)] by (meson in_set_impl_in_set_zip2 set_zip_leftD)
    have "(case FieldEditor_MarshalText f of Inr r \<Rightarrow> r | Inl _ \<Rightarrow> None) = Some (snd p)"
      using text_pairs_lookup [OF assms(2) f(1)] m f(2) by simp
    then have "FieldEditor_UnmarshalText tt (snd p) g = (None, f)" using marshal [OF gf(1)] by auto
    then show ?thesis using gf(2) f(2) pair [OF gf(1)] unfolding settable_def by (intro bexI [of _ g]) simp_all
  qed
  then have "set_all tt ?ps e0 = (SetOk, map (upd tt (map_of ?ps)) e0)"
    using dps names assms(2) by (intro set_all_ok) auto
  moreover have "map (upd tt (map_of ?ps)) e0 = e"
  proof (rule nth_equalityI)
    show "length (map (upd tt (map_of ?ps)) e0) = length e" using list_all2_lengthD [OF assms(3)] by simp
    fix i
    assume "i < length (map (upd tt (map_of ?ps)) e0)"
    then have i: "i < length e0" "i < length e" using list_all2_lengthD [OF assms(3)] by simp_all
    then have gf: "(e0 ! i, e ! i) \<in> set (zip e0 e)" by (auto simp: in_set_zip)
    have "map_of ?ps (fd_name (e ! i)) = (case FieldEditor_MarshalText (e ! i) of Inr r \<Rightarrow> r | Inl _ \<Rightarrow> None)"
      using text_pairs_lookup [OF assms(2)] i map_of_sort [OF dist] by simp
    then have "upd tt (map_of ?ps) (e0 ! i) = e ! i"
      using marshal [OF gf] conjunct1 [OF pair [OF gf]] by (elim disjE conjE exE) (simp_all add: upd_def)
    then show "map (upd tt (map_of ?ps)) e0 ! i = e ! i" using i by simp
  qed
  ultimately show ?thesis using parse dps by (simp add: Editor_UnmarshalQuery_def first_values_distinct)
qed

text \<open>A field of a freshly allocated struct: a pointer is nil, anything else is zero.\<close>

definition new_field :: "text_types \<Rightarrow> qfield \<Rightarrow> qfield" where
  "new_field tt f = f\<lparr>fd_val := (if fd_ptr f then FNil else zero_val tt (fd_kind f))\<rparr>"

definition args_ok :: "text_types \<Rightarrow> qfield list \<Rightarrow> bool" where
  "args_ok tt e \<longleftrightarrow> distinct (map fd_name e) \<and>
     (\<forall>f \<in> set e. fd_ptr f \<and> fd_val f = FNil \<or> val_ok tt (fd_kind f) (fd_val f))"

lemma unmarshal_fresh:
  assumes "Editor_MarshalQuery e = Inr text" and "args_ok tt e"
  shows "Editor_UnmarshalQuery tt text (map (new_field tt) e) = (SetOk, e)"
proof (rule unmarshal_marshal_query [OF assms(1)])
  show "distinct (map fd_name e)" using assms(2) by (simp add: args_ok_def)
  have "fd_name (new_field tt f) = fd_name f \<and> fd_kind (new_field tt f) = fd_kind f \<and>
      f = (new_field tt f)\<lparr>fd_val := fd_val f\<rparr> \<and>
      (fd_val f = FNil \<and> fd_val (new_field tt f) = FNil \<or> val_ok tt (fd_kind f) (fd_val f))" if "f \<in> set e" for f
    using assms(2) that by (auto simp: args_ok_def new_field_def)
  then show "list_all2 (\<lambda>g f. fd_name g = fd_name f \<and> fd_kind g = fd_kind f \<and> f = g\<lparr>fd_val := fd_val f\<rparr> \<and>
      (fd_val f = FNil \<and> fd_val g = FNil \<or> val_ok tt (fd_kind f) (fd_val f))) (map (new_field tt) e) e"
    unfolding list_all2_map1 list_all2_same by simp
qed

lemma marshal_parse:
  assumes "Editor_MarshalQuery e = Inr text" and "distinct (map fd_name e)"
  shows "ParseQuery text = (sort_key fst (text_pairs e), False)" and "distinct (map fst (sort_key fst (text_pairs e)))"
proof -
  obtain vals where vals: "marshal_fields e [] = Inr vals" "text = Values_Encode vals"
    using assms(1) by (auto simp: Editor_MarshalQuery_def split: sum.splits)
  then have "vals = text_pairs e" using marshal_fields_eq [of e "[]" vals] assms(2) by simp
  then show "ParseQuery text = (sort_key fst (text_pairs e), False)" using vals by (simp add: Values_Encode_eq ParseQuery_join)
  show "distinct (map fst (sort_key fst (text_pairs e)))"
    using text_pairs_distinct [OF assms(2)] by (simp add: distinct_map)
qed

lemma set_all_SetMany: "set_all tt ps fs = (SetOk, fs1) \<Longrightarrow> Editor_SetMany tt ps fs = (None, fs1)"
  by (induction tt ps fs rule: set_all.induct) (auto split: prod.splits set_result.splits)

lemma Editor_Spec_new [simp]: "Editor_Spec tt (map (new_field tt) e) = Editor_Spec tt e"
proof -
  have "FieldEditor_ObjectType tt (new_field tt f) = FieldEditor_ObjectType tt f" for f
    by (simp add: FieldEditor_ObjectType_def new_field_def)
  moreover have "fd_name (new_field tt f) = fd_name f" "fd_tag (new_field tt f) = fd_tag f" for f
    by (simp_all add: new_field_def)
  ultimately show ?thesis by (simp add: Editor_Spec_def filter_map comp_def)
qed

lemma required_present:
  assumes "Editor_MarshalQuery e = Inr text" and "args_ok tt e"
    and "\<forall>f \<in> set e. Required (fd_tag f) \<longrightarrow> fd_val f \<noteq> FNil"
  shows "checkRequired tt (map (new_field tt) e) (sort_key fst (text_pairs e)) = None"
proof -
  have "fd_name f \<in> fst ` set (text_pairs e)" if f: "f \<in> set e" "Required (fd_tag f)" for f
  proof -
    have "val_ok tt (fd_kind f) (fd_val f)" "fd_val f \<noteq> FNil" using assms(2,3) f by (auto simp: args_ok_def)
    then obtain t where "FieldEditor_MarshalText f = Inr (Some t)"
      by (cases "fd_val f"; cases "fd_kind f") (auto simp: FieldEditor_MarshalText_def)
    then have "map_of (text_pairs e) (fd_name f) = Some t"
      using text_pairs_lookup [of e f] f assms(2) by (simp add: args_ok_def)
    then show ?thesis using map_of_SomeD by force
  qed
  then have "filter (\<lambda>(n, t, req). req \<and> n \<notin> fst ` set (sort_key fst (text_pairs e))) (Editor_Spec tt e) = []"
    by (auto simp: Editor_Spec_def filter_empty_conv)
  then show ?thesis by (simp add: checkRequired_def Let_def)
qed

end
