(* ===== verification/Routing.thy ===== *)
theory Routing
  imports Query_Editor SigMap Scalars "HOL-Library.Multiset"
begin

text \<open>
  Contexts, in-flight queries and routers: \<^verbatim>\<open>src/astral/context.go\<close>, \<^verbatim>\<open>codes.go\<close>,
  \<^verbatim>\<open>err_rejected.go\<close>, \<^verbatim>\<open>err_route_not_found.go\<close>, \<^verbatim>\<open>query.go\<close>, \<^verbatim>\<open>in_flight_query.go\<close>,
  \<^verbatim>\<open>src/lib/query/route.go\<close> and the routers of \<^verbatim>\<open>src/lib/routing\<close>.

  A router is a tree; what an op, or a router of another package, answers is a function of the
  context, the query and the writer, so the trees are parametric in ops (\<open>serve\<close> answers for
  one) and in writers.  An answer is a route error or a writer.  Sorting entries by priority
  is \<^verbatim>\<open>slices.SortFunc\<close>, which promises a sorted permutation and no stability: the routing
  theorems hold for every such sorter.
\<close>

subsection \<open>Contexts\<close>

type_synonym zone = "8 word"

definition ZoneDefault :: zone where "ZoneDefault = ZoneAll"

text \<open>
  The embedded \<^verbatim>\<open>context.Context\<close> is the chain of cancellable contexts it hangs under: it is
  done as soon as one of them is; \<^verbatim>\<open>context.Background()\<close> is the empty chain.
\<close>

record goctx =
  ctx_chain :: "nat list"
  ctx_identity :: "string option"
  ctx_filters :: "string list"
  ctx_zone :: zone

definition NewContext :: "nat list option \<Rightarrow> goctx" where
  "NewContext ctx = \<lparr>ctx_chain = (case ctx of None \<Rightarrow> [] | Some c \<Rightarrow> c), ctx_identity = None,
     ctx_filters = [], ctx_zone = ZoneDefault\<rparr>"

definition Context_Detach :: "goctx \<Rightarrow> goctx" where
  "Context_Detach ctx = ctx\<lparr>ctx_chain := []\<rparr>"

definition Context_WithIdentity :: "string option \<Rightarrow> goctx \<Rightarrow> goctx" where
  "Context_WithIdentity i ctx = ctx\<lparr>ctx_identity := i\<rparr>"

definition Context_WithZone :: "zone \<Rightarrow> goctx \<Rightarrow> goctx" where
  "Context_WithZone z ctx = ctx\<lparr>ctx_zone := z\<rparr>"

definition Context_IncludeZone :: "zone \<Rightarrow> goctx \<Rightarrow> goctx" where
  "Context_IncludeZone z ctx = ctx\<lparr>ctx_zone := or (ctx_zone ctx) z\<rparr>"

definition Context_ExcludeZone :: "zone \<Rightarrow> goctx \<Rightarrow> goctx" where
  "Context_ExcludeZone z ctx = ctx\<lparr>ctx_zone := and (ctx_zone ctx) (not z)\<rparr>"

definition Context_LimitZone :: "zone \<Rightarrow> goctx \<Rightarrow> goctx" where
  "Context_LimitZone z ctx = ctx\<lparr>ctx_zone := and (ctx_zone ctx) z\<rparr>"

text \<open>\<^verbatim>\<open>WithCancel\<close>, \<^verbatim>\<open>WithCancelCause\<close> and \<^verbatim>\<open>WithTimeout\<close> hang a fresh cancellable context below.\<close>

definition Context_WithCancel :: "nat \<Rightarrow> goctx \<Rightarrow> goctx" where
  "Context_WithCancel c ctx = ctx\<lparr>ctx_chain := c # ctx_chain ctx\<rparr>"

definition Context_WithFilters :: "string list \<Rightarrow> goctx \<Rightarrow> goctx" where
  "Context_WithFilters fs ctx = ctx\<lparr>ctx_filters := fs\<rparr>"

definition Context_done :: "nat set \<Rightarrow> goctx \<Rightarrow> bool" where
  "Context_done cancelled ctx \<longleftrightarrow> (\<exists>c \<in> set (ctx_chain ctx). c \<in> cancelled)"

lemma detach_never_done: "\<not> Context_done cancelled (Context_Detach ctx)"
  by (simp add: Context_done_def Context_Detach_def)

lemma cancel_reaches_children: "Context_done cs ctx \<Longrightarrow> Context_done cs (Context_WithCancel c ctx)"
  by (auto simp: Context_done_def Context_WithCancel_def)

lemma child_cancel_is_local: "c \<notin> set (ctx_chain ctx) \<Longrightarrow> Context_done (insert c cs) ctx = Context_done cs ctx"
  by (auto simp: Context_done_def)

subsection \<open>Codes, errors and queries\<close>

definition CodeRejected :: "8 word" where "CodeRejected = 1"
definition CodeInvalidQuery :: "8 word" where "CodeInvalidQuery = 2"
definition CodeCanceled :: "8 word" where "CodeCanceled = 3"
definition CodeInternalError :: "8 word" where "CodeInternalError = 4"
definition CodeTimeout :: "8 word" where "CodeTimeout = 6"
definition CodeUnavailable :: "8 word" where "CodeUnavailable = 7"
definition DefaultRejectCode :: "8 word" where "DefaultRejectCode = 1"

datatype route_error = ErrRouteNotFound | ErrRejected "8 word" | RouteErr string | RouteWrap string route_error

text \<open>\<^verbatim>\<open>errors.Is(err, &ErrRejected{})\<close> walks the chain of wrapped errors; the codes do not count.\<close>

fun is_rejected :: "route_error \<Rightarrow> bool" where
  "is_rejected (ErrRejected c) \<longleftrightarrow> True"
| "is_rejected (RouteWrap s e) \<longleftrightarrow> is_rejected e"
| "is_rejected _ \<longleftrightarrow> False"

definition NewErrRejected :: "8 word \<Rightarrow> route_error" where
  "NewErrRejected code = ErrRejected (if code = 0 then DefaultRejectCode else code)"

datatype extra_value = ExtraString string | ExtraOther nat

record in_flight =
  Nonce :: "64 word"
  Caller :: "string option"
  Target :: "string option"
  QueryString :: string
  Extra :: "(string, extra_value) gomap"

definition Launch :: "64 word \<Rightarrow> string option \<Rightarrow> string option \<Rightarrow> string \<Rightarrow> in_flight" where
  "Launch nonce caller target qs = \<lparr>Nonce = nonce, Caller = caller, Target = target, QueryString = qs, Extra = []\<rparr>"

definition IsNetwork :: "in_flight \<Rightarrow> bool" where
  "IsNetwork q \<longleftrightarrow> Map_Get (Extra q) ''origin'' = Some (ExtraString ''network'')"

definition IsLocal :: "in_flight \<Rightarrow> bool" where
  "IsLocal q \<longleftrightarrow> Map_Get (Extra q) ''origin'' \<in> {None, Some (ExtraString ''''), Some (ExtraString ''local'')}"

definition IsMCP :: "in_flight \<Rightarrow> bool" where
  "IsMCP q \<longleftrightarrow> Map_Get (Extra q) ''origin'' = Some (ExtraString ''mcp'')"

type_synonym 'w answer = "route_error + 'w"

text \<open>\<^verbatim>\<open>RejectWithCode\<close> panics on code 0: None.\<close>

definition query_RejectWithCode :: "8 word \<Rightarrow> 'w answer option" where
  "query_RejectWithCode code = (if code = 0 then None else Some (Inl (ErrRejected code)))"

definition query_Reject :: "'w answer" where
  "query_Reject = Inl (ErrRejected DefaultRejectCode)"

definition query_RouteNotFound :: "'w answer" where
  "query_RouteNotFound = Inl ErrRouteNotFound"

subsection \<open>Routers\<close>

datatype ('op, 'w) router =
    NilRouter bool
  | OpRouter "(string \<times> 'op) list"
  | ScopeRouter "('op, 'w) router" "(string \<times> ('op, 'w) router) list"
  | PriorityRouter string "(('op, 'w) router \<times> int) list"
  | ExtRouter "goctx \<Rightarrow> in_flight \<Rightarrow> 'w \<Rightarrow> 'w answer"

type_synonym ('op, 'w) serve = "'op \<Rightarrow> goctx \<Rightarrow> in_flight \<Rightarrow> 'w \<Rightarrow> 'w answer"

definition NewScopeRouter :: "('op, 'w) router option \<Rightarrow> ('op, 'w) router" where
  "NewScopeRouter root = ScopeRouter (case root of None \<Rightarrow> NilRouter False | Some r \<Rightarrow> r) []"

definition NewPriorityRouter :: "string \<Rightarrow> ('op, 'w) router" where
  "NewPriorityRouter name = PriorityRouter name []"

definition NilRouter_RouteQuery :: "bool \<Rightarrow> 'w answer" where
  "NilRouter_RouteQuery soft = (if soft then query_RouteNotFound else query_Reject)"

definition OpRouter_RouteQuery :: "('op, 'w) serve \<Rightarrow> (string \<times> 'op) list \<Rightarrow> goctx \<Rightarrow> in_flight \<Rightarrow> 'w \<Rightarrow> 'w answer" where
  "OpRouter_RouteQuery serve routes ctx q w =
     (case Map_Get routes (fst (Parse (QueryString q))) of
        None \<Rightarrow> query_RouteNotFound
      | Some op \<Rightarrow> serve op ctx q w)"

text \<open>Copying the entries of \<^verbatim>\<open>Extra\<close> one by one into the relaunched query.\<close>

definition copy_extra :: "(string, extra_value) gomap \<Rightarrow> in_flight \<Rightarrow> in_flight" where
  "copy_extra xs rq = fold (\<lambda>(key, value) rq. rq\<lparr>Extra := snd (snd (Map_Set (Extra rq) key value))\<rparr>) xs rq"

definition scoped_query :: "nat \<Rightarrow> in_flight \<Rightarrow> in_flight" where
  "scoped_query idx q =
     copy_extra (Map_Clone (Extra q)) (Launch (Nonce q) (Caller q) (Target q) (drop (idx + 1) (QueryString q)))"

text \<open>The scope a query is for: the position of the dot and the scope's name.\<close>

definition scope_of :: "string \<Rightarrow> (nat \<times> string) option" where
  "scope_of opName = map_option (\<lambda>idx. (idx, take idx opName)) (index_byte opName CHR ''.'')"

lemma size_scope [termination_simp]:
  "map_of scopes s = Some r \<Longrightarrow> size r < Suc (n + size_list (size_prod (\<lambda>_. 0) size) scopes)"
proof (induction scopes)
  case (Cons p scopes)
  then show ?case by (cases p) (auto split: if_splits)
qed simp

function (sequential) RouteQuery :: "('op, 'w) serve \<Rightarrow> ('op, 'w) router \<Rightarrow> goctx \<Rightarrow> in_flight \<Rightarrow> 'w \<Rightarrow> 'w answer"
  and route_entries :: "('op, 'w) serve \<Rightarrow> (('op, 'w) router \<times> int) list \<Rightarrow> goctx \<Rightarrow> in_flight \<Rightarrow> 'w \<Rightarrow> 'w answer"
where
  "RouteQuery serve (NilRouter soft) ctx q w = NilRouter_RouteQuery soft"
| "RouteQuery serve (OpRouter routes) ctx q w = OpRouter_RouteQuery serve routes ctx q w"
| "RouteQuery serve (ScopeRouter root scopes) ctx q w =
     (case scope_of (fst (Parse (QueryString q))) of
        None \<Rightarrow> RouteQuery serve root ctx q w
      | Some (idx, scopeName) \<Rightarrow>
          (case map_of scopes scopeName of
             None \<Rightarrow> RouteQuery serve root ctx q w
           | Some scope \<Rightarrow> RouteQuery serve scope ctx (scoped_query idx q) w))"
| "RouteQuery serve (PriorityRouter name entries) ctx q w = route_entries serve entries ctx q w"
| "RouteQuery serve (ExtRouter f) ctx q w = f ctx q w"
| "route_entries serve [] ctx q w = query_RouteNotFound"
| "route_entries serve ((r, prio) # entries) ctx q w =
     (case RouteQuery serve r ctx q w of
        Inr rw \<Rightarrow> Inr rw
      | Inl err \<Rightarrow> if is_rejected err then Inl err else route_entries serve entries ctx q w)"
  by pat_completeness auto
termination
  by (relation "measure (\<lambda>x. case x of Inl (_, r, _) \<Rightarrow> 2 * size r
        | Inr (_, es, _) \<Rightarrow> 1 + 2 * size_list (size_prod size (\<lambda>_. 0)) es)")
     (auto simp: dest!: size_scope [where n = 0])

subsection \<open>Registration\<close>

definition OpRouter_AddOp :: "string \<Rightarrow> 'op \<Rightarrow> (string \<times> 'op) list \<Rightarrow> error option \<times> (string \<times> 'op) list" where
  "OpRouter_AddOp name op routes =
     (case Map_Set routes name op of
        (_, ok, routes1) \<Rightarrow> (if \<not> ok then Some (ErrMsg ''route already exists'') else None, routes1))"

definition OpRouter_AddScopedOp :: "string \<Rightarrow> string \<Rightarrow> 'op \<Rightarrow> (string \<times> 'op) list \<Rightarrow> error option \<times> (string \<times> 'op) list" where
  "OpRouter_AddScopedOp scope name op routes =
     (if scope \<noteq> [] then (Some (ErrMsg ''op router cannot add scoped route''), routes)
      else OpRouter_AddOp name op routes)"

definition OpRouter_RemoveOp :: "string \<Rightarrow> (string \<times> 'op) list \<Rightarrow> error option \<times> (string \<times> 'op) list" where
  "OpRouter_RemoveOp name routes =
     (case Map_Delete routes name of
        (None, routes1) \<Rightarrow> (Some (ErrMsg ''route not found''), routes1)
      | (Some _, routes1) \<Rightarrow> (None, routes1))"

definition OpRouter_GetOp :: "string \<Rightarrow> (string \<times> 'op) list \<Rightarrow> 'op res" where
  "OpRouter_GetOp name routes =
     (case Map_Get routes name of None \<Rightarrow> Inl (ErrMsg ''route not found'') | Some op \<Rightarrow> Inr op)"

text \<open>
  A struct's methods come with what \<^verbatim>\<open>NewOp\<close> makes of each (None when the signature is not an
  op's); the errors of names already taken are collected.
\<close>

definition cut_prefix :: "string \<Rightarrow> string \<Rightarrow> string option" where
  "cut_prefix pre name = (if prefix pre name then Some (drop (length pre) name) else None)"

fun AddStruct_loop :: "string \<Rightarrow> (string \<times> 'op option) list \<Rightarrow> error list \<Rightarrow> (string \<times> 'op) list \<Rightarrow>
    error list \<times> (string \<times> 'op) list" where
  "AddStruct_loop pre [] errs routes = (errs, routes)"
| "AddStruct_loop pre ((method, made) # methods) errs routes =
     (case cut_prefix pre method of
        None \<Rightarrow> AddStruct_loop pre methods errs routes
      | Some name \<Rightarrow>
          (case made of
             None \<Rightarrow> AddStruct_loop pre methods errs routes
           | Some op \<Rightarrow>
               (case OpRouter_AddOp (ToSnakeCase name) op routes of
                  (None, routes1) \<Rightarrow> AddStruct_loop pre methods errs routes1
                | (Some e, routes1) \<Rightarrow> AddStruct_loop pre methods (errs @ [e]) routes1)))"

definition OpRouter_AddStructPrefix :: "bool \<Rightarrow> (string \<times> 'op option) list \<Rightarrow> string \<Rightarrow> (string \<times> 'op) list \<Rightarrow>
    error list \<times> (string \<times> 'op) list" where
  "OpRouter_AddStructPrefix isStructPtr methods pre routes =
     (if \<not> isStructPtr then ([ErrMsg ''argument must be a pointer to a struct''], routes)
      else AddStruct_loop pre methods [] routes)"

definition NewOpRouter :: "(string \<times> 'op option) list list \<Rightarrow> (string \<times> 'op) list" where
  "NewOpRouter ss = fold (\<lambda>s routes. snd (OpRouter_AddStructPrefix True s [] routes)) ss []"

definition ScopeRouter_Add :: "string \<Rightarrow> ('op, 'w) router \<Rightarrow> (string \<times> ('op, 'w) router) list \<Rightarrow> (string \<times> ('op, 'w) router) list" where
  "ScopeRouter_Add scope r scopes = snd (snd (Map_Set scopes scope r))"

definition ScopeRouter_Remove :: "string \<Rightarrow> (string \<times> ('op, 'w) router) list \<Rightarrow> (string \<times> ('op, 'w) router) list" where
  "ScopeRouter_Remove scope scopes = snd (Map_Delete scopes scope)"

text \<open>The op routers are shared by pointer: adding to the one under a scope updates it in place.\<close>

definition ScopeRouter_AddScopedOp :: "string \<Rightarrow> string \<Rightarrow> 'op \<Rightarrow> ('op, 'w) router \<times> (string \<times> ('op, 'w) router) list \<Rightarrow>
    error option \<times> ('op, 'w) router \<times> (string \<times> ('op, 'w) router) list" where
  "ScopeRouter_AddScopedOp scope name op r =
     (case r of (root, scopes) \<Rightarrow>
        if scope = [] then
          (case root of
             OpRouter routes \<Rightarrow> (case OpRouter_AddOp name op routes of (e, routes1) \<Rightarrow> (e, OpRouter routes1, scopes))
           | _ \<Rightarrow> (Some (ErrMsg ''root router is not an op router''), root, scopes))
        else
          (let scopes1 = (if Map_Get scopes scope = None then ScopeRouter_Add scope (OpRouter []) scopes else scopes) in
           case Map_Get scopes1 scope of
             Some (OpRouter routes) \<Rightarrow>
               (case OpRouter_AddOp name op routes of
                  (e, routes1) \<Rightarrow> (e, root, AList.update scope (OpRouter routes1) scopes1))
           | _ \<Rightarrow> (Some (ErrMsg ''scope router is not an op router''), root, scopes1)))"

definition OpRouter_HasRoute :: "string \<Rightarrow> (string \<times> 'op) list \<Rightarrow> bool" where
  "OpRouter_HasRoute name routes \<longleftrightarrow> Map_Get routes name \<noteq> None"

text \<open>Only op and scope routers implement \<^verbatim>\<open>RouteChecker\<close>; for the others the type assertion fails.\<close>

function (sequential) HasRoute :: "('op, 'w) router \<Rightarrow> string \<Rightarrow> bool" where
  "HasRoute (OpRouter routes) name \<longleftrightarrow> OpRouter_HasRoute name routes"
| "HasRoute (ScopeRouter root scopes) name \<longleftrightarrow>
     (case scope_of name of
        None \<Rightarrow> HasRoute root name
      | Some (idx, scopeName) \<Rightarrow>
          (case map_of scopes scopeName of
             Some scope \<Rightarrow> HasRoute scope (drop (idx + 1) name)
           | None \<Rightarrow> HasRoute root name))"
| "HasRoute _ name \<longleftrightarrow> False"
  by pat_completeness auto
termination
  by (relation "measure (\<lambda>(r, _). size r)") (auto dest!: size_scope [where n = 0])

record op_param =
  par_name :: string
  par_type :: string
  par_required :: bool

type_synonym op_spec = "string \<times> op_param list"

definition spec_entry :: "('op \<Rightarrow> (string \<times> string \<times> bool) list) \<Rightarrow> string \<times> 'op \<Rightarrow> op_spec" where
  "spec_entry args r =
     (fst r, map (\<lambda>(n, t, req). \<lparr>par_name = n, par_type = t, par_required = req\<rparr>) (args (snd r)))"

definition OpRouter_Spec :: "('op \<Rightarrow> (string \<times> string \<times> bool) list) \<Rightarrow> (string \<times> 'op) list \<Rightarrow> op_spec list" where
  "OpRouter_Spec args routes = map (spec_entry args) routes"

text \<open>Routers that do not implement \<^verbatim>\<open>HasSpec\<close> list nothing.\<close>

fun Router_Spec :: "('op \<Rightarrow> (string \<times> string \<times> bool) list) \<Rightarrow> ('op, 'w) router \<Rightarrow> op_spec list" where
  "Router_Spec args (OpRouter routes) = OpRouter_Spec args routes"
| "Router_Spec args (ScopeRouter root scopes) =
     concat (map (\<lambda>(name, scope). map (\<lambda>(n, ps). (name @ ''.'' @ n, ps)) (Router_Spec args scope)) scopes)
     @ filter (\<lambda>(n, ps). \<not> prefix ''.'' n) (Router_Spec args root)"
| "Router_Spec args _ = []"

definition NewApp :: "(string \<times> 'op option) list \<Rightarrow> 'op \<Rightarrow> ('op, 'w) router" where
  "NewApp methods specOp = ScopeRouter (OpRouter (snd (OpRouter_AddOp ''.spec'' specOp (NewOpRouter [methods])))) []"

subsection \<open>Adding to a priority router\<close>

definition PriorityRouter_Add :: "(('r \<times> int) list \<Rightarrow> ('r \<times> int) list) \<Rightarrow> 'r \<Rightarrow> int \<Rightarrow> ('r \<times> int) list \<Rightarrow> ('r \<times> int) list" where
  "PriorityRouter_Add sortFunc r prio entries = sortFunc (entries @ [(r, prio)])"

definition add_all :: "(('r \<times> int) list \<Rightarrow> ('r \<times> int) list) \<Rightarrow> ('r \<times> int) list \<Rightarrow> ('r \<times> int) list" where
  "add_all sortFunc added = foldl (\<lambda>es (r, prio). PriorityRouter_Add sortFunc r prio es) [] added"

locale sort_func =
  fixes sortFunc :: "('r \<times> int) list \<Rightarrow> ('r \<times> int) list"
  assumes sort_perm: "mset (sortFunc es) = mset es"
    and sort_order: "sorted (map snd (sortFunc es))"
begin

lemma add_all_inv: "mset (add_all sortFunc added) = mset added \<and> sorted (map snd (add_all sortFunc added))"
proof (induction added rule: rev_induct)
  case (snoc p added)
  then show ?case
    by (simp add: add_all_def PriorityRouter_Add_def sort_perm sort_order split: prod.splits)
qed (simp add: add_all_def)

lemma add_all_set: "set (add_all sortFunc added) = set added"
  using add_all_inv by (metis set_mset_mset)

end

interpretation stable_sort: sort_func "sort_key snd"
  by unfold_locales auto

subsection \<open>Priority order\<close>

definition decisive :: "'w answer \<Rightarrow> bool" where
  "decisive a = (case a of Inr _ \<Rightarrow> True | Inl e \<Rightarrow> is_rejected e)"

lemma route_entries_first:
  "(\<exists>r p es1 es2. es = es1 @ (r, p) # es2 \<and> decisive (RouteQuery serve r ctx q w) \<and>
      (\<forall>e \<in> set es1. \<not> decisive (RouteQuery serve (fst e) ctx q w)) \<and>
      route_entries serve es ctx q w = RouteQuery serve r ctx q w) \<or>
   (\<forall>e \<in> set es. \<not> decisive (RouteQuery serve (fst e) ctx q w)) \<and> route_entries serve es ctx q w = query_RouteNotFound"
proof (induction es)
  case (Cons e es)
  obtain r p where e: "e = (r, p)" by force
  show ?case
  proof (cases "decisive (RouteQuery serve r ctx q w)")
    case True
    then have "route_entries serve (e # es) ctx q w = RouteQuery serve r ctx q w"
      by (simp add: e decisive_def split: sum.splits)
    then show ?thesis using True e by (metis append_Nil empty_iff empty_set)
  next
    case False
    then have step: "route_entries serve (e # es) ctx q w = route_entries serve es ctx q w"
      by (simp add: e decisive_def split: sum.splits)
    from Cons show ?thesis
    proof (elim disjE exE conjE)
      fix r1 p1 es1 es2
      assume "es = es1 @ (r1, p1) # es2" "decisive (RouteQuery serve r1 ctx q w)"
        "\<forall>e\<in>set es1. \<not> decisive (RouteQuery serve (fst e) ctx q w)"
        "route_entries serve es ctx q w = RouteQuery serve r1 ctx q w"
      then show ?thesis using False e step by (intro disjI1 exI [of _ r1] exI [of _ p1] exI [of _ "e # es1"] exI [of _ es2]) simp
    qed (use False e step in simp)
  qed
qed simp

lemma sorted_split: "sorted (map snd (es1 @ (r, p) # es2)) \<Longrightarrow> (r1, p1) \<in> set (es1 @ (r, p) # es2) \<Longrightarrow> p1 < p \<Longrightarrow> (r1, p1) \<in> set es1"
  by (auto simp: sorted_append)

lemma priority_answer:
  assumes "sort_func sortFunc"
  shows "(\<exists>(r, p) \<in> set added. decisive (RouteQuery serve r ctx q w) \<and>
       (\<forall>(r1, p1) \<in> set added. p1 < p \<longrightarrow> \<not> decisive (RouteQuery serve r1 ctx q w)) \<and>
       RouteQuery serve (PriorityRouter name (add_all sortFunc added)) ctx q w = RouteQuery serve r ctx q w) \<or>
     (\<forall>(r, p) \<in> set added. \<not> decisive (RouteQuery serve r ctx q w)) \<and>
       RouteQuery serve (PriorityRouter name (add_all sortFunc added)) ctx q w = Inl ErrRouteNotFound"
proof -
  let ?es = "add_all sortFunc added"
  have set: "set ?es = set added" and ord: "sorted (map snd ?es)"
    using sort_func.add_all_set [OF assms] sort_func.add_all_inv [OF assms] by auto
  from route_entries_first [of ?es serve ctx q w] show ?thesis
  proof (elim disjE exE conjE)
    fix r p es1 es2
    assume es: "?es = es1 @ (r, p) # es2" and d: "decisive (RouteQuery serve r ctx q w)"
      and before: "\<forall>e\<in>set es1. \<not> decisive (RouteQuery serve (fst e) ctx q w)"
      and ans: "route_entries serve ?es ctx q w = RouteQuery serve r ctx q w"
    have "\<not> decisive (RouteQuery serve r1 ctx q w)" if "(r1, p1) \<in> set added" "p1 < p" for r1 p1
      using sorted_split [of es1 r p es2 r1 p1] ord set that before unfolding es by force
    moreover have "(r, p) \<in> set added" using set es by (metis in_set_conv_decomp)
    ultimately show ?thesis using d ans by (intro disjI1 bexI [of _ "(r, p)"]) auto
  next
    assume "\<forall>e\<in>set ?es. \<not> decisive (RouteQuery serve (fst e) ctx q w)"
      "route_entries serve ?es ctx q w = query_RouteNotFound"
    then show ?thesis using set by (intro disjI2) (auto simp: query_RouteNotFound_def)
  qed
qed

subsection \<open>Scopes\<close>

lemma Parse_append:
  assumes "CHR ''?'' \<notin> set p"
  shows "Parse (p @ s) = (p @ fst (Parse s), snd (Parse s))"
proof -
  have "index_byte (p @ s) CHR ''?'' = map_option (\<lambda>i. length p + i) (index_byte s CHR ''?'')"
    using assms by (induction p) (cases "index_byte s CHR ''?''"; auto)+
  then have "splitPathParams (p @ s) = (p @ fst (splitPathParams s), snd (splitPathParams s))"
    by (auto simp: splitPathParams_def split: option.splits)
  then show ?thesis by (simp add: Parse_def split: prod.splits)
qed

lemma Parse_path: "\<exists>rest. s = fst (Parse s) @ rest \<and> CHR ''?'' \<notin> set (fst (Parse s))"
proof (cases "index_byte s CHR ''?''")
  case None
  then have "fst (Parse s) = s" by (simp add: Parse_def splitPathParams_def split: prod.splits)
  then show ?thesis using None by (simp add: index_byte_None)
next
  case (Some i)
  then have "fst (Parse s) = take i s" by (simp add: Parse_def splitPathParams_def split: prod.splits)
  then show ?thesis using index_byte_Some [OF Some] by (intro exI [of _ "drop i s"]) simp
qed

lemma Parse_scoped:
  assumes "scope_of (fst (Parse s)) = Some (idx, name)"
  shows "Parse (drop (idx + 1) s) = (drop (idx + 1) (fst (Parse s)), snd (Parse s))"
    and "fst (Parse s) = name @ CHR ''.'' # drop (idx + 1) (fst (Parse s))" and "CHR ''.'' \<notin> set name"
proof -
  have ib: "index_byte (fst (Parse s)) CHR ''.'' = Some idx" and name: "name = take idx (fst (Parse s))"
    using assms by (auto simp: scope_of_def)
  note idx = index_byte_Some [OF ib]
  let ?p = "take (idx + 1) (fst (Parse s))"
  obtain rest where rest: "s = fst (Parse s) @ rest" "CHR ''?'' \<notin> set (fst (Parse s))" using Parse_path by blast
  then have "s = ?p @ drop (idx + 1) s" using idx
    by (metis (no_types, lifting) append_take_drop_id le_less_Suc_eq less_Suc_eq_le nat_less_le Suc_eq_plus1 take_append take_all_iff append.right_neutral diff_is_0_eq' take0 Suc_leI)
  moreover have "CHR ''?'' \<notin> set ?p" using rest(2) by (meson in_set_takeD)
  ultimately have "Parse s = (?p @ fst (Parse (drop (idx + 1) s)), snd (Parse (drop (idx + 1) s)))"
    using Parse_append by metis
  moreover have "length ?p = idx + 1" using idx by simp
  ultimately show "Parse (drop (idx + 1) s) = (drop (idx + 1) (fst (Parse s)), snd (Parse s))"
    by (metis append_eq_conv_conj fst_conv prod.collapse snd_conv)
  show "fst (Parse s) = name @ CHR ''.'' # drop (idx + 1) (fst (Parse s))" "CHR ''.'' \<notin> set name"
    using idx name by simp_all
qed

lemma copy_extra_other:
  "Nonce (copy_extra xs rq) = Nonce rq \<and> Caller (copy_extra xs rq) = Caller rq \<and>
     Target (copy_extra xs rq) = Target rq \<and> QueryString (copy_extra xs rq) = QueryString rq"
  by (induction xs arbitrary: rq) (auto simp: copy_extra_def)

lemma copy_extra_lookup:
  "map_inv xs \<Longrightarrow> map_inv (Extra rq) \<Longrightarrow> fst ` set xs \<inter> fst ` set (Extra rq) = {} \<Longrightarrow>
     Extra (copy_extra xs rq) = Extra rq @ xs"
proof (induction xs arbitrary: rq)
  case (Cons x xs)
  obtain k v where x: "x = (k, v)" by force
  have fresh: "map_of (Extra rq) k = None" using Cons.prems(3) x by (auto simp: map_of_eq_None_iff)
  let ?rq = "rq\<lparr>Extra := Extra rq @ [(k, v)]\<rparr>"
  have "Extra (copy_extra xs ?rq) = Extra ?rq @ xs"
    using Cons.prems x by (intro Cons.IH) (auto simp: map_inv_def)
  then show ?case using fresh x by (simp add: copy_extra_def Map_Set_def)
qed (simp add: copy_extra_def)

lemma Map_Clone_inv: "map_inv (Map_Clone m)"
proof -
  have "map_inv c \<Longrightarrow> map_inv (fold (\<lambda>(k, v) c. AList.update k v c) m c)" for c
    by (induction m arbitrary: c) (auto simp: map_inv_def distinct_update)
  then show ?thesis by (simp add: Map_Clone_def map_inv_def)
qed

text \<open>What a query keeps on its way down: everything but its path.\<close>

definition same_call :: "in_flight \<Rightarrow> in_flight \<Rightarrow> bool" where
  "same_call q r \<longleftrightarrow> Nonce r = Nonce q \<and> Caller r = Caller q \<and> Target r = Target q \<and>
     Map_Get (Extra r) = Map_Get (Extra q) \<and> snd (Parse (QueryString r)) = snd (Parse (QueryString q))"

lemma scoped_query_inv: "map_inv (Extra q) \<Longrightarrow> map_inv (Extra (scoped_query idx q))"
  and scoped_query_call:
    "map_inv (Extra q) \<Longrightarrow> scope_of (fst (Parse (QueryString q))) = Some (idx, name) \<Longrightarrow>
       same_call q (scoped_query idx q) \<and>
       fst (Parse (QueryString (scoped_query idx q))) = drop (idx + 1) (fst (Parse (QueryString q)))"
proof -
  assume inv: "map_inv (Extra q)"
  let ?rq = "Launch (Nonce q) (Caller q) (Target q) (drop (idx + 1) (QueryString q))"
  have ex: "Extra (scoped_query idx q) = Map_Clone (Extra q)"
    using copy_extra_lookup [of "Map_Clone (Extra q)" ?rq] Map_Clone_inv [of "Extra q"]
    by (simp add: scoped_query_def Launch_def map_inv_def)
  then show "map_inv (Extra (scoped_query idx q))" using Map_Clone_inv by simp
  have qs: "QueryString (scoped_query idx q) = drop (idx + 1) (QueryString q)"
    using copy_extra_other [of "Map_Clone (Extra q)" ?rq] by (simp add: scoped_query_def Launch_def)
  assume "scope_of (fst (Parse (QueryString q))) = Some (idx, name)"
  from Parse_scoped(1) [OF this] show "same_call q (scoped_query idx q) \<and>
      fst (Parse (QueryString (scoped_query idx q))) = drop (idx + 1) (fst (Parse (QueryString q)))"
    using qs ex Map_Clone_lookup [OF inv] copy_extra_other [of "Map_Clone (Extra q)" ?rq]
    by (simp add: same_call_def scoped_query_def Launch_def)
qed

lemma same_call_trans: "same_call a b \<Longrightarrow> same_call b c \<Longrightarrow> same_call a c"
  by (simp add: same_call_def)

text \<open>
  What the tree of op and scope routers stands for: a finite map from dotted paths to ops.
  \<open>op_tree\<close> are the trees built of these two routers.
\<close>

fun op_tree :: "('op, 'w) router \<Rightarrow> bool" where
  "op_tree (OpRouter routes) \<longleftrightarrow> True"
| "op_tree (ScopeRouter root scopes) \<longleftrightarrow> op_tree root \<and> (\<forall>s \<in> set scopes. op_tree (snd s))"
| "op_tree _ \<longleftrightarrow> False"

function (sequential) op_at :: "('op, 'w) router \<Rightarrow> string \<Rightarrow> 'op option" where
  "op_at (OpRouter routes) name = map_of routes name"
| "op_at (ScopeRouter root scopes) name =
     (case scope_of name of
        None \<Rightarrow> op_at root name
      | Some (idx, scopeName) \<Rightarrow>
          (case map_of scopes scopeName of
             Some scope \<Rightarrow> op_at scope (drop (idx + 1) name)
           | None \<Rightarrow> op_at root name))"
| "op_at _ name = None"
  by pat_completeness auto
termination
  by (relation "measure (\<lambda>(r, _). size r)") (auto dest!: size_scope [where n = 0])

lemma HasRoute_op_at: "HasRoute r name \<longleftrightarrow> op_at r name \<noteq> None"
  by (induction r name rule: HasRoute.induct) (auto simp: OpRouter_HasRoute_def Map_Get_def split: option.splits)

lemma op_tree_scope: "op_tree (ScopeRouter root scopes) \<Longrightarrow> map_of scopes name = Some scope \<Longrightarrow> op_tree scope"
  by (induction scopes) (auto split: if_splits)

lemma route_refines:
  "op_tree r \<Longrightarrow> map_inv (Extra q) \<Longrightarrow>
     (case op_at r (fst (Parse (QueryString q))) of
        None \<Rightarrow> RouteQuery serve r ctx q w = Inl ErrRouteNotFound
      | Some op \<Rightarrow> \<exists>q1. RouteQuery serve r ctx q w = serve op ctx q1 w \<and> same_call q q1)"
proof (induction r "fst (Parse (QueryString q))" arbitrary: q rule: op_at.induct)
  case (1 routes)
  then show ?case by (auto simp: OpRouter_RouteQuery_def same_call_def Map_Get_def query_RouteNotFound_def split: option.splits)
next
  case (2 root scopes)
  show ?case
  proof (cases "scope_of (fst (Parse (QueryString q)))")
    case None
    then have "op_at (ScopeRouter root scopes) (fst (Parse (QueryString q))) = op_at root (fst (Parse (QueryString q)))"
      "RouteQuery serve (ScopeRouter root scopes) ctx q w = RouteQuery serve root ctx q w" by simp_all
    note eqs = this
    have "op_tree root" using 2(4) by simp
    then show ?thesis unfolding eqs by (rule 2(1) [OF None refl _ 2(5)])
  next
    case (Some p)
    then obtain idx name where p: "scope_of (fst (Parse (QueryString q))) = Some (idx, name)" by (cases p) auto
    show ?thesis
    proof (cases "map_of scopes name")
      case None
      then have "op_at (ScopeRouter root scopes) (fst (Parse (QueryString q))) = op_at root (fst (Parse (QueryString q)))"
        "RouteQuery serve (ScopeRouter root scopes) ctx q w = RouteQuery serve root ctx q w" using p by simp_all
      note eqs = this
      have "op_tree root" using 2(4) by simp
      then show ?thesis unfolding eqs by (rule 2(2) [OF p refl None refl _ 2(5)])
    next
      case (Some scope)
      let ?q = "scoped_query idx q"
      note call = scoped_query_call [OF 2(5) p]
      have IH: "case op_at scope (fst (Parse (QueryString ?q))) of
          None \<Rightarrow> RouteQuery serve scope ctx ?q w = Inl ErrRouteNotFound
        | Some op \<Rightarrow> \<exists>q1. RouteQuery serve scope ctx ?q w = serve op ctx q1 w \<and> same_call ?q q1"
        by (rule 2(3) [OF p refl Some _ op_tree_scope [OF 2(4) Some] scoped_query_inv [OF 2(5)]])
          (rule conjunct2 [OF call, symmetric])
      have "op_at (ScopeRouter root scopes) (fst (Parse (QueryString q))) = op_at scope (fst (Parse (QueryString ?q)))"
        "RouteQuery serve (ScopeRouter root scopes) ctx q w = RouteQuery serve scope ctx ?q w"
        using p Some call by simp_all
      then show ?thesis using IH call same_call_trans [of q ?q] by (auto split: option.splits)
    qed
  qed
qed simp_all

text \<open>
  A listing is honest when no scope's name holds a dot and the root lists nothing under the
  name of a scope.
\<close>

fun spec_ok :: "('op, 'w) router \<Rightarrow> bool" where
  "spec_ok (OpRouter routes) \<longleftrightarrow> map_inv routes"
| "spec_ok (ScopeRouter root scopes) \<longleftrightarrow>
     map_inv scopes \<and> spec_ok root \<and> (\<forall>s \<in> set scopes. CHR ''.'' \<notin> set (fst s) \<and> spec_ok (snd s)) \<and>
     (\<forall>n \<in> fst ` set (Router_Spec (\<lambda>_. []) root).
        case scope_of n of None \<Rightarrow> True | Some (_, name) \<Rightarrow> name \<notin> fst ` set scopes)"
| "spec_ok _ \<longleftrightarrow> True"

lemma spec_names: "fst ` set (Router_Spec args r) = fst ` set (Router_Spec args1 r)"
proof (induction args r rule: Router_Spec.induct)
  case (1 args routes)
  show ?case by (simp add: OpRouter_Spec_def spec_entry_def image_image)
next
  case (2 args root scopes)
  have names: "fst ` set (Router_Spec a (ScopeRouter root scopes)) =
      (\<Union>s \<in> set scopes. (\<lambda>n. fst s @ CHR ''.'' # n) ` fst ` set (Router_Spec a (snd s)))
      \<union> {n \<in> fst ` set (Router_Spec a root). \<not> prefix ''.'' n}" for a
    by (auto simp: image_Un image_UN image_image case_prod_unfold)
  have "fst ` set (Router_Spec args (snd s)) = fst ` set (Router_Spec args1 (snd s))" if "s \<in> set scopes" for s
    using 2(1) [of s "fst s" "snd s"] that by simp
  then show ?case unfolding names 2(2) by simp
qed simp_all

lemma scope_of_dotted: "CHR ''.'' \<notin> set name \<Longrightarrow> scope_of (name @ CHR ''.'' # n) = Some (length name, name)"
  by (simp add: scope_of_def)

lemma spec_listed:
  "spec_ok r \<Longrightarrow> (n, ps) \<in> set (Router_Spec args r) \<Longrightarrow>
     \<exists>op. op_at r n = Some op \<and> ps = snd (spec_entry args (n, op))"
proof (induction args r arbitrary: n ps rule: Router_Spec.induct)
  case (1 args routes)
  then show ?case by (force simp: OpRouter_Spec_def spec_entry_def map_inv_def)
next
  case (2 args root scopes)
  from 2(4) consider (scope) name scope m where "(name, scope) \<in> set scopes" "(m, ps) \<in> set (Router_Spec args scope)" "n = name @ CHR ''.'' # m"
    | (root) "(n, ps) \<in> set (Router_Spec args root)" by auto
  then show ?case
  proof cases
    case scope
    then have "map_of scopes name = Some scope" "CHR ''.'' \<notin> set name" "spec_ok scope" using 2(3) by (auto simp: map_inv_def)
    moreover have "\<exists>op. op_at scope m = Some op \<and> ps = snd (spec_entry args (m, op))"
      using 2(1) [OF scope(1) refl] scope(2) \<open>spec_ok scope\<close> by blast
    ultimately show ?thesis using scope(3) by (simp add: scope_of_dotted spec_entry_def)
  next
    case root
    then have "n \<in> fst ` set (Router_Spec (\<lambda>_. []) root)" using spec_names by force
    then have "case scope_of n of None \<Rightarrow> True | Some (_, name) \<Rightarrow> map_of scopes name = None"
      using 2(3) unfolding spec_ok.simps by (fastforce simp: map_of_eq_None_iff split: option.splits)
    then have "op_at (ScopeRouter root scopes) n = op_at root n" by (auto split: option.splits)
    moreover have "spec_ok root" using 2(3) by simp
    ultimately show ?thesis using 2(2) [of n ps] root by simp
  qed
qed simp_all

end
