(* ===== verification/Incoming.thy ===== *)
theory Incoming
  imports Routing
begin

text \<open>
  Serving one query: \<^verbatim>\<open>src/lib/routing/incoming_query.go\<close>, \<^verbatim>\<open>op.go\<close>, \<^verbatim>\<open>conn.go\<close> and \<^verbatim>\<open>error_conn.go\<close>.

  \<^verbatim>\<open>Op.RouteQuery\<close> runs the op in a goroutine of its own while the caller waits for the answer, the
  end of its context or the deadline.  The shared state is the \<^verbatim>\<open>IncomingQuery\<close>: each of its
  methods is one step, because the first thing it does is the compare-and-swap of \<open>resolved\<close>,
  and the send that follows goes to a channel with room for one.  A step relation interleaves
  the goroutine with the waiting caller.
\<close>

subsection \<open>The incoming query\<close>

datatype response = RespAccepted | RespError route_error

datatype pipe_end = PipeOpen | PipeClosed string

text \<open>
  \<open>response\<close> is the buffered channel, \<open>sends\<close> counts the sends on it; \<open>accepted\<close> says \<^verbatim>\<open>AcceptRaw\<close>
  has kept the read half of the pipe and it is not torn down, \<open>read_half\<close> is that half (None
  before an accept) and \<open>remote_closed\<close> says the reply direction was closed.
\<close>

record incoming =
  resolved :: bool
  response :: "response list"
  sends :: nat
  accepted :: bool
  read_half :: "pipe_end option"
  remote_closed :: bool

definition NewIncomingQuery :: incoming where
  "NewIncomingQuery = \<lparr>resolved = False, response = [], sends = 0, accepted = False, read_half = None, remote_closed = False\<rparr>"

definition send_response :: "response \<Rightarrow> incoming \<Rightarrow> incoming" where
  "send_response r q = q\<lparr>response := response q @ [r], sends := sends q + 1\<rparr>"

definition AcceptRaw :: "incoming \<Rightarrow> bool \<times> incoming" where
  "AcceptRaw q =
     (if resolved q then (False, q)
      else (True, send_response RespAccepted (q\<lparr>resolved := True, accepted := True, read_half := Some PipeOpen\<rparr>)))"

definition Incoming_Reject :: "incoming \<Rightarrow> error option \<times> incoming" where
  "Incoming_Reject q =
     (if resolved q then (Some (ErrMsg ''query already resolved''), q)
      else (None, send_response (RespError (ErrRejected DefaultRejectCode)) (q\<lparr>resolved := True\<rparr>)))"

definition Incoming_RejectWithCode :: "8 word \<Rightarrow> incoming \<Rightarrow> error option \<times> incoming" where
  "Incoming_RejectWithCode code q =
     (if resolved q then (Some (ErrMsg ''query already resolved''), q)
      else (None, send_response (RespError (NewErrRejected (if code = 0 then 1 else code))) (q\<lparr>resolved := True\<rparr>)))"

text \<open>A pipe keeps the first error it was closed with.\<close>

definition close_half :: "string \<Rightarrow> incoming \<Rightarrow> incoming" where
  "close_half cause q =
     q\<lparr>read_half := (case read_half q of Some PipeOpen \<Rightarrow> Some (PipeClosed cause) | h \<Rightarrow> h)\<rparr>"

definition abandon :: "string \<Rightarrow> incoming \<Rightarrow> incoming" where
  "abandon cause q =
     (if \<not> accepted q then q
      else (close_half cause (q\<lparr>accepted := False\<rparr>))\<lparr>remote_closed := True\<rparr>)"

text \<open>\<^verbatim>\<open>Conn.Close\<close> closes the read half and then the write half.\<close>

definition Conn_Close :: "incoming \<Rightarrow> incoming" where
  "Conn_Close q = (close_half ''closed pipe'' q)\<lparr>remote_closed := True\<rparr>"

subsection \<open>Ops\<close>

text \<open>
  What an op does with its query, in order, and how it ends.  A connection that \<^verbatim>\<open>AcceptRaw\<close>
  refused is an \<^verbatim>\<open>ErrorConn\<close>: sending on it fails and closing it does nothing.  \<open>OpNever ms\<close> is an op that
  never returns: it sends \<open>ms\<close> over and over, and with \<open>ms = []\<close> it hangs.
\<close>

datatype action = DoAccept | DoReject | DoRejectWithCode "8 word" | DoSend string | DoClose

datatype op_end = OpReturns "string option" | OpPanics string | OpNever "string list"

type_synonym op_run = "action list \<times> op_end"

text \<open>An op: the fields of its argument struct, if it has one, and its function.\<close>

record op =
  argType :: "structField list option"
  opFunc :: "qfield list option \<Rightarrow> op_run"

record signature =
  sig_func :: bool
  sig_in :: nat
  sig_ctx :: bool
  sig_query :: bool
  sig_error :: bool
  sig_arg :: "structField list option"

text \<open>\<^verbatim>\<open>NewOp\<close>: \<open>sig_arg\<close> is the struct the third argument is, or points to.\<close>

definition NewOp :: "signature \<Rightarrow> (qfield list option \<Rightarrow> op_run) \<Rightarrow> op res" where
  "NewOp t f =
     (if \<not> sig_func t then Inl (ErrMsg ''fn must be a function'')
      else if sig_in t \<noteq> 2 \<and> sig_in t \<noteq> 3 then Inl (ErrMsg ''invalid function signature'')
      else if \<not> sig_ctx t \<or> \<not> sig_query t \<or> \<not> sig_error t then Inl (ErrMsg ''invalid function signature'')
      else if sig_in t = 3 then
        (case sig_arg t of
           None \<Rightarrow> Inl (ErrMsg ''invalid function signature'')
         | Some fs \<Rightarrow> Inr \<lparr>argType = Some fs, opFunc = f\<rparr>)
      else Inr \<lparr>argType = None, opFunc = f\<rparr>)"

definition ArgumentSpecs :: "text_types \<Rightarrow> op \<Rightarrow> (string \<times> string \<times> bool) list" where
  "ArgumentSpecs tt op = (case argType op of None \<Rightarrow> [] | Some sfs \<Rightarrow> Editor_Spec tt (editValue False sfs))"

definition speaksChannel :: "text_types \<Rightarrow> op \<Rightarrow> bool" where
  "speaksChannel tt op = list_ex (\<lambda>(n, _). n = ''in'' \<or> n = ''out'') (ArgumentSpecs tt op)"

text \<open>The parameters of a query, each key once, as \<^verbatim>\<open>query.Parse\<close> yields them.\<close>

definition params_of :: "string \<Rightarrow> (string \<times> string) list" where
  "params_of s =
     (case ParseQuery (snd (splitPathParams s)) of (ps, err) \<Rightarrow> if err then [] else first_values ps)"

datatype arg_error = BadValue string error | Missing "string list" "string list" bool

definition bind_args :: "text_types \<Rightarrow> structField list \<Rightarrow> (string \<times> string) list \<Rightarrow> arg_error + qfield list" where
  "bind_args tt sfs params =
     (case Editor_SetMany tt params (editValue False sfs) of
        (Some (key, e), _) \<Rightarrow> Inl (BadValue key e)
      | (None, arg) \<Rightarrow>
          (case checkRequired tt (editValue False sfs) params of
             None \<Rightarrow> Inr arg
           | Some (missing, unknown, cut_off) \<Rightarrow> Inl (Missing missing unknown cut_off)))"

text \<open>\<open>err_text\<close> prints an argument error; it is the text of the \<^verbatim>\<open>error_message\<close> the caller reads.\<close>

definition invoke :: "text_types \<Rightarrow> (arg_error \<Rightarrow> string) \<Rightarrow> op \<Rightarrow> string \<Rightarrow> op_run" where
  "invoke tt err_text op qs =
     (case argType op of
        None \<Rightarrow> opFunc op None
      | Some sfs \<Rightarrow>
          (case bind_args tt sfs (params_of qs) of
             Inl err \<Rightarrow>
               if speaksChannel tt op then ([DoAccept, DoSend (err_text err), DoClose], OpReturns (Some (err_text err)))
               else ([DoRejectWithCode CodeInvalidQuery], OpReturns (Some (err_text err)))
           | Inr arg \<Rightarrow> opFunc op (Some arg)))"

subsection \<open>The goroutine and the caller\<close>

datatype phase = Running "action list" op_end | Rejecting string | Abandoning string | Deferred | Finished

datatype caller = Waiting | Answered "unit answer"

record serving =
  iq :: incoming
  phase :: phase
  holds_conn :: bool
  sent :: "string list"
  caller :: caller

definition do_action :: "action \<Rightarrow> serving \<Rightarrow> serving" where
  "do_action a s =
     (case a of
        DoAccept \<Rightarrow> (case AcceptRaw (iq s) of (ok, q) \<Rightarrow> s\<lparr>iq := q, holds_conn := ok\<rparr>)
      | DoReject \<Rightarrow> s\<lparr>iq := snd (Incoming_Reject (iq s))\<rparr>
      | DoRejectWithCode c \<Rightarrow> s\<lparr>iq := snd (Incoming_RejectWithCode c (iq s))\<rparr>
      | DoSend m \<Rightarrow> (if holds_conn s \<and> \<not> remote_closed (iq s) then s\<lparr>sent := sent s @ [m]\<rparr> else s)
      | DoClose \<Rightarrow> (if holds_conn s then s\<lparr>iq := Conn_Close (iq s)\<rparr> else s))"

text \<open>One step of the goroutine of \<^verbatim>\<open>RouteQuery\<close>; None when it has ended.\<close>

fun op_step :: "serving \<Rightarrow> serving option" where
  "op_step s =
     (case phase s of
        Running (a # acts) e \<Rightarrow> Some ((do_action a s)\<lparr>phase := Running acts e\<rparr>)
      | Running [] (OpReturns _) \<Rightarrow> Some (s\<lparr>phase := Deferred\<rparr>)
      | Running [] (OpPanics v) \<Rightarrow> Some (s\<lparr>phase := Rejecting v\<rparr>)
      | Running [] (OpNever ms) \<Rightarrow> Some (s\<lparr>phase := Running (map DoSend ms) (OpNever ms)\<rparr>)
      | Rejecting v \<Rightarrow> Some (s\<lparr>iq := snd (Incoming_RejectWithCode CodeInternalError (iq s)), phase := Abandoning v\<rparr>)
      | Abandoning v \<Rightarrow> Some (s\<lparr>iq := abandon v (iq s), phase := Deferred\<rparr>)
      | Deferred \<Rightarrow> Some (s\<lparr>iq := snd (Incoming_RejectWithCode CodeInternalError (iq s)), phase := Finished\<rparr>)
      | Finished \<Rightarrow> None)"

definition answer_of :: "response \<Rightarrow> unit answer" where
  "answer_of r = (case r of RespAccepted \<Rightarrow> Inr () | RespError e \<Rightarrow> Inl e)"

text \<open>The three ways \<^verbatim>\<open>await\<close> ends: a response is there, the context is done, the deadline passed.\<close>

definition await_response :: "serving \<Rightarrow> serving option" where
  "await_response s =
     (case (caller s, response (iq s)) of
        (Waiting, r # rs) \<Rightarrow> Some (s\<lparr>iq := (iq s)\<lparr>response := rs\<rparr>, caller := Answered (answer_of r)\<rparr>)
      | _ \<Rightarrow> None)"

definition await_cancel :: "serving \<Rightarrow> serving option" where
  "await_cancel s =
     (if caller s = Waiting
      then Some (s\<lparr>iq := snd (Incoming_Reject (iq s)), caller := Answered (Inl (NewErrRejected CodeCanceled))\<rparr>)
      else None)"

definition await_timeout :: "serving \<Rightarrow> serving option" where
  "await_timeout s =
     (if caller s = Waiting
      then Some (s\<lparr>iq := snd (Incoming_RejectWithCode CodeTimeout (iq s)), caller := Answered (Inl (NewErrRejected CodeTimeout))\<rparr>)
      else None)"

definition serve_start :: "op_run \<Rightarrow> serving" where
  "serve_start run =
     \<lparr>iq = NewIncomingQuery, phase = Running (fst run) (snd run), holds_conn = False, sent = [], caller = Waiting\<rparr>"

inductive serve_step :: "serving \<Rightarrow> serving \<Rightarrow> bool" where
  step_op: "op_step s = Some s1 \<Longrightarrow> serve_step s s1"
| step_response: "await_response s = Some s1 \<Longrightarrow> serve_step s s1"
| step_cancel: "await_cancel s = Some s1 \<Longrightarrow> serve_step s s1"
| step_timeout: "await_timeout s = Some s1 \<Longrightarrow> serve_step s s1"

inductive serving_reachable :: "op_run \<Rightarrow> serving \<Rightarrow> bool" for run where
  reach_start: "serving_reachable run (serve_start run)"
| reach_step: "serving_reachable run s \<Longrightarrow> serve_step s s1 \<Longrightarrow> serving_reachable run s1"

inductive_cases serve_stepE: "serve_step s s1"

subsection \<open>What the caller is told\<close>

text \<open>The answer an op's actions call for: the first one that resolves the query, else an internal error.\<close>

fun verdict :: "action list \<Rightarrow> unit answer" where
  "verdict [] = Inl (ErrRejected CodeInternalError)"
| "verdict (DoAccept # acts) = Inr ()"
| "verdict (DoReject # acts) = Inl (ErrRejected DefaultRejectCode)"
| "verdict (DoRejectWithCode c # acts) = Inl (ErrRejected (if c = 0 then 1 else c))"
| "verdict (_ # acts) = verdict acts"

lemma verdict_sends [simp]: "verdict (map DoSend ms) = Inl (ErrRejected CodeInternalError)"
  by (induction ms) simp_all

text \<open>The actions that resolve a query.\<close>

definition resolving :: "action \<Rightarrow> bool" where
  "resolving a = (case a of DoSend m \<Rightarrow> False | DoClose \<Rightarrow> False | _ \<Rightarrow> True)"

definition resolves :: "action list \<Rightarrow> bool" where
  "resolves acts \<longleftrightarrow> list_ex resolving acts"

definition pending :: "phase \<Rightarrow> unit answer" where
  "pending p = (case p of Running acts _ \<Rightarrow> verdict acts | _ \<Rightarrow> Inl (ErrRejected CodeInternalError))"

text \<open>
  The invariant of a served query: sends and channel contents agree with \<open>resolved\<close>; a waiting
  caller will find the op's verdict; an op that ended has resolved its query, and one that
  panicked has left no pipe open.
\<close>

definition phase_ok :: "op_end \<Rightarrow> phase \<Rightarrow> incoming \<Rightarrow> bool" where
  "phase_ok e p q \<longleftrightarrow>
     (case p of
        Running acts e1 \<Rightarrow> e1 = e
      | Rejecting v \<Rightarrow> e = OpPanics v
      | Abandoning v \<Rightarrow> e = OpPanics v \<and> resolved q
      | Deferred \<Rightarrow> (\<forall>ms. e \<noteq> OpNever ms) \<and> ((\<exists>v. e = OpPanics v) \<longrightarrow> resolved q \<and> \<not> accepted q)
      | Finished \<Rightarrow> (\<forall>ms. e \<noteq> OpNever ms) \<and> resolved q \<and> ((\<exists>v. e = OpPanics v) \<longrightarrow> \<not> accepted q))"

definition caller_ok :: "unit answer \<Rightarrow> phase \<Rightarrow> incoming \<Rightarrow> caller \<Rightarrow> bool" where
  "caller_ok v p q c \<longleftrightarrow>
     (case c of
        Waiting \<Rightarrow> if resolved q then map answer_of (response q) = [v] else pending p = v
      | Answered a \<Rightarrow> resolved q \<and> a \<in> {v, Inl (ErrRejected CodeCanceled), Inl (ErrRejected CodeTimeout)})"

definition channel_ok :: "incoming \<Rightarrow> bool" where
  "channel_ok q \<longleftrightarrow> sends q = (if resolved q then 1 else 0) \<and> length (response q) \<le> sends q \<and>
     (read_half q = Some PipeOpen \<longrightarrow> accepted q) \<and> (accepted q \<longrightarrow> resolved q)"

definition serving_inv :: "op_run \<Rightarrow> serving \<Rightarrow> bool" where
  "serving_inv run s \<longleftrightarrow>
     channel_ok (iq s) \<and> caller_ok (verdict (fst run)) (phase s) (iq s) (caller s) \<and> phase_ok (snd run) (phase s) (iq s)"

lemmas incoming_defs = AcceptRaw_def Incoming_Reject_def Incoming_RejectWithCode_def send_response_def abandon_def
  close_half_def Conn_Close_def

lemma codes_nonzero [simp]: "CodeCanceled \<noteq> 0" "CodeTimeout \<noteq> 0" "CodeInternalError \<noteq> 0" "CodeInvalidQuery \<noteq> 0"
  by (simp_all add: CodeCanceled_def CodeTimeout_def CodeInternalError_def CodeInvalidQuery_def)

lemma serving_inv_start: "serving_inv run (serve_start run)"
  by (simp add: serving_inv_def channel_ok_def caller_ok_def phase_ok_def serve_start_def NewIncomingQuery_def pending_def)

text \<open>Each method keeps the channel in step with \<open>resolved\<close>.\<close>

lemma channel_ok_methods:
  assumes "channel_ok q"
  shows "channel_ok (snd (AcceptRaw q))" "channel_ok (snd (Incoming_Reject q))"
    "channel_ok (snd (Incoming_RejectWithCode c q))" "channel_ok (abandon v q)" "channel_ok (Conn_Close q)"
  using assms by (auto simp: channel_ok_def incoming_defs split: option.splits pipe_end.splits)

text \<open>A method that resolves the query leaves a waiting caller its answer; a resolved query stays as it is.\<close>

lemma methods_resolved:
  "resolved q \<Longrightarrow> snd (AcceptRaw q) = q" "resolved q \<Longrightarrow> snd (Incoming_Reject q) = q"
  "resolved q \<Longrightarrow> snd (Incoming_RejectWithCode c q) = q"
  "resolved (snd (AcceptRaw q))" "resolved (snd (Incoming_Reject q))" "resolved (snd (Incoming_RejectWithCode c q))"
  by (auto simp: incoming_defs)

lemma methods_keep [simp]:
  "resolved (abandon v q) = resolved q" "response (abandon v q) = response q" "\<not> accepted (abandon v q)"
  "resolved (Conn_Close q) = resolved q" "response (Conn_Close q) = response q" "accepted (Conn_Close q) = accepted q"
  by (auto simp: incoming_defs)

lemma methods_answer:
  assumes "\<not> resolved q" "channel_ok q"
  shows "map answer_of (response (snd (AcceptRaw q))) = [Inr ()]"
    "map answer_of (response (snd (Incoming_Reject q))) = [Inl (ErrRejected DefaultRejectCode)]"
    "map answer_of (response (snd (Incoming_RejectWithCode c q))) = [Inl (ErrRejected (if c = 0 then 1 else c))]"
  using assms by (auto simp: channel_ok_def incoming_defs answer_of_def NewErrRejected_def)

lemma methods_accepted:
  assumes "channel_ok q"
  shows "accepted (snd (Incoming_Reject q)) = accepted q" "accepted (snd (Incoming_RejectWithCode c q)) = accepted q"
  using assms by (auto simp: channel_ok_def incoming_defs)

lemma phase_ok_reject:
  assumes "channel_ok q" "phase_ok e p q"
  shows "phase_ok e p (snd (Incoming_Reject q))" "phase_ok e p (snd (Incoming_RejectWithCode c q))"
  using assms methods_accepted [OF assms(1)] methods_resolved by (auto simp: phase_ok_def split: phase.splits)

lemma inv_response: "serving_inv run s \<Longrightarrow> await_response s = Some s1 \<Longrightarrow> serving_inv run s1"
  by (cases "caller s"; cases "response (iq s)"; cases "phase s")
    (auto simp: serving_inv_def channel_ok_def caller_ok_def phase_ok_def await_response_def split: if_splits)

lemma inv_cancel: "serving_inv run s \<Longrightarrow> await_cancel s = Some s1 \<Longrightarrow> serving_inv run s1"
  using channel_ok_methods(2) [of "iq s"] phase_ok_reject(1) [of "iq s"] methods_resolved(5) [of "iq s"]
  by (auto simp: serving_inv_def await_cancel_def caller_ok_def NewErrRejected_def split: if_splits)

lemma inv_timeout: "serving_inv run s \<Longrightarrow> await_timeout s = Some s1 \<Longrightarrow> serving_inv run s1"
  using channel_ok_methods(3) [of "iq s"] phase_ok_reject(2) [of "iq s"] methods_resolved(6) [of _ "iq s"]
  by (auto simp: serving_inv_def await_timeout_def caller_ok_def NewErrRejected_def split: if_splits)

text \<open>The caller's part of the invariant under a method of the goroutine that answers \<open>v\<close> when it is the first.\<close>

lemma caller_ok_method:
  assumes "caller_ok v p q c" "channel_ok q" "resolved q \<Longrightarrow> f q = q" "resolved (f q)"
    and "\<not> resolved q \<Longrightarrow> map answer_of (response (f q)) = [pending p]"
  shows "caller_ok v p1 (f q) c"
  using assms by (cases "resolved q") (auto simp: caller_ok_def split: caller.splits)

lemma inv_action:
  assumes inv: "serving_inv run s" and ph: "phase s = Running (a # acts) e"
  shows "serving_inv run ((do_action a s)\<lparr>phase := Running acts e\<rparr>)"
proof -
  have ch: "channel_ok (iq s)" and ca: "caller_ok (verdict (fst run)) (Running (a # acts) e) (iq s) (caller s)"
    and e: "e = snd run" using inv ph unfolding serving_inv_def phase_ok_def by auto
  note rules = channel_ok_methods [OF ch] methods_resolved methods_answer [OF _ ch]
  show ?thesis
  proof (cases a)
    case DoAccept
    then show ?thesis using e rules caller_ok_method [OF ca ch, of "\<lambda>q. snd (AcceptRaw q)"]
      by (auto simp: serving_inv_def do_action_def phase_ok_def pending_def split: prod.splits)
  next
    case DoReject
    then show ?thesis using e rules caller_ok_method [OF ca ch, of "\<lambda>q. snd (Incoming_Reject q)"]
      by (simp add: serving_inv_def do_action_def phase_ok_def pending_def)
  next
    case (DoRejectWithCode c)
    then show ?thesis using e rules caller_ok_method [OF ca ch, of "\<lambda>q. snd (Incoming_RejectWithCode c q)"]
      by (simp add: serving_inv_def do_action_def phase_ok_def pending_def)
  next
    case (DoSend m)
    then show ?thesis using e ch ca
      by (cases "caller s"; cases "resolved (iq s)")
        (simp_all add: serving_inv_def do_action_def phase_ok_def caller_ok_def pending_def)
  next
    case DoClose
    then show ?thesis using e ch ca channel_ok_methods [OF ch]
      by (cases "caller s"; cases "resolved (iq s)")
        (simp_all add: serving_inv_def do_action_def phase_ok_def caller_ok_def pending_def)
  qed
qed

lemma inv_op:
  assumes inv: "serving_inv run s" and step: "op_step s = Some s1"
  shows "serving_inv run s1"
proof -
  have ch: "channel_ok (iq s)" and ca: "caller_ok (verdict (fst run)) (phase s) (iq s) (caller s)"
    and ph: "phase_ok (snd run) (phase s) (iq s)" using inv by (simp_all add: serving_inv_def)
  note rules = channel_ok_methods [OF ch] methods_resolved methods_answer [OF _ ch] methods_accepted [OF ch]
  note rej = caller_ok_method [OF ca ch, of "\<lambda>q. snd (Incoming_RejectWithCode CodeInternalError q)"]
  show ?thesis
  proof (cases "phase s")
    case (Running acts e)
    show ?thesis
    proof (cases acts)
      case Nil
      then show ?thesis using Running step ch ca ph
        by (cases e) (auto simp: serving_inv_def caller_ok_def phase_ok_def pending_def split: caller.splits)
    next
      case (Cons a as)
      then show ?thesis using Running step inv_action [OF inv] by auto
    qed
  next
    case (Rejecting v)
    then show ?thesis using step rules rej ph by (auto simp: serving_inv_def phase_ok_def pending_def)
  next
    case (Abandoning v)
    then show ?thesis using step rules(4) ca ph
      by (auto simp: serving_inv_def phase_ok_def caller_ok_def split: caller.splits)
  next
    case Deferred
    then show ?thesis using step rules rej ph by (auto simp: serving_inv_def phase_ok_def pending_def)
  qed (use step in simp)
qed

lemma serving_reachable_inv: "serving_reachable run s \<Longrightarrow> serving_inv run s"
proof (induction rule: serving_reachable.induct)
  case (reach_step s s1)
  from reach_step.hyps(2) show ?case
    by cases (erule inv_op [OF reach_step.IH] inv_response [OF reach_step.IH]
      inv_cancel [OF reach_step.IH] inv_timeout [OF reach_step.IH])+
qed (rule serving_inv_start)

subsection \<open>The goroutine ends and the caller is answered\<close>

fun finish :: "nat \<Rightarrow> serving \<Rightarrow> serving" where
  "finish 0 s = s"
| "finish (Suc n) s = (case op_step s of None \<Rightarrow> s | Some s1 \<Rightarrow> finish n s1)"

definition op_remaining :: "serving \<Rightarrow> nat" where
  "op_remaining s =
     (case phase s of
        Running acts _ \<Rightarrow> length acts + 4 | Rejecting _ \<Rightarrow> 3 | Abandoning _ \<Rightarrow> 2 | Deferred \<Rightarrow> 1 | Finished \<Rightarrow> 0)"

definition never_ends :: "phase \<Rightarrow> bool" where
  "never_ends p = (case p of Running acts (OpNever ms) \<Rightarrow> True | _ \<Rightarrow> False)"

lemma op_step_measure: "op_step s = Some s1 \<Longrightarrow> \<not> never_ends (phase s) \<Longrightarrow> op_remaining s1 < op_remaining s \<and> \<not> never_ends (phase s1)"
  by (cases "phase s") (auto simp: op_remaining_def never_ends_def split: list.splits op_end.splits)

lemma op_step_caller: "op_step s = Some s1 \<Longrightarrow> caller s1 = caller s"
  by (cases "phase s")
    (auto simp: do_action_def split: list.splits op_end.splits action.splits prod.splits if_splits)

lemma op_step_None: "op_step s = None \<longleftrightarrow> phase s = Finished"
  by (simp split: phase.splits list.splits op_end.splits)

lemma finish_reachable:
  "serving_reachable run s \<Longrightarrow> serving_reachable run (finish n s) \<and> caller (finish n s) = caller s"
proof (induction n arbitrary: s)
  case (Suc n)
  show ?case
  proof (cases "op_step s")
    case (Some s1)
    have "serving_reachable run s1" using Suc.prems Some by (blast intro: reach_step step_op)
    then show ?thesis using Suc.IH [of s1] op_step_caller [OF Some] Some by simp
  qed (use Suc.prems in simp)
qed simp

lemma finish_ends: "op_remaining s \<le> n \<Longrightarrow> \<not> never_ends (phase s) \<Longrightarrow> phase (finish n s) = Finished"
proof (induction n arbitrary: s)
  case 0
  then show ?case by (cases "phase s") (auto simp: op_remaining_def)
next
  case (Suc n)
  show ?case
  proof (cases "op_step s")
    case None
    then show ?thesis using op_step_None by simp
  next
    case (Some s1)
    then show ?thesis using Suc op_step_measure [OF Some] by simp
  qed
qed

text \<open>An op that never returns resolves its query while it still has a resolving action to do.\<close>

lemma do_action_resolved: "resolved (iq (do_action a s)) \<longleftrightarrow> resolved (iq s) \<or> resolving a"
  by (cases a) (auto simp: do_action_def resolving_def incoming_defs split: prod.splits if_splits)

lemma op_step_resolved: "op_step s = Some s1 \<Longrightarrow> resolved (iq s) \<Longrightarrow> resolved (iq s1)"
  using do_action_resolved methods_resolved by (cases "phase s") (auto split: list.splits op_end.splits)

lemma finish_resolved: "resolved (iq s) \<Longrightarrow> resolved (iq (finish n s))"
  by (induction n arbitrary: s) (auto simp del: op_step.simps split: option.splits dest: op_step_resolved)

lemma finish_resolves:
  "phase s = Running acts e \<Longrightarrow> resolves acts \<Longrightarrow> length acts \<le> n \<Longrightarrow> resolved (iq (finish n s))"
proof (induction n arbitrary: s acts)
  case (Suc n)
  then obtain a as where acts: "acts = a # as" by (cases acts) (auto simp: resolves_def)
  define s1 where "s1 = (do_action a s)\<lparr>phase := Running as e\<rparr>"
  have "op_step s = Some s1" using Suc.prems(1) acts by (simp add: s1_def)
  moreover have "resolved (iq (finish n s1))"
  proof (cases "resolving a")
    case True
    then show ?thesis by (intro finish_resolved) (simp add: s1_def do_action_resolved)
  next
    case False
    then show ?thesis using Suc.prems acts by (intro Suc.IH [of _ as]) (auto simp: s1_def resolves_def)
  qed
  ultimately show ?case by (simp del: op_step.simps)
qed (auto simp: resolves_def)

definition never_inv :: "op_run \<Rightarrow> serving \<Rightarrow> bool" where
  "never_inv run s \<longleftrightarrow>
     (\<exists>acts. phase s = Running acts (snd run) \<and>
        (resolves (fst run) \<longrightarrow> resolved (iq s) \<or> resolves acts) \<and>
        (\<not> resolves (fst run) \<longrightarrow> \<not> resolves acts \<and>
           (case caller s of
              Waiting \<Rightarrow> \<not> resolved (iq s) \<and> response (iq s) = []
            | Answered a \<Rightarrow> a \<in> {Inl (ErrRejected CodeCanceled), Inl (ErrRejected CodeTimeout)})))"

lemma do_action_other: "\<not> resolving a \<Longrightarrow> response (iq (do_action a s)) = response (iq s) \<and> caller (do_action a s) = caller s"
  by (cases a) (auto simp: do_action_def resolving_def incoming_defs split: option.splits pipe_end.splits)

lemma do_action_caller: "caller (do_action a s) = caller s"
  by (cases a) (auto simp: do_action_def split: prod.splits)

lemma never_inv_op:
  assumes "snd run = OpNever ms" and "never_inv run s" and "op_step s = Some s1"
  shows "never_inv run s1"
proof -
  obtain acts where acts: "phase s = Running acts (OpNever ms)"
    "resolves (fst run) \<longrightarrow> resolved (iq s) \<or> resolves acts" "\<not> resolves (fst run) \<longrightarrow> \<not> resolves acts"
    using assms(1,2) by (auto simp: never_inv_def)
  show ?thesis
  proof (cases acts)
    case Nil
    have "\<not> resolves (map DoSend ms)" by (auto simp: resolves_def resolving_def list_ex_iff)
    then show ?thesis using assms acts Nil by (cases "caller s") (auto simp: never_inv_def resolves_def)
  next
    case (Cons a as)
    then have s1: "s1 = (do_action a s)\<lparr>phase := Running as (OpNever ms)\<rparr>" using assms(3) acts by simp
    show ?thesis
    proof (cases "resolves (fst run)")
      case True
      then show ?thesis using acts Cons assms(1) by (auto simp: never_inv_def s1 do_action_resolved resolves_def)
    next
      case False
      then have "\<not> resolving a" "\<not> resolves as" using acts Cons by (auto simp: resolves_def)
      then show ?thesis using False assms(1,2) do_action_other [of a s]
        by (cases "caller s") (auto simp: never_inv_def s1 do_action_resolved)
    qed
  qed
qed

lemma never_inv_reachable: "serving_reachable run s \<Longrightarrow> snd run = OpNever ms \<Longrightarrow> never_inv run s"
proof (induction rule: serving_reachable.induct)
  case reach_start
  then show ?case by (auto simp: never_inv_def serve_start_def NewIncomingQuery_def)
next
  case (reach_step s s1)
  note ih = reach_step.IH [OF reach_step.prems]
  from reach_step.hyps(2) show ?case
  proof cases
    case step_op
    then show ?thesis by (rule never_inv_op [OF reach_step.prems ih])
  next
    case step_response
    then show ?thesis using ih
      by (cases "caller s"; cases "response (iq s)") (auto simp: never_inv_def await_response_def)
  next
    case step_cancel
    then show ?thesis using ih methods_resolved(5) [of "iq s"]
      by (auto simp: never_inv_def await_cancel_def NewErrRejected_def split: if_splits)
  next
    case step_timeout
    then show ?thesis using ih methods_resolved(6) [of _ "iq s"]
      by (auto simp: never_inv_def await_timeout_def NewErrRejected_def split: if_splits)
  qed
qed

lemma resolved_answers:
  assumes "serving_inv run s" "resolved (iq s)" "caller s = Waiting"
  shows "\<exists>s1. await_response s = Some s1 \<and> caller s1 = Answered (verdict (fst run))"
proof -
  have "map answer_of (response (iq s)) = [verdict (fst run)]" using assms by (auto simp: serving_inv_def caller_ok_def)
  then show ?thesis using assms(3) by (auto simp: await_response_def)
qed

text \<open>Some number of own steps after which the query of a waiting caller is resolved, if the op ever ends or resolves it.\<close>

lemma finish_answers:
  assumes "serving_reachable run s" "caller s = Waiting" and "resolves (fst run) \<or> (\<forall>ms. snd run \<noteq> OpNever ms)"
  shows "\<exists>s1. await_response (finish (op_remaining s) s) = Some s1 \<and> caller s1 = Answered (verdict (fst run))"
proof -
  let ?f = "finish (op_remaining s) s"
  have inv: "serving_inv run s" "serving_inv run ?f" and cl: "caller ?f = Waiting"
    using serving_reachable_inv finish_reachable [OF assms(1)] assms(1,2) by auto
  have "resolved (iq ?f)"
  proof (cases "\<exists>ms. snd run = OpNever ms")
    case True
    then obtain acts where a: "phase s = Running acts (snd run)" "resolved (iq s) \<or> resolves acts"
      using never_inv_reachable [OF assms(1)] assms(3) by (auto simp: never_inv_def)
    then show ?thesis using finish_resolved [of s "op_remaining s"] finish_resolves [OF a(1), of "op_remaining s"]
      by (auto simp: op_remaining_def)
  next
    case False
    then have "\<not> never_ends (phase s)"
      using inv(1) by (auto simp: never_ends_def serving_inv_def phase_ok_def split: phase.splits op_end.splits)
    then have "phase ?f = Finished" by (intro finish_ends) simp_all
    then show ?thesis using inv(2) by (auto simp: serving_inv_def phase_ok_def)
  qed
  then show ?thesis using resolved_answers [OF inv(2)] cl by blast
qed

lemma serving_reachable_trans: "serve_step\<^sup>*\<^sup>* s s' \<Longrightarrow> serving_reachable run s \<Longrightarrow> serving_reachable run s'"
  by (induction rule: rtranclp_induct) (auto intro: reach_step)

subsection \<open>Arguments from the caller's struct to the op's\<close>

lemma params_of_new:
  assumes "CHR ''?'' \<notin> set path" and "ParseQuery text = (ps, False)" and "distinct (map fst ps)"
  shows "params_of (New_QueryString path (ArgsString text)) = ps"
proof (cases "text = []")
  case True
  have "ParseQuery [] = ([], False)" by (subst ParseQuery.simps) simp
  moreover have "index_byte path CHR ''?'' = None" using assms(1) by (simp add: index_byte_None)
  ultimately show ?thesis using True assms(2)
    by (simp add: params_of_def New_QueryString_def Marshal_def splitPathParams_def first_values_def)
next
  case False
  then have "splitPathParams (New_QueryString path (ArgsString text)) = (path, text)"
    using assms(1) by (simp add: New_QueryString_def Marshal_def splitPathParams_def)
  then show ?thesis using assms(2,3) by (simp add: params_of_def first_values_distinct)
qed

lemma bind_marshalled:
  assumes written: "Editor_MarshalQuery e = Inr text" and ok: "args_ok tt e"
    and needed: "\<forall>f \<in> set e. Required (fd_tag f) \<longrightarrow> fd_val f \<noteq> FNil"
    and fresh: "editValue False sfs = map (new_field tt) e" and pth: "CHR ''?'' \<notin> set path"
  shows "bind_args tt sfs (params_of (New_QueryString path (ArgsString text))) = Inr e"
proof -
  let ?ps = "sort_key fst (text_pairs e)"
  have d: "distinct (map fd_name e)" using ok by (simp add: args_ok_def)
  note parse = marshal_parse [OF written d]
  have "set_all tt ?ps (map (new_field tt) e) = (SetOk, e)"
    using unmarshal_fresh [OF written ok] parse by (simp add: Editor_UnmarshalQuery_def first_values_distinct)
  then have "Editor_SetMany tt ?ps (map (new_field tt) e) = (None, e)" by (rule set_all_SetMany)
  then show ?thesis using required_present [OF written ok needed] params_of_new [OF pth parse] fresh
    by (simp add: bind_args_def)
qed

end
