(* ===== verification/Sample_Query.thy ===== *)
theory Sample_Query
  imports Incoming
begin

text \<open>A small argument struct and its tags, as the properties of the query path evaluate them.\<close>

definition demo_types :: text_types where
  "demo_types = \<lparr>tt_parse = (\<lambda>_ s. Inr s), tt_zero = (\<lambda>_. []), tt_object = (\<lambda>_. [])\<rparr>"

definition demo_struct :: "structField list" where
  "demo_struct =
     [\<lparr>sf_name = ''MaxSize'', sf_exported = True, sf_tag = ''required'', sf_kind = KUint 8, sf_ptr = False, sf_val = FUint 0\<rparr>,
      \<lparr>sf_name = ''Out'', sf_exported = True, sf_tag = '''', sf_kind = KString, sf_ptr = False, sf_val = FString []\<rparr>]"

definition demo_args :: "qfield list" where
  "demo_args =
     [(edit_field False (demo_struct ! 0))\<lparr>fd_val := FUint 7\<rparr>, (edit_field False (demo_struct ! 1))\<lparr>fd_val := FString ''a b''\<rparr>]"

lemma ParseTag_demo:
  "ParseTag ''required'' = \<lparr>Key = [], Skip = False, Required = True, Other = Map.empty\<rparr>"
  "ParseTag '''' = \<lparr>Key = [], Skip = False, Required = False, Other = [[] \<mapsto> []]\<rparr>"
  by (simp_all add: ParseTag_def apply_tag_def)

lemma ToSnakeCase_demo: "ToSnakeCase ''MaxSize'' = ''max_size''" "ToSnakeCase ''Out'' = ''out''"
  by code_simp+

lemmas demo_eval = demo_args_def demo_struct_def edit_field_def ParseTag_demo ToSnakeCase_demo

end
