(* ===== verification/Properties_Routing.thy ===== *)
theory Properties_Routing
  imports Sample_Query
begin

text \<open>
  The properties of the query path: arguments on their way from a caller's struct to an op's,
  routers, and the service of one query by an op.
\<close>

subsection \<open>Arguments\<close>

text \<open>
  C35: the arguments a caller marshals into a query string are the arguments the op's fresh struct
  holds after parsing the query and binding its parameters, when every field prints text that
  parses back at its width and the required ones are set.
\<close>

theorem arguments_reach_the_op:
  assumes "Editor_MarshalQuery e = Inr text" and "args_ok tt e"
    and "\<forall>f \<in> set e. Required (fd_tag f) \<longrightarrow> fd_val f \<noteq> FNil"
    and "editValue False sfs = map (new_field tt) e" and "CHR ''?'' \<notin> set path"
  shows "bind_args tt sfs (params_of (New_QueryString path (ArgsString text))) = Inr e \<and>
    fst (Parse (New_QueryString path (ArgsString text))) = path"
proof -
  have "fst (Parse (New_QueryString path (ArgsString text))) = path"
  proof (cases "text = []")
    case True
    have "index_byte path CHR ''?'' = None" using assms(5) by (simp add: index_byte_None)
    then show ?thesis using True
      by (simp add: New_QueryString_def Marshal_def Parse_def splitPathParams_def split: prod.splits)
  next
    case False
    then show ?thesis using assms(5)
      by (simp add: New_QueryString_def Marshal_def Parse_def splitPathParams_def split: prod.splits)
  qed
  then show ?thesis using bind_marshalled [OF assms] by blast
qed

theorem arguments_reach_the_op_witness:
  "\<exists>text. Editor_MarshalQuery demo_args = Inr text \<and>
     bind_args demo_types demo_struct (params_of (New_QueryString ''objects.read'' (ArgsString text))) = Inr demo_args"
proof -
  obtain qs where t: "Editor_MarshalQuery demo_args = Inr qs"
    by (simp add: Editor_MarshalQuery_def FieldEditor_MarshalText_def demo_eval)
  have "args_ok demo_types demo_args" by (simp add: args_ok_def demo_eval)
  moreover have "\<forall>f \<in> set demo_args. Required (fd_tag f) \<longrightarrow> fd_val f \<noteq> FNil" by (simp add: demo_eval)
  moreover have "editValue False demo_struct = map (new_field demo_types) demo_args"
    by (simp add: editValue_def demo_eval new_field_def zero_val_def)
  ultimately show ?thesis using arguments_reach_the_op [OF t, of demo_types demo_struct "''objects.read''"] t by simp
qed

subsection \<open>Routers\<close>

text \<open>
  C37: whatever order routers were added in and however ties are sorted, a priority router gives the
  answer of a router that succeeds or rejects while no router of a lower priority does, and
  answers that there is no route when none does.
\<close>

theorem priority_router_order:
  fixes sortFunc :: "(('op, 'w) router \<times> int) list \<Rightarrow> (('op, 'w) router \<times> int) list"
  assumes "sort_func sortFunc"
  shows "(\<exists>(r, p) \<in> set added. decisive (RouteQuery serve r ctx q w) \<and>
       (\<forall>(r1, p1) \<in> set added. p1 < p \<longrightarrow> \<not> decisive (RouteQuery serve r1 ctx q w)) \<and>
       RouteQuery serve (PriorityRouter name (add_all sortFunc added)) ctx q w = RouteQuery serve r ctx q w) \<or>
     (\<forall>(r, p) \<in> set added. \<not> decisive (RouteQuery serve r ctx q w)) \<and>
       RouteQuery serve (PriorityRouter name (add_all sortFunc added)) ctx q w = Inl ErrRouteNotFound"
  by (rule priority_answer [OF assms])

theorem priority_router_order_witness:
  "RouteQuery (\<lambda>(op :: nat) ctx q w. Inr w) (PriorityRouter [] (add_all (sort_key snd) [(NilRouter False, 5), (NilRouter True, 1)]))
     (NewContext None) (Launch 0 None None ''x'') (0 :: nat) = Inl (ErrRejected 1)"
proof -
  let ?serve = "\<lambda>(op :: nat) (ctx :: goctx) (q :: in_flight) (w :: nat). (Inr w :: nat answer)"
  have "sort_func (sort_key snd :: ((nat, nat) router \<times> int) list \<Rightarrow> _)" by (rule stable_sort.sort_func_axioms)
  from priority_router_order [OF this, of "[(NilRouter False, 5), (NilRouter True, 1)]" ?serve "NewContext None"
      "Launch 0 None None ''x''" 0 "[]"]
  show ?thesis by (auto simp: NilRouter_RouteQuery_def query_RouteNotFound_def query_Reject_def decisive_def DefaultRejectCode_def)
qed

text \<open>
  C11: a tree of op and scope routers is a map from dotted paths to ops.  A query whose path is in
  the map is served by that op, relaunched under a shorter path with the same nonce, parties,
  parameters and extra entries; any other query finds no route; the route check tells which; and
  every operation the tree lists is in the map with the parameters of its op.
\<close>

theorem routes_refine_paths:
  assumes "op_tree r" and "map_inv (Extra q)"
  shows "(case op_at r (fst (Parse (QueryString q))) of
        None \<Rightarrow> RouteQuery serve r ctx q w = Inl ErrRouteNotFound
      | Some op \<Rightarrow> \<exists>q1. RouteQuery serve r ctx q w = serve op ctx q1 w \<and> same_call q q1) \<and>
    HasRoute r name = (op_at r name \<noteq> None) \<and>
    (spec_ok r \<and> (name, ps) \<in> set (Router_Spec args r) \<longrightarrow> (\<exists>op. op_at r name = Some op \<and> ps = snd (spec_entry args (name, op))))"
  using route_refines [OF assms] HasRoute_op_at [of r name] spec_listed [of r name ps args] by simp

theorem routes_refine_paths_witness:
  "RouteQuery (\<lambda>op ctx q w. Inr (op, QueryString q)) (ScopeRouter (OpRouter [(''ping'', 0 :: nat)]) [(''dir'', OpRouter [(''get'', 1)])])
     (NewContext None) (Launch 9 None None ''dir.get?k=v'') (5, []) = Inr (1, ''get?k=v'') \<and>
   RouteQuery (\<lambda>op ctx q w. Inr (op, QueryString q)) (ScopeRouter (OpRouter [(''ping'', 0 :: nat)]) [(''dir'', OpRouter [(''get'', 1)])])
     (NewContext None) (Launch 9 None None ''dir.put'') (5, []) = Inl ErrRouteNotFound"
proof -
  let ?r = "ScopeRouter (OpRouter [(''ping'', 0 :: nat)]) [(''dir'', OpRouter [(''get'', 1)])] :: (nat, nat \<times> string) router"
  let ?serve = "\<lambda>op (ctx :: goctx) q (w :: nat \<times> string). (Inr (op, QueryString q) :: (nat \<times> string) answer)"
  have path: "fst (Parse ''dir.put'') = ''dir.put''" "fst (Parse ''dir.get?k=v'') = ''dir.get''" "fst (Parse ''get?k=v'') = ''get''"
    by (simp_all add: Parse_def splitPathParams_def split: prod.splits)
  have "RouteQuery ?serve ?r (NewContext None) (Launch 9 None None ''dir.put'') (5, []) = Inl ErrRouteNotFound"
    using routes_refine_paths [of ?r "Launch 9 None None ''dir.put''" ?serve "NewContext None" "(5, [])" "[]" "[]" "\<lambda>_. []"] path
    by (simp add: Launch_def map_inv_def scope_of_def)
  moreover have "RouteQuery ?serve ?r (NewContext None) (Launch 9 None None ''dir.get?k=v'') (5, []) = Inr (1, ''get?k=v'')"
    using path by (simp add: OpRouter_RouteQuery_def Launch_def scope_of_def scoped_query_def copy_extra_def Map_Clone_def Map_Get_def)
  ultimately show ?thesis by blast
qed

subsection \<open>Serving a query\<close>

text \<open>
  C10: however the op, the caller's deadline and the caller's context interleave, at most one
  response is ever sent; a caller that was answered was told the verdict of the op's first resolving
  call (an internal error when it makes none), or that it cancelled, or that time ran out; when
  the op's goroutine has ended the query is resolved, and if the op panicked no pipe is left open.
\<close>

theorem query_answered_once:
  assumes "serving_reachable run s"
  shows "sends (iq s) \<le> 1 \<and> length (response (iq s)) \<le> sends (iq s) \<and>
    (\<forall>a. caller s = Answered a \<longrightarrow>
       a \<in> {verdict (fst run), Inl (ErrRejected CodeCanceled), Inl (ErrRejected CodeTimeout)}) \<and>
    (phase s = Finished \<longrightarrow> resolved (iq s)) \<and>
    (phase s = Finished \<and> snd run = OpPanics v \<longrightarrow> read_half (iq s) \<noteq> Some PipeOpen)"
  using serving_reachable_inv [OF assms]
  by (auto simp: serving_inv_def channel_ok_def caller_ok_def phase_ok_def split: caller.splits phase.splits)

theorem query_answered_once_witness:
  "sends (iq (finish 9 (serve_start ([DoAccept, DoReject], OpPanics ''boom'')))) = 1 \<and>
   read_half (iq (finish 9 (serve_start ([DoAccept, DoReject], OpPanics ''boom'')))) = Some (PipeClosed ''boom'')"
proof -
  let ?run = "([DoAccept, DoReject], OpPanics ''boom'')"
  have n9: "(9 :: nat) = Suc (Suc (Suc (Suc (Suc (Suc (Suc (Suc (Suc 0))))))))" by simp
  have e: "sends (iq (finish 9 (serve_start ?run))) = 1 \<and> read_half (iq (finish 9 (serve_start ?run))) = Some (PipeClosed ''boom'')"
    unfolding n9 by (simp add: serve_start_def NewIncomingQuery_def do_action_def incoming_defs)
  have "serving_reachable ?run (finish 9 (serve_start ?run))"
    using finish_reachable [OF reach_start] by blast
  from query_answered_once [OF this] e show ?thesis by simp
qed



end
