(* ===== verification/Normalize.thy ===== *)
theory Normalize
  imports Runtime_Codec
begin

text \<open>
  Values on their way into a runtime object: \<^verbatim>\<open>src/astral/normalize.go\<close> (\<^verbatim>\<open>Adapt\<close>, \<^verbatim>\<open>normalize\<close>,
  \<^verbatim>\<open>normalizePrimitive\<close>, \<^verbatim>\<open>narrowString\<close>, \<^verbatim>\<open>narrowBytes\<close>) and \<^verbatim>\<open>Get\<close>, \<^verbatim>\<open>Set\<close> and \<^verbatim>\<open>find\<close> of
  \<^verbatim>\<open>runtime_object.go\<close>.

  A Go value of type \<^verbatim>\<open>any\<close> is \<open>goval\<close>: nil, a nil pointer to a type that is no Object, an Object, a
  native value or a pointer to one, an astral value that is not a pointer (and so no Object),
  an error, or something else.  A pointer is its target, since normalising copies or aliases it
  without writing through it.
\<close>

datatype goval =
    GoNil
  | GoTypedNil
  | GoNilString
  | GoObj obj
  | GoBool bool
  | GoInt "64 word"
  | GoInt8 "8 word"
  | GoInt16 "16 word"
  | GoInt32 "32 word"
  | GoInt64 "64 word"
  | GoUint "64 word"
  | GoUint8 "8 word"
  | GoUint16 "16 word"
  | GoUint32 "32 word"
  | GoUint64 "64 word"
  | GoString string
  | GoBytes bytes
  | GoTime int
  | GoDuration "64 word"
  | GoValue prim
  | GoError string
  | GoOther

subsection \<open>Adapt\<close>

text \<open>The astral values \<^verbatim>\<open>Adapt\<close> takes the address of: all but zones and object identifiers.\<close>

fun addressable :: "prim \<Rightarrow> bool" where
  "addressable (PZone z) \<longleftrightarrow> False"
| "addressable (PObjectID i) \<longleftrightarrow> False"
| "addressable _ \<longleftrightarrow> True"

text \<open>An \<^verbatim>\<open>ErrorMessage\<close> is a compile-time object; its payload is its text as a \<^verbatim>\<open>String16\<close>.\<close>

definition NewError :: "string \<Rightarrow> obj" where
  "NewError s = Native ''error_message'' (nat_be 2 (length s) @ str_bytes s)"

fun Adapt :: "goval \<Rightarrow> obj option" where
  "Adapt GoNil = Some NilObj"
| "Adapt GoTypedNil = Some NilObj"
| "Adapt GoNilString = Some NilObj"
| "Adapt (GoObj x) = Some x"
| "Adapt (GoBool b) = Some (Prim (PBool b))"
| "Adapt (GoInt i) = Some (Prim (PInt64 i))"
| "Adapt (GoInt8 i) = Some (Prim (PInt8 i))"
| "Adapt (GoInt16 i) = Some (Prim (PInt16 i))"
| "Adapt (GoInt32 i) = Some (Prim (PInt32 i))"
| "Adapt (GoInt64 i) = Some (Prim (PInt64 i))"
| "Adapt (GoUint u) = Some (Prim (PUint64 u))"
| "Adapt (GoUint8 u) = Some (Prim (PUint8 u))"
| "Adapt (GoUint16 u) = Some (Prim (PUint16 u))"
| "Adapt (GoUint32 u) = Some (Prim (PUint32 u))"
| "Adapt (GoUint64 u) = Some (Prim (PUint64 u))"
| "Adapt (GoString s) = Some (Prim (PString32 s))"
| "Adapt (GoTime t) = Some (Prim (PTime t))"
| "Adapt (GoDuration d) = Some (Prim (PDuration d))"
| "Adapt (GoValue p) = (if addressable p then Some (Prim p) else None)"
| "Adapt (GoError e) = Some (NewError e)"
| "Adapt (GoBytes b) = None"
| "Adapt GoOther = None"

subsection \<open>Narrowing\<close>

definition narrowString :: "string \<Rightarrow> string \<Rightarrow> obj res" where
  "narrowString name s =
     (if name = ''string8'' then
        (if 2 ^ 8 - 1 < length s then Inl (ErrMsg ''primitive string8: length exceeds 255'') else Inr (Prim (PString8 s)))
      else if name = ''string16'' then
        (if 2 ^ 16 - 1 < length s then Inl (ErrMsg ''primitive string16: length exceeds 65535'') else Inr (Prim (PString16 s)))
      else if name = ''string32'' then
        (if 2 ^ 32 - 1 < length s then Inl (ErrMsg ''primitive string32: length exceeds 4294967295'') else Inr (Prim (PString32 s)))
      else if name = ''string64'' then Inr (Prim (PString64 s))
      else Inl (ErrMsg ''primitive: cannot accept string''))"

definition narrowBytes :: "string \<Rightarrow> bytes \<Rightarrow> obj res" where
  "narrowBytes name b =
     (if name = ''bytes8'' then
        (if 2 ^ 8 - 1 < length b then Inl (ErrMsg ''primitive bytes8: length exceeds 255'') else Inr (Prim (PBytes8 b)))
      else if name = ''bytes16'' then
        (if 2 ^ 16 - 1 < length b then Inl (ErrMsg ''primitive bytes16: length exceeds 65535'') else Inr (Prim (PBytes16 b)))
      else if name = ''bytes32'' then
        (if 2 ^ 32 - 1 < length b then Inl (ErrMsg ''primitive bytes32: length exceeds 4294967295'') else Inr (Prim (PBytes32 b)))
      else if name = ''bytes64'' then Inr (Prim (PBytes64 b))
      else Inl (ErrMsg ''primitive: cannot accept []byte''))"

definition adaptAs :: "string \<Rightarrow> goval \<Rightarrow> obj res" where
  "adaptAs name v =
     (case Adapt v of
        None \<Rightarrow> Inl (ErrMsg ''primitive: cannot normalize'')
      | Some x \<Rightarrow> if ObjectType x \<noteq> name then Inl (ErrMsg ''primitive: cannot normalize'') else Inr x)"

definition normalizePrimitive :: "string \<Rightarrow> goval \<Rightarrow> obj res" where
  "normalizePrimitive name v =
     (case v of
        GoString s \<Rightarrow> narrowString name s
      | GoNilString \<Rightarrow> Inl (ErrMsg ''primitive: nil *string'')
      | GoBytes b \<Rightarrow> narrowBytes name b
      | _ \<Rightarrow> adaptAs name v)"

subsection \<open>Normalisation per spec\<close>

definition normalizeRef :: "string \<Rightarrow> goval \<Rightarrow> obj res" where
  "normalizeRef t v =
     (case v of
        GoObj x \<Rightarrow> if ObjectType x \<noteq> t then Inl (ErrMsg ''RefSpec: wrong type'') else Inr x
      | _ \<Rightarrow> Inl (ErrMsg ''RefSpec: not an object''))"

text \<open>The name of a carrier's key kind, the inverse of \<open>resolveKeyType\<close>.\<close>

definition keyKindName :: "gokind \<Rightarrow> string" where
  "keyKindName k =
     (case k of
        String \<Rightarrow> ''string16'' | Uint8 \<Rightarrow> ''uint8'' | Uint16 \<Rightarrow> ''uint16'' | Uint32 \<Rightarrow> ''uint32'' | Uint64 \<Rightarrow> ''uint64''
      | _ \<Rightarrow> [])"

definition normalize :: "spec option \<Rightarrow> goval \<Rightarrow> obj res" where
  "normalize sp v =
     (case sp of
        None \<Rightarrow> Inl (ErrMsg ''unknown spec'')
      | Some (PrimitiveSpec p) \<Rightarrow> normalizePrimitive p v
      | Some (RefSpec t) \<Rightarrow> normalizeRef t v
      | Some (SliceSpec t) \<Rightarrow>
          (case v of
             GoObj (RSlice en vs) \<Rightarrow> if en \<noteq> t then Inl (ErrMsg ''SliceSpec: wrong element type'') else Inr (RSlice en vs)
           | _ \<Rightarrow> Inl (ErrMsg ''want *RuntimeSlice''))
      | Some (ArraySpec t n) \<Rightarrow>
          (case v of
             GoObj (RArray en vs) \<Rightarrow>
               if (of_nat (length vs) :: 32 word) \<noteq> n then Inl (ErrMsg ''ArraySpec: wrong length'')
               else if en \<noteq> t then Inl (ErrMsg ''ArraySpec: wrong element type'')
               else Inr (RArray en vs)
           | _ \<Rightarrow> Inl (ErrMsg ''want *RuntimeArray''))
      | Some (MapSpec k t) \<Rightarrow>
          (case v of
             GoObj (RMap kt vn es) \<Rightarrow>
               if vn \<noteq> t then Inl (ErrMsg ''MapSpec: wrong value type'')
               else if keyKindName kt \<noteq> k then Inl (ErrMsg ''MapSpec: wrong key type'')
               else Inr (RMap kt vn es)
           | _ \<Rightarrow> Inl (ErrMsg ''want *RuntimeMap''))
      | Some (PtrSpec t) \<Rightarrow>
          (case v of
             GoNil \<Rightarrow> Inr NilObj
           | GoObj NilObj \<Rightarrow> Inr NilObj
           | GoObj x \<Rightarrow> if ObjectType x \<noteq> t then Inl (ErrMsg ''PtrSpec: wrong type'') else Inr x
           | _ \<Rightarrow> Inl (ErrMsg ''PtrSpec: want Object or nil''))
      | Some ObjectSpec \<Rightarrow>
          (case v of
             GoNil \<Rightarrow> Inl (ErrMsg ''ObjectSpec does not accept nil'')
           | GoObj (RSlice en vs) \<Rightarrow> Inl (ErrMsg ''ObjectSpec: unregistered tag'')
           | GoObj (RArray en vs) \<Rightarrow> Inl (ErrMsg ''ObjectSpec: unregistered tag'')
           | GoObj (RMap k vn es) \<Rightarrow> Inl (ErrMsg ''ObjectSpec: unregistered tag'')
           | GoObj x \<Rightarrow> Inr x
           | _ \<Rightarrow> Inl (ErrMsg ''ObjectSpec: want Object'')))"

subsection \<open>Fields of a runtime object\<close>

text \<open>The index maps a name to the last field that has it; an object without fields has none.\<close>

definition RuntimeObject_find :: "blueprint \<Rightarrow> string \<Rightarrow> nat option" where
  "RuntimeObject_find bp name =
     map_of (rev (zip (map Name (Fields bp)) [0..<length (Fields bp)])) name"

definition RuntimeObject_Get :: "string \<Rightarrow> obj \<Rightarrow> obj" where
  "RuntimeObject_Get name ro =
     (case ro of
        Struct bp vs \<Rightarrow> (case RuntimeObject_find bp name of None \<Rightarrow> Absent | Some i \<Rightarrow> vs ! i)
      | _ \<Rightarrow> Absent)"

definition RuntimeObject_Set :: "string \<Rightarrow> goval \<Rightarrow> obj \<Rightarrow> error option \<times> obj" where
  "RuntimeObject_Set name v ro =
     (case ro of
        Struct bp vs \<Rightarrow>
          (case RuntimeObject_find bp name of
             None \<Rightarrow> (Some (ErrFieldTypeMismatch name), ro)
           | Some i \<Rightarrow>
               (case normalize (Spec (Fields bp ! i)) v of
                  Inl e \<Rightarrow> (Some (ErrFieldTypeMismatch name), ro)
                | Inr x \<Rightarrow> (None, Struct bp (vs[i := x]))))
      | _ \<Rightarrow> (Some (ErrFieldTypeMismatch name), ro))"

definition RuntimeObject_Underlying :: "obj \<Rightarrow> obj" where
  "RuntimeObject_Underlying ro = (case ro of Alias bp v \<Rightarrow> v | _ \<Rightarrow> Absent)"

subsection \<open>What normalisation lets through\<close>

text \<open>
  A value a caller may pass: an Object that the registry describes, a container over a
  resolvable element type, or a native value the wire can carry.
\<close>

definition carrier_ok :: "registry \<Rightarrow> obj \<Rightarrow> bool" where
  "carrier_ok bps x =
     (case x of
        NilObj \<Rightarrow> True
      | RSlice en vs \<Rightarrow> resolveElemType bps en = None
      | RArray en vs \<Rightarrow> resolveElemType bps en = None \<and> length vs < 2 ^ 32
      | _ \<Rightarrow> named_ok bps (ObjectType x) x \<and> ObjectType x \<noteq> nilTypeName)"

definition goval_ok :: "(string \<Rightarrow> bytes \<Rightarrow> bool) \<Rightarrow> registry \<Rightarrow> goval \<Rightarrow> bool" where
  "goval_ok nok bps v =
     (case v of
        GoObj x \<Rightarrow> carrier_ok bps x \<and> obj_ok nok bps x
      | GoString t \<Rightarrow> length t < 2 ^ 64
      | GoBytes b \<Rightarrow> length b < 2 ^ 64
      | GoTime t \<Rightarrow> prim_ok (PTime t)
      | GoValue p \<Rightarrow> prim_ok p
      | _ \<Rightarrow> True)"

text \<open>The names no Blueprint should take: those of the nil marker and of the runtime containers.\<close>

definition reserved :: "string set" where
  "reserved = {nilTypeName, ''slice'', ''array'', ''map''}"

definition spec_plain :: "spec option \<Rightarrow> bool" where
  "spec_plain sp =
     (case sp of
        Some (PrimitiveSpec p) \<Rightarrow> isAllowedPrimitive p
      | Some (RefSpec t) \<Rightarrow> t \<notin> reserved
      | Some (PtrSpec t) \<Rightarrow> t \<notin> reserved
      | _ \<Rightarrow> True)"

text \<open>The primitive names, where registered, make the primitives.\<close>

definition prims_bound :: "registry \<Rightarrow> bool" where
  "prims_bound bps \<longleftrightarrow> (\<forall>n z. prim_zero n = Some z \<longrightarrow> New bps n = None \<or> New bps n = Some (Prim z))"

lemma allowed_not_reserved: "isAllowedPrimitive p \<Longrightarrow> p \<notin> reserved \<and> p \<noteq> ''error_message''"
  by (auto simp: isAllowedPrimitive_iff primitiveAllowlist_def reserved_def nilTypeName_def)

lemma prim_named:
  assumes "prims_bound bps" and "New bps (prim_type q) \<noteq> None"
  shows "named_ok bps (prim_type q) (Prim q)"
proof -
  obtain z where z: "prim_zero (prim_type q) = Some z" using prim_zero_known [of q] by blast
  then have "New bps (prim_type q) = Some (Prim z)" using assms unfolding prims_bound_def by metis
  then show ?thesis using prim_zero_type [OF z] by (simp add: named_ok_def)
qed

lemma carrier_named: "carrier_ok bps x \<Longrightarrow> ObjectType x \<notin> reserved \<Longrightarrow> named_ok bps (ObjectType x) x"
  by (cases x) (auto simp: carrier_ok_def reserved_def)

lemma Adapt_shape:
  "Adapt v = Some x \<Longrightarrow> goval_ok nok bps v \<Longrightarrow>
     (\<exists>q. x = Prim q \<and> prim_ok q) \<or> x = NilObj \<or> (\<exists>e. x = NewError e) \<or> v = GoObj x"
  by (cases v) (auto simp: goval_ok_def split: if_splits)

lemma adaptAs_ok:
  assumes "adaptAs p v = Inr x" and "goval_ok nok bps v" and "isAllowedPrimitive p" and "prims_bound bps" and "New bps p \<noteq> None"
  shows "named_ok bps p x \<and> obj_ok nok bps x"
proof -
  have x: "Adapt v = Some x" "ObjectType x = p" using assms(1) by (auto simp: adaptAs_def split: option.splits if_splits)
  from allowed_not_reserved [OF assms(3)] have p: "p \<notin> reserved" "p \<noteq> ''error_message''" by auto
  from Adapt_shape [OF x(1) assms(2)] show ?thesis
  proof (elim disjE exE conjE)
    fix q assume "x = Prim q" "prim_ok q"
    then show ?thesis using prim_named [OF assms(4), of q] assms(5) x(2) by simp
  next
    assume "v = GoObj x"
    then show ?thesis using carrier_named [of bps x] assms(2) x(2) p by (simp add: goval_ok_def)
  qed (use x(2) p in \<open>auto simp: reserved_def NewError_def\<close>)
qed

lemma narrow_ok:
  assumes "narrowString p t = Inr x \<and> length t < 2 ^ 64 \<or> narrowBytes p b = Inr x \<and> length b < 2 ^ 64"
    and "prims_bound bps" and "New bps p \<noteq> None"
  shows "named_ok bps p x \<and> obj_ok nok bps x"
proof -
  have "\<exists>q. x = Prim q \<and> prim_type q = p \<and> prim_ok q"
    using assms(1) by (auto simp: narrowString_def narrowBytes_def split: if_splits)
  then show ?thesis using prim_named [OF assms(2)] assms(3) by auto
qed

lemma normalizePrimitive_ok:
  assumes "normalizePrimitive p v = Inr x" and "goval_ok nok bps v" and "isAllowedPrimitive p" and "prims_bound bps"
    and "New bps p \<noteq> None"
  shows "named_ok bps p x \<and> obj_ok nok bps x"
proof (cases v)
  case (GoString t)
  then show ?thesis using narrow_ok [of p t x] assms by (simp add: normalizePrimitive_def goval_ok_def)
next
  case (GoBytes b)
  then show ?thesis using narrow_ok [of p _ x b] assms by (simp add: normalizePrimitive_def goval_ok_def)
qed (use adaptAs_ok [OF _ assms(2-5)] assms(1) in \<open>simp_all add: normalizePrimitive_def\<close>)

lemma normalize_ok:
  assumes n: "normalize sp v = Inr x" and v: "goval_ok nok bps v" and old: "field_ok bps sp w" and plain: "spec_plain sp"
    and prims: "prims_bound bps"
  shows "field_ok bps sp x \<and> obj_ok nok bps x"
proof (cases sp)
  case (Some s)
  show ?thesis
  proof (cases s)
    case (PrimitiveSpec p)
    have "New bps p \<noteq> None" using old Some PrimitiveSpec by (auto simp: field_ok_def named_ok_def split: option.splits)
    then show ?thesis using normalizePrimitive_ok [of p v x nok bps] n v plain prims Some PrimitiveSpec
      by (simp add: normalize_def spec_plain_def field_ok_def)
  next
    case (RefSpec t)
    then have "v = GoObj x" "ObjectType x = t"
      using n Some by (auto simp: normalize_def normalizeRef_def split: goval.splits if_splits)
    then show ?thesis using carrier_named [of bps x] v plain Some RefSpec by (auto simp: goval_ok_def spec_plain_def field_ok_def)
  next
    case (SliceSpec t)
    then show ?thesis using n v Some
      by (auto simp: normalize_def goval_ok_def carrier_ok_def field_ok_def split: goval.splits obj.splits if_splits)
  next
    case (ArraySpec t l)
    obtain en vs where x: "v = GoObj (RArray en vs)" "x = RArray en vs" "en = t" "of_nat (length vs) = l"
      using n Some ArraySpec by (auto simp: normalize_def split: goval.splits obj.splits if_splits)
    then have "length vs = unat l" using v by (auto simp: goval_ok_def carrier_ok_def unat_of_nat_small)
    then show ?thesis using x v Some ArraySpec by (simp add: goval_ok_def carrier_ok_def field_ok_def)
  next
    case (MapSpec k t)
    then show ?thesis using old Some by (simp add: field_ok_def)
  next
    case (PtrSpec t)
    then have "x = NilObj \<or> v = GoObj x \<and> ObjectType x = t"
      using n Some by (auto simp: normalize_def split: goval.splits obj.splits if_splits)
    then show ?thesis using carrier_named [of bps x] v plain Some PtrSpec
      by (auto simp: goval_ok_def spec_plain_def field_ok_def reserved_def)
  next
    case ObjectSpec
    then have "v = GoObj x \<and> (\<forall>en vs k. x \<noteq> RSlice en vs \<and> x \<noteq> RArray en vs \<and> x \<noteq> RMap k en es)" for es
      using n Some by (auto simp: normalize_def split: goval.splits obj.splits)
    then show ?thesis using v Some ObjectSpec by (cases x) (auto simp: goval_ok_def carrier_ok_def field_ok_def)
  qed
qed (use n in \<open>simp add: normalize_def\<close>)

subsection \<open>Set and Get\<close>

lemma find_nth:
  assumes "distinct (map Name (Fields bp))"
  shows "RuntimeObject_find bp name = Some i \<longleftrightarrow> i < length (Fields bp) \<and> Name (Fields bp ! i) = name"
proof -
  let ?ps = "zip (map Name (Fields bp)) [0..<length (Fields bp)]"
  have "distinct (map fst (rev ?ps))" using assms by (simp add: rev_map [symmetric])
  from map_of_eq_Some_iff [OF this] have "RuntimeObject_find bp name = Some i \<longleftrightarrow> (name, i) \<in> set ?ps"
    unfolding RuntimeObject_find_def set_rev .
  also have "\<dots> \<longleftrightarrow> i < length (Fields bp) \<and> Name (Fields bp ! i) = name" by (auto simp: in_set_zip intro!: exI [of _ i])
  finally show ?thesis .
qed

lemma Set_ok:
  assumes ok: "obj_ok nok bps (Struct bp vs)" and names: "distinct (map Name (Fields bp))"
    and plain: "\<And>f. f \<in> set (Fields bp) \<Longrightarrow> spec_plain (Spec f)" and v: "goval_ok nok bps v" and prims: "prims_bound bps"
    and set: "RuntimeObject_Set name v (Struct bp vs) = (None, ro)"
  shows "\<exists>i x. RuntimeObject_find bp name = Some i \<and> normalize (Spec (Fields bp ! i)) v = Inr x \<and> ro = Struct bp (vs[i := x]) \<and>
    obj_ok nok bps ro \<and> RuntimeObject_Get name ro = x \<and>
    (\<forall>m. m \<noteq> name \<longrightarrow> RuntimeObject_Get m ro = RuntimeObject_Get m (Struct bp vs))"
proof -
  obtain i x where i: "RuntimeObject_find bp name = Some i" and x: "normalize (Spec (Fields bp ! i)) v = Inr x"
    and ro: "ro = Struct bp (vs[i := x])"
    using set by (auto simp: RuntimeObject_Set_def split: option.splits sum.splits)
  have fs: "list_all2 (\<lambda>f v. field_ok bps (Spec f) v) (Fields bp) vs" using ok by simp
  have il: "i < length (Fields bp)" "Name (Fields bp ! i) = name" using i find_nth [OF names] by auto
  then have iv: "i < length vs" using list_all2_lengthD [OF fs] by simp
  have fi: "field_ok bps (Spec (Fields bp ! i)) (vs ! i)" using list_all2_nthD [OF fs il(1)] .
  from normalize_ok [OF x v fi plain prims] il(1) have fx: "field_ok bps (Spec (Fields bp ! i)) x" "obj_ok nok bps x" by auto
  have "list_all2 (\<lambda>f v. field_ok bps (Spec f) v) ((Fields bp)[i := Fields bp ! i]) (vs[i := x])"
    using list_all2_update_cong [OF fs, of "Fields bp ! i" x i] fx(1) by simp
  moreover have "\<forall>y \<in> set (vs[i := x]). obj_ok nok bps y" using ok fx(2) set_update_subset_insert [of vs i x] by auto
  ultimately have "obj_ok nok bps ro" using ro by simp
  moreover have "RuntimeObject_Get name ro = x" using i iv ro by (simp add: RuntimeObject_Get_def)
  moreover have "RuntimeObject_Get m ro = RuntimeObject_Get m (Struct bp vs)" if "m \<noteq> name" for m
  proof (cases "RuntimeObject_find bp m")
    case (Some j)
    then have "j \<noteq> i" using find_nth [OF names] il(2) that by auto
    then show ?thesis using Some ro by (simp add: RuntimeObject_Get_def)
  qed (simp add: RuntimeObject_Get_def ro)
  ultimately show ?thesis using i x ro by blast
qed

lemma validated_plain:
  "validateBlueprint (Some bp) = None \<Longrightarrow> f \<in> set (Fields bp) \<Longrightarrow> field_ref f \<notin> reserved \<Longrightarrow> spec_plain (Spec f)"
  by (auto simp: validateBlueprint_ok_iff good_field_def spec_plain_def field_ref_def split: option.splits spec.splits if_splits)

lemma named_ok_fields: "named_ok bps t (Struct bp vs) \<Longrightarrow> named_ok bps t (Struct bp ws)"
proof -
  have "like z (Struct bp vs) \<Longrightarrow> like z (Struct bp ws)" for z by (cases z) auto
  then show "named_ok bps t (Struct bp vs) \<Longrightarrow> named_ok bps t (Struct bp ws)" by (auto simp: named_ok_def split: option.splits)
qed

lemma Set_refused: "RuntimeObject_Set name v ro = (Some e, ro1) \<Longrightarrow> ro1 = ro \<and> e = ErrFieldTypeMismatch name"
  by (auto simp: RuntimeObject_Set_def split: obj.splits option.splits sum.splits)

end
