(* ===== verification/Channel.thy ===== *)
theory Channel
  imports Normalize
begin

text \<open>
  Streams of objects: \<^verbatim>\<open>src/astral/channel\<close> (\<^verbatim>\<open>binary_sender.go\<close>, \<^verbatim>\<open>binary_receiver.go\<close>, \<^verbatim>\<open>canonical_sender.go\<close>,
  \<^verbatim>\<open>canonical_receiver.go\<close>, \<^verbatim>\<open>channel.go\<close>, \<^verbatim>\<open>config.go\<close>, \<^verbatim>\<open>errors.go\<close>, \<^verbatim>\<open>switch.go\<close>, \<^verbatim>\<open>func_wrapper.go\<close>,
  \<^verbatim>\<open>batch.go\<close>).

  A stream is the bytes written to it.  What a channel carries is an \<open>item\<close>: an object of the
  receiver's registry, an untyped blob, or an object kept unparsed.  \<open>bps\<close> is the default
  registry behind \<^verbatim>\<open>astral.New\<close> and \<open>nread\<close> the readers of compile-time types.
\<close>

datatype item = Obj obj | Blob bytes | Unparsed string bytes

fun item_type :: "item \<Rightarrow> string" where
  "item_type (Obj v) = ObjectType v"
| "item_type (Blob b) = []"
| "item_type (Unparsed t b) = t"

fun item_WriteTo :: "item \<Rightarrow> writer" where
  "item_WriteTo (Obj v) = obj_WriteTo v"
| "item_WriteTo (Blob b) = Write b"
| "item_WriteTo (Unparsed t b) = Write b"

subsection \<open>Binary framing\<close>

definition BinarySender_Send :: "item \<Rightarrow> bytes \<Rightarrow> error option \<times> bytes" where
  "BinarySender_Send x stream =
     (case stage (item_WriteTo x) of
        Inl e \<Rightarrow> (Some e, stream)
      | Inr payload \<Rightarrow>
          (case stage (wseq (String8_WriteTo (item_type x)) (Bytes32_WriteTo payload)) of
             Inl e \<Rightarrow> (Some e, stream)
           | Inr frame \<Rightarrow> (None, stream @ frame)))"

fun is_not_found :: "error \<Rightarrow> bool" where
  "is_not_found (ErrBlueprintNotFound t) \<longleftrightarrow> True"
| "is_not_found (ErrStreamCorrupted t) \<longleftrightarrow> True"
| "is_not_found e \<longleftrightarrow> False"

definition decode_payload :: "(string \<Rightarrow> bytes reader) \<Rightarrow> registry \<Rightarrow> bool \<Rightarrow> string \<Rightarrow> bytes \<Rightarrow> item res" where
  "decode_payload nread bps allowUnparsed typ buf =
     (if typ = [] then Inr (Blob buf)
      else case New bps typ of
        None \<Rightarrow> if allowUnparsed then Inr (Unparsed typ buf) else Inl (ErrBlueprintNotFound typ)
      | Some z \<Rightarrow>
          (case obj_ReadFrom nread bps z \<lparr>inp = buf, rb = None\<rparr> of
             (Inr v, n, r) \<Rightarrow> Inr (Obj v)
           | (Inl e, n, r) \<Rightarrow> if is_not_found e \<and> allowUnparsed then Inr (Unparsed typ buf) else Inl e))"

definition BinaryReceiver_Receive :: "(string \<Rightarrow> bytes reader) \<Rightarrow> registry \<Rightarrow> bool \<Rightarrow> bytes \<Rightarrow> item res \<times> bytes" where
  "BinaryReceiver_Receive nread bps allowUnparsed stream =
     (case ObjectType_ReadFrom \<lparr>inp = stream, rb = None\<rparr> of
        (Inl e, n, r) \<Rightarrow> (Inl e, inp r)
      | (Inr typ, n, r) \<Rightarrow>
          (case Bytes32_ReadFrom r of
             (Inl e, m, r1) \<Rightarrow> (Inl e, inp r1)
           | (Inr buf, m, r1) \<Rightarrow> (decode_payload nread bps allowUnparsed typ buf, inp r1)))"

subsection \<open>Canonical framing\<close>

definition CanonicalSender_Send :: "item \<Rightarrow> bytes \<Rightarrow> error option \<times> bytes" where
  "CanonicalSender_Send x stream =
     (case stage (wseq Stamp_WriteTo (wseq (ObjectType_WriteTo (item_type x)) (item_WriteTo x))) of
        Inl e \<Rightarrow> (Some e, stream)
      | Inr frame \<Rightarrow> (None, stream @ frame))"

text \<open>The receiver keeps its first error and answers it from then on.\<close>

definition canonical_read :: "(string \<Rightarrow> bytes reader) \<Rightarrow> registry \<Rightarrow> obj reader" where
  "canonical_read nread bps =
     rbind Stamp_ReadFrom (\<lambda>_. rbind ObjectType_ReadFrom (\<lambda>typ.
       case New bps typ of
         None \<Rightarrow> rfail (ErrStreamCorrupted typ)
       | Some z \<Rightarrow> obj_ReadFrom nread bps z))"

definition CanonicalReceiver_Receive :: "(string \<Rightarrow> bytes reader) \<Rightarrow> registry \<Rightarrow> error option \<times> bytes \<Rightarrow> item res \<times> error option \<times> bytes" where
  "CanonicalReceiver_Receive nread bps st =
     (case st of
        (Some e, stream) \<Rightarrow> (Inl e, Some e, stream)
      | (None, stream) \<Rightarrow>
          (case canonical_read nread bps \<lparr>inp = stream, rb = None\<rparr> of
             (Inl e, n, r) \<Rightarrow> (Inl e, Some e, inp r)
           | (Inr v, n, r) \<Rightarrow> (Inr (Obj v), None, inp r)))"

subsection \<open>Channel configuration\<close>

record config =
  fmtIn :: string
  fmtOut :: string
  allowUnparsed :: bool
  lockWrites :: bool
  failOnEOF :: bool

definition noConfig :: config where
  "noConfig = \<lparr>fmtIn = [], fmtOut = [], allowUnparsed = False, lockWrites = False, failOnEOF = False\<rparr>"

definition WithInputFormat :: "string \<Rightarrow> config \<Rightarrow> config" where
  "WithInputFormat f cfg = cfg\<lparr>fmtIn := f\<rparr>"

definition WithOutputFormat :: "string \<Rightarrow> config \<Rightarrow> config" where
  "WithOutputFormat f cfg = cfg\<lparr>fmtOut := f\<rparr>"

definition WithFormats :: "string \<Rightarrow> string \<Rightarrow> config \<Rightarrow> config" where
  "WithFormats f g cfg = cfg\<lparr>fmtIn := f, fmtOut := g\<rparr>"

definition WithFormat :: "string \<Rightarrow> config \<Rightarrow> config" where
  "WithFormat f = WithFormats f f"

definition AllowUnparsed :: "bool \<Rightarrow> config \<Rightarrow> config" where
  "AllowUnparsed b cfg = cfg\<lparr>allowUnparsed := b\<rparr>"

definition FailOnEOF :: "config \<Rightarrow> config" where
  "FailOnEOF cfg = cfg\<lparr>failOnEOF := True\<rparr>"

definition WithLockedWrites :: "config \<Rightarrow> config" where
  "WithLockedWrites cfg = cfg\<lparr>lockWrites := True\<rparr>"

definition applyConfig :: "(config \<Rightarrow> config) list \<Rightarrow> config" where
  "applyConfig fs = fold (\<lambda>f. f) fs noConfig"

datatype receiver = BinaryReceiver bool | JSONReceiver | TextReceiver | CanonicalReceiver | ReceiverError string
datatype sender = BinarySender | JSONSender | TextSender bool | CanonicalSender | RenderSender | SenderError string

definition newReceiver :: "config \<Rightarrow> receiver" where
  "newReceiver cfg =
     (if fmtIn cfg = [] \<or> fmtIn cfg = ''bin'' then BinaryReceiver (allowUnparsed cfg)
      else if fmtIn cfg = ''json'' then JSONReceiver
      else if fmtIn cfg = ''text'' then TextReceiver
      else if fmtIn cfg = ''canonical'' then CanonicalReceiver
      else ReceiverError (''unsupported input format: '' @ fmtIn cfg))"

definition newSender :: "config \<Rightarrow> sender" where
  "newSender cfg =
     (if fmtOut cfg = [] \<or> fmtOut cfg = ''bin'' then BinarySender
      else if fmtOut cfg = ''json'' then JSONSender
      else if fmtOut cfg = ''text'' then TextSender False
      else if fmtOut cfg = ''canonical'' then CanonicalSender
      else if fmtOut cfg = ''base64'' then TextSender True
      else if fmtOut cfg = ''render'' then RenderSender
      else SenderError (''unsupported output format: '' @ fmtOut cfg))"

definition New_channel :: "(config \<Rightarrow> config) list \<Rightarrow> receiver \<times> sender" where
  "New_channel fs = (newReceiver (applyConfig fs), newSender (applyConfig fs))"

subsection \<open>Switch\<close>

text \<open>
  A handler is a function over one argument type: a pointer type is known by its object type, an
  interface by the items it accepts.  A channel's input is the list of what \<^verbatim>\<open>Receive\<close> answers;
  None says the loop is still waiting for the next one.  A channel closed by a context or a
  timeout is one whose input goes on with the error of the closed transport.
\<close>

datatype handled = HNil | HBreak | HErr error

record 's handler =
  h_type :: string
  h_can :: "item \<Rightarrow> bool"
  h_call :: "item \<Rightarrow> 's \<Rightarrow> handled \<times> 's"

definition funcMap :: "'s handler list \<Rightarrow> string \<rightharpoonup> 's handler" where
  "funcMap hs = map_of (rev (map (\<lambda>h. (h_type h, h)) (filter (\<lambda>h. h_type h \<noteq> []) hs)))"

definition funcSet :: "'s handler list \<Rightarrow> 's handler list" where
  "funcSet hs = filter (\<lambda>h. h_type h = []) hs"

definition find_handler :: "'s handler list \<Rightarrow> item \<Rightarrow> 's handler option" where
  "find_handler hs x =
     (case funcMap hs (item_type x) of
        Some h \<Rightarrow> Some h
      | None \<Rightarrow> find (\<lambda>h. h_can h x) (funcSet hs))"

definition unexpected :: "item \<Rightarrow> error" where
  "unexpected x = ErrMsg (''unexpected object: '' @ item_type x)"

fun Switch_loop :: "bool \<Rightarrow> 's handler list \<Rightarrow> item res list \<Rightarrow> 's \<Rightarrow> error option option \<times> 's" where
  "Switch_loop failEOF hs [] s = (None, s)"
| "Switch_loop failEOF hs (Inl e # rs) s =
     (Some (if e = IoEOF then (if failEOF then Some IoUnexpectedEOF else None) else Some e), s)"
| "Switch_loop failEOF hs (Inr x # rs) s =
     (case find_handler hs x of
        None \<Rightarrow> (Some (Some (unexpected x)), s)
      | Some h \<Rightarrow>
          (case h_call h x s of
             (HNil, s1) \<Rightarrow> Switch_loop failEOF hs rs s1
           | (HBreak, s1) \<Rightarrow> (Some None, s1)
           | (HErr e, s1) \<Rightarrow> (Some (Some e), s1)))"

definition Channel_Switch :: "(config \<Rightarrow> config) list \<Rightarrow> 's handler list \<Rightarrow> item res list \<Rightarrow> 's \<Rightarrow> error option option \<times> 's" where
  "Channel_Switch fs hs rs s =
     (if fs = [] \<and> hs = [] then (Some (Some (ErrMsg ''no arguments provided'')), s)
      else Switch_loop (failOnEOF (applyConfig fs)) hs rs s)"

text \<open>\<^verbatim>\<open>Channel.Collect\<close>: every object to the collector until EOF.\<close>

fun Channel_Collect :: "(item \<Rightarrow> 's \<Rightarrow> error option \<times> 's) \<Rightarrow> item res list \<Rightarrow> 's \<Rightarrow> error option option \<times> 's" where
  "Channel_Collect collector [] s = (None, s)"
| "Channel_Collect collector (Inl e # rs) s = (Some (if e = IoEOF then None else Some e), s)"
| "Channel_Collect collector (Inr x # rs) s =
     (case collector x s of (Some e, s1) \<Rightarrow> (Some (Some e), s1) | (None, s1) \<Rightarrow> Channel_Collect collector rs s1)"

text \<open>The ready-made handlers.\<close>

definition ExpectAck :: "'s handler" where
  "ExpectAck = \<lparr>h_type = ''ack'', h_can = (\<lambda>_. True), h_call = (\<lambda>x s. (HBreak, s))\<rparr>"

definition BreakOnEOS :: "'s handler" where
  "BreakOnEOS = \<lparr>h_type = ''eos'', h_can = (\<lambda>_. True), h_call = (\<lambda>x s. (HBreak, s))\<rparr>"

definition MarkEOS :: "('w \<times> bool) handler" where
  "MarkEOS = \<lparr>h_type = ''eos'', h_can = (\<lambda>_. True), h_call = (\<lambda>x (w, saw). (HBreak, (w, True)))\<rparr>"

definition Collect_handler :: "string \<Rightarrow> item list handler" where
  "Collect_handler t = \<lparr>h_type = t, h_can = (\<lambda>_. True), h_call = (\<lambda>x dst. (HNil, dst @ [x]))\<rparr>"

definition Expect_handler :: "string \<Rightarrow> item option handler" where
  "Expect_handler t = \<lparr>h_type = t, h_can = (\<lambda>_. True), h_call = (\<lambda>x s. (HBreak, Some x))\<rparr>"

subsection \<open>Batch\<close>

definition eos :: item where
  "eos = Obj (Native ''eos'' [])"

text \<open>\<open>err_text\<close> prints an error.\<close>

definition err_item :: "(error \<Rightarrow> string) \<Rightarrow> error \<Rightarrow> item" where
  "err_item err_text e = Obj (NewError (err_text e))"

definition send_as :: "(item \<Rightarrow> 'w \<Rightarrow> error option \<times> 'w) \<Rightarrow> item \<Rightarrow> 'w \<times> bool \<Rightarrow> handled \<times> 'w \<times> bool" where
  "send_as send x s =
     (case s of (w, saw) \<Rightarrow> (case send x w of (None, w1) \<Rightarrow> (HNil, (w1, saw)) | (Some e, w1) \<Rightarrow> (HErr e, (w1, saw))))"

text \<open>
  \<open>T\<close> is the object type of the typed arm, empty when the arm takes an interface; then \<open>can\<close> says
  what it accepts.  \<open>isErr\<close> says an item is an error object.
\<close>

definition batch_handlers :: "(error \<Rightarrow> string) \<Rightarrow> (item \<Rightarrow> bool) \<Rightarrow> (item \<Rightarrow> 'w \<Rightarrow> error option \<times> 'w) \<Rightarrow>
    string \<Rightarrow> (item \<Rightarrow> bool) \<Rightarrow> (item \<Rightarrow> item) \<Rightarrow> ('w \<times> bool) handler list" where
  "batch_handlers err_text isErr send T can fn =
     [\<lparr>h_type = [], h_can = isErr, h_call = (\<lambda>x. send_as send (err_item err_text (unexpected x)))\<rparr>,
      \<lparr>h_type = T, h_can = can, h_call = (\<lambda>x. send_as send (fn x))\<rparr>,
      \<lparr>h_type = [], h_can = (\<lambda>_. True), h_call = (\<lambda>x. send_as send (err_item err_text (unexpected x)))\<rparr>,
      MarkEOS]"

definition Batch :: "(error \<Rightarrow> string) \<Rightarrow> (item \<Rightarrow> bool) \<Rightarrow> (item \<Rightarrow> 'w \<Rightarrow> error option \<times> 'w) \<Rightarrow>
    string \<Rightarrow> (item \<Rightarrow> bool) \<Rightarrow> (item \<Rightarrow> item) \<Rightarrow> (config \<Rightarrow> config) list \<Rightarrow> item res list \<Rightarrow> 'w \<Rightarrow> error option option \<times> 'w" where
  "Batch err_text isErr send T can fn fs rs w =
     (case Channel_Switch fs (batch_handlers err_text isErr send T can fn) rs (w, False) of
        (None, (w1, saw)) \<Rightarrow> (None, w1)
      | (Some (Some e), (w1, saw)) \<Rightarrow> (Some (Some e), snd (send (err_item err_text e) w1))
      | (Some None, (w1, saw)) \<Rightarrow>
          if \<not> saw then (Some None, w1)
          else (case send eos w1 of (e, w2) \<Rightarrow> (Some e, w2)))"

subsection \<open>Binary streams\<close>

lemma stage_read:
  assumes "stage W = Inr bs" and "reads_back W R v"
  shows "R \<lparr>inp = bs @ rest, rb = None\<rparr> = (Inr v, length bs, \<lparr>inp = rest, rb = None\<rparr>)"
proof -
  obtain n w where w: "W \<lparr>out = [], wb = None\<rparr> = (None, n, w)" "bs = out w"
    using assms(1) by (auto simp: stage_def split: prod.splits option.splits)
  then show ?thesis using reads_back_naked [OF assms(2) w(1)] by simp
qed

definition item_ok :: "(string \<Rightarrow> bytes \<Rightarrow> bool) \<Rightarrow> registry \<Rightarrow> bool \<Rightarrow> item \<Rightarrow> bool" where
  "item_ok nok bps allow x =
     (case x of
        Obj v \<Rightarrow> ObjectType v \<noteq> [] \<and> named_ok bps (ObjectType v) v \<and> obj_ok nok bps v
      | Blob b \<Rightarrow> True
      | Unparsed t b \<Rightarrow> t \<noteq> [] \<and> New bps t = None \<and> allow)"

text \<open>What the default registry and the compile-time types have to offer.\<close>

definition natives_ok :: "(string \<Rightarrow> bytes \<Rightarrow> bool) \<Rightarrow> (string \<Rightarrow> bytes reader) \<Rightarrow> bool" where
  "natives_ok nok nread \<longleftrightarrow> (\<forall>n p. nok n p \<longrightarrow> reads_back (Write p) (nread n) p) \<and> (\<forall>n. rsafe (nread n))"

lemma decode_sent:
  assumes nat: "natives_ok nok nread" and c: "prims_concrete bps" and ok: "item_ok nok bps allow x"
    and buf: "stage (item_WriteTo x) = Inr payload"
  shows "decode_payload nread bps allow (item_type x) payload = Inr x"
proof (cases x)
  case (Obj v)
  obtain z where z: "New bps (ObjectType v) = Some z" "like z v"
    using ok Obj by (auto simp: item_ok_def named_ok_def split: option.splits)
  have "reads_back (obj_WriteTo v) (obj_ReadFrom nread bps z) v"
    using nat ok Obj by (intro rb_obj [of nok, OF _ _ c z]) (auto simp: natives_ok_def item_ok_def)
  from stage_read [OF _ this, of payload "[]"] show ?thesis
    using buf Obj z ok by (simp add: decode_payload_def item_ok_def)
next
  case (Blob b)
  then show ?thesis using buf by (simp add: decode_payload_def stage_def Write_def)
next
  case (Unparsed t b)
  then show ?thesis using buf ok by (simp add: decode_payload_def stage_def Write_def item_ok_def)
qed

text \<open>A frame is skipped whole, whether or not its payload decodes.\<close>

lemma binary_frame:
  assumes sent: "BinarySender_Send x stream = (None, stream1)"
  shows "\<exists>frame payload. stream1 = stream @ frame \<and> stage (item_WriteTo x) = Inr payload \<and>
    (\<forall>rest. BinaryReceiver_Receive nread bps allow (frame @ rest) =
       (decode_payload nread bps allow (item_type x) payload, rest))"
proof -
  obtain payload frame where p: "stage (item_WriteTo x) = Inr payload"
    and f: "stage (wseq (String8_WriteTo (item_type x)) (Bytes32_WriteTo payload)) = Inr frame" and s: "stream1 = stream @ frame"
    using sent by (auto simp: BinarySender_Send_def split: sum.splits)
  have rb: "reads_back (wseq (String8_WriteTo (item_type x)) (Bytes32_WriteTo payload))
      (rbind ObjectType_ReadFrom (\<lambda>t. rmap (Pair t) Bytes32_ReadFrom)) (item_type x, payload)"
    unfolding ObjectType_ReadFrom_def
    by (intro rb_seq [OF string8.round_trip] rb_map bytes32.round_trip) simp_all
  have "BinaryReceiver_Receive nread bps allow (frame @ rest) = (decode_payload nread bps allow (item_type x) payload, rest)" for rest
    using stage_read [OF f rb, of rest]
    by (auto simp: BinaryReceiver_Receive_def rbind_def rmap_def rret_def split: prod.splits sum.splits)
  then show ?thesis using s p by blast
qed

fun send_all :: "item list \<Rightarrow> bytes \<Rightarrow> error option \<times> bytes" where
  "send_all [] stream = (None, stream)"
| "send_all (x # xs) stream =
     (case BinarySender_Send x stream of (Some e, st) \<Rightarrow> (Some e, st) | (None, st) \<Rightarrow> send_all xs st)"

fun receive_all :: "(string \<Rightarrow> bytes reader) \<Rightarrow> registry \<Rightarrow> bool \<Rightarrow> nat \<Rightarrow> bytes \<Rightarrow> item res list" where
  "receive_all nread bps allow 0 stream = []"
| "receive_all nread bps allow (Suc n) stream =
     (case BinaryReceiver_Receive nread bps allow stream of (r, rest) \<Rightarrow> r # receive_all nread bps allow n rest)"

text \<open>Every item gets its own answer, the item itself where the receiver can decode it.\<close>

lemma binary_stream:
  assumes nat: "natives_ok nok nread" and c: "prims_concrete bps"
  shows "send_all xs stream = (None, stream1) \<Longrightarrow>
    \<exists>bs rs. stream1 = stream @ bs \<and> list_all2 (\<lambda>x r. item_ok nok bps allow x \<longrightarrow> r = Inr x) xs rs \<and>
      (\<forall>rest. receive_all nread bps allow (length xs + k) (bs @ rest) = rs @ receive_all nread bps allow k rest)"
proof (induction xs arbitrary: stream)
  case (Cons x xs)
  obtain st where st: "BinarySender_Send x stream = (None, st)" "send_all xs st = (None, stream1)"
    using Cons.prems by (auto split: prod.splits option.splits)
  obtain frame payload where f: "st = stream @ frame" "stage (item_WriteTo x) = Inr payload"
      "\<And>rest. BinaryReceiver_Receive nread bps allow (frame @ rest) =
        (decode_payload nread bps allow (item_type x) payload, rest)"
    using binary_frame [OF st(1)] by blast
  obtain bs rs where bs: "stream1 = st @ bs" "list_all2 (\<lambda>x r. item_ok nok bps allow x \<longrightarrow> r = Inr x) xs rs"
      "\<And>rest. receive_all nread bps allow (length xs + k) (bs @ rest) = rs @ receive_all nread bps allow k rest"
    using Cons.IH [OF st(2)] by blast
  have "item_ok nok bps allow x \<longrightarrow> decode_payload nread bps allow (item_type x) payload = Inr x"
    using decode_sent [OF nat c _ f(2)] by blast
  then show ?case using f bs
    by (intro exI [of _ "frame @ bs"] exI [of _ "decode_payload nread bps allow (item_type x) payload # rs"]) simp
qed simp

lemma receive_end: "BinaryReceiver_Receive nread bps allow [] = (Inl IoEOF, [])"
  by (simp add: BinaryReceiver_Receive_def ObjectType_ReadFrom_def String8_ReadFrom_def rbind_def
      Uint8_ReadFrom_def readFixed_def ReadFull_def room_def spend_def)

subsection \<open>Canonical streams\<close>

lemma canonical_frame:
  assumes nat: "natives_ok nok nread" and c: "prims_concrete bps" and ok: "item_ok nok bps allow (Obj v)"
    and sent: "CanonicalSender_Send (Obj v) stream = (None, stream1)"
  shows "\<exists>frame. stream1 = stream @ frame \<and>
    (\<forall>rest. CanonicalReceiver_Receive nread bps (None, frame @ rest) = (Inr (Obj v), None, rest))"
proof -
  obtain z where z: "New bps (ObjectType v) = Some z" "like z v"
    using ok by (auto simp: item_ok_def named_ok_def split: option.splits)
  have rb: "reads_back (obj_WriteTo v) (obj_ReadFrom nread bps z) v"
    using nat ok by (intro rb_obj [of nok, OF _ _ c z]) (auto simp: natives_ok_def item_ok_def)
  obtain frame where f: "stage (wseq Stamp_WriteTo (wseq (ObjectType_WriteTo (ObjectType v)) (obj_WriteTo v))) = Inr frame"
    and s: "stream1 = stream @ frame" using sent by (auto simp: CanonicalSender_Send_def split: sum.splits)
  have "reads_back (wseq Stamp_WriteTo (wseq (ObjectType_WriteTo (ObjectType v)) (obj_WriteTo v))) (canonical_read nread bps) v"
    unfolding canonical_read_def
    by (rule rb_seq [OF stamp.round_trip], simp, rule rb_seq [OF object_type.round_trip]) (use z rb in simp_all)
  from stage_read [OF f this] show ?thesis using s by (simp add: CanonicalReceiver_Receive_def)
qed

lemma canonical_latch:
  "CanonicalReceiver_Receive nread bps (None, stream) = (Inl e, st) \<Longrightarrow>
     CanonicalReceiver_Receive nread bps st = (Inl e, st)"
  by (auto simp: CanonicalReceiver_Receive_def split: prod.splits sum.splits option.splits)

subsection \<open>Batches\<close>

text \<open>The reply to one input, and a sender that never fails.\<close>

definition batch_reply :: "(error \<Rightarrow> string) \<Rightarrow> (item \<Rightarrow> bool) \<Rightarrow> string \<Rightarrow> (item \<Rightarrow> bool) \<Rightarrow> (item \<Rightarrow> item) \<Rightarrow> item \<Rightarrow> item" where
  "batch_reply err_text isErr T can fn x =
     (if T \<noteq> [] \<and> item_type x = T then fn x
      else if isErr x then err_item err_text (unexpected x)
      else if T = [] \<and> can x then fn x
      else err_item err_text (unexpected x))"

definition push_item :: "item \<Rightarrow> item list \<Rightarrow> error option \<times> item list" where
  "push_item x w = (None, w @ [x])"

lemma batch_step:
  assumes "T \<noteq> ''eos''" and "item_type x \<noteq> ''eos''"
  shows "\<exists>h. find_handler (batch_handlers err_text isErr send T can fn) x = Some h \<and>
    h_call h x = send_as send (batch_reply err_text isErr T can fn x)"
  using assms
  by (cases "T = []"; cases "item_type x = T"; cases "isErr x"; cases "can x")
    (simp_all add: find_handler_def funcMap_def funcSet_def batch_handlers_def MarkEOS_def batch_reply_def)

lemma batch_end:
  assumes "T \<noteq> ''eos''" and "item_type x = ''eos''"
  shows "find_handler (batch_handlers err_text isErr send T can fn) x = Some MarkEOS"
  using assms by (cases "T = []") (simp_all add: find_handler_def funcMap_def batch_handlers_def MarkEOS_def)

lemma batch_switch:
  assumes "T \<noteq> ''eos''"
  shows "(\<And>x. x \<in> set xs \<Longrightarrow> item_type x \<noteq> ''eos'') \<Longrightarrow>
    Switch_loop f (batch_handlers err_text isErr push_item T can fn) (map Inr xs @ rs) (w, saw) =
    Switch_loop f (batch_handlers err_text isErr push_item T can fn) rs (w @ map (batch_reply err_text isErr T can fn) xs, saw)"
proof (induction xs arbitrary: w)
  case (Cons x xs)
  obtain h where h: "find_handler (batch_handlers err_text isErr push_item T can fn) x = Some h"
      "h_call h x = send_as push_item (batch_reply err_text isErr T can fn x)"
    using batch_step [OF assms, of x] Cons.prems by force
  then have "h_call h x (w, saw) = (HNil, w @ [batch_reply err_text isErr T can fn x], saw)"
    by (simp add: send_as_def push_item_def)
  then show ?case using h(1) Cons.IH [of "w @ [batch_reply err_text isErr T can fn x]"] Cons.prems by simp
qed simp

lemma batch_replies:
  assumes "T \<noteq> ''eos''" and xs: "\<And>x. x \<in> set xs \<Longrightarrow> item_type x \<noteq> ''eos''" and "\<not> failOnEOF (applyConfig fs)"
  shows "Batch err_text isErr push_item T can fn fs (map Inr xs @ Inr eos # rs) [] =
      (Some None, map (batch_reply err_text isErr T can fn) xs @ [eos])"
    and "Batch err_text isErr push_item T can fn fs (map Inr xs @ [Inl IoEOF]) [] =
      (Some None, map (batch_reply err_text isErr T can fn) xs)"
    and "e \<noteq> IoEOF \<Longrightarrow> Batch err_text isErr push_item T can fn fs (map Inr xs @ [Inl e]) [] =
      (Some (Some e), map (batch_reply err_text isErr T can fn) xs @ [err_item err_text e])"
proof -
  have ne: "batch_handlers err_text isErr push_item T can fn \<noteq> []" by (simp add: batch_handlers_def)
  have "item_type eos = ''eos''" by (simp add: eos_def)
  from batch_end [OF assms(1) this, of err_text isErr push_item can fn]
  show "Batch err_text isErr push_item T can fn fs (map Inr xs @ Inr eos # rs) [] =
      (Some None, map (batch_reply err_text isErr T can fn) xs @ [eos])"
    using ne batch_switch [OF assms(1), of xs] xs
    by (simp add: Batch_def Channel_Switch_def MarkEOS_def push_item_def)
  show "Batch err_text isErr push_item T can fn fs (map Inr xs @ [Inl IoEOF]) [] =
      (Some None, map (batch_reply err_text isErr T can fn) xs)"
    using ne batch_switch [OF assms(1), of xs] xs assms(3) by (simp add: Batch_def Channel_Switch_def)
  show "e \<noteq> IoEOF \<Longrightarrow> Batch err_text isErr push_item T can fn fs (map Inr xs @ [Inl e]) [] =
      (Some (Some e), map (batch_reply err_text isErr T can fn) xs @ [err_item err_text e])"
    using ne batch_switch [OF assms(1), of xs] xs by (simp add: Batch_def Channel_Switch_def push_item_def)
qed

end
