(* ===== verification/Bundle.thy ===== *)
theory Bundle
  imports Channel
begin

text \<open>
  Bundles of objects: \<^verbatim>\<open>src/astral/bundle.go\<close>.  A bundle keeps its objects in order and an index
  from the text of an object's identifier to its position; the index is nil (\<open>None\<close>) until the
  first Append.  Every member is staged in a buffer of its own whose writer shares the ledger
  (\<^verbatim>\<open>subWriter\<close>), and read back through a reader that shares it (\<^verbatim>\<open>sub\<close>).
\<close>

record object_bundle =
  b_objects :: "item list"
  b_index :: "(string \<rightharpoonup> nat) option"

definition NewBundle :: object_bundle where
  "NewBundle = \<lparr>b_objects = [], b_index = None\<rparr>"

definition object_key :: "(bytes \<Rightarrow> bytes) \<Rightarrow> item \<Rightarrow> string res" where
  "object_key sha256 x =
     (case ResolveObjectID sha256 (item_type x) (item_WriteTo x) of Inl e \<Rightarrow> Inl e | Inr i \<Rightarrow> Inr (ObjectID_String i))"

definition index_of :: "object_bundle \<Rightarrow> string \<rightharpoonup> nat" where
  "index_of b = (case b_index b of None \<Rightarrow> Map.empty | Some m \<Rightarrow> m)"

definition Bundle_append :: "(bytes \<Rightarrow> bytes) \<Rightarrow> item \<Rightarrow> object_bundle \<Rightarrow> error option \<times> object_bundle" where
  "Bundle_append sha256 x b =
     (case object_key sha256 x of
        Inl e \<Rightarrow> (Some e, b)
      | Inr s \<Rightarrow>
          if index_of b s \<noteq> None then (Some (ErrDuplicateObject s), b)
          else (None, \<lparr>b_objects = b_objects b @ [x], b_index = Some ((index_of b)(s \<mapsto> length (b_objects b)))\<rparr>))"

fun append_all :: "(bytes \<Rightarrow> bytes) \<Rightarrow> item list \<Rightarrow> object_bundle \<Rightarrow> error option \<times> object_bundle" where
  "append_all sha256 [] b = (None, b)"
| "append_all sha256 (x # xs) b =
     (case Bundle_append sha256 x b of (Some e, b1) \<Rightarrow> (Some e, b1) | (None, b1) \<Rightarrow> append_all sha256 xs b1)"

definition Bundle_Append :: "(bytes \<Rightarrow> bytes) \<Rightarrow> item list \<Rightarrow> object_bundle \<Rightarrow> error option \<times> object_bundle" where
  "Bundle_Append sha256 xs b = append_all sha256 xs (b\<lparr>b_index := Some (index_of b)\<rparr>)"

definition Bundle_Fetch :: "objectID \<Rightarrow> object_bundle \<Rightarrow> item option" where
  "Bundle_Fetch i b = (case index_of b (ObjectID_String i) of None \<Rightarrow> None | Some k \<Rightarrow> Some (b_objects b ! k))"

definition Bundle_Objects :: "object_bundle \<Rightarrow> item list" where
  "Bundle_Objects b = b_objects b"

text \<open>A Go type parameter is the test whether an object has that type.\<close>

definition SelectByType :: "(item \<Rightarrow> bool) \<Rightarrow> item list \<Rightarrow> item list" where
  "SelectByType is_T xs = filter is_T xs"

definition First :: "(item \<Rightarrow> bool) \<Rightarrow> item list \<Rightarrow> item option" where
  "First is_T xs = find is_T xs"

definition Fetch_as :: "(item \<Rightarrow> bool) \<Rightarrow> object_bundle \<Rightarrow> objectID \<Rightarrow> item option" where
  "Fetch_as is_T b i = (case Bundle_Fetch i b of None \<Rightarrow> None | Some x \<Rightarrow> if is_T x then Some x else None)"

subsection \<open>Wire form\<close>

definition member_WriteTo :: "item \<Rightarrow> writer" where
  "member_WriteTo x w =
     (case wseq (String8_WriteTo (item_type x)) (item_WriteTo x) \<lparr>out = [], wb = wb w\<rparr> of
        (Some e, n, s) \<Rightarrow> (Some e, 0, w\<lparr>wb := wb s\<rparr>)
      | (None, n, s) \<Rightarrow> Bytes32_WriteTo (out s) (w\<lparr>wb := wb s\<rparr>))"

definition Bundle_WriteTo :: "object_bundle \<Rightarrow> writer" where
  "Bundle_WriteTo b =
     wframe (wseq (Uint32_WriteTo (of_nat (length (b_objects b)))) (writeAll (map member_WriteTo (b_objects b))))"

definition appendUnique :: "(bytes \<Rightarrow> bytes) \<Rightarrow> item list \<Rightarrow> (string \<rightharpoonup> nat) \<Rightarrow> item \<Rightarrow> (item list \<times> (string \<rightharpoonup> nat)) res" where
  "appendUnique sha256 objects index x =
     (case object_key sha256 x of
        Inl e \<Rightarrow> Inl e
      | Inr s \<Rightarrow>
          if index s \<noteq> None then Inl (ErrDuplicateObject s)
          else Inr (objects @ [x], index(s \<mapsto> length objects)))"

definition member_ReadFrom :: "(string \<Rightarrow> bytes reader) \<Rightarrow> registry \<Rightarrow> item reader" where
  "member_ReadFrom nread bps =
     rbind Bytes32_ReadFrom (\<lambda>buf r.
       case Decode nread bps ShortTypeDecoder \<lparr>inp = buf, rb = rb r\<rparr> of
         (Inl e, n, s) \<Rightarrow> (Inl e, 0, r\<lparr>rb := rb s\<rparr>)
       | (Inr v, n, s) \<Rightarrow> (Inr (Obj v), 0, r\<lparr>rb := rb s\<rparr>))"

fun readMembers :: "(bytes \<Rightarrow> bytes) \<Rightarrow> (string \<Rightarrow> bytes reader) \<Rightarrow> registry \<Rightarrow> nat \<Rightarrow> item list \<Rightarrow> (string \<rightharpoonup> nat) \<Rightarrow> (item list \<times> (string \<rightharpoonup> nat)) reader" where
  "readMembers sha256 nread bps 0 objects index = rret (objects, index)"
| "readMembers sha256 nread bps (Suc k) objects index =
     rbind (member_ReadFrom nread bps) (\<lambda>x.
       case appendUnique sha256 objects index x of
         Inl e \<Rightarrow> rfail e
       | Inr (objects1, index1) \<Rightarrow> readMembers sha256 nread bps k objects1 index1)"

definition Bundle_read :: "(bytes \<Rightarrow> bytes) \<Rightarrow> (string \<Rightarrow> bytes reader) \<Rightarrow> registry \<Rightarrow> object_bundle reader" where
  "Bundle_read sha256 nread bps =
     rframe (rbind Uint32_ReadFrom (\<lambda>count.
       rmap (\<lambda>(objects, index). \<lparr>b_objects = objects, b_index = Some index\<rparr>)
         (readMembers sha256 nread bps (unat count) [] Map.empty)))"

text \<open>\<^verbatim>\<open>ReadFrom\<close> commits what was read only at the end.\<close>

definition Bundle_ReadFrom :: "(bytes \<Rightarrow> bytes) \<Rightarrow> (string \<Rightarrow> bytes reader) \<Rightarrow> registry \<Rightarrow> object_bundle \<Rightarrow> rstate \<Rightarrow> error option \<times> nat \<times> object_bundle \<times> rstate" where
  "Bundle_ReadFrom sha256 nread bps b r =
     (case Bundle_read sha256 nread bps r of
        (Inl e, n, r1) \<Rightarrow> (Some e, n, b, r1)
      | (Inr b1, n, r1) \<Rightarrow> (None, n, b1, r1))"

subsection \<open>The index\<close>

text \<open>
  The index holds exactly the identifiers of the objects, each with its position; so no two
  objects share one.
\<close>

definition index_ok :: "(bytes \<Rightarrow> bytes) \<Rightarrow> item list \<Rightarrow> (string \<rightharpoonup> nat) \<Rightarrow> bool" where
  "index_ok sha256 objects m \<longleftrightarrow>
     (\<forall>s k. m s = Some k \<longleftrightarrow> k < length objects \<and> object_key sha256 (objects ! k) = Inr s) \<and>
     (\<forall>x \<in> set objects. \<exists>s. object_key sha256 x = Inr s)"

definition bundle_inv :: "(bytes \<Rightarrow> bytes) \<Rightarrow> object_bundle \<Rightarrow> bool" where
  "bundle_inv sha256 b \<longleftrightarrow> index_ok sha256 (b_objects b) (index_of b)"

lemma index_ok_Nil: "index_ok sha256 [] Map.empty"
  by (simp add: index_ok_def)

lemma index_ok_snoc:
  assumes "index_ok sha256 objects m" and "object_key sha256 x = Inr s" and "m s = None"
  shows "index_ok sha256 (objects @ [x]) (m(s \<mapsto> length objects))"
proof -
  have fresh: "k < length objects \<Longrightarrow> object_key sha256 (objects ! k) \<noteq> Inr s" for k
    using assms(1,3) unfolding index_ok_def by (metis option.distinct(1))
  show ?thesis using assms fresh unfolding index_ok_def by (auto simp: nth_append less_Suc_eq)
qed

lemma index_ok_unique:
  assumes "index_ok sha256 objects m"
  shows "distinct (map (object_key sha256) objects)"
  unfolding distinct_conv_nth
proof (intro allI impI)
  fix i j
  assume ij: "i < length (map (object_key sha256) objects)" "j < length (map (object_key sha256) objects)" "i \<noteq> j"
  then obtain s where s: "object_key sha256 (objects ! i) = Inr s" using assms unfolding index_ok_def by (metis length_map nth_mem)
  show "map (object_key sha256) objects ! i \<noteq> map (object_key sha256) objects ! j"
  proof
    assume "map (object_key sha256) objects ! i = map (object_key sha256) objects ! j"
    then have "m s = Some i" "m s = Some j" using assms s ij by (auto simp: index_ok_def)
    then show False using ij(3) by simp
  qed
qed

lemma appendUnique_ok:
  "index_ok sha256 objects m \<Longrightarrow> appendUnique sha256 objects m x = Inr (objects1, m1) \<Longrightarrow>
     index_ok sha256 objects1 m1 \<and> objects1 = objects @ [x]"
  by (auto simp: appendUnique_def intro!: index_ok_snoc split: sum.splits if_splits)

lemma Bundle_append_inv:
  "bundle_inv sha256 b \<Longrightarrow> Bundle_append sha256 x b = (e, b1) \<Longrightarrow>
     bundle_inv sha256 b1 \<and> b_objects b1 = b_objects b @ (if e = None then [x] else [])"
  by (auto simp: Bundle_append_def bundle_inv_def index_of_def intro!: index_ok_snoc split: sum.splits if_splits)

text \<open>Append keeps the order and stops at the first object it refuses.\<close>

lemma append_all_inv:
  "bundle_inv sha256 b \<Longrightarrow> append_all sha256 xs b = (e, b1) \<Longrightarrow>
     bundle_inv sha256 b1 \<and> (\<exists>ys zs. xs = ys @ zs \<and> b_objects b1 = b_objects b @ ys \<and> (e = None \<longleftrightarrow> zs = []))"
proof (induction xs arbitrary: b)
  case (Cons x xs)
  obtain e1 b2 where b2: "Bundle_append sha256 x b = (e1, b2)" by (cases "Bundle_append sha256 x b") auto
  note step = Bundle_append_inv [OF Cons.prems(1) b2]
  show ?case
  proof (cases e1)
    case (Some err)
    then show ?thesis using step Cons.prems(2) b2 by (auto intro!: exI [of _ "[]"])
  next
    case None
    then obtain ys zs where "xs = ys @ zs" "b_objects b1 = b_objects b2 @ ys" "e = None \<longleftrightarrow> zs = []" "bundle_inv sha256 b1"
      using Cons.IH [of b2] step Cons.prems(2) b2 by auto
    then show ?thesis using None step by (auto intro!: exI [of _ "x # ys"])
  qed
qed simp

lemma Bundle_Append_inv:
  "bundle_inv sha256 b \<Longrightarrow> Bundle_Append sha256 xs b = (e, b1) \<Longrightarrow>
     bundle_inv sha256 b1 \<and> (\<exists>ys zs. xs = ys @ zs \<and> b_objects b1 = b_objects b @ ys \<and> (e = None \<longleftrightarrow> zs = []))"
  using append_all_inv [of sha256 "b\<lparr>b_index := Some (index_of b)\<rparr>" xs e b1]
  by (simp add: Bundle_Append_def bundle_inv_def index_of_def)

text \<open>Fetch finds exactly the objects of the bundle, by identifier.\<close>

lemma Bundle_Fetch_iff:
  "bundle_inv sha256 b \<Longrightarrow>
     Bundle_Fetch i b = Some x \<longleftrightarrow> x \<in> set (b_objects b) \<and> object_key sha256 x = Inr (ObjectID_String i)"
proof -
  assume inv: "bundle_inv sha256 b"
  have "Bundle_Fetch i b = Some x \<longleftrightarrow> (\<exists>k. index_of b (ObjectID_String i) = Some k \<and> b_objects b ! k = x)"
    by (auto simp: Bundle_Fetch_def split: option.splits)
  also have "\<dots> \<longleftrightarrow> (\<exists>k. k < length (b_objects b) \<and> object_key sha256 (b_objects b ! k) = Inr (ObjectID_String i) \<and> b_objects b ! k = x)"
    using inv by (simp add: bundle_inv_def index_ok_def)
  also have "\<dots> \<longleftrightarrow> x \<in> set (b_objects b) \<and> object_key sha256 x = Inr (ObjectID_String i)"
    by (auto simp: in_set_conv_nth)
  finally show ?thesis .
qed

lemma readMembers_ok:
  "readMembers sha256 nread bps k objects m r = (Inr (objects1, m1), n, r1) \<Longrightarrow> index_ok sha256 objects m \<Longrightarrow>
     index_ok sha256 objects1 m1 \<and> length objects1 = length objects + k"
proof (induction k arbitrary: objects m r n)
  case 0
  then show ?case by (simp add: rret_def)
next
  case (Suc k)
  obtain x j r2 objects2 m2 i where "appendUnique sha256 objects m x = Inr (objects2, m2)"
      "readMembers sha256 nread bps k objects2 m2 r2 = (Inr (objects1, m1), i, r1)"
    using Suc.prems(1) by (auto simp: rbind_def rfail_def split: prod.splits sum.splits)
  then show ?case using Suc.IH appendUnique_ok [OF Suc.prems(2)] by fastforce
qed

lemma Bundle_read_ok: "Bundle_read sha256 nread bps r = (Inr b, n, r1) \<Longrightarrow> bundle_inv sha256 b"
  by (auto simp: Bundle_read_def rframe_def rbind_def rmap_def rret_def bundle_inv_def index_of_def
      dest!: readMembers_ok [OF _ index_ok_Nil] split: prod.splits option.splits sum.splits)

subsection \<open>Writers under a heavier ledger\<close>

text \<open>
  The reader of a member pays for the frame before the member, the writer after it.  What makes
  the two agree is that a writer's run depends on the bytes already charged only through the
  limit: with \<open>k\<close> more bytes on the ledger it does the same, as long as they still fit at its end.
\<close>

definition heavier :: "nat \<Rightarrow> wstate \<Rightarrow> wstate" where
  "heavier k w = w\<lparr>wb := spend k (wb w)\<rparr>"

lemma heavier_sel [simp]: "out (heavier k w) = out w" "wb (heavier k w) = spend k (wb w)"
  by (simp_all add: heavier_def)

definition shifts :: "writer \<Rightarrow> bool" where
  "shifts W \<longleftrightarrow>
     (\<forall>w b n w'. W w = (None, n, w') \<longrightarrow> wb w = Some b \<longrightarrow>
        (\<exists>b'. wb w' = Some b' \<and> nbytes b \<le> nbytes b' \<and>
           (\<forall>k. nbytes b' + k \<le> MaxCodecBytes \<longrightarrow> W (heavier k w) = (None, n, heavier k w'))))"

lemma shiftsI:
  assumes "\<And>w b n w'. W w = (None, n, w') \<Longrightarrow> wb w = Some b \<Longrightarrow>
    \<exists>b'. wb w' = Some b' \<and> nbytes b \<le> nbytes b' \<and>
      (\<forall>k. nbytes b' + k \<le> MaxCodecBytes \<longrightarrow> W (heavier k w) = (None, n, heavier k w'))"
  shows "shifts W"
  using assms unfolding shifts_def by blast

lemma shiftsE:
  assumes "shifts W" and "W w = (None, n, w')" and "wb w = Some b"
  obtains b' where "wb w' = Some b'" and "nbytes b \<le> nbytes b'"
    and "\<And>k. nbytes b' + k \<le> MaxCodecBytes \<Longrightarrow> W (heavier k w) = (None, n, heavier k w')"
  using assms unfolding shifts_def by blast

lemma shifts_Write: "shifts (Write p)"
  by (rule shiftsI) (auto simp: Write_def charge_def heavier_def spend_def Let_def split: if_splits)

lemma shifts_skip: "shifts wskip" and shifts_fail: "shifts (wfail e)"
  by (auto simp: shifts_def wskip_def wfail_def)

lemma shifts_seq:
  assumes "shifts V" and "shifts W"
  shows "shifts (wseq V W)"
proof (rule shiftsI)
  fix w b n w'
  assume run: "wseq V W w = (None, n, w')" and b: "wb w = Some b"
  obtain i w1 j where v: "V w = (None, i, w1)" and u: "W w1 = (None, j, w')" and n: "n = i + j"
    using run by (auto simp: wseq_def split: prod.splits option.splits)
  obtain b1 where b1: "wb w1 = Some b1" "nbytes b \<le> nbytes b1"
      "\<And>k. nbytes b1 + k \<le> MaxCodecBytes \<Longrightarrow> V (heavier k w) = (None, i, heavier k w1)"
    using shiftsE [OF assms(1) v b] by blast
  obtain b' where b': "wb w' = Some b'" "nbytes b1 \<le> nbytes b'"
      "\<And>k. nbytes b' + k \<le> MaxCodecBytes \<Longrightarrow> W (heavier k w1) = (None, j, heavier k w')"
    using shiftsE [OF assms(2) u b1(1)] by blast
  have "wseq V W (heavier k w) = (None, n, heavier k w')" if "nbytes b' + k \<le> MaxCodecBytes" for k
  proof -
    have "nbytes b1 + k \<le> MaxCodecBytes" using that b'(2) by simp
    from b1(3) [OF this] b'(3) [OF that] n show ?thesis by (simp add: wseq_def)
  qed
  then show "\<exists>b'. wb w' = Some b' \<and> nbytes b \<le> nbytes b' \<and>
      (\<forall>k. nbytes b' + k \<le> MaxCodecBytes \<longrightarrow> wseq V W (heavier k w) = (None, n, heavier k w'))"
    using b' b1(2) by auto
qed

lemma enter_spend: "enter (b\<lparr>nbytes := m\<rparr>) = (case enter b of (e, b1) \<Rightarrow> (e, b1\<lparr>nbytes := m\<rparr>))"
  by (auto simp: enter_def Let_def)

lemma enter_bytes: "enter b = (e, b1) \<Longrightarrow> nbytes b1 = nbytes b"
  by (auto simp: enter_def Let_def split: if_splits)

lemma exit_spend: "exit (b\<lparr>nbytes := m\<rparr>) = (exit b)\<lparr>nbytes := m\<rparr>" "nbytes (exit b) = nbytes b"
  by (simp_all add: exit_def)

lemma shifts_frame:
  assumes "shifts W"
  shows "shifts (wframe W)"
proof (rule shiftsI)
  fix w b n w'
  assume run: "wframe W w = (None, n, w')" and b: "wb w = Some b"
  obtain b1 w1 where e: "enter b = (None, b1)" and body: "W (w\<lparr>wb := Some b1\<rparr>) = (None, n, w1)"
    and w': "w' = w1\<lparr>wb := map_option exit (wb w1)\<rparr>"
    using run b by (auto simp: wframe_def attach_def detach_def split: prod.splits option.splits)
  obtain b2 where b2: "wb w1 = Some b2" "nbytes b1 \<le> nbytes b2"
      "\<And>k. nbytes b2 + k \<le> MaxCodecBytes \<Longrightarrow> W (heavier k (w\<lparr>wb := Some b1\<rparr>)) = (None, n, heavier k w1)"
    using shiftsE [OF assms body] by auto
  have "wframe W (heavier k w) = (None, n, heavier k w')" if "nbytes (exit b2) + k \<le> MaxCodecBytes" for k
    using b2(3) [of k] that e b w' b2(1) enter_bytes [OF e]
    by (simp add: wframe_def heavier_def spend_def attach_def detach_def enter_spend exit_spend)
  then show "\<exists>b'. wb w' = Some b' \<and> nbytes b \<le> nbytes b' \<and>
      (\<forall>k. nbytes b' + k \<le> MaxCodecBytes \<longrightarrow> wframe W (heavier k w) = (None, n, heavier k w'))"
    using w' b2(1,2) enter_bytes [OF e] by (auto simp: exit_spend)
qed

lemma shifts_counted: "shifts (counted k p)"
proof (rule shiftsI)
  fix w b n w'
  assume run: "counted k p w = (None, n, w')" and b: "wb w = Some b"
  then have w: "Write p w = (None, length p, w')" and n: "n = k"
    by (auto simp: counted_def Write_ok_iff split: prod.splits option.splits)
  obtain b' where "wb w' = Some b'" "nbytes b \<le> nbytes b'"
      "\<And>j. nbytes b' + j \<le> MaxCodecBytes \<Longrightarrow> Write p (heavier j w) = (None, length p, heavier j w')"
    using shiftsE [OF shifts_Write w b] by blast
  then show "\<exists>b'. wb w' = Some b' \<and> nbytes b \<le> nbytes b' \<and>
      (\<forall>j. nbytes b' + j \<le> MaxCodecBytes \<longrightarrow> counted k p (heavier j w) = (None, n, heavier j w'))"
    using n by (auto simp: counted_def)
qed

lemma writers_counted:
  "writeFixed (v :: 'a::len word) = counted (LENGTH('a) div 8) (nat_be (LENGTH('a) div 8) (unat v))"
  "Bool_WriteTo t = counted 1 [if t then 1 else 0]" "Nonce_WriteTo u = counted 8 (nat_be 8 (unat u))"
  "Duration_WriteTo u = counted 8 (nat_be 8 (unat u))"
  by (simp_all only: fun_eq_iff writeFixed_def Bool_WriteTo_def Nonce_WriteTo_def Duration_WriteTo_def counted_def) simp_all

lemmas shifts_intros = shifts_Write shifts_skip shifts_fail shifts_seq shifts_frame shifts_counted

lemma shifts_prim: "shifts (prim_WriteTo p)"
  by (cases p)
    (simp_all add: Uint8_WriteTo_def Uint16_WriteTo_def Uint32_WriteTo_def Uint64_WriteTo_def Int8_WriteTo_def Int16_WriteTo_def
      Int32_WriteTo_def Int64_WriteTo_def String8_WriteTo_def String16_WriteTo_def String32_WriteTo_def String64_WriteTo_def
      Bytes8_WriteTo_def Bytes16_WriteTo_def Bytes32_WriteTo_def Bytes64_WriteTo_def Time_WriteTo_def ObjectID_WriteTo_def
      Zone_WriteTo_def writers_counted shifts_intros)

lemma shifts_String8: "shifts (String8_WriteTo t)"
  using shifts_prim [of "PString8 t"] by simp

lemma shifts_writeAll: "(\<And>W. W \<in> set ws \<Longrightarrow> shifts W) \<Longrightarrow> shifts (writeAll ws)"
  by (induction ws) (simp_all add: shifts_intros)

lemma shifts_elems: "(\<And>W. W \<in> set ws \<Longrightarrow> shifts W) \<Longrightarrow> shifts (writeElems False ws)"
  unfolding writeElems_def by (intro shifts_writeAll) (auto simp: writePresence_def shifts_intros)

lemma shifts_elem: "shifts W \<Longrightarrow> shifts (elem_WriteTo en v W)"
  by (simp add: elem_WriteTo_def interfaceValue_WriteTo_def ptrValue_WriteTo_def writers_counted shifts_intros shifts_String8)

lemma shifts_field: "shifts W \<Longrightarrow> shifts (writeField sp v W)"
  by (simp add: writeField_def ShortTypeEncoder_def ObjectType_WriteTo_def writers_counted shifts_intros shifts_String8
      split: option.splits spec.splits)

lemma shifts_obj: "shifts (obj_WriteTo v)"
proof (induction v rule: obj_WriteTo.induct)
  case (5 bp vs)
  show ?case unfolding obj_WriteTo.simps
    by (intro shifts_frame shifts_writeAll) (auto intro!: shifts_field 5 dest: set_zip_rightD)
next
  case (7 en vs)
  then show ?case unfolding obj_WriteTo.simps sliceValue_WriteTo_def writers_counted
    by (intro shifts_frame shifts_seq shifts_counted shifts_elems) (auto intro: shifts_elem)
next
  case (8 en vs)
  then show ?case unfolding obj_WriteTo.simps arrayValue_WriteTo_def
    by (intro shifts_frame shifts_elems) (auto intro: shifts_elem)
next
  case (9 kind vn es)
  then show ?case unfolding obj_WriteTo.simps mapValue_WriteTo_def writers_counted
    by (auto intro!: shifts_frame shifts_seq shifts_counted shifts_writeAll shifts_Write shifts_fail split: option.splits sum.splits)
qed (simp_all add: shifts_intros shifts_prim)

subsection \<open>Round trip\<close>

text \<open>Inside a frame every writer has a ledger.\<close>

definition ledgered :: "writer \<Rightarrow> writer" where
  "ledgered W w = (case wb w of None \<Rightarrow> (Some ErrDepthExceeded, 0, w) | Some b \<Rightarrow> W w)"

lemma ledgered_ok: "ledgered W w = (None, n, w') \<longleftrightarrow> (\<exists>b. wb w = Some b) \<and> W w = (None, n, w')"
  by (auto simp: ledgered_def split: option.splits)

lemma rb_ledgered: "reads_back W R v \<Longrightarrow> reads_back (ledgered W) R v"
  by (erule rb_wmono) (simp add: ledgered_ok)

lemma rb_ledgered_seq:
  assumes "reads_back (ledgered V) R1 v1" and "reads_back (ledgered W) (R2 v1) v2"
  shows "reads_back (ledgered (wseq V W)) (rbind R1 R2) v2"
proof (rule rb_wmono [OF rb_seq [of _ R1 v1 _ R2 v2, OF assms]])
  fix w n w'
  assume "ledgered (wseq V W) w = (None, n, w')"
  then obtain b i w1 j where v: "wb w = Some b" "V w = (None, i, w1)" "W w1 = (None, j, w')" "n = i + j"
    by (auto simp: ledgered_ok wseq_def split: prod.splits option.splits)
  then have lv: "ledgered V w = (None, i, w1)" by (simp add: ledgered_ok)
  from assms(1) lv have "keeps (wb w) (wb w1)" by (rule reads_backE) simp
  then have "ledgered W w1 = (None, j, w')" using v by (auto simp: ledgered_ok keeps_def split: option.splits)
  then show "wseq (ledgered V) (ledgered W) w = (None, n, w')" using lv v(4) by (simp add: wseq_def)
qed

lemma rb_ledgered_frame: "reads_back (ledgered W) R v \<Longrightarrow> reads_back (wframe W) (rframe R) v"
proof -
  have "wframe (ledgered W) = wframe W" by (auto simp: wframe_def ledgered_def fun_eq_iff split: prod.splits option.splits)
  then show "reads_back (ledgered W) R v \<Longrightarrow> ?thesis" using rb_frame [of "ledgered W" R v] by simp
qed

lemma rb_attach:
  assumes "reads_back W R v"
  shows "reads_back (ledgered W) (rattach R) v"
proof (rule reads_backI)
  fix w n w'
  assume "ledgered W w = (None, n, w')"
  then obtain b where b: "wb w = Some b" and W: "W w = (None, n, w')" by (auto simp: ledgered_ok)
  from assms W obtain bs where bs: "keeps (wb w) (wb w')" "out w' = out w @ bs" "length bs = n"
    "\<And>rest ob. led_le ob (wb w) \<Longrightarrow> \<exists>ob'. R \<lparr>inp = bs @ rest, rb = ob\<rparr> = (Inr v, n, \<lparr>inp = rest, rb = ob'\<rparr>) \<and>
      keeps ob ob' \<and> led_le ob' (wb w')" by (rule reads_backE) blast
  have "\<exists>ob'. rattach R \<lparr>inp = bs @ rest, rb = ob\<rparr> = (Inr v, n, \<lparr>inp = rest, rb = ob'\<rparr>) \<and> keeps ob ob' \<and> led_le ob' (wb w')"
    if le: "led_le ob (wb w)" for rest ob
  proof (cases ob)
    case None
    have "led_le (Some fresh_budget) (wb w)" using b by (simp add: led_le_def fresh_budget_def)
    from bs(4) [OF this, of rest] None show ?thesis by (auto simp: rattach_def attach_def)
  next
    case (Some c)
    with bs(4) [OF le, of rest] show ?thesis by (auto simp: rattach_def attach_def keeps_def split: option.splits)
  qed
  then show "keeps (wb w) (wb w') \<and> (\<exists>bs. out w' = out w @ bs \<and> length bs = n \<and> (\<forall>rest ob. led_le ob (wb w) \<longrightarrow>
      (\<exists>ob'. rattach R \<lparr>inp = bs @ rest, rb = ob\<rparr> = (Inr v, n, \<lparr>inp = rest, rb = ob'\<rparr>) \<and> keeps ob ob' \<and> led_le ob' (wb w'))))"
    using bs(1-3) by blast
qed

lemma rb_tagged:
  assumes nat: "natives_ok nok nread" and c: "prims_concrete bps" and ok: "item_ok nok bps allow (Obj v)"
  shows "reads_back (ledgered (wseq (String8_WriteTo (ObjectType v)) (obj_WriteTo v))) (Decode nread bps ShortTypeDecoder) v"
proof -
  obtain z where z: "New bps (ObjectType v) = Some z" "like z v"
    using ok by (auto simp: item_ok_def named_ok_def split: option.splits)
  have "reads_back (obj_WriteTo v) (obj_ReadFrom nread bps z) v"
    using nat ok by (intro rb_obj [of nok, OF _ _ c z]) (auto simp: natives_ok_def item_ok_def)
  then show ?thesis unfolding Decode_def ShortTypeDecoder_def ObjectType_ReadFrom_def
    using z(1) by (intro rb_ledgered_seq [OF rb_ledgered [OF string8.round_trip]]) (simp_all add: rb_attach)
qed

lemma Bytes32_run:
  "Bytes32_WriteTo p w = (None, n, w') \<longleftrightarrow>
     length p < 2 ^ 32 \<and> n = 4 + length p \<and> fits n (wb w) \<and>
     w' = w\<lparr>out := out w @ nat_be 4 (length p) @ p, wb := spend n (wb w)\<rparr>"
proof (cases "wb w")
  case None
  then show ?thesis by (auto simp: Bytes32_WriteTo_def Uint32_WriteTo_def writers_counted counted_def wseq_def wfail_def Write_def
      fits_def spend_def unat_of_nat_small)
next
  case (Some b)
  then show ?thesis by (auto simp: Bytes32_WriteTo_def Uint32_WriteTo_def writers_counted counted_def wseq_def wfail_def Write_def charge_def
      fits_def spend_def unat_of_nat_small Let_def)
qed

text \<open>
  One member: the frame is written after the member and read before it, so the member is read
  under the ledger its writer would have had with the frame already paid.
\<close>

lemma rb_member:
  assumes tagged: "reads_back (ledgered W) D v" and sh: "shifts W" and W: "W = wseq (String8_WriteTo (ObjectType v)) (obj_WriteTo v)"
    and D: "D = Decode nread bps ShortTypeDecoder"
  shows "reads_back (ledgered (member_WriteTo (Obj v))) (member_ReadFrom nread bps) (Obj v)"
proof (rule reads_backI)
  fix w n w'
  assume "ledgered (member_WriteTo (Obj v)) w = (None, n, w')"
  then obtain b where b: "wb w = Some b" and "member_WriteTo (Obj v) w = (None, n, w')" by (auto simp: ledgered_ok)
  then obtain j s where st: "W \<lparr>out = [], wb = wb w\<rparr> = (None, j, s)" and fr: "Bytes32_WriteTo (out s) (w\<lparr>wb := wb s\<rparr>) = (None, n, w')"
    by (auto simp: member_WriteTo_def W split: prod.splits option.splits)
  obtain b1 where b1: "wb s = Some b1" "nbytes b \<le> nbytes b1"
      "\<And>k. nbytes b1 + k \<le> MaxCodecBytes \<Longrightarrow> W (heavier k \<lparr>out = [], wb = wb w\<rparr>) = (None, j, heavier k s)"
    using shiftsE [OF sh st] b by auto
  have n: "0 < n" "nbytes b1 + n \<le> MaxCodecBytes" and w': "wb w' = spend n (wb s)"
    using fr b1(1) by (auto simp: Bytes32_run fits_def)
  let ?w1 = "w\<lparr>out := out w @ nat_be 4 (length (out s)) @ out s, wb := spend n (wb w)\<rparr>"
  have "Bytes32_WriteTo (out s) w = (None, n, ?w1)" using fr b b1 by (auto simp: Bytes32_run fits_def)
  from bytes32.round_trip [OF TrueI, of "out s"] this obtain bs where bs: "out ?w1 = out w @ bs" "length bs = n"
    and rd: "\<And>rest ob. led_le ob (wb w) \<Longrightarrow> \<exists>ob'. Bytes32_ReadFrom \<lparr>inp = bs @ rest, rb = ob\<rparr> =
      (Inr (out s), n, \<lparr>inp = rest, rb = ob'\<rparr>) \<and> keeps ob ob' \<and> led_le ob' (wb ?w1)"
    by (rule reads_backE) blast
  have out: "out w' = out w @ bs" using fr bs(1) by (simp add: Bytes32_run)
  have sw: "ledgered W (heavier n \<lparr>out = [], wb = wb w\<rparr>) = (None, j, heavier n s)"
    using b1(3) [OF n(2)] b by (simp add: ledgered_ok spend_def)
  from tagged this obtain ps where ps: "out s = ps"
    and dec: "\<And>rest ob. led_le ob (spend n (wb w)) \<Longrightarrow> \<exists>ob'. D \<lparr>inp = ps @ rest, rb = ob\<rparr> = (Inr v, j, \<lparr>inp = rest, rb = ob'\<rparr>) \<and>
      keeps ob ob' \<and> led_le ob' (spend n (wb s))"
    by (rule reads_backE) simp
  have "ledgered W \<lparr>out = [], wb = wb w\<rparr> = (None, j, s)" using st b by (simp add: ledgered_ok)
  from tagged this have ks: "keeps (wb w) (wb s)" by (rule reads_backE) simp
  have "\<exists>ob'. member_ReadFrom nread bps \<lparr>inp = bs @ rest, rb = ob\<rparr> = (Inr (Obj v), n, \<lparr>inp = rest, rb = ob'\<rparr>) \<and>
      keeps ob ob' \<and> led_le ob' (wb w')" if le: "led_le ob (wb w)" for rest ob
  proof -
    obtain ob1 where r1: "Bytes32_ReadFrom \<lparr>inp = bs @ rest, rb = ob\<rparr> = (Inr (out s), n, \<lparr>inp = rest, rb = ob1\<rparr>)" "keeps ob ob1"
        "led_le ob1 (spend n (wb w))" using rd [OF le, of rest] by auto
    obtain ob2 where r2: "D \<lparr>inp = ps, rb = ob1\<rparr> = (Inr v, j, \<lparr>inp = [], rb = ob2\<rparr>)" "keeps ob1 ob2" "led_le ob2 (wb w')"
      using dec [OF r1(3), of "[]"] w' by auto
    show ?thesis using r1 r2 ps D keeps_trans [OF r1(2) r2(2)] by (simp add: member_ReadFrom_def rbind_def)
  qed
  moreover have "keeps (wb w) (wb w')" unfolding w' by (rule keeps_trans [OF ks keeps_spend])
  ultimately show "keeps (wb w) (wb w') \<and> (\<exists>bs. out w' = out w @ bs \<and> length bs = n \<and> (\<forall>rest ob. led_le ob (wb w) \<longrightarrow>
      (\<exists>ob'. member_ReadFrom nread bps \<lparr>inp = bs @ rest, rb = ob\<rparr> = (Inr (Obj v), n, \<lparr>inp = rest, rb = ob'\<rparr>) \<and>
        keeps ob ob' \<and> led_le ob' (wb w'))))" using out bs(2) by blast
qed

lemma index_ok_determines: "index_ok sha256 objects m \<Longrightarrow> index_ok sha256 objects m' \<Longrightarrow> m = m'"
proof
  fix s assume "index_ok sha256 objects m" "index_ok sha256 objects m'"
  then have "m s = Some k \<longleftrightarrow> m' s = Some k" for k by (simp add: index_ok_def)
  then show "m s = m' s" by (metis not_None_eq)
qed

lemma appendUnique_next:
  assumes "index_ok sha256 objects m" and "index_ok sha256 (objects @ x # xs) m'"
  shows "\<exists>m1. appendUnique sha256 objects m x = Inr (objects @ [x], m1) \<and> index_ok sha256 (objects @ [x]) m1"
proof -
  obtain s where s: "object_key sha256 x = Inr s" using assms(2) by (auto simp: index_ok_def)
  then have "m' s = Some (length objects)" using assms(2) by (simp add: index_ok_def nth_append)
  moreover have "m' s = Some k" if "m s = Some k" for k
  proof -
    have "k < length objects" "object_key sha256 (objects ! k) = Inr s" using that assms(1) by (simp_all add: index_ok_def)
    then have "k < length (objects @ x # xs) \<and> object_key sha256 ((objects @ x # xs) ! k) = Inr s" by (simp add: nth_append)
    then show ?thesis using assms(2) unfolding index_ok_def by blast
  qed
  ultimately have "m s = None" using assms(1) by (cases "m s") (auto simp: index_ok_def)
  then show ?thesis using s index_ok_snoc [OF assms(1) s] by (simp add: appendUnique_def)
qed

lemma rb_members:
  assumes nat: "natives_ok nok nread" and c: "prims_concrete bps"
  shows "(\<And>v. v \<in> set vs \<Longrightarrow> item_ok nok bps allow (Obj v)) \<Longrightarrow> index_ok sha256 objects m \<Longrightarrow>
    index_ok sha256 (objects @ map Obj vs) m' \<Longrightarrow>
    reads_back (ledgered (writeAll (map member_WriteTo (map Obj vs)))) (readMembers sha256 nread bps (length vs) objects m)
      (objects @ map Obj vs, m')"
proof (induction vs arbitrary: objects m)
  case Nil
  then show ?case using rb_ledgered [OF rb_skip] index_ok_determines [of sha256 objects m m'] by simp
next
  case (Cons v vs)
  obtain m1 where m1: "appendUnique sha256 objects m (Obj v) = Inr (objects @ [Obj v], m1)" "index_ok sha256 (objects @ [Obj v]) m1"
    using appendUnique_next [OF Cons.prems(2), of "Obj v"] Cons.prems(3) by auto
  have tagged: "reads_back (ledgered (wseq (String8_WriteTo (ObjectType v)) (obj_WriteTo v))) (Decode nread bps ShortTypeDecoder) v"
    using rb_tagged [OF nat c] Cons.prems(1) by (meson list.set_intros(1))
  have "reads_back (ledgered (member_WriteTo (Obj v))) (member_ReadFrom nread bps) (Obj v)"
    by (rule rb_member [OF tagged shifts_seq [OF shifts_String8 shifts_obj] refl refl])
  moreover have "reads_back (ledgered (writeAll (map member_WriteTo (map Obj vs))))
      (readMembers sha256 nread bps (length vs) (objects @ [Obj v]) m1) ((objects @ [Obj v]) @ map Obj vs, m')"
    by (rule Cons.IH) (use Cons.prems m1(2) in auto)
  ultimately have "reads_back (ledgered (wseq (member_WriteTo (Obj v)) (writeAll (map member_WriteTo (map Obj vs)))))
      (rbind (member_ReadFrom nread bps) (\<lambda>x. case appendUnique sha256 objects m x of Inl e \<Rightarrow> rfail e
         | Inr (objects1, index1) \<Rightarrow> readMembers sha256 nread bps (length vs) objects1 index1)) ((objects @ [Obj v]) @ map Obj vs, m')"
    by (intro rb_ledgered_seq [of _ _ "Obj v"]) (simp_all only: m1(1) sum.case prod.case)
  then show ?case by simp
qed

text \<open>What a bundle writes, it reads back with its index.\<close>

lemma bundle_round_trip:
  assumes nat: "natives_ok nok nread" and c: "prims_concrete bps" and inv: "bundle_inv sha256 b" and len: "length vs < 2 ^ 32"
    and objs: "b_objects b = map Obj vs" and ok: "\<And>v. v \<in> set vs \<Longrightarrow> item_ok nok bps allow (Obj v)"
  shows "reads_back (Bundle_WriteTo b) (Bundle_read sha256 nread bps) (b\<lparr>b_index := Some (index_of b)\<rparr>)"
  unfolding Bundle_WriteTo_def Bundle_read_def
proof (rule rb_ledgered_frame, rule rb_ledgered_seq [OF rb_ledgered [OF u32.round_trip]])
  have "reads_back (ledgered (writeAll (map member_WriteTo (map Obj vs)))) (readMembers sha256 nread bps (length vs) [] Map.empty)
      ([] @ map Obj vs, index_of b)"
    using inv objs by (intro rb_members [OF nat c ok index_ok_Nil]) (simp_all add: bundle_inv_def)
  from rb_map [OF this, of "\<lambda>(objects, index). \<lparr>b_objects = objects, b_index = Some index\<rparr>"]
  show "reads_back (ledgered (writeAll (map member_WriteTo (b_objects b))))
      (rmap (\<lambda>(objects, index). \<lparr>b_objects = objects, b_index = Some index\<rparr>)
        (readMembers sha256 nread bps (unat (of_nat (length (b_objects b)) :: 32 word)) [] Map.empty)) (b\<lparr>b_index := Some (index_of b)\<rparr>)"
    using objs len by (cases b) (simp add: unat_of_nat_small)
qed simp

text \<open>A failed read leaves the bundle as it was; a successful one keeps the invariant.\<close>

lemma Bundle_ReadFrom_commits:
  assumes "bundle_inv sha256 b" and "Bundle_ReadFrom sha256 nread bps b r = (e, n, b1, r1)"
  shows "bundle_inv sha256 b1 \<and> (e \<noteq> None \<longrightarrow> b1 = b)"
  using assms by (auto simp: Bundle_ReadFrom_def intro: Bundle_read_ok split: prod.splits sum.splits)

text \<open>An untyped member is written under the empty name, which no registry resolves.\<close>

lemma blob_member_unreadable:
  assumes "New bps [] = None"
  shows "\<exists>e n r1. Decode nread bps ShortTypeDecoder \<lparr>inp = 0 # b, rb = None\<rparr> = (Inl (ErrStreamCorrupted []), n, r1)"
  using assms
  by (simp add: Decode_def ShortTypeDecoder_def ObjectType_ReadFrom_def String8_ReadFrom_def Uint8_ReadFrom_def readFixed_def
      ReadFull_def rbind_def rmap_def rret_def rfail_def room_def spend_def be_nat_def)

end
