(* ===== verification/Base64.thy ===== *)
theory Base64
  imports Scalars Base32
begin

text \<open>
  \<^verbatim>\<open>base64.StdEncoding\<close> as the sources use it, and the text forms built on it: those of the byte
  types (\<^verbatim>\<open>src/astral/byte_types.go\<close>), of \<^verbatim>\<open>Blob\<close> (\<^verbatim>\<open>blob.go\<close>) and, beside them, of the strings
  (\<^verbatim>\<open>string_types.go\<close>).

  Three bytes become four digits; one or two bytes at the end become two or three digits and
  padding.  The decoder drops line breaks, and refuses anything after the padding.
\<close>

subsection \<open>The encoding\<close>

definition b64_alphabet :: string where
  "b64_alphabet = ''ABCDEFGHIJKLMNOPQRSTUVWXYZabcdefghijklmnopqrstuvwxyz0123456789+/''"

definition b64_char :: "nat \<Rightarrow> char" where
  "b64_char d = b64_alphabet ! d"

definition b64_digit :: "char \<Rightarrow> nat option" where
  "b64_digit c = index_byte b64_alphabet c"

fun b64_encode :: "bytes \<Rightarrow> string" where
  "b64_encode [] = []"
| "b64_encode [a] = map b64_char (digits 64 2 (be_nat [a] * 16)) @ ''==''"
| "b64_encode [a, b] = map b64_char (digits 64 3 (be_nat [a, b] * 4)) @ ''=''"
| "b64_encode (a # b # c # bs) = map b64_char (digits 64 4 (be_nat [a, b, c])) @ b64_encode bs"

definition b64_corrupt :: error where
  "b64_corrupt = ErrMsg ''illegal base64 data''"

fun b64_digits :: "string \<Rightarrow> nat list option" where
  "b64_digits [] = Some []"
| "b64_digits (c # cs) =
     (case b64_digit c of None \<Rightarrow> None | Some d \<Rightarrow> (case b64_digits cs of None \<Rightarrow> None | Some ds \<Rightarrow> Some (d # ds)))"

definition b64_quantum :: "nat \<Rightarrow> string \<Rightarrow> bytes res" where
  "b64_quantum n s =
     (case b64_digits s of
        None \<Rightarrow> Inl b64_corrupt
      | Some ds \<Rightarrow> Inr (nat_be n (undigits 64 ds div 2 ^ (6 * length ds - 8 * n))))"

fun b64_decode_loop :: "string \<Rightarrow> bytes res" where
  "b64_decode_loop [] = Inr []"
| "b64_decode_loop (p # q # r # t # rest) =
     (if r = CHR ''='' then (if t = CHR ''='' \<and> rest = [] then b64_quantum 1 [p, q] else Inl b64_corrupt)
      else if t = CHR ''='' then (if rest = [] then b64_quantum 2 [p, q, r] else Inl b64_corrupt)
      else case b64_quantum 3 [p, q, r, t] of
        Inl e \<Rightarrow> Inl e
      | Inr bs \<Rightarrow> (case b64_decode_loop rest of Inl e \<Rightarrow> Inl e | Inr cs \<Rightarrow> Inr (bs @ cs)))"
| "b64_decode_loop s = Inl b64_corrupt"

definition b64_decode :: "string \<Rightarrow> bytes res" where
  "b64_decode s = b64_decode_loop (strip_newlines s)"

text \<open>The buffer a caller allocates for a decoding, in whole quanta.\<close>

definition DecodedLen :: "nat \<Rightarrow> nat" where
  "DecodedLen n = n div 4 * 3"

subsection \<open>Text forms\<close>

definition Bytes8_MarshalText :: "bytes \<Rightarrow> string" where
  "Bytes8_MarshalText b = b64_encode b"

definition Bytes8_UnmarshalText :: "string \<Rightarrow> bytes res" where
  "Bytes8_UnmarshalText s = b64_decode s"

definition Bytes16_MarshalText :: "bytes \<Rightarrow> string" where
  "Bytes16_MarshalText b = b64_encode b"

definition Bytes16_UnmarshalText :: "string \<Rightarrow> bytes res" where
  "Bytes16_UnmarshalText s = b64_decode s"

definition Bytes32_MarshalText :: "bytes \<Rightarrow> string" where
  "Bytes32_MarshalText b = b64_encode b"

definition Bytes32_UnmarshalText :: "string \<Rightarrow> bytes res" where
  "Bytes32_UnmarshalText s = b64_decode s"

definition Bytes64_MarshalText :: "bytes \<Rightarrow> string" where
  "Bytes64_MarshalText b = b64_encode b"

definition Bytes64_UnmarshalText :: "string \<Rightarrow> bytes res" where
  "Bytes64_UnmarshalText s = b64_decode s"

definition Blob_MarshalText :: "bytes \<Rightarrow> string" where
  "Blob_MarshalText b = b64_encode b"

definition Blob_UnmarshalText :: "string \<Rightarrow> bytes res" where
  "Blob_UnmarshalText s = b64_decode s"

text \<open>A string is its own text; no length is checked on the way in.\<close>

definition String8_MarshalText :: "string \<Rightarrow> string" where
  "String8_MarshalText s = s"

definition String8_UnmarshalText :: "string \<Rightarrow> string res" where
  "String8_UnmarshalText s = Inr s"

definition String16_MarshalText :: "string \<Rightarrow> string" where
  "String16_MarshalText s = s"

definition String16_UnmarshalText :: "string \<Rightarrow> string res" where
  "String16_UnmarshalText s = Inr s"

definition String32_MarshalText :: "string \<Rightarrow> string" where
  "String32_MarshalText s = s"

definition String32_UnmarshalText :: "string \<Rightarrow> string res" where
  "String32_UnmarshalText s = Inr s"

definition String64_MarshalText :: "string \<Rightarrow> string" where
  "String64_MarshalText s = s"

definition String64_UnmarshalText :: "string \<Rightarrow> string res" where
  "String64_UnmarshalText s = Inr s"

subsection \<open>Round trip\<close>

lemma b64_digit_char: "d < 64 \<Longrightarrow> b64_digit (b64_char d) = Some d"
proof -
  assume "d < 64"
  then have "d \<in> set [0..<64]" by simp
  moreover have "list_all (\<lambda>d. b64_digit (b64_char d) = Some d) [0..<64]" by code_simp
  ultimately show ?thesis by (simp only: list_all_iff)
qed

lemma b64_char_plain: "d < 64 \<Longrightarrow> b64_char d \<in> set b64_alphabet"
proof -
  assume "d < 64"
  moreover have "length b64_alphabet = 64" by code_simp
  ultimately show ?thesis by (simp add: b64_char_def)
qed

lemma b64_char_pad: "d < 64 \<Longrightarrow> b64_char d \<noteq> CHR ''=''"
proof -
  assume "d < 64"
  moreover have "list_all (\<lambda>c. c \<noteq> CHR ''='') b64_alphabet" by code_simp
  ultimately show ?thesis using b64_char_plain [of d] by (auto simp: list_all_iff)
qed

lemma b64_digits_map: "\<forall>d \<in> set ds. d < 64 \<Longrightarrow> b64_digits (map b64_char ds) = Some ds"
  by (induction ds) (simp_all add: b64_digit_char)

lemma b64_quantum_digits:
  assumes "v < 64 ^ k"
  shows "b64_quantum n (map b64_char (digits 64 k v)) = Inr (nat_be n (v div 2 ^ (6 * k - 8 * n)))"
proof -
  have "\<forall>d \<in> set (digits 64 k v). d < 64" using digits_bound [of 64] by simp
  then show ?thesis using assms by (simp add: b64_quantum_def b64_digits_map undigits_digits)
qed

lemma digits_few:
  "\<exists>p q. digits 64 2 v = [p, q] \<and> p < 64 \<and> q < 64"
  "\<exists>p q r. digits 64 3 v = [p, q, r] \<and> p < 64 \<and> q < 64 \<and> r < 64"
  "\<exists>p q r t. digits 64 4 v = [p, q, r, t] \<and> p < 64 \<and> q < 64 \<and> r < 64 \<and> t < 64"
proof -
  have b: "\<forall>d \<in> set (digits 64 k v). d < 64" for k using digits_bound [of 64] by simp
  have l: "length (digits 64 2 v) = Suc (Suc 0)" "length (digits 64 3 v) = Suc (Suc (Suc 0))"
    "length (digits 64 4 v) = Suc (Suc (Suc (Suc 0)))" by (simp_all only: length_digits)
  show "\<exists>p q. digits 64 2 v = [p, q] \<and> p < 64 \<and> q < 64"
    using b [of 2] l(1) unfolding length_Suc_conv length_0_conv by (elim exE conjE) (simp del: digits.simps)
  show "\<exists>p q r. digits 64 3 v = [p, q, r] \<and> p < 64 \<and> q < 64 \<and> r < 64"
    using b [of 3] l(2) unfolding length_Suc_conv length_0_conv by (elim exE conjE) (simp del: digits.simps)
  show "\<exists>p q r t. digits 64 4 v = [p, q, r, t] \<and> p < 64 \<and> q < 64 \<and> r < 64 \<and> t < 64"
    using b [of 4] l(3) unfolding length_Suc_conv length_0_conv by (elim exE conjE) (simp del: digits.simps)
qed

lemma b64_loop_encode: "b64_decode_loop (b64_encode bs) = Inr bs"
proof (induction bs rule: b64_encode.induct)
  case (2 a)
  have v: "be_nat [a] * 16 < 64 ^ 2" using be_nat_bound [of "[a]"] by simp
  obtain p q where ds: "digits 64 2 (be_nat [a] * 16) = [p, q]" using digits_few(1) by blast
  show ?case using b64_quantum_digits [OF v, of 1] nat_be_be_nat [of "[a]" 1] by (simp add: ds)
next
  case (3 a b)
  have v: "be_nat [a, b] * 4 < 64 ^ 3" using be_nat_bound [of "[a, b]"] by simp
  obtain p q r where ds: "digits 64 3 (be_nat [a, b] * 4) = [p, q, r]" "r < 64" using digits_few(2) by blast
  show ?case using b64_quantum_digits [OF v, of 2] nat_be_be_nat [of "[a, b]" 2] b64_char_pad [OF ds(2)] by (simp add: ds(1))
next
  case (4 a b c bs)
  have v: "be_nat [a, b, c] < 64 ^ 4" using be_nat_bound [of "[a, b, c]"] by simp
  obtain p q r t where ds: "digits 64 4 (be_nat [a, b, c]) = [p, q, r, t]" "r < 64" "t < 64" using digits_few(3) by blast
  show ?case using b64_quantum_digits [OF v, of 3] nat_be_be_nat [of "[a, b, c]" 3] b64_char_pad [OF ds(2)] b64_char_pad [OF ds(3)] 4
    by (simp add: ds(1))
qed simp

lemma set_b64_encode: "set (b64_encode bs) \<subseteq> insert CHR ''='' (set b64_alphabet)"
proof (induction bs rule: b64_encode.induct)
  case (2 a)
  then show ?case using digits_few(1) [of "be_nat [a] * 16"] b64_char_plain by auto
next
  case (3 a b)
  then show ?case using digits_few(2) [of "be_nat [a, b] * 4"] b64_char_plain by auto
next
  case (4 a b c bs)
  then show ?case using digits_few(3) [of "be_nat [a, b, c]"] b64_char_plain by auto
qed simp

lemma strip_plain:
  assumes "set s \<subseteq> insert CHR ''='' (set b64_alphabet)"
  shows "strip_newlines s = s" and "CHR 0x0A \<notin> set s"
proof -
  have "list_all (\<lambda>c. of_char c \<noteq> (10 :: nat) \<and> of_char c \<noteq> (13 :: nat) \<and> c \<noteq> CHR 0x0A) (CHR ''='' # b64_alphabet)"
    by code_simp
  then have "\<forall>c \<in> set s. of_char c \<noteq> (10 :: nat) \<and> of_char c \<noteq> (13 :: nat) \<and> c \<noteq> CHR 0x0A"
    using assms unfolding list_all_iff by (metis list.simps(15) subsetD)
  then show "strip_newlines s = s" "CHR 0x0A \<notin> set s" unfolding strip_newlines_def filter_id_conv by blast+
qed

lemma b64_round_trip: "b64_decode (b64_encode bs) = Inr bs"
  by (simp add: b64_decode_def strip_plain(1) [OF set_b64_encode] b64_loop_encode)

lemma b64_one_line: "CHR 0x0A \<notin> set (b64_encode bs)"
  by (rule strip_plain(2) [OF set_b64_encode])

text \<open>The length of the text fixes the buffer: the bytes and up to two more.\<close>

lemma b64_length: "length (b64_encode bs) = 4 * ((length bs + 2) div 3)"
proof (induction bs rule: b64_encode.induct)
  case (4 a b c bs)
  have "(3 + (length bs + 2)) div 3 = (length bs + 2) div 3 + 1" by (rule div_add_self1) simp
  moreover have "length (a # b # c # bs) + 2 = 3 + (length bs + 2)" by simp
  ultimately have "4 * ((length (a # b # c # bs) + 2) div 3) = 4 + 4 * ((length bs + 2) div 3)" by (simp only:) simp
  then show ?case using 4 by (simp only: b64_encode.simps length_append length_map length_digits)
qed simp_all

interpretation b8t: text_codec Bytes8_MarshalText Bytes8_UnmarshalText
  by unfold_locales (simp add: Bytes8_MarshalText_def Bytes8_UnmarshalText_def b64_round_trip)

interpretation b16t: text_codec Bytes16_MarshalText Bytes16_UnmarshalText
  by unfold_locales (simp add: Bytes16_MarshalText_def Bytes16_UnmarshalText_def b64_round_trip)

interpretation b32t: text_codec Bytes32_MarshalText Bytes32_UnmarshalText
  by unfold_locales (simp add: Bytes32_MarshalText_def Bytes32_UnmarshalText_def b64_round_trip)

interpretation b64t: text_codec Bytes64_MarshalText Bytes64_UnmarshalText
  by unfold_locales (simp add: Bytes64_MarshalText_def Bytes64_UnmarshalText_def b64_round_trip)

interpretation blobt: text_codec Blob_MarshalText Blob_UnmarshalText
  by unfold_locales (simp add: Blob_MarshalText_def Blob_UnmarshalText_def b64_round_trip)

interpretation s8t: text_codec String8_MarshalText String8_UnmarshalText
  by unfold_locales (simp add: String8_MarshalText_def String8_UnmarshalText_def)

interpretation s16t: text_codec String16_MarshalText String16_UnmarshalText
  by unfold_locales (simp add: String16_MarshalText_def String16_UnmarshalText_def)

interpretation s32t: text_codec String32_MarshalText String32_UnmarshalText
  by unfold_locales (simp add: String32_MarshalText_def String32_UnmarshalText_def)

interpretation s64t: text_codec String64_MarshalText String64_UnmarshalText
  by unfold_locales (simp add: String64_MarshalText_def String64_UnmarshalText_def)

end
