(* ===== verification/Text_Channel.thy ===== *)
theory Text_Channel
  imports Channel Base64
begin

text \<open>
  Channels of lines: \<^verbatim>\<open>src/astral/channel/text_parser.go\<close>, \<^verbatim>\<open>text_sender.go\<close> and \<^verbatim>\<open>text_receiver.go\<close>.

  \<open>mtext\<close> and \<open>utext\<close> are the \<^verbatim>\<open>MarshalText\<close> and \<^verbatim>\<open>UnmarshalText\<close> methods the senders and receivers
  look up on an object; None is a type without them.
\<close>

subsection \<open>Text lines\<close>

datatype text_enc = EncNone | EncText | EncBase64 | EncUnknown

record parsed_text =
  pt_type :: string
  pt_enc :: text_enc
  pt_text :: string

definition ParseText :: "string \<Rightarrow> parsed_text res" where
  "ParseText line =
     (if \<not> prefix ''#['' line then Inl (ErrMsg ''type header missing'')
      else case index_byte line CHR '']'' of
        None \<Rightarrow> Inl (ErrMsg ''type header missing'')
      | Some i \<Rightarrow>
          (let t = drop 2 (take i line) in
           case drop (i + 1) line of
             [] \<Rightarrow> Inr \<lparr>pt_type = t, pt_enc = EncNone, pt_text = []\<rparr>
           | c # rest \<Rightarrow>
               Inr \<lparr>pt_type = t,
                    pt_enc = (if c = CHR '' '' \<or> c = CHR 0x09 then EncText
                              else if c = CHR ''='' \<or> c = CHR '':'' then EncBase64 else EncUnknown),
                    pt_text = rest\<rparr>))"

text \<open>The line \<^verbatim>\<open>TextSender\<close> writes for an object that marshals to \<open>text\<close>.\<close>

definition text_line :: "string \<Rightarrow> string \<Rightarrow> string" where
  "text_line typ text = ''#['' @ typ @ '']'' @ '' '' @ text @ [CHR 0x0A]"

text \<open>\<^verbatim>\<open>ReadString\<close> up to the newline, which is cut off: the line and what is left, or EOF.\<close>

fun read_line :: "string \<Rightarrow> (string \<times> string) option" where
  "read_line [] = None"
| "read_line (c # cs) =
     (if c = CHR 0x0A then Some ([], cs) else case read_line cs of None \<Rightarrow> None | Some (l, r) \<Rightarrow> Some (c # l, r))"


text \<open>\<^verbatim>\<open>TextSender.Send\<close>: \<open>force\<close> is its Base64 field.\<close>

definition item_MarshalText :: "(obj \<Rightarrow> string res option) \<Rightarrow> item \<Rightarrow> string res option" where
  "item_MarshalText mtext x =
     (case x of Obj v \<Rightarrow> mtext v | Blob b \<Rightarrow> Some (Inr (Blob_MarshalText b)) | Unparsed t b \<Rightarrow> None)"

definition TextSender_Send :: "(obj \<Rightarrow> string res option) \<Rightarrow> bool \<Rightarrow> item \<Rightarrow> string \<Rightarrow> error option \<times> string" where
  "TextSender_Send mtext force x stream =
     (case (if force then None else item_MarshalText mtext x) of
        Some (Inl e) \<Rightarrow> (Some e, stream)
      | Some (Inr t) \<Rightarrow> (None, stream @ text_line (item_type x) t)
      | None \<Rightarrow>
          (case stage (item_WriteTo x) of
             Inl e \<Rightarrow> (Some e, stream)
           | Inr payload \<Rightarrow> (None, stream @ ''#['' @ item_type x @ '']:'' @ b64_encode payload @ [CHR 0x0A])))"

text \<open>
  The receiver decodes base64 into a buffer of \<open>DecodedLen\<close> bytes and reads the whole buffer,
  of which only the decoded part was written.
\<close>

definition base64_payload :: "string \<Rightarrow> bytes res" where
  "base64_payload t =
     (case b64_decode t of
        Inl e \<Rightarrow> Inl e
      | Inr bs \<Rightarrow> Inr (bs @ replicate (DecodedLen (length t) - length bs) 0))"

definition line_blob :: "parsed_text \<Rightarrow> item res" where
  "line_blob pt =
     (case pt_enc pt of
        EncText \<Rightarrow> (case Blob_UnmarshalText (pt_text pt) of Inl e \<Rightarrow> Inl e | Inr b \<Rightarrow> Inr (Blob b))
      | EncBase64 \<Rightarrow> (case base64_payload (pt_text pt) of Inl e \<Rightarrow> Inl e | Inr b \<Rightarrow> Inr (Blob b))
      | EncNone \<Rightarrow> Inr (Blob [])
      | EncUnknown \<Rightarrow> Inl (ErrMsg ''unknown encoding''))"

definition line_object :: "(obj \<Rightarrow> string \<Rightarrow> obj res option) \<Rightarrow> (string \<Rightarrow> bytes reader) \<Rightarrow> registry \<Rightarrow> parsed_text \<Rightarrow> item res" where
  "line_object utext nread bps pt =
     (case New bps (pt_type pt) of
        None \<Rightarrow> Inl (ErrStreamCorrupted (pt_type pt))
      | Some z \<Rightarrow>
          (case pt_enc pt of
             EncText \<Rightarrow>
               (case utext z (pt_text pt) of
                  None \<Rightarrow> Inl (ErrMsg ''the object does not support text marshaling'')
                | Some (Inl e) \<Rightarrow> Inl e
                | Some (Inr v) \<Rightarrow> Inr (Obj v))
           | EncBase64 \<Rightarrow>
               (case base64_payload (pt_text pt) of
                  Inl e \<Rightarrow> Inl e
                | Inr payload \<Rightarrow>
                    (case obj_ReadFrom nread bps z \<lparr>inp = payload, rb = None\<rparr> of
                       (Inl e, n, r) \<Rightarrow> Inl e
                     | (Inr v, n, r) \<Rightarrow> Inr (Obj v)))
           | EncNone \<Rightarrow> Inr (Obj z)
           | EncUnknown \<Rightarrow> Inl (ErrMsg ''unknown encoding'')))"

definition line_item :: "(obj \<Rightarrow> string \<Rightarrow> obj res option) \<Rightarrow> (string \<Rightarrow> bytes reader) \<Rightarrow> registry \<Rightarrow> string \<Rightarrow> item res" where
  "line_item utext nread bps line =
     (case ParseText line of
        Inl e \<Rightarrow> Inl e
      | Inr pt \<Rightarrow> if pt_type pt = [] then line_blob pt else line_object utext nread bps pt)"

definition TextReceiver_Receive :: "(obj \<Rightarrow> string \<Rightarrow> obj res option) \<Rightarrow> (string \<Rightarrow> bytes reader) \<Rightarrow> registry \<Rightarrow>
    error option \<times> string \<Rightarrow> item res \<times> error option \<times> string" where
  "TextReceiver_Receive utext nread bps st =
     (case st of
        (Some e, stream) \<Rightarrow> (Inl e, Some e, stream)
      | (None, stream) \<Rightarrow>
          (case read_line stream of
             None \<Rightarrow> (Inl IoEOF, Some IoEOF, [])
           | Some (line, rest) \<Rightarrow>
               (case line_item utext nread bps line of
                  Inl e \<Rightarrow> (Inl e, Some e, rest)
                | Inr x \<Rightarrow> (Inr x, None, rest))))"

subsection \<open>Lines\<close>

lemma read_line_plain: "CHR 0x0A \<notin> set l \<Longrightarrow> read_line (l @ CHR 0x0A # rest) = Some (l, rest)"
  by (induction l) auto

text \<open>
  A line carries its type and text when the type has no closing bracket and neither holds a
  newline.  A newline in the text ends the line early: the receiver gets a shorter text and the
  rest of it as the next line.
\<close>

lemma text_line_parses:
  assumes "CHR '']'' \<notin> set typ" and "CHR 0x0A \<notin> set typ" and "CHR 0x0A \<notin> set t"
  shows "\<exists>line. read_line (text_line typ t @ rest) = Some (line, rest) \<and>
    ParseText line = Inr \<lparr>pt_type = typ, pt_enc = EncText, pt_text = t\<rparr>"
proof -
  let ?line = "''#['' @ typ @ '']'' @ '' '' @ t"
  have "read_line (text_line typ t @ rest) = Some (?line, rest)"
    using read_line_plain [of ?line rest] assms by (simp add: text_line_def)
  moreover have "index_byte ?line CHR '']'' = Some (length (''#['' @ typ))"
    using index_byte_append [of "CHR '']''" "''#['' @ typ" "'' '' @ t"] assms(1) by simp
  ultimately show ?thesis by (simp add: ParseText_def prefix_def)
qed

lemma text_newline_splits:
  assumes "CHR '']'' \<notin> set typ" and "CHR 0x0A \<notin> set typ" and "CHR 0x0A \<notin> set a"
  shows "read_line (text_line typ (a @ CHR 0x0A # b) @ rest) = Some (''#['' @ typ @ '']'' @ '' '' @ a, b @ CHR 0x0A # rest)"
  using read_line_plain [of "''#['' @ typ @ '']'' @ '' '' @ a" "b @ CHR 0x0A # rest"] assms by (simp add: text_line_def)

subsection \<open>Text streams\<close>

lemma base64_line_parses:
  assumes "CHR '']'' \<notin> set typ" and "CHR 0x0A \<notin> set typ"
  shows "\<exists>line. read_line (''#['' @ typ @ '']:'' @ b64_encode bs @ CHR 0x0A # rest) = Some (line, rest) \<and>
    ParseText line = Inr \<lparr>pt_type = typ, pt_enc = EncBase64, pt_text = b64_encode bs\<rparr>"
proof -
  let ?line = "''#['' @ typ @ '']:'' @ b64_encode bs"
  have "read_line (''#['' @ typ @ '']:'' @ b64_encode bs @ CHR 0x0A # rest) = Some (?line, rest)"
    using read_line_plain [of ?line rest] assms b64_one_line [of bs] by simp
  moreover have "index_byte ?line CHR '']'' = Some (length (''#['' @ typ))"
    using index_byte_append [of "CHR '']''" "''#['' @ typ" "'':'' @ b64_encode bs"] assms(1) by simp
  ultimately show ?thesis by (simp add: ParseText_def prefix_def)
qed

lemma base64_payload_pads: "base64_payload (b64_encode bs) = Inr (bs @ replicate ((length bs + 2) div 3 * 3 - length bs) 0)"
  by (simp add: base64_payload_def b64_round_trip b64_length DecodedLen_def)

text \<open>
  An object survives a line of base64: its reader stops before the padding.  A blob takes the
  padding for its own bytes.
\<close>

lemma base64_object:
  assumes nat: "natives_ok nok nread" and c: "prims_concrete bps" and ok: "item_ok nok bps allow (Obj v)"
    and ty: "CHR '']'' \<notin> set (ObjectType v)" "CHR 0x0A \<notin> set (ObjectType v)"
    and sent: "TextSender_Send mtext True (Obj v) stream = (None, stream1)"
  shows "\<exists>line. stream1 = stream @ line \<and>
    (\<forall>rest. TextReceiver_Receive utext nread bps (None, line @ rest) = (Inr (Obj v), None, rest))"
proof -
  obtain payload where p: "stage (obj_WriteTo v) = Inr payload"
    and s: "stream1 = stream @ ''#['' @ ObjectType v @ '']:'' @ b64_encode payload @ [CHR 0x0A]"
    using sent by (auto simp: TextSender_Send_def split: sum.splits)
  obtain z where z: "New bps (ObjectType v) = Some z" "like z v" and ne: "ObjectType v \<noteq> []"
    using ok by (auto simp: item_ok_def named_ok_def split: option.splits)
  have rb: "reads_back (obj_WriteTo v) (obj_ReadFrom nread bps z) v"
    using nat ok by (intro rb_obj [of nok, OF _ _ c z]) (auto simp: natives_ok_def item_ok_def)
  have "TextReceiver_Receive utext nread bps (None, (''#['' @ ObjectType v @ '']:'' @ b64_encode payload @ [CHR 0x0A]) @ rest) =
      (Inr (Obj v), None, rest)" for rest
    using base64_line_parses [OF ty, of payload rest] z(1) ne stage_read [OF p rb]
    by (auto simp: TextReceiver_Receive_def line_item_def line_object_def base64_payload_pads)
  then show ?thesis using s by blast
qed

lemma base64_blob_padded:
  assumes "TextSender_Send mtext True (Blob b) [] = (None, stream)"
  shows "TextReceiver_Receive utext nread bps (None, stream) =
    (Inr (Blob (b @ replicate ((length b + 2) div 3 * 3 - length b) 0)), None, [])"
  using assms base64_line_parses [of "[]" b "[]"]
  by (auto simp: TextSender_Send_def stage_def Write_def TextReceiver_Receive_def line_item_def line_blob_def base64_payload_pads)

text \<open>Text lines carry what the type's own text methods carry, as long as the text is one line.\<close>

lemma text_object:
  assumes ty: "CHR '']'' \<notin> set (ObjectType v)" "CHR 0x0A \<notin> set (ObjectType v)" "ObjectType v \<noteq> []"
    and new: "New bps (ObjectType v) = Some z" and m: "mtext v = Some (Inr t)" and t: "CHR 0x0A \<notin> set t"
    and u: "utext z t = Some (Inr v)"
  shows "\<exists>line. TextSender_Send mtext False (Obj v) stream = (None, stream @ line) \<and>
    (\<forall>rest. TextReceiver_Receive utext nread bps (None, line @ rest) = (Inr (Obj v), None, rest))"
proof -
  have "TextReceiver_Receive utext nread bps (None, text_line (ObjectType v) t @ rest) = (Inr (Obj v), None, rest)" for rest
    using text_line_parses [OF ty(1,2) t, of rest] new u ty(3)
    by (auto simp: TextReceiver_Receive_def line_item_def line_object_def)
  then show ?thesis using m by (simp add: TextSender_Send_def item_MarshalText_def)
qed

lemma text_latch:
  "TextReceiver_Receive utext nread bps (None, stream) = (Inl e, st) \<Longrightarrow> TextReceiver_Receive utext nread bps st = (Inl e, st)"
  by (auto simp: TextReceiver_Receive_def split: option.splits prod.splits sum.splits)

end
