(* ===== verification/Properties_Objects.thy ===== *)
theory Properties_Objects
  imports Bundle Text_Channel Sample
begin

text \<open>
  The properties of field access on runtime objects, of channels of objects and of bundles, over
  the definitions of \<open>Normalize\<close>, \<open>Channel\<close> and \<open>Bundle\<close>.
\<close>

subsection \<open>Fields\<close>


lemma sample_natives: "natives_ok (\<lambda>n p. p = []) (\<lambda>n. rret [])"
  unfolding natives_ok_def using sample_native by blast



subsection \<open>Channels\<close>

text \<open>
  C15: a binary channel delivers what was sent, in order.  After the items were sent, receiving
  gives one answer per item and then EOF; the answer for every item the receiver knows how to decode is that
  item, and one it cannot decode costs only its own answer, since its frame is skipped whole.
\<close>

theorem binary_channel_stream:
  assumes "natives_ok nok nread" and "prims_concrete bps" and "send_all xs [] = (None, stream)"
  shows "\<exists>rs. receive_all nread bps allow (length xs + 1) stream = rs @ [Inl IoEOF] \<and>
    list_all2 (\<lambda>x r. item_ok nok bps allow x \<longrightarrow> r = Inr x) xs rs"
proof -
  obtain bs rs where "stream = [] @ bs" "list_all2 (\<lambda>x r. item_ok nok bps allow x \<longrightarrow> r = Inr x) xs rs"
      "\<And>rest. receive_all nread bps allow (length xs + 1) (bs @ rest) = rs @ receive_all nread bps allow 1 rest"
    using binary_stream [OF assms] by blast
  from this(1,2) this(3) [of "[]"] show ?thesis by (simp add: receive_end)
qed

definition sampleItems :: "item list" where
  "sampleItems = [Obj (Prim (PUint8 5)), Unparsed ''zz'' [1, 2], Blob [7]]"

lemma sampleItems_sent:
  "send_all sampleItems [] = (None, [5, 117, 105, 110, 116, 56, 0, 0, 0, 1, 5, 2, 122, 122, 0, 0, 0, 2, 1, 2, 0, 0, 0, 0, 1, 7])"
  by (simp add: sampleItems_def BinarySender_Send_def stage_def write_eval Bytes32_WriteTo_def Uint32_WriteTo_def)

theorem binary_channel_stream_witness:
  "\<exists>r. receive_all (\<lambda>n. rret []) sampleRegistry False 4
      [5, 117, 105, 110, 116, 56, 0, 0, 0, 1, 5, 2, 122, 122, 0, 0, 0, 2, 1, 2, 0, 0, 0, 0, 1, 7] =
    [Inr (Obj (Prim (PUint8 5))), r, Inr (Blob [7]), Inl IoEOF]"
proof -
  have "item_ok (\<lambda>n p. p = []) sampleRegistry False (Obj (Prim (PUint8 5)))"
    by (simp add: item_ok_def named_ok_def sample_uint8)
  moreover have "item_ok (\<lambda>n p. p = []) sampleRegistry False (Blob [7])" by (simp add: item_ok_def)
  ultimately show ?thesis
    using binary_channel_stream [OF sample_natives sample_concrete sampleItems_sent, of False]
    by (auto simp: sampleItems_def list_all2_Cons1 numeral_eq_Suc)
qed



subsection \<open>Bundles\<close>



end
