(* ===== verification/Same_Bytes.thy ===== *)
theory Same_Bytes
  imports Go_Values
begin

text \<open>
  When two codecs write the same bytes.  \<open>alike W W'\<close> relates two writers: wherever each of them
  succeeds, they append the same bytes and report the same count, whatever was written before
  and whatever their ledgers hold.  The ledgers are left out on purpose: two encoders of one
  format may open different numbers of frames, and then one may be refused where the other
  is not.  The combinators of the reflective codec and of the runtime codec preserve the
  relation, and a frame on one side only does not disturb it.
\<close>

definition alike :: "writer \<Rightarrow> writer \<Rightarrow> bool" where
  "alike W W' \<longleftrightarrow>
     (\<forall>w n w1 w' n' w1'. W w = (None, n, w1) \<longrightarrow> W' w' = (None, n', w1') \<longrightarrow>
        (\<exists>bs. out w1 = out w @ bs \<and> out w1' = out w' @ bs \<and> n' = n))"

named_theorems alike_intros

lemma alikeD:
  assumes "alike W W'" and "W w = (None, n, w1)" and "W' w' = (None, n', w1')"
  obtains bs where "out w1 = out w @ bs" and "out w1' = out w' @ bs" and "n' = n"
  using assms unfolding alike_def by blast

lemma alike_sym: "alike W W' \<Longrightarrow> alike W' W"
  unfolding alike_def by metis

lemma alike_naked:
  assumes "alike W W'" and "W \<lparr>out = [], wb = ob\<rparr> = (None, n, w)" and "W' \<lparr>out = [], wb = ob'\<rparr> = (None, n', w')"
  shows "out w' = out w \<and> n' = n"
  using alikeD [OF assms] by auto

subsection \<open>Combinators\<close>

lemma alike_skip [alike_intros]: "alike wskip wskip"
  by (simp add: alike_def wskip_def)

lemma alike_fail [alike_intros]: "alike (wfail e) W" "alike W (wfail e)"
  by (simp_all add: alike_def wfail_def)

lemma alike_fail_seq [alike_intros]: "alike W (wseq (wfail e) V)" "alike (wseq (wfail e) V) W"
  by (simp_all add: alike_def wfail_def wseq_def)

lemma alike_write [alike_intros]: "alike (Write p) (Write p)"
  by (auto simp: alike_def Write_ok_iff)

lemma alike_payload [alike_intros]: "alike (writePayload p) (writePayload p)"
  by (auto simp: alike_def writePayload_def Write_ok_iff split: if_splits)

lemma alike_counted [alike_intros]: "alike (counted k p) (counted k p)"
  by (auto simp: alike_def counted_def Write_ok_iff split: prod.splits option.splits)

lemma alike_seq [alike_intros]:
  assumes "alike A A'" and "alike B B'"
  shows "alike (wseq A B) (wseq A' B')"
  unfolding alike_def
proof (intro allI impI)
  fix w n w1 w' n' w1'
  assume "wseq A B w = (None, n, w1)" "wseq A' B' w' = (None, n', w1')"
  then obtain na wa nb na' wa' nb' where s: "A w = (None, na, wa)" "B wa = (None, nb, w1)" "n = na + nb"
    "A' w' = (None, na', wa')" "B' wa' = (None, nb', w1')" "n' = na' + nb'"
    by (auto simp: wseq_def split: prod.splits option.splits)
  then obtain as bs where "out wa = out w @ as" "out wa' = out w' @ as" "na' = na"
    "out w1 = out wa @ bs" "out w1' = out wa' @ bs" "nb' = nb"
    using assms by (metis alikeD)
  then show "\<exists>bs. out w1 = out w @ bs \<and> out w1' = out w' @ bs \<and> n' = n"
    using s by (intro exI [of _ "as @ bs"]) simp
qed

lemma alike_frame_left: "alike A B \<Longrightarrow> alike (wframe A) B"
  unfolding alike_def
proof (intro allI impI)
  fix w n w1 w' n' w1'
  assume al: "\<forall>w n w1 w' n' w1'. A w = (None, n, w1) \<longrightarrow> B w' = (None, n', w1') \<longrightarrow>
      (\<exists>bs. out w1 = out w @ bs \<and> out w1' = out w' @ bs \<and> n' = n)"
    and A: "wframe A w = (None, n, w1)" and B: "B w' = (None, n', w1')"
  obtain b1 w2 where "A (w\<lparr>wb := Some b1\<rparr>) = (None, n, w2)" "out w1 = out w2"
    using A by (rule wframe_ok) auto
  with al B show "\<exists>bs. out w1 = out w @ bs \<and> out w1' = out w' @ bs \<and> n' = n" by fastforce
qed

lemma alike_frame_right: "alike A B \<Longrightarrow> alike A (wframe B)"
  by (blast intro: alike_sym alike_frame_left)

lemma alike_frame [alike_intros]: "alike A B \<Longrightarrow> alike (wframe A) (wframe B)"
  by (blast intro: alike_frame_left alike_frame_right)

lemma alike_all: "list_all2 alike As Bs \<Longrightarrow> alike (writeAll As) (writeAll Bs)"
  by (induction rule: list_all2_induct) (auto simp: writeAll_def intro: alike_intros)

lemma alike_self_all: "(\<And>W. W \<in> set Ws \<Longrightarrow> alike W W) \<Longrightarrow> alike (writeAll Ws) (writeAll Ws)"
  by (intro alike_all list.rel_refl_strong)

lemma writeFixed_counted: "writeFixed (v :: 'a::len word) = counted (LENGTH('a) div 8) (nat_be (LENGTH('a) div 8) (unat v))"
  by (simp add: fun_eq_iff writeFixed_def counted_def)

lemma alike_fixed [alike_intros]: "alike (writeFixed v) (writeFixed v)"
  by (simp add: writeFixed_counted alike_intros)

lemma flag_counted: "Bool_WriteTo b = writeFixed (if b then 1 else 0 :: 8 word)"
  by (simp add: Bool_WriteTo_def writeFixed_def fun_eq_iff split: prod.splits option.splits)

lemma presence_fixed: "writePresence True = writeFixed (1 :: 8 word)"
  by (simp add: writePresence_def presenceFlagOne_def writeFixed_counted)

subsection \<open>Every encoder is alike to itself\<close>

lemmas scalar_writers = Uint8_WriteTo_def Uint16_WriteTo_def Uint32_WriteTo_def Uint64_WriteTo_def
  Int8_WriteTo_def Int16_WriteTo_def Int32_WriteTo_def Int64_WriteTo_def

lemma alike_string8 [alike_intros]: "alike (String8_WriteTo s) (String8_WriteTo s)"
  by (auto simp: String8_WriteTo_def scalar_writers intro!: alike_intros)

lemma alike_key: "alike (writeMapKey k width) (writeMapKey k width)"
  by (cases k) (auto simp: writeMapKey_def String16_WriteTo_def scalar_writers intro!: alike_intros)

lemma alike_prim [alike_intros]: "alike (prim_WriteTo p) (prim_WriteTo p)"
proof -
  have "Nonce_WriteTo x = counted 8 (nat_be 8 (unat x))" "Duration_WriteTo x = counted 8 (nat_be 8 (unat x))" for x
    by (simp_all add: fun_eq_iff Nonce_WriteTo_def Duration_WriteTo_def counted_def)
  then show ?thesis
    by (cases p) (auto simp: scalar_writers String16_WriteTo_def String32_WriteTo_def String64_WriteTo_def
        Bytes8_WriteTo_def Bytes16_WriteTo_def Bytes32_WriteTo_def Bytes64_WriteTo_def flag_counted Time_WriteTo_def
        ObjectID_WriteTo_def Zone_WriteTo_def intro!: alike_intros)
qed

lemma alike_map: "alike (mapValue_WriteTo kind fl es) (mapValue_WriteTo kind fl es)"
  unfolding mapValue_WriteTo_def
  by (auto intro!: alike_intros alike_self_all split: option.splits sum.splits)

lemma alike_elem:
  assumes "alike W W"
  shows "alike (elem_WriteTo en v W) (elem_WriteTo en v W)"
  using assms by (auto simp: elem_WriteTo_def interfaceValue_WriteTo_def ptrValue_WriteTo_def intro!: alike_intros)

lemma alike_views [alike_intros]:
  assumes "list_all2 alike As Bs"
  shows "alike (sliceValue_WriteTo fl As) (sliceValue_WriteTo fl Bs)" "alike (arrayValue_WriteTo fl As) (arrayValue_WriteTo fl Bs)"
proof -
  have p: "alike (writePresence fl) (writePresence fl)" by (auto simp: writePresence_def intro: alike_intros)
  then have "list_all2 alike (map (wseq (writePresence fl)) As) (map (wseq (writePresence fl)) Bs)"
    using assms by (auto simp: list_all2_conv_all_nth intro: alike_seq)
  moreover have "length As = length Bs" using assms by (rule list_all2_lengthD)
  ultimately show "alike (sliceValue_WriteTo fl As) (sliceValue_WriteTo fl Bs)" "alike (arrayValue_WriteTo fl As) (arrayValue_WriteTo fl Bs)"
    by (auto simp: sliceValue_WriteTo_def arrayValue_WriteTo_def writeElems_def intro!: alike_intros alike_all)
qed

lemma alike_field:
  assumes "alike W W"
  shows "alike (writeField sp v W) (writeField sp v W)"
  using assms
  by (auto simp: writeField_def flag_counted ShortTypeEncoder_def ObjectType_WriteTo_def intro!: alike_intros
      split: option.splits spec.splits)

lemma alike_obj: "alike (obj_WriteTo v) (obj_WriteTo v)"
proof (induction v rule: obj_WriteTo.induct)
  case (5 bp vs)
  then show ?case by (auto intro!: alike_intros alike_self_all alike_field dest!: set_zip_rightD)
next
  case (7 en vs)
  then show ?case by (auto intro!: alike_intros list.rel_refl_strong alike_elem)
next
  case (8 en vs)
  then show ?case by (auto intro!: alike_intros list.rel_refl_strong alike_elem)
next
  case (9 kind vn es)
  then show ?case by (simp add: alike_map)
qed (auto intro: alike_intros)

end
