(* ===== verification/Interop.thy ===== *)
theory Interop
  imports Same_Bytes Reflect
begin

text \<open>
  A compiled struct type and the Blueprint derived from it describe the same bytes: a node that
  only knows the Blueprint writes and reads what the compiled codec writes.

  \<open>gotype_of\<close> is the reflection view of a \<open>gtype\<close> that \<open>Reflect\<close> derives Blueprints from; \<open>gv_obj\<close>
  turns a compiled value into the runtime object of the derived Blueprint; \<open>alike_described\<close> is
  the comparison of the two encoders.
\<close>

subsection \<open>What reflection sees\<close>

definition basic_gokind :: "basicKind \<Rightarrow> gokind" where
  "basic_gokind k =
     (case k of KString \<Rightarrow> String | KUint8 \<Rightarrow> Uint8 | KUint16 \<Rightarrow> Uint16 | KUint32 \<Rightarrow> Uint32 | KUint64 \<Rightarrow> Uint64 | _ \<Rightarrow> OtherKind)"

primrec gotype_of :: "gtype \<Rightarrow> gotype" where
  "gotype_of (TPrim n) = GoType (SBasic OtherKind) n (Some n) (Some n) None None"
| "gotype_of (TNative n) = GoType (SBasic OtherKind) n (Some n) (Some n) None None"
| "gotype_of (TBasic k) = GoType (SBasic (basic_gokind k)) [] None None None None"
| "gotype_of (TPtr t) = GoType (SPtr (gotype_of t)) [] None None None None"
| "gotype_of (TSlice t) = GoType (SSlice (gotype_of t)) [] None None None None"
| "gotype_of (TArray t n) = GoType (SArray (gotype_of t) n) [] None None None None"
| "gotype_of (TMap k t) = GoType (SMap (GoType (SBasic k) [] None None None None) (gotype_of t)) [] None None None None"
| "gotype_of (TStruct k n fs) =
     GoType (SStruct (map (\<lambda>f. GoField (fst f) True (snd f)) (map (map_prod id gotype_of) fs))) n
       (if k = PlainStruct then None else Some n) (if k = PlainStruct then None else Some n) None None"
| "gotype_of TInterface = GoType (SInterface True) [] None None None None"

text \<open>Named types, and the types a Blueprint can describe without a map.\<close>

definition type_name :: "gtype \<Rightarrow> string" where
  "type_name t = (case t of TPrim n \<Rightarrow> n | TNative n \<Rightarrow> n | TStruct k n fs \<Rightarrow> if k = PlainStruct then [] else n | _ \<Rightarrow> [])"

definition elem_name :: "gtype \<Rightarrow> string" where
  "elem_name t = (case t of TPtr e \<Rightarrow> type_name e | _ \<Rightarrow> type_name t)"

definition elem_shape :: "gtype \<Rightarrow> bool" where
  "elem_shape t = (case t of TInterface \<Rightarrow> True | TPtr e \<Rightarrow> type_name e \<noteq> [] | _ \<Rightarrow> type_name t \<noteq> [])"

primrec describable :: "gtype \<Rightarrow> bool" where
  "describable (TPrim n) = (n \<noteq> [] \<and> n \<noteq> emptyObject_name)"
| "describable (TNative n) = (n \<noteq> [] \<and> n \<noteq> emptyObject_name)"
| "describable (TBasic k) = False"
| "describable (TPtr t) = (describable t \<and> type_name t \<noteq> [])"
| "describable (TSlice t) = (describable t \<and> elem_shape t)"
| "describable (TArray t n) = (describable t \<and> elem_shape t \<and> n \<le> MaxArraySpecLength)"
| "describable (TMap k t) = False"
| "describable (TStruct k n fs) =
     (k \<noteq> PlainStruct \<and> n \<noteq> [] \<and> n \<noteq> emptyObject_name \<and> list_all (\<lambda>f. snd f) (map (map_prod id describable) fs))"
| "describable TInterface = True"

definition name_spec :: "string \<Rightarrow> spec" where
  "name_spec n = (if isAllowedPrimitive n then PrimitiveSpec n else RefSpec n)"

definition spec_of :: "gtype \<Rightarrow> spec" where
  "spec_of t =
     (case t of
        TPtr e \<Rightarrow> PtrSpec (type_name e)
      | TSlice e \<Rightarrow> SliceSpec (elem_name e)
      | TArray e n \<Rightarrow> ArraySpec (elem_name e) (of_nat n)
      | TInterface \<Rightarrow> ObjectSpec
      | _ \<Rightarrow> name_spec (type_name t))"

definition struct_bp :: "string \<Rightarrow> (string \<times> gtype) list \<Rightarrow> blueprint" where
  "struct_bp n fs =
     \<lparr>Type = n, Fields = map (\<lambda>f. \<lparr>Name = fst f, Spec = Some (spec_of (snd f))\<rparr>) fs, Underlying = []\<rparr>"

lemma named_gotype:
  assumes "type_name t \<noteq> []"
  shows "concreteObjectTypeOf (gotype_of t) = Inr (type_name t)" and "tryObjectType (gotype_of t) = Some (type_name t)"
    and "concreteObjectTypeOf (gotype_of (TPtr t)) = Inr (type_name t)"
  using assms by (cases t; force simp: type_name_def concreteObjectTypeOf_def tryObjectType_def named_def nonempty_def split: if_splits)+

lemma elem_gotype:
  assumes "elem_shape t"
  shows "elemTypeName (gotype_of t) = Inr (elem_name t)"
proof (cases "t = TInterface")
  case True
  then show ?thesis by (simp add: elemTypeName_def elem_name_def type_name_def)
next
  case False
  show ?thesis
  proof (cases "\<exists>e. t = TPtr e")
    case True
    then obtain e where t: "t = TPtr e" by blast
    then show ?thesis using named_gotype(3) [of e] assms by (simp add: elem_shape_def elem_name_def elemTypeName_def)
  next
    case no: False
    then have n: "type_name t \<noteq> []" using assms False by (cases t) (auto simp: elem_shape_def)
    from named_gotype(1) [OF this] no False n show ?thesis
      by (cases t) (auto simp: elemTypeName_def elem_name_def type_name_def split: if_splits)
  qed
qed

lemma spec_derived: "describable t \<Longrightarrow> specFromType (gotype_of t) = Inr (spec_of t)"
proof (cases t)
  case (TPtr e)
  moreover assume "describable t"
  ultimately show ?thesis using named_gotype(1) [of e] by (simp add: specFromType_def spec_of_def)
next
  case (TSlice e)
  moreover assume "describable t"
  ultimately show ?thesis using elem_gotype [of e] by (simp add: specFromType_def spec_of_def tryObjectType_def nonempty_def)
next
  case (TArray e n)
  moreover assume "describable t"
  ultimately show ?thesis using elem_gotype [of e] by (simp add: specFromType_def spec_of_def tryObjectType_def nonempty_def)
qed (auto simp: specFromType_def spec_of_def name_spec_def type_name_def tryObjectType_def nonempty_def)

lemma fields_derived:
  assumes "list_all (\<lambda>f. snd f) (map (map_prod id describable) fs)"
    and "\<And>f. f \<in> set fs \<Longrightarrow> go_name (gotype_of (snd f)) \<noteq> emptyObject_name"
  shows "structFields (map (\<lambda>f. GoField (fst f) True (snd f)) (map (map_prod id gotype_of) fs)) = Inr (Fields (struct_bp n fs))"
  using assms by (induction fs) (auto simp: struct_bp_def spec_derived)

lemma not_empty_object: "describable t \<Longrightarrow> go_name (gotype_of t) \<noteq> emptyObject_name"
  by (cases t) (auto simp: emptyObject_name_def)

lemma blueprint_derived:
  assumes "describable (TStruct k n fs)" and "validateBlueprint (Some (struct_bp n fs)) = None"
  shows "BlueprintFromType (gotype_of (TStruct k n fs)) = Inr (struct_bp n fs)"
proof -
  have fs: "list_all (\<lambda>f. snd f) (map (map_prod id describable) fs)" "k \<noteq> PlainStruct" "n \<noteq> []" using assms(1) by auto
  have "structFields (map (\<lambda>f. GoField (fst f) True (snd f)) (map (map_prod id gotype_of) fs)) = Inr (Fields (struct_bp n fs))"
    by (rule fields_derived [OF fs(1)]) (use fs(1) in \<open>auto simp: list_all_iff intro!: not_empty_object\<close>)
  then show ?thesis using fs(2,3) assms(2)
    by (simp add: BlueprintFromType_def concreteObjectTypeOf_def named_def declaredBlueprint_def checked_def struct_bp_def Let_def)
qed

subsection \<open>Derived Blueprints are valid\<close>

text \<open>
  A test on the type itself under which the derived Blueprint passes validation; it reads
  characters by their bits, so it is cheap to evaluate.  \<open>fold_case\<close> sets the case bit, which is
  coarser than lower-casing.
\<close>

fun printable :: "char \<Rightarrow> bool" where
  "printable (Char b0 b1 b2 b3 b4 b5 b6 b7) = (\<not> b7 \<and> (b5 \<or> b6) \<and> \<not> (b0 \<and> b1 \<and> b2 \<and> b3 \<and> b4 \<and> b5 \<and> b6))"

fun fold_case :: "char \<Rightarrow> char" where
  "fold_case (Char b0 b1 b2 b3 b4 b5 b6 b7) = Char b0 b1 b2 b3 b4 True b6 b7"

definition plain_name :: "string \<Rightarrow> bool" where
  "plain_name s = (s \<noteq> [] \<and> list_all printable s \<and> length s \<le> 255)"

definition names_self :: "string \<Rightarrow> gtype \<Rightarrow> bool" where
  "names_self n t = (case t of TPtr e \<Rightarrow> type_name e = n | _ \<Rightarrow> type_name t = n)"

definition derivable :: "gtype \<Rightarrow> bool" where
  "derivable t =
     (case t of
        TStruct k n fs \<Rightarrow>
          describable t \<and> plain_name n \<and> list_all (\<lambda>f. plain_name (fst f) \<and> \<not> names_self n (snd f)) fs \<and>
          distinct (map (\<lambda>f. map fold_case (fst f)) fs)
      | _ \<Rightarrow> False)"

lemma printable_range: "printable c \<longleftrightarrow> \<not> ((of_char c :: nat) < 0x20 \<or> (of_char c :: nat) > 0x7E)"
proof (cases c)
  case (Char b0 b1 b2 b3 b4 b5 b6 b7)
  then show ?thesis by (cases b0; cases b1; cases b2; cases b3; cases b4; cases b5; cases b6; cases b7) simp_all
qed

lemma fold_to_lower: "fold_case (to_lower c) = fold_case c"
proof (cases c)
  case (Char b0 b1 b2 b3 b4 b5 b6 b7)
  then show ?thesis
    by (cases b0; cases b1; cases b2; cases b3; cases b4; cases b5; cases b6; cases b7)
      (simp_all add: to_lower_def char_of_def bit_simps)
qed

lemma plain_good: "plain_name s \<Longrightarrow> good_name s"
  by (auto simp: plain_name_def good_name_def isASCII_def MaxBlueprintNameLen_def list_all_iff printable_range)

lemma fold_distinct: "distinct (map (\<lambda>f. map fold_case (fst f)) fs) \<Longrightarrow> distinct (map (\<lambda>f. ToLower (fst f)) fs)"
proof -
  have "map fold_case s = map fold_case (ToLower s)" for s by (simp add: ToLower_def fold_to_lower)
  then show "distinct (map (\<lambda>f. map fold_case (fst f)) fs) \<Longrightarrow> ?thesis"
    unfolding distinct_map inj_on_def by metis
qed

lemma describable_spec: "describable t \<Longrightarrow> validateSpec (Some (spec_of t)) = None"
  by (cases t) (auto simp: spec_of_def name_spec_def type_name_def MaxArraySpecLength_def unat_of_nat take_bit_nat_eq_self)

lemma spec_self: "\<not> names_self n t \<Longrightarrow> spec_of t \<noteq> RefSpec n \<and> spec_of t \<noteq> PtrSpec n"
  by (cases t) (auto simp: spec_of_def name_spec_def names_self_def)

lemma derivable_valid:
  assumes "derivable (TStruct k n fs)"
  shows "validateBlueprint (Some (struct_bp n fs)) = None"
proof -
  have d: "plain_name n" "list_all (\<lambda>f. plain_name (fst f) \<and> \<not> names_self n (snd f)) fs"
    "list_all (\<lambda>f. snd f) (map (map_prod id describable) fs)" "distinct (map (\<lambda>f. map fold_case (fst f)) fs)"
    using assms by (auto simp: derivable_def)
  have "good_field n \<lparr>Name = fst f, Spec = Some (spec_of (snd f))\<rparr>" if "f \<in> set fs" for f
    using d(2,3) that plain_good [of "fst f"] describable_spec [of "snd f"] spec_self [of n "snd f"]
    by (auto simp: good_field_def list_all_iff)
  then show ?thesis using plain_good [OF d(1)] fold_distinct [OF d(4)]
    by (auto simp: validateBlueprint_ok_iff struct_bp_def comp_def)
qed

lemma derivable_blueprint:
  assumes "derivable (TStruct k n fs)"
  shows "BlueprintFromType (gotype_of (TStruct k n fs)) = Inr (struct_bp n fs)"
  by (rule blueprint_derived [OF _ derivable_valid [OF assms]]) (use assms in \<open>simp add: derivable_def\<close>)

subsection \<open>A compiled value as a runtime object\<close>

definition elem_slot :: "obj \<Rightarrow> obj" where
  "elem_slot x = (if x = NilObj then Absent else x)"

primrec gv_obj :: "gtype \<Rightarrow> gval \<Rightarrow> obj" where
  "gv_obj (TPrim n) = (\<lambda>v. case v of VPrim p \<Rightarrow> Prim p | _ \<Rightarrow> Absent)"
| "gv_obj (TNative n) = (\<lambda>v. case v of VNative bs \<Rightarrow> Native n bs | _ \<Rightarrow> Absent)"
| "gv_obj (TBasic k) = (\<lambda>v. Absent)"
| "gv_obj (TPtr t) = (\<lambda>v. case v of VPtr x \<Rightarrow> gv_obj t x | _ \<Rightarrow> NilObj)"
| "gv_obj (TSlice t) = (\<lambda>v. case v of VList vs \<Rightarrow> RSlice (elem_name t) (map (\<lambda>x. elem_slot (gv_obj t x)) vs) | _ \<Rightarrow> Absent)"
| "gv_obj (TArray t n) = (\<lambda>v. case v of VList vs \<Rightarrow> RArray (elem_name t) (map (\<lambda>x. elem_slot (gv_obj t x)) vs) | _ \<Rightarrow> Absent)"
| "gv_obj (TMap k t) = (\<lambda>v. Absent)"
| "gv_obj (TStruct k n fs) =
     (\<lambda>v. case v of
        VStruct vs \<Rightarrow> Struct (struct_bp n fs) (map (\<lambda>(f, x). snd f x) (zip (map (map_prod id gv_obj) fs) vs))
      | _ \<Rightarrow> Absent)"
| "gv_obj TInterface = (\<lambda>v. case v of VObj x \<Rightarrow> if x = Absent then NilObj else x | _ \<Rightarrow> NilObj)"

definition described_field :: "gtype \<Rightarrow> gval \<Rightarrow> bool" where
  "described_field t v \<longleftrightarrow> alike (gv_WriteTo t v) (writeField (Some (spec_of t)) (gv_obj t v) (obj_WriteTo (gv_obj t v)))"

definition described_elem :: "gtype \<Rightarrow> gval \<Rightarrow> bool" where
  "described_elem t v \<longleftrightarrow>
     alike (wseq (writePresence (elemNeedsPresenceFlag t)) (gv_WriteTo t v))
       (elem_WriteTo (elem_name t) (elem_slot (gv_obj t v)) (obj_WriteTo (elem_slot (gv_obj t v))))"

lemma gv_obj_present:
  assumes "gv_fits nok bps t v" and "type_name t \<noteq> []"
  shows "gv_obj t v \<noteq> Absent" and "gv_obj t v \<noteq> NilObj"
  using assms by (cases t; auto simp: type_name_def split: gval.splits)+

lemma writeField_named:
  "gv_fits nok bps t v \<Longrightarrow> type_name t \<noteq> [] \<Longrightarrow> writeField (Some (spec_of t)) (gv_obj t v) W = W"
  by (cases t) (auto simp: type_name_def spec_of_def name_spec_def writeField_def split: gval.splits)

lemma described_named:
  assumes "gv_fits nok bps t v" and "type_name t \<noteq> []"
  shows "described_field t v \<longleftrightarrow> alike (gv_WriteTo t v) (obj_WriteTo (gv_obj t v))"
  by (simp add: described_field_def writeField_named [OF assms])

lemma described_elem_named:
  assumes "gv_fits nok bps t v" and "type_name t \<noteq> []" and "described_field t v"
  shows "described_elem t v"
proof -
  have n: "elem_name t = type_name t" "elemNeedsPresenceFlag t" using assms(2)
    by (cases t; simp add: elem_name_def type_name_def elemNeedsPresenceFlag_def)+
  have "alike (gv_WriteTo t v) (obj_WriteTo (gv_obj t v))" using assms described_named by blast
  then show ?thesis using n gv_obj_present [OF assms(1,2)] assms(2)
    by (auto simp: described_elem_def elem_slot_def elem_WriteTo_def ptrValue_WriteTo_def presence_fixed
        intro!: alike_frame_right alike_intros)
qed

lemma described_own:
  assumes "gv_fits nok bps t v" and "type_name t \<noteq> []" and "alike (gv_WriteTo t v) (obj_WriteTo (gv_obj t v))"
  shows "described_field t v \<and> (elem_shape t \<longrightarrow> described_elem t v)"
  using assms described_named [OF assms(1,2)] described_elem_named [OF assms(1,2)] by blast

lemma described_elem_ptr:
  assumes "gv_fits nok bps (TPtr t) v" and "type_name t \<noteq> []" and "\<And>x. gv_fits nok bps t x \<Longrightarrow> described_field t x"
  shows "described_elem (TPtr t) v"
proof (cases v)
  case (VPtr x)
  then have f: "gv_fits nok bps t x" using assms(1) by simp
  then have "alike (gv_WriteTo t x) (obj_WriteTo (gv_obj t x))" using assms(2,3) described_named by blast
  then show ?thesis using VPtr assms(2) gv_obj_present [OF f assms(2)]
    by (auto simp: described_elem_def elem_slot_def elem_WriteTo_def ptrValue_WriteTo_def elem_name_def writePresence_def
        elemNeedsPresenceFlag_def intro!: alike_intros)
next
  case VNil
  then show ?thesis using assms(2)
    by (auto simp: described_elem_def elem_slot_def elem_WriteTo_def ptrValue_WriteTo_def elem_name_def writePresence_def
        elemNeedsPresenceFlag_def intro!: alike_intros)
qed (use assms(1) in auto)

lemma described_interface: "described_elem TInterface (VObj x)" "described_field TInterface (VObj x)"
proof -
  have "alike (elem_WriteTo [] x (obj_WriteTo x)) (elem_WriteTo [] x (obj_WriteTo x))" by (intro alike_elem alike_obj)
  moreover have "elem_WriteTo [] Absent W = interfaceValue_WriteTo None" "elem_WriteTo [] NilObj W = interfaceValue_WriteTo None" for W
    by (simp_all add: elem_WriteTo_def isPtrNil_def)
  ultimately show "described_elem TInterface (VObj x)"
    by (auto simp: described_elem_def elem_slot_def elem_name_def type_name_def writePresence_def elemNeedsPresenceFlag_def)
  have z: "String8_WriteTo [] = writeFixed (0 :: 8 word)" by (simp add: String8_WriteTo_def scalar_writers writePayload_def wskip_def [symmetric] fun_eq_iff)
  show "described_field TInterface (VObj x)"
    using alike_obj [of x]
    by (auto simp: described_field_def elem_WriteTo_def interfaceValue_WriteTo_def writeField_def spec_of_def isPtrNil_def z
        ObjectType_WriteTo_def ShortTypeEncoder_def ptrValue_WriteTo_def intro!: alike_intros alike_frame_left)
qed

lemma described_sequence:
  assumes "\<And>x. x \<in> set vs \<Longrightarrow> described_elem t x"
  shows "list_all2 alike (map (wseq (writePresence (elemNeedsPresenceFlag t))) (map (gv_WriteTo t) vs))
    (map (\<lambda>x. elem_WriteTo (elem_name t) x (obj_WriteTo x)) (map (\<lambda>x. elem_slot (gv_obj t x)) vs))"
  using assms by (auto simp: list_all2_conv_all_nth described_elem_def)

lemma sequence_views:
  "sliceValue_WriteTo fl ws =
     wframe (wseq (writeFixed (of_nat (length ws) :: 32 word)) (writeAll (map (wseq (writePresence fl)) ws)))"
  "arrayValue_WriteTo fl ws = wframe (writeAll (map (wseq (writePresence fl)) ws))"
  "wseq (writePresence False) = (\<lambda>W. W)"
  by (simp_all add: sliceValue_WriteTo_def arrayValue_WriteTo_def writeElems_def writePresence_def fun_eq_iff)

lemma described_list:
  assumes "\<And>x. x \<in> set vs \<Longrightarrow> described_elem t x"
  shows "described_field (TSlice t) (VList vs)" "described_field (TArray t n) (VList vs)"
  using alike_all [OF described_sequence [of vs t, OF assms]]
  by (auto simp: comp_def described_field_def spec_of_def writeField_def sequence_views intro!: alike_intros)

lemma described_struct:
  assumes fits: "list_all2 (\<lambda>f x. snd f x) (map (map_prod id (gv_fits nok bps)) fs) vs"
    and fields: "\<And>n t x. (n, t) \<in> set fs \<Longrightarrow> gv_fits nok bps t x \<Longrightarrow> described_field t x"
    and k: "k \<noteq> PlainStruct"
  shows "alike (gv_WriteTo (TStruct k n fs) (VStruct vs)) (obj_WriteTo (gv_obj (TStruct k n fs) (VStruct vs)))"
    and "alike (Objectified_WriteTo (TStruct k n fs) (VStruct vs)) (obj_WriteTo (gv_obj (TStruct k n fs) (VStruct vs)))"
proof -
  let ?vs = "map (\<lambda>(f, x). snd f x) (zip (map (map_prod id gv_obj) fs) vs)"
  have len: "length fs = length vs" using list_all2_lengthD [OF fits] by simp
  have "list_all2 alike (field_writers (map (map_prod id gv_WriteTo) fs) vs)
      (map (\<lambda>(f, v, W). writeField (Spec f) v W) (zip (Fields (struct_bp n fs)) (map (\<lambda>v. (v, obj_WriteTo v)) ?vs)))"
    unfolding list_all2_conv_all_nth
  proof (intro conjI allI impI)
    fix i
    assume "i < length (field_writers (map (map_prod id gv_WriteTo) fs) vs)"
    then have i: "i < length fs" "i < length vs" using len by (simp_all add: field_writers_def)
    then have "gv_fits nok bps (snd (fs ! i)) (vs ! i)" using list_all2_nthD [OF fits, of i] by simp
    moreover have "(fst (fs ! i), snd (fs ! i)) \<in> set fs" using i by simp
    ultimately have "described_field (snd (fs ! i)) (vs ! i)" using fields by blast
    then show "alike (field_writers (map (map_prod id gv_WriteTo) fs) vs ! i)
        (map (\<lambda>(f, v, W). writeField (Spec f) v W) (zip (Fields (struct_bp n fs)) (map (\<lambda>v. (v, obj_WriteTo v)) ?vs)) ! i)"
      using i by (simp add: field_writers_def struct_bp_def described_field_def)
  qed (simp add: field_writers_def struct_bp_def len)
  from alike_frame [OF alike_all [OF this]]
  show "alike (gv_WriteTo (TStruct k n fs) (VStruct vs)) (obj_WriteTo (gv_obj (TStruct k n fs) (VStruct vs)))"
    "alike (Objectified_WriteTo (TStruct k n fs) (VStruct vs)) (obj_WriteTo (gv_obj (TStruct k n fs) (VStruct vs)))"
    using k by (cases k; simp add: Objectified_WriteTo_def struct_WriteTo_def structValue_WriteTo_def alike_frame_left)+
qed

lemma described:
  "describable t \<Longrightarrow> gv_fits nok bps t v \<Longrightarrow> described_field t v \<and> (elem_shape t \<longrightarrow> described_elem t v)"
proof (induction t arbitrary: v)
  case (TPtr t)
  then have named: "type_name t \<noteq> []" and fld: "\<And>x. gv_fits nok bps t x \<Longrightarrow> described_field t x" by auto
  have "described_field (TPtr t) v"
  proof (cases v)
    case (VPtr x)
    then have f: "gv_fits nok bps t x" using TPtr.prems by simp
    then have "alike (gv_WriteTo t x) (obj_WriteTo (gv_obj t x))" using fld named described_named by blast
    then show ?thesis using VPtr gv_obj_present [OF f named]
      by (auto simp: described_field_def spec_of_def writeField_def isPtrNil_def ptrValue_WriteTo_def flag_counted
          intro!: alike_frame_left alike_intros)
  next
    case VNil
    then show ?thesis
      by (auto simp: described_field_def spec_of_def writeField_def isPtrNil_def ptrValue_WriteTo_def flag_counted
          intro!: alike_frame_left alike_intros)
  qed (use TPtr.prems in auto)
  then show ?case using described_elem_ptr [OF TPtr.prems(2) named fld] by blast
next
  case (TSlice t)
  then obtain vs where v: "v = VList vs" "list_all (gv_fits nok bps t) vs" by (auto split: gval.splits)
  then have "described_elem t x" if "x \<in> set vs" for x using TSlice that by (auto simp: list_all_iff)
  then show ?case using described_list v(1) by (auto simp: elem_shape_def type_name_def)
next
  case (TArray t n)
  then obtain vs where v: "v = VList vs" "list_all (gv_fits nok bps t) vs" by (auto split: gval.splits)
  then have "described_elem t x" if "x \<in> set vs" for x using TArray that by (auto simp: list_all_iff)
  then show ?case using described_list v(1) by (auto simp: elem_shape_def type_name_def)
next
  case (TStruct k n fs)
  then obtain vs where v: "v = VStruct vs" "list_all2 (\<lambda>f x. snd f x) (map (map_prod id (gv_fits nok bps)) fs) vs"
    by (auto split: gval.splits)
  have "alike (gv_WriteTo (TStruct k n fs) (VStruct vs)) (obj_WriteTo (gv_obj (TStruct k n fs) (VStruct vs)))"
    by (rule described_struct [OF v(2)])
      (use TStruct in \<open>force simp: list_all_iff\<close>, use TStruct.prems in simp)
  moreover have "type_name (TStruct k n fs) \<noteq> []" using TStruct.prems by (simp add: type_name_def)
  ultimately show ?case using v(1) described_own [OF TStruct.prems(2)] by blast
next
  case TInterface
  then show ?case using described_interface by (auto split: gval.splits)
next
  case (TPrim n)
  show ?case
    by (rule described_own [OF TPrim.prems(2)]) (use TPrim.prems in \<open>auto simp: type_name_def alike_intros split: gval.splits\<close>)
next
  case (TNative n)
  show ?case
    by (rule described_own [OF TNative.prems(2)]) (use TNative.prems in \<open>auto simp: type_name_def alike_intros split: gval.splits\<close>)
qed auto

lemma interop_alike:
  assumes "describable (TStruct k n fs)" and "gv_fits nok bps (TStruct k n fs) v"
  shows "alike (Objectified_WriteTo (TStruct k n fs) v) (obj_WriteTo (gv_obj (TStruct k n fs) v))"
proof -
  obtain vs where v: "v = VStruct vs" "list_all2 (\<lambda>f x. snd f x) (map (map_prod id (gv_fits nok bps)) fs) vs"
    using assms(2) by (auto split: gval.splits)
  show ?thesis unfolding v(1)
    by (rule described_struct(2) [OF v(2)]) (use assms(1) described in \<open>force simp: list_all_iff\<close>, use assms(1) in simp)
qed

end
