(* ===== verification/Str_Order.thy ===== *)
theory Str_Order
  imports Main
begin

text \<open>
  A strict order on strings that is cheap to evaluate, and chains of strings that ascend in it:
  how the development checks that long lists of names have no repetition.
\<close>

text \<open>Comparison of characters and strings by bits, the most significant bit first.\<close>

fun bit_less :: "bool \<Rightarrow> bool \<Rightarrow> bool \<Rightarrow> bool" where
  "bit_less a b r = (if a = b then r else b)"

fun char_less :: "char \<Rightarrow> char \<Rightarrow> bool" where
  "char_less (Char a0 a1 a2 a3 a4 a5 a6 a7) (Char b0 b1 b2 b3 b4 b5 b6 b7) =
     bit_less a7 b7 (bit_less a6 b6 (bit_less a5 b5 (bit_less a4 b4 (bit_less a3 b3 (bit_less a2 b2 (bit_less a1 b1
       (bit_less a0 b0 False)))))))"

fun word_less :: "string \<Rightarrow> string \<Rightarrow> bool" where
  "word_less xs [] = False"
| "word_less [] (y # ys) = True"
| "word_less (x # xs) (y # ys) = (if x = y then word_less xs ys else char_less x y)"

fun word_chain :: "string \<Rightarrow> string list \<Rightarrow> bool" where
  "word_chain x [] = True"
| "word_chain x (y # ys) = (word_less x y \<and> word_chain y ys)"

lemma char_less_trans: "char_less a b \<Longrightarrow> char_less b c \<Longrightarrow> char_less a c"
  by (cases a; cases b; cases c) (simp split: if_splits)

lemma char_less_irrefl: "\<not> char_less a a"
  by (cases a) simp

lemma word_less_irrefl: "\<not> word_less a a"
  by (induction a) auto

lemma word_less_trans: "word_less a b \<Longrightarrow> word_less b c \<Longrightarrow> word_less a c"
proof (induction a b arbitrary: c rule: word_less.induct)
  case (2 y ys)
  then show ?case by (cases c) auto
next
  case (3 x xs y ys)
  then show ?case using char_less_trans char_less_irrefl by (cases c) (auto split: if_splits)
qed simp

lemma word_chain_above: "word_chain x ys \<Longrightarrow> y \<in> set ys \<Longrightarrow> word_less x y"
  by (induction x ys rule: word_chain.induct) (auto intro: word_less_trans)

lemma word_chain_distinct: "word_chain x ys \<Longrightarrow> distinct (x # ys)"
proof (induction x ys rule: word_chain.induct)
  case (2 x y ys)
  then have "x \<notin> set ys" using word_chain_above word_less_trans word_less_irrefl by (metis word_chain.simps(2))
  then show ?case using 2 word_less_irrefl by auto
qed simp

lemma word_chain_append:
  "word_chain x (ys @ zs) \<longleftrightarrow> word_chain x ys \<and> word_chain (last (x # ys)) zs"
  by (induction x ys rule: word_chain.induct) auto

end
