(* ===== verification/Api_Messages.thy ===== *)
theory Api_Messages
  imports Interop Str_Order
begin

text \<open>
  The messages of the node services: every struct under \<^verbatim>\<open>src/api\<close>, \<^verbatim>\<open>src/astral\<close> and \<^verbatim>\<open>src/lib\<close> whose
  \<^verbatim>\<open>WriteTo\<close> and \<^verbatim>\<open>ReadFrom\<close> are one call of \<^verbatim>\<open>astral.Objectify\<close> on the value itself, and the structs they are
  made of.  A message is its \<open>gtype\<close>: the answer of \<^verbatim>\<open>ObjectType()\<close> and the exported fields in order.
  Types with a codec of their own outside the primitives are \<open>TNative\<close>: identities, bundles,
  floats, addresses, hashes, digests and message identifiers.
\<close>

definition message_WriteTo :: "gtype \<Rightarrow> gval \<Rightarrow> writer" where
  "message_WriteTo m v = Objectified_WriteTo m v"

definition message_ReadFrom :: "(string \<Rightarrow> bytes reader) \<Rightarrow> registry \<Rightarrow> gtype \<Rightarrow> gval reader" where
  "message_ReadFrom nread bps m = Objectified_ReadFrom nread bps m"

definition message_type :: "gtype \<Rightarrow> string" where
  "message_type m = (case m of TStruct k n fs \<Rightarrow> n | _ \<Rightarrow> [])"

subsection \<open>\<^verbatim>\<open>src/api/apphost\<close>\<close>

definition apphost_AccessToken :: gtype where
  "apphost_AccessToken =
     TStruct ValueStruct ''apphost.access_token''
       [(''Identity'', TPtr (TNative ''identity'')), (''Token'', TPrim ''string8''), (''ExpiresAt'', TPrim ''time'')]"

definition apphost_AttachQueryMsg :: gtype where
  "apphost_AttachQueryMsg =
     TStruct ObjectStruct ''mod.apphost.attach_query_msg''
       [(''QueryID'', TPrim ''nonce64'')]"

definition apphost_AuthSuccessMsg :: gtype where
  "apphost_AuthSuccessMsg =
     TStruct ObjectStruct ''mod.apphost.auth_success_msg''
       [(''GuestID'', TPtr (TNative ''identity''))]"

definition apphost_BindMsg :: gtype where
  "apphost_BindMsg =
     TStruct ObjectStruct ''mod.apphost.bind_msg''
       [(''Token'', TPrim ''nonce64'')]"

definition apphost_GrantDecision :: gtype where
  "apphost_GrantDecision =
     TStruct ValueStruct ''mod.apphost.grant_decision''
       [(''Allow'', TPrim ''bool'')]"

definition apphost_HandleQueryMsg :: gtype where
  "apphost_HandleQueryMsg =
     TStruct ObjectStruct ''mod.apphost.handle_query_msg''
       [(''IPCToken'', TPrim ''nonce64''), (''ID'', TPrim ''nonce64''), (''Caller'', TPtr (TNative ''identity'')),
        (''Target'', TPtr (TNative ''identity'')), (''Query'', TPrim ''string16'')]"

definition apphost_HostInfoMsg :: gtype where
  "apphost_HostInfoMsg =
     TStruct ObjectStruct ''mod.apphost.host_info_msg''
       [(''Identity'', TPtr (TNative ''identity'')), (''Alias'', TPrim ''string8'')]"

definition apphost_IncomingQueryMsg :: gtype where
  "apphost_IncomingQueryMsg =
     TStruct ObjectStruct ''mod.apphost.incoming_query_msg''
       [(''QueryID'', TPrim ''nonce64''), (''Caller'', TPtr (TNative ''identity'')),
        (''Target'', TPtr (TNative ''identity'')), (''Query'', TPrim ''string16'')]"

definition apphost_QueryAcceptedMsg :: gtype where
  "apphost_QueryAcceptedMsg =
     TStruct ObjectStruct ''mod.apphost.query_accepted_msg''
       []"

definition apphost_QueryRejectedMsg :: gtype where
  "apphost_QueryRejectedMsg =
     TStruct ObjectStruct ''mod.apphost.query_rejected_msg''
       [(''Code'', TPrim ''uint8'')]"

definition apphost_RegisterServiceMsg :: gtype where
  "apphost_RegisterServiceMsg =
     TStruct ObjectStruct ''mod.apphost.register_service_msg''
       [(''Identity'', TPtr (TNative ''identity''))]"

definition apphost_RejectIncomingMsg :: gtype where
  "apphost_RejectIncomingMsg =
     TStruct ObjectStruct ''mod.apphost.reject_incoming_msg''
       [(''QueryID'', TPrim ''nonce64''), (''Code'', TPrim ''uint8'')]"

definition apphost_RouteQueryMsg :: gtype where
  "apphost_RouteQueryMsg =
     TStruct ValueStruct ''mod.apphost.route_query_msg''
       [(''Nonce'', TPrim ''nonce64''), (''Caller'', TPtr (TNative ''identity'')),
        (''Target'', TPtr (TNative ''identity'')), (''Query'', TPrim ''string16''), (''Zone'', TPrim ''zone''),
        (''Filters'', TSlice (TPrim ''string8''))]"

subsection \<open>\<^verbatim>\<open>src/api/auth\<close>\<close>

definition auth_AuthorizerAssignment :: gtype where
  "auth_AuthorizerAssignment =
     TStruct ObjectStruct ''mod.auth.authorizer_assignment''
       [(''Action'', TPrim ''string8''), (''Actor'', TPtr (TNative ''identity'')), (''Endpoint'', TPrim ''string8''),
        (''Timeout'', TPrim ''duration''), (''TokenFile'', TPrim ''string8''), (''TokenEnv'', TPrim ''string8''),
        (''TokenValue'', TPrim ''string8'')]"

definition auth_Permit :: gtype where
  "auth_Permit =
     TStruct ValueStruct ''mod.auth.permit''
       [(''Action'', TPrim ''string8''), (''Constraints'', TPtr (TNative ''bundle'')),
        (''Delegation'', TPrim ''uint8'')]"

definition auth_Action :: gtype where
  "auth_Action =
     TStruct ObjectStruct ''mod.auth.action''
       [(''Nonce'', TPrim ''nonce64''), (''ActorID'', TPtr (TNative ''identity''))]"

definition auth_AdminManageAppsAction :: gtype where
  "auth_AdminManageAppsAction =
     TStruct ObjectStruct ''mod.auth.admin_manage_apps_action''
       [(''Action'', auth_Action)]"

definition auth_AdminNetworkAction :: gtype where
  "auth_AdminNetworkAction =
     TStruct ObjectStruct ''mod.auth.admin_network_action''
       [(''Action'', auth_Action)]"

definition auth_AdminObjectsAction :: gtype where
  "auth_AdminObjectsAction =
     TStruct ObjectStruct ''mod.auth.admin_objects_action''
       [(''Action'', auth_Action), (''ObjectID'', TPtr (TPrim ''object_id.sha256'')), (''Repo'', TPrim ''string8''),
        (''Path'', TPrim ''string8'')]"

definition auth_ConfigureNodeStateAction :: gtype where
  "auth_ConfigureNodeStateAction =
     TStruct ObjectStruct ''mod.auth.configure_node_state_action''
       [(''Action'', auth_Action)]"

definition auth_Contract :: gtype where
  "auth_Contract =
     TStruct ValueStruct ''mod.auth.contract''
       [(''Issuer'', TPtr (TNative ''identity'')), (''Subject'', TPtr (TNative ''identity'')),
        (''Permits'', TSlice (TPtr (auth_Permit))), (''ExpiresAt'', TPrim ''time'')]"

definition auth_SeeNodeStateAction :: gtype where
  "auth_SeeNodeStateAction =
     TStruct ObjectStruct ''mod.auth.see_node_state_action''
       [(''Action'', auth_Action)]"

definition auth_SeeObjectsAction :: gtype where
  "auth_SeeObjectsAction =
     TStruct ObjectStruct ''mod.auth.see_objects_action''
       [(''Action'', auth_Action), (''ObjectID'', TPtr (TPrim ''object_id.sha256'')), (''Repo'', TPrim ''string8'')]"

definition auth_ServeAppsAction :: gtype where
  "auth_ServeAppsAction =
     TStruct ObjectStruct ''mod.auth.serve_apps_action''
       [(''Action'', auth_Action)]"

definition auth_ServeObjectsAction :: gtype where
  "auth_ServeObjectsAction =
     TStruct ObjectStruct ''mod.auth.serve_objects_action''
       [(''Action'', auth_Action), (''Role'', TPrim ''string8'')]"

definition auth_StoreObjectsAction :: gtype where
  "auth_StoreObjectsAction =
     TStruct ObjectStruct ''mod.auth.store_objects_action''
       [(''Action'', auth_Action), (''Repo'', TPrim ''string8''), (''Type'', TPrim ''string8'')]"

definition auth_SudoAction :: gtype where
  "auth_SudoAction =
     TStruct ObjectStruct ''mod.auth.sudo_action''
       [(''Action'', auth_Action), (''AsID'', TPtr (TNative ''identity''))]"

definition auth_UseBlueprintsAction :: gtype where
  "auth_UseBlueprintsAction =
     TStruct ObjectStruct ''mod.auth.use_blueprints_action''
       [(''Action'', auth_Action)]"

definition auth_UseGatewayAction :: gtype where
  "auth_UseGatewayAction =
     TStruct ObjectStruct ''mod.auth.use_gateway_action''
       [(''Action'', auth_Action)]"

subsection \<open>\<^verbatim>\<open>src/api/apphost\<close>\<close>

definition apphost_AppRegisterDecision :: gtype where
  "apphost_AppRegisterDecision =
     TStruct ValueStruct ''mod.apphost.app_register_decision''
       [(''Allow'', TPrim ''bool''), (''GrantPermits'', TSlice (TPtr (auth_Permit))),
        (''ContractPermits'', TSlice (TPtr (auth_Permit))),
        (''Authorizers'', TSlice (TPtr (auth_AuthorizerAssignment)))]"

definition apphost_AppRegisterRequest :: gtype where
  "apphost_AppRegisterRequest =
     TStruct ValueStruct ''mod.apphost.app_register_request''
       [(''Origin'', TPrim ''string8''), (''Name'', TPrim ''string8''),
        (''GrantPermits'', TSlice (TPtr (auth_Permit))), (''ContractPermits'', TSlice (TPtr (auth_Permit)))]"

definition apphost_Grant :: gtype where
  "apphost_Grant =
     TStruct ValueStruct ''mod.apphost.grant''
       [(''ID'', TPrim ''uint64''), (''Permit'', TPtr (auth_Permit)), (''ExpiresAt'', TPtr (TPrim ''time''))]"

definition apphost_GrantPolicyRequest :: gtype where
  "apphost_GrantPolicyRequest =
     TStruct ValueStruct ''mod.apphost.grant_policy_request''
       [(''Requester'', TPtr (TNative ''identity'')), (''Origin'', TPrim ''string8''),
        (''Permits'', TSlice (TPtr (auth_Permit))), (''Duration'', TPrim ''duration'')]"

definition apphost_GrantRequest :: gtype where
  "apphost_GrantRequest =
     TStruct ValueStruct ''mod.apphost.grant_request''
       [(''Identity'', TPtr (TNative ''identity'')), (''Duration'', TPrim ''duration''),
        (''Permits'', TSlice (TPtr (auth_Permit)))]"

definition apphost_RegisterRequest :: gtype where
  "apphost_RegisterRequest =
     TStruct ValueStruct ''mod.apphost.register_request''
       [(''Name'', TPrim ''string8''), (''GrantPermits'', TSlice (TPtr (auth_Permit))),
        (''ContractPermits'', TSlice (TPtr (auth_Permit)))]"

definition apphost_RequestGrantRequest :: gtype where
  "apphost_RequestGrantRequest =
     TStruct ValueStruct ''mod.apphost.request_grant_request''
       [(''Permits'', TSlice (TPtr (auth_Permit))), (''Duration'', TPrim ''duration'')]"

subsection \<open>\<^verbatim>\<open>src/api/crypto\<close>\<close>

definition crypto_PublicKey :: gtype where
  "crypto_PublicKey =
     TStruct ValueStruct ''mod.crypto.public_key''
       [(''Type'', TPrim ''string8''), (''Key'', TPrim ''bytes16'')]"

definition crypto_Signature :: gtype where
  "crypto_Signature =
     TStruct ValueStruct ''mod.crypto.signature''
       [(''Scheme'', TPrim ''string8''), (''Data'', TPrim ''bytes16'')]"

definition crypto_PrivateKey :: gtype where
  "crypto_PrivateKey =
     TStruct ValueStruct ''mod.crypto.private_key''
       [(''Type'', TPrim ''string8''), (''Key'', TPrim ''bytes16'')]"

definition crypto_SignAnswer :: gtype where
  "crypto_SignAnswer =
     TStruct ObjectStruct ''mod.crypto.sign_answer''
       [(''RequestID'', TPrim ''nonce64''), (''Signature'', TPtr (crypto_Signature)), (''Error'', TPrim ''string16'')]"

definition crypto_SignCancel :: gtype where
  "crypto_SignCancel =
     TStruct ObjectStruct ''mod.crypto.sign_cancel''
       [(''RequestID'', TPrim ''nonce64'')]"

definition crypto_SignHashRequest :: gtype where
  "crypto_SignHashRequest =
     TStruct ObjectStruct ''mod.crypto.sign_hash_request''
       [(''RequestID'', TPrim ''nonce64''), (''Key'', TPtr (crypto_PublicKey)), (''Scheme'', TPrim ''string8''),
        (''Hash'', TNative ''mod.crypto.hash'')]"

definition crypto_SignTextRequest :: gtype where
  "crypto_SignTextRequest =
     TStruct ObjectStruct ''mod.crypto.sign_text_request''
       [(''RequestID'', TPrim ''nonce64''), (''Key'', TPtr (crypto_PublicKey)), (''Scheme'', TPrim ''string8''),
        (''Text'', TPrim ''string16'')]"

definition crypto_SignerKey :: gtype where
  "crypto_SignerKey =
     TStruct ObjectStruct ''mod.crypto.signer_key''
       [(''Key'', TPtr (crypto_PublicKey)), (''Scheme'', TPrim ''string8'')]"

definition crypto_SignerKeys :: gtype where
  "crypto_SignerKeys =
     TStruct ValueStruct ''mod.crypto.signer_keys''
       [(''Keys'', TSlice (TPtr (crypto_SignerKey)))]"

subsection \<open>\<^verbatim>\<open>src/api/auth\<close>\<close>

definition auth_RegisterSignerAction :: gtype where
  "auth_RegisterSignerAction =
     TStruct ObjectStruct ''mod.auth.register_signer_action''
       [(''Action'', auth_Action), (''Key'', TPtr (crypto_PublicKey))]"

definition auth_SignedContract :: gtype where
  "auth_SignedContract =
     TStruct ValueStruct ''mod.auth.signed_contract''
       [(''Contract'', TPtr (auth_Contract)), (''IssuerSig'', TPtr (crypto_Signature)),
        (''SubjectSig'', TPtr (crypto_Signature))]"

subsection \<open>\<^verbatim>\<open>src/api/dir\<close>\<close>

definition dir_AliasMap :: gtype where
  "dir_AliasMap =
     TStruct ValueStruct ''mod.dir.alias_map''
       [(''Aliases'', TMap String (TPtr (TNative ''identity'')))]"

subsection \<open>\<^verbatim>\<open>src/api/ether\<close>\<close>

definition ether_Envelope :: gtype where
  "ether_Envelope =
     TStruct ValueStruct ''mod.ether.envelope''
       [(''Version'', TPrim ''uint8''), (''Object'', TInterface)]"

definition ether_EventBroadcastReceived :: gtype where
  "ether_EventBroadcastReceived =
     TStruct ValueStruct ''mod.ether.events.broadcast_received''
       [(''SourceIP'', TNative ''mod.ip.ip_address''), (''Object'', TInterface)]"

subsection \<open>\<^verbatim>\<open>src/api/events\<close>\<close>

definition events_Event :: gtype where
  "events_Event =
     TStruct ValueStruct ''mod.events.event''
       [(''ID'', TPrim ''nonce64''), (''SourceID'', TPtr (TNative ''identity'')), (''Timestamp'', TPrim ''time''),
        (''Data'', TInterface)]"

subsection \<open>\<^verbatim>\<open>src/api/fs\<close>\<close>

definition fs_EventFileAdded :: gtype where
  "fs_EventFileAdded =
     TStruct ObjectStruct ''astrald.mod.fs.events.file_added''
       [(''Path'', TPrim ''string16''), (''ObjectID'', TPtr (TPrim ''object_id.sha256''))]"

definition fs_EventFileChanged :: gtype where
  "fs_EventFileChanged =
     TStruct ObjectStruct ''astrald.mod.fs.events.file_changed''
       [(''Path'', TPrim ''string16''), (''OldID'', TPtr (TPrim ''object_id.sha256'')),
        (''NewID'', TPtr (TPrim ''object_id.sha256''))]"

definition fs_EventFileRemoved :: gtype where
  "fs_EventFileRemoved =
     TStruct ObjectStruct ''astrald.mod.fs.events.file_removed''
       [(''Path'', TPrim ''string16''), (''ObjectID'', TPtr (TPrim ''object_id.sha256''))]"

definition fs_FileLocation :: gtype where
  "fs_FileLocation =
     TStruct ValueStruct ''mod.fs.file_location''
       [(''NodeID'', TPtr (TNative ''identity'')), (''Path'', TPrim ''string16'')]"

subsection \<open>\<^verbatim>\<open>src/api/gateway\<close>\<close>

definition gateway_Endpoint :: gtype where
  "gateway_Endpoint =
     TStruct ValueStruct ''mod.gateway.endpoint''
       [(''GatewayID'', TPtr (TNative ''identity'')), (''TargetID'', TPtr (TNative ''identity''))]"

definition gateway_Handoff :: gtype where
  "gateway_Handoff =
     TStruct ObjectStruct ''mod.gateway.handoff''
       []"

definition gateway_HandoffAck :: gtype where
  "gateway_HandoffAck =
     TStruct ObjectStruct ''mod.gateway.handoff_ack''
       []"

definition gateway_Ping :: gtype where
  "gateway_Ping =
     TStruct ObjectStruct ''mod.gateway.ping''
       [(''Pong'', TPrim ''bool'')]"

definition gateway_Socket :: gtype where
  "gateway_Socket =
     TStruct ObjectStruct ''mod.gateway.socket''
       [(''Endpoint'', TInterface), (''Nonce'', TPrim ''nonce64'')]"

subsection \<open>\<^verbatim>\<open>src/api/indexing\<close>\<close>

definition indexing_ChangeAckMsg :: gtype where
  "indexing_ChangeAckMsg =
     TStruct ObjectStruct ''indexing.ack''
       [(''Repo'', TPrim ''string8''), (''Version'', TPrim ''uint64'')]"

definition indexing_IndexMsg :: gtype where
  "indexing_IndexMsg =
     TStruct ObjectStruct ''indexing.index''
       [(''Repo'', TPrim ''string8''), (''Version'', TPrim ''uint64''),
        (''ObjectID'', TPtr (TPrim ''object_id.sha256''))]"

definition indexing_UnindexMsg :: gtype where
  "indexing_UnindexMsg =
     TStruct ObjectStruct ''indexing.unindex''
       [(''Repo'', TPrim ''string8''), (''Version'', TPrim ''uint64''),
        (''ObjectID'', TPtr (TPrim ''object_id.sha256''))]"

subsection \<open>\<^verbatim>\<open>src/api/inference\<close>\<close>

definition inference_ToolCallDelta :: gtype where
  "inference_ToolCallDelta =
     TStruct ValueStruct ''inference.tool_call_delta''
       [(''Index'', TPrim ''uint32''), (''ID'', TPrim ''string8''), (''Name'', TPrim ''string8''),
        (''Arguments'', TPrim ''string32'')]"

definition inference_Chunk :: gtype where
  "inference_Chunk =
     TStruct ValueStruct ''inference.chunk''
       [(''Index'', TPrim ''uint32''), (''Text'', TPrim ''string32''), (''Reasoning'', TPrim ''string32''),
        (''ToolCalls'', TSlice (TPtr (inference_ToolCallDelta))), (''FinishReason'', TPrim ''string8''),
        (''Model'', TPrim ''string8'')]"

definition inference_MediaRef :: gtype where
  "inference_MediaRef =
     TStruct ValueStruct ''inference.media_ref''
       [(''Kind'', TPrim ''string8''), (''Data'', TPrim ''bytes32''), (''ObjectID'', TPrim ''object_id.sha256''),
        (''URL'', TPrim ''string16''), (''MIME'', TPrim ''string8'')]"

definition inference_ContentPart :: gtype where
  "inference_ContentPart =
     TStruct ValueStruct ''inference.content_part''
       [(''Kind'', TPrim ''string8''), (''Text'', TPrim ''string32''), (''Media'', TPtr (inference_MediaRef))]"

definition inference_EffortLevel :: gtype where
  "inference_EffortLevel =
     TStruct ValueStruct ''inference.effort_level''
       [(''Name'', TPrim ''string8''), (''Description'', TPrim ''string8''), (''TokenBudget'', TPrim ''uint32'')]"

definition inference_Error :: gtype where
  "inference_Error =
     TStruct ValueStruct ''inference.error''
       [(''Kind'', TPrim ''string8''), (''Status'', TPrim ''uint32''), (''Message'', TPrim ''string16''),
        (''RetryAfter'', TPrim ''uint32'')]"

definition inference_ToolCall :: gtype where
  "inference_ToolCall =
     TStruct ValueStruct ''inference.tool_call''
       [(''ID'', TPrim ''string8''), (''Name'', TPrim ''string8''), (''Arguments'', TPrim ''string32'')]"

definition inference_Message :: gtype where
  "inference_Message =
     TStruct ValueStruct ''inference.message''
       [(''Role'', TPrim ''string8''), (''Parts'', TSlice (TPtr (inference_ContentPart))),
        (''ToolCalls'', TSlice (TPtr (inference_ToolCall))), (''ToolCallID'', TPrim ''string8'')]"

definition inference_Model :: gtype where
  "inference_Model =
     TStruct ValueStruct ''inference.model''
       [(''ID'', TPrim ''string8''), (''DisplayName'', TPrim ''string8''), (''ContextWindow'', TPrim ''uint32''),
        (''MaxOutput'', TPrim ''uint32''), (''Modalities'', TSlice (TPrim ''string8'')),
        (''EffortLevels'', TSlice (TPtr (inference_EffortLevel))), (''Streams'', TPrim ''bool''),
        (''Description'', TPrim ''string8''), (''DefaultEffort'', TPrim ''string8''), (''Tools'', TPrim ''bool'')]"

definition inference_Models :: gtype where
  "inference_Models =
     TStruct ValueStruct ''inference.models''
       [(''Models'', TSlice (TPtr (inference_Model)))]"

definition inference_Provider :: gtype where
  "inference_Provider =
     TStruct ValueStruct ''inference.provider''
       [(''Name'', TPrim ''string8''), (''Description'', TPrim ''string16'')]"

definition inference_Tool :: gtype where
  "inference_Tool =
     TStruct ValueStruct ''inference.tool''
       [(''Name'', TPrim ''string8''), (''Description'', TPrim ''string16''), (''Parameters'', TPrim ''string32'')]"

definition inference_Request :: gtype where
  "inference_Request =
     TStruct ValueStruct ''inference.request''
       [(''Model'', TPrim ''string8''), (''Effort'', TPrim ''string8''), (''MaxOutput'', TPrim ''uint32''),
        (''Temperature'', TPtr (TNative ''float32'')), (''Messages'', TSlice (TPtr (inference_Message))),
        (''System'', TPrim ''string32''), (''Tools'', TSlice (TPtr (inference_Tool))),
        (''ToolChoice'', TPrim ''string8''), (''Stream'', TPrim ''bool'')]"

definition inference_Usage :: gtype where
  "inference_Usage =
     TStruct ValueStruct ''inference.usage''
       [(''PromptTokens'', TPrim ''uint32''), (''CompletionTokens'', TPrim ''uint32''),
        (''TotalTokens'', TPrim ''uint32''), (''CachedPromptTokens'', TPrim ''uint32''),
        (''ReasoningTokens'', TPrim ''uint32'')]"

subsection \<open>\<^verbatim>\<open>src/api/ip\<close>\<close>

definition ip_EventNetworkAddressChanged :: gtype where
  "ip_EventNetworkAddressChanged =
     TStruct ValueStruct ''mod.ip.events.network_address_changed''
       [(''Removed'', TSlice (TNative ''mod.ip.ip_address'')), (''Added'', TSlice (TNative ''mod.ip.ip_address'')),
        (''All'', TSlice (TNative ''mod.ip.ip_address''))]"

subsection \<open>\<^verbatim>\<open>src/api/kcp\<close>\<close>

definition kcp_Endpoint :: gtype where
  "kcp_Endpoint =
     TStruct ValueStruct ''mod.kcp.endpoint''
       [(''IP'', TNative ''mod.ip.ip_address''), (''Port'', TPrim ''uint16'')]"

definition kcp_EndpointLocalMapping :: gtype where
  "kcp_EndpointLocalMapping =
     TStruct ValueStruct ''mod.kcp.endpoint_local_mapping''
       [(''Address'', TPrim ''string8''), (''Port'', TPrim ''uint16'')]"

subsection \<open>\<^verbatim>\<open>src/api/mcp\<close>\<close>

definition mcp_Agent :: gtype where
  "mcp_Agent =
     TStruct ValueStruct ''mcp.agent''
       [(''Identity'', TPtr (TNative ''identity'')), (''Alias'', TPrim ''string8''), (''Token'', TPrim ''string8''),
        (''ExpiresAt'', TPrim ''time'')]"

definition mcp_AgentInfo :: gtype where
  "mcp_AgentInfo =
     TStruct ValueStruct ''mcp.agent_info''
       [(''Identity'', TPtr (TNative ''identity'')), (''Alias'', TPrim ''string8''), (''ExpiresAt'', TPrim ''time'')]"

subsection \<open>\<^verbatim>\<open>src/api/messaging\<close>\<close>

definition messaging_ArchiveResult :: gtype where
  "messaging_ArchiveResult =
     TStruct ValueStruct ''messaging.archive_result''
       [(''Changed'', TPrim ''bool'')]"

definition messaging_Envelope :: gtype where
  "messaging_Envelope =
     TStruct ValueStruct ''messaging.envelope''
       [(''Cursor'', TPrim ''uint64''), (''ID'', TNative ''messaging.message_id''), (''Box'', TPrim ''string8''),
        (''Sender'', TPtr (TNative ''identity'')), (''Recipient'', TPtr (TNative ''identity'')),
        (''ParentID'', TNative ''messaging.message_id''), (''CreatedAt'', TPrim ''time''),
        (''ArchivedAt'', TPtr (TPrim ''time'')), (''ReadAt'', TPtr (TPrim ''time'')),
        (''ReceiptDueAt'', TPtr (TPrim ''time'')), (''ReceiptStoredAt'', TPtr (TPrim ''time'')),
        (''LandedAt'', TPtr (TPrim ''time'')), (''FailedAt'', TPtr (TPrim ''time'')),
        (''FetchedAt'', TPtr (TPrim ''time'')), (''Err'', TPtr (TPrim ''string16''))]"

definition messaging_HostMailboxAction :: gtype where
  "messaging_HostMailboxAction =
     TStruct ObjectStruct ''mod.messaging.host_mailbox_action''
       [(''Action'', auth_Action), (''MailboxID'', TPtr (TNative ''identity''))]"

definition messaging_MailboxCredential :: gtype where
  "messaging_MailboxCredential =
     TStruct ValueStruct ''messaging.mailbox_credential''
       [(''Identity'', TPtr (TNative ''identity'')), (''Alias'', TPrim ''string8''), (''Token'', TPrim ''string8''),
        (''ExpiresAt'', TPrim ''time'')]"

definition messaging_MailboxInfo :: gtype where
  "messaging_MailboxInfo =
     TStruct ValueStruct ''messaging.mailbox_info''
       [(''Identity'', TPtr (TNative ''identity'')), (''Alias'', TPrim ''string8'')]"

definition messaging_Message :: gtype where
  "messaging_Message =
     TStruct ValueStruct ''messaging.message''
       [(''ID'', TNative ''messaging.message_id''), (''Content'', TPrim ''string32''),
        (''ParentID'', TNative ''messaging.message_id'')]"

definition messaging_MessageRef :: gtype where
  "messaging_MessageRef =
     TStruct ValueStruct ''messaging.message_ref''
       [(''Box'', TPrim ''string8''), (''ID'', TNative ''messaging.message_id'')]"

definition messaging_ReadMailboxAction :: gtype where
  "messaging_ReadMailboxAction =
     TStruct ObjectStruct ''mod.messaging.read_mailbox_action''
       [(''Action'', auth_Action), (''MailboxID'', TPtr (TNative ''identity''))]"

definition messaging_ReadMessage :: gtype where
  "messaging_ReadMessage =
     TStruct ValueStruct ''messaging.read_message''
       [(''Envelope'', TPtr (messaging_Envelope)), (''Content'', TPtr (TPrim ''string32'')),
        (''ChildIDs'', TSlice (TNative ''messaging.message_id'')), (''Truncated'', TPrim ''bool'')]"

definition messaging_ReadMessagesRequest :: gtype where
  "messaging_ReadMessagesRequest =
     TStruct ValueStruct ''messaging.read_messages_request''
       [(''Refs'', TSlice (TPtr (messaging_MessageRef))), (''Children'', TPrim ''string8''),
        (''MaxChildren'', TPrim ''uint16''), (''Mailbox'', TPtr (TNative ''identity''))]"

definition messaging_ReadMessagesResult :: gtype where
  "messaging_ReadMessagesResult =
     TStruct ValueStruct ''messaging.read_messages_result''
       [(''Messages'', TSlice (TPtr (messaging_ReadMessage))), (''Replies'', TSlice (TPtr (messaging_ReadMessage))),
        (''NotFound'', TSlice (TPtr (messaging_MessageRef)))]"

definition messaging_Receipt :: gtype where
  "messaging_Receipt =
     TStruct ObjectStruct ''messaging.receipt''
       [(''ID'', TNative ''messaging.message_id'')]"

definition messaging_ReceiveAction :: gtype where
  "messaging_ReceiveAction =
     TStruct ObjectStruct ''mod.messaging.receive_action''
       [(''Action'', auth_Action), (''FromID'', TPtr (TNative ''identity''))]"

definition messaging_SendAction :: gtype where
  "messaging_SendAction =
     TStruct ObjectStruct ''mod.messaging.send_action''
       [(''Action'', auth_Action), (''ToID'', TPtr (TNative ''identity''))]"

definition messaging_SendMessageRequest :: gtype where
  "messaging_SendMessageRequest =
     TStruct ValueStruct ''messaging.send_message_request''
       [(''To'', TPrim ''string8''), (''Content'', TPrim ''string32''),
        (''ParentID'', TNative ''messaging.message_id'')]"

definition messaging_StoredMessage :: gtype where
  "messaging_StoredMessage =
     TStruct ValueStruct ''messaging.stored_message''
       [(''Cursor'', TPrim ''uint64''), (''ID'', TNative ''messaging.message_id''), (''Box'', TPrim ''string8''),
        (''Sender'', TPtr (TNative ''identity'')), (''Recipient'', TPtr (TNative ''identity'')),
        (''Content'', TPrim ''string32''), (''ParentID'', TNative ''messaging.message_id''),
        (''CreatedAt'', TPrim ''time''), (''ArchivedAt'', TPtr (TPrim ''time'')),
        (''ReadAt'', TPtr (TPrim ''time'')), (''ReceiptDueAt'', TPtr (TPrim ''time'')),
        (''ReceiptStoredAt'', TPtr (TPrim ''time'')), (''LandedAt'', TPtr (TPrim ''time'')),
        (''FailedAt'', TPtr (TPrim ''time'')), (''FetchedAt'', TPtr (TPrim ''time'')),
        (''Err'', TPtr (TPrim ''string16''))]"

definition messaging_WaitResult :: gtype where
  "messaging_WaitResult =
     TStruct ValueStruct ''messaging.wait_result''
       [(''Messages'', TSlice (TPtr (messaging_Envelope))), (''NextSince'', TPrim ''uint64''),
        (''TimedOut'', TPrim ''bool''), (''Granted'', TPrim ''duration''), (''Waited'', TPrim ''duration'')]"

subsection \<open>\<^verbatim>\<open>src/api/nat\<close>\<close>

definition nat_ConsumeHoleSignal :: gtype where
  "nat_ConsumeHoleSignal =
     TStruct ValueStruct ''nat.consume_hole_signal''
       [(''Signal'', TPrim ''string8''), (''Pair'', TPrim ''nonce64''), (''Ok'', TPrim ''bool''),
        (''Error'', TPrim ''string8'')]"

definition nat_Endpoint :: gtype where
  "nat_Endpoint =
     TStruct ObjectStruct ''nat.endpoint''
       [(''IP'', TNative ''mod.ip.ip_address''), (''Port'', TPrim ''uint16'')]"

definition nat_Hole :: gtype where
  "nat_Hole =
     TStruct ValueStruct ''nat.hole''
       [(''Nonce'', TPrim ''nonce64''), (''ActiveIdentity'', TPtr (TNative ''identity'')),
        (''ActiveEndpoint'', nat_Endpoint), (''PassiveIdentity'', TPtr (TNative ''identity'')),
        (''PassiveEndpoint'', nat_Endpoint), (''CreatedAt'', TPrim ''time'')]"

definition nat_PunchSignal :: gtype where
  "nat_PunchSignal =
     TStruct ValueStruct ''nat.punch_signal''
       [(''Signal'', TPrim ''string8''), (''Session'', TPrim ''bytes8''), (''IP'', TNative ''mod.ip.ip_address''),
        (''Port'', TPrim ''uint16''), (''PairNonce'', TPrim ''nonce64'')]"

subsection \<open>\<^verbatim>\<open>src/api/nearby\<close>\<close>

definition nearby_PeerSeen :: gtype where
  "nearby_PeerSeen =
     TStruct ValueStruct ''mod.nearby.peer_seen''
       [(''NodeID'', TPtr (TNative ''identity'')), (''UserID'', TPtr (TNative ''identity'')),
        (''Via'', TPrim ''string8''), (''SourceIP'', TNative ''mod.ip.ip_address'')]"

definition nearby_PublicProfile :: gtype where
  "nearby_PublicProfile =
     TStruct ValueStruct ''mod.nearby.public_profile''
       [(''NodeID'', TPtr (TNative ''identity'')), (''UserID'', TPtr (TNative ''identity'')),
        (''NodeAlias'', TPrim ''string8'')]"

definition nearby_Status :: gtype where
  "nearby_Status =
     TStruct ObjectStruct ''mod.nearby.status''
       [(''Identity'', TPtr (TNative ''identity'')), (''Attachments'', TPtr (TNative ''bundle''))]"

definition nearby_StatusMessage :: gtype where
  "nearby_StatusMessage =
     TStruct ObjectStruct ''mod.nearby.status_message''
       [(''Attachments'', TPtr (TNative ''bundle''))]"

definition nearby_StatusProof :: gtype where
  "nearby_StatusProof =
     TStruct ValueStruct ''mod.nearby.status_proof''
       [(''Nonce'', TPrim ''nonce64''), (''Timestamp'', TPrim ''time''), (''Sig'', TPrim ''bytes8'')]"

definition nearby_StealthHint :: gtype where
  "nearby_StealthHint =
     TStruct ValueStruct ''mod.nearby.stealth_hint''
       [(''Nonce'', TPrim ''nonce64''), (''Commitment'', TPrim ''bytes8''), (''MaskedNode'', TPrim ''bytes8''),
        (''MaskedUser'', TPrim ''bytes8'')]"

subsection \<open>\<^verbatim>\<open>src/api/nodes\<close>\<close>

definition nodes_EndpointWithTTL :: gtype where
  "nodes_EndpointWithTTL =
     TStruct ValueStruct ''mod.nodes.endpoint_with_ttl''
       [(''Endpoint'', TInterface), (''TTL'', TPtr (TPrim ''uint32''))]"

definition nodes_LinkClosedEvent :: gtype where
  "nodes_LinkClosedEvent =
     TStruct ValueStruct ''mod.nodes.link_closed_event''
       [(''RemoteIdentity'', TPtr (TNative ''identity'')), (''Forced'', TPrim ''bool''),
        (''LinkCount'', TPrim ''uint8'')]"

definition nodes_LinkCreatedEvent :: gtype where
  "nodes_LinkCreatedEvent =
     TStruct ValueStruct ''mod.nodes.link_created_event''
       [(''RemoteIdentity'', TPtr (TNative ''identity'')), (''LinkID'', TPrim ''nonce64''),
        (''LinkCount'', TPrim ''uint32'')]"

definition nodes_LinkInfo :: gtype where
  "nodes_LinkInfo =
     TStruct ValueStruct ''mod.nodes.link_info''
       [(''ID'', TPrim ''nonce64''), (''LocalIdentity'', TPtr (TNative ''identity'')),
        (''RemoteIdentity'', TPtr (TNative ''identity'')), (''LocalEndpoint'', TInterface),
        (''RemoteEndpoint'', TInterface), (''Outbound'', TPrim ''bool''), (''Network'', TPrim ''string8''),
        (''HighPressure'', TPrim ''bool''), (''BytesThroughput'', TPrim ''uint64'')]"

definition nodes_LinkPressureEvent :: gtype where
  "nodes_LinkPressureEvent =
     TStruct ValueStruct ''mod.nodes.link_pressure_event''
       [(''RemoteIdentity'', TPtr (TNative ''identity'')), (''LinkID'', TPrim ''nonce64'')]"

definition nodes_MigrateSignal :: gtype where
  "nodes_MigrateSignal =
     TStruct ObjectStruct ''mod.nodes.migrate_signal''
       [(''Signal'', TPrim ''string8''), (''Buffer'', TPrim ''uint32'')]"

definition nodes_NewObservedEndpointEvent :: gtype where
  "nodes_NewObservedEndpointEvent =
     TStruct ValueStruct ''mod.nodes.new_observed_endpoint_event''
       []"

definition nodes_NodeInfo :: gtype where
  "nodes_NodeInfo =
     TStruct ObjectStruct ''mod.nodes.node_info''
       [(''Alias'', TPrim ''string8''), (''Identity'', TPtr (TNative ''identity'')),
        (''Endpoints'', TSlice (TInterface))]"

definition nodes_RelayForAction :: gtype where
  "nodes_RelayForAction =
     TStruct ObjectStruct ''mod.nodes.relay_for_action''
       [(''Action'', auth_Action), (''ForID'', TPtr (TNative ''identity''))]"

definition nodes_SessionInfo :: gtype where
  "nodes_SessionInfo =
     TStruct ObjectStruct ''mod.nodes.session_info''
       [(''ID'', TPrim ''nonce64''), (''LinkID'', TPrim ''nonce64''),
        (''RemoteIdentity'', TPtr (TNative ''identity'')), (''Outbound'', TPrim ''bool''),
        (''Query'', TPrim ''string16''), (''Bytes'', TPrim ''uint64''), (''Age'', TPrim ''duration'')]"

subsection \<open>\<^verbatim>\<open>src/api/objects\<close>\<close>

definition objects_CreateObjectAction :: gtype where
  "objects_CreateObjectAction =
     TStruct ObjectStruct ''mod.objects.create_object_action''
       [(''Action'', auth_Action)]"

definition objects_Descriptor :: gtype where
  "objects_Descriptor =
     TStruct ValueStruct ''mod.objects.describe_result''
       [(''SourceID'', TPtr (TNative ''identity'')), (''ObjectID'', TPtr (TPrim ''object_id.sha256'')),
        (''Data'', TInterface)]"

definition objects_Probe :: gtype where
  "objects_Probe =
     TStruct ValueStruct ''mod.objects.probe''
       [(''Type'', TPrim ''string8''), (''Repo'', TPrim ''string8''), (''Mime'', TPrim ''string8''),
        (''Time'', TPrim ''duration''), (''ObjectID'', TPtr (TPrim ''object_id.sha256''))]"

definition objects_QueryTag :: gtype where
  "objects_QueryTag =
     TStruct ObjectStruct ''objects.query_tag''
       [(''Name'', TPrim ''string8''), (''Mod'', TPrim ''string8''), (''Value'', TPrim ''string8'')]"

definition objects_RegistrationLease :: gtype where
  "objects_RegistrationLease =
     TStruct ValueStruct ''mod.objects.registration_lease''
       [(''Duration'', TPrim ''duration''), (''ExpiresAt'', TPrim ''time'')]"

definition objects_RepositoryInfo :: gtype where
  "objects_RepositoryInfo =
     TStruct ValueStruct ''mod.objects.repository_info''
       [(''Name'', TPrim ''string8''), (''Label'', TPrim ''string8''), (''Free'', TPrim ''uint64''),
        (''Kind'', TPrim ''string8''), (''Children'', TSlice (TPrim ''string8'')), (''Concurrent'', TPrim ''bool'')]"

definition objects_SearchQuery :: gtype where
  "objects_SearchQuery =
     TStruct ObjectStruct ''objects.search_query''
       [(''Query'', TPrim ''string16''), (''Tags'', TSlice (objects_QueryTag))]"

definition objects_SearchResult :: gtype where
  "objects_SearchResult =
     TStruct ValueStruct ''mod.objects.search_result''
       [(''SourceID'', TPtr (TNative ''identity'')), (''ObjectID'', TPtr (TPrim ''object_id.sha256''))]"

subsection \<open>\<^verbatim>\<open>src/api/policy\<close>\<close>

definition policy_Delegate :: gtype where
  "policy_Delegate =
     TStruct ObjectStruct ''policy.delegate''
       [(''Identity'', TPtr (TNative ''identity'')), (''Operation'', TPrim ''string8''),
        (''Timeout'', TPrim ''duration'')]"

subsection \<open>\<^verbatim>\<open>src/api/services\<close>\<close>

definition services_Update :: gtype where
  "services_Update =
     TStruct ObjectStruct ''services.update''
       [(''Available'', TPrim ''bool''), (''Name'', TPrim ''string8''),
        (''ProviderID'', TPtr (TNative ''identity'')), (''Info'', TPtr (TNative ''bundle''))]"

definition services_Answer :: gtype where
  "services_Answer =
     TStruct ObjectStruct ''services.answer''
       [(''RequestID'', TPrim ''nonce64''), (''Update'', TPtr (services_Update))]"

definition services_Ask :: gtype where
  "services_Ask =
     TStruct ObjectStruct ''services.ask''
       [(''RequestID'', TPrim ''nonce64''), (''CallerID'', TPtr (TNative ''identity'')),
        (''Service'', TPrim ''string8'')]"

definition services_Change :: gtype where
  "services_Change =
     TStruct ValueStruct ''services.change''
       [(''All'', TPrim ''bool''), (''Callers'', TSlice (TPtr (TNative ''identity'')))]"

definition services_DiscoveryRule :: gtype where
  "services_DiscoveryRule =
     TStruct ValueStruct ''mod.services.discovery_rule''
       [(''Services'', TSlice (TPrim ''string8'')), (''Nodes'', TSlice (TPtr (TNative ''identity'')))]"

definition services_DiscoveryScope :: gtype where
  "services_DiscoveryScope =
     TStruct ValueStruct ''mod.services.discovery_scope''
       [(''Rules'', TSlice (TPtr (services_DiscoveryRule)))]"

definition services_Incomplete :: gtype where
  "services_Incomplete =
     TStruct ValueStruct ''services.incomplete''
       [(''Services'', TSlice (TPrim ''string8''))]"

definition services_OfferingKey :: gtype where
  "services_OfferingKey =
     TStruct ValueStruct ''services.offering_key''
       [(''ProviderID'', TPtr (TNative ''identity'')), (''Name'', TPrim ''string8'')]"

definition services_OperationsList :: gtype where
  "services_OperationsList =
     TStruct ValueStruct ''services.operations_list''
       [(''Operations'', TSlice (TPrim ''string8''))]"

definition services_Removed :: gtype where
  "services_Removed =
     TStruct ValueStruct ''services.removed''
       [(''Offerings'', TSlice (TPtr (services_OfferingKey)))]"

definition services_ServiceDiscoveryAction :: gtype where
  "services_ServiceDiscoveryAction =
     TStruct ObjectStruct ''mod.services.service_discovery_action''
       [(''Action'', auth_Action), (''Service'', TPrim ''string8''), (''NodeID'', TPtr (TNative ''identity''))]"

subsection \<open>\<^verbatim>\<open>src/api/shell\<close>\<close>

definition shell_Prompt :: gtype where
  "shell_Prompt =
     TStruct ObjectStruct ''mod.shell.prompt''
       [(''GuestID'', TPtr (TNative ''identity'')), (''HostID'', TPtr (TNative ''identity''))]"

definition shell_ShellAction :: gtype where
  "shell_ShellAction =
     TStruct ObjectStruct ''mod.shell.shell_action''
       [(''Action'', auth_Action)]"

subsection \<open>\<^verbatim>\<open>src/api/sys\<close>\<close>

definition sys_PolicyBinding :: gtype where
  "sys_PolicyBinding =
     TStruct ValueStruct ''mod.sys.policy_binding''
       [(''Policy'', TPrim ''string8''), (''Operation'', TPrim ''string8''), (''Timeout'', TPrim ''duration'')]"

definition sys_RegisterManagerRequest :: gtype where
  "sys_RegisterManagerRequest =
     TStruct ValueStruct ''mod.sys.register_manager_request''
       [(''Name'', TPrim ''string8''), (''GrantPermits'', TSlice (TPtr (auth_Permit))),
        (''ContractPermits'', TSlice (TPtr (auth_Permit))), (''Policies'', TSlice (TPtr (sys_PolicyBinding)))]"

subsection \<open>\<^verbatim>\<open>src/api/tcp\<close>\<close>

definition tcp_Endpoint :: gtype where
  "tcp_Endpoint =
     TStruct ValueStruct ''mod.tcp.endpoint''
       [(''IP'', TNative ''mod.ip.ip_address''), (''Port'', TPrim ''uint16'')]"

subsection \<open>\<^verbatim>\<open>src/api/tor\<close>\<close>

definition tor_Endpoint :: gtype where
  "tor_Endpoint =
     TStruct ValueStruct ''mod.tor.endpoint''
       [(''Digest'', TNative ''mod.tor.digest''), (''Port'', TPrim ''uint16'')]"

subsection \<open>\<^verbatim>\<open>src/api/user\<close>\<close>

definition user_AdminSwarmAction :: gtype where
  "user_AdminSwarmAction =
     TStruct ObjectStruct ''mod.user.admin_swarm_action''
       [(''Action'', auth_Action), (''Subject'', TPtr (TNative ''identity'')),
        (''ObjectID'', TPtr (TPrim ''object_id.sha256''))]"

definition user_BootstrapResult :: gtype where
  "user_BootstrapResult =
     TStruct ObjectStruct ''mod.user.bootstrap_result''
       [(''Identity'', TPtr (TNative ''identity'')), (''Mnemonic'', TPrim ''string16''),
        (''Token'', TPrim ''string8'')]"

definition user_ContractAcceptDecision :: gtype where
  "user_ContractAcceptDecision =
     TStruct ObjectStruct ''mod.user.contract_accept_decision''
       [(''Allow'', TPrim ''bool'')]"

definition user_ContractAcceptRequest :: gtype where
  "user_ContractAcceptRequest =
     TStruct ObjectStruct ''mod.user.contract_accept_request''
       [(''Caller'', TPtr (TNative ''identity'')), (''Contract'', TPtr (auth_SignedContract))]"

definition user_DeriveIdentityResult :: gtype where
  "user_DeriveIdentityResult =
     TStruct ObjectStruct ''mod.user.derive_identity_result''
       [(''Identity'', TPtr (TNative ''identity'')), (''Mnemonic'', TPrim ''string16'')]"

definition user_Expulsion :: gtype where
  "user_Expulsion =
     TStruct ValueStruct ''mod.user.expulsion''
       [(''Issuer'', TPtr (TNative ''identity'')), (''Subject'', TPtr (TNative ''identity'')),
        (''ExpelledAt'', TPrim ''time'')]"

definition user_Info :: gtype where
  "user_Info =
     TStruct ObjectStruct ''mod.user.info''
       [(''NodeAlias'', TPrim ''string8''), (''UserAlias'', TPrim ''string8''),
        (''ContractID'', TPtr (TPrim ''object_id.sha256'')), (''Contract'', TPtr (auth_SignedContract)),
        (''State'', TPrim ''string8''), (''Manager'', TPtr (TNative ''identity''))]"

definition user_Notification :: gtype where
  "user_Notification =
     TStruct ObjectStruct ''mod.user.notification''
       [(''Event'', TPrim ''string8'')]"

definition user_OpUpdate :: gtype where
  "user_OpUpdate =
     TStruct ObjectStruct ''mod.user.op_update''
       [(''Nonce'', TPrim ''nonce64''), (''ObjectID'', TPtr (TPrim ''object_id.sha256'')),
        (''Removed'', TPrim ''bool'')]"

definition user_SeeSwarmAction :: gtype where
  "user_SeeSwarmAction =
     TStruct ObjectStruct ''mod.user.see_swarm_action''
       [(''Action'', auth_Action)]"

definition user_SignedExpulsion :: gtype where
  "user_SignedExpulsion =
     TStruct ValueStruct ''mod.user.signed_expulsion''
       [(''Expulsion'', TPtr (user_Expulsion)), (''IssuerSig'', TPtr (crypto_Signature))]"

definition user_SwarmInviteDecision :: gtype where
  "user_SwarmInviteDecision =
     TStruct ObjectStruct ''mod.user.swarm_invite_decision''
       [(''Allow'', TPrim ''bool'')]"

definition user_SwarmInviteRequest :: gtype where
  "user_SwarmInviteRequest =
     TStruct ObjectStruct ''mod.user.swarm_invite_request''
       [(''Inviter'', TPtr (TNative ''identity'')), (''Contract'', TPtr (auth_Contract))]"

definition user_SwarmJoinDecision :: gtype where
  "user_SwarmJoinDecision =
     TStruct ObjectStruct ''mod.user.swarm_join_decision''
       [(''Allow'', TPrim ''bool'')]"

definition user_SwarmJoinRequest :: gtype where
  "user_SwarmJoinRequest =
     TStruct ObjectStruct ''mod.user.swarm_join_request''
       [(''Requester'', TPtr (TNative ''identity''))]"

definition user_SwarmMember :: gtype where
  "user_SwarmMember =
     TStruct ObjectStruct ''mod.users.swarm_member''
       [(''Identity'', TPtr (TNative ''identity'')), (''Alias'', TPrim ''string8''), (''Linked'', TPrim ''bool'')]"

definition user_SwarmMembershipAction :: gtype where
  "user_SwarmMembershipAction =
     TStruct ObjectStruct ''mod.user.swarm_membership_action''
       [(''Action'', auth_Action)]"

subsection \<open>\<^verbatim>\<open>src/astral\<close>\<close>

definition astral_ArraySpec :: gtype where
  "astral_ArraySpec =
     TStruct ValueStruct ''astral.blueprint.array_spec''
       [(''Type'', TPrim ''string16''), (''Length'', TPrim ''uint32'')]"

definition astral_Field :: gtype where
  "astral_Field =
     TStruct ValueStruct ''astral.blueprint.field''
       [(''Name'', TPrim ''string16''), (''Spec'', TInterface)]"

definition astral_Blueprint :: gtype where
  "astral_Blueprint =
     TStruct ValueStruct ''astral.blueprint''
       [(''Type'', TPrim ''string16''), (''Fields'', TSlice (astral_Field)), (''Underlying'', TPrim ''string16'')]"

definition astral_ErrUnexpectedObject :: gtype where
  "astral_ErrUnexpectedObject =
     TStruct ValueStruct ''err_unexpected_object''
       [(''Object'', TInterface)]"

definition astral_MapSpec :: gtype where
  "astral_MapSpec =
     TStruct ValueStruct ''astral.blueprint.map_spec''
       [(''KeyType'', TPrim ''string16''), (''ValueType'', TPrim ''string16'')]"

definition astral_PrimitiveSpec :: gtype where
  "astral_PrimitiveSpec =
     TStruct ValueStruct ''astral.blueprint.primitive_spec''
       [(''PrimitiveType'', TPrim ''string16'')]"

definition astral_PtrSpec :: gtype where
  "astral_PtrSpec =
     TStruct ValueStruct ''astral.blueprint.ptr_spec''
       [(''Type'', TPrim ''string16'')]"

definition astral_Query :: gtype where
  "astral_Query =
     TStruct ValueStruct ''query''
       [(''Nonce'', TPrim ''nonce64''), (''Caller'', TPtr (TNative ''identity'')),
        (''Target'', TPtr (TNative ''identity'')), (''QueryString'', TPrim ''string32'')]"

definition astral_RefSpec :: gtype where
  "astral_RefSpec =
     TStruct ValueStruct ''astral.blueprint.ref_spec''
       [(''Type'', TPrim ''string16'')]"

definition astral_SliceSpec :: gtype where
  "astral_SliceSpec =
     TStruct ValueStruct ''astral.blueprint.slice_spec''
       [(''Type'', TPrim ''string16'')]"

subsection \<open>\<^verbatim>\<open>src/astral/log\<close>\<close>

definition astral_log_Entry :: gtype where
  "astral_log_Entry =
     TStruct ValueStruct ''astrald.log.entry''
       [(''Origin'', TPtr (TNative ''identity'')), (''Level'', TPrim ''uint8''), (''Time'', TPrim ''time''),
        (''Objects'', TSlice (TInterface))]"

subsection \<open>\<^verbatim>\<open>src/lib/routing\<close>\<close>

definition lib_routing_OpParam :: gtype where
  "lib_routing_OpParam =
     TStruct ObjectStruct ''routing.op_param''
       [(''Name'', TPrim ''string32''), (''Type'', TPrim ''string32''), (''Required'', TPrim ''bool'')]"

definition lib_routing_OpSpec :: gtype where
  "lib_routing_OpSpec =
     TStruct ValueStruct ''routing.op_spec''
       [(''Name'', TPrim ''string32''), (''Parameters'', TSlice (lib_routing_OpParam))]"

subsection \<open>All messages\<close>

text \<open>In the order of their type names.\<close>

definition apiMessages :: "gtype list" where
  "apiMessages =
     [apphost_AccessToken, astral_Blueprint, astral_ArraySpec, astral_Field, astral_MapSpec, astral_PrimitiveSpec,
      astral_PtrSpec, astral_RefSpec, astral_SliceSpec, astral_log_Entry, fs_EventFileAdded, fs_EventFileChanged,
      fs_EventFileRemoved, astral_ErrUnexpectedObject, indexing_ChangeAckMsg, indexing_IndexMsg, indexing_UnindexMsg,
      inference_Chunk, inference_ContentPart, inference_EffortLevel, inference_Error, inference_MediaRef,
      inference_Message, inference_Model, inference_Models, inference_Provider, inference_Request, inference_Tool,
      inference_ToolCall, inference_ToolCallDelta, inference_Usage, mcp_Agent, mcp_AgentInfo, messaging_ArchiveResult,
      messaging_Envelope, messaging_MailboxCredential, messaging_MailboxInfo, messaging_Message, messaging_MessageRef,
      messaging_ReadMessage, messaging_ReadMessagesRequest, messaging_ReadMessagesResult, messaging_Receipt,
      messaging_SendMessageRequest, messaging_StoredMessage, messaging_WaitResult, apphost_AppRegisterDecision,
      apphost_AppRegisterRequest, apphost_AttachQueryMsg, apphost_AuthSuccessMsg, apphost_BindMsg, apphost_Grant,
      apphost_GrantDecision, apphost_GrantPolicyRequest, apphost_GrantRequest, apphost_HandleQueryMsg,
      apphost_HostInfoMsg, apphost_IncomingQueryMsg, apphost_QueryAcceptedMsg, apphost_QueryRejectedMsg,
      apphost_RegisterRequest, apphost_RegisterServiceMsg, apphost_RejectIncomingMsg, apphost_RequestGrantRequest,
      apphost_RouteQueryMsg, auth_Action, auth_AdminManageAppsAction, auth_AdminNetworkAction, auth_AdminObjectsAction,
      auth_AuthorizerAssignment, auth_ConfigureNodeStateAction, auth_Contract, auth_Permit, auth_RegisterSignerAction,
      auth_SeeNodeStateAction, auth_SeeObjectsAction, auth_ServeAppsAction, auth_ServeObjectsAction,
      auth_SignedContract, auth_StoreObjectsAction, auth_SudoAction, auth_UseBlueprintsAction, auth_UseGatewayAction,
      crypto_PrivateKey, crypto_PublicKey, crypto_SignAnswer, crypto_SignCancel, crypto_SignHashRequest,
      crypto_SignTextRequest, crypto_Signature, crypto_SignerKey, crypto_SignerKeys, dir_AliasMap, ether_Envelope,
      ether_EventBroadcastReceived, events_Event, fs_FileLocation, gateway_Endpoint, gateway_Handoff,
      gateway_HandoffAck, gateway_Ping, gateway_Socket, ip_EventNetworkAddressChanged, kcp_Endpoint,
      kcp_EndpointLocalMapping, messaging_HostMailboxAction, messaging_ReadMailboxAction, messaging_ReceiveAction,
      messaging_SendAction, nearby_PeerSeen, nearby_PublicProfile, nearby_Status, nearby_StatusMessage,
      nearby_StatusProof, nearby_StealthHint, nodes_EndpointWithTTL, nodes_LinkClosedEvent, nodes_LinkCreatedEvent,
      nodes_LinkInfo, nodes_LinkPressureEvent, nodes_MigrateSignal, nodes_NewObservedEndpointEvent, nodes_NodeInfo,
      nodes_RelayForAction, nodes_SessionInfo, objects_CreateObjectAction, objects_Descriptor, objects_Probe,
      objects_RegistrationLease, objects_RepositoryInfo, objects_SearchResult, services_DiscoveryRule,
      services_DiscoveryScope, services_ServiceDiscoveryAction, shell_Prompt, shell_ShellAction, sys_PolicyBinding,
      sys_RegisterManagerRequest, tcp_Endpoint, tor_Endpoint, user_AdminSwarmAction, user_BootstrapResult,
      user_ContractAcceptDecision, user_ContractAcceptRequest, user_DeriveIdentityResult, user_Expulsion, user_Info,
      user_Notification, user_OpUpdate, user_SeeSwarmAction, user_SignedExpulsion, user_SwarmInviteDecision,
      user_SwarmInviteRequest, user_SwarmJoinDecision, user_SwarmJoinRequest, user_SwarmMembershipAction,
      user_SwarmMember, nat_ConsumeHoleSignal, nat_Endpoint, nat_Hole, nat_PunchSignal, objects_QueryTag,
      objects_SearchQuery, policy_Delegate, astral_Query, lib_routing_OpParam, lib_routing_OpSpec, services_Answer,
      services_Ask, services_Change, services_Incomplete, services_OfferingKey, services_OperationsList,
      services_Removed, services_Update]"

lemmas message_defs =
  apphost_AccessToken_def apphost_AttachQueryMsg_def apphost_AuthSuccessMsg_def apphost_BindMsg_def
  apphost_GrantDecision_def apphost_HandleQueryMsg_def apphost_HostInfoMsg_def apphost_IncomingQueryMsg_def
  apphost_QueryAcceptedMsg_def apphost_QueryRejectedMsg_def apphost_RegisterServiceMsg_def apphost_RejectIncomingMsg_def
  apphost_RouteQueryMsg_def auth_AuthorizerAssignment_def auth_Permit_def auth_Action_def
  auth_AdminManageAppsAction_def auth_AdminNetworkAction_def auth_AdminObjectsAction_def auth_ConfigureNodeStateAction_def
  auth_Contract_def auth_SeeNodeStateAction_def auth_SeeObjectsAction_def auth_ServeAppsAction_def
  auth_ServeObjectsAction_def auth_StoreObjectsAction_def auth_SudoAction_def auth_UseBlueprintsAction_def
  auth_UseGatewayAction_def apphost_AppRegisterDecision_def apphost_AppRegisterRequest_def apphost_Grant_def
  apphost_GrantPolicyRequest_def apphost_GrantRequest_def apphost_RegisterRequest_def apphost_RequestGrantRequest_def
  crypto_PublicKey_def crypto_Signature_def crypto_PrivateKey_def crypto_SignAnswer_def
  crypto_SignCancel_def crypto_SignHashRequest_def crypto_SignTextRequest_def crypto_SignerKey_def
  crypto_SignerKeys_def auth_RegisterSignerAction_def auth_SignedContract_def dir_AliasMap_def
  ether_Envelope_def ether_EventBroadcastReceived_def events_Event_def fs_EventFileAdded_def
  fs_EventFileChanged_def fs_EventFileRemoved_def fs_FileLocation_def gateway_Endpoint_def
  gateway_Handoff_def gateway_HandoffAck_def gateway_Ping_def gateway_Socket_def
  indexing_ChangeAckMsg_def indexing_IndexMsg_def indexing_UnindexMsg_def inference_ToolCallDelta_def
  inference_Chunk_def inference_MediaRef_def inference_ContentPart_def inference_EffortLevel_def
  inference_Error_def inference_ToolCall_def inference_Message_def inference_Model_def
  inference_Models_def inference_Provider_def inference_Tool_def inference_Request_def
  inference_Usage_def ip_EventNetworkAddressChanged_def kcp_Endpoint_def kcp_EndpointLocalMapping_def
  mcp_Agent_def mcp_AgentInfo_def messaging_ArchiveResult_def messaging_Envelope_def
  messaging_HostMailboxAction_def messaging_MailboxCredential_def messaging_MailboxInfo_def messaging_Message_def
  messaging_MessageRef_def messaging_ReadMailboxAction_def messaging_ReadMessage_def messaging_ReadMessagesRequest_def
  messaging_ReadMessagesResult_def messaging_Receipt_def messaging_ReceiveAction_def messaging_SendAction_def
  messaging_SendMessageRequest_def messaging_StoredMessage_def messaging_WaitResult_def nat_ConsumeHoleSignal_def
  nat_Endpoint_def nat_Hole_def nat_PunchSignal_def nearby_PeerSeen_def
  nearby_PublicProfile_def nearby_Status_def nearby_StatusMessage_def nearby_StatusProof_def
  nearby_StealthHint_def nodes_EndpointWithTTL_def nodes_LinkClosedEvent_def nodes_LinkCreatedEvent_def
  nodes_LinkInfo_def nodes_LinkPressureEvent_def nodes_MigrateSignal_def nodes_NewObservedEndpointEvent_def
  nodes_NodeInfo_def nodes_RelayForAction_def nodes_SessionInfo_def objects_CreateObjectAction_def
  objects_Descriptor_def objects_Probe_def objects_QueryTag_def objects_RegistrationLease_def
  objects_RepositoryInfo_def objects_SearchQuery_def objects_SearchResult_def policy_Delegate_def
  services_Update_def services_Answer_def services_Ask_def services_Change_def
  services_DiscoveryRule_def services_DiscoveryScope_def services_Incomplete_def services_OfferingKey_def
  services_OperationsList_def services_Removed_def services_ServiceDiscoveryAction_def shell_Prompt_def
  shell_ShellAction_def sys_PolicyBinding_def sys_RegisterManagerRequest_def tcp_Endpoint_def
  tor_Endpoint_def user_AdminSwarmAction_def user_BootstrapResult_def user_ContractAcceptDecision_def
  user_ContractAcceptRequest_def user_DeriveIdentityResult_def user_Expulsion_def user_Info_def
  user_Notification_def user_OpUpdate_def user_SeeSwarmAction_def user_SignedExpulsion_def
  user_SwarmInviteDecision_def user_SwarmInviteRequest_def user_SwarmJoinDecision_def user_SwarmJoinRequest_def
  user_SwarmMember_def user_SwarmMembershipAction_def astral_ArraySpec_def astral_Field_def
  astral_Blueprint_def astral_ErrUnexpectedObject_def astral_MapSpec_def astral_PrimitiveSpec_def
  astral_PtrSpec_def astral_Query_def astral_RefSpec_def astral_SliceSpec_def
  astral_log_Entry_def lib_routing_OpParam_def lib_routing_OpSpec_def

subsection \<open>Type names\<close>

text \<open>The list is strictly ascending by type name, so no two messages share one.\<close>

lemma messages_distinct: "distinct (map message_type apiMessages)"
proof -
  have "word_chain [] (map message_type apiMessages)" by code_simp
  then show ?thesis using word_chain_distinct by fastforce
qed

subsection \<open>Every message is well declared\<close>

text \<open>The types with a codec of their own that the messages contain.\<close>

definition nativeTypes :: "string list" where
  "nativeTypes =
     [''bundle'', ''float32'', ''identity'', ''messaging.message_id'', ''mod.crypto.hash'', ''mod.ip.ip_address'', ''mod.tor.digest'']"

lemma messages_known: "list_all (gtype_ok nativeTypes) apiMessages"
  by code_simp

text \<open>The alias map is the one message with a map, whose values the wire stages outside the ledger.\<close>

lemma messages_derivable: "list_all (\<lambda>m. message_type m = message_type dir_AliasMap \<or> derivable m) apiMessages"
  by code_simp

lemma message_derivable:
  assumes "m \<in> set apiMessages" and "message_type m \<noteq> message_type dir_AliasMap"
  obtains k n fs where "m = TStruct k n fs" and "derivable m"
proof -
  have d: "derivable m" using messages_derivable assms unfolding list_all_iff by blast
  then show thesis using that by (cases m) (auto simp: derivable_def)
qed

end
