(* ===== verification/Properties_Messages.thy ===== *)
theory Properties_Messages
  imports Api_Messages Channel Sample
begin

text \<open>
  The properties of the messages of the node services, over the codec of \<open>Go_Values\<close>, the
  declarations of \<open>Api_Messages\<close> and the comparison with derived Blueprints of \<open>Interop\<close>.
\<close>

lemma rb_message:
  assumes "natives_ok nok nread" and "prims_concrete bps" and "gv_fits nok bps m v"
  shows "reads_back (message_WriteTo m v) (message_ReadFrom nread bps m) v"
  using assms unfolding message_WriteTo_def message_ReadFrom_def natives_ok_def by (intro rb_objectified [of nok]) auto

lemma sample_native_codec: "natives_ok (\<lambda>n p. p = []) (\<lambda>n. rret [])"
  unfolding natives_ok_def using sample_native by blast

definition sampleHostInfo :: gval where
  "sampleHostInfo = VStruct [VPtr (VNative []), VPrim (PString8 ''ab'')]"

lemmas message_run = message_WriteTo_def Objectified_WriteTo_def structValue_WriteTo_def field_writers_def writeAll_def
  wframe_def ptrValue_WriteTo_def writeFixed_def String8_WriteTo_def scalar_writers writePayload_def Write_def wseq_def wskip_def
  enter_def charge_def attach_def fresh_budget_def detach_def exit_def Let_def MaxBlueprintDepth_def MaxCodecFrames_def
  MaxCodecBytes_def str_bytes_def

lemma sampleHostInfo_fits: "gv_fits (\<lambda>n p. p = []) sampleRegistry apphost_HostInfoMsg sampleHostInfo"
  by (simp add: apphost_HostInfoMsg_def sampleHostInfo_def)

lemma sampleHostInfo_listed: "apphost_HostInfoMsg \<in> set apiMessages"
  by (simp add: apiMessages_def)

lemma sampleHostInfo_written:
  "message_WriteTo apphost_HostInfoMsg sampleHostInfo \<lparr>out = [], wb = None\<rparr> = (None, 4, \<lparr>out = [1, 2, 97, 98], wb = None\<rparr>)"
  by (simp add: message_run apphost_HostInfoMsg_def sampleHostInfo_def)



text \<open>
  C2: a node that knows a message only by its derived Blueprint speaks the same bytes.  Each
  message but the one with a map has a derived Blueprint under its own name; the runtime object
  of that Blueprint with the same contents is written as the compiled message is, byte for byte
  and with the same count, and the compiled reader restores the message from it.
\<close>

theorem messages_interoperate:
  assumes "natives_ok nok nread" and "prims_concrete bps" and "m \<in> set apiMessages" and "message_type m \<noteq> message_type dir_AliasMap"
    and "gv_fits nok bps m v"
  shows "\<exists>bp vs. BlueprintFromType (gotype_of m) = Inr bp \<and> Type bp = message_type m \<and> gv_obj m v = Struct bp vs \<and>
    (\<forall>n w n' w' rest.
       message_WriteTo m v \<lparr>out = [], wb = None\<rparr> = (None, n, w) \<longrightarrow>
       obj_WriteTo (Struct bp vs) \<lparr>out = [], wb = None\<rparr> = (None, n', w') \<longrightarrow>
       out w' = out w \<and> n' = n \<and>
       message_ReadFrom nread bps m \<lparr>inp = out w' @ rest, rb = None\<rparr> = (Inr v, n', \<lparr>inp = rest, rb = None\<rparr>))"
proof -
  obtain k tn fs where m: "m = TStruct k tn fs" and d: "derivable m" using assms(3,4) by (rule message_derivable)
  have "describable m" using d by (cases m) (auto simp: derivable_def)
  then have al: "alike (message_WriteTo m v) (obj_WriteTo (gv_obj m v))"
    using interop_alike [of k tn fs nok bps v] assms(5) m unfolding message_WriteTo_def by blast
  have rt: "reads_back (message_WriteTo m v) (message_ReadFrom nread bps m) v" by (rule rb_message [OF assms(1,2,5)])
  obtain vs where o1: "gv_obj m v = Struct (struct_bp tn fs) vs" using assms(5) m by (auto split: gval.splits)
  have "BlueprintFromType (gotype_of m) = Inr (struct_bp tn fs)" using derivable_blueprint d m by blast
  moreover have "Type (struct_bp tn fs) = message_type m" using m by (simp add: struct_bp_def message_type_def)
  ultimately show ?thesis using o1 alike_naked [OF al [unfolded o1]] reads_back_naked [OF rt] by metis
qed

theorem messages_interoperate_witness:
  "\<exists>bp vs. BlueprintFromType (gotype_of apphost_HostInfoMsg) = Inr bp \<and> Type bp = ''mod.apphost.host_info_msg'' \<and>
     gv_obj apphost_HostInfoMsg sampleHostInfo = Struct bp vs \<and>
     obj_WriteTo (Struct bp vs) \<lparr>out = [], wb = None\<rparr> = (None, 4, \<lparr>out = [1, 2, 97, 98], wb = None\<rparr>)"
proof -
  obtain bp vs where b: "BlueprintFromType (gotype_of apphost_HostInfoMsg) = Inr bp" "Type bp = message_type apphost_HostInfoMsg"
    "gv_obj apphost_HostInfoMsg sampleHostInfo = Struct bp vs"
    "\<forall>n w n' w' rest.
       message_WriteTo apphost_HostInfoMsg sampleHostInfo \<lparr>out = [], wb = None\<rparr> = (None, n, w) \<longrightarrow>
       obj_WriteTo (Struct bp vs) \<lparr>out = [], wb = None\<rparr> = (None, n', w') \<longrightarrow>
       out w' = out w \<and> n' = n \<and>
       message_ReadFrom (\<lambda>n. rret []) sampleRegistry apphost_HostInfoMsg \<lparr>inp = out w' @ rest, rb = None\<rparr> =
         (Inr sampleHostInfo, n', \<lparr>inp = rest, rb = None\<rparr>)"
    using messages_interoperate [OF sample_native_codec sample_concrete sampleHostInfo_listed _ sampleHostInfo_fits]
    by (auto simp: message_type_def apphost_HostInfoMsg_def dir_AliasMap_def)
  obtain e n w where r: "obj_WriteTo (Struct bp vs) \<lparr>out = [], wb = None\<rparr> = (e, n, w)" by (cases "obj_WriteTo (Struct bp vs) \<lparr>out = [], wb = None\<rparr>") auto
  have "e = None \<and> wb w = None"
    using r unfolding b(3) [symmetric]
    by (auto simp: message_run apphost_HostInfoMsg_def sampleHostInfo_def struct_bp_def spec_of_def type_name_def name_spec_def isAllowedPrimitive_def
        primitiveAllowlist_def writeField_def isPtrNil_def Bool_WriteTo_def)
  with r b sampleHostInfo_written show ?thesis
    by (cases w) (auto simp: message_type_def apphost_HostInfoMsg_def)
qed

text \<open>
  The declarations of the messages are consistent: no two messages share a type name, every
  field has a type that Objectify knows, and each message but the one with a map has a valid
  Blueprint of its own name, fields in order.
\<close>

theorem messages_declared:
  "distinct (map message_type apiMessages) \<and> list_all (gtype_ok nativeTypes) apiMessages \<and>
   list_all (\<lambda>m. message_type m = message_type dir_AliasMap \<or>
     (case m of TStruct k n fs \<Rightarrow>
        BlueprintFromType (gotype_of m) = Inr (struct_bp n fs) \<and> validateBlueprint (Some (struct_bp n fs)) = None
      | _ \<Rightarrow> False)) apiMessages"
proof -
  have "case m of TStruct k n fs \<Rightarrow>
      BlueprintFromType (gotype_of m) = Inr (struct_bp n fs) \<and> validateBlueprint (Some (struct_bp n fs)) = None | _ \<Rightarrow> False"
    if "derivable m" for m
    using that derivable_blueprint derivable_valid by (cases m) (auto simp: derivable_def)
  then show ?thesis using messages_distinct messages_known messages_derivable by (auto simp: list_all_iff)
qed

end
