(* ===== verification/Apphost.thy ===== *)
theory Apphost
  imports Routing
begin

text \<open>
  A guest's side of a session with its node (\<^verbatim>\<open>src/lib/apphost/host.go\<close>, \<^verbatim>\<open>router.go\<close>, \<^verbatim>\<open>conn.go\<close>), the
  client routers over it (\<^verbatim>\<open>src/lib/astrald\<close>) and the IPC addresses both use
  (\<^verbatim>\<open>src/lib/ipc/ipc.go\<close>).  What the node answers, whether a Send fails and whether the context
  ends meanwhile are arguments; a connection records what was sent on it and whether it is open.
\<close>

subsection \<open>Messages, errors and connections\<close>

datatype host_msg =
    HostInfoMsg "string option" string
  | AuthSuccessMsg "string option"
  | ErrorMsg string
  | QueryAcceptedMsg
  | QueryRejectedMsg "8 word"
  | OtherMsg string

datatype guest_msg =
    AuthTokenMsg string
  | RouteQueryMsg "64 word" "string option" "string option" string zone "string list"

datatype session_error =
    SessionErr error
  | SessionUnexpected string
  | SessionHost string
  | SessionRejected "8 word"
  | SessionProtocol
  | SessionCtx error
  | NodeUnavailable session_error

record ipc_conn =
  ic_sent :: "guest_msg list"
  ic_open :: bool

record host =
  hs_hostID :: "string option"
  hs_hostAlias :: string
  hs_guestID :: "string option"

definition opened :: ipc_conn where "opened = \<lparr>ic_sent = [], ic_open = True\<rparr>"

definition conn_Close :: "ipc_conn \<Rightarrow> ipc_conn" where "conn_Close c = c\<lparr>ic_open := False\<rparr>"

text \<open>A Send that fails has not put the message on the connection.\<close>

definition conn_Send :: "error option \<Rightarrow> guest_msg \<Rightarrow> ipc_conn \<Rightarrow> ipc_conn" where
  "conn_Send err m c = (case err of None \<Rightarrow> c\<lparr>ic_sent := ic_sent c @ [m]\<rparr> | Some e \<Rightarrow> c)"

subsection \<open>The session\<close>

definition greet :: "host_msg res \<Rightarrow> ipc_conn \<Rightarrow> (session_error + host) \<times> ipc_conn" where
  "greet recv conn =
     (case recv of
        Inr (HostInfoMsg i a) \<Rightarrow> (Inr \<lparr>hs_hostID = i, hs_hostAlias = a, hs_guestID = None\<rparr>, conn)
      | Inl err \<Rightarrow> (Inl (SessionErr err), conn_Close conn)
      | Inr _ \<Rightarrow> (Inl (SessionUnexpected ''unexpected message type''), conn_Close conn))"

text \<open>\<open>ended\<close> is the error of the context when it ended before the greeting was read.\<close>

definition Connect :: "error option \<Rightarrow> host_msg res \<Rightarrow> error option \<Rightarrow> (session_error + host) \<times> ipc_conn option" where
  "Connect dial recv ended =
     (case dial of
        Some err \<Rightarrow> (Inl (SessionErr err), None)
      | None \<Rightarrow>
          let (h, conn) = greet recv opened
          in (case ended of
                Some e \<Rightarrow> (Inl (SessionCtx e), Some (conn_Close conn))
              | None \<Rightarrow> (h, Some conn)))"

definition AuthToken ::
  "string \<Rightarrow> error option \<Rightarrow> host_msg res \<Rightarrow> host \<Rightarrow> ipc_conn \<Rightarrow> (session_error option \<times> host) \<times> ipc_conn" where
  "AuthToken token snd_err recv s conn =
     (case snd_err of
        Some err \<Rightarrow> ((Some (SessionErr err), s), conn)
      | None \<Rightarrow>
          let conn = conn_Send None (AuthTokenMsg token) conn
          in (case recv of
                Inr (AuthSuccessMsg g) \<Rightarrow> ((None, s\<lparr>hs_guestID := g\<rparr>), conn)
              | Inr (ErrorMsg code) \<Rightarrow> ((Some (SessionHost code), s), conn)
              | Inl err \<Rightarrow> ((Some (SessionErr err), s), conn)
              | Inr _ \<Rightarrow> ((Some SessionProtocol, s), conn)))"

definition default_ids :: "host \<Rightarrow> in_flight \<Rightarrow> in_flight" where
  "default_ids s q =
     q\<lparr>Caller := (case Caller q of None \<Rightarrow> hs_guestID s | Some c \<Rightarrow> Some c),
       Target := (case Target q of None \<Rightarrow> hs_hostID s | Some t \<Rightarrow> Some t)\<rparr>"

text \<open>A connection view: the query that opened it and its direction.\<close>

record conn_view =
  cv_query :: in_flight
  cv_outbound :: bool

definition RemoteIdentity :: "conn_view \<Rightarrow> string option" where
  "RemoteIdentity c = (if cv_outbound c then Target (cv_query c) else Caller (cv_query c))"

definition LocalIdentity :: "conn_view \<Rightarrow> string option" where
  "LocalIdentity c = (if cv_outbound c then Caller (cv_query c) else Target (cv_query c))"

definition Host_RouteQuery ::
  "in_flight \<Rightarrow> zone \<Rightarrow> string list \<Rightarrow> error option \<Rightarrow> host_msg res \<Rightarrow> host \<Rightarrow> ipc_conn \<Rightarrow> (session_error + conn_view) \<times> ipc_conn" where
  "Host_RouteQuery q zone filters snd_err recv s conn =
     (let q = default_ids s q;
          msg = RouteQueryMsg (Nonce q) (Caller q) (Target q) (QueryString q) zone filters
      in case snd_err of
           Some err \<Rightarrow> (Inl (SessionErr err), conn_Close conn)
         | None \<Rightarrow>
             let conn = conn_Send None msg conn
             in (case recv of
                   Inr QueryAcceptedMsg \<Rightarrow> (Inr \<lparr>cv_query = q, cv_outbound = True\<rparr>, conn)
                 | Inr (QueryRejectedMsg code) \<Rightarrow> (Inl (SessionRejected code), conn_Close conn)
                 | Inr (ErrorMsg code) \<Rightarrow> (Inl (SessionHost code), conn_Close conn)
                 | Inl err \<Rightarrow> (Inl (SessionErr err), conn_Close conn)
                 | Inr _ \<Rightarrow> (Inl SessionProtocol, conn_Close conn)))"

subsection \<open>The router over sessions\<close>

record ah_router =
  ar_token :: string
  ar_guestID :: "string option"
  ar_hostID :: "string option"

definition NewRouter :: "string \<Rightarrow> ah_router" where
  "NewRouter token = \<lparr>ar_token = token, ar_guestID = None, ar_hostID = None\<rparr>"

definition unavailable :: "error option \<Rightarrow> session_error \<Rightarrow> session_error" where
  "unavailable ctx_err err = NodeUnavailable (case ctx_err of Some e \<Rightarrow> SessionCtx e | None \<Rightarrow> err)"

text \<open>What one attempt meets: the dial, the greeting, the token's answer, the query's answer, and when the context ended.\<close>

record attempt =
  at_dial :: "error option"
  at_greeting :: "host_msg res"
  at_endedGreet :: "error option"
  at_sendToken :: "error option"
  at_auth :: "host_msg res"
  at_endedAuth :: "error option"
  at_send :: "error option"
  at_answer :: "host_msg res"

definition authenticate :: "attempt \<Rightarrow> string \<Rightarrow> host \<Rightarrow> ipc_conn \<Rightarrow> (session_error option \<times> host) \<times> ipc_conn" where
  "authenticate a token h conn =
     (case AuthToken token (at_sendToken a) (at_auth a) h conn of
        ((err, h1), conn1) \<Rightarrow>
          (case at_endedAuth a of
             None \<Rightarrow> ((err, h1), conn1)
           | Some e \<Rightarrow> ((Some (unavailable (Some e) (case err of None \<Rightarrow> SessionProtocol | Some x \<Rightarrow> x)), h1), conn_Close conn1)))"

definition connect :: "attempt \<Rightarrow> ah_router \<Rightarrow> ((session_error + host) \<times> ipc_conn option) \<times> ah_router" where
  "connect a r =
     (case Connect (at_dial a) (at_greeting a) (at_endedGreet a) of
        (Inl err, conn) \<Rightarrow> ((Inl (unavailable (at_endedGreet a) err), conn), r)
      | (Inr h, None) \<Rightarrow> ((Inr h, None), r)
      | (Inr h, Some conn) \<Rightarrow>
          let r = r\<lparr>ar_hostID := hs_hostID h\<rparr>
          in if ar_token r = [] then ((Inr h, Some conn), r)
             else (case authenticate a (ar_token r) h conn of
                     ((Some err, h1), conn1) \<Rightarrow> ((Inl err, Some (conn_Close conn1)), r)
                   | ((None, h1), conn1) \<Rightarrow> ((Inr h1, Some conn1), r\<lparr>ar_guestID := hs_guestID h1\<rparr>)))"

definition Router_RouteQuery ::
  "goctx \<Rightarrow> attempt \<Rightarrow> in_flight \<Rightarrow> ah_router \<Rightarrow> ((session_error + conn_view) \<times> ipc_conn option) \<times> ah_router" where
  "Router_RouteQuery ctx a q r =
     (case connect a r of
        ((Inr h, Some conn), r1) \<Rightarrow>
          (case Host_RouteQuery q (ctx_zone ctx) (ctx_filters ctx) (at_send a) (at_answer a) h conn of
             (ans, conn1) \<Rightarrow> ((ans, Some conn1), r1))
      | ((Inr h, None), r1) \<Rightarrow> ((Inl SessionProtocol, None), r1)
      | ((Inl err, conn), r1) \<Rightarrow> ((Inl err, conn), r1))"

text \<open>
  The watcher that cancels a query still under way.  With the call over and the context ended both
  cases of the first select are ready; \<open>took_done\<close> is its choice, and the second look at \<open>over\<close>
  keeps a finished query from being cancelled.  The cancel is a query of its own on a fresh session.
\<close>

definition cancel_watch :: "bool \<Rightarrow> bool \<Rightarrow> bool" where
  "cancel_watch took_done over \<longleftrightarrow> (if took_done then False else if over then False else True)"

definition MethodCancel :: string where "MethodCancel = ''apphost.cancel''"

definition cancel_query :: "64 word \<Rightarrow> string \<Rightarrow> in_flight" where
  "cancel_query nonce query_id = Launch nonce None None (New_QueryString MethodCancel (ArgsString (''query_id='' @ query_id)))"

definition Router_cancel :: "attempt \<Rightarrow> 64 word \<Rightarrow> string \<Rightarrow> ah_router \<Rightarrow> ipc_conn option \<times> ah_router" where
  "Router_cancel a nonce query_id r =
     (case connect a r of
        ((Inr h, Some conn), r1) \<Rightarrow>
          (case Host_RouteQuery (cancel_query nonce query_id) ZoneDevice [] (at_send a) (at_answer a) h conn of
             (ans, conn1) \<Rightarrow> (Some (conn_Close conn1), r1))
      | ((ans, conn), r1) \<Rightarrow> (conn, r1))"

definition GuestIDContext :: "attempt \<Rightarrow> ah_router \<Rightarrow> (session_error + string option) \<times> ipc_conn option \<times> ah_router" where
  "GuestIDContext a r =
     (if ar_guestID r \<noteq> None \<or> ar_token r = [] then (Inr (ar_guestID r), None, r)
      else case connect a r of
             ((Inl err, conn), r1) \<Rightarrow> (Inl err, conn, r1)
           | ((Inr h, conn), r1) \<Rightarrow> (Inr (hs_guestID h), map_option conn_Close conn, r1))"

definition HostIDContext :: "attempt \<Rightarrow> ah_router \<Rightarrow> (session_error + string option) \<times> ipc_conn option \<times> ah_router" where
  "HostIDContext a r =
     (if ar_hostID r \<noteq> None then (Inr (ar_hostID r), None, r)
      else case connect a r of
             ((Inl err, conn), r1) \<Rightarrow> (Inl err, conn, r1)
           | ((Inr h, conn), r1) \<Rightarrow> (Inr (hs_hostID h), map_option conn_Close conn, r1))"

subsection \<open>Retrying\<close>

definition is_unavailable :: "session_error \<Rightarrow> bool" where
  "is_unavailable e = (case e of NodeUnavailable _ \<Rightarrow> True | _ \<Rightarrow> False)"

text \<open>
  \<^verbatim>\<open>RetryRouter.RouteQuery\<close> over the attempts the world offers, each with whether the wait after it
  ended by the context; None while another attempt is to come.  The connections made are listed.
\<close>

fun RetryRouter_RouteQuery ::
  "nat \<Rightarrow> nat \<Rightarrow> goctx \<Rightarrow> in_flight \<Rightarrow> (attempt \<times> error option) list \<Rightarrow> ah_router \<Rightarrow>
     (session_error + conn_view) option \<times> ipc_conn list \<times> ah_router" where
  "RetryRouter_RouteQuery maxAttempts attempt ctx q [] r = (None, [], r)"
| "RetryRouter_RouteQuery maxAttempts attempt ctx q ((a, waited) # rest) r =
     (case Router_RouteQuery ctx a q r of
        ((Inr c, conn), r1) \<Rightarrow> (Some (Inr c), case conn of None \<Rightarrow> [] | Some x \<Rightarrow> [x], r1)
      | ((Inl err, conn), r1) \<Rightarrow>
          let used = (case conn of None \<Rightarrow> [] | Some x \<Rightarrow> [x])
          in if \<not> is_unavailable err then (Some (Inl err), used, r1)
             else if maxAttempts > 0 \<and> attempt + 1 \<ge> maxAttempts then (Some (Inl err), used, r1)
             else (case waited of
                     Some e \<Rightarrow> (Some (Inl (SessionCtx e)), used, r1)
                   | None \<Rightarrow>
                       (case RetryRouter_RouteQuery maxAttempts (attempt + 1) ctx q rest r1 of
                          (res, conns, r2) \<Rightarrow> (res, used @ conns, r2))))"

text \<open>\<^verbatim>\<open>GateRouter.RouteQuery\<close>: \<open>opened_first\<close> is the select's choice when the gate is open and the context over.\<close>

definition GateRouter_RouteQuery :: "bool \<Rightarrow> error option \<Rightarrow> bool \<Rightarrow> 'a \<Rightarrow> (session_error + 'a) option" where
  "GateRouter_RouteQuery ready ended opened_first inner =
     (if ready \<and> (ended = None \<or> opened_first) then Some (Inr inner)
      else case ended of Some e \<Rightarrow> Some (Inl (SessionCtx e)) | None \<Rightarrow> None)"

subsection \<open>No session leaks, no query is sent twice\<close>

definition is_query :: "guest_msg \<Rightarrow> bool" where
  "is_query m = (case m of RouteQueryMsg _ _ _ _ _ _ \<Rightarrow> True | _ \<Rightarrow> False)"

text \<open>The message that carries the query a connection was opened for.\<close>

definition query_msg :: "goctx \<Rightarrow> conn_view \<Rightarrow> guest_msg" where
  "query_msg ctx v = (let q = cv_query v in RouteQueryMsg (Nonce q) (Caller q) (Target q) (QueryString q) (ctx_zone ctx) (ctx_filters ctx))"

definition queries_sent :: "ipc_conn list \<Rightarrow> guest_msg list" where
  "queries_sent conns = filter is_query (concat (map ic_sent conns))"

lemmas session_defs = greet_def Connect_def AuthToken_def Host_RouteQuery_def authenticate_def connect_def Router_RouteQuery_def
  conn_Close_def conn_Send_def opened_def Let_def unavailable_def

lemma greet_cases:
  obtains (ok) i a where "recv = Inr (HostInfoMsg i a)"
      "greet recv conn = (Inr \<lparr>hs_hostID = i, hs_hostAlias = a, hs_guestID = None\<rparr>, conn)"
  | (no) e where "greet recv conn = (Inl e, conn_Close conn)"
proof (cases recv)
  case (Inr m)
  then show thesis by (cases m) (auto simp: greet_def intro: ok no)
qed (auto simp: greet_def intro: no)

lemma AuthToken_sent:
  "AuthToken token se recv s conn = ((err, s1), conn1) \<Longrightarrow>
     filter is_query (ic_sent conn1) = filter is_query (ic_sent conn) \<and> ic_open conn1 = ic_open conn"
  by (auto simp: AuthToken_def conn_Send_def is_query_def Let_def split: option.splits sum.splits host_msg.splits)

lemma authenticate_sent:
  "authenticate a token s conn = ((err, s1), conn1) \<Longrightarrow>
     filter is_query (ic_sent conn1) = filter is_query (ic_sent conn) \<and> (err = None \<longrightarrow> ic_open conn1 = ic_open conn)"
  by (cases "AuthToken token (at_sendToken a) (at_auth a) s conn")
    (auto simp: authenticate_def conn_Close_def split: option.splits dest!: AuthToken_sent)

text \<open>A session that opens is open and has carried no query; one that fails is closed.\<close>

lemma connect_cases:
  obtains (ok) h conn r1 where "connect a r = ((Inr h, Some conn), r1)" "ic_open conn" "filter is_query (ic_sent conn) = []"
  | (no) err conn r1 where "connect a r = ((Inl err, conn), r1)" "\<And>c. conn = Some c \<Longrightarrow> \<not> ic_open c \<and> filter is_query (ic_sent c) = []"
proof (cases "at_dial a")
  case (Some e)
  then show thesis by (intro no) (auto simp: connect_def Connect_def)
next
  case None
  show thesis
  proof (cases "at_endedGreet a")
    case (Some e)
    then show thesis using None
      by (cases rule: greet_cases [of "at_greeting a" opened])
        (rule no, auto simp: connect_def Connect_def conn_Close_def opened_def)+
  next
    case ne: None
    show thesis
    proof (cases rule: greet_cases [of "at_greeting a" opened])
      case (ok i al)
      define h where "h = \<lparr>hs_hostID = i, hs_hostAlias = al, hs_guestID = None\<rparr>"
      have c: "Connect (at_dial a) (at_greeting a) (at_endedGreet a) = (Inr h, Some opened)"
        using None ne ok by (simp add: Connect_def h_def)
      show thesis
      proof (cases "ar_token r = []")
        case True
        then show thesis using c that(1) [of h opened "r\<lparr>ar_hostID := hs_hostID h\<rparr>"]
          by (simp add: connect_def Let_def opened_def)
      next
        case False
        obtain err h1 conn1 where au: "authenticate a (ar_token r) h opened = ((err, h1), conn1)"
          by (metis prod.exhaust)
        then have s: "filter is_query (ic_sent conn1) = []" "err = None \<longrightarrow> ic_open conn1"
          using authenticate_sent [OF au] by (simp_all add: opened_def)
        show thesis
        proof (cases err)
          case None
          then show thesis using c False au s that(1) by (simp add: connect_def Let_def)
        next
          case (Some e)
          then show thesis using c False au s that(2) [of e "Some (conn_Close conn1)"]
            by (simp add: connect_def Let_def conn_Close_def)
        qed
      qed
    next
      case (no e)
      then show thesis using None ne that(2) [of "unavailable None e" "Some (conn_Close opened)" r]
        by (simp add: connect_def Connect_def conn_Close_def opened_def)
    qed
  qed
qed

lemma default_ids_kept [simp]: "Nonce (default_ids s q) = Nonce q" "QueryString (default_ids s q) = QueryString q"
  by (simp_all add: default_ids_def)

lemma Host_RouteQuery_outcome:
  assumes "Host_RouteQuery q z fs se recv s conn = (ans, conn1)"
  shows "ic_open conn1 \<longleftrightarrow> \<not> isl ans \<and> ic_open conn" and "\<And>err. ans = Inl err \<Longrightarrow> \<not> is_unavailable err"
    and "length (filter is_query (ic_sent conn1)) \<le> Suc (length (filter is_query (ic_sent conn)))"
    and "\<And>v. ans = Inr v \<Longrightarrow> cv_query v = default_ids s q \<and> cv_outbound v \<and>
       filter is_query (ic_sent conn1) = filter is_query (ic_sent conn) @
         [RouteQueryMsg (Nonce q) (Caller (default_ids s q)) (Target (default_ids s q)) (QueryString q) z fs]"
  using assms by (auto simp: Host_RouteQuery_def Let_def conn_Send_def conn_Close_def is_query_def is_unavailable_def
      split: option.splits sum.splits host_msg.splits)

lemma Router_RouteQuery_outcome:
  assumes "Router_RouteQuery ctx a q r = ((ans, conn), r1)"
  shows "\<And>c. conn = Some c \<Longrightarrow> ic_open c \<longleftrightarrow> \<not> isl ans"
    and "\<And>v. ans = Inr v \<Longrightarrow> \<exists>c. conn = Some c \<and> filter is_query (ic_sent c) = [query_msg ctx v] \<and> (\<exists>s. cv_query v = default_ids s q)"
    and "\<And>c. conn = Some c \<Longrightarrow> length (filter is_query (ic_sent c)) \<le> 1"
    and "\<And>err c. ans = Inl err \<Longrightarrow> is_unavailable err \<Longrightarrow> conn = Some c \<Longrightarrow> filter is_query (ic_sent c) = []"
proof -
  have "(\<forall>c. conn = Some c \<longrightarrow> (ic_open c \<longleftrightarrow> \<not> isl ans) \<and> length (filter is_query (ic_sent c)) \<le> 1) \<and>
    (\<forall>v. ans = Inr v \<longrightarrow> (\<exists>c. conn = Some c \<and> filter is_query (ic_sent c) = [query_msg ctx v] \<and> (\<exists>s. cv_query v = default_ids s q))) \<and>
    (\<forall>err c. ans = Inl err \<longrightarrow> is_unavailable err \<longrightarrow> conn = Some c \<longrightarrow> filter is_query (ic_sent c) = [])"
  proof (cases rule: connect_cases [of a r])
    case (ok h conn0 r2)
    obtain an c1 where h: "Host_RouteQuery q (ctx_zone ctx) (ctx_filters ctx) (at_send a) (at_answer a) h conn0 = (an, c1)"
      by (metis prod.exhaust)
    then have "ans = an" "conn = Some c1" using assms ok(1) by (simp_all add: Router_RouteQuery_def)
    note o = Host_RouteQuery_outcome [OF h]
    show ?thesis
    proof (cases an)
      case (Inl err)
      have "\<not> ic_open c1" "length (filter is_query (ic_sent c1)) \<le> 1" "\<not> is_unavailable err"
        using o(1,3) o(2) [OF Inl] ok(2,3) Inl by simp_all
      then show ?thesis using Inl \<open>ans = an\<close> \<open>conn = Some c1\<close> by simp
    next
      case (Inr v)
      have "ic_open c1" "filter is_query (ic_sent c1) = [query_msg ctx v]" "cv_query v = default_ids h q"
        using o(1) o(4) [OF Inr] ok(2,3) Inr by (simp_all add: query_msg_def Let_def)
      then show ?thesis using Inr \<open>ans = an\<close> \<open>conn = Some c1\<close> by auto
    qed
  next
    case (no err conn0 r2)
    then show ?thesis using assms by (auto simp: Router_RouteQuery_def)
  qed
  then show "\<And>c. conn = Some c \<Longrightarrow> ic_open c \<longleftrightarrow> \<not> isl ans"
    "\<And>v. ans = Inr v \<Longrightarrow> \<exists>c. conn = Some c \<and> filter is_query (ic_sent c) = [query_msg ctx v] \<and> (\<exists>s. cv_query v = default_ids s q)"
    "\<And>c. conn = Some c \<Longrightarrow> length (filter is_query (ic_sent c)) \<le> 1"
    "\<And>err c. ans = Inl err \<Longrightarrow> is_unavailable err \<Longrightarrow> conn = Some c \<Longrightarrow> filter is_query (ic_sent c) = []"
    by blast+
qed

text \<open>Over the retries of a query: at most one session carries it, and the session of an accepted query is the only one left open.\<close>

definition settled :: "goctx \<Rightarrow> in_flight \<Rightarrow> (session_error + conn_view) option \<Rightarrow> ipc_conn list \<Rightarrow> bool" where
  "settled ctx q res conns \<longleftrightarrow> length (queries_sent conns) \<le> 1 \<and>
     (case res of
        Some (Inr v) \<Rightarrow>
          queries_sent conns = [query_msg ctx v] \<and> (\<exists>s. cv_query v = default_ids s q) \<and> length (filter ic_open conns) = 1
      | _ \<Rightarrow> filter ic_open conns = [])"

lemma settled_first:
  assumes "Router_RouteQuery ctx a q r = ((ans, conn), r1)"
  shows "settled ctx q (Some ans) (case conn of None \<Rightarrow> [] | Some x \<Rightarrow> [x])"
proof (cases ans)
  case (Inl err)
  then show ?thesis using Router_RouteQuery_outcome(1,3) [OF assms] by (cases conn) (auto simp: settled_def queries_sent_def)
next
  case (Inr v)
  then obtain c where "conn = Some c" "filter is_query (ic_sent c) = [query_msg ctx v]" "\<exists>s. cv_query v = default_ids s q"
    using Router_RouteQuery_outcome(2) [OF assms] by blast
  then show ?thesis using Inr Router_RouteQuery_outcome(1) [OF assms] by (auto simp: settled_def queries_sent_def)
qed

lemma settled_more:
  assumes "Router_RouteQuery ctx a q r = ((Inl err, conn), r1)" and "is_unavailable err" and "settled ctx q res conns"
  shows "settled ctx q res ((case conn of None \<Rightarrow> [] | Some x \<Rightarrow> [x]) @ conns)"
  using Router_RouteQuery_outcome(1,4) [OF assms(1)] assms(2,3) by (cases conn) (auto simp: settled_def queries_sent_def split: option.splits sum.splits)

lemma retry_outcome: "RetryRouter_RouteQuery mx n ctx q as r = (res, conns, r') \<Longrightarrow> settled ctx q res conns"
proof (induction as arbitrary: n r res conns r')
  case (Cons w rest)
  obtain a waited where w: "w = (a, waited)" by (cases w)
  obtain ans conn r1 where a: "Router_RouteQuery ctx a q r = ((ans, conn), r1)" by (metis prod.exhaust)
  note first = settled_first [OF a]
  show ?case
  proof (cases ans)
    case (Inr c)
    then show ?thesis using Cons.prems w a first by auto
  next
    case (Inl err)
    note first' = first [unfolded Inl]
    show ?thesis
    proof (cases "is_unavailable err \<and> \<not> (0 < mx \<and> mx \<le> n + 1) \<and> waited = None")
      case True
      obtain res2 conns2 r2 where rest: "RetryRouter_RouteQuery mx (n + 1) ctx q rest r1 = (res2, conns2, r2)"
        by (metis prod.exhaust)
      show ?thesis
        using Cons.prems w a Inl True rest settled_more [OF a [unfolded Inl] _ Cons.IH [OF rest]] by auto
    next
      case False
      then show ?thesis using Cons.prems w a Inl first' by (auto simp: Let_def settled_def split: if_splits option.splits)
    qed
  qed
qed (simp add: settled_def queries_sent_def)

lemma retry_attempts:
  "0 < mx \<Longrightarrow> n < mx \<Longrightarrow> mx - n \<le> length as \<Longrightarrow> fst (RetryRouter_RouteQuery mx n ctx q as r) \<noteq> None"
proof (induction as arbitrary: n r)
  case (Cons w rest)
  obtain a waited where w: "w = (a, waited)" by (cases w)
  obtain ans conn r1 where a: "Router_RouteQuery ctx a q r = ((ans, conn), r1)" by (metis prod.exhaust)
  show ?case
  proof (cases "\<exists>err. ans = Inl err \<and> is_unavailable err \<and> n + 1 < mx \<and> waited = None")
    case True
    then obtain err where err: "ans = Inl err" "is_unavailable err" "n + 1 < mx" "waited = None" by auto
    then have "fst (RetryRouter_RouteQuery mx (n + 1) ctx q rest r1) \<noteq> None"
      using Cons.IH [of "n + 1" r1] Cons.prems by auto
    then show ?thesis using w a err by (auto simp: Let_def split: prod.splits)
  next
    case False
    then show ?thesis using w a Cons.prems by (cases ans) (auto simp: Let_def split: prod.splits option.splits)
  qed
qed simp

subsection \<open>Monitored connections\<close>

text \<open>
  \<^verbatim>\<open>RouterMonitor\<close> files a connection under the nonce of its query and drops the entry when the
  connection closes or fails.  A monitor is its connection's number and its byte counts.
\<close>

record conn_monitor =
  cm_conn :: nat
  cm_read :: "64 word"
  cm_written :: "64 word"

type_synonym monitor = "(64 word, nat) gomap"

definition Monitor_Add :: "64 word \<Rightarrow> nat \<Rightarrow> monitor \<Rightarrow> conn_monitor \<times> monitor" where
  "Monitor_Add nonce conn m =
     (\<lparr>cm_conn = conn, cm_read = 0, cm_written = 0\<rparr>, snd (snd (Map_Set m nonce conn)))"

text \<open>OnClose, OnReadError and OnWriteError all delete the nonce's entry.\<close>

definition Monitor_drop :: "64 word \<Rightarrow> monitor \<Rightarrow> monitor" where
  "Monitor_drop nonce m = snd (Map_Delete m nonce)"

definition ConnMonitor_Read :: "64 word \<Rightarrow> nat \<times> error option \<Rightarrow> conn_monitor \<Rightarrow> monitor \<Rightarrow> conn_monitor \<times> monitor" where
  "ConnMonitor_Read nonce answer c m =
     (c\<lparr>cm_read := cm_read c + of_nat (fst answer)\<rparr>, if snd answer \<noteq> None then Monitor_drop nonce m else m)"

definition ConnMonitor_Write :: "64 word \<Rightarrow> nat \<times> error option \<Rightarrow> conn_monitor \<Rightarrow> monitor \<Rightarrow> conn_monitor \<times> monitor" where
  "ConnMonitor_Write nonce answer c m =
     (c\<lparr>cm_written := cm_written c + of_nat (fst answer)\<rparr>, if snd answer \<noteq> None then Monitor_drop nonce m else m)"

definition Monitor_Conns :: "monitor \<Rightarrow> nat list" where
  "Monitor_Conns m = Map_Values m"

lemma monitor_tracks:
  assumes "nonce \<notin> fst ` set m"
  shows "Monitor_Conns (snd (Monitor_Add nonce conn m)) = Monitor_Conns m @ [conn]"
    and "Monitor_drop nonce (snd (Monitor_Add nonce conn m)) = m"
proof -
  have n: "map_of m nonce = None" using assms by (simp add: map_of_eq_None_iff)
  then show "Monitor_Conns (snd (Monitor_Add nonce conn m)) = Monitor_Conns m @ [conn]"
    by (simp add: Monitor_Conns_def Monitor_Add_def Map_Set_def Map_Values_def)
  have "AList.delete nonce m = m" using assms by (simp add: delete_id)
  then show "Monitor_drop nonce (snd (Monitor_Add nonce conn m)) = m"
    using n by (simp add: Monitor_drop_def Monitor_Add_def Map_Set_def Map_Delete_def AList.delete_eq map_add_def)
qed

text \<open>A second connection with the nonce of a first, as when an app queries itself, is not tracked, and its end untracks the first.\<close>

lemma monitor_same_nonce:
  assumes "distinct (map fst m)" and "(nonce, c1) \<in> set m"
  shows "snd (Monitor_Add nonce c2 m) = m" and "nonce \<notin> fst ` set (Monitor_drop nonce m)"
proof -
  have "map_of m nonce = Some c1" using assms by simp
  then show "snd (Monitor_Add nonce c2 m) = m" "nonce \<notin> fst ` set (Monitor_drop nonce m)"
    by (auto simp: Monitor_Add_def Map_Set_def Monitor_drop_def Map_Delete_def AList.delete_eq)
qed

subsection \<open>IPC addresses\<close>

definition ErrInvalidIPCAddress :: error where "ErrInvalidIPCAddress = ErrMsg ''invalid ipc address''"
definition ErrUnsupportedProtocol :: error where "ErrUnsupportedProtocol = ErrMsg ''unsupported protocol''"
definition ErrNotSocket :: error where "ErrNotSocket = ErrMsg ''file exists and is not a unix socket''"
definition ErrSocketInUse :: error where "ErrSocketInUse = ErrMsg ''unix socket is in use by another process''"

text \<open>A leading tilde and slash stand for the home directory \<open>home\<close>, when it is known; \<open>join\<close> is \<^verbatim>\<open>filepath.Join\<close>.\<close>

definition expandHome :: "(string \<Rightarrow> string \<Rightarrow> string) \<Rightarrow> string option \<Rightarrow> string \<Rightarrow> string" where
  "expandHome join home path =
     (if take 2 path \<noteq> ''~/'' then path
      else case home of None \<Rightarrow> path | Some h \<Rightarrow> join h (drop 2 path))"

text \<open>Which network and address \<^verbatim>\<open>DialContext\<close> dials and \<^verbatim>\<open>Listen\<close> binds for an endpoint.\<close>

definition ipc_target :: "(string \<Rightarrow> string \<Rightarrow> string) \<Rightarrow> string option \<Rightarrow> string \<Rightarrow> (string \<times> string) res" where
  "ipc_target join home target =
     (case cut CHR '':'' target of
        (proto, addr, found) \<Rightarrow>
          if \<not> found then Inl ErrInvalidIPCAddress
          else if proto = ''tcp'' then Inr (proto, addr)
          else if proto = ''unix'' then Inr (proto, expandHome join home addr)
          else if proto = ''memu'' \<or> proto = ''memb'' then Inr (proto, addr)
          else Inl ErrUnsupportedProtocol)"

definition conn_Endpoint :: "string \<times> string \<Rightarrow> string" where
  "conn_Endpoint pa = fst pa @ '':'' @ snd pa"

text \<open>What is at the path of a unix socket: a served socket, one nobody accepts on, one whose probe fails with another error, or another file.\<close>

datatype path_state = Absent | LiveSocket | StaleSocket | UnprobedSocket error | OtherFile

definition net_listen_unix :: "path_state \<Rightarrow> bool \<times> path_state" where
  "net_listen_unix p = (case p of Absent \<Rightarrow> (True, LiveSocket) | _ \<Rightarrow> (False, p))"

definition removeStaleSocket :: "path_state \<Rightarrow> error option \<times> path_state" where
  "removeStaleSocket p =
     (case p of
        Absent \<Rightarrow> (Some (ErrMsg ''no such file or directory''), p)
      | OtherFile \<Rightarrow> (Some ErrNotSocket, p)
      | LiveSocket \<Rightarrow> (Some ErrSocketInUse, p)
      | UnprobedSocket e \<Rightarrow> (Some e, p)
      | StaleSocket \<Rightarrow> (None, Absent))"

definition listenUnix :: "path_state \<Rightarrow> error option \<times> path_state" where
  "listenUnix p =
     (case net_listen_unix p of
        (True, p1) \<Rightarrow> (None, p1)
      | (False, p1) \<Rightarrow>
          (case removeStaleSocket p1 of
             (Some err, p2) \<Rightarrow> (Some err, p2)
           | (None, p2) \<Rightarrow>
               (case net_listen_unix p2 of
                  (True, p3) \<Rightarrow> (None, p3)
                | (False, p3) \<Rightarrow> (Some (ErrMsg ''address already in use''), p3))))"

lemma listenUnix_keeps_files:
  "listenUnix p = (r, p') \<Longrightarrow>
     (r = None \<longleftrightarrow> p = Absent \<or> p = StaleSocket) \<and> (if r = None then p' = LiveSocket else p' = p)"
  by (cases p) (auto simp: listenUnix_def net_listen_unix_def removeStaleSocket_def)

lemma ipc_target_endpoint:
  assumes "CHR '':'' \<notin> set proto" and "proto \<in> {''tcp'', ''memu'', ''memb''} \<or> proto = ''unix'' \<and> take 2 addr \<noteq> ''~/''"
  shows "ipc_target join home (conn_Endpoint (proto, addr)) = Inr (proto, addr)"
  using assms by (auto simp: ipc_target_def conn_Endpoint_def cut_at expandHome_def)

end
