(* ===== verification/App_Registrar.thy ===== *)
theory App_Registrar
  imports Go_Prelude
begin

text \<open>
  The registrar that keeps an app bound to its node (\<^verbatim>\<open>src/lib/apps/registrar.go\<close>) and the
  renewal of an app's leases (\<^verbatim>\<open>src/lib/apps/registration_lease.go\<close>).  What the node, the timers
  and the hooks answer is given to each step; the run loop, a registration and a disconnect are
  steps, and the state carries what the node has been told and what callers were answered.
\<close>

subsection \<open>Handlers, hooks and what they answer\<close>

record app_handler =
  h_endpoint :: string
  h_token :: "64 word"

type_synonym hook = string

text \<open>The answers of \<^verbatim>\<open>client.RegisterHandler\<close>, of the Send on the bind channel, and of each hook by its position.\<close>

record reg_env =
  env_register :: "app_handler \<Rightarrow> error option"
  env_send :: "app_handler \<Rightarrow> error option"
  env_hook :: "nat \<Rightarrow> hook \<Rightarrow> error option"

definition env_ok :: reg_env where
  "env_ok = \<lparr>env_register = \<lambda>h. None, env_send = \<lambda>h. None, env_hook = \<lambda>i k. None\<rparr>"

datatype reg_phase = PDial | PBackoff | PLoop | PStopped | PPanic

datatype reg_event = OnConnect | OnDisconnect error

record registrar =
  r_handlers :: "app_handler list"
  r_hooks :: "hook list"
  r_minBackoff :: int
  r_maxBackoff :: int
  r_delay :: int
  r_ready :: bool
  r_phase :: reg_phase
  r_events :: "reg_event list"
  r_bound :: "app_handler list"

definition second :: int where "second = 1000000000"
definition defaultMinBackoff :: int where "defaultMinBackoff = 1 * second"
definition defaultMaxBackoff :: int where "defaultMaxBackoff = 30 * second"

definition AddRegistrationHooks :: "hook option list \<Rightarrow> registrar \<Rightarrow> registrar" where
  "AddRegistrationHooks hooks s = s\<lparr>r_hooks := r_hooks s @ List.map_filter (\<lambda>h. h) hooks\<rparr>"

definition NewAppRegistrar :: "hook option list \<Rightarrow> registrar" where
  "NewAppRegistrar hooks = AddRegistrationHooks hooks
     \<lparr>r_handlers = [], r_hooks = [], r_minBackoff = defaultMinBackoff, r_maxBackoff = defaultMaxBackoff,
      r_delay = defaultMinBackoff, r_ready = False, r_phase = PDial, r_events = [], r_bound = []\<rparr>"

subsection \<open>Attaching handlers\<close>

fun run_hooks :: "reg_env \<Rightarrow> nat \<Rightarrow> hook list \<Rightarrow> error option" where
  "run_hooks e i [] = None"
| "run_hooks e i (k # ks) = (case env_hook e i k of Some err \<Rightarrow> Some err | None \<Rightarrow> run_hooks e (Suc i) ks)"

definition runHooks :: "reg_env \<Rightarrow> registrar \<Rightarrow> error option" where
  "runHooks e s = run_hooks e 0 (r_hooks s)"

definition reg_attach :: "reg_env \<Rightarrow> app_handler \<Rightarrow> error option" where
  "reg_attach e h = (case env_register e h of Some err \<Rightarrow> Some err | None \<Rightarrow> env_send e h)"

text \<open>The handlers attached on the way are the second component, kept for what the node was told.\<close>

fun attach_handlers :: "reg_env \<Rightarrow> app_handler list \<Rightarrow> error option \<times> app_handler list" where
  "attach_handlers e [] = (None, [])"
| "attach_handlers e (h # hs) =
     (case reg_attach e h of
        Some err \<Rightarrow> (Some err, [])
      | None \<Rightarrow> (case attach_handlers e hs of (r, b) \<Rightarrow> (r, h # b)))"

definition attachAll :: "reg_env \<Rightarrow> registrar \<Rightarrow> error option \<times> app_handler list" where
  "attachAll e s =
     (if r_handlers s = [] then (None, [])
      else case attach_handlers e (r_handlers s) of
             (Some err, b) \<Rightarrow> (Some err, b)
           | (None, b) \<Rightarrow> (runHooks e s, b))"

definition attachRegistered :: "reg_env \<Rightarrow> app_handler \<Rightarrow> registrar \<Rightarrow> error option \<times> registrar" where
  "attachRegistered e h s =
     (case reg_attach e h of
        Some err \<Rightarrow> (Some err, s)
      | None \<Rightarrow>
          let s1 = s\<lparr>r_handlers := r_handlers s @ [h], r_bound := r_bound s @ [h]\<rparr>
          in case runHooks e s1 of
               Some err \<Rightarrow> (Some err, s1\<lparr>r_handlers := butlast (r_handlers s1)\<rparr>)
             | None \<Rightarrow> (None, s1))"

subsection \<open>The run loop\<close>

text \<open>
  A round of \<^verbatim>\<open>run\<close> up to the wait or to \<^verbatim>\<open>loop\<close>: \<open>dial\<close> is what the node bind returned and \<open>ended\<close>
  whether the context has an error.  Closing a ready channel that is closed would panic.
\<close>

definition run_attempt :: "error option \<Rightarrow> reg_env \<Rightarrow> bool \<Rightarrow> registrar \<Rightarrow> registrar" where
  "run_attempt dial e ended s =
     (case dial of
        Some err \<Rightarrow> if ended then s\<lparr>r_phase := PStopped\<rparr> else s\<lparr>r_phase := PBackoff\<rparr>
      | None \<Rightarrow>
          (case attachAll e s of
             (Some err, b) \<Rightarrow>
               if ended then s\<lparr>r_phase := PStopped, r_bound := []\<rparr>
               else s\<lparr>r_phase := PBackoff, r_bound := [], r_events := r_events s @ [OnDisconnect err]\<rparr>
           | (None, b) \<Rightarrow>
               if r_ready s then s\<lparr>r_phase := PPanic\<rparr>
               else s\<lparr>r_delay := r_minBackoff s, r_ready := True, r_events := r_events s @ [OnConnect],
                      r_bound := b, r_phase := PLoop\<rparr>))"

definition backoff :: "bool \<Rightarrow> registrar \<Rightarrow> registrar" where
  "backoff fired s =
     s\<lparr>r_delay := min (r_delay s * 2) (r_maxBackoff s), r_phase := (if fired then PDial else PStopped)\<rparr>"

text \<open>The three cases of the select in \<^verbatim>\<open>loop\<close>, each with what \<^verbatim>\<open>run\<close> does when it returns.\<close>

definition loop_register :: "reg_env \<Rightarrow> app_handler \<Rightarrow> registrar \<Rightarrow> error option \<times> registrar" where
  "loop_register e h s =
     (case attachRegistered e h s of
        (Some err, s1) \<Rightarrow> (Some err, s1\<lparr>r_phase := PStopped, r_bound := []\<rparr>)
      | (None, s1) \<Rightarrow> (None, s1))"

definition loop_disconnected :: "error \<Rightarrow> registrar \<Rightarrow> registrar" where
  "loop_disconnected err s =
     s\<lparr>r_phase := PDial, r_ready := False, r_bound := [], r_events := r_events s @ [OnDisconnect err]\<rparr>"

definition loop_done :: "registrar \<Rightarrow> registrar" where
  "loop_done s = s\<lparr>r_phase := PStopped, r_bound := []\<rparr>"

text \<open>The registrar with its context and the answers its \<^verbatim>\<open>Register\<close> calls got, in order.\<close>

record reg_world =
  rw_reg :: registrar
  rw_ended :: bool
  rw_answers :: "(app_handler \<times> error option) list"

inductive reg_step :: "reg_world \<Rightarrow> reg_world \<Rightarrow> bool" where
  rs_attempt: "r_phase (rw_reg w) = PDial \<Longrightarrow>
     reg_step w (w\<lparr>rw_reg := run_attempt dial e (rw_ended w) (rw_reg w)\<rparr>)"
| rs_backoff: "r_phase (rw_reg w) = PBackoff \<Longrightarrow> fired \<or> rw_ended w \<Longrightarrow>
     reg_step w (w\<lparr>rw_reg := backoff fired (rw_reg w)\<rparr>)"
| rs_register: "r_phase (rw_reg w) = PLoop \<Longrightarrow> loop_register e h (rw_reg w) = (ans, s1) \<Longrightarrow>
     reg_step w (w\<lparr>rw_reg := s1, rw_answers := rw_answers w @ [(h, ans)]\<rparr>)"
| rs_disconnected: "r_phase (rw_reg w) = PLoop \<Longrightarrow> reg_step w (w\<lparr>rw_reg := loop_disconnected err (rw_reg w)\<rparr>)"
| rs_done: "r_phase (rw_reg w) = PLoop \<Longrightarrow> rw_ended w \<Longrightarrow> reg_step w (w\<lparr>rw_reg := loop_done (rw_reg w)\<rparr>)"
| rs_hooks: "reg_step w (w\<lparr>rw_reg := AddRegistrationHooks hs (rw_reg w)\<rparr>)"
| rs_end: "reg_step w (w\<lparr>rw_ended := True\<rparr>)"

definition reg_start :: "reg_world \<Rightarrow> bool" where
  "reg_start w \<longleftrightarrow> (\<exists>hooks. w = \<lparr>rw_reg = NewAppRegistrar hooks, rw_ended = False, rw_answers = []\<rparr>)"

subsection \<open>What holds throughout\<close>

definition accepted :: "(app_handler \<times> error option) list \<Rightarrow> app_handler list" where
  "accepted as = map fst (filter (\<lambda>a. snd a = None) as)"

definition refused :: "(app_handler \<times> error option) list \<Rightarrow> bool" where
  "refused as \<longleftrightarrow> as \<noteq> [] \<and> snd (last as) \<noteq> None"

definition registrar_inv :: "reg_world \<Rightarrow> bool" where
  "registrar_inv w \<longleftrightarrow>
     (let s = rw_reg w in
       r_minBackoff s = defaultMinBackoff \<and> r_maxBackoff s = defaultMaxBackoff \<and>
       r_minBackoff s \<le> r_delay s \<and> r_delay s \<le> r_maxBackoff s \<and>
       r_handlers s = accepted (rw_answers w) \<and>
       (case r_phase s of
          PLoop \<Rightarrow> r_ready s \<and> r_bound s = r_handlers s \<and> \<not> refused (rw_answers w)
        | PStopped \<Rightarrow> r_bound s = [] \<and> (rw_ended w \<or> refused (rw_answers w))
        | PPanic \<Rightarrow> False
        | _ \<Rightarrow> \<not> r_ready s \<and> r_bound s = [] \<and> \<not> refused (rw_answers w)))"

lemma attach_handlers_all: "attach_handlers e hs = (None, b) \<Longrightarrow> b = hs"
  by (induction hs arbitrary: b) (auto split: option.splits prod.splits)

lemma attachAll_all: "attachAll e s = (None, b) \<Longrightarrow> b = r_handlers s"
  by (auto simp: attachAll_def split: if_splits prod.splits option.splits dest: attach_handlers_all)

lemma accepted_snoc [simp]: "accepted (as @ [(h, a)]) = accepted as @ (if a = None then [h] else [])"
  by (simp add: accepted_def)

lemma refused_snoc [simp]: "refused (as @ [(h, a)]) \<longleftrightarrow> a \<noteq> None"
  by (simp add: refused_def)

lemma loop_register_cases:
  assumes "loop_register e h s = (ans, s1)"
  obtains (ok) "ans = None" "s1 = s\<lparr>r_handlers := r_handlers s @ [h], r_bound := r_bound s @ [h]\<rparr>"
  | (no) err where "ans = Some err" "r_handlers s1 = r_handlers s" "r_phase s1 = PStopped" "r_bound s1 = []"
      "r_ready s1 = r_ready s" "r_delay s1 = r_delay s" "r_minBackoff s1 = r_minBackoff s" "r_maxBackoff s1 = r_maxBackoff s"
proof (cases "reg_attach e h")
  case None
  note none = None
  show ?thesis
  proof (cases "runHooks e (s\<lparr>r_handlers := r_handlers s @ [h], r_bound := r_bound s @ [h]\<rparr>)")
    case None
    then show ?thesis using assms none ok by (auto simp: loop_register_def attachRegistered_def)
  next
    case (Some err)
    then show ?thesis using assms none no [of err] by (auto simp: loop_register_def attachRegistered_def)
  qed
next
  case (Some err)
  then show ?thesis using assms no [of err] by (auto simp: loop_register_def attachRegistered_def)
qed

lemma reg_start_inv: "reg_start w \<Longrightarrow> registrar_inv w"
  by (auto simp: reg_start_def registrar_inv_def NewAppRegistrar_def AddRegistrationHooks_def accepted_def refused_def
      defaultMinBackoff_def defaultMaxBackoff_def second_def)

lemma reg_step_inv: "reg_step w w' \<Longrightarrow> registrar_inv w \<Longrightarrow> registrar_inv w'"
proof (induction rule: reg_step.induct)
  case (rs_attempt w dial e)
  then show ?case
    by (auto simp: registrar_inv_def run_attempt_def Let_def split: option.splits prod.splits dest!: attachAll_all)
next
  case (rs_backoff w fired)
  then show ?case by (auto simp: registrar_inv_def backoff_def Let_def defaultMinBackoff_def defaultMaxBackoff_def second_def)
next
  case (rs_register w e h ans s1)
  from rs_register(2) show ?case
    by (cases rule: loop_register_cases) (use rs_register(1,3) in \<open>auto simp: registrar_inv_def Let_def\<close>)
qed (auto simp: registrar_inv_def Let_def loop_disconnected_def loop_done_def AddRegistrationHooks_def split: reg_phase.splits)

lemma reg_run_inv: "reg_step\<^sup>*\<^sup>* w w' \<Longrightarrow> reg_start w \<Longrightarrow> registrar_inv w'"
  by (induction rule: rtranclp_induct) (auto intro: reg_step_inv reg_start_inv)

lemma reg_answers_grow: "reg_step\<^sup>*\<^sup>* w w' \<Longrightarrow> prefix (rw_answers w) (rw_answers w')"
proof (induction rule: rtranclp_induct)
  case (step y z)
  from step.hyps(2) have "prefix (rw_answers y) (rw_answers z)" by cases auto
  then show ?case using step.IH by (meson prefix_order.trans)
qed simp

text \<open>A stopped registrar stays as it is, but for hooks nobody runs.\<close>

lemma reg_stopped_stays:
  "reg_step\<^sup>*\<^sup>* w w' \<Longrightarrow> r_phase (rw_reg w) = PStopped \<Longrightarrow>
     r_phase (rw_reg w') = PStopped \<and> rw_answers w' = rw_answers w \<and> r_ready (rw_reg w') = r_ready (rw_reg w)"
proof (induction rule: rtranclp_induct)
  case (step y z)
  from step.hyps(2) step.IH [OF step.prems] show ?case by cases (auto simp: AddRegistrationHooks_def)
qed simp

text \<open>A registration the node, the bind channel or a hook refuses.\<close>

definition register_fails :: "reg_env \<Rightarrow> app_handler \<Rightarrow> hook list \<Rightarrow> error \<Rightarrow> bool" where
  "register_fails e h hooks err \<longleftrightarrow>
     env_register e h = Some err \<or>
     env_register e h = None \<and> env_send e h = Some err \<or>
     env_register e h = None \<and> env_send e h = None \<and>
       (\<exists>i < length hooks. env_hook e i (hooks ! i) = Some err \<and> (\<forall>j < i. env_hook e j (hooks ! j) = None))"

lemma run_hooks_first:
  "i < length ks \<Longrightarrow> env_hook e (n + i) (ks ! i) = Some err \<Longrightarrow> (\<And>j. j < i \<Longrightarrow> env_hook e (n + j) (ks ! j) = None) \<Longrightarrow>
     run_hooks e n ks = Some err"
proof (induction ks arbitrary: n i)
  case (Cons k ks)
  show ?case
  proof (cases i)
    case (Suc m)
    have "env_hook e n k = None" using Cons.prems(3) [of 0] Suc by simp
    moreover have "run_hooks e (Suc n) ks = Some err"
      using Cons.prems Suc Cons.prems(3) [of "Suc j" for j] by (intro Cons.IH [of m]) auto
    ultimately show ?thesis by simp
  qed (use Cons.prems in simp)
qed simp

lemma loop_register_fails:
  assumes "register_fails e h (r_hooks s) err"
  shows "fst (loop_register e h s) = Some err"
  using assms run_hooks_first [of _ "r_hooks s" e 0 err]
  by (auto simp: register_fails_def loop_register_def attachRegistered_def reg_attach_def runHooks_def)

text \<open>Whenever the registrar has not stopped and the node answers, it binds with every handler.\<close>

lemma attach_handlers_ok: "attach_handlers env_ok hs = (None, hs)"
  by (induction hs) (simp_all add: reg_attach_def env_ok_def)

lemma run_hooks_ok: "run_hooks env_ok i ks = None"
  by (induction ks arbitrary: i) (simp_all add: env_ok_def)

lemma attachAll_ok: "attachAll env_ok s = (None, r_handlers s)"
  by (simp add: attachAll_def attach_handlers_ok runHooks_def run_hooks_ok)

lemma reg_rebinds:
  assumes "registrar_inv w" and "r_phase (rw_reg w) \<noteq> PStopped"
  shows "\<exists>w'. reg_step\<^sup>*\<^sup>* w w' \<and> r_phase (rw_reg w') = PLoop \<and> r_bound (rw_reg w') = accepted (rw_answers w) \<and> rw_answers w' = rw_answers w"
proof -
  have dial: "\<exists>w'. reg_step v w' \<and> r_phase (rw_reg w') = PLoop \<and> r_bound (rw_reg w') = r_handlers (rw_reg v) \<and> rw_answers w' = rw_answers v"
    if "r_phase (rw_reg v) = PDial" "\<not> r_ready (rw_reg v)" for v
    using rs_attempt [OF that(1), of None env_ok] that(2)
    by (intro exI [of _ "v\<lparr>rw_reg := run_attempt None env_ok (rw_ended v) (rw_reg v)\<rparr>"])
      (simp add: run_attempt_def attachAll_ok)
  have h: "r_handlers (rw_reg w) = accepted (rw_answers w)" using assms(1) by (simp add: registrar_inv_def Let_def)
  show ?thesis
  proof (cases "r_phase (rw_reg w)")
    case PDial
    then show ?thesis using dial [of w] assms(1) h by (auto simp: registrar_inv_def Let_def)
  next
    case PBackoff
    define v where "v = w\<lparr>rw_reg := backoff True (rw_reg w)\<rparr>"
    have "reg_step w v" unfolding v_def by (rule rs_backoff) (simp_all add: PBackoff)
    moreover obtain w' where "reg_step v w'" "r_phase (rw_reg w') = PLoop" "r_bound (rw_reg w') = r_handlers (rw_reg v)" "rw_answers w' = rw_answers v"
      using dial [of v] assms(1) PBackoff by (auto simp: v_def backoff_def registrar_inv_def Let_def)
    ultimately show ?thesis using h by (intro exI [of _ w']) (auto simp: v_def backoff_def)
  next
    case PLoop
    then show ?thesis using assms(1) h by (intro exI [of _ w]) (simp add: registrar_inv_def Let_def)
  qed (use assms in \<open>auto simp: registrar_inv_def Let_def\<close>)
qed

subsection \<open>Backoff\<close>

fun backoffs :: "nat \<Rightarrow> int \<Rightarrow> int \<Rightarrow> int" where
  "backoffs 0 d mx = d"
| "backoffs (Suc n) d mx = backoffs n (min (d * 2) mx) mx"

lemma backoffs_closed: "0 \<le> d \<Longrightarrow> d \<le> mx \<Longrightarrow> backoffs n d mx = min (d * 2 ^ n) mx"
proof (induction n arbitrary: d)
  case (Suc n)
  show ?case
  proof (cases "d * 2 \<le> mx")
    case True
    then show ?thesis using Suc by (simp add: mult.assoc)
  next
    case False
    have "mx * 1 \<le> mx * 2 ^ n" using Suc.prems by (intro mult_left_mono) simp_all
    moreover have "d * 2 * 1 \<le> d * 2 * 2 ^ n" using Suc.prems by (intro mult_left_mono) simp_all
    ultimately have "mx \<le> d * 2 * 2 ^ n" "mx \<le> mx * 2 ^ n" using False by linarith+
    then show ?thesis using Suc.IH [of mx] Suc.prems False by (simp add: mult.assoc min_absorb2)
  qed
qed simp

subsection \<open>Leases\<close>

definition DefaultRegistrationLease :: int where "DefaultRegistrationLease = 3600 * second"
definition renewDivisor :: int where "renewDivisor = 3"
definition minRenewInterval :: int where "minRenewInterval = second"

record lease_keeper =
  k_requested :: int
  k_granted :: int
  k_started :: bool

definition newLeaseKeeper :: "int \<Rightarrow> lease_keeper" where
  "newLeaseKeeper requested = \<lparr>k_requested = requested, k_granted = 0, k_started = False\<rparr>"

text \<open>The answer of the registration call: an error, or a lease that may be missing.\<close>

definition renew :: "int option res \<Rightarrow> lease_keeper \<Rightarrow> error option \<times> lease_keeper" where
  "renew answer k =
     (case answer of
        Inl err \<Rightarrow> (Some err, k)
      | Inr None \<Rightarrow> (None, k)
      | Inr (Some d) \<Rightarrow> (None, k\<lparr>k_granted := d\<rparr>))"

text \<open>The number of renewal loops a run of the hook starts is the third component.\<close>

definition Hook :: "int option res \<Rightarrow> lease_keeper \<Rightarrow> error option \<times> lease_keeper \<times> nat" where
  "Hook answer k =
     (case renew answer k of
        (Some err, k1) \<Rightarrow> (Some err, k1, 0)
      | (None, k1) \<Rightarrow> (None, k1\<lparr>k_started := True\<rparr>, if k_started k1 then 0 else 1))"

definition interval :: "lease_keeper \<Rightarrow> int" where
  "interval k =
     (let granted = k_granted k;
          granted = (if granted \<le> 0 then k_requested k else granted);
          granted = (if granted \<le> 0 then DefaultRegistrationLease else granted);
          interval = granted div renewDivisor
      in if interval > minRenewInterval then interval else minRenewInterval)"

lemma interval_floor: "minRenewInterval \<le> interval k"
  by (simp add: interval_def Let_def)

lemma interval_third: "3 * second \<le> k_granted k \<Longrightarrow> 3 * interval k \<le> k_granted k"
  by (auto simp: interval_def Let_def renewDivisor_def minRenewInterval_def second_def)

fun hooks_run :: "int option res list \<Rightarrow> lease_keeper \<Rightarrow> lease_keeper \<times> nat" where
  "hooks_run [] k = (k, 0)"
| "hooks_run (a # as) k = (case Hook a k of (r, k1, n) \<Rightarrow> (case hooks_run as k1 of (k2, m) \<Rightarrow> (k2, n + m)))"

lemma Hook_once:
  "Hook a k = (r, k1, n) \<Longrightarrow> n = (if k_started k1 \<and> \<not> k_started k then 1 else 0) \<and> (k_started k \<longrightarrow> k_started k1)"
  by (cases a) (auto simp: Hook_def renew_def split: option.splits if_splits)

lemma hooks_run_once:
  "hooks_run as k = (k', n) \<Longrightarrow> n = (if k_started k' \<and> \<not> k_started k then 1 else 0) \<and> (k_started k \<longrightarrow> k_started k')"
proof (induction as arbitrary: k n)
  case (Cons a as)
  obtain r k1 m where h: "Hook a k = (r, k1, m)" by (cases "Hook a k")
  obtain k2 l where r: "hooks_run as k1 = (k2, l)" by (cases "hooks_run as k1")
  have e: "k' = k2" "n = m + l" using Cons.prems h r by simp_all
  have i: "l = (if k_started k2 \<and> \<not> k_started k1 then 1 else 0)" "k_started k1 \<longrightarrow> k_started k2"
    using Cons.IH [of k1 l] r e(1) by auto
  show ?case unfolding e using Hook_once [OF h] i by (cases "k_started k"; cases "k_started k1"; cases "k_started k2") simp_all
qed simp

end
