(* ===== verification/App_Handler.thy ===== *)
theory App_Handler
  imports Apphost App_Registrar
begin

text \<open>
  The app's side of inbound queries: \<^verbatim>\<open>src/lib/apps/handler.go\<close>, \<^verbatim>\<open>pending_query.go\<close>,
  \<^verbatim>\<open>lockable_write_closer.go\<close>, \<^verbatim>\<open>gate.go\<close> and \<^verbatim>\<open>serve.go\<close>.  A handler's world is its listener, its
  token and its connections; accepting, screening, handing a query over, routing it and what the
  target writes are steps that interleave.
\<close>

subsection \<open>Screening a connection\<close>

datatype first_msg =
    HandleQueryMsg "64 word" "64 word" "string option" "string option" string
  | OtherFirst string

datatype reply = ReplyError string | ReplyAck | ReplyRejected "8 word" | ReplyData bytes

definition ErrCodeProtocolError :: string where "ErrCodeProtocolError = ''protocol_error''"
definition ErrCodeDenied :: string where "ErrCodeDenied = ''denied''"
definition ErrCodeRouteNotFound :: string where "ErrCodeRouteNotFound = ''route_not_found''"

text \<open>What the goroutine of a connection does with its first message: the replies before it closes, or the query it offers.\<close>

definition intake :: "64 word \<Rightarrow> first_msg res \<Rightarrow> reply list + in_flight" where
  "intake ipcToken recv =
     (case recv of
        Inl err \<Rightarrow> Inl []
      | Inr (OtherFirst t) \<Rightarrow> Inl [ReplyError ErrCodeProtocolError]
      | Inr (HandleQueryMsg token i caller target query) \<Rightarrow>
          if token \<noteq> ipcToken then Inl [ReplyError ErrCodeDenied]
          else Inr (Launch i caller target query))"

subsection \<open>Answering a pending query\<close>

fun rejected_code :: "route_error \<Rightarrow> 8 word option" where
  "rejected_code (ErrRejected c) = Some c"
| "rejected_code (RouteWrap s e) = rejected_code e"
| "rejected_code _ = None"

definition PendingQuery_Accept :: reply where "PendingQuery_Accept = ReplyAck"

definition PendingQuery_RejectWithCode :: "int \<Rightarrow> reply" where
  "PendingQuery_RejectWithCode code = ReplyRejected (of_int code)"

definition PendingQuery_Reject :: reply where
  "PendingQuery_Reject = PendingQuery_RejectWithCode (uint CodeRejected)"

definition PendingQuery_Skip :: reply where "PendingQuery_Skip = ReplyError ErrCodeRouteNotFound"

text \<open>The reply \<^verbatim>\<open>Route\<close> sends for a router's answer, and whether the connection stays open.\<close>

definition route_reply :: "'w answer \<Rightarrow> reply \<times> bool" where
  "route_reply ans =
     (case ans of
        Inr w \<Rightarrow> (PendingQuery_Accept, True)
      | Inl err \<Rightarrow>
          (case rejected_code err of
             Some code \<Rightarrow> (PendingQuery_RejectWithCode (uint code), False)
           | None \<Rightarrow> (PendingQuery_Skip, False)))"

lemma rejected_code_iff: "rejected_code e \<noteq> None \<longleftrightarrow> is_rejected e"
  by (induction e) auto

subsection \<open>The handler's world\<close>

text \<open>
  \<open>Ended\<close> is a closed connection.  \<open>ac_target\<close>: the router holds the lockable writer over it, so
  the target may write at any moment from then on; \<open>ac_locked\<close> is that writer's mutex.
\<close>

datatype conn_state = Screening | Offered in_flight | Taken in_flight | Serving in_flight | Ended

record app_conn =
  ac_state :: conn_state
  ac_first :: "first_msg res option"
  ac_target :: bool
  ac_locked :: bool
  ac_wire :: "reply list"

definition accepted_conn :: app_conn where
  "accepted_conn = \<lparr>ac_state = Screening, ac_first = None, ac_target = False, ac_locked = False, ac_wire = []\<rparr>"

record app_world =
  aw_token :: "64 word"
  aw_listening :: bool
  aw_done :: bool
  aw_acceptErr :: "error option"
  aw_conns :: "app_conn list"

definition newHandler :: "64 word \<Rightarrow> app_world" where
  "newHandler token = \<lparr>aw_token = token, aw_listening = True, aw_done = False, aw_acceptErr = None, aw_conns = []\<rparr>"

definition Handler_Close :: "app_world \<Rightarrow> app_world" where
  "Handler_Close h = h\<lparr>aw_done := True, aw_listening := False\<rparr>"

definition Handler_accept :: "error option \<Rightarrow> app_world \<Rightarrow> app_world" where
  "Handler_accept err h =
     (case err of
        Some e \<Rightarrow> Handler_Close (h\<lparr>aw_acceptErr := Some e\<rparr>)
      | None \<Rightarrow> h\<lparr>aw_conns := aw_conns h @ [accepted_conn]\<rparr>)"

definition conn_intake :: "64 word \<Rightarrow> first_msg res \<Rightarrow> app_conn \<Rightarrow> app_conn" where
  "conn_intake token recv c =
     (case intake token recv of
        Inl replies \<Rightarrow> c\<lparr>ac_state := Ended, ac_first := Some recv, ac_wire := ac_wire c @ replies\<rparr>
      | Inr q \<Rightarrow> c\<lparr>ac_state := Offered q, ac_first := Some recv\<rparr>)"

text \<open>
  The select of \<^verbatim>\<open>intake\<close> and of \<^verbatim>\<open>ReadQuery\<close>: an offered query is taken, or the handler's end drops it.
  \<^verbatim>\<open>Route\<close> locks the new writer before it hands it to the router.
\<close>

definition conn_take :: "app_conn \<Rightarrow> app_conn option" where
  "conn_take c = (case ac_state c of Offered q \<Rightarrow> Some (c\<lparr>ac_state := Taken q, ac_locked := True, ac_target := True\<rparr>) | _ \<Rightarrow> None)"

definition conn_drop :: "app_conn \<Rightarrow> app_conn option" where
  "conn_drop c = (case ac_state c of Offered q \<Rightarrow> Some (c\<lparr>ac_state := Ended\<rparr>) | _ \<Rightarrow> None)"

definition ErrNetClosed :: error where "ErrNetClosed = ErrMsg ''use of closed network connection''"

definition ReadQuery_done :: "app_world \<Rightarrow> error" where
  "ReadQuery_done h = (case aw_acceptErr h of Some e \<Rightarrow> e | None \<Rightarrow> ErrNetClosed)"

text \<open>\<^verbatim>\<open>Route\<close> answers on the connection itself and then releases the writer.\<close>

definition conn_route :: "'w answer \<Rightarrow> app_conn \<Rightarrow> app_conn option" where
  "conn_route ans c =
     (case ac_state c of
        Taken q \<Rightarrow>
          (case route_reply ans of
             (r, keep) \<Rightarrow>
               Some (c\<lparr>ac_state := (if keep then Serving q else Ended), ac_wire := ac_wire c @ [r], ac_locked := False\<rparr>))
      | _ \<Rightarrow> None)"

text \<open>
  \<^verbatim>\<open>lockableWriteCloser\<close>: both calls wait for the mutex and for nothing else (\<open>None\<close> while it is held);
  what is written to a closed connection does not reach the wire.
\<close>

definition lockable_Write :: "bytes \<Rightarrow> app_conn \<Rightarrow> app_conn option" where
  "lockable_Write p c =
     (if ac_locked c then None
      else Some (if ac_state c = Ended then c else c\<lparr>ac_wire := ac_wire c @ [ReplyData p]\<rparr>))"

definition lockable_Close :: "app_conn \<Rightarrow> app_conn option" where
  "lockable_Close c = (if ac_locked c then None else Some (c\<lparr>ac_state := Ended\<rparr>))"

inductive conn_step :: "64 word \<Rightarrow> bool \<Rightarrow> app_conn \<Rightarrow> app_conn \<Rightarrow> bool" where
  cs_intake: "ac_state c = Screening \<Longrightarrow> conn_step token finished c (conn_intake token recv c)"
| cs_take: "conn_take c = Some c1 \<Longrightarrow> conn_step token finished c c1"
| cs_drop: "finished \<Longrightarrow> conn_drop c = Some c1 \<Longrightarrow> conn_step token finished c c1"
| cs_route: "conn_route (ans :: unit answer) c = Some c1 \<Longrightarrow> conn_step token finished c c1"
| cs_write: "ac_target c \<Longrightarrow> lockable_Write p c = Some c1 \<Longrightarrow> conn_step token finished c c1"
| cs_close: "ac_target c \<Longrightarrow> lockable_Close c = Some c1 \<Longrightarrow> conn_step token finished c c1"

inductive app_step :: "app_world \<Rightarrow> app_world \<Rightarrow> bool" where
  as_accept: "aw_listening h \<Longrightarrow> app_step h (Handler_accept None h)"
| as_fail: "app_step h (Handler_accept (Some e) h)"
| as_close: "app_step h (Handler_Close h)"
| as_conn: "i < length (aw_conns h) \<Longrightarrow> conn_step (aw_token h) (aw_done h) (aw_conns h ! i) c \<Longrightarrow>
     app_step h (h\<lparr>aw_conns := (aw_conns h)[i := c]\<rparr>)"

subsection \<open>Only authenticated queries, one answer each\<close>

definition is_answer :: "reply \<Rightarrow> bool" where
  "is_answer r = (case r of ReplyData _ \<Rightarrow> False | _ \<Rightarrow> True)"

text \<open>The first message of a connection that the handler accepts for the query \<open>q\<close>.\<close>

definition authentic :: "64 word \<Rightarrow> app_conn \<Rightarrow> in_flight \<Rightarrow> bool" where
  "authentic token c q \<longleftrightarrow>
     (\<exists>caller target query.
        ac_first c = Some (Inr (HandleQueryMsg token (Nonce q) caller target query)) \<and>
        q = Launch (Nonce q) caller target query)"

definition conn_inv :: "64 word \<Rightarrow> app_conn \<Rightarrow> bool" where
  "conn_inv token c \<longleftrightarrow>
     (case ac_state c of
        Screening \<Rightarrow> ac_wire c = [] \<and> \<not> ac_target c
      | Offered q \<Rightarrow> authentic token c q \<and> ac_wire c = [] \<and> \<not> ac_target c
      | Taken q \<Rightarrow> authentic token c q \<and> ac_wire c = [] \<and> ac_locked c
      | Serving q \<Rightarrow> authentic token c q \<and> (\<exists>ds. ac_wire c = ReplyAck # map ReplyData ds)
      | Ended \<Rightarrow> (ac_wire c = [] \<or> (\<exists>r. is_answer r \<and> r \<noteq> ReplyAck \<and> ac_wire c = [r]) \<or>
                   (\<exists>ds. ac_wire c = ReplyAck # map ReplyData ds) \<and> (\<exists>q. authentic token c q)))"

lemma intake_authentic:
  "intake token recv = Inr q \<Longrightarrow>
     \<exists>caller target query. recv = Inr (HandleQueryMsg token (Nonce q) caller target query) \<and> q = Launch (Nonce q) caller target query"
  by (auto simp: intake_def Launch_def split: sum.splits first_msg.splits if_splits)

lemma intake_refusal: "intake token recv = Inl rs \<Longrightarrow> rs = [] \<or> (\<exists>r. is_answer r \<and> r \<noteq> ReplyAck \<and> rs = [r])"
  by (auto simp: intake_def is_answer_def split: sum.splits first_msg.splits if_splits)

lemma route_reply_cases:
  obtains (ack) "route_reply ans = (ReplyAck, True)"
  | (no) r where "route_reply ans = (r, False)" "is_answer r" "r \<noteq> ReplyAck"
proof (cases ans)
  case (Inl err)
  then show thesis
    by (cases "rejected_code err")
      (auto simp: route_reply_def PendingQuery_Skip_def PendingQuery_RejectWithCode_def is_answer_def intro: no)
qed (auto simp: route_reply_def PendingQuery_Accept_def intro: ack)

lemma conn_step_inv: "conn_step token finished c c' \<Longrightarrow> conn_inv token c \<Longrightarrow> conn_inv token c'"
proof (induction rule: conn_step.induct)
  case (cs_intake c token finished recv)
  show ?case
  proof (cases "intake token recv")
    case (Inl rs)
    then show ?thesis using cs_intake intake_refusal [OF Inl] by (auto simp: conn_inv_def conn_intake_def)
  next
    case (Inr q)
    then show ?thesis using cs_intake intake_authentic [OF Inr] by (auto simp: conn_inv_def conn_intake_def authentic_def)
  qed
next
  case (cs_take c c1 token finished)
  then show ?case by (auto simp: conn_inv_def conn_take_def authentic_def split: conn_state.splits)
next
  case (cs_drop finished c c1 token)
  then show ?case by (auto simp: conn_inv_def conn_drop_def split: conn_state.splits)
next
  case (cs_route ans c c1 token finished)
  show ?case
  proof (cases "ac_state c")
    case (Taken q)
    show ?thesis
      by (cases rule: route_reply_cases [of ans])
        (use cs_route Taken in \<open>auto simp: conn_inv_def conn_route_def authentic_def\<close>)
  qed (use cs_route in \<open>auto simp: conn_route_def\<close>)
next
  case (cs_write c p c1 token finished)
  show ?case
  proof (cases "ac_state c")
    case (Serving q)
    then obtain ds where "ac_wire c = ReplyAck # map ReplyData ds" "authentic token c q"
      using cs_write by (auto simp: conn_inv_def)
    then have "ac_wire c1 = ReplyAck # map ReplyData (ds @ [p])" "ac_state c1 = Serving q" "authentic token c1 q"
      using cs_write Serving by (auto simp: lockable_Write_def authentic_def split: if_splits)
    then show ?thesis unfolding conn_inv_def by (auto intro: exI [of _ "ds @ [p]"])
  qed (use cs_write in \<open>auto simp: conn_inv_def lockable_Write_def split: if_splits\<close>)
next
  case (cs_close c c1 token finished)
  then show ?case
    by (auto simp: conn_inv_def lockable_Close_def authentic_def split: conn_state.splits if_splits)
qed

definition app_inv :: "app_world \<Rightarrow> bool" where
  "app_inv h \<longleftrightarrow> (\<forall>c \<in> set (aw_conns h). conn_inv (aw_token h) c)"

lemma app_step_inv: "app_step h h' \<Longrightarrow> app_inv h \<Longrightarrow> app_inv h' \<and> aw_token h' = aw_token h"
proof (induction rule: app_step.induct)
  case (as_conn i h c)
  then have "conn_inv (aw_token h) c" using conn_step_inv [OF as_conn.hyps(2)] by (simp add: app_inv_def)
  then show ?case using as_conn set_update_subset_insert [of "aw_conns h" i c] by (auto simp: app_inv_def)
qed (auto simp: app_inv_def Handler_accept_def Handler_Close_def conn_inv_def accepted_conn_def)

lemma app_run_inv: "app_step\<^sup>*\<^sup>* (newHandler token) h \<Longrightarrow> app_inv h \<and> aw_token h = token"
  by (induction rule: rtranclp_induct) (auto simp: newHandler_def app_inv_def dest: app_step_inv)

text \<open>What the invariant says of the replies of one connection.\<close>

lemma conn_inv_answers:
  "conn_inv token c \<Longrightarrow> length (filter is_answer (ac_wire c)) \<le> 1 \<and> (ac_wire c \<noteq> [] \<longrightarrow> is_answer (hd (ac_wire c))) \<and>
     (ReplyAck \<in> set (ac_wire c) \<longrightarrow> (\<exists>q. authentic token c q))"
  by (auto simp: conn_inv_def is_answer_def split: conn_state.splits)

text \<open>A query offered while the handler is served is not lost: ReadQuery can take it, and Route can answer it.\<close>

lemma offered_answered:
  assumes "i < length (aw_conns h)" and "ac_state (aw_conns h ! i) = Offered q"
  shows "\<exists>h'. app_step\<^sup>*\<^sup>* h h' \<and> ac_wire (aw_conns h' ! i) = ac_wire (aw_conns h ! i) @ [fst (route_reply (ans :: unit answer))]"
proof -
  define c where "c = aw_conns h ! i"
  define c1 where "c1 = c\<lparr>ac_state := Taken q, ac_locked := True, ac_target := True\<rparr>"
  define h1 where "h1 = h\<lparr>aw_conns := (aw_conns h)[i := c1]\<rparr>"
  have "conn_take c = Some c1" using assms(2) by (simp add: conn_take_def c_def c1_def)
  then have s1: "app_step h h1" unfolding h1_def using assms(1) by (intro as_conn) (auto intro: cs_take simp: c_def)
  obtain r keep where r: "route_reply ans = (r, keep)" by (cases "route_reply ans")
  define c2 where "c2 = c1\<lparr>ac_state := (if keep then Serving q else Ended), ac_wire := ac_wire c1 @ [r], ac_locked := False\<rparr>"
  have "conn_route ans c1 = Some c2" using r by (simp add: conn_route_def c2_def c1_def)
  then have s2: "app_step h1 (h1\<lparr>aw_conns := (aw_conns h1)[i := c2]\<rparr>)"
    using assms(1) by (intro as_conn) (auto intro: cs_route simp: h1_def)
  show ?thesis
    using s1 s2 assms(1) r by (intro exI [of _ "h1\<lparr>aw_conns := (aw_conns h1)[i := c2]\<rparr>"]) (auto simp: h1_def c2_def c1_def c_def)
qed

subsection \<open>The end of Serve and Route\<close>

definition contains_str :: "string \<Rightarrow> string \<Rightarrow> bool" where
  "contains_str sub s \<longleftrightarrow> (\<exists>i \<in> set [0..<Suc (length s)]. take (length sub) (drop i s) = sub)"

definition isClosedListenerErr :: "bool \<Rightarrow> string \<Rightarrow> bool" where
  "isClosedListenerErr is_net_closed msg \<longleftrightarrow>
     is_net_closed \<or> contains_str ''use of closed network connection'' msg \<or> contains_str ''connection closed'' msg"

definition serve_end :: "error option \<Rightarrow> bool \<Rightarrow> string \<Rightarrow> error \<Rightarrow> error" where
  "serve_end ctx_err is_net_closed msg err =
     (case ctx_err of Some e \<Rightarrow> if isClosedListenerErr is_net_closed msg then e else err | None \<Rightarrow> err)"

text \<open>\<^verbatim>\<open>gateRouter.RouteQuery\<close>, with what the select meets; None while the gate is shut and the context runs.\<close>

definition gateRouter_RouteQuery :: "bool \<Rightarrow> string option \<Rightarrow> bool \<Rightarrow> 'w answer \<Rightarrow> 'w answer option" where
  "gateRouter_RouteQuery ready ended opened_first inner =
     (if ready \<and> (ended = None \<or> opened_first) then Some inner
      else case ended of Some e \<Rightarrow> Some (Inl (RouteErr e)) | None \<Rightarrow> None)"

subsection \<open>Serve options\<close>

record serve_config =
  sc_mounts :: "(error option) option list"
  sc_hooks :: "hook list"
  sc_address :: string

datatype serve_option = OptHooks "hook option list" | OptAddress string | OptMount "error option"

fun with_hooks :: "hook option list \<Rightarrow> serve_config \<Rightarrow> serve_config res" where
  "with_hooks [] cfg = Inr cfg"
| "with_hooks (None # hs) cfg = Inl (ErrMsg ''nil registration hook'')"
| "with_hooks (Some h # hs) cfg = with_hooks hs (cfg\<lparr>sc_hooks := sc_hooks cfg @ [h]\<rparr>)"

definition apply_option :: "serve_option \<Rightarrow> serve_config \<Rightarrow> serve_config res" where
  "apply_option opt cfg =
     (case opt of
        OptHooks hs \<Rightarrow> with_hooks hs cfg
      | OptAddress a \<Rightarrow> if a = [] then Inl (ErrMsg ''empty handler address'') else Inr (cfg\<lparr>sc_address := a\<rparr>)
      | OptMount m \<Rightarrow> Inr (cfg\<lparr>sc_mounts := sc_mounts cfg @ [Some m]\<rparr>))"

fun serve_config_loop :: "serve_option option list \<Rightarrow> serve_config \<Rightarrow> serve_config res" where
  "serve_config_loop [] cfg = Inr cfg"
| "serve_config_loop (None # opts) cfg = Inl (ErrMsg ''nil serve option'')"
| "serve_config_loop (Some opt # opts) cfg =
     (case apply_option opt cfg of Inl e \<Rightarrow> Inl e | Inr cfg1 \<Rightarrow> serve_config_loop opts cfg1)"

definition newServeConfig :: "serve_option option list \<Rightarrow> serve_config res" where
  "newServeConfig opts = serve_config_loop opts \<lparr>sc_mounts = [], sc_hooks = [], sc_address = []\<rparr>"

fun applyMounts :: "(error option) option list \<Rightarrow> error option" where
  "applyMounts [] = None"
| "applyMounts (None # ms) = Some (ErrMsg ''nil route mount'')"
| "applyMounts (Some (Some e) # ms) = Some e"
| "applyMounts (Some None # ms) = applyMounts ms"

text \<open>\<open>supports\<close>: the registrar takes hooks.\<close>

definition applyServeConfig :: "bool \<Rightarrow> serve_config \<Rightarrow> registrar \<Rightarrow> error option \<times> registrar" where
  "applyServeConfig supports cfg reg =
     (if sc_hooks cfg = [] then (None, reg)
      else if \<not> supports then (Some (ErrMsg ''registrar does not support registration hooks''), reg)
      else (None, AddRegistrationHooks (map Some (sc_hooks cfg)) reg))"

text \<open>The order of \<^verbatim>\<open>serveRegistered\<close>: what it does, and what it returns.\<close>

datatype serve_action = MakeHandler | GateQueries | StartRoute | RegisterHandler | CloseHandler

definition serveRegistered :: "error option \<Rightarrow> bool \<Rightarrow> error option \<Rightarrow> error \<Rightarrow> error \<times> serve_action list" where
  "serveRegistered made gated registered routed =
     (case made of
        Some e \<Rightarrow> (e, [MakeHandler])
      | None \<Rightarrow>
          let acts = [MakeHandler] @ (if gated then [GateQueries] else []) @ [StartRoute, RegisterHandler]
          in (case registered of Some e \<Rightarrow> (e, acts @ [CloseHandler]) | None \<Rightarrow> (routed, acts @ [CloseHandler])))"

lemma with_hooks_ok: "with_hooks (map Some hs) cfg = Inr (cfg\<lparr>sc_hooks := sc_hooks cfg @ hs\<rparr>)"
  by (induction hs arbitrary: cfg) auto

lemma applied_hooks:
  assumes "applyServeConfig True cfg reg = (None, reg')"
  shows "r_hooks reg' = r_hooks reg @ sc_hooks cfg"
proof -
  have "List.map_filter (\<lambda>h. h) (map Some hs) = hs" for hs :: "hook list" by (induction hs) (simp_all add: List.map_filter_simps)
  then show ?thesis using assms by (auto simp: applyServeConfig_def AddRegistrationHooks_def split: if_splits)
qed

end
