(* ===== verification/Streams.thy ===== *)
theory Streams
  imports Go_Prelude
begin

text \<open>
  The stream helpers of \<^verbatim>\<open>src/streams\<close>: \<^verbatim>\<open>async_writer.go\<close>, \<^verbatim>\<open>context_reader.go\<close>, \<^verbatim>\<open>dispenser.go\<close> and \<^verbatim>\<open>counter.go\<close>.  A method that
  holds its lock is one step; the flusher of an AsyncWriter and the background read of a
  ContextReader are further steps, and what the wrapped stream answers is chosen by the step
  relation.  The locale \<open>conduit\<close> states what both promise: no byte is lost, repeated or
  reordered on the way.
\<close>

definition ErrClosedPipe :: error where "ErrClosedPipe = ErrMsg ''io: read/write on closed pipe''"
definition ErrBufferOverflow :: error where "ErrBufferOverflow = ErrMsg ''buffer overflow''"

subsection \<open>What a conduit promises\<close>

text \<open>
  Of a state: the bytes it has taken, the bytes it has handed on, the bytes it still holds, and
  whether the wrapped stream has failed.
\<close>

locale conduit =
  fixes start :: "'s \<Rightarrow> bool" and step :: "'s \<Rightarrow> 's \<Rightarrow> bool" and sound :: "'s \<Rightarrow> bool"
    and taken :: "'s \<Rightarrow> bytes" and given :: "'s \<Rightarrow> bytes" and held :: "'s \<Rightarrow> bytes" and failed :: "'s \<Rightarrow> bool"
  assumes start_sound: "start s \<Longrightarrow> sound s"
    and step_sound: "sound s \<Longrightarrow> step s s' \<Longrightarrow> sound s'"
    and given_within: "sound s \<Longrightarrow> prefix (given s) (taken s)"
    and conserves: "sound s \<Longrightarrow> \<not> failed s \<Longrightarrow> taken s = given s @ held s"
    and given_grows: "sound s \<Longrightarrow> step s s' \<Longrightarrow> prefix (given s) (given s')"
begin

lemma run_sound: "step\<^sup>*\<^sup>* s s' \<Longrightarrow> sound s \<Longrightarrow> sound s'"
  by (induction rule: rtranclp_induct) (auto intro: step_sound)

lemma run_within: "start s \<Longrightarrow> step\<^sup>*\<^sup>* s s' \<Longrightarrow> prefix (given s') (taken s')"
  by (rule given_within [OF run_sound [OF _ start_sound]])

lemma run_grows: "step\<^sup>*\<^sup>* s s' \<Longrightarrow> sound s \<Longrightarrow> prefix (given s) (given s')"
proof (induction rule: rtranclp_induct)
  case (step y z)
  then show ?case using given_grows [of y z] run_sound [of s y] by (meson prefix_order.trans)
qed simp

lemma run_delivers: "start s \<Longrightarrow> step\<^sup>*\<^sup>* s s' \<Longrightarrow> \<not> failed s' \<Longrightarrow> held s' = [] \<Longrightarrow> given s' = taken s'"
  using conserves [OF run_sound [OF _ start_sound]] by simp

end

subsection \<open>AsyncWriter\<close>

datatype flusher = FLoop | FWrite bytes | FExit | FDone

record async_writer =
  aw_chunks :: "bytes list"
  aw_bufferSize :: int
  aw_used :: int
  aw_writeErr :: "error option"
  aw_closed :: bool
  aw_flusher :: flusher
  aw_out :: bytes
  aw_outClosed :: bool

definition NewAsyncWriter :: "int \<Rightarrow> async_writer" where
  "NewAsyncWriter sz =
     \<lparr>aw_chunks = [], aw_bufferSize = sz, aw_used = 0, aw_writeErr = None, aw_closed = False,
      aw_flusher = FLoop, aw_out = [], aw_outClosed = False\<rparr>"

definition AsyncWriter_Write :: "bytes \<Rightarrow> 'z async_writer_scheme \<Rightarrow> (nat \<times> error option) \<times> 'z async_writer_scheme" where
  "AsyncWriter_Write p b =
     (if aw_writeErr b \<noteq> None then ((0, aw_writeErr b), b)
      else if aw_closed b then ((0, Some ErrClosedPipe), b)
      else if aw_bufferSize b - aw_used b < int (length p) then ((0, Some ErrBufferOverflow), b)
      else ((length p, None), b\<lparr>aw_chunks := aw_chunks b @ [p], aw_used := aw_used b + int (length p)\<rparr>))"

definition AsyncWriter_Close :: "'z async_writer_scheme \<Rightarrow> 'z async_writer_scheme" where
  "AsyncWriter_Close b = b\<lparr>aw_closed := True\<rparr>"

definition AsyncWriter_Used :: "'z async_writer_scheme \<Rightarrow> int" where
  "AsyncWriter_Used b = aw_used b"

definition AsyncWriter_BufferSize :: "'z async_writer_scheme \<Rightarrow> int" where
  "AsyncWriter_BufferSize b = aw_bufferSize b"

definition AsyncWriter_SetBufferSize :: "int \<Rightarrow> 'z async_writer_scheme \<Rightarrow> 'z async_writer_scheme" where
  "AsyncWriter_SetBufferSize sz b = b\<lparr>aw_bufferSize := sz\<rparr>"

text \<open>One round of the loop in \<^verbatim>\<open>Sync\<close>: \<open>None\<close> is to wait, otherwise what it returns.\<close>

definition AsyncWriter_Sync :: "'z async_writer_scheme \<Rightarrow> error option option" where
  "AsyncWriter_Sync b =
     (if aw_writeErr b \<noteq> None then Some (aw_writeErr b) else if aw_chunks b = [] then Some None else None)"

definition AsyncWriter_dequeue :: "'z async_writer_scheme \<Rightarrow> bytes option \<times> 'z async_writer_scheme" where
  "AsyncWriter_dequeue b =
     (case aw_chunks b of
        [] \<Rightarrow> (None, b)
      | chunk # rest \<Rightarrow> (Some chunk, b\<lparr>aw_chunks := rest, aw_used := aw_used b - int (length chunk)\<rparr>))"

text \<open>
  The flusher between two points where it gives up its lock.  \<open>flush_pick\<close> is the head of its loop,
  \<open>flush_wrote\<close> a write that took \<open>n\<close> bytes, \<open>flush_failed\<close> one that took \<open>n\<close> and reported an error,
  \<open>flush_next\<close> the end of a chunk, and \<open>flush_exit\<close> the deferred clean-up.
\<close>

definition flush_pick :: "'z async_writer_scheme \<Rightarrow> 'z async_writer_scheme option" where
  "flush_pick b =
     (case aw_flusher b of
        FLoop \<Rightarrow>
          if aw_chunks b \<noteq> [] then Some (b\<lparr>aw_flusher := FWrite (hd (aw_chunks b))\<rparr>)
          else if aw_closed b then Some (b\<lparr>aw_flusher := FExit\<rparr>)
          else None
      | _ \<Rightarrow> None)"

definition flush_wrote :: "nat \<Rightarrow> 'z async_writer_scheme \<Rightarrow> 'z async_writer_scheme option" where
  "flush_wrote n b =
     (case aw_flusher b of
        FWrite c \<Rightarrow>
          if c \<noteq> [] \<and> n \<le> length c
          then Some (b\<lparr>aw_flusher := FWrite (drop n c), aw_out := aw_out b @ take n c\<rparr>) else None
      | _ \<Rightarrow> None)"

definition flush_failed :: "nat \<Rightarrow> error \<Rightarrow> 'z async_writer_scheme \<Rightarrow> 'z async_writer_scheme option" where
  "flush_failed n e b =
     (case aw_flusher b of
        FWrite c \<Rightarrow>
          if c \<noteq> [] \<and> n \<le> length c
          then Some (b\<lparr>aw_flusher := FExit, aw_out := aw_out b @ take n c, aw_writeErr := Some e\<rparr>) else None
      | _ \<Rightarrow> None)"

definition flush_next :: "'z async_writer_scheme \<Rightarrow> 'z async_writer_scheme option" where
  "flush_next b =
     (case aw_flusher b of
        FWrite c \<Rightarrow> if c = [] then Some ((snd (AsyncWriter_dequeue b))\<lparr>aw_flusher := FLoop\<rparr>) else None
      | _ \<Rightarrow> None)"

definition flush_exit :: "'z async_writer_scheme \<Rightarrow> 'z async_writer_scheme option" where
  "flush_exit b = (case aw_flusher b of FExit \<Rightarrow> Some (b\<lparr>aw_flusher := FDone, aw_outClosed := True\<rparr>) | _ \<Rightarrow> None)"

text \<open>
  With a caller asleep in \<^verbatim>\<open>Sync\<close> and the bytes accepted so far: Write, Close, the end of a chunk and
  the exit broadcast, which wakes the caller; an error is recorded before the exit and wakes
  nobody by itself.
\<close>

record aw_state = async_writer +
  aw_accepted :: bytes
  aw_sleeping :: bool

inductive aw_step :: "aw_state \<Rightarrow> aw_state \<Rightarrow> bool" where
  aw_write: "AsyncWriter_Write p s = ((n, e), s1) \<Longrightarrow>
     aw_step s (if e = None then s1\<lparr>aw_accepted := aw_accepted s1 @ p, aw_sleeping := False\<rparr> else s1)"
| aw_close: "aw_step s ((AsyncWriter_Close s)\<lparr>aw_sleeping := False\<rparr>)"
| aw_resize: "aw_step s (AsyncWriter_SetBufferSize sz s)"
| aw_sleep: "AsyncWriter_Sync s = None \<Longrightarrow> aw_step s (s\<lparr>aw_sleeping := True\<rparr>)"
| aw_pick: "flush_pick s = Some s1 \<Longrightarrow> aw_step s s1"
| aw_wrote: "flush_wrote n s = Some s1 \<Longrightarrow> aw_step s s1"
| aw_failed: "flush_failed n e s = Some s1 \<Longrightarrow> aw_step s s1"
| aw_next: "flush_next s = Some s1 \<Longrightarrow> aw_step s (s1\<lparr>aw_sleeping := False\<rparr>)"
| aw_exit: "flush_exit s = Some s1 \<Longrightarrow> aw_step s (s1\<lparr>aw_sleeping := False\<rparr>)"

definition aw_start :: "aw_state \<Rightarrow> bool" where
  "aw_start s \<longleftrightarrow> (\<exists>sz. s = async_writer.extend (NewAsyncWriter sz) \<lparr>aw_accepted = [], aw_sleeping = False\<rparr>)"

definition aw_held :: "aw_state \<Rightarrow> bytes" where
  "aw_held s = (case aw_flusher s of FWrite c \<Rightarrow> c @ concat (tl (aw_chunks s)) | _ \<Rightarrow> concat (aw_chunks s))"

definition aw_inv :: "aw_state \<Rightarrow> bool" where
  "aw_inv s \<longleftrightarrow>
     aw_used s = int (length (concat (aw_chunks s))) \<and>
     (case aw_flusher s of
        FLoop \<Rightarrow> aw_writeErr s = None \<and> aw_accepted s = aw_out s @ aw_held s
      | FWrite c \<Rightarrow> aw_writeErr s = None \<and> aw_chunks s \<noteq> [] \<and> aw_accepted s = aw_out s @ aw_held s
      | _ \<Rightarrow> (aw_writeErr s = None \<and> aw_closed s \<and> aw_chunks s = [] \<and> aw_accepted s = aw_out s) \<or>
             (aw_writeErr s \<noteq> None \<and> aw_chunks s \<noteq> [] \<and> prefix (aw_out s) (aw_accepted s))) \<and>
     (aw_sleeping s \<longrightarrow> AsyncWriter_Sync s = None \<or> aw_flusher s = FExit)"

lemmas aw_defs = AsyncWriter_Write_def AsyncWriter_Close_def AsyncWriter_SetBufferSize_def AsyncWriter_Sync_def AsyncWriter_dequeue_def
  flush_pick_def flush_wrote_def flush_failed_def flush_next_def flush_exit_def aw_held_def

lemma aw_start_inv: "aw_start s \<Longrightarrow> aw_inv s"
  by (auto simp: aw_start_def aw_inv_def aw_held_def NewAsyncWriter_def async_writer.defs)

lemma aw_step_inv: "aw_step s s' \<Longrightarrow> aw_inv s \<Longrightarrow> aw_inv s'"
proof (induction rule: aw_step.induct)
  case (aw_write p s n e s1)
  then show ?case
    by (cases "aw_writeErr s"; cases "aw_flusher s") (auto simp: aw_inv_def aw_defs tl_append split: if_splits list.splits)
next
  case (aw_pick s s1)
  then show ?case
    by (cases "aw_chunks s") (auto simp: aw_inv_def aw_defs split: flusher.splits if_splits)
next
  case (aw_wrote n s s1)
  then show ?case by (auto simp: aw_inv_def aw_defs split: flusher.splits if_splits)
next
  case (aw_failed n e s s1)
  then show ?case
    by (auto simp: aw_inv_def aw_defs prefix_def split: flusher.splits if_splits)
      (metis append.assoc append_take_drop_id)
next
  case (aw_next s s1)
  then show ?case by (cases "aw_chunks s") (auto simp: aw_inv_def aw_defs split: flusher.splits if_splits)
qed (auto simp: aw_inv_def aw_defs split: flusher.splits if_splits)

lemma aw_step_grows: "aw_step s s' \<Longrightarrow> prefix (aw_out s) (aw_out s')"
  by (induction rule: aw_step.induct)
    (auto simp: aw_defs split: flusher.splits if_splits list.splits)

interpretation awc: conduit aw_start aw_step aw_inv aw_accepted aw_out aw_held "\<lambda>s. aw_writeErr s \<noteq> None"
proof unfold_locales
  fix s
  assume "aw_inv s"
  then show "prefix (aw_out s) (aw_accepted s)" by (auto simp: aw_inv_def split: flusher.splits)
next
  fix s
  assume "aw_inv s" "\<not> aw_writeErr s \<noteq> None"
  then show "aw_accepted s = aw_out s @ aw_held s" by (auto simp: aw_inv_def aw_held_def split: flusher.splits)
qed (auto intro: aw_start_inv aw_step_inv aw_step_grows)

text \<open>A caller asleep in \<^verbatim>\<open>Sync\<close> that could return is still to be woken: the flusher is about to exit.\<close>

lemma aw_no_lost_wakeup:
  "aw_start s \<Longrightarrow> aw_step\<^sup>*\<^sup>* s s' \<Longrightarrow> aw_sleeping s' \<Longrightarrow> AsyncWriter_Sync s' \<noteq> None \<Longrightarrow> aw_flusher s' = FExit"
  using awc.run_sound [of s s', OF _ awc.start_sound [of s]] by (auto simp: aw_inv_def)

text \<open>While the wrapped writer takes what it is given, the flusher hands on everything accepted.\<close>

lemma flush_chunk:
  assumes "aw_flusher s = FWrite c" and "aw_chunks s = d # ds"
  shows "\<exists>s'. aw_step\<^sup>*\<^sup>* s s' \<and> aw_flusher s' = FLoop \<and> aw_chunks s' = ds \<and> aw_out s' = aw_out s @ c \<and>
    aw_accepted s' = aw_accepted s \<and> aw_closed s' = aw_closed s \<and> \<not> aw_sleeping s'"
proof -
  define s1 where "s1 = s\<lparr>aw_flusher := FWrite [], aw_out := aw_out s @ c\<rparr>"
  have "aw_step\<^sup>*\<^sup>* s s1"
  proof (cases "c = []")
    case True
    then have "s1 = s" using assms(1) by (simp add: s1_def)
    then show ?thesis by simp
  next
    case False
    then have "flush_wrote (length c) s = Some s1" using assms(1) by (simp add: flush_wrote_def s1_def)
    then show ?thesis using aw_wrote by blast
  qed
  moreover define s2 where "s2 = s1\<lparr>aw_chunks := ds, aw_used := aw_used s1 - int (length d), aw_flusher := FLoop\<rparr>"
  have "flush_next s1 = Some s2" using assms(2) by (simp add: flush_next_def s1_def s2_def AsyncWriter_dequeue_def)
  then have "aw_step s1 (s2\<lparr>aw_sleeping := False\<rparr>)" by (rule aw_next)
  ultimately have "aw_step\<^sup>*\<^sup>* s (s2\<lparr>aw_sleeping := False\<rparr>)" by simp
  then show ?thesis by (intro exI [of _ "s2\<lparr>aw_sleeping := False\<rparr>"]) (simp add: s1_def s2_def)
qed

lemma flush_all:
  "aw_flusher s = FLoop \<Longrightarrow>
     \<exists>s'. aw_step\<^sup>*\<^sup>* s s' \<and> aw_flusher s' = FLoop \<and> aw_chunks s' = [] \<and> aw_out s' = aw_out s @ concat (aw_chunks s) \<and>
       aw_accepted s' = aw_accepted s \<and> aw_closed s' = aw_closed s \<and> (aw_chunks s \<noteq> [] \<longrightarrow> \<not> aw_sleeping s')"
proof (induction "aw_chunks s" arbitrary: s)
  case Nil
  then show ?case by (intro exI [of _ s]) simp
next
  case (Cons d ds)
  define s0 where "s0 = s\<lparr>aw_flusher := FWrite d\<rparr>"
  have "flush_pick s = Some s0" using Cons.prems Cons.hyps(2) [symmetric] by (simp add: flush_pick_def s0_def)
  then have "aw_step s s0" by (rule aw_pick)
  moreover obtain s1 where s1: "aw_step\<^sup>*\<^sup>* s0 s1" "aw_flusher s1 = FLoop" "aw_chunks s1 = ds" "aw_out s1 = aw_out s @ d"
    "aw_accepted s1 = aw_accepted s" "aw_closed s1 = aw_closed s" "\<not> aw_sleeping s1"
    using flush_chunk [of s0 d d ds] Cons.hyps(2) by (auto simp: s0_def)
  moreover obtain s2 where s2: "aw_step\<^sup>*\<^sup>* s1 s2" "aw_flusher s2 = FLoop" "aw_chunks s2 = []" "aw_out s2 = aw_out s1 @ concat ds"
    "aw_accepted s2 = aw_accepted s1" "aw_closed s2 = aw_closed s1" "ds \<noteq> [] \<longrightarrow> \<not> aw_sleeping s2" "ds = [] \<longrightarrow> s2 = s1"
  proof (cases "ds = []")
    case True
    then show ?thesis using that [of s1] s1 by simp
  next
    case False
    then show ?thesis using that Cons.hyps(1) [of s1] s1(2,3) by auto
  qed
  ultimately have "aw_step\<^sup>*\<^sup>* s s2" by (meson converse_rtranclp_into_rtranclp rtranclp_trans)
  then show ?case using s1 s2 Cons.hyps(2) [symmetric] by (intro exI [of _ s2]) auto
qed

subsection \<open>ContextReader\<close>

definition ReadBufferSize :: nat where "ReadBufferSize = 16 * 1024"

record context_reader =
  cr_buf :: bytes
  cr_err :: "error option"
  cr_running :: bool

definition NewContextReader :: context_reader where
  "NewContextReader = \<lparr>cr_buf = [], cr_err = None, cr_running = False\<rparr>"

text \<open>
  One round of the loop in \<^verbatim>\<open>ReadContext\<close> for a buffer of \<open>k\<close> bytes, up to the select; \<open>reader_done\<close> is
  the end of the background read.  A cancelled context returns its error and changes nothing.
\<close>

datatype read_round = ReadReturn bytes "error option" | ReadWait

definition ReadContext :: "nat \<Rightarrow> 'z context_reader_scheme \<Rightarrow> read_round \<times> 'z context_reader_scheme" where
  "ReadContext k r =
     (if cr_buf r \<noteq> [] then
        (let n = min k (length (cr_buf r)) in (ReadReturn (take n (cr_buf r)) None, r\<lparr>cr_buf := drop n (cr_buf r)\<rparr>))
      else if cr_err r \<noteq> None then (ReadReturn [] (cr_err r), r)
      else (ReadWait, r\<lparr>cr_running := True\<rparr>))"

definition reader_done :: "bytes \<Rightarrow> error option \<Rightarrow> 'z context_reader_scheme \<Rightarrow> 'z context_reader_scheme" where
  "reader_done b e r = r\<lparr>cr_err := e, cr_buf := cr_buf r @ b, cr_running := False\<rparr>"

record cr_state = context_reader +
  cr_consumed :: bytes
  cr_delivered :: bytes

inductive cr_step :: "cr_state \<Rightarrow> cr_state \<Rightarrow> bool" where
  cr_return: "ReadContext k s = (ReadReturn b e, s1) \<Longrightarrow> cr_step s (s1\<lparr>cr_delivered := cr_delivered s1 @ b\<rparr>)"
| cr_wait: "ReadContext k s = (ReadWait, s1) \<Longrightarrow> cr_step s s1"
| cr_read: "cr_running s \<Longrightarrow> length b \<le> ReadBufferSize \<Longrightarrow>
     cr_step s ((reader_done b e s)\<lparr>cr_consumed := cr_consumed s @ b\<rparr>)"
| cr_cancel: "cr_step s s"

definition cr_start :: "cr_state \<Rightarrow> bool" where
  "cr_start s \<longleftrightarrow> s = context_reader.extend NewContextReader \<lparr>cr_consumed = [], cr_delivered = []\<rparr>"

definition cr_inv :: "cr_state \<Rightarrow> bool" where
  "cr_inv s \<longleftrightarrow>
     cr_consumed s = cr_delivered s @ cr_buf s \<and> (cr_running s \<longrightarrow> cr_buf s = [] \<and> cr_err s = None) \<and>
     length (cr_buf s) \<le> ReadBufferSize"

lemma cr_step_inv: "cr_step s s' \<Longrightarrow> cr_inv s \<Longrightarrow> cr_inv s'"
  by (induction rule: cr_step.induct)
    (auto simp: cr_inv_def ReadContext_def reader_done_def Let_def split: if_splits)

interpretation crc: conduit cr_start cr_step cr_inv cr_consumed cr_delivered cr_buf "\<lambda>s. False"
proof unfold_locales
  fix s s'
  show "cr_start s \<Longrightarrow> cr_inv s"
    by (simp add: cr_start_def cr_inv_def NewContextReader_def context_reader.defs ReadBufferSize_def)
  show "cr_inv s \<Longrightarrow> cr_step s s' \<Longrightarrow> prefix (cr_delivered s) (cr_delivered s')"
    by (erule cr_step.cases) (auto simp: ReadContext_def reader_done_def Let_def split: if_splits)
qed (auto simp: cr_inv_def dest: cr_step_inv)

text \<open>An error is handed out only when every byte before it has been.\<close>

lemma cr_error_last:
  "cr_inv s \<Longrightarrow> ReadContext k s = (ReadReturn b (Some e), s1) \<Longrightarrow> b = [] \<and> s1 = s \<and> cr_delivered s = cr_consumed s"
  by (auto simp: ReadContext_def cr_inv_def Let_def split: if_splits)

subsection \<open>Dispenser\<close>

record dispenser =
  d_limit :: int
  d_unlimited :: bool
  d_closed :: bool

definition NewDispenser :: dispenser where
  "NewDispenser = \<lparr>d_limit = 0, d_unlimited = False, d_closed = False\<rparr>"

text \<open>
  A Write holds the lock except while it waits, so one entry and one round of its loop are steps.
  The wrapped writer is asked for \<open>DispAsk q k\<close>: to take the bytes \<open>q\<close>, after which the round goes
  on with \<open>Dispenser_wrote\<close>; a slice with a negative bound panics.
\<close>

datatype dispense = DispReturn nat "error option" | DispWait | DispPanic | DispAsk bytes bool

definition Dispenser_Write :: "bytes \<Rightarrow> 'z dispenser_scheme \<Rightarrow> dispense option" where
  "Dispenser_Write p w =
     (if d_closed w then Some (DispReturn 0 (Some ErrClosedPipe))
      else if d_unlimited w then Some (DispAsk p True)
      else None)"

definition Dispenser_round :: "bytes \<Rightarrow> nat \<Rightarrow> 'z dispenser_scheme \<Rightarrow> dispense" where
  "Dispenser_round p n w =
     (if p = [] then DispReturn n None
      else if d_unlimited w then DispAsk p True
      else if d_closed w then DispReturn n (Some ErrClosedPipe)
      else if d_limit w = 0 then DispWait
      else if min (int (length p)) (d_limit w) < 0 then DispPanic
      else DispAsk (take (nat (min (int (length p)) (d_limit w))) p) False)"

text \<open>The wrapped writer took \<open>nn\<close> bytes: what Write returns, or the bytes it goes on with.\<close>

definition Dispenser_wrote ::
  "bytes \<Rightarrow> nat \<Rightarrow> bool \<Rightarrow> nat \<Rightarrow> error option \<Rightarrow> 'z dispenser_scheme \<Rightarrow> (nat \<times> error option) + bytes \<times> nat \<times> 'z dispenser_scheme" where
  "Dispenser_wrote p n direct nn err w =
     (if direct then Inl (n + nn, err)
      else if err \<noteq> None then Inl (n + nn, err)
      else Inr (drop nn p, n + nn, w\<lparr>d_limit := d_limit w - int nn\<rparr>))"

definition Dispenser_SetUnlimited :: "bool \<Rightarrow> 'z dispenser_scheme \<Rightarrow> 'z dispenser_scheme" where
  "Dispenser_SetUnlimited v w = w\<lparr>d_unlimited := v\<rparr>"

definition Dispenser_Limit :: "'z dispenser_scheme \<Rightarrow> int" where
  "Dispenser_Limit w = d_limit w"

definition Dispenser_Increase :: "int \<Rightarrow> 'z dispenser_scheme \<Rightarrow> 'z dispenser_scheme" where
  "Dispenser_Increase i w = w\<lparr>d_limit := d_limit w + i\<rparr>"

text \<open>One round of \<^verbatim>\<open>Flush\<close>: whether it returns.\<close>

definition Dispenser_Flush :: "'z dispenser_scheme \<Rightarrow> bool" where
  "Dispenser_Flush w \<longleftrightarrow> d_limit w = 0 \<or> d_closed w"

definition Dispenser_Close :: "'z dispenser_scheme \<Rightarrow> 'z dispenser_scheme" where
  "Dispenser_Close w = w\<lparr>d_closed := True\<rparr>"

text \<open>
  The dispenser with one Write under way (the bytes left and the count), the bytes granted by
  Increase, what went out within the limit, what went out in a call that failed, what was passed
  through unlimited.
\<close>

record disp_state = dispenser +
  ds_job :: "(bytes \<times> nat) option"
  ds_offered :: bytes
  ds_granted :: int
  ds_metered :: bytes
  ds_unpaid :: bytes
  ds_direct :: bytes
  ds_out :: bytes

inductive disp_step :: "disp_state \<Rightarrow> disp_state \<Rightarrow> bool" where
  ds_enter: "ds_job s = None \<Longrightarrow> Dispenser_Write p s = None \<Longrightarrow> disp_step s (s\<lparr>ds_job := Some (p, 0), ds_offered := p, ds_out := []\<rparr>)"
| ds_refused: "ds_job s = None \<Longrightarrow> Dispenser_Write p s = Some (DispReturn n e) \<Longrightarrow> disp_step s s"
| ds_through: "ds_job s = None \<Longrightarrow> Dispenser_Write p s = Some (DispAsk q d) \<Longrightarrow> nn \<le> length q \<Longrightarrow>
     disp_step s (s\<lparr>ds_offered := p, ds_direct := ds_direct s @ take nn q, ds_out := take nn q\<rparr>)"
| ds_return: "ds_job s = Some (p, n) \<Longrightarrow> Dispenser_round p n s = DispReturn k e \<Longrightarrow> disp_step s (s\<lparr>ds_job := None\<rparr>)"
| ds_last: "ds_job s = Some (p, n) \<Longrightarrow> Dispenser_round p n s = DispAsk q d \<Longrightarrow> nn \<le> length q \<Longrightarrow>
     Dispenser_wrote p n d nn e s = Inl r \<Longrightarrow>
     disp_step s (if d then s\<lparr>ds_job := None, ds_direct := ds_direct s @ take nn q, ds_out := ds_out s @ take nn q\<rparr>
                  else s\<lparr>ds_job := None, ds_unpaid := ds_unpaid s @ take nn q, ds_out := ds_out s @ take nn q\<rparr>)"
| ds_more: "ds_job s = Some (p, n) \<Longrightarrow> Dispenser_round p n s = DispAsk q d \<Longrightarrow> nn \<le> length q \<Longrightarrow>
     Dispenser_wrote p n d nn e s = Inr (p', n', s1) \<Longrightarrow>
     disp_step s (s1\<lparr>ds_job := Some (p', n'), ds_metered := ds_metered s @ take nn q, ds_out := ds_out s @ take nn q\<rparr>)"
| ds_unlimited: "disp_step s (Dispenser_SetUnlimited v s)"
| ds_increase: "0 \<le> i \<Longrightarrow> disp_step s ((Dispenser_Increase i s)\<lparr>ds_granted := ds_granted s + i\<rparr>)"
| ds_close: "disp_step s (Dispenser_Close s)"

definition disp_start :: "disp_state \<Rightarrow> bool" where
  "disp_start s \<longleftrightarrow> s = dispenser.extend NewDispenser
     \<lparr>ds_job = None, ds_offered = [], ds_granted = 0, ds_metered = [], ds_unpaid = [], ds_direct = [], ds_out = []\<rparr>"

definition disp_inv :: "disp_state \<Rightarrow> bool" where
  "disp_inv s \<longleftrightarrow> 0 \<le> d_limit s \<and> d_limit s + int (length (ds_metered s)) = ds_granted s \<and>
     (case ds_job s of None \<Rightarrow> prefix (ds_out s) (ds_offered s)
      | Some (p, n) \<Rightarrow> ds_offered s = ds_out s @ p \<and> n = length (ds_out s))"

definition disp_held :: "disp_state \<Rightarrow> bytes" where
  "disp_held s = (case ds_job s of None \<Rightarrow> [] | Some (p, n) \<Rightarrow> p)"

lemmas disp_defs = Dispenser_Write_def Dispenser_round_def Dispenser_wrote_def Dispenser_SetUnlimited_def
  Dispenser_Increase_def Dispenser_Close_def

lemma take_prefix_append: "prefix (xs @ take k ys) (xs @ ys)"
  by (simp add: take_is_prefix)

lemma disp_step_inv: "disp_step s s' \<Longrightarrow> disp_inv s \<Longrightarrow> disp_inv s'"
proof (induction rule: disp_step.induct)
  case (ds_last s p n q d nn e r)
  then show ?case by (auto simp: disp_inv_def disp_defs take_prefix_append min_def take_is_prefix split: if_splits)
next
  case (ds_more s p n q d nn e p' n' s1)
  then show ?case by (auto simp: disp_inv_def disp_defs min_def split: if_splits)
qed (auto simp: disp_inv_def disp_defs take_is_prefix split: if_splits option.splits)

lemma disp_run_inv: "disp_step\<^sup>*\<^sup>* s s' \<Longrightarrow> disp_start s \<Longrightarrow> disp_inv s'"
proof (induction rule: rtranclp_induct)
  case base
  then show ?case by (simp add: disp_start_def disp_inv_def NewDispenser_def dispenser.defs)
qed (auto intro: disp_step_inv)

text \<open>Within a Write that has not been granted more than the limit, no round panics.\<close>

lemma disp_no_panic: "disp_inv s \<Longrightarrow> Dispenser_round p n s \<noteq> DispPanic"
  by (auto simp: disp_inv_def Dispenser_round_def)

subsection \<open>LimitedReader, Skip, counters and sequences\<close>

record limited_reader =
  lr_Limit :: "64 word"
  lr_n :: "64 word"

text \<open>How many bytes a Read of \<open>k\<close> bytes asks the wrapped reader for (\<open>None\<close> is \<^verbatim>\<open>io.EOF\<close> at once), and the count afterwards.\<close>

definition LimitedReader_ask :: "64 word \<Rightarrow> limited_reader \<Rightarrow> 64 word option" where
  "LimitedReader_ask plen l =
     (if lr_n l = lr_Limit l then None
      else Some (if lr_n l + plen > lr_Limit l then lr_Limit l - lr_n l else plen))"

definition LimitedReader_Read :: "64 word \<Rightarrow> bytes \<times> error option \<Rightarrow> limited_reader \<Rightarrow> (bytes \<times> error option) \<times> limited_reader" where
  "LimitedReader_Read plen answer l =
     (case LimitedReader_ask plen l of
        None \<Rightarrow> (([], Some IoEOF), l)
      | Some k \<Rightarrow> (answer, l\<lparr>lr_n := lr_n l + of_nat (length (fst answer))\<rparr>))"

lemma LimitedReader_ask_within:
  assumes "lr_n l \<le> lr_Limit l" and "lr_Limit l < 2 ^ 63" and "plen < 2 ^ 63" and "LimitedReader_ask plen l = Some k"
  shows "k \<le> plen" and "unat (lr_n l) + unat k \<le> unat (lr_Limit l)"
proof -
  have b: "unat (lr_n l) \<le> unat (lr_Limit l)" "unat (lr_Limit l) < 2 ^ 63" "unat plen < 2 ^ 63"
    using assms(1-3) by (simp_all add: word_le_nat_alt word_less_nat_alt)
  then have s: "unat (lr_n l + plen) = unat (lr_n l) + unat plen"
    by (intro unat_add_lem [THEN iffD1]) simp
  have d: "unat (lr_Limit l - lr_n l) = unat (lr_Limit l) - unat (lr_n l)" using assms(1) by (rule unat_sub)
  show "k \<le> plen" using assms(4) b s d by (auto simp: LimitedReader_ask_def word_le_nat_alt word_less_nat_alt split: if_splits)
  show "unat (lr_n l) + unat k \<le> unat (lr_Limit l)"
    using assms(4) b s d by (auto simp: LimitedReader_ask_def word_le_nat_alt word_less_nat_alt split: if_splits)
qed

text \<open>Reads in turn, each with the answer of the wrapped reader: the bytes handed out and the state left.\<close>

fun limited_reads :: "(64 word \<times> bytes \<times> error option) list \<Rightarrow> limited_reader \<Rightarrow> bytes \<times> limited_reader" where
  "limited_reads [] l = ([], l)"
| "limited_reads ((k, a) # rest) l =
     (let (r, l1) = LimitedReader_Read k a l; (bs, l2) = limited_reads rest l1 in (fst r @ bs, l2))"

text \<open>What \<^verbatim>\<open>io.Reader\<close> asks of the wrapped reader: no answer longer than the slice it was given.\<close>

fun answers_fit :: "(64 word \<times> bytes \<times> error option) list \<Rightarrow> limited_reader \<Rightarrow> bool" where
  "answers_fit [] l \<longleftrightarrow> True"
| "answers_fit ((k, a) # rest) l \<longleftrightarrow>
     k < 2 ^ 63 \<and> (\<forall>m \<in> set_option (LimitedReader_ask k l). length (fst a) \<le> unat m) \<and>
     answers_fit rest (snd (LimitedReader_Read k a l))"

lemma LimitedReader_Read_count:
  assumes "lr_n l \<le> lr_Limit l" and "lr_Limit l < 2 ^ 63" and "plen < 2 ^ 63"
    and "\<forall>m \<in> set_option (LimitedReader_ask plen l). length (fst a) \<le> unat m"
    and "LimitedReader_Read plen a l = (r, l1)"
  shows "unat (lr_n l1) = unat (lr_n l) + length (fst r)" and "lr_n l1 \<le> lr_Limit l1" and "lr_Limit l1 = lr_Limit l"
proof -
  show "lr_Limit l1 = lr_Limit l" using assms(5) by (auto simp: LimitedReader_Read_def split: option.splits)
  have "unat (lr_n l1) = unat (lr_n l) + length (fst r) \<and> unat (lr_n l1) \<le> unat (lr_Limit l1)"
  proof (cases "LimitedReader_ask plen l")
    case None
    then show ?thesis using assms(1,5) by (auto simp: LimitedReader_Read_def word_le_nat_alt)
  next
    case (Some k)
    have k: "unat (lr_n l) + unat k \<le> unat (lr_Limit l)" using LimitedReader_ask_within(2) [OF assms(1-3) Some] .
    moreover have "unat (lr_Limit l) < 2 ^ 63" using assms(2) by (simp add: word_less_nat_alt)
    ultimately have "length (fst a) < 2 ^ 64" "unat (lr_n l) + length (fst a) < 2 ^ 64"
      using assms(4) Some by auto
    then have "unat (lr_n l + of_nat (length (fst a))) = unat (lr_n l) + length (fst a)"
      by (simp add: unat_word_ariths unat_of_nat)
    then show ?thesis using assms(4,5) Some k by (auto simp: LimitedReader_Read_def)
  qed
  then show "unat (lr_n l1) = unat (lr_n l) + length (fst r)" "lr_n l1 \<le> lr_Limit l1" by (simp_all add: word_le_nat_alt)
qed

lemma limited_reads_bound:
  assumes "lr_n l \<le> lr_Limit l" and "lr_Limit l < 2 ^ 63" and "answers_fit as l" and "limited_reads as l = (bs, l')"
  shows "unat (lr_n l') = unat (lr_n l) + length bs \<and> lr_n l' \<le> lr_Limit l' \<and> lr_Limit l' = lr_Limit l"
  using assms
proof (induction as l arbitrary: bs l' rule: limited_reads.induct)
  case (2 k a rest l)
  obtain r l1 where r: "LimitedReader_Read k a l = (r, l1)" by (cases "LimitedReader_Read k a l")
  obtain cs l2 where c: "limited_reads rest l1 = (cs, l2)" by (cases "limited_reads rest l1")
  have b: "bs = fst r @ cs" "l' = l2" using "2.prems"(4) r c by auto
  have f: "k < 2 ^ 63" "\<forall>m \<in> set_option (LimitedReader_ask k l). length (fst a) \<le> unat m" "answers_fit rest l1"
    using "2.prems"(3) r by auto
  note h = LimitedReader_Read_count [OF "2.prems"(1,2) f(1,2) r]
  have "unat (lr_n l2) = unat (lr_n l1) + length cs \<and> lr_n l2 \<le> lr_Limit l2 \<and> lr_Limit l2 = lr_Limit l1"
    using "2.IH" [of "(r, l1)" r l1 cs l2] r h(2,3) "2.prems"(2) f(3) c by metis
  then show ?case using b h by auto
qed simp

text \<open>\<^verbatim>\<open>Skip\<close> over the answers of the reader: \<open>None\<close> while it still waits for one.\<close>

fun Skip :: "(bytes \<times> error option) list \<Rightarrow> nat \<Rightarrow> error option option" where
  "Skip answers left =
     (if left = 0 then Some None
      else case answers of
             [] \<Rightarrow> None
           | (b, Some e) # rest \<Rightarrow> Some (Some e)
           | (b, None) # rest \<Rightarrow> Skip rest (left - length b))"

declare Skip.simps [simp del]

fun skip_fits :: "(bytes \<times> error option) list \<Rightarrow> nat \<Rightarrow> bool" where
  "skip_fits [] left \<longleftrightarrow> True"
| "skip_fits ((b, e) # rest) left \<longleftrightarrow> length b \<le> min 4096 left \<and> skip_fits rest (left - length b)"

lemma Skip_all:
  "skip_fits as n \<Longrightarrow> (\<forall>a \<in> set as. snd a = None) \<Longrightarrow>
     Skip as n = (if n \<le> length (concat (map fst as)) then Some None else None)"
proof (induction as arbitrary: n)
  case (Cons a as)
  obtain b where a: "a = (b, None)" using Cons.prems(2) by (cases a) auto
  show ?case using Cons.IH [of "n - length b"] Cons.prems a by (auto simp: Skip.simps [of "(b, None) # as"])
qed (simp add: Skip.simps)

record counter = ct_n :: "64 word"

definition ReadCounter_Read :: "bytes \<times> error option \<Rightarrow> counter \<Rightarrow> (bytes \<times> error option) \<times> counter" where
  "ReadCounter_Read answer r = (answer, r\<lparr>ct_n := ct_n r + of_nat (length (fst answer))\<rparr>)"

definition ReadCounter_Total :: "counter \<Rightarrow> int" where
  "ReadCounter_Total r = sint (ct_n r)"

definition WriteCounter_Write :: "nat \<times> error option \<Rightarrow> counter \<Rightarrow> (nat \<times> error option) \<times> counter" where
  "WriteCounter_Write answer w = (answer, w\<lparr>ct_n := ct_n w + of_nat (fst answer)\<rparr>)"

definition WriteCounter_Total :: "counter \<Rightarrow> int" where
  "WriteCounter_Total w = sint (ct_n w)"

definition NilWriter_Write :: "bytes \<Rightarrow> nat \<times> error option" where
  "NilWriter_Write p = (length p, None)"

text \<open>\<^verbatim>\<open>ReadAllFrom\<close> and \<^verbatim>\<open>WriteAllTo\<close> run the targets in order over the stream \<open>s\<close> and stop at the first error.\<close>

fun WriteAllTo :: "('s \<Rightarrow> (nat \<times> error option) \<times> 's) list \<Rightarrow> 's \<Rightarrow> (nat \<times> error option) \<times> 's" where
  "WriteAllTo [] s = ((0, None), s)"
| "WriteAllTo (i # v) s =
     (case i s of
        ((m, Some e), s1) \<Rightarrow> ((m, Some e), s1)
      | ((m, None), s1) \<Rightarrow> (case WriteAllTo v s1 of ((n, err), s2) \<Rightarrow> ((m + n, err), s2)))"

definition ReadAllFrom :: "('s \<Rightarrow> (nat \<times> error option) \<times> 's) list \<Rightarrow> 's \<Rightarrow> (nat \<times> error option) \<times> 's" where
  "ReadAllFrom v s = WriteAllTo v s"

lemma WriteAllTo_append:
  "WriteAllTo (u @ v) s =
     (case WriteAllTo u s of
        ((m, Some e), s1) \<Rightarrow> ((m, Some e), s1)
      | ((m, None), s1) \<Rightarrow> (case WriteAllTo v s1 of ((n, err), s2) \<Rightarrow> ((m + n, err), s2)))"
  by (induction u arbitrary: s) (auto split: prod.splits option.splits)

end
