(* ===== verification/Properties_Apps.thy ===== *)
theory Properties_Apps
  imports App_Handler Streams
begin

text \<open>
  The properties of apps and their node: the registrar, the sessions that carry queries, the
  handler that answers them, and the writers between.
\<close>

text \<open>
  C12: however the node, the timers, the hooks and the callers of Register interleave, the registrar
  never closes its ready channel twice, and its handlers are exactly the ones whose Register was
  answered without an error, in that order.  While it serves a connection it is ready and every
  one of them is bound on that connection; the delay between attempts stays within its bounds.
  It ends only after its context ended or after a Register was answered with an error, and until
  then a node that answers gets every handler bound again.
\<close>

theorem registrar_keeps_binding:
  assumes "reg_start w" and "reg_step\<^sup>*\<^sup>* w w'"
  shows "r_phase (rw_reg w') \<noteq> PPanic \<and> r_handlers (rw_reg w') = accepted (rw_answers w') \<and>
    (r_phase (rw_reg w') = PLoop \<longrightarrow> r_ready (rw_reg w') \<and> r_bound (rw_reg w') = accepted (rw_answers w')) \<and>
    defaultMinBackoff \<le> r_delay (rw_reg w') \<and> r_delay (rw_reg w') \<le> defaultMaxBackoff \<and>
    (if r_phase (rw_reg w') = PStopped then rw_ended w' \<or> refused (rw_answers w')
     else \<exists>w''. reg_step\<^sup>*\<^sup>* w' w'' \<and> r_phase (rw_reg w'') = PLoop \<and> r_bound (rw_reg w'') = accepted (rw_answers w'))"
proof -
  have inv: "registrar_inv w'" using assms by (blast intro: reg_run_inv)
  have "r_phase (rw_reg w') \<noteq> PStopped \<Longrightarrow>
      \<exists>w''. reg_step\<^sup>*\<^sup>* w' w'' \<and> r_phase (rw_reg w'') = PLoop \<and> r_bound (rw_reg w'') = accepted (rw_answers w')"
    using reg_rebinds [OF inv] by blast
  then show ?thesis using inv by (auto simp: registrar_inv_def Let_def split: reg_phase.splits)
qed

definition sample_handler :: "64 word \<Rightarrow> app_handler" where
  "sample_handler t = \<lparr>h_endpoint = ''tcp:127.0.0.1:4000'', h_token = t\<rparr>"

definition sample_world :: reg_world where
  "sample_world = \<lparr>rw_reg = NewAppRegistrar [], rw_ended = False, rw_answers = []\<rparr>"

lemma sample_world_start: "reg_start sample_world"
  unfolding reg_start_def sample_world_def by blast

lemma registrar_keeps_binding_witness:
  "\<exists>w''. reg_step\<^sup>*\<^sup>* sample_world w'' \<and> r_phase (rw_reg w'') = PLoop \<and> r_bound (rw_reg w'') = accepted (rw_answers sample_world)"
proof -
  have "r_phase (rw_reg sample_world) \<noteq> PStopped" by (simp add: sample_world_def NewAppRegistrar_def AddRegistrationHooks_def)
  then show ?thesis using registrar_keeps_binding [OF sample_world_start rtranclp.rtrancl_refl] by simp
qed

text \<open>
  C32: a failed registration ends the registrar for good.  Whenever a registrar serves its
  connection, whatever it did before, and a Register fails with \<open>err\<close>, at the node, on the bind
  channel or in a hook, the caller is answered \<open>err\<close> and the run loop returns: in every later
  state, its context ended or not, nothing is dialled or answered any more, the handlers accepted
  before stay unbound though the registrar still lists them, and the ready channel stays closed,
  so gated queries are let through.
\<close>

theorem registrar_gives_up:
  assumes "reg_start w" and "reg_step\<^sup>*\<^sup>* w w1" and "r_phase (rw_reg w1) = PLoop"
    and "register_fails e h (r_hooks (rw_reg w1)) err"
    and "loop_register e h (rw_reg w1) = (ans, s1)"
    and "reg_step\<^sup>*\<^sup>* (w1\<lparr>rw_reg := s1, rw_answers := rw_answers w1 @ [(h, ans)]\<rparr>) w2"
  shows "ans = Some err \<and> rw_answers w2 = rw_answers w1 @ [(h, Some err)] \<and> r_phase (rw_reg w2) = PStopped \<and>
    r_handlers (rw_reg w2) = accepted (rw_answers w1) \<and> r_bound (rw_reg w2) = [] \<and> r_ready (rw_reg w2)"
proof -
  let ?w = "w1\<lparr>rw_reg := s1, rw_answers := rw_answers w1 @ [(h, ans)]\<rparr>"
  have ans: "ans = Some err" using loop_register_fails [OF assms(4)] assms(5) by simp
  have inv: "registrar_inv w1" using reg_run_inv [OF assms(2,1)] .
  then have "r_ready (rw_reg w1)" using assms(3) by (simp add: registrar_inv_def Let_def)
  then have stop: "r_phase (rw_reg ?w) = PStopped" "r_ready (rw_reg ?w)"
    using assms(5) ans by (auto elim: loop_register_cases)
  have "reg_step w1 ?w" using rs_register [OF assms(3,5)] .
  then have "registrar_inv w2" using assms(1,2,6) by (meson reg_run_inv rtranclp.rtrancl_into_rtrancl rtranclp_trans)
  then show ?thesis using reg_stopped_stays [OF assms(6) stop(1)] stop(2) ans
    by (auto simp: registrar_inv_def Let_def)
qed

definition hooked_world :: reg_world where
  "hooked_world = \<lparr>rw_reg = NewAppRegistrar [Some ''lease''], rw_ended = False, rw_answers = []\<rparr>"

lemma registrar_gives_up_witness:
  "\<exists>w1 s1. reg_step\<^sup>*\<^sup>* hooked_world w1 \<and> r_phase (rw_reg w1) = PLoop \<and>
     loop_register (env_ok\<lparr>env_hook := \<lambda>i k. Some IoEOF\<rparr>) (sample_handler 2) (rw_reg w1) = (Some IoEOF, s1) \<and> r_phase s1 = PStopped"
proof -
  let ?e = "env_ok\<lparr>env_hook := \<lambda>i k. Some IoEOF\<rparr>"
  define w1 where "w1 = hooked_world\<lparr>rw_reg := run_attempt None env_ok False (rw_reg hooked_world)\<rparr>"
  note sw = hooked_world_def NewAppRegistrar_def AddRegistrationHooks_def
  have start: "reg_start hooked_world" unfolding reg_start_def hooked_world_def by blast
  have "reg_step hooked_world w1" unfolding w1_def
    using rs_attempt [of hooked_world None env_ok] by (simp add: sw)
  then have run: "reg_step\<^sup>*\<^sup>* hooked_world w1" by simp
  have p1: "r_phase (rw_reg w1) = PLoop" "r_hooks (rw_reg w1) = [''lease'']"
    by (simp_all add: w1_def sw run_attempt_def attachAll_ok List.map_filter_simps)
  obtain ans s1 where l: "loop_register ?e (sample_handler 2) (rw_reg w1) = (ans, s1)" by fastforce
  have "register_fails ?e (sample_handler 2) (r_hooks (rw_reg w1)) IoEOF" by (simp add: register_fails_def p1 env_ok_def)
  from registrar_gives_up [OF start run p1(1) this l rtranclp.rtrancl_refl] show ?thesis using run p1(1) l by auto
qed

text \<open>
  C13: a query is sent to the node at most once, however often it is retried, and no session is
  leaked.  Over every sequence of attempts, whatever each meets, the sessions opened carry at most
  one query message; when the router returns a connection exactly one does, it carries the query
  with the session's identities as defaults, and that session is the only one still open; when it
  returns an error, or still waits, none is open.
\<close>

theorem query_sent_once:
  assumes "RetryRouter_RouteQuery maxAttempts 0 ctx q attempts r = (res, conns, r')"
  shows "length (queries_sent conns) \<le> 1 \<and>
    (case res of
       Some (Inr v) \<Rightarrow>
         queries_sent conns = [query_msg ctx v] \<and> (\<exists>s. cv_query v = default_ids s q) \<and> length (filter ic_open conns) = 1
     | _ \<Rightarrow> filter ic_open conns = [])"
  using retry_outcome [OF assms] by (simp add: settled_def)

definition sample_attempt :: attempt where
  "sample_attempt = \<lparr>at_dial = None, at_greeting = Inr (HostInfoMsg (Some ''node'') ''home''), at_endedGreet = None,
     at_sendToken = None, at_auth = Inr (AuthSuccessMsg (Some ''guest'')), at_endedAuth = None, at_send = None,
     at_answer = Inr QueryAcceptedMsg\<rparr>"

definition sample_attempts :: "(attempt \<times> error option) list" where
  "sample_attempts = [(sample_attempt\<lparr>at_dial := Some IoEOF\<rparr>, None), (sample_attempt\<lparr>at_greeting := Inl IoEOF\<rparr>, None), (sample_attempt, None)]"

lemma query_sent_once_witness:
  "\<exists>v conns r'. RetryRouter_RouteQuery 0 0 (NewContext None) (Launch 7 None None ''objects.read'') sample_attempts (NewRouter ''token'') =
       (Some (Inr v), conns, r') \<and> queries_sent conns = [query_msg (NewContext None) v] \<and> length (filter ic_open conns) = 1"
proof -
  obtain v conns r' where r: "RetryRouter_RouteQuery 0 0 (NewContext None) (Launch 7 None None ''objects.read'') sample_attempts (NewRouter ''token'') =
       (Some (Inr v), conns, r')"
    by (simp add: sample_attempts_def sample_attempt_def session_defs NewRouter_def is_unavailable_def)
  then show ?thesis using query_sent_once [OF r] by auto
qed

text \<open>
  C14: an app answers only what its node sends it.  Whatever dialers send and however connections,
  routers, targets and the handler's end interleave, each connection carries at most one answer
  and it comes first, before any byte the target writes; a query reaches the app's router, and a
  connection is acknowledged, only if its first message named the handler's token, and then with
  the caller, target and query of that message.
\<close>

theorem only_authentic_answered:
  assumes "app_step\<^sup>*\<^sup>* (newHandler token) h" and "c \<in> set (aw_conns h)"
  shows "length (filter is_answer (ac_wire c)) \<le> 1 \<and> (ac_wire c \<noteq> [] \<longrightarrow> is_answer (hd (ac_wire c))) \<and>
    (ReplyAck \<in> set (ac_wire c) \<longrightarrow> (\<exists>q. authentic token c q)) \<and>
    (\<forall>q. ac_state c = Offered q \<or> ac_state c = Taken q \<or> ac_state c = Serving q \<longrightarrow> authentic token c q)"
proof -
  have "conn_inv token c" using app_run_inv [OF assms(1)] assms(2) by (auto simp: app_inv_def)
  then show ?thesis using conn_inv_answers [of token c] by (auto simp: conn_inv_def split: conn_state.splits)
qed

lemma only_authentic_answered_witness:
  "\<exists>h c. app_step\<^sup>*\<^sup>* (newHandler 5) h \<and> c \<in> set (aw_conns h) \<and> ReplyAck \<in> set (ac_wire c) \<and> (\<exists>q. authentic 5 c q)"
proof -
  define m :: "first_msg res" where "m = Inr (HandleQueryMsg 5 9 None None ''ping'')"
  define q where "q = Launch 9 None None ''ping''"
  define h1 where "h1 = Handler_accept None (newHandler 5)"
  define c1 where "c1 = conn_intake 5 m accepted_conn"
  define h2 where "h2 = h1\<lparr>aw_conns := [c1]\<rparr>"
  have "app_step (newHandler 5) h1" unfolding h1_def by (rule as_accept) (simp add: newHandler_def)
  moreover have "conn_step 5 False accepted_conn c1" unfolding c1_def by (rule cs_intake) (simp add: accepted_conn_def)
  then have "app_step h1 h2"
    using as_conn [of 0 h1 c1] by (simp add: h1_def h2_def Handler_accept_def newHandler_def)
  moreover have c1: "ac_state c1 = Offered q" "ac_wire c1 = []"
    by (simp_all add: c1_def conn_intake_def intake_def m_def q_def accepted_conn_def)
  then obtain h3 where h3: "app_step\<^sup>*\<^sup>* h2 h3" "ac_wire (aw_conns h3 ! 0) = [fst (route_reply (Inr () :: unit answer))]"
    using offered_answered [of 0 h2 q "Inr () :: unit answer"] by (auto simp: h2_def)
  ultimately have run: "app_step\<^sup>*\<^sup>* (newHandler 5) h3" by (meson converse_rtranclp_into_rtranclp)
  have len: "length (aw_conns a) \<le> length (aw_conns b)" if "app_step\<^sup>*\<^sup>* a b" for a b
    using that
  proof (induction rule: rtranclp_induct)
    case (step y z)
    from step.hyps(2) step.IH show ?case by cases (auto simp: Handler_accept_def Handler_Close_def)
  qed simp
  have "aw_conns h3 ! 0 \<in> set (aw_conns h3)" using len [OF h3(1)] by (simp add: h2_def nth_mem Suc_le_eq)
  moreover have "ReplyAck \<in> set (ac_wire (aw_conns h3 ! 0))" using h3(2) by (simp add: route_reply_def PendingQuery_Accept_def)
  ultimately show ?thesis using only_authentic_answered [OF run] run by blast
qed

text \<open>
  C21: an AsyncWriter hands on what it accepted.  In every state its callers and its flusher reach,
  what went out is a prefix of what was accepted, and unless the wrapped writer failed the rest is
  still held, so nothing is lost, repeated or reordered; the buffer's count is the bytes queued; a
  caller asleep in Sync that could return is one the exiting flusher still wakes; and while the
  wrapped writer takes what it is given the flusher can always empty the buffer.
\<close>

theorem async_writer_delivers:
  assumes "aw_start s" and "aw_step\<^sup>*\<^sup>* s s'"
  shows "prefix (aw_out s') (aw_accepted s') \<and>
    (aw_writeErr s' = None \<longrightarrow> aw_accepted s' = aw_out s' @ aw_held s') \<and>
    AsyncWriter_Used s' = int (length (concat (aw_chunks s'))) \<and>
    (aw_sleeping s' \<longrightarrow> AsyncWriter_Sync s' = None \<or> aw_flusher s' = FExit) \<and>
    (aw_flusher s' = FLoop \<longrightarrow>
      (\<exists>s''. aw_step\<^sup>*\<^sup>* s' s'' \<and> aw_chunks s'' = [] \<and> aw_accepted s'' = aw_accepted s' \<and> aw_out s'' = aw_accepted s'))"
proof -
  have inv: "aw_inv s'" by (rule awc.run_sound [OF assms(2) awc.start_sound [OF assms(1)]])
  have "\<exists>s''. aw_step\<^sup>*\<^sup>* s' s'' \<and> aw_chunks s'' = [] \<and> aw_accepted s'' = aw_accepted s' \<and> aw_out s'' = aw_accepted s'"
    if "aw_flusher s' = FLoop"
    using flush_all [OF that] inv that by (auto simp: aw_inv_def aw_held_def)
  then show ?thesis
    using awc.given_within [OF inv] awc.conserves [OF inv] inv by (auto simp: aw_inv_def AsyncWriter_Used_def)
qed

lemma async_writer_delivers_witness:
  "\<exists>s s'. aw_start s \<and> aw_step\<^sup>*\<^sup>* s s' \<and> aw_accepted s' = [1, 2, 3] \<and> aw_accepted s' = aw_out s' @ aw_held s'"
proof -
  define s where "s = async_writer.extend (NewAsyncWriter 10) \<lparr>aw_accepted = [], aw_sleeping = False\<rparr>"
  define s1 where "s1 = s\<lparr>aw_chunks := [[1, 2, 3]], aw_used := 3, aw_accepted := [1, 2, 3 :: byte]\<rparr>"
  have st: "aw_start s" unfolding aw_start_def s_def by blast
  have "AsyncWriter_Write [1, 2, 3] s = ((3, None), s\<lparr>aw_chunks := [[1, 2, 3]], aw_used := 3\<rparr>)"
    by (simp add: AsyncWriter_Write_def s_def NewAsyncWriter_def async_writer.defs)
  from aw_write [OF this] have run: "aw_step\<^sup>*\<^sup>* s s1"
    by (simp add: s1_def s_def NewAsyncWriter_def async_writer.defs)
  have "aw_writeErr s1 = None" by (simp add: s1_def s_def NewAsyncWriter_def async_writer.defs)
  then show ?thesis using async_writer_delivers [OF st run] st run by (intro exI [of _ s] exI [of _ s1]) (simp add: s1_def)
qed

end
