(* ===== verification/Tree_Nodes.thy ===== *)
theory Tree_Nodes
  imports Go_Prelude
begin

text \<open>
  The tree of named values: \<^verbatim>\<open>src/api/tree/node.go\<close>, \<^verbatim>\<open>value.go\<close>, \<^verbatim>\<open>client/node.go\<close> and
  \<^verbatim>\<open>client/server.go\<close>.  What a node of the tree does is a parameter (the store behind it is not in
  this repository); paths of client nodes are Go slices in an explicit store, since appending to
  one may write into an array that another node's path shares.
\<close>

subsection \<open>Slices of strings\<close>

text \<open>
  A slice is an array's number, a length and a capacity.  Appending one element writes in place
  while there is capacity, and otherwise copies into a new array of twice the capacity, which is
  how Go grows slices of up to 256 strings.
\<close>

record slice =
  sl_arr :: nat
  sl_len :: nat
  sl_cap :: nat

type_synonym store = "string list list"

definition read_slice :: "store \<Rightarrow> slice \<Rightarrow> string list" where
  "read_slice st s = take (sl_len s) (st ! sl_arr s)"

definition newcap :: "nat \<Rightarrow> nat" where
  "newcap c = (if c = 0 then 1 else 2 * c)"

definition go_append :: "slice \<Rightarrow> string \<Rightarrow> store \<Rightarrow> slice \<times> store" where
  "go_append s x st =
     (if sl_len s < sl_cap s
      then (s\<lparr>sl_len := sl_len s + 1\<rparr>, st[sl_arr s := (st ! sl_arr s)[sl_len s := x]])
      else (\<lparr>sl_arr = length st, sl_len = sl_len s + 1, sl_cap = newcap (sl_cap s)\<rparr>,
            st @ [read_slice st s @ x # replicate (newcap (sl_cap s) - sl_len s - 1) []]))"

definition slice_ok :: "store \<Rightarrow> slice \<Rightarrow> bool" where
  "slice_ok st s \<longleftrightarrow> sl_arr s < length st \<and> length (st ! sl_arr s) = sl_cap s \<and> sl_len s \<le> sl_cap s"

lemma go_append_reads:
  assumes "slice_ok st s" and "go_append s x st = (s', st')"
  shows "read_slice st' s' = read_slice st s @ [x]" and "slice_ok st' s'" and "length st \<le> length st'"
  using assms by (auto simp: go_append_def slice_ok_def read_slice_def newcap_def take_Suc_conv_app_nth nth_append split: if_splits)

lemma go_append_fresh:
  assumes "slice_ok st s" and "go_append s x st = (s', st')" and "slice_ok st t" and "sl_len s = sl_cap s"
  shows "read_slice st' t = read_slice st t" and "slice_ok st' t"
  using assms by (auto simp: go_append_def slice_ok_def read_slice_def nth_append)

subsection \<open>Client nodes\<close>

definition Client_Root :: "store \<Rightarrow> slice \<times> store" where
  "Client_Root st = (\<lparr>sl_arr = length st, sl_len = 0, sl_cap = 0\<rparr>, st @ [[]])"

definition Node_Name :: "store \<Rightarrow> slice \<Rightarrow> string" where
  "Node_Name st path = (if sl_len path = 0 then [] else last (read_slice st path))"

definition Node_Path :: "store \<Rightarrow> slice \<Rightarrow> string" where
  "Node_Path st path = ''/'' @ Join (read_slice st path) ''/''"

text \<open>The names the node lists, in the order they arrive; a later entry of a name replaces an earlier one.\<close>

fun Node_Sub :: "slice \<Rightarrow> string list \<Rightarrow> store \<Rightarrow> (string \<times> slice) list \<times> store" where
  "Node_Sub path [] st = ([], st)"
| "Node_Sub path (msg # msgs) st =
     (let (s, st1) = go_append path msg st; (subs, st2) = Node_Sub path msgs st1 in ((msg, s) # subs, st2))"

text \<open>\<^verbatim>\<open>Create\<close> appends twice: for the path it sends, and for the node it returns.\<close>

definition Node_Create :: "slice \<Rightarrow> string \<Rightarrow> error option \<Rightarrow> store \<Rightarrow> (string \<times> slice res) \<times> store" where
  "Node_Create path name answer st =
     (let (s, st1) = go_append path name st;
          newPath = ''/'' @ Join (read_slice st1 s) ''/''
      in case answer of
           Some err \<Rightarrow> ((newPath, Inl err), st1)
         | None \<Rightarrow> (let (s2, st2) = go_append path name st1 in ((newPath, Inr s2), st2)))"

text \<open>The reply to a set or a delete.\<close>

datatype tree_reply = TreeAck | TreeError string | TreeOther string

definition Node_Set_reply :: "tree_reply res \<Rightarrow> error option" where
  "Node_Set_reply recv =
     (case recv of
        Inr TreeAck \<Rightarrow> None
      | Inl err \<Rightarrow> Some err
      | Inr (TreeError m) \<Rightarrow> Some (ErrMsg m)
      | Inr (TreeOther t) \<Rightarrow> Some (ErrMsg (''unexpected object: '' @ t)))"

lemma Node_Sub_keeps:
  assumes "slice_ok st path" and "Node_Sub path msgs st = (subs, st')"
  shows "slice_ok st' path \<and> length st \<le> length st' \<and> read_slice st' path = read_slice st path"
  using assms
proof (induction msgs arbitrary: st subs)
  case (Cons m ms)
  obtain s st1 where s: "go_append path m st = (s, st1)" by (cases "go_append path m st")
  obtain subs2 where r: "Node_Sub path ms st1 = (subs2, st')" using Cons.prems(2) s by (auto simp: split_def Let_def prod_eq_iff)
  have "slice_ok st1 path \<and> length st \<le> length st1 \<and> read_slice st1 path = read_slice st path"
    using Cons.prems(1) s by (auto simp: go_append_def slice_ok_def read_slice_def nth_append split: if_splits)
  then show ?case using Cons.IH [OF _ r] by auto
qed auto

text \<open>With spare capacity every child's path ends with the name listed last.\<close>

lemma Node_Sub_clobbered:
  assumes "slice_ok st path" and "sl_len path < sl_cap path" and "Node_Sub path msgs st = (subs, st')" and "msgs \<noteq> []"
  shows "map fst subs = msgs \<and> (\<forall>s \<in> set (map snd subs). read_slice st' s = read_slice st path @ [last msgs])"
  using assms
proof (induction msgs arbitrary: st subs)
  case (Cons m ms)
  define s where "s = path\<lparr>sl_len := sl_len path + 1\<rparr>"
  define st1 where "st1 = st[sl_arr path := (st ! sl_arr path)[sl_len path := m]]"
  have a: "go_append path m st = (s, st1)" using Cons.prems(2) by (simp add: go_append_def s_def st1_def)
  obtain subs2 where r: "Node_Sub path ms st1 = (subs2, st')" and e: "subs = (m, s) # subs2"
    using Cons.prems(3) a by (cases "Node_Sub path ms st1") auto
  have ok: "slice_ok st1 path" "read_slice st1 path = read_slice st path" "read_slice st1 s = read_slice st path @ [m]"
    using Cons.prems(1,2) by (auto simp: slice_ok_def st1_def read_slice_def s_def take_Suc_conv_app_nth)
  show ?case
  proof (cases "ms = []")
    case True
    then show ?thesis using r e ok(3) by simp
  next
    case False
    note ih = Cons.IH [OF ok(1) Cons.prems(2) r False]
    moreover have "s \<in> set (map snd subs2)"
      using r False Cons.prems(2) by (cases ms) (auto simp: go_append_def s_def Let_def split: prod.splits)
    ultimately show ?thesis using e ok(2) False by auto
  qed
qed simp

text \<open>Without, every child has its own array and the path it should have.\<close>

lemma Node_Sub_fresh:
  assumes "slice_ok st path" and "sl_len path = sl_cap path" and "Node_Sub path msgs st = (subs, st')" and "slice_ok st t"
  shows "map fst subs = msgs \<and> (\<forall>(m, s) \<in> set subs. read_slice st' s = read_slice st path @ [m] \<and> slice_ok st' s) \<and>
    read_slice st' t = read_slice st t \<and> slice_ok st' t"
  using assms(1,3,4)
proof (induction msgs arbitrary: st subs t)
  case (Cons m ms)
  obtain s st1 where a: "go_append path m st = (s, st1)" by (cases "go_append path m st")
  obtain subs2 where r: "Node_Sub path ms st1 = (subs2, st')" and e: "subs = (m, s) # subs2"
    using Cons.prems(2) a by (cases "Node_Sub path ms st1") auto
  note ra = go_append_reads [OF Cons.prems(1) a]
  note p = go_append_fresh [OF Cons.prems(1) a Cons.prems(1) assms(2)]
  note t = go_append_fresh [OF Cons.prems(1) a Cons.prems(3) assms(2)]
  show ?case using Cons.IH [OF p(2) r ra(2)] Cons.IH [OF p(2) r t(2)] e p(1) ra(1) t(1) by auto
qed simp

text \<open>The node reached from the root by listing: at each level the child wanted is the only one asked for here.\<close>

fun walk :: "string list \<Rightarrow> slice \<Rightarrow> store \<Rightarrow> slice \<times> store" where
  "walk [] path st = (path, st)"
| "walk (n # ns) path st = (let (s, st1) = go_append path n st in walk ns s st1)"

subsection \<open>Walking a path\<close>

text \<open>
  The tree behind \<^verbatim>\<open>Query\<close>: \<open>nsub\<close> lists the subnodes of a node, \<open>ncreate\<close> adds one and answers
  \<open>ErrAlreadyExists\<close> when there is one; \<open>others\<close> is what concurrent callers do to the tree between
  two of these calls.
\<close>

definition ErrAlreadyExists :: error where "ErrAlreadyExists = ErrMsg ''node already exists''"

definition querySub ::
  "('w \<Rightarrow> 'n \<Rightarrow> (string \<rightharpoonup> 'n) res) \<Rightarrow> ('w \<Rightarrow> 'n \<Rightarrow> string \<Rightarrow> 'n res \<times> 'w) \<Rightarrow> ('w \<Rightarrow> 'w) \<Rightarrow> 'w \<Rightarrow> 'n \<Rightarrow> string \<Rightarrow> bool \<Rightarrow> 'n option res \<times> 'w" where
  "querySub nsub ncreate others w node name create =
     (case nsub w node of
        Inl err \<Rightarrow> (Inl err, w)
      | Inr subs \<Rightarrow>
          if subs name \<noteq> None \<or> \<not> create then (Inr (subs name), w)
          else
            let w = others w
            in (case ncreate w node name of
                  (Inr sub, w) \<Rightarrow> (Inr (Some sub), w)
                | (Inl err, w) \<Rightarrow>
                    if err \<noteq> ErrAlreadyExists then (Inl err, w)
                    else
                      let w = others w
                      in (case nsub w node of
                            Inl err \<Rightarrow> (Inl err, w)
                          | Inr subs \<Rightarrow> (case subs name of Some sub \<Rightarrow> (Inr (Some sub), w) | None \<Rightarrow> (Inl ErrAlreadyExists, w)))))"

definition TrimPrefix :: "string \<Rightarrow> char \<Rightarrow> string" where
  "TrimPrefix s c = (case s of [] \<Rightarrow> [] | x # xs \<Rightarrow> if x = c then xs else s)"

fun query_segments ::
  "('w \<Rightarrow> 'n \<Rightarrow> (string \<rightharpoonup> 'n) res) \<Rightarrow> ('w \<Rightarrow> 'n \<Rightarrow> string \<Rightarrow> 'n res \<times> 'w) \<Rightarrow> ('w \<Rightarrow> 'w) \<Rightarrow> bool \<Rightarrow> 'w \<Rightarrow> string list \<Rightarrow> string list \<Rightarrow> 'n \<Rightarrow> 'n res \<times> 'w" where
  "query_segments nsub ncreate others create w pwd [] node = (Inr node, w)"
| "query_segments nsub ncreate others create w pwd (s # seg) node =
     (if s = [] then query_segments nsub ncreate others create w pwd seg node
      else case querySub nsub ncreate others w node s create of
             (Inl err, w) \<Rightarrow> (Inl err, w)
           | (Inr None, w) \<Rightarrow> (Inl (ErrMsg (''node '' @ s @ '' not found in /'' @ Join pwd ''/'')), w)
           | (Inr (Some n), w) \<Rightarrow> query_segments nsub ncreate others create w (pwd @ [s]) seg n)"

definition Query ::
  "('w \<Rightarrow> 'n \<Rightarrow> (string \<rightharpoonup> 'n) res) \<Rightarrow> ('w \<Rightarrow> 'n \<Rightarrow> string \<Rightarrow> 'n res \<times> 'w) \<Rightarrow> ('w \<Rightarrow> 'w) \<Rightarrow> 'w \<Rightarrow> 'n \<Rightarrow> string \<Rightarrow> bool \<Rightarrow> 'n res \<times> 'w" where
  "Query nsub ncreate others w root path create =
     query_segments nsub ncreate others create w [] (Split CHR ''/'' (TrimPrefix path CHR ''/'')) root"

text \<open>
  What the code relies on of the tree behind it: listing shows what is there, creating adds or
  reports what is there, and others only add.
\<close>

definition store_laws ::
  "('w \<Rightarrow> 'n \<Rightarrow> string \<rightharpoonup> 'n) \<Rightarrow> ('w \<Rightarrow> 'n \<Rightarrow> (string \<rightharpoonup> 'n) res) \<Rightarrow> ('w \<Rightarrow> 'n \<Rightarrow> string \<Rightarrow> 'n res \<times> 'w) \<Rightarrow> ('w \<Rightarrow> 'w) \<Rightarrow> bool" where
  "store_laws kids nsub ncreate others \<longleftrightarrow>
     (\<forall>w n. nsub w n = Inr (kids w n)) \<and>
     (\<forall>w n s. if kids w n s = None then \<exists>c w'. ncreate w n s = (Inr c, w') \<and> kids w' n s = Some c \<and> (\<forall>m. kids w m \<subseteq>\<^sub>m kids w' m)
              else ncreate w n s = (Inl ErrAlreadyExists, w)) \<and>
     (\<forall>w n. kids w n \<subseteq>\<^sub>m kids (others w) n)"

fun reaches :: "('w \<Rightarrow> 'n \<Rightarrow> string \<rightharpoonup> 'n) \<Rightarrow> 'w \<Rightarrow> 'n \<Rightarrow> string list \<Rightarrow> 'n option" where
  "reaches kids w n [] = Some n"
| "reaches kids w n (s # ss) = (case kids w n s of None \<Rightarrow> None | Some c \<Rightarrow> reaches kids w c ss)"

lemma reaches_mono: "(\<And>m. kids w m \<subseteq>\<^sub>m kids w' m) \<Longrightarrow> reaches kids w n ss = Some c \<Longrightarrow> reaches kids w' n ss = Some c"
proof (induction ss arbitrary: n)
  case (Cons s ss)
  then obtain d where d: "kids w n s = Some d" "reaches kids w d ss = Some c" by (auto split: option.splits)
  then have "kids w' n s = Some d" using Cons.prems(1) [of n] by (auto simp: map_le_def dom_def)
  then show ?case using d Cons by simp
qed simp

lemma map_le_Some: "m \<subseteq>\<^sub>m m' \<Longrightarrow> m k = Some v \<Longrightarrow> m' k = Some v"
  by (metis domI map_le_def)

text \<open>With \<^verbatim>\<open>create\<close>, whatever others do meanwhile, the subnode is there afterwards and is the one returned.\<close>

lemma querySub_creates:
  assumes "store_laws kids nsub ncreate others"
  shows "\<exists>c w'. querySub nsub ncreate others w n s True = (Inr (Some c), w') \<and> kids w' n s = Some c \<and> (\<forall>m. kids w m \<subseteq>\<^sub>m kids w' m)"
proof (cases "kids w n s")
  case (Some c)
  then show ?thesis using assms by (simp add: querySub_def store_laws_def)
next
  case None
  define w1 where "w1 = others w"
  have sub: "\<And>v m. nsub v m = Inr (kids v m)" and le: "\<And>v m. kids v m \<subseteq>\<^sub>m kids (others v) m"
    using assms by (simp_all add: store_laws_def)
  show ?thesis
  proof (cases "kids w1 n s")
    case none: None
    then obtain c w2 where c: "ncreate w1 n s = (Inr c, w2)" "kids w2 n s = Some c" "\<And>m. kids w1 m \<subseteq>\<^sub>m kids w2 m"
      using assms unfolding store_laws_def by metis
    have "querySub nsub ncreate others w n s True = (Inr (Some c), w2)" using None sub c(1) by (simp add: querySub_def w1_def)
    moreover have "\<forall>m. kids w m \<subseteq>\<^sub>m kids w2 m" using le [of w] c(3) unfolding w1_def by (meson map_le_trans)
    ultimately show ?thesis using c(2) by blast
  next
    case (Some c)
    then have e: "ncreate w1 n s = (Inl ErrAlreadyExists, w1)" using assms unfolding store_laws_def by (metis option.distinct(1))
    have k: "kids (others w1) n s = Some c" using le [of w1 n] Some by (rule map_le_Some)
    have "querySub nsub ncreate others w n s True = (Inr (Some c), others w1)"
      using None sub e k by (simp add: querySub_def w1_def)
    moreover have "\<forall>m. kids w m \<subseteq>\<^sub>m kids (others w1) m" using le [of w] le [of w1] unfolding w1_def by (meson map_le_trans)
    ultimately show ?thesis using k by blast
  qed
qed

lemma query_segments_creates:
  assumes "store_laws kids nsub ncreate others"
  shows "\<exists>c w'. query_segments nsub ncreate others True w pwd ss n = (Inr c, w') \<and>
    reaches kids w' n (filter (\<lambda>s. s \<noteq> []) ss) = Some c \<and> (\<forall>m. kids w m \<subseteq>\<^sub>m kids w' m)"
proof (induction ss arbitrary: w pwd n)
  case (Cons s ss)
  show ?case
  proof (cases "s = []")
    case True
    then show ?thesis using Cons.IH [of w pwd n] by simp
  next
    case False
    obtain c w1 where c: "querySub nsub ncreate others w n s True = (Inr (Some c), w1)" "kids w1 n s = Some c" "\<And>m. kids w m \<subseteq>\<^sub>m kids w1 m"
      using querySub_creates [OF assms, of w n s] by blast
    obtain d w2 where d: "query_segments nsub ncreate others True w1 (pwd @ [s]) ss c = (Inr d, w2)"
      "reaches kids w2 c (filter (\<lambda>s. s \<noteq> []) ss) = Some d" "\<And>m. kids w1 m \<subseteq>\<^sub>m kids w2 m"
      using Cons.IH [of w1 "pwd @ [s]" c] by blast
    have "kids w2 n s = Some c" using d(3) c(2) by (rule map_le_Some)
    then show ?thesis using False c d map_le_trans by (simp, blast)
  qed
qed simp

lemma query_segments_finds:
  assumes "\<And>v m. nsub v m = Inr (kids v m)"
  shows "\<exists>err. query_segments nsub ncreate others False w pwd ss n =
    (case reaches kids w n (filter (\<lambda>s. s \<noteq> []) ss) of Some c \<Rightarrow> (Inr c, w) | None \<Rightarrow> (Inl err, w))"
proof (induction ss arbitrary: pwd n)
  case (Cons s ss)
  show ?case
  proof (cases "s = []")
    case True
    then show ?thesis using Cons.IH [of pwd n] by simp
  next
    case False
    then show ?thesis using Cons.IH [of "pwd @ [s]" "the (kids w n s)"] by (cases "kids w n s") (auto simp: querySub_def assms)
  qed
qed simp

text \<open>A client node's path, sent as text, is read by the server as the same segments.\<close>

lemma Query_Path:
  assumes "\<forall>s \<in> set (read_slice st path). s \<noteq> [] \<and> CHR ''/'' \<notin> set s"
  shows "Query nsub ncreate others w root (Node_Path st path) create =
    query_segments nsub ncreate others create w [] (if read_slice st path = [] then [[]] else read_slice st path) root"
  using assms Split_Join [of "read_slice st path"] by (simp add: Query_def Node_Path_def TrimPrefix_def)

subsection \<open>Typed values bound to a node\<close>

text \<open>
  An object as \<^verbatim>\<open>Value\<close> sees it: \<^verbatim>\<open>astral.Nil\<close>, one of its type \<open>T\<close>, or one of another type; the zero
  of \<open>T\<close> is \<open>None\<close>.  The queue is the list of what was pushed for followers.
\<close>

datatype 'a tobject = TNil | TVal 'a | TForeign string

record 'a tvalue =
  tv_bound :: bool
  tv_cached :: "'a option"
  tv_pushed :: "'a option list"
  tv_NoLocal :: bool

definition NewValue :: "bool \<Rightarrow> 'a tvalue" where
  "NewValue noLocal = \<lparr>tv_bound = False, tv_cached = None, tv_pushed = [], tv_NoLocal = noLocal\<rparr>"

definition tv_update :: "'a tobject \<Rightarrow> bool \<Rightarrow> 'a tvalue \<Rightarrow> bool \<times> 'a tvalue" where
  "tv_update val push value =
     (case val of
        TNil \<Rightarrow> (False, value\<lparr>tv_cached := None, tv_pushed := tv_pushed value @ (if push then [None] else [])\<rparr>)
      | TVal a \<Rightarrow> (True, value\<lparr>tv_cached := Some a, tv_pushed := tv_pushed value @ (if push then [Some a] else [])\<rparr>)
      | TForeign t \<Rightarrow> (False, value\<lparr>tv_cached := None\<rparr>))"

definition tv_apply :: "'a tobject \<Rightarrow> 'a tvalue \<Rightarrow> 'a tvalue" where
  "tv_apply val value = snd (tv_update val True value)"

definition tv_clear :: "'a tvalue \<Rightarrow> 'a tvalue" where
  "tv_clear value = value\<lparr>tv_cached := None, tv_pushed := tv_pushed value @ [None]\<rparr>"

text \<open>The answer of the node: an error, or the first object on the channel it follows.\<close>

definition TValue_Bind :: "'a tobject res \<Rightarrow> 'a tvalue \<Rightarrow> error option \<times> 'a tvalue" where
  "TValue_Bind answer value =
     (let value = value\<lparr>tv_bound := True\<rparr>
      in case answer of
           Inl err \<Rightarrow> (Some err, value)
         | Inr first \<Rightarrow> (None, snd (tv_update first False value)))"

definition TValue_Get :: "'a tvalue \<Rightarrow> 'a option" where
  "TValue_Get value = tv_cached value"

text \<open>\<open>answer\<close> is what the node's Set returns.\<close>

definition TValue_Set :: "error option \<Rightarrow> 'a \<Rightarrow> 'a tvalue \<Rightarrow> error option \<times> 'a tvalue" where
  "TValue_Set answer v value =
     (let err = (if tv_bound value then answer else None)
      in if tv_bound value \<and> answer = None then (None, snd (tv_update (TVal v) False value))
         else if tv_NoLocal value then (err, value)
         else (None, snd (tv_update (TVal v) True value)))"

definition TValue_Clear :: "error option \<Rightarrow> 'a tvalue \<Rightarrow> error option \<times> 'a tvalue" where
  "TValue_Clear answer value =
     (if tv_bound value \<and> answer = None then (None, value)
      else if tv_bound value \<and> tv_NoLocal value then (answer, value)
      else (None, tv_clear value))"

text \<open>
  A value with the node behind it and the notifications still on their way, oldest first.  The node
  takes what it accepts, from this value or from others, and notifies the value of it in that order.
  The last four fields record the run: what the node took since Bind, the last thing the value was
  told (by Bind, by an own write that took effect, or by a notification), whether that was a write
  the node had refused, and whether there ever was such a write.
\<close>

record 'a bound_value =
  bv_value :: "'a tvalue"
  bv_node :: "'a tobject"
  bv_pending :: "'a tobject list"
  bv_history :: "'a tobject list"
  bv_last :: "'a option"
  bv_drift :: bool
  bv_fell :: bool

definition cast :: "'a tobject \<Rightarrow> 'a option" where
  "cast obj = (case obj of TVal a \<Rightarrow> Some a | _ \<Rightarrow> None)"

definition newly_bound :: "'a tobject \<Rightarrow> 'a tvalue \<Rightarrow> 'a bound_value" where
  "newly_bound obj x =
     \<lparr>bv_value = x, bv_node = obj, bv_pending = [], bv_history = [], bv_last = cast obj, bv_drift = False, bv_fell = False\<rparr>"

definition node_takes :: "'a tobject \<Rightarrow> 'a bound_value \<Rightarrow> 'a bound_value" where
  "node_takes obj b = b\<lparr>bv_node := obj, bv_pending := bv_pending b @ [obj], bv_history := bv_history b @ [obj]\<rparr>"

text \<open>A write the node refuses: without the local fallback nothing happens to the value.\<close>

definition falls_back :: "'a option \<Rightarrow> 'a bound_value \<Rightarrow> 'a bound_value" where
  "falls_back r b = (if tv_NoLocal (bv_value b) then b else b\<lparr>bv_last := r, bv_drift := True, bv_fell := True\<rparr>)"

inductive bv_step :: "'a bound_value \<Rightarrow> 'a bound_value \<Rightarrow> bool" where
  bv_set: "TValue_Set None v (bv_value b) = (r, x) \<Longrightarrow>
     bv_step b ((node_takes (TVal v) b)\<lparr>bv_value := x, bv_last := Some v, bv_drift := False\<rparr>)"
| bv_clear: "TValue_Clear None (bv_value b) = (r, x) \<Longrightarrow> bv_step b ((node_takes TNil b)\<lparr>bv_value := x\<rparr>)"
| bv_remote: "bv_step b (node_takes obj b)"
| bv_notify: "bv_pending b = obj # rest \<Longrightarrow>
     bv_step b (b\<lparr>bv_value := tv_apply obj (bv_value b), bv_pending := rest, bv_last := cast obj, bv_drift := False\<rparr>)"
| bv_set_refused: "TValue_Set (Some err) v (bv_value b) = (r, x) \<Longrightarrow> bv_step b ((falls_back (Some v) b)\<lparr>bv_value := x\<rparr>)"
| bv_clear_refused: "TValue_Clear (Some err) (bv_value b) = (r, x) \<Longrightarrow> bv_step b ((falls_back None b)\<lparr>bv_value := x\<rparr>)"

text \<open>What a follower hears of a notification: nothing when it is of another type.\<close>

definition heard :: "'a tobject list \<Rightarrow> 'a option list" where
  "heard objs = map cast (filter (\<lambda>obj. case obj of TForeign t \<Rightarrow> False | _ \<Rightarrow> True) objs)"

lemma heard_append [simp]: "heard (xs @ ys) = heard xs @ heard ys"
  by (simp add: heard_def)

definition bv_inv :: "'a option list \<Rightarrow> 'a bound_value \<Rightarrow> bool" where
  "bv_inv before b \<longleftrightarrow> tv_bound (bv_value b) \<and> TValue_Get (bv_value b) = bv_last b \<and>
     (if bv_pending b = [] then bv_drift b \<or> bv_last b = cast (bv_node b) else last (bv_pending b) = bv_node b) \<and>
     (\<not> bv_fell b \<longrightarrow> \<not> bv_drift b \<and> tv_pushed (bv_value b) @ heard (bv_pending b) = before @ heard (bv_history b))"

lemma tv_apply_simps:
  "tv_cached (tv_apply obj v) = cast obj" "tv_bound (tv_apply obj v) = tv_bound v"
  "tv_pushed (tv_apply obj v) = tv_pushed v @ heard [obj]"
  by (cases obj; simp add: tv_apply_def tv_update_def cast_def heard_def)+

lemma bv_step_inv: "bv_step b b' \<Longrightarrow> bv_inv before b \<Longrightarrow> bv_inv before b'"
proof (induction rule: bv_step.induct)
  case (bv_notify b obj rest)
  have "heard (obj # rest) = heard [obj] @ heard rest" by (simp flip: heard_append)
  then show ?case using bv_notify by (auto simp: bv_inv_def TValue_Get_def tv_apply_simps split: if_splits)
next
  case (bv_set v b r x)
  then show ?case by (auto simp: bv_inv_def TValue_Set_def TValue_Get_def tv_update_def node_takes_def Let_def)
next
  case (bv_clear b r x)
  then show ?case by (auto simp: bv_inv_def TValue_Clear_def node_takes_def)
next
  case (bv_set_refused err v b r x)
  then show ?case
    by (auto simp: bv_inv_def TValue_Set_def TValue_Get_def tv_update_def falls_back_def Let_def split: if_splits)
next
  case (bv_clear_refused err b r x)
  then show ?case
    by (auto simp: bv_inv_def TValue_Clear_def TValue_Get_def tv_clear_def falls_back_def split: if_splits)
qed (auto simp: bv_inv_def node_takes_def)

lemma bv_run_inv: "bv_step\<^sup>*\<^sup>* b b' \<Longrightarrow> bv_inv before b \<Longrightarrow> bv_inv before b'"
  by (induction rule: rtranclp_induct) (auto intro: bv_step_inv)

lemma TValue_Bind_inv: "TValue_Bind (Inr obj) v = (None, x) \<Longrightarrow> bv_inv (tv_pushed v) (newly_bound obj x)"
  by (cases obj) (auto simp: TValue_Bind_def TValue_Get_def tv_update_def bv_inv_def cast_def heard_def newly_bound_def Let_def)

text \<open>The notifications can always be applied; the last of them says what the value reads.\<close>

lemma bv_drains:
  "\<exists>b'. bv_step\<^sup>*\<^sup>* b b' \<and> bv_pending b' = [] \<and> bv_node b' = bv_node b \<and> bv_history b' = bv_history b \<and>
     bv_drift b' = (bv_drift b \<and> bv_pending b = [])"
proof (induction "bv_pending b" arbitrary: b)
  case Nil
  then show ?case by (intro exI [of _ b]) simp
next
  case (Cons obj rest)
  define b1 where "b1 = b\<lparr>bv_value := tv_apply obj (bv_value b), bv_pending := rest, bv_last := cast obj, bv_drift := False\<rparr>"
  have s: "bv_step b b1" unfolding b1_def by (rule bv_notify) (use Cons.hyps(2) in simp)
  obtain b' where "bv_step\<^sup>*\<^sup>* b1 b'" "bv_pending b' = []" "bv_node b' = bv_node b1" "bv_history b' = bv_history b1" "\<not> bv_drift b'"
    using Cons.hyps(1) [of b1] by (auto simp: b1_def)
  then show ?case using s Cons.hyps(2) [symmetric] by (intro exI [of _ b']) (auto simp: b1_def)
qed

text \<open>\<^verbatim>\<open>tree.Get\<close> and \<^verbatim>\<open>tree.Follow\<close>: the objects of the node's channel, \<open>None\<close> when it is closed.\<close>

definition ErrTypeMismatch :: error where "ErrTypeMismatch = ErrMsg ''binding type mismatch''"

definition tree_Get :: "'a tobject option res \<Rightarrow> 'a res" where
  "tree_Get answer =
     (case answer of
        Inl err \<Rightarrow> Inl err
      | Inr (Some (TVal a)) \<Rightarrow> Inr a
      | Inr _ \<Rightarrow> Inl (ErrMsg ''typecast failed''))"

text \<open>What the follower's channel carries before it is closed, and the error left behind; the list ends where the node's channel closes.\<close>

fun follow_loop :: "'a tobject list \<Rightarrow> 'a list \<times> error" where
  "follow_loop [] = ([], ErrTypeMismatch)"
| "follow_loop (obj # objs) =
     (case obj of
        TVal a \<Rightarrow> (case follow_loop objs of (vs, e) \<Rightarrow> (a # vs, e))
      | _ \<Rightarrow> ([], ErrTypeMismatch))"

definition tree_Follow :: "'a tobject list res \<Rightarrow> ('a list \<times> error) res" where
  "tree_Follow answer =
     (case answer of
        Inl err \<Rightarrow> Inl err
      | Inr [] \<Rightarrow> Inl ErrTypeMismatch
      | Inr (obj # objs) \<Rightarrow>
          (case obj of
             TVal a \<Rightarrow> (case follow_loop objs of (vs, e) \<Rightarrow> Inr (a # vs, e))
           | _ \<Rightarrow> Inl ErrTypeMismatch))"

lemma follow_loop_stops:
  "follow_loop objs = (vs, e) \<Longrightarrow> e = ErrTypeMismatch \<and> map TVal vs = takeWhile (\<lambda>x. cast x \<noteq> None) objs"
proof (induction objs arbitrary: vs e)
  case (Cons x xs)
  obtain ws f where f: "follow_loop xs = (ws, f)" by (cases "follow_loop xs")
  show ?case using Cons.prems Cons.IH [OF f] f by (cases x) (auto simp: cast_def)
qed simp

subsection \<open>The server's operations\<close>

text \<open>
  \<^verbatim>\<open>deleteRecursive\<close> visits the listed subnodes in the order of the map's iteration, which is the
  order of the list here.  The fuel bounds the depth; running out is the outer \<open>None\<close>.
\<close>

fun deleteRecursive ::
  "('w \<Rightarrow> 'n \<Rightarrow> 'n list res) \<Rightarrow> ('w \<Rightarrow> 'n \<Rightarrow> error option \<times> 'w) \<Rightarrow> nat \<Rightarrow> 'w \<Rightarrow> 'n \<Rightarrow> error option option \<times> 'w"
and deleteSubs ::
  "('w \<Rightarrow> 'n \<Rightarrow> 'n list res) \<Rightarrow> ('w \<Rightarrow> 'n \<Rightarrow> error option \<times> 'w) \<Rightarrow> nat \<Rightarrow> 'w \<Rightarrow> 'n list \<Rightarrow> error option option \<times> 'w"
where
  "deleteRecursive nsub ndelete 0 w n = (None, w)"
| "deleteRecursive nsub ndelete (Suc fuel) w n =
     (case nsub w n of
        Inl err \<Rightarrow> (Some (Some err), w)
      | Inr subs \<Rightarrow>
          (case deleteSubs nsub ndelete fuel w subs of
             (Some None, w1) \<Rightarrow> (case ndelete w1 n of (r, w2) \<Rightarrow> (Some r, w2))
           | (r, w1) \<Rightarrow> (r, w1)))"
| "deleteSubs nsub ndelete fuel w [] = (Some None, w)"
| "deleteSubs nsub ndelete fuel w (sub # subs) =
     (case deleteRecursive nsub ndelete fuel w sub of
        (Some None, w1) \<Rightarrow> deleteSubs nsub ndelete fuel w1 subs
      | (r, w1) \<Rightarrow> (r, w1))"

text \<open>
  What the code relies on of a store whose nodes are paths: listing gives the children, deleting
  removes a node without children.
\<close>

definition delete_laws :: "('w \<Rightarrow> string list set) \<Rightarrow> ('w \<Rightarrow> string list \<Rightarrow> string list list res) \<Rightarrow> ('w \<Rightarrow> string list \<Rightarrow> error option \<times> 'w) \<Rightarrow> bool" where
  "delete_laws paths nsub ndelete \<longleftrightarrow>
     (\<forall>w n. \<exists>ks. nsub w n = Inr ks \<and> distinct ks \<and> set ks = {n @ [s] |s. n @ [s] \<in> paths w}) \<and>
     (\<forall>w n. (\<forall>s. n @ [s] \<notin> paths w) \<longrightarrow> fst (ndelete w n) = None \<and> paths (snd (ndelete w n)) = paths w - {n})"

definition subtree :: "string list \<Rightarrow> string list set" where
  "subtree n = {n @ q |q. True}"

definition prefix_closed :: "string list set \<Rightarrow> bool" where
  "prefix_closed P \<longleftrightarrow> (\<forall>p s. p @ [s] \<in> P \<longrightarrow> p \<in> P)"

lemma prefix_closed_down: "prefix_closed P \<Longrightarrow> p @ q \<in> P \<Longrightarrow> p \<in> P"
  by (induction q rule: rev_induct) (auto simp: prefix_closed_def simp flip: append_assoc)

lemma subtree_children: "prefix_closed P \<Longrightarrow> P \<inter> subtree n - (\<Union>k \<in> {n @ [s] |s. n @ [s] \<in> P}. subtree k) \<subseteq> {n}"
proof
  fix x
  assume c: "prefix_closed P" and x: "x \<in> P \<inter> subtree n - (\<Union>k \<in> {n @ [s] |s. n @ [s] \<in> P}. subtree k)"
  then obtain q where q: "x = n @ q" "x \<in> P" by (auto simp: subtree_def)
  show "x \<in> {n}"
  proof (cases q)
    case (Cons s r)
    then have "n @ [s] \<in> P" using prefix_closed_down [OF c, of "n @ [s]" r] q by simp
    then show ?thesis using x q Cons by (auto simp: subtree_def)
  qed (use q in simp)
qed

lemma prefix_closed_diff: "prefix_closed P \<Longrightarrow> prefix_closed (P - subtree n)"
proof -
  assume c: "prefix_closed P"
  have "p \<notin> subtree n" if "p @ [s] \<notin> subtree n" for p s
    using that by (auto simp: subtree_def)
  then show ?thesis using c by (auto simp: prefix_closed_def)
qed

lemma subtree_siblings: "k \<noteq> k' \<Longrightarrow> length k = length k' \<Longrightarrow> subtree k \<inter> subtree k' = {}"
  by (auto simp: subtree_def)

text \<open>Nothing lies \<open>fuel\<close> or more levels below \<open>n\<close>.\<close>

definition shallow :: "string list set \<Rightarrow> nat \<Rightarrow> string list \<Rightarrow> bool" where
  "shallow P fuel n \<longleftrightarrow> (\<forall>q. n @ q \<in> P \<longrightarrow> length q < fuel)"

lemma deleteSubs_subtrees:
  assumes rec: "\<forall>w k. prefix_closed (paths w) \<longrightarrow> k \<in> paths w \<longrightarrow> shallow (paths w) fuel k \<longrightarrow>
      (\<exists>w'. deleteRecursive nsub ndelete fuel w k = (Some None, w') \<and> paths w' = paths w - subtree k)"
  shows "prefix_closed (paths w) \<Longrightarrow> set ks \<subseteq> paths w \<Longrightarrow> distinct ks \<Longrightarrow> \<forall>k \<in> set ks. length k = l \<Longrightarrow>
    \<forall>k \<in> set ks. shallow (paths w) fuel k \<Longrightarrow>
    \<exists>w'. deleteSubs nsub ndelete fuel w ks = (Some None, w') \<and> paths w' = paths w - (\<Union>k \<in> set ks. subtree k)"
proof (induction ks arbitrary: w)
  case (Cons k ks)
  obtain w1 where w1: "deleteRecursive nsub ndelete fuel w k = (Some None, w1)" "paths w1 = paths w - subtree k"
    using rec Cons.prems(1,2,5) by (metis insert_subset list.set(2) list.set_intros(1))
  have "k' \<notin> subtree k" if "k' \<in> set ks" for k'
    using that Cons.prems(3,4) by (auto simp: subtree_def)
  then have "set ks \<subseteq> paths w1" using Cons.prems(2) w1(2) by auto
  moreover have "prefix_closed (paths w1)" using prefix_closed_diff Cons.prems(1) w1(2) by simp
  moreover have "\<forall>k' \<in> set ks. shallow (paths w1) fuel k'" using Cons.prems(5) w1(2) by (simp add: shallow_def)
  ultimately obtain w2 where "deleteSubs nsub ndelete fuel w1 ks = (Some None, w2)" "paths w2 = paths w1 - (\<Union>k \<in> set ks. subtree k)"
    using Cons.IH [of w1] Cons.prems(3,4) by auto
  then show ?case using w1 by (auto simp: Diff_Un)
qed simp

lemma deletes_subtree:
  assumes "delete_laws paths nsub ndelete"
  shows "prefix_closed (paths w) \<Longrightarrow> n \<in> paths w \<Longrightarrow> shallow (paths w) fuel n \<Longrightarrow>
      \<exists>w'. deleteRecursive nsub ndelete fuel w n = (Some None, w') \<and> paths w' = paths w - subtree n"
proof (induction fuel arbitrary: w n)
  case 0
  have "n @ [] \<in> paths w" using "0.prems"(2) by simp
  then show ?case using "0.prems"(3) unfolding shallow_def by blast
next
  case (Suc fuel)
  obtain ks where ks: "nsub w n = Inr ks" "distinct ks" "set ks = {n @ [s] |s. n @ [s] \<in> paths w}"
    using assms unfolding delete_laws_def by blast
  have "shallow (paths w) fuel (n @ [s])" for s
  proof -
    have "length q < fuel" if "n @ [s] @ q \<in> paths w" for q
    proof -
      have "length ([s] @ q) < Suc fuel" using that Suc.prems(3) unfolding shallow_def by blast
      then show ?thesis by simp
    qed
    then show ?thesis by (simp add: shallow_def)
  qed
  then have "set ks \<subseteq> paths w" "\<forall>k \<in> set ks. length k = Suc (length n)" "\<forall>k \<in> set ks. shallow (paths w) fuel k"
    using ks(3) by auto
  moreover have "\<forall>w k. prefix_closed (paths w) \<longrightarrow> k \<in> paths w \<longrightarrow> shallow (paths w) fuel k \<longrightarrow>
      (\<exists>w'. deleteRecursive nsub ndelete fuel w k = (Some None, w') \<and> paths w' = paths w - subtree k)"
    using Suc.IH by blast
  ultimately obtain w1 where w1: "deleteSubs nsub ndelete fuel w ks = (Some None, w1)" "paths w1 = paths w - (\<Union>k \<in> set ks. subtree k)"
    using deleteSubs_subtrees [of paths fuel nsub ndelete w ks "Suc (length n)"] Suc.prems(1) ks(2) by auto
  have only: "paths w1 \<inter> subtree n \<subseteq> {n}" using subtree_children [OF Suc.prems(1), of n] w1(2) ks(3) by auto
  then have none: "\<forall>s. n @ [s] \<notin> paths w1" by (auto simp: subtree_def)
  obtain r w2 where d: "ndelete w1 n = (r, w2)" by (cases "ndelete w1 n")
  have "r = None" "paths w2 = paths w1 - {n}" using assms none d unfolding delete_laws_def by (metis fst_conv snd_conv)+
  moreover have "paths w1 - {n} = paths w - subtree n"
  proof -
    have "(\<Union>k \<in> set ks. subtree k) \<subseteq> subtree n" using ks(3) by (auto simp: subtree_def)
    moreover have "n \<in> subtree n" by (simp add: subtree_def)
    ultimately show ?thesis using w1(2) only by blast
  qed
  ultimately show ?case using ks(1) w1(1) d by simp
qed

text \<open>
  Setting a value from its text: the type is the one given, or that of the value the node holds.
  \<open>new\<close> builds an object of a type, with its text reader when it has one; \<open>nset\<close> is the node's Set and
  \<open>say\<close> the text of an error.  The result is the error sent back, or the object set and acknowledged.
\<close>

definition setSingle_type :: "(error \<Rightarrow> string) \<Rightarrow> string \<Rightarrow> (string option) res \<Rightarrow> string res" where
  "setSingle_type say argType current =
     (if argType \<noteq> [] then Inr argType
      else case current of
             Inl err \<Rightarrow> Inl (ErrMsg (''cannot infer type: '' @ say err))
           | Inr None \<Rightarrow> Inl (ErrMsg ''cannot infer type: node has no current value'')
           | Inr (Some t) \<Rightarrow> Inr t)"

definition setSingle ::
  "(error \<Rightarrow> string) \<Rightarrow> (string \<Rightarrow> (string \<Rightarrow> 'o res) option option) \<Rightarrow> ('o \<Rightarrow> error option) \<Rightarrow> 'n res \<Rightarrow> string \<Rightarrow> (string option) res \<Rightarrow> string \<Rightarrow> 'o res" where
  "setSingle say new nset node argType current value =
     (case node of
        Inl err \<Rightarrow> Inl err
      | Inr n \<Rightarrow>
          (case setSingle_type say argType current of
             Inl err \<Rightarrow> Inl err
           | Inr typeName \<Rightarrow>
               (case new typeName of
                  None \<Rightarrow> Inl (ErrMsg (''unknown object type: '' @ typeName))
                | Some None \<Rightarrow> Inl (ErrMsg (''type does not support text encoding: '' @ typeName))
                | Some (Some unmarshal) \<Rightarrow>
                    (case unmarshal value of
                       Inl err \<Rightarrow> Inl (ErrMsg (''parse value: '' @ say err))
                     | Inr obj \<Rightarrow> (case nset obj of Some err \<Rightarrow> Inl err | None \<Rightarrow> Inr obj)))))"

lemma setSingle_ok:
  "setSingle say new nset node argType current value = Inr obj \<longleftrightarrow>
     (\<exists>n t u. node = Inr n \<and> setSingle_type say argType current = Inr t \<and> new t = Some (Some u) \<and> u value = Inr obj \<and> nset obj = None)"
  by (auto simp: setSingle_def split: sum.splits option.splits)

end
