(* ===== verification/Discovery.thy ===== *)
theory Discovery
  imports Go_Prelude
begin

text \<open>
  Discovery of services: the names (\<^verbatim>\<open>src/api/services/names.go\<close>, \<^verbatim>\<open>reach.go\<close>), the stream of a discovery
  and its reader (\<^verbatim>\<open>client/services.go\<close>), the watcher that keeps the current offerings
  (\<^verbatim>\<open>client/watch.go\<close>), and the provider's side, bindings and their answers (\<^verbatim>\<open>client/advertise.go\<close>,
  \<^verbatim>\<open>client/provider.go\<close>).
\<close>

subsection \<open>Trimming white space\<close>

text \<open>The white space of \<^verbatim>\<open>strings.TrimSpace\<close> as byte sequences: the ASCII ones and the UTF-8 forms of the others.\<close>

definition spaces :: "string list" where
  "spaces = map (map char_of)
     ([[9], [10], [11], [12], [13], [32], [194, 133], [194, 160], [225, 154, 128], [226, 128, 168], [226, 128, 169],
       [226, 128, 175], [226, 129, 159], [227, 128, 128 :: nat]] @ map (\<lambda>k. [226, 128, 128 + k]) [0..<11])"

fun TrimLeft :: "nat \<Rightarrow> string \<Rightarrow> string" where
  "TrimLeft 0 s = s"
| "TrimLeft (Suc n) s = (case find (\<lambda>w. prefix w s) spaces of None \<Rightarrow> s | Some w \<Rightarrow> TrimLeft n (drop (length w) s))"

fun TrimRight :: "nat \<Rightarrow> string \<Rightarrow> string" where
  "TrimRight 0 s = s"
| "TrimRight (Suc n) s = (case find (\<lambda>w. suffix w s) spaces of None \<Rightarrow> s | Some w \<Rightarrow> TrimRight n (take (length s - length w) s))"

definition TrimSpace :: "string \<Rightarrow> string" where
  "TrimSpace s = TrimRight (length s) (TrimLeft (length s) s)"

lemma spaces_nonempty: "w \<in> set spaces \<Longrightarrow> w \<noteq> []"
  by (auto simp: spaces_def)

lemma TrimLeft_length: "length (TrimLeft n s) \<le> length s"
  by (induction n s rule: TrimLeft.induct) (auto split: option.splits intro: le_trans)

lemma TrimRight_length: "length (TrimRight n s) \<le> length s"
  by (induction n s rule: TrimRight.induct) (auto split: option.splits intro: le_trans)

lemma TrimSpace_id:
  "TrimSpace s = s \<longleftrightarrow> (\<forall>w \<in> set spaces. \<not> prefix w s \<and> \<not> suffix w s)"
proof
  assume e: "TrimSpace s = s"
  have l: "find (\<lambda>w. prefix w s) spaces = None"
  proof (rule ccontr)
    assume "find (\<lambda>w. prefix w s) spaces \<noteq> None"
    then obtain w where w: "find (\<lambda>w. prefix w s) spaces = Some w" by auto
    then have "prefix w s" "w \<noteq> []" using spaces_nonempty by (auto simp: find_Some_iff set_conv_nth)
    then have "length (drop (length w) s) < length s" by (cases s) auto
    moreover obtain n where n: "length s = Suc n" using \<open>prefix w s\<close> \<open>w \<noteq> []\<close> by (cases s) auto
    ultimately have "length (TrimLeft (length s) s) < length s"
      using TrimLeft_length [of n "drop (length w) s"] w by simp
    then have "length (TrimSpace s) < length s" unfolding TrimSpace_def by (meson TrimRight_length le_less_trans)
    then show False using e by simp
  qed
  then have t: "TrimLeft (length s) s = s" by (cases "length s") auto
  have r: "find (\<lambda>w. suffix w s) spaces = None"
  proof (rule ccontr)
    assume "find (\<lambda>w. suffix w s) spaces \<noteq> None"
    then obtain w where w: "find (\<lambda>w. suffix w s) spaces = Some w" by auto
    then have "suffix w s" "w \<noteq> []" using spaces_nonempty by (auto simp: find_Some_iff set_conv_nth)
    then have c: "length (take (length s - length w) s) < length s" by (cases s) (auto simp: suffix_def)
    moreover obtain n where n: "length s = Suc n" using \<open>suffix w s\<close> \<open>w \<noteq> []\<close> by (cases s) auto
    ultimately have "length (TrimRight (length s) s) < length s"
      using TrimRight_length [of n "take (length s - length w) s"] w by simp
    then show False using e t by (simp add: TrimSpace_def)
  qed
  show "\<forall>w \<in> set spaces. \<not> prefix w s \<and> \<not> suffix w s" using l r by (simp add: find_None_iff)
next
  assume "\<forall>w \<in> set spaces. \<not> prefix w s \<and> \<not> suffix w s"
  then have "find (\<lambda>w. prefix w s) spaces = None" "find (\<lambda>w. suffix w s) spaces = None" by (simp_all add: find_None_iff)
  then show "TrimSpace s = s" unfolding TrimSpace_def by (cases "length s") auto
qed

subsection \<open>Names and reach\<close>

definition MaxNames :: nat where "MaxNames = 64"
definition maxNameLen :: nat where "maxNameLen = 255"
definition ErrNoNames :: error where "ErrNoNames = ErrMsg ''no service names''"

definition ValidateName :: "string \<Rightarrow> error option" where
  "ValidateName name =
     (if name = [] then Some (ErrMsg ''empty service name'')
      else if length name > maxNameLen then Some (ErrMsg ''service name longer than 255 bytes'')
      else if CHR '','' \<in> set name then Some (ErrMsg ''service name contains a comma'')
      else if TrimSpace name \<noteq> name then Some (ErrMsg ''service name has surrounding whitespace'')
      else None)"

fun check_names :: "string list \<Rightarrow> string set \<Rightarrow> error option" where
  "check_names [] seen = None"
| "check_names (name # names) seen =
     (case ValidateName name of
        Some e \<Rightarrow> Some e
      | None \<Rightarrow> if name \<in> seen then Some (ErrMsg ''service named twice'') else check_names names (insert name seen))"

definition ParseNames :: "string \<Rightarrow> string list res" where
  "ParseNames list =
     (if list = [] then Inl ErrNoNames
      else
        let names = Split CHR '','' list
        in if length names > MaxNames then Inl (ErrMsg ''more than 64 service names'')
           else case check_names names {} of Some e \<Rightarrow> Inl e | None \<Rightarrow> Inr names)"

definition JoinNames :: "string list \<Rightarrow> string" where
  "JoinNames names = Join names '',''"

definition names_ok :: "string list \<Rightarrow> bool" where
  "names_ok names \<longleftrightarrow> names \<noteq> [] \<and> length names \<le> MaxNames \<and> distinct names \<and> (\<forall>n \<in> set names. ValidateName n = None)"

lemma check_names_iff:
  "check_names names seen = None \<longleftrightarrow> (\<forall>n \<in> set names. ValidateName n = None) \<and> distinct names \<and> set names \<inter> seen = {}"
  by (induction names seen rule: check_names.induct) (auto split: option.splits)

lemma ParseNames_iff: "ParseNames list = Inr names \<longleftrightarrow> names_ok names \<and> JoinNames names = list"
proof
  assume p: "ParseNames list = Inr names"
  then have n: "names = Split CHR '','' list" by (auto simp: ParseNames_def Let_def split: if_splits option.splits)
  then show "names_ok names \<and> JoinNames names = list"
    using p by (auto simp: ParseNames_def names_ok_def JoinNames_def Join_Split check_names_iff Let_def split: if_splits option.splits)
next
  assume n: "names_ok names \<and> JoinNames names = list"
  then have c: "\<forall>x \<in> set names. CHR '','' \<notin> set x \<and> x \<noteq> []" by (auto simp: names_ok_def ValidateName_def split: if_splits)
  then have s: "Split CHR '','' list = names" using n Split_Join [of names "CHR '',''"] by (auto simp: names_ok_def JoinNames_def)
  have "list \<noteq> []" using n c by (cases names rule: list.exhaust; cases "tl names") (auto simp: names_ok_def JoinNames_def)
  moreover have "check_names names {} = None" using n by (auto simp: check_names_iff names_ok_def)
  ultimately show "ParseNames list = Inr names" using n s by (auto simp: ParseNames_def names_ok_def Let_def)
qed

datatype reach = ReachLocal | ReachSwarm

definition ParseReach :: "string \<Rightarrow> reach res" where
  "ParseReach s =
     (if s = [] \<or> s = ''local'' then Inr ReachLocal else if s = ''swarm'' then Inr ReachSwarm else Inl (ErrMsg ''unknown reach''))"

subsection \<open>The stream of a discovery\<close>

record offering =
  o_Available :: bool
  o_Name :: string
  o_Provider :: string
  o_Info :: nat

type_synonym okey = "string \<times> string"

record initial_outcome =
  io_Complete :: bool
  io_Incomplete :: "string list"

datatype event = EvUpdate offering | EvRemoved "okey list" | EvInitial initial_outcome | EvErr error

datatype stream_obj = SoUpdate offering | SoRemoved "okey list" | SoIncomplete "string list" | SoEOS | SoError string | SoOther string

record discovery_reader =
  dr_follow :: bool
  dr_boundary :: bool
  dr_incomplete :: "string list option"

definition ErrStreamEnded :: error where "ErrStreamEnded = ErrMsg ''discovery stream ended''"

definition discovery_outcome :: "string list option \<Rightarrow> initial_outcome" where
  "discovery_outcome inc =
     (case inc of None \<Rightarrow> \<lparr>io_Complete = True, io_Incomplete = []\<rparr> | Some ss \<Rightarrow> \<lparr>io_Complete = False, io_Incomplete = ss\<rparr>)"

definition discovery_read :: "stream_obj \<Rightarrow> discovery_reader \<Rightarrow> (event option \<times> bool) res \<times> discovery_reader" where
  "discovery_read obj r =
     (case obj of
        SoUpdate u \<Rightarrow> (Inr (Some (EvUpdate u), False), r)
      | SoRemoved ks \<Rightarrow> (Inr (Some (EvRemoved ks), False), r)
      | SoIncomplete ss \<Rightarrow> (Inr (None, False), r\<lparr>dr_incomplete := Some ss\<rparr>)
      | SoEOS \<Rightarrow> (Inr (Some (EvInitial (discovery_outcome (dr_incomplete r))), \<not> dr_follow r), r\<lparr>dr_boundary := True\<rparr>)
      | SoError m \<Rightarrow> (Inl (ErrMsg m), r)
      | SoOther t \<Rightarrow> (Inl (ErrMsg (''unexpected object: '' @ t)), r))"

text \<open>
  The loop of \<^verbatim>\<open>Collect\<close> over the objects of the stream: the events sent, how it ended (\<open>Some IoEOF\<close> is the
  reader's own stop, \<open>None\<close> the end of the stream) and the reader left.  \<open>broken\<close> is the error of
  \<^verbatim>\<open>Receive\<close> after the last object, None at EOF.  Sending an event selects against the end of the
  context: with \<open>cutoff = Some (k, e)\<close> the context has ended with \<open>e\<close> and the select takes it at the event
  after the first \<open>k\<close>.
\<close>

fun collect_events ::
  "(nat \<times> error) option \<Rightarrow> error option \<Rightarrow> stream_obj list \<Rightarrow> discovery_reader \<Rightarrow> event list \<times> error option \<times> discovery_reader" where
  "collect_events cutoff broken [] r = ([], broken, r)"
| "collect_events cutoff broken (obj # objs) r =
     (case discovery_read obj r of
        (Inl err, r1) \<Rightarrow> ([], Some err, r1)
      | (Inr (None, stop), r1) \<Rightarrow> if stop then ([], Some IoEOF, r1) else collect_events cutoff broken objs r1
      | (Inr (Some ev, stop), r1) \<Rightarrow>
          (case cutoff of
             Some (0, e) \<Rightarrow> ([], Some e, r1)
           | _ \<Rightarrow>
               if stop then ([ev], Some IoEOF, r1)
               else (case collect_events (map_option (apfst (\<lambda>k. k - 1)) cutoff) broken objs r1 of
                       (es, e, r2) \<Rightarrow> (ev # es, e, r2))))"

text \<open>
  How the end of the context met the read: its error, the event send that selected it, whether
  \<^verbatim>\<open>ctx.Err()\<close> already showed it after the loop, and whether the last select took it and so
  dropped the terminal event.
\<close>

record ctx_end =
  ce_err :: error
  ce_sends :: "nat option"
  ce_seen :: bool
  ce_drop :: bool

definition newReader_of :: "bool \<Rightarrow> discovery_reader" where
  "newReader_of follow = \<lparr>dr_follow = follow, dr_boundary = False, dr_incomplete = None\<rparr>"

definition cut_of :: "ctx_end option \<Rightarrow> (nat \<times> error) option" where
  "cut_of ended = (case ended of None \<Rightarrow> None | Some c \<Rightarrow> map_option (\<lambda>k. (k, ce_err c)) (ce_sends c))"

definition readDiscovery :: "bool \<Rightarrow> error option \<Rightarrow> ctx_end option \<Rightarrow> stream_obj list \<Rightarrow> event list" where
  "readDiscovery follow broken ended objs =
     (case collect_events (cut_of ended) broken objs (newReader_of follow) of
        (evs, err, r) \<Rightarrow>
          if err = Some IoEOF \<and> dr_boundary r \<and> \<not> follow then evs
          else
            let err1 = (case ended of Some c \<Rightarrow> if ce_seen c then Some (ce_err c) else err | None \<Rightarrow> err);
                err2 = (case err1 of None \<Rightarrow> ErrStreamEnded | Some e \<Rightarrow> e)
            in (case ended of Some c \<Rightarrow> if ce_drop c then evs else evs @ [EvErr err2] | None \<Rightarrow> evs @ [EvErr err2]))"

text \<open>The events of the objects received, were each of them sent.\<close>

definition told :: "bool \<Rightarrow> stream_obj list \<Rightarrow> event list" where
  "told follow objs = fst (collect_events None None objs (newReader_of follow))"

subsection \<open>The watcher\<close>

record watcher =
  w_offerings :: "okey \<rightharpoonup> offering"
  w_err :: "error option"
  w_settled :: bool
  w_initial :: "initial_outcome list"

definition newWatcher :: watcher where
  "newWatcher = \<lparr>w_offerings = Map.empty, w_err = None, w_settled = False, w_initial = []\<rparr>"

definition okey_of :: "offering \<Rightarrow> okey" where "okey_of u = (o_Provider u, o_Name u)"

text \<open>None: sending on the closed channel of initial outcomes panics.\<close>

definition watcher_apply :: "event \<Rightarrow> watcher \<Rightarrow> watcher option" where
  "watcher_apply ev w =
     (case ev of
        EvUpdate u \<Rightarrow>
          Some (if o_Available u then w\<lparr>w_offerings := (w_offerings w)(okey_of u \<mapsto> u)\<rparr>
                else w\<lparr>w_offerings := (w_offerings w)(okey_of u := None)\<rparr>)
      | EvRemoved ks \<Rightarrow> Some (w\<lparr>w_offerings := (w_offerings w) |` (- set ks)\<rparr>)
      | EvInitial io \<Rightarrow> if w_settled w then None else Some (w\<lparr>w_initial := w_initial w @ [io], w_settled := True\<rparr>)
      | EvErr e \<Rightarrow> Some (w\<lparr>w_err := Some e\<rparr>))"

definition watcher_end :: "error option \<Rightarrow> watcher \<Rightarrow> watcher" where
  "watcher_end ctx_err w =
     w\<lparr>w_err := (case w_err w of Some e \<Rightarrow> Some e | None \<Rightarrow> (case ctx_err of Some e \<Rightarrow> Some e | None \<Rightarrow> Some ErrStreamEnded)),
       w_settled := True\<rparr>"

fun watcher_run :: "event list \<Rightarrow> watcher \<Rightarrow> watcher option" where
  "watcher_run [] w = Some w"
| "watcher_run (ev # evs) w = (case watcher_apply ev w of None \<Rightarrow> None | Some w1 \<Rightarrow> watcher_run evs w1)"

subsection \<open>The offerings follow the stream\<close>

text \<open>What the last event about a key says of it.\<close>

fun verdict_of :: "event \<Rightarrow> okey \<Rightarrow> offering option option" where
  "verdict_of (EvUpdate u) k = (if okey_of u = k then Some (if o_Available u then Some u else None) else None)"
| "verdict_of (EvRemoved ks) k = (if k \<in> set ks then Some None else None)"
| "verdict_of _ k = None"

definition last_verdict :: "event list \<Rightarrow> okey \<Rightarrow> offering option" where
  "last_verdict evs k = (case filter (\<lambda>e. verdict_of e k \<noteq> None) evs of [] \<Rightarrow> None | es \<Rightarrow> the (verdict_of (last es) k))"

lemma watcher_apply_offering:
  "watcher_apply ev w = Some w1 \<Longrightarrow> w_offerings w1 k = (case verdict_of ev k of None \<Rightarrow> w_offerings w k | Some v \<Rightarrow> v)"
  by (cases ev) (auto simp: watcher_apply_def restrict_map_def split: if_splits)

lemma watcher_run_offering:
  "watcher_run evs w = Some w1 \<Longrightarrow>
     w_offerings w1 k = (if \<exists>e \<in> set evs. verdict_of e k \<noteq> None then last_verdict evs k else w_offerings w k)"
proof (induction evs arbitrary: w)
  case (Cons ev evs)
  obtain w2 where w2: "watcher_apply ev w = Some w2" "watcher_run evs w2 = Some w1"
    using Cons.prems by (auto split: option.splits)
  show ?case
  proof (cases "\<exists>e \<in> set evs. verdict_of e k \<noteq> None")
    case True
    then have f: "filter (\<lambda>e. verdict_of e k \<noteq> None) evs \<noteq> []" by (auto simp: filter_empty_conv)
    then have "last_verdict (ev # evs) k = last_verdict evs k" by (auto simp: last_verdict_def split: list.splits)
    then show ?thesis using Cons.IH [OF w2(2)] True by auto
  next
    case False
    then have f: "filter (\<lambda>e. verdict_of e k \<noteq> None) evs = []" by (auto simp: filter_empty_conv)
    show ?thesis using Cons.IH [OF w2(2)] watcher_apply_offering [OF w2(1), of k] False f
      by (auto simp: last_verdict_def split: option.splits)
  qed
qed simp

definition is_initial :: "event \<Rightarrow> bool" where
  "is_initial ev = (case ev of EvInitial _ \<Rightarrow> True | _ \<Rightarrow> False)"

lemma watcher_run_panics:
  "watcher_run evs w = None \<longleftrightarrow> length (filter is_initial evs) + (if w_settled w then 1 else 0) > 1"
proof (induction evs arbitrary: w)
  case (Cons ev evs)
  show ?case
  proof (cases ev)
    case (EvInitial io)
    show ?thesis
    proof (cases "w_settled w")
      case False
      then show ?thesis using EvInitial Cons.IH [of "w\<lparr>w_initial := w_initial w @ [io], w_settled := True\<rparr>"]
        by (simp add: watcher_apply_def is_initial_def)
    qed (use EvInitial in \<open>simp add: watcher_apply_def is_initial_def\<close>)
  qed (use Cons in \<open>auto simp: watcher_apply_def is_initial_def\<close>)
qed simp

lemma collect_broken: "fst (collect_events None broken objs r) = fst (collect_events None None objs r)"
proof (induction objs arbitrary: r)
  case (Cons obj objs)
  let ?r = "snd (discovery_read obj r)"
  obtain es e r1 es' e' r2 where "collect_events None broken objs ?r = (es, e, r1)" "collect_events None None objs ?r = (es', e', r2)"
    by (metis prod.exhaust)
  then show ?case using Cons.IH [of ?r] by (auto split: prod.splits sum.splits option.splits)
qed simp

lemma collect_prefix:
  "prefix (fst (collect_events cutoff broken objs r)) (fst (collect_events None None objs r))"
proof (induction objs arbitrary: cutoff r)
  case (Cons obj objs)
  obtain x r1 where d: "discovery_read obj r = (x, r1)" by fastforce
  show ?case
  proof (cases "\<exists>ev stop. x = Inr (Some ev, stop)")
    case True
    then obtain ev stop where x: "x = Inr (Some ev, stop)" by blast
    show ?thesis
    proof (cases "stop \<or> (\<exists>e. cutoff = Some (0, e))")
      case True
      then show ?thesis using d x by (auto split: option.splits prod.splits nat.splits)
    next
      case False
      then have "fst (collect_events cutoff broken (obj # objs) r) =
          ev # fst (collect_events (map_option (apfst (\<lambda>k. k - 1)) cutoff) broken objs r1)"
        using d x by (cases cutoff) (auto split: prod.splits nat.splits)
      moreover have "fst (collect_events None None (obj # objs) r) = ev # fst (collect_events None None objs r1)"
        using d x False by (auto split: prod.splits)
      ultimately show ?thesis using Cons.IH by simp
    qed
  next
    case False
    then show ?thesis using d Cons.IH by (auto split: sum.splits option.splits)
  qed
qed simp

lemma collect_initials:
  "collect_events None None objs r = (evs, err, r1) \<Longrightarrow>
     length (filter is_initial evs) \<le> length (filter (\<lambda>x. x = SoEOS) objs) \<and> (\<forall>e. EvErr e \<notin> set evs)"
proof (induction objs arbitrary: r evs err r1)
  case (Cons obj objs)
  obtain es e r2 where t: "collect_events None None objs (snd (discovery_read obj r)) = (es, e, r2)" by (metis prod.exhaust)
  show ?case using Cons.prems Cons.IH [OF t] t
    by (cases obj) (auto simp: discovery_read_def is_initial_def split: if_splits)
qed simp

lemma told_initials: "length (filter is_initial (told follow objs)) \<le> length (filter (\<lambda>x. x = SoEOS) objs)"
  and told_no_error: "EvErr e \<notin> set (told follow objs)"
  using collect_initials [of objs "newReader_of follow"]
  by (cases "collect_events None None objs (newReader_of follow)"; simp add: told_def)+

text \<open>What is sent: events of the stream, from its beginning, and then at most a terminal error.\<close>

lemma readDiscovery_shape:
  obtains evs tl where "readDiscovery follow broken ended objs = evs @ tl" "prefix evs (told follow objs)"
    "tl = [] \<or> (\<exists>e. tl = [EvErr e])" "ended = None \<longrightarrow> evs = told follow objs"
proof -
  obtain evs err r where c: "collect_events (cut_of ended) broken objs (newReader_of follow) = (evs, err, r)"
    by (metis prod.exhaust)
  have p: "prefix evs (told follow objs)"
    using collect_prefix [of "cut_of ended" broken objs "newReader_of follow"] c by (simp add: told_def)
  moreover have "ended = None \<longrightarrow> evs = told follow objs"
    using c collect_broken [of broken objs "newReader_of follow"] by (auto simp: told_def cut_of_def)
  moreover have "\<exists>tl. readDiscovery follow broken ended objs = evs @ tl \<and> (tl = [] \<or> (\<exists>e. tl = [EvErr e]))"
    using c by (cases ended) (simp_all add: readDiscovery_def Let_def)
  ultimately show thesis using that by blast
qed

text \<open>One end-of-stream too many reaches the watcher of a following discovery as a second outcome.\<close>

lemma two_eos_panics:
  "watcher_run (readDiscovery True None None [SoEOS, SoEOS]) newWatcher = None"
  by (simp add: readDiscovery_def cut_of_def newReader_of_def discovery_read_def watcher_apply_def newWatcher_def)

text \<open>
  While the context runs, every stream ends in an outcome or in an error: a caller that reads it is
  not left without one.
\<close>

lemma collect_stop:
  "collect_events None broken objs r = (evs, Some IoEOF, r1) \<Longrightarrow> broken \<noteq> Some IoEOF \<Longrightarrow> evs \<noteq> [] \<and> is_initial (last evs)"
proof (induction objs arbitrary: r evs r1)
  case (Cons obj objs)
  obtain es e r2 where t: "collect_events None broken objs (snd (discovery_read obj r)) = (es, e, r2)" by (metis prod.exhaust)
  show ?case using Cons.prems Cons.IH [of "snd (discovery_read obj r)" es r2] t
    by (cases obj) (auto simp: discovery_read_def is_initial_def split: if_splits)
qed simp

lemma readDiscovery_ends:
  assumes "broken \<noteq> Some IoEOF"
  shows "readDiscovery follow broken None objs \<noteq> [] \<and>
    ((\<exists>e. last (readDiscovery follow broken None objs) = EvErr e) \<or> \<not> follow \<and> is_initial (last (readDiscovery follow broken None objs)))"
proof -
  obtain evs err r where c: "collect_events None broken objs (newReader_of follow) = (evs, err, r)"
    by (metis prod.exhaust)
  then show ?thesis using collect_stop [of broken objs "newReader_of follow" evs r] assms
    by (auto simp: readDiscovery_def cut_of_def split: option.splits)
qed

text \<open>The error a watcher is left with.\<close>

lemma watcher_run_errs:
  "watcher_run evs w = Some w1 \<Longrightarrow> \<forall>e. EvErr e \<notin> set evs \<Longrightarrow> w_err w1 = w_err w"
proof (induction evs arbitrary: w)
  case (Cons ev evs)
  obtain w2 where w2: "watcher_apply ev w = Some w2" "watcher_run evs w2 = Some w1"
    using Cons.prems(1) by (auto split: option.splits)
  have "w_err w2 = w_err w" using w2(1) Cons.prems(2) by (cases ev) (auto simp: watcher_apply_def split: if_splits)
  then show ?case using Cons.IH [OF w2(2)] Cons.prems(2) by auto
qed simp

lemma watcher_run_append:
  "watcher_run (xs @ ys) w = (case watcher_run xs w of None \<Rightarrow> None | Some w1 \<Rightarrow> watcher_run ys w1)"
  by (induction xs arbitrary: w) (auto split: option.splits)

subsection \<open>Providers\<close>

record ask =
  ask_RequestID :: "64 word"
  ask_Caller :: string
  ask_Service :: string

record update =
  u_Available :: bool
  u_Name :: string
  u_Provider :: "string option"
  u_Info :: nat

definition zeroUpdate :: update where
  "zeroUpdate = \<lparr>u_Available = False, u_Name = [], u_Provider = None, u_Info = 0\<rparr>"

text \<open>The answer to an ask: \<open>handled\<close> is what the handler returned.\<close>

definition Binding_answer :: "update option res \<Rightarrow> ask \<Rightarrow> 64 word \<times> update" where
  "Binding_answer handled a =
     (let reply = (case handled of Inr (Some u) \<Rightarrow> u | _ \<Rightarrow> zeroUpdate)
      in (ask_RequestID a, reply\<lparr>u_Name := ask_Service a, u_Provider := None\<rparr>))"

definition Binding_Change :: "string list \<Rightarrow> (bool \<times> string list) option" where
  "Binding_Change callers = (if callers = [] then None else Some (False, callers))"

definition Binding_ChangeAll :: "(bool \<times> string list) option" where
  "Binding_ChangeAll = Some (True, [])"

definition Change_Valid :: "bool \<times> string list \<Rightarrow> bool" where
  "Change_Valid c \<longleftrightarrow> fst c \<or> snd c \<noteq> []"

lemma binding_changes_valid:
  "Binding_Change callers = Some c \<or> Binding_ChangeAll = Some c \<Longrightarrow> Change_Valid c"
  by (auto simp: Binding_Change_def Binding_ChangeAll_def Change_Valid_def split: if_splits)

text \<open>
  \<^verbatim>\<open>Provider.Serve\<close> over the answers to its advertisements, each with the time it came; None while it
  still waits.  Times are in nanoseconds since the call.
\<close>

definition retryFirst :: int where "retryFirst = 250000000"
definition retryMax :: int where "retryMax = 4000000000"
definition retryFor :: int where "retryFor = 30000000000"

definition ErrAdvertised :: error where "ErrAdvertised = ErrMsg ''service already advertised by this provider''"

definition isAdvertised :: "error \<Rightarrow> bool" where "isAdvertised err \<longleftrightarrow> err = ErrAdvertised"

fun serve_loop :: "int \<Rightarrow> (int \<times> error option \<times> error option) list \<Rightarrow> error option option" where
  "serve_loop delay [] = None"
| "serve_loop delay ((now, refused, cancelled) # rest) =
     (case refused of
        None \<Rightarrow> Some None
      | Some err \<Rightarrow>
          if \<not> isAdvertised err \<or> now + delay > retryFor then Some (Some err)
          else (case cancelled of
                  Some e \<Rightarrow> Some (Some e)
                | None \<Rightarrow> serve_loop (min (delay * 2) retryMax) rest))"

definition Provider_Serve :: "bool \<Rightarrow> (int \<times> error option \<times> error option) list \<Rightarrow> error option option" where
  "Provider_Serve open attempts = (if open then Some None else serve_loop retryFirst attempts)"

text \<open>Answers come no earlier than the wait before them asks for, so an attempt past the deadline is the last.\<close>

fun timed :: "int \<Rightarrow> int \<Rightarrow> (int \<times> error option \<times> error option) list \<Rightarrow> bool" where
  "timed t delay [] \<longleftrightarrow> True"
| "timed t delay ((now, r, c) # rest) \<longleftrightarrow> t \<le> now \<and> timed (now + delay) (min (delay * 2) retryMax) rest"

lemma serve_loop_bounded:
  "timed t delay as \<Longrightarrow> 0 < delay \<Longrightarrow> delay \<le> retryMax \<Longrightarrow> retryFor - t < int (length as) * d \<Longrightarrow> 0 < d \<Longrightarrow> d \<le> delay \<Longrightarrow> d \<le> retryMax \<Longrightarrow> t \<le> retryFor \<Longrightarrow>
     serve_loop delay as \<noteq> None"
proof (induction as arbitrary: t delay)
  case (Cons a as)
  obtain now r c where a: "a = (now, r, c)" by (cases a)
  show ?case
  proof (cases "\<exists>err. r = Some err \<and> isAdvertised err \<and> now + delay \<le> retryFor \<and> c = None")
    case True
    have "retryFor - (now + delay) < int (length as) * d"
      using Cons.prems(1,4,6) a by (simp add: algebra_simps)
    moreover have "d \<le> min (delay * 2) retryMax" using Cons.prems(2,6,7) by simp
    moreover have "now + delay \<le> retryFor" using True by auto
    ultimately have "serve_loop (min (delay * 2) retryMax) as \<noteq> None"
      using Cons.IH [of "now + delay" "min (delay * 2) retryMax"] Cons.prems(1,2,3,5,7) a by (auto simp: retryMax_def)
    then show ?thesis using True a by auto
  next
    case False
    then show ?thesis using a by (auto split: option.splits)
  qed
qed simp

end
