(* ===== verification/Permits.thy ===== *)
theory Permits
  imports Go_Prelude
begin

text \<open>
  Permits and the actions they allow: \<^verbatim>\<open>src/api/auth/contract.go\<close>, \<^verbatim>\<open>validate_permit.go\<close>,
  \<^verbatim>\<open>authorizer_assignment.go\<close>, the \<^verbatim>\<open>ApplyConstraints\<close> and \<^verbatim>\<open>ValidateConstraints\<close> methods of the action
  types, \<^verbatim>\<open>src/api/policy/delegate.go\<close> and \<^verbatim>\<open>src/api/apphost/app_register_policy.go\<close>.  An identity is its
  text; a constraints bundle is the list of its objects, read into the types the actions know.
\<close>

subsection \<open>Constraints and actions\<close>

record discovery_rule =
  dr_Services :: "string list"
  dr_Nodes :: "string option list"

type_synonym discovery_scope = "discovery_rule option list"

datatype constraint = Scope "discovery_scope option" | Role string | OtherConstraint string

type_synonym constraints = "constraint list option"

text \<open>
  An action by how it reads constraints: not at all (it is no \<^verbatim>\<open>Constrainable\<close>), by refusing any, by
  roles, by a discovery scope, by refusing every permit, and by ignoring them.
\<close>

datatype permit_action =
    Unconstrainable string
  | RefusesConstraints string
  | ServeObjectsAction string
  | ServiceDiscoveryAction string "string option"
  | ReadMailboxAction
  | CreateObjectAction

definition refusing_types :: "string list" where
  "refusing_types = [''mod.user.admin_swarm_action'', ''mod.user.see_swarm_action'', ''mod.auth.admin_network_action'',
     ''mod.auth.use_blueprints_action'', ''mod.auth.serve_apps_action'', ''mod.auth.admin_manage_apps_action'',
     ''mod.auth.configure_node_state_action'', ''mod.auth.see_node_state_action'', ''mod.auth.use_gateway_action'',
     ''mod.auth.register_signer_action'', ''mod.auth.see_objects_action'', ''mod.auth.admin_objects_action'',
     ''mod.auth.store_objects_action'', ''mod.nodes.relay_for_action'', ''mod.messaging.host_mailbox_action'',
     ''mod.messaging.send_action'', ''mod.messaging.receive_action'']"

definition unconstrainable_types :: "string list" where
  "unconstrainable_types = [''mod.auth.sudo_action'', ''mod.user.swarm_membership_action'', ''mod.shell.shell_action'']"

definition action_ObjectType :: "permit_action \<Rightarrow> string" where
  "action_ObjectType a =
     (case a of
        Unconstrainable t \<Rightarrow> t
      | RefusesConstraints t \<Rightarrow> t
      | ServeObjectsAction r \<Rightarrow> ''mod.auth.serve_objects_action''
      | ServiceDiscoveryAction s n \<Rightarrow> ''mod.services.service_discovery_action''
      | ReadMailboxAction \<Rightarrow> ''mod.messaging.read_mailbox_action''
      | CreateObjectAction \<Rightarrow> ''mod.objects.create_object_action'')"

definition known_action :: "permit_action \<Rightarrow> bool" where
  "known_action a =
     (case a of
        Unconstrainable t \<Rightarrow> t \<in> set unconstrainable_types
      | RefusesConstraints t \<Rightarrow> t \<in> set refusing_types
      | _ \<Rightarrow> True)"

subsection \<open>Discovery scopes\<close>

definition allowsService :: "discovery_rule \<Rightarrow> string \<Rightarrow> bool" where
  "allowsService r service \<longleftrightarrow> (\<exists>s \<in> set (dr_Services r). s = service)"

definition allowsNode :: "discovery_rule \<Rightarrow> string option \<Rightarrow> bool" where
  "allowsNode r node \<longleftrightarrow> (if dr_Nodes r = [] then True else \<exists>n \<in> set (dr_Nodes r). n \<noteq> None \<and> node \<noteq> None \<and> n = node)"

definition DiscoveryRule_Allows :: "discovery_rule \<Rightarrow> string \<Rightarrow> string option \<Rightarrow> bool" where
  "DiscoveryRule_Allows r service node \<longleftrightarrow> allowsService r service \<and> allowsNode r node"

fun DiscoveryScope_Allows :: "discovery_scope \<Rightarrow> string \<Rightarrow> string option \<Rightarrow> bool" where
  "DiscoveryScope_Allows [] service node \<longleftrightarrow> False"
| "DiscoveryScope_Allows (None # rules) service node \<longleftrightarrow> DiscoveryScope_Allows rules service node"
| "DiscoveryScope_Allows (Some r # rules) service node \<longleftrightarrow>
     (if DiscoveryRule_Allows r service node then True else DiscoveryScope_Allows rules service node)"

subsection \<open>Applying and validating constraints\<close>

definition empty_constraints :: "constraints \<Rightarrow> bool" where
  "empty_constraints cs \<longleftrightarrow> (case cs of None \<Rightarrow> True | Some os \<Rightarrow> os = [])"

fun role_loop :: "string \<Rightarrow> constraint list \<Rightarrow> bool \<Rightarrow> bool" where
  "role_loop role [] allowed = allowed"
| "role_loop role (Role r # os) allowed = role_loop role os (if r = role then True else allowed)"
| "role_loop role (_ # os) allowed = False"

text \<open>None: the type has no \<^verbatim>\<open>ApplyConstraints\<close>.  A scope object that is nil would be a nil dereference; it is refused here as nothing on the wire yields one.\<close>

definition ApplyConstraints :: "permit_action \<Rightarrow> constraints \<Rightarrow> bool option" where
  "ApplyConstraints a cs =
     (case a of
        Unconstrainable t \<Rightarrow> None
      | RefusesConstraints t \<Rightarrow> Some (empty_constraints cs)
      | ServeObjectsAction role \<Rightarrow> Some (if empty_constraints cs then True else role_loop role (the cs) False)
      | ServiceDiscoveryAction service node \<Rightarrow>
          Some (case cs of
                  Some [Scope (Some scope)] \<Rightarrow> DiscoveryScope_Allows scope service node
                | _ \<Rightarrow> False)
      | ReadMailboxAction \<Rightarrow> Some False
      | CreateObjectAction \<Rightarrow> Some True)"

definition errOneDiscoveryScope :: string where "errOneDiscoveryScope = ''constraints must hold exactly one discovery scope''"
definition errScopeNamesNoService :: string where "errScopeNamesNoService = ''discovery scope names no service''"

text \<open>None: the type has no \<^verbatim>\<open>ValidateConstraints\<close>.\<close>

definition ValidateConstraints :: "permit_action \<Rightarrow> constraints \<Rightarrow> string option option" where
  "ValidateConstraints a cs =
     (case a of
        ServiceDiscoveryAction service node \<Rightarrow>
          Some (case cs of
                  Some [Scope (Some scope)] \<Rightarrow>
                    if \<exists>r \<in> set scope. r \<noteq> None \<and> dr_Services (the r) \<noteq> [] then None else Some errScopeNamesNoService
                | _ \<Rightarrow> Some errOneDiscoveryScope)
      | _ \<Rightarrow> None)"

subsection \<open>Permits\<close>

record permit =
  p_Action :: string
  p_Constraints :: constraints
  p_Delegation :: "8 word"

definition Permit_Allows :: "permit \<Rightarrow> permit_action \<Rightarrow> bool" where
  "Permit_Allows p a \<longleftrightarrow>
     (if p_Action p \<noteq> action_ObjectType a then False
      else case ApplyConstraints a (p_Constraints p) of Some b \<Rightarrow> b | None \<Rightarrow> True)"

text \<open>A contract's permits may hold nil entries, which the wire can carry; reading one's action panics: \<open>None\<close>.\<close>

fun permits_loop :: "string \<Rightarrow> permit option list \<Rightarrow> permit list option" where
  "permits_loop action [] = Some []"
| "permits_loop action (None # ps) = None"
| "permits_loop action (Some p # ps) =
     (case permits_loop action ps of
        None \<Rightarrow> None
      | Some rest \<Rightarrow> Some (if p_Action p = action then p # rest else rest))"

definition HasPermit :: "permit option list option \<Rightarrow> string \<Rightarrow> permit list option" where
  "HasPermit permits action = (case permits of None \<Rightarrow> Some [] | Some ps \<Rightarrow> permits_loop action ps)"

definition permit_refusal :: "string \<Rightarrow> string \<Rightarrow> error" where
  "permit_refusal action detail =
     ErrMsg (''invalid permit: '' @ (if action = [] then [] else action @ '': '') @ detail)"

text \<open>\<open>prototype\<close> is what \<^verbatim>\<open>astral.New\<close> builds for a type name: the zero value of the action.\<close>

definition ValidatePermit :: "(string \<Rightarrow> permit_action option) \<Rightarrow> permit option \<Rightarrow> error option" where
  "ValidatePermit prototype p =
     (case p of
        None \<Rightarrow> Some (permit_refusal [] ''missing action'')
      | Some p \<Rightarrow>
          if p_Action p = [] then Some (permit_refusal [] ''missing action'')
          else (case prototype (p_Action p) of
                  None \<Rightarrow> Some (permit_refusal (p_Action p) ''unknown action'')
                | Some a \<Rightarrow>
                    let constrained = \<not> empty_constraints (p_Constraints p)
                    in if \<not> constrained \<and> ApplyConstraints a None = Some False
                       then Some (permit_refusal (p_Action p) ''requires constraints'')
                       else (case ValidateConstraints a (p_Constraints p) of
                               Some (Some err) \<Rightarrow> if constrained then Some (permit_refusal (p_Action p) err) else None
                             | _ \<Rightarrow> None)))"

text \<open>The zero value of each action type.\<close>

definition prototypes :: "string \<Rightarrow> permit_action option" where
  "prototypes t =
     (if t \<in> set unconstrainable_types then Some (Unconstrainable t)
      else if t \<in> set refusing_types then Some (RefusesConstraints t)
      else if t = ''mod.auth.serve_objects_action'' then Some (ServeObjectsAction [])
      else if t = ''mod.services.service_discovery_action'' then Some (ServiceDiscoveryAction [] None)
      else if t = ''mod.messaging.read_mailbox_action'' then Some ReadMailboxAction
      else if t = ''mod.objects.create_object_action'' then Some CreateObjectAction
      else None)"

subsection \<open>What permits do\<close>

lemma DiscoveryScope_Allows_iff:
  "DiscoveryScope_Allows rules service node \<longleftrightarrow> (\<exists>r. Some r \<in> set rules \<and> DiscoveryRule_Allows r service node)"
  by (induction rules service node rule: DiscoveryScope_Allows.induct) auto

lemma DiscoveryRule_Allows_iff:
  "DiscoveryRule_Allows r service node \<longleftrightarrow> service \<in> set (dr_Services r) \<and> (dr_Nodes r = [] \<or> node \<noteq> None \<and> node \<in> set (dr_Nodes r))"
  by (auto simp: DiscoveryRule_Allows_def allowsService_def allowsNode_def)

lemma role_loop_iff:
  "role_loop role os allowed \<longleftrightarrow> (\<forall>c \<in> set os. \<exists>r. c = Role r) \<and> (allowed \<or> Role role \<in> set os)"
  by (induction role os allowed rule: role_loop.induct) auto

lemma discovery_applies:
  "ApplyConstraints (ServiceDiscoveryAction service node) cs = Some True \<longleftrightarrow>
     (\<exists>scope. cs = Some [Scope (Some scope)] \<and> DiscoveryScope_Allows scope service node)"
  by (cases cs) (auto simp: ApplyConstraints_def neq_Nil_conv split: list.splits constraint.splits option.splits, (metis list.exhaust)+)

lemma discovery_applies_total: "\<exists>b. ApplyConstraints (ServiceDiscoveryAction service node) cs = Some b"
  by (simp add: ApplyConstraints_def)

lemma discovery_permit:
  "Permit_Allows p (ServiceDiscoveryAction service node) \<Longrightarrow>
     \<exists>scope. p_Constraints p = Some [Scope (Some scope)] \<and> DiscoveryScope_Allows scope service node"
  using discovery_applies [of service node "p_Constraints p"] discovery_applies_total [of service node "p_Constraints p"]
  by (auto simp: Permit_Allows_def split: if_splits)

text \<open>The constraints an action of the kind can read: an issuer's narrowing that it cannot read must not widen the permit.\<close>

fun readable :: "permit_action \<Rightarrow> constraint \<Rightarrow> bool" where
  "readable (ServeObjectsAction r) c \<longleftrightarrow> (\<exists>s. c = Role s)"
| "readable (ServiceDiscoveryAction s n) c \<longleftrightarrow> (\<exists>sc. c = Scope (Some sc))"
| "readable _ c \<longleftrightarrow> False"

lemma unreadable_refused:
  assumes "Permit_Allows p a" and "p_Constraints p = Some os" and "c \<in> set os" and "\<not> readable a c"
  shows "a = CreateObjectAction \<or> (\<exists>t. a = Unconstrainable t)"
proof (cases a)
  case (ServeObjectsAction r)
  then show ?thesis using assms by (auto simp: Permit_Allows_def ApplyConstraints_def empty_constraints_def role_loop_iff split: if_splits)
next
  case (ServiceDiscoveryAction s n)
  then show ?thesis using assms discovery_permit [of p s n] by auto
qed (use assms in \<open>auto simp: Permit_Allows_def ApplyConstraints_def empty_constraints_def split: if_splits\<close>)

text \<open>What a permit allows is a permit the node would not refuse, when the action is a zero value's kind.\<close>

lemma action_type_nonempty: "known_action a \<Longrightarrow> action_ObjectType a \<noteq> []"
  by (cases a) (auto simp: known_action_def action_ObjectType_def refusing_types_def unconstrainable_types_def)

lemma prototype_kind:
  "known_action a \<Longrightarrow> \<exists>z. prototypes (action_ObjectType a) = Some z \<and>
     (case a of
        Unconstrainable t \<Rightarrow> z = a
      | RefusesConstraints t \<Rightarrow> z = a
      | ServeObjectsAction r \<Rightarrow> z = ServeObjectsAction []
      | ServiceDiscoveryAction s n \<Rightarrow> z = ServiceDiscoveryAction [] None
      | _ \<Rightarrow> z = a)"
  by (cases a) (auto simp: prototypes_def action_ObjectType_def known_action_def unconstrainable_types_def refusing_types_def)

lemma allowed_is_valid:
  assumes "known_action a" and "Permit_Allows p a"
  shows "ValidatePermit prototypes (Some p) = None"
proof -
  have t: "p_Action p = action_ObjectType a" using assms(2) by (simp add: Permit_Allows_def split: if_splits)
  obtain z where z: "prototypes (action_ObjectType a) = Some z" using prototype_kind [OF assms(1)] by blast
  have ne: "p_Action p \<noteq> []" using action_type_nonempty [OF assms(1)] t by simp
  show ?thesis
  proof (cases a)
    case (ServiceDiscoveryAction s n)
    then obtain scope r where "p_Constraints p = Some [Scope (Some scope)]" "Some r \<in> set scope" "s \<in> set (dr_Services r)"
      using assms(2) discovery_permit [of p s n] by (auto simp: DiscoveryScope_Allows_iff DiscoveryRule_Allows_iff)
    moreover have "\<exists>r \<in> set scope. \<exists>y. r = Some y \<and> dr_Services (the r) \<noteq> []"
      using calculation by (intro bexI [of _ "Some r"]) auto
    ultimately show ?thesis using ne t prototype_kind [OF assms(1)] ServiceDiscoveryAction
      by (auto simp: ValidatePermit_def ValidateConstraints_def empty_constraints_def Let_def)
  qed (use ne t prototype_kind [OF assms(1)] assms(2) in
      \<open>auto simp: ValidatePermit_def ValidateConstraints_def ApplyConstraints_def empty_constraints_def Permit_Allows_def Let_def split: if_splits option.splits\<close>)
qed

lemma permits_loop_some:
  "permits_loop action ps = (if None \<in> set ps then None else Some (filter (\<lambda>p. p_Action p = action) (map the ps)))"
  by (induction action ps rule: permits_loop.induct) (auto split: option.splits)

subsection \<open>Authorizers and delegates\<close>

record authorizer =
  a_Action :: string
  a_Actor :: "string option"
  a_Endpoint :: string
  a_TokenFile :: string
  a_TokenEnv :: string
  a_TokenValue :: string

definition Authorizer_Validate :: "authorizer \<Rightarrow> error option" where
  "Authorizer_Validate a =
     (if a_Action a = [] then Some (ErrMsg ''authorizer assignment: no action named'')
      else if a_Endpoint a = [] then Some (ErrMsg ''authorizer assignment: no endpoint named'')
      else if length (filter (\<lambda>s. s \<noteq> []) [a_TokenFile a, a_TokenEnv a, a_TokenValue a]) > 1
      then Some (ErrMsg ''authorizer assignment: more than one token source'')
      else None)"

text \<open>\<open>is_zero\<close>: the zero identity.\<close>

fun AppRegisterDecision_Validate :: "(string \<Rightarrow> bool) \<Rightarrow> authorizer option list \<Rightarrow> error option" where
  "AppRegisterDecision_Validate is_zero [] = None"
| "AppRegisterDecision_Validate is_zero (None # as) = Some (ErrMsg ''app register decision: nil authorizer assignment'')"
| "AppRegisterDecision_Validate is_zero (Some a # as) =
     (if (case a_Actor a of None \<Rightarrow> False | Some i \<Rightarrow> \<not> is_zero i)
      then Some (ErrMsg ''app register decision: an assignment names an actor'')
      else case Authorizer_Validate a of
             Some e \<Rightarrow> Some e
           | None \<Rightarrow> AppRegisterDecision_Validate is_zero as)"

lemma decision_valid_iff:
  "AppRegisterDecision_Validate is_zero as = None \<longleftrightarrow>
     (\<forall>a \<in> set as. \<exists>x. a = Some x \<and> (\<forall>i. a_Actor x = Some i \<longrightarrow> is_zero i) \<and> Authorizer_Validate x = None)"
  by (induction is_zero as rule: AppRegisterDecision_Validate.induct) (auto split: option.splits)

definition MaxTimeout :: int where "MaxTimeout = 600 * 1000000000"

record delegate =
  d_Identity :: "string option"
  d_Operation :: string
  d_Timeout :: int

definition Delegate_IsZero :: "(string \<Rightarrow> bool) \<Rightarrow> delegate option \<Rightarrow> bool" where
  "Delegate_IsZero is_zero d =
     (case d of None \<Rightarrow> True | Some d \<Rightarrow> (case d_Identity d of None \<Rightarrow> True | Some i \<Rightarrow> is_zero i))"

definition Delegate_Validate :: "(string \<Rightarrow> bool) \<Rightarrow> delegate \<Rightarrow> error option" where
  "Delegate_Validate is_zero d =
     (if Delegate_IsZero is_zero (Some d) then Some (ErrMsg ''policy delegate: no identity named'')
      else if d_Operation d = [] then Some (ErrMsg ''policy delegate: no operation named'')
      else if d_Timeout d > MaxTimeout then Some (ErrMsg ''policy delegate: timeout above 10m0s'')
      else None)"

definition delegate_timeout :: "delegate \<Rightarrow> int" where
  "delegate_timeout d = (if d_Timeout d \<le> 0 then MaxTimeout else d_Timeout d)"

text \<open>
  One question to a delegate: the route, the Send and the answer, and the end of the context in
  the middle, which closes the channel and makes the read fail.
\<close>

definition policy_Ask :: "error option \<Rightarrow> error option \<Rightarrow> 'o option res \<Rightarrow> 'o res" where
  "policy_Ask routed sent answer =
     (case routed of
        Some e \<Rightarrow> Inl e
      | None \<Rightarrow>
          (case sent of
             Some e \<Rightarrow> Inl e
           | None \<Rightarrow>
               (case answer of
                  Inl e \<Rightarrow> Inl e
                | Inr None \<Rightarrow> Inl (ErrMsg ''delegate answered nothing'')
                | Inr (Some obj) \<Rightarrow> Inr obj)))"

lemma delegate_bounded: "Delegate_Validate is_zero d = None \<Longrightarrow> 0 < delegate_timeout d \<and> delegate_timeout d \<le> MaxTimeout"
  by (auto simp: Delegate_Validate_def delegate_timeout_def MaxTimeout_def split: if_splits)

end
