(* ===== verification/Bip39.thy ===== *)
theory Bip39
  imports Bip39_Words Hex Scalars
begin

text \<open>
  Recovery phrases and key paths: \<^verbatim>\<open>src/api/bip137sig/bip39.go\<close>, \<^verbatim>\<open>entropy.go\<close>, \<^verbatim>\<open>seed.go\<close> and \<^verbatim>\<open>bip32.go\<close>.  The hash
  and the key derivation (\<^verbatim>\<open>crypto/sha256\<close>, \<^verbatim>\<open>pbkdf2\<close> with SHA-512) are arguments of the definitions.
  The loops over bits are folds over the indices the code runs through.
\<close>

subsection \<open>Mnemonics\<close>

definition MinEntropyBits :: nat where "MinEntropyBits = 128"
definition MaxEntropyBits :: nat where "MaxEntropyBits = 256"
definition EntropyStepBits :: nat where "EntropyStepBits = 32"
definition MinEntropyBytes :: nat where "MinEntropyBytes = MinEntropyBits div 8"
definition MaxEntropyBytes :: nat where "MaxEntropyBytes = MaxEntropyBits div 8"
definition EntropyStepBytes :: nat where "EntropyStepBytes = EntropyStepBits div 8"
definition SeedLengthBytes :: nat where "SeedLengthBytes = 64"

definition ErrInvalidMnemonic :: error where "ErrInvalidMnemonic = ErrMsg ''invalid mnemonic''"
definition ErrInvalidMnemonicWordCount :: error where
  "ErrInvalidMnemonicWordCount = ErrMsg ''mnemonic must be 12, 15, 18, 21, or 24 words''"
definition ErrInvalidEntropySize :: error where
  "ErrInvalidEntropySize = ErrMsg ''entropy must be 128-256 bits in 32-bit increments''"
definition ErrInvalidEntropyLength :: error where "ErrInvalidEntropyLength = ErrMsg ''invalid entropy length''"
definition ErrInvalidSeedLength :: error where "ErrInvalidSeedLength = ErrMsg ''invalid BIP-39 seed length''"

definition byte_bit :: "bytes \<Rightarrow> nat \<Rightarrow> bool" where
  "byte_bit bs i \<longleftrightarrow> bs ! (i div 8) AND push_bit (7 - i mod 8) 1 \<noteq> 0"

definition word_index :: "bool list \<Rightarrow> nat \<Rightarrow> nat" where
  "word_index bits i = foldl (\<lambda>idx j. if bits ! (i * 11 + j) then idx OR push_bit (10 - j) 1 else idx) 0 [0..<11]"

definition EntropyToMnemonic :: "(bytes \<Rightarrow> bytes) \<Rightarrow> bytes \<Rightarrow> string list res" where
  "EntropyToMnemonic sha256 entropy =
     (let entropyBits = length entropy * 8 in
      if entropyBits < MinEntropyBits \<or> MaxEntropyBits < entropyBits \<or> entropyBits mod EntropyStepBits \<noteq> 0
      then Inl ErrInvalidEntropySize
      else let checksumBits = entropyBits div 32;
               hash = sha256 entropy;
               totalBits = entropyBits + checksumBits;
               bits = map (byte_bit entropy) [0..<entropyBits] @ map (byte_bit hash) [0..<checksumBits]
        in Inr (map (\<lambda>i. wordlist ! word_index bits i) [0..<totalBits div 11]))"

fun index_word :: "string list \<Rightarrow> string \<Rightarrow> nat option" where
  "index_word [] w = None"
| "index_word (x # xs) w = (if x = w then Some 0 else map_option Suc (index_word xs w))"

fun word_indices :: "string list \<Rightarrow> nat list res" where
  "word_indices [] = Inr []"
| "word_indices (w # ws) =
     (case index_word wordlist w of
        None \<Rightarrow> Inl ErrInvalidMnemonic
      | Some k \<Rightarrow> (case word_indices ws of Inl e \<Rightarrow> Inl e | Inr ks \<Rightarrow> Inr (k # ks)))"

definition index_bits :: "nat \<Rightarrow> bool list" where
  "index_bits idx = map (\<lambda>j. idx AND push_bit (10 - j) 1 \<noteq> 0) [0..<11]"

definition pack_bits :: "bool list \<Rightarrow> nat \<Rightarrow> bytes" where
  "pack_bits bits n =
     foldl (\<lambda>e i. if bits ! i then e[i div 8 := e ! (i div 8) OR push_bit (7 - i mod 8) 1] else e) (replicate (n div 8) 0) [0..<n]"

definition MnemonicToEntropy :: "(bytes \<Rightarrow> bytes) \<Rightarrow> string list \<Rightarrow> bytes res" where
  "MnemonicToEntropy sha256 words =
     (let wordCount = length words in
      if wordCount \<noteq> 12 \<and> wordCount \<noteq> 15 \<and> wordCount \<noteq> 18 \<and> wordCount \<noteq> 21 \<and> wordCount \<noteq> 24
      then Inl ErrInvalidMnemonicWordCount
      else case word_indices words of
        Inl e \<Rightarrow> Inl e
      | Inr indices \<Rightarrow>
          (let totalBits = wordCount * 11;
               checksumBits = wordCount div 3;
               entropyBits = totalBits - checksumBits;
               bits = concat (map index_bits indices);
               entropy = pack_bits bits entropyBits;
               hash = sha256 entropy
           in if list_all (\<lambda>i. bits ! (entropyBits + i) = byte_bit hash i) [0..<checksumBits]
              then Inr entropy else Inl ErrInvalidMnemonic))"

text \<open>\<^verbatim>\<open>strings.Join\<close> with a space; \<open>pbkdf2\<close> takes the password, the salt, the rounds and the length.\<close>

fun join_words :: "string list \<Rightarrow> string" where
  "join_words [] = []"
| "join_words [w] = w"
| "join_words (w # ws) = w @ '' '' @ join_words ws"

definition MnemonicToSeed :: "(bytes \<Rightarrow> bytes) \<Rightarrow> (bytes \<Rightarrow> bytes \<Rightarrow> nat \<Rightarrow> nat \<Rightarrow> bytes) \<Rightarrow> string list \<Rightarrow> string \<Rightarrow> bytes res" where
  "MnemonicToSeed sha256 pbkdf2 words passphrase =
     (case MnemonicToEntropy sha256 words of
        Inl e \<Rightarrow> Inl e
      | Inr _ \<Rightarrow> Inr (pbkdf2 (str_bytes (join_words words)) (str_bytes (''mnemonic'' @ passphrase)) 2048 SeedLengthBytes))"

text \<open>\<open>random\<close> is what \<^verbatim>\<open>rand.Read\<close> fills a buffer of the given length with.\<close>

definition NewEntropy :: "(nat \<Rightarrow> bytes res) \<Rightarrow> nat \<Rightarrow> bytes res" where
  "NewEntropy random bits =
     (if bits mod EntropyStepBits \<noteq> 0 \<or> bits < MinEntropyBits \<or> MaxEntropyBits < bits
      then Inl (ErrMsg ''invalid entropy size'')
      else random (bits div 8))"

subsection \<open>Wire and text forms\<close>

definition entropy_length :: "nat \<Rightarrow> bool" where
  "entropy_length l \<longleftrightarrow> \<not> (l < MinEntropyBytes \<or> MaxEntropyBytes < l \<or> l mod EntropyStepBytes \<noteq> 0)"

text \<open>The length is cut to eight bits before it is checked.\<close>

definition Entropy_WriteTo :: "bytes \<Rightarrow> writer" where
  "Entropy_WriteTo e =
     (let l = of_nat (length e) :: 8 word in
      if \<not> entropy_length (unat l) then wfail ErrInvalidEntropyLength else wseq (writeFixed l) (Write e))"

definition Entropy_ReadFrom :: "bytes reader" where
  "Entropy_ReadFrom r =
     (case (readFixed :: 8 word reader) r of
        (Inl e, n, r1) \<Rightarrow> (Inl e, n, r1)
      | (Inr l, n, r1) \<Rightarrow>
          if \<not> entropy_length (unat l) then (Inl ErrInvalidEntropyLength, 0, r1)
          else case ReadFull (unat l) r1 of (x, m, r2) \<Rightarrow> (x, n + m, r2))"

definition Entropy_MarshalText :: "bytes \<Rightarrow> string" where
  "Entropy_MarshalText e = hex_encode e"

definition Entropy_UnmarshalText :: "string \<Rightarrow> bytes res" where
  "Entropy_UnmarshalText s = hex_decode s"

definition Seed_WriteTo :: "bytes \<Rightarrow> writer" where
  "Seed_WriteTo s =
     (if length s \<noteq> SeedLengthBytes then wfail ErrInvalidSeedLength
      else wseq (writeFixed (of_nat (length s) :: 8 word)) (Write s))"

definition Seed_ReadFrom :: "bytes reader" where
  "Seed_ReadFrom =
     rbind (readFixed :: 8 word reader)
       (\<lambda>l. if unat l \<noteq> SeedLengthBytes then rfail ErrInvalidSeedLength else ReadFull (unat l))"

definition Seed_MarshalText :: "bytes \<Rightarrow> string" where
  "Seed_MarshalText s = hex_encode s"

definition Seed_UnmarshalText :: "string \<Rightarrow> bytes res" where
  "Seed_UnmarshalText s = hex_decode s"

subsection \<open>Bits\<close>

lemma masked_bit: "(x AND push_bit k 1 \<noteq> 0) = bit x k" for x :: "'a::semiring_bit_operations"
  by (metis and_exp_eq_0_iff_not_bit push_bit_of_1)

lemma byte_bit_iff: "byte_bit bs i = bit (bs ! (i div 8)) (7 - i mod 8)"
  by (simp only: byte_bit_def masked_bit)

lemma or_fold_bit:
  "bit (foldl (\<lambda>x j. if P j then x OR push_bit (f j) 1 else x) (a :: nat) js) n \<longleftrightarrow>
     bit a n \<or> (\<exists>j \<in> set js. P j \<and> f j = n)"
  by (induction js arbitrary: a) (auto simp: bit_or_iff bit_exp_iff)

lemma word_index_bit: "bit (word_index bits i) n \<longleftrightarrow> n < 11 \<and> bits ! (i * 11 + (10 - n))"
  unfolding word_index_def or_fold_bit by (auto intro!: bexI [of _ "10 - n"])

lemma nat_below_bits: "(\<And>n. bit x n \<Longrightarrow> n < k) \<Longrightarrow> (x :: nat) < 2 ^ k"
  by (metis bit_take_bit_iff bit_eq_iff take_bit_nat_less_exp)

lemma word_index_less: "word_index bits i < 2048"
  using nat_below_bits [of "word_index bits i" 11] word_index_bit by auto

lemma index_bits_nth: "j < 11 \<Longrightarrow> index_bits idx ! j = bit idx (10 - j)"
  by (simp only: index_bits_def masked_bit) simp

lemma length_index_bits [simp]: "length (index_bits idx) = 11"
  by (simp add: index_bits_def)

lemma concat_rows:
  assumes "\<And>x. x \<in> set xs \<Longrightarrow> length (f x) = k" and "i < length xs" and "j < k"
  shows "concat (map f xs) ! (i * k + j) = f (xs ! i) ! j"
  using assms
proof (induction xs arbitrary: i)
  case (Cons x xs)
  then show ?case by (cases i) (auto simp: nth_append)
qed simp

lemma length_rows: "(\<And>x. x \<in> set xs \<Longrightarrow> length (f x) = k) \<Longrightarrow> length (concat (map f xs)) = length xs * k"
  by (induction xs) auto

text \<open>Eleven bits and an index below 2048 determine each other.\<close>

lemma index_of_bits: "k < 2048 \<Longrightarrow> (\<And>j. j < 11 \<Longrightarrow> bits ! (i * 11 + j) = bit k (10 - j)) \<Longrightarrow> word_index bits i = k"
proof (rule bit_eqI)
  fix n
  assume k: "k < 2048" and b: "\<And>j. j < 11 \<Longrightarrow> bits ! (i * 11 + j) = bit k (10 - j)"
  have "\<not> bit k n" if "11 \<le> n" for n
  proof -
    have "k < 2 ^ n" using k power_increasing [OF that, of "2 :: nat"] by simp
    then show ?thesis by (simp add: bit_iff_odd)
  qed
  moreover have "bits ! (i * 11 + (10 - n)) = bit k n" if "n < 11" using b [of "10 - n"] that by simp
  ultimately show "bit (word_index bits i) n = bit k n" unfolding word_index_bit by (cases "n < 11") auto
qed

lemma bits_of_indices: "i < W \<Longrightarrow> j < 11 \<Longrightarrow> concat (map index_bits (map (word_index bits) [0..<W])) ! (i * 11 + j) = bits ! (i * 11 + j)"
  using concat_rows [of "map (word_index bits) [0..<W]" index_bits 11 i j] by (auto simp: index_bits_nth word_index_bit)

lemma row_split: "i < W * 11 \<Longrightarrow> \<exists>q r. i = q * 11 + r \<and> q < W \<and> r < 11" for i :: nat
  by (rule exI [of _ "i div 11"], rule exI [of _ "i mod 11"]) (simp add: less_mult_imp_div_less)

lemma indices_of_bits: "length bits = W * 11 \<Longrightarrow> concat (map index_bits (map (word_index bits) [0..<W])) = bits"
proof (rule nth_equalityI)
  assume l: "length bits = W * 11"
  then show len: "length (concat (map index_bits (map (word_index bits) [0..<W]))) = length bits"
    using length_rows [of "map (word_index bits) [0..<W]" index_bits 11] by simp
  fix i
  assume "i < length (concat (map index_bits (map (word_index bits) [0..<W])))"
  then obtain q r where "i = q * 11 + r" "q < W" "r < 11" using len l row_split by metis
  then show "concat (map index_bits (map (word_index bits) [0..<W])) ! i = bits ! i" using bits_of_indices by blast
qed

lemma pack_loop:
  assumes "\<And>i. i \<in> set is \<Longrightarrow> i div 8 < length e"
  shows "length (foldl (\<lambda>e i. if B i then e[i div 8 := e ! (i div 8) OR push_bit (7 - i mod 8) 1] else e) e is) = length e \<and>
    (\<forall>k < length e. \<forall>n < 8. bit (foldl (\<lambda>e i. if B i then e[i div 8 := e ! (i div 8) OR push_bit (7 - i mod 8) 1] else e) e is ! k :: byte) n \<longleftrightarrow>
       bit (e ! k) n \<or> (\<exists>i \<in> set is. B i \<and> i div 8 = k \<and> 7 - i mod 8 = n))"
  using assms
proof (induction "is" arbitrary: e)
  case (Cons i "is")
  let ?e = "if B i then e[i div 8 := e ! (i div 8) OR push_bit (7 - i mod 8) 1] else e"
  have "bit (?e ! k) n \<longleftrightarrow> bit (e ! k) n \<or> B i \<and> i div 8 = k \<and> 7 - i mod 8 = n" if "k < length e" "n < 8" for k n
    using that Cons.prems [of i] by (cases "i div 8 = k") (auto simp: bit_or_iff bit_exp_iff)
  moreover have "length ?e = length e" by simp
  ultimately show ?case using Cons.IH [of ?e] Cons.prems by auto
qed simp

lemma pack_spec:
  assumes "n mod 8 = 0"
  shows "length (pack_bits bits n) = n div 8"
    and "k < n div 8 \<Longrightarrow> m < 8 \<Longrightarrow> bit (pack_bits bits n ! k) m \<longleftrightarrow> (\<exists>i < n. bits ! i \<and> i div 8 = k \<and> 7 - i mod 8 = m)"
proof -
  have "\<And>i. i \<in> set [0..<n] \<Longrightarrow> i div 8 < length (replicate (n div 8) (0 :: byte))" using assms by auto
  note l = pack_loop [of "[0..<n]" "replicate (n div 8) 0" "\<lambda>i. bits ! i", OF this, folded pack_bits_def]
  show "length (pack_bits bits n) = n div 8" using l by simp
  show "bit (pack_bits bits n ! k) m \<longleftrightarrow> (\<exists>i < n. bits ! i \<and> i div 8 = k \<and> 7 - i mod 8 = m)" if "k < n div 8" "m < 8"
    using l that by auto
qed

lemma bit_place:
  fixes i k m :: nat
  assumes "m < 8"
  shows "i div 8 = k \<and> 7 - i mod 8 = m \<longleftrightarrow> i = k * 8 + (7 - m)"
proof -
  obtain r where r: "7 - m = r" "r < 8" "m = 7 - r" using assms that [of "7 - m"] by simp
  have "i div 8 = k \<and> 7 - i mod 8 = 7 - r \<longleftrightarrow> i div 8 = k \<and> i mod 8 = r" using r(2) mod_less_divisor [of 8 i] by auto
  also have "\<dots> \<longleftrightarrow> i = k * 8 + r" using r(2) by (auto simp: div_mult_mod_eq)
  finally show ?thesis using r by simp
qed

lemma byte_bit_at: "m < 8 \<Longrightarrow> byte_bit e (k * 8 + (7 - m)) = bit (e ! k) m"
  by (metis bit_place byte_bit_iff)

lemma pack_bits_bit:
  assumes "k < n div 8" and "m < 8" and "n mod 8 = 0"
  shows "bit (pack_bits bits n ! k) m \<longleftrightarrow> bits ! (k * 8 + (7 - m))"
proof -
  have "k * 8 + (7 - m) < n" using assms(1) by linarith
  then show ?thesis using pack_spec(2) [OF assms(3,1,2)] bit_place [OF assms(2)] by auto
qed

lemmas length_pack_bits [simp] = pack_spec(1)

lemma pack_byte_bits:
  assumes "n = length e * 8" and "\<And>i. i < n \<Longrightarrow> bits ! i = byte_bit e i"
  shows "pack_bits bits n = e"
proof (rule nth_equalityI)
  show "length (pack_bits bits n) = length e" using assms(1) by simp
  fix k
  assume "k < length (pack_bits bits n)"
  then have k: "k < length e" using assms(1) by simp
  show "pack_bits bits n ! k = e ! k"
  proof (rule bit_word_eqI)
    fix m :: nat
    assume m: "m < LENGTH(8)"
    have "k * 8 + (7 - m) < n" using k assms(1) by linarith
    then show "bit (pack_bits bits n ! k) m = bit (e ! k) m"
      using pack_bits_bit [of k n m bits] byte_bit_at [of m e k] k m assms by simp
  qed
qed

lemma byte_bit_packed: "n mod 8 = 0 \<Longrightarrow> i < n \<Longrightarrow> byte_bit (pack_bits bits n) i = bits ! i"
proof -
  assume n: "n mod 8 = 0" "i < n"
  have "i div 8 < n div 8" using n by (metis div_mult_mod_eq add.right_neutral less_mult_imp_div_less)
  moreover have "i div 8 * 8 + (7 - (7 - i mod 8)) = i" using bit_place [of "7 - i mod 8" i "i div 8"] by simp
  ultimately show ?thesis using pack_bits_bit [of "i div 8" n "7 - i mod 8" bits] n by (simp add: byte_bit_iff)
qed

subsection \<open>Words\<close>

lemma index_word_nth: "distinct ws \<Longrightarrow> k < length ws \<Longrightarrow> index_word ws (ws ! k) = Some k"
  by (induction ws arbitrary: k) (auto simp: nth_Cons split: nat.splits)

lemma index_word_Some: "index_word ws w = Some k \<Longrightarrow> k < length ws \<and> ws ! k = w"
  by (induction ws arbitrary: k) (auto split: if_splits)

lemma index_word_None: "index_word ws w = None \<longleftrightarrow> w \<notin> set ws"
  by (induction ws) auto

lemma word_indices_of: "list_all (\<lambda>k. k < 2048) ks \<Longrightarrow> word_indices (map (\<lambda>k. wordlist ! k) ks) = Inr ks"
  by (induction ks) (auto simp: index_word_nth wordlist_distinct wordlist_length)

lemma word_indices_sound:
  "word_indices ws = Inr ks \<Longrightarrow> ws = map (\<lambda>k. wordlist ! k) ks \<and> list_all (\<lambda>k. k < 2048) ks"
  by (induction ws arbitrary: ks)
    (auto dest: index_word_Some simp: wordlist_length [symmetric] split: option.splits sum.splits)

lemma word_indices_error: "word_indices ws = Inl e \<longleftrightarrow> e = ErrInvalidMnemonic \<and> \<not> set ws \<subseteq> set wordlist"
proof (induction ws)
  case (Cons w ws)
  show ?case
  proof (cases "index_word wordlist w")
    case None
    then show ?thesis using index_word_None [of wordlist w] by auto
  next
    case (Some k)
    then have "w \<in> set wordlist" using index_word_None [of wordlist w] by auto
    then show ?thesis using Some Cons by (auto split: sum.splits)
  qed
qed simp

subsection \<open>Entropy and mnemonics determine each other\<close>

text \<open>The sizes: \<open>m\<close> groups of four bytes give three words each.\<close>

lemma entropy_length_iff: "entropy_length l \<longleftrightarrow> (\<exists>m \<in> {4..8}. l = 4 * m)"
proof
  assume "entropy_length l"
  then have "16 \<le> l" "l \<le> 32" "l = 4 * (l div 4)"
    by (auto simp: entropy_length_def MinEntropyBytes_def MaxEntropyBytes_def EntropyStepBytes_def MinEntropyBits_def
        MaxEntropyBits_def EntropyStepBits_def)
  then show "\<exists>m \<in> {4..8}. l = 4 * m" by (intro bexI [of _ "l div 4"]) auto
qed (auto simp: entropy_length_def MinEntropyBytes_def MaxEntropyBytes_def EntropyStepBytes_def MinEntropyBits_def
        MaxEntropyBits_def EntropyStepBits_def)

definition entropy_stream :: "(bytes \<Rightarrow> bytes) \<Rightarrow> bytes \<Rightarrow> bool list" where
  "entropy_stream sha256 e =
     map (byte_bit e) [0..<length e * 8] @ map (byte_bit (sha256 e)) [0..<length e div 4]"

lemma EntropyToMnemonic_eq:
  assumes "length e = 4 * m" and "m \<in> {4..8}"
  shows "EntropyToMnemonic sha256 e = Inr (map (\<lambda>i. wordlist ! word_index (entropy_stream sha256 e) i) [0..<3 * m])"
  using assms by (simp add: EntropyToMnemonic_def entropy_stream_def Let_def MinEntropyBits_def MaxEntropyBits_def EntropyStepBits_def)

lemma EntropyToMnemonic_error:
  "\<not> entropy_length (length e) \<Longrightarrow> EntropyToMnemonic sha256 e = Inl ErrInvalidEntropySize"
  unfolding EntropyToMnemonic_def entropy_length_def Let_def MinEntropyBits_def MaxEntropyBits_def EntropyStepBits_def
    MinEntropyBytes_def MaxEntropyBytes_def EntropyStepBytes_def
  by (simp add: mod_mult_mult2 [of _ 8 4, simplified])

lemma MnemonicToEntropy_eq:
  assumes "length ws = 3 * m" and "m \<in> {4..8}" and "word_indices ws = Inr ks" and "bits = concat (map index_bits ks)"
  shows "MnemonicToEntropy sha256 ws =
    (let e = pack_bits bits (32 * m) in
     if list_all (\<lambda>i. bits ! (32 * m + i) = byte_bit (sha256 e) i) [0..<m] then Inr e else Inl ErrInvalidMnemonic)"
proof -
  have "m = 4 \<or> m = 5 \<or> m = 6 \<or> m = 7 \<or> m = 8" using assms(2) by auto
  then show ?thesis using assms by (auto simp: MnemonicToEntropy_def Let_def)
qed

lemma stream_of_entropy:
  assumes "length e = 4 * m"
  shows "length (entropy_stream sha256 e) = 3 * m * 11" and "i < 32 * m \<Longrightarrow> entropy_stream sha256 e ! i = byte_bit e i"
    and "i < m \<Longrightarrow> entropy_stream sha256 e ! (32 * m + i) = byte_bit (sha256 e) i"
  using assms by (auto simp: entropy_stream_def nth_append)

lemma mnemonic_of_entropy:
  assumes "length e = 4 * m" and "m \<in> {4..8}"
  shows "MnemonicToEntropy sha256 (map (\<lambda>i. wordlist ! word_index (entropy_stream sha256 e) i) [0..<3 * m]) = Inr e"
proof -
  let ?B = "entropy_stream sha256 e" and ?ks = "map (word_index (entropy_stream sha256 e)) [0..<3 * m]"
  have "word_indices (map (\<lambda>k. wordlist ! k) ?ks) = Inr ?ks" by (rule word_indices_of) (simp add: list_all_iff word_index_less)
  moreover have "concat (map index_bits ?ks) = ?B" by (rule indices_of_bits) (rule stream_of_entropy(1) [OF assms(1)])
  moreover have "pack_bits ?B (32 * m) = e" by (rule pack_byte_bits) (use assms stream_of_entropy(2) [OF assms(1)] in auto)
  ultimately show ?thesis
    using MnemonicToEntropy_eq [of "map (\<lambda>k. wordlist ! k) ?ks" m ?ks ?B sha256] assms(2) stream_of_entropy(3) [OF assms(1)]
    by (simp add: comp_def Let_def list_all_iff)
qed

lemma entropy_of_mnemonic:
  assumes "MnemonicToEntropy sha256 ws = Inr e"
  shows "EntropyToMnemonic sha256 e = Inr ws \<and> (\<exists>m \<in> {4..8}. length ws = 3 * m \<and> length e = 4 * m)"
proof -
  have "length ws = 12 \<or> length ws = 15 \<or> length ws = 18 \<or> length ws = 21 \<or> length ws = 24"
    using assms by (auto simp: MnemonicToEntropy_def Let_def split: if_splits)
  then obtain m where m: "length ws = 3 * m" "m \<in> {4..8}"
    by (elim disjE) (auto intro: that [of 4] that [of 5] that [of 6] that [of 7] that [of 8])
  obtain ks where ks: "word_indices ws = Inr ks"
    using assms by (cases "word_indices ws") (auto simp: MnemonicToEntropy_def Let_def split: if_splits)
  then have ws: "ws = map (\<lambda>k. wordlist ! k) ks" "list_all (\<lambda>k. k < 2048) ks" using word_indices_sound by blast+
  define B where "B = concat (map index_bits ks)"
  have lB: "length B = 3 * m * 11" using length_rows [of ks index_bits 11] m(1) ws(1) by (simp add: B_def)
  have e: "e = pack_bits B (32 * m)" and ck: "\<And>i. i < m \<Longrightarrow> B ! (32 * m + i) = byte_bit (sha256 e) i"
    using assms MnemonicToEntropy_eq [OF m ks B_def] by (auto simp: Let_def list_all_iff split: if_splits)
  have le: "length e = 4 * m" using e by simp
  have "entropy_stream sha256 e = B"
  proof (rule nth_equalityI)
    show "length (entropy_stream sha256 e) = length B" using stream_of_entropy(1) [OF le] lB by simp
    fix i
    assume i: "i < length (entropy_stream sha256 e)"
    show "entropy_stream sha256 e ! i = B ! i"
    proof (cases "i < 32 * m")
      case True
      then show ?thesis using stream_of_entropy(2) [OF le] byte_bit_packed [of "32 * m" i B] e by simp
    next
      case False
      have "i < 33 * m" using i stream_of_entropy(1) [OF le, of sha256] by simp
      with False obtain j where "i = 32 * m + j" "j < m" using that [of "i - 32 * m"] by simp
      then show ?thesis using stream_of_entropy(3) [OF le] ck by simp
    qed
  qed
  moreover have "word_index B i = ks ! i" if "i < 3 * m" for i
    by (rule index_of_bits) (use that ws m(1) concat_rows [of ks index_bits 11 i] in \<open>auto simp: B_def list_all_length index_bits_nth\<close>)
  ultimately have "map (\<lambda>i. wordlist ! word_index (entropy_stream sha256 e) i) [0..<3 * m] = ws"
    using ws(1) m(1) by (intro nth_equalityI) auto
  then show ?thesis using EntropyToMnemonic_eq [OF le m(2), of sha256] m le by blast
qed

subsection \<open>Wire forms\<close>

lemma rb_rmono:
  assumes "reads_back W R v" and "\<And>r n r'. R r = (Inr v, n, r') \<Longrightarrow> R' r = (Inr v, n, r')"
  shows "reads_back W R' v"
proof (rule reads_backI)
  fix w n w'
  assume "W w = (None, n, w')"
  with assms(1) show "keeps (wb w) (wb w') \<and> (\<exists>bs. out w' = out w @ bs \<and> length bs = n \<and>
      (\<forall>rest ob. led_le ob (wb w) \<longrightarrow>
         (\<exists>ob'. R' \<lparr>inp = bs @ rest, rb = ob\<rparr> = (Inr v, n, \<lparr>inp = rest, rb = ob'\<rparr>) \<and>
                keeps ob ob' \<and> led_le ob' (wb w'))))"
    by (rule reads_backE) (use assms(2) in blast)
qed

lemma rb_short:
  assumes "unat (of_nat (length p) :: 8 word) = length p" and "P (length p)"
  shows "reads_back (wseq (writeFixed (of_nat (length p) :: 8 word)) (Write p))
    (rbind (readFixed :: 8 word reader) (\<lambda>l. if P (unat l) then ReadFull (unat l) else rfail e)) p"
  by (rule rb_seq [OF rb_fixed]) (simp, use rb_write [of p] in \<open>simp only: assms if_True\<close>)

lemma entropy_length_byte: "entropy_length l \<Longrightarrow> unat (of_nat l :: 8 word) = l"
  by (auto simp: entropy_length_iff unat_of_nat take_bit_nat_eq_self)

interpretation entropyc: wire_codec Entropy_WriteTo Entropy_ReadFrom "\<lambda>e. entropy_length (length e)"
proof
  fix e :: bytes
  assume l: "entropy_length (length e)"
  note rt = rb_short [OF entropy_length_byte [OF l], of entropy_length ErrInvalidEntropyLength, OF l]
  have "reads_back (wseq (writeFixed (of_nat (length e) :: 8 word)) (Write e)) Entropy_ReadFrom e"
    by (rule rb_rmono [OF rt]) (auto simp: Entropy_ReadFrom_def rbind_def rfail_def split: prod.splits sum.splits if_splits)
  then show "reads_back (Entropy_WriteTo e) Entropy_ReadFrom e"
    using l entropy_length_byte [OF l] by (simp add: Entropy_WriteTo_def Let_def)
qed

interpretation seedc: wire_codec Seed_WriteTo Seed_ReadFrom "\<lambda>s. True"
proof
  fix s :: bytes
  show "reads_back (Seed_WriteTo s) Seed_ReadFrom s"
  proof (cases "length s = SeedLengthBytes")
    case True
    then have "unat (of_nat (length s) :: 8 word) = length s" by (simp add: SeedLengthBytes_def)
    note rt = rb_short [OF this, of "\<lambda>l. l = SeedLengthBytes" ErrInvalidSeedLength, OF True]
    have "reads_back (wseq (writeFixed (of_nat (length s) :: 8 word)) (Write s)) Seed_ReadFrom s"
      by (rule rb_rmono [OF rt]) (auto simp: Seed_ReadFrom_def rbind_def rfail_def split: prod.splits sum.splits if_splits)
    then show ?thesis using True by (simp add: Seed_WriteTo_def)
  qed (simp add: Seed_WriteTo_def rb_fail)
qed

text \<open>
  An entropy that is too long by a multiple of 256 bytes passes the check on its cut length; its
  reader takes the length at its word and leaves the other bytes on the stream.
\<close>

lemma Entropy_WriteTo_wraps:
  assumes "entropy_length (length e mod 256)"
  shows "Entropy_WriteTo e \<lparr>out = [], wb = None\<rparr> =
      (None, length e + 1, \<lparr>out = of_nat (length e mod 256) # e, wb = None\<rparr>)"
    and "Entropy_ReadFrom \<lparr>inp = of_nat (length e mod 256) # e, rb = None\<rparr> =
      (Inr (take (length e mod 256) e), length e mod 256 + 1, \<lparr>inp = drop (length e mod 256) e, rb = None\<rparr>)"
proof -
  have u: "unat (of_nat (length e) :: 8 word) = length e mod 256" by (simp add: unat_of_nat take_bit_eq_mod)
  have w: "(of_nat (length e) :: 8 word) = of_nat (length e mod 256)" 
    by (rule word_unat_eq_iff [THEN iffD2]) (simp add: unat_of_nat take_bit_eq_mod)
  show "Entropy_WriteTo e \<lparr>out = [], wb = None\<rparr> = (None, length e + 1, \<lparr>out = of_nat (length e mod 256) # e, wb = None\<rparr>)"
    using assms u w by (simp add: Entropy_WriteTo_def Let_def wseq_def writeFixed_def Write_def)
  show "Entropy_ReadFrom \<lparr>inp = of_nat (length e mod 256) # e, rb = None\<rparr> =
      (Inr (take (length e mod 256) e), length e mod 256 + 1, \<lparr>inp = drop (length e mod 256) e, rb = None\<rparr>)"
    using assms u w by (simp add: Entropy_ReadFrom_def readFixed_def ReadFull_def room_def spend_def be_nat_def Let_def)
qed

subsection \<open>Key paths\<close>

definition hardenedOffset :: "64 word" where "hardenedOffset = 0x80000000"

definition path_element :: "string \<Rightarrow> 32 word res" where
  "path_element p =
     (let hardened = (p \<noteq> [] \<and> (last p = CHR 0x27 \<or> last p = CHR ''h''));
          p1 = (if hardened then butlast p else p)
      in case parseUint p1 10 31 of
           Inl e \<Rightarrow> Inl (ErrMsg ''invalid path element'')
         | Inr i \<Rightarrow> Inr (ucast (if hardened then of_nat i OR hardenedOffset else of_nat i)))"

fun path_elements :: "string list \<Rightarrow> 32 word list res" where
  "path_elements [] = Inr []"
| "path_elements (p # ps) =
     (case path_element p of
        Inl e \<Rightarrow> Inl e
      | Inr i \<Rightarrow> (case path_elements ps of Inl e \<Rightarrow> Inl e | Inr is \<Rightarrow> Inr (i # is)))"

definition ParseDerivationPath :: "string \<Rightarrow> 32 word list res" where
  "ParseDerivationPath path =
     (if path = ''m'' \<or> path = [] then Inr []
      else let path1 = (if prefix ''m/'' path then drop 2 path else path) in path_elements (Split CHR ''/'' path1))"

text \<open>The usual text of a path: hardened indices with an apostrophe.\<close>

definition show_index :: "32 word \<Rightarrow> string" where
  "show_index i = (if bit i 31 then formatUint 10 (unat (take_bit 31 i)) @ [CHR 0x27] else formatUint 10 (unat i))"

fun show_path :: "32 word list \<Rightarrow> string" where
  "show_path [] = []"
| "show_path [i] = show_index i"
| "show_path (i # is) = show_index i @ CHR ''/'' # show_path is"

lemma path_element_show: "path_element (show_index i) = Inr i"
proof (cases "bit i 31")
  case True
  have lt: "unat (take_bit 31 i) < 2 ^ 31" by (metis unsigned_take_bit_eq take_bit_nat_less_exp)
  have "ucast (of_nat (unat (take_bit 31 i)) OR hardenedOffset :: 64 word) = i"
  proof (rule bit_word_eqI)
    fix n :: nat
    assume n: "n < LENGTH(32)"
    have "hardenedOffset = 2 ^ 31" by (simp add: hardenedOffset_def)
    then have h: "bit hardenedOffset n = (n = 31)" using bit_exp_iff [of 31 n, where 'a = "64 word"] by auto
    have "of_nat (unat (take_bit 31 i)) = (ucast (take_bit 31 i) :: 64 word)" by simp
    then show "bit (ucast (of_nat (unat (take_bit 31 i)) OR hardenedOffset :: 64 word) :: 32 word) n = bit i n"
      using n True h by (cases "n = 31") (auto simp: bit_unsigned_iff bit_or_iff bit_take_bit_iff)
  qed
  then show ?thesis using True lt by (simp add: path_element_def show_index_def Let_def)
next
  case False
  have "take_bit 31 i = i"
    by (rule bit_word_eqI) (use False in \<open>auto simp: bit_take_bit_iff less_Suc_eq numeral_eq_Suc\<close>)
  then have lt: "unat i < 2 ^ 31" by (metis unsigned_take_bit_eq take_bit_nat_less_exp)
  have "CHR 0x27 \<notin> set (formatUint 10 (unat i))" "CHR ''h'' \<notin> set (formatUint 10 (unat i))"
    by (simp_all add: formatUint_avoids)
  then have "last (formatUint 10 (unat i)) \<noteq> CHR 0x27 \<and> last (formatUint 10 (unat i)) \<noteq> CHR ''h''"
    using last_in_set [OF formatUint_nonempty] by metis
  moreover have "ucast (ucast i :: 64 word) = i" by (rule bit_word_eqI) (simp add: bit_unsigned_iff)
  ultimately show ?thesis using False lt by (simp add: path_element_def show_index_def Let_def)
qed

lemma show_index_plain: "CHR ''/'' \<notin> set (show_index i)" "show_index i \<noteq> []"
  using formatUint_avoids [of "CHR ''/''"] by (auto simp: show_index_def)

lemma path_elements_show: "is \<noteq> [] \<Longrightarrow> path_elements (Split CHR ''/'' (show_path is)) = Inr is"
  by (induction "is" rule: show_path.induct) (simp_all add: path_element_show show_index_plain Split_append)

lemma ParseDerivationPath_show: "ParseDerivationPath (''m'' @ (if is = [] then [] else CHR ''/'' # show_path is)) = Inr is"
  using path_elements_show [of "is"] by (auto simp: ParseDerivationPath_def)

end
