(* ===== verification/Nearby.thy ===== *)
theory Nearby
  imports Identity Bundle
begin

text \<open>
  Stealth hints and status proofs: \<^verbatim>\<open>src/api/nearby/digest.go\<close>, \<^verbatim>\<open>stealth_hint.go\<close> and \<^verbatim>\<open>status_proof.go\<close>.  The hash
  functions and the ChaCha20 key stream are arguments; what the code relies on is their output
  length.
\<close>

unbundle bit_operations_syntax

subsection \<open>Helpers\<close>

definition identityKeyLen :: nat where "identityKeyLen = 33"

definition identityKey :: "identity \<Rightarrow> bytes option" where
  "identityKey i = (if Identity_IsZero i then None else i)"

definition parseIdentityKey :: "(bytes \<Rightarrow> bool) \<Rightarrow> bytes \<Rightarrow> identity \<times> bool" where
  "parseIdentityKey curve key =
     (if length key \<noteq> identityKeyLen then (None, False)
      else case parsePubKey curve key of Inl e \<Rightarrow> (None, False) | Inr pub \<Rightarrow> (Some pub, True))"

definition nonceBytes :: "64 word \<Rightarrow> bytes" where
  "nonceBytes nonce = nat_be 8 (unat nonce)"

definition sha256Of :: "(bytes \<Rightarrow> bytes) \<Rightarrow> bytes list \<Rightarrow> bytes" where
  "sha256Of sha256 parts = sha256 (concat parts)"

definition xorBytes :: "bytes \<Rightarrow> bytes \<Rightarrow> bytes" where
  "xorBytes a b = map (\<lambda>(x, y). x XOR y) (zip a b) @ replicate (length a - length b) 0"

subsection \<open>Stealth hints\<close>

record stealth_hint =
  hint_Nonce :: "64 word"
  Commitment :: bytes
  MaskedNode :: bytes
  MaskedUser :: bytes

definition stealthCommitLabel :: string where "stealthCommitLabel = ''astral/nearby/stealth/commit/v1''"
definition stealthMaskNodeLabel :: string where "stealthMaskNodeLabel = ''astral/nearby/stealth/mask-node/v1''"
definition stealthMaskUserLabel :: string where "stealthMaskUserLabel = ''astral/nearby/stealth/mask-user/v1''"

definition stealthCommitment :: "(bytes \<Rightarrow> bytes) \<Rightarrow> bytes \<Rightarrow> 64 word \<Rightarrow> bytes" where
  "stealthCommitment sha256 hu nonce = sha256Of sha256 [str_bytes stealthCommitLabel, hu, nonceBytes nonce]"

definition stealthMask :: "(bytes \<Rightarrow> bytes) \<Rightarrow> string \<Rightarrow> bytes \<Rightarrow> 64 word \<Rightarrow> bytes" where
  "stealthMask sha512 label h nonce = take identityKeyLen (sha512 (str_bytes label @ h @ nonceBytes nonce))"

definition NewStealthHint ::
  "(bytes \<Rightarrow> bytes) \<Rightarrow> (bytes \<Rightarrow> bytes) \<Rightarrow> identity \<Rightarrow> identity \<Rightarrow> 64 word \<Rightarrow> stealth_hint res" where
  "NewStealthHint sha256 sha512 node user nonce =
     (case (identityKey node, identityKey user) of
        (Some n, Some u) \<Rightarrow>
          (let hn = sha256 n; hu = sha256 u in
           Inr \<lparr>hint_Nonce = nonce, Commitment = stealthCommitment sha256 hu nonce,
                MaskedNode = xorBytes n (stealthMask sha512 stealthMaskNodeLabel hu nonce),
                MaskedUser = xorBytes u (stealthMask sha512 stealthMaskUserLabel hn nonce)\<rparr>)
      | _ \<Rightarrow> Inl ErrZeroIdentity)"

definition wellFormed :: "stealth_hint option \<Rightarrow> bool" where
  "wellFormed s =
     (case s of
        None \<Rightarrow> False
      | Some h \<Rightarrow> length (Commitment h) = 32 \<and> length (MaskedNode h) = identityKeyLen \<and> length (MaskedUser h) = identityKeyLen)"

definition StealthHint_Open ::
  "(bytes \<Rightarrow> bytes) \<Rightarrow> (bytes \<Rightarrow> bytes) \<Rightarrow> (bytes \<Rightarrow> bool) \<Rightarrow> stealth_hint option \<Rightarrow> identity \<Rightarrow> identity \<times> bool" where
  "StealthHint_Open sha256 sha512 curve s user =
     (case (s, identityKey user) of
        (Some h, Some u) \<Rightarrow>
          if \<not> wellFormed s then (None, False)
          else let hu = sha256 u in
            if Commitment h \<noteq> stealthCommitment sha256 hu (hint_Nonce h) then (None, False)
            else let n = xorBytes (MaskedNode h) (stealthMask sha512 stealthMaskNodeLabel hu (hint_Nonce h)) in
              (case parseIdentityKey curve n of
                 (_, False) \<Rightarrow> (None, False)
               | (node, True) \<Rightarrow>
                   let hn = sha256 n in
                   if xorBytes (MaskedUser h) (stealthMask sha512 stealthMaskUserLabel hn (hint_Nonce h)) \<noteq> u then (None, False)
                   else (node, True))
      | _ \<Rightarrow> (None, False))"

definition StealthHint_OpenWithNode ::
  "(bytes \<Rightarrow> bytes) \<Rightarrow> (bytes \<Rightarrow> bytes) \<Rightarrow> (bytes \<Rightarrow> bool) \<Rightarrow> stealth_hint option \<Rightarrow> identity \<Rightarrow> identity \<times> bool" where
  "StealthHint_OpenWithNode sha256 sha512 curve s node =
     (case (s, identityKey node) of
        (Some h, Some n) \<Rightarrow>
          if \<not> wellFormed s then (None, False)
          else let hn = sha256 n;
                   u = xorBytes (MaskedUser h) (stealthMask sha512 stealthMaskUserLabel hn (hint_Nonce h)) in
            (case parseIdentityKey curve u of
               (_, False) \<Rightarrow> (None, False)
             | (user, True) \<Rightarrow>
                 let hu = sha256 u in
                 if Commitment h \<noteq> stealthCommitment sha256 hu (hint_Nonce h) then (None, False)
                 else if xorBytes (MaskedNode h) (stealthMask sha512 stealthMaskNodeLabel hu (hint_Nonce h)) \<noteq> n then (None, False)
                 else (user, True))
      | _ \<Rightarrow> (None, False))"

subsection \<open>Status proofs\<close>

record status_proof =
  proof_Nonce :: "64 word"
  Timestamp :: int
  Sig :: bytes

definition proofHashLabel :: string where "proofHashLabel = ''astral/nearby/status/v1''"
definition proofKeyLabel :: string where "proofKeyLabel = ''astral/nearby/proof-key/v1''"

definition errNilAttachment :: error where "errNilAttachment = ErrMsg ''nearby: nil attachment''"

text \<open>A nil attachment is \<open>None\<close>.  The hash is a naked writer, so what it consumed is what was written.\<close>

definition ProofHash :: "(bytes \<Rightarrow> bytes) \<Rightarrow> item option list \<Rightarrow> 64 word \<Rightarrow> int \<Rightarrow> bytes res" where
  "ProofHash sha256 others nonce ts =
     (if list_ex (\<lambda>x. x = None) others then Inl errNilAttachment
      else case Bundle_Append sha256 (map the others) NewBundle of
        (Some e, b) \<Rightarrow> Inl e
      | (None, b) \<Rightarrow>
          (case wseq (Write (str_bytes proofHashLabel))
                  (wseq (Bundle_WriteTo b) (wseq (Write (nonceBytes nonce)) (Time_WriteTo ts))) \<lparr>out = [], wb = None\<rparr> of
             (Some e, n, w) \<Rightarrow> Inl e
           | (None, n, w) \<Rightarrow> Inr (sha256 (out w))))"

definition WrapProofSig :: "(bytes \<Rightarrow> bytes) \<Rightarrow> (bytes \<Rightarrow> nat \<Rightarrow> bytes) \<Rightarrow> identity \<Rightarrow> 64 word \<Rightarrow> bytes \<Rightarrow> bytes option" where
  "WrapProofSig sha256 keystream node nonce sg =
     (case identityKey node of
        None \<Rightarrow> None
      | Some n \<Rightarrow>
          (let hn = sha256 n; key = sha256Of sha256 [str_bytes proofKeyLabel, hn, nonceBytes nonce] in
           Some (xorBytes sg (keystream key (length sg)))))"

text \<open>An attachment is a status proof, possibly a nil pointer to one, or something else.\<close>

datatype attachment = StatusProof "status_proof option" | Other item

definition SplitProof :: "attachment list \<Rightarrow> (attachment list \<times> status_proof) option" where
  "SplitProof objs =
     (if objs = [] then None
      else case last objs of
        StatusProof (Some p) \<Rightarrow>
          if list_ex (\<lambda>x. case x of StatusProof _ \<Rightarrow> True | Other _ \<Rightarrow> False) (butlast objs) then None
          else Some (butlast objs, p)
      | _ \<Rightarrow> None)"

subsection \<open>Masks\<close>

lemma length_xorBytes [simp]: "length (xorBytes a b) = length a"
  by (simp add: xorBytes_def)

lemma xorBytes_nth: "length b = length a \<Longrightarrow> i < length a \<Longrightarrow> xorBytes a b ! i = a ! i XOR b ! i"
  by (simp add: xorBytes_def)

lemma xorBytes_cancel:
  assumes "length m = length a"
  shows "xorBytes (xorBytes a m) m = a"
  using assms by (intro nth_equalityI) (simp_all add: xorBytes_nth xor.assoc)

lemma mask_swap: "length m = 33 \<Longrightarrow> length b = 33 \<Longrightarrow> (length a = 33 \<and> xorBytes a m = b) = (a = xorBytes b m)"
  by (metis length_xorBytes xorBytes_cancel)

definition hashes_ok :: "(bytes \<Rightarrow> bytes) \<Rightarrow> (bytes \<Rightarrow> bytes) \<Rightarrow> bool" where
  "hashes_ok sha256 sha512 \<longleftrightarrow> (\<forall>x. length (sha256 x) = 32) \<and> (\<forall>x. length (sha512 x) = 64)"

lemma mask_length: "hashes_ok sha256 sha512 \<Longrightarrow> length (stealthMask sha512 label h nonce) = 33"
  by (simp add: stealthMask_def hashes_ok_def identityKeyLen_def)

lemma commitment_length: "hashes_ok sha256 sha512 \<Longrightarrow> length (stealthCommitment sha256 h nonce) = 32"
  by (simp add: stealthCommitment_def sha256Of_def hashes_ok_def)

lemma identityKey_Some [simp]: "identityKey (Some k) = Some k" and identityKey_None [simp]: "identityKey None = None"
  by (simp_all add: identityKey_def Identity_IsZero_def)

subsection \<open>A hint opens exactly to what it was made of\<close>

lemma Open_iff:
  assumes "hashes_ok sha256 sha512" and "curve_ok curve" and "curve u"
  shows "StealthHint_Open sha256 sha512 curve (Some h) (Some u) = (Some n, True) \<longleftrightarrow>
    curve n \<and> NewStealthHint sha256 sha512 (Some n) (Some u) (hint_Nonce h) = Inr h"
proof -
  note mk = mask_length [OF assms(1)]
  have lu: "length u = 33" using curve_key(1) [OF assms(2,3)] .
  let ?mn = "stealthMask sha512 stealthMaskNodeLabel (sha256 u) (hint_Nonce h)"
  let ?mu = "\<lambda>n. stealthMask sha512 stealthMaskUserLabel (sha256 n) (hint_Nonce h)"
  have "StealthHint_Open sha256 sha512 curve (Some h) (Some u) = (Some n, True) \<longleftrightarrow>
      wellFormed (Some h) \<and> Commitment h = stealthCommitment sha256 (sha256 u) (hint_Nonce h) \<and>
      n = xorBytes (MaskedNode h) ?mn \<and> curve n \<and> xorBytes (MaskedUser h) (?mu n) = u"
    by (auto simp: StealthHint_Open_def Let_def parseIdentityKey_def parsePubKey_def wellFormed_def)
  also have "\<dots> \<longleftrightarrow> curve n \<and> Commitment h = stealthCommitment sha256 (sha256 u) (hint_Nonce h) \<and>
      MaskedNode h = xorBytes n ?mn \<and> MaskedUser h = xorBytes u (?mu n)"
    using mask_swap [OF mk, of n "MaskedNode h"] mask_swap [OF mk lu, of "MaskedUser h"] curve_key(1) [OF assms(2), of n]
      commitment_length [OF assms(1)]
    unfolding wellFormed_def identityKeyLen_def option.case by metis
  also have "\<dots> \<longleftrightarrow> curve n \<and> NewStealthHint sha256 sha512 (Some n) (Some u) (hint_Nonce h) = Inr h"
    by (cases h) (auto simp: NewStealthHint_def Let_def)
  finally show ?thesis .
qed

lemma OpenWithNode_iff:
  assumes "hashes_ok sha256 sha512" and "curve_ok curve" and "curve n"
  shows "StealthHint_OpenWithNode sha256 sha512 curve (Some h) (Some n) = (Some u, True) \<longleftrightarrow>
    curve u \<and> NewStealthHint sha256 sha512 (Some n) (Some u) (hint_Nonce h) = Inr h"
proof -
  note mk = mask_length [OF assms(1)]
  have ln: "length n = 33" using curve_key(1) [OF assms(2,3)] .
  let ?mu = "stealthMask sha512 stealthMaskUserLabel (sha256 n) (hint_Nonce h)"
  let ?mn = "\<lambda>u. stealthMask sha512 stealthMaskNodeLabel (sha256 u) (hint_Nonce h)"
  have "StealthHint_OpenWithNode sha256 sha512 curve (Some h) (Some n) = (Some u, True) \<longleftrightarrow>
      wellFormed (Some h) \<and> u = xorBytes (MaskedUser h) ?mu \<and> curve u \<and>
      Commitment h = stealthCommitment sha256 (sha256 u) (hint_Nonce h) \<and> xorBytes (MaskedNode h) (?mn u) = n"
    by (cases "wellFormed (Some h)"; cases "curve (xorBytes (MaskedUser h) ?mu)")
      (simp_all add: StealthHint_OpenWithNode_def Let_def parseIdentityKey_def parsePubKey_def, simp_all add: wellFormed_def, metis+)
  also have "\<dots> \<longleftrightarrow> curve u \<and> Commitment h = stealthCommitment sha256 (sha256 u) (hint_Nonce h) \<and>
      MaskedNode h = xorBytes n (?mn u) \<and> MaskedUser h = xorBytes u ?mu"
    using mask_swap [OF mk, of u "MaskedUser h"] mask_swap [OF mk ln, of "MaskedNode h"] curve_key(1) [OF assms(2), of u]
      commitment_length [OF assms(1)]
    unfolding wellFormed_def identityKeyLen_def option.case by metis
  also have "\<dots> \<longleftrightarrow> curve u \<and> NewStealthHint sha256 sha512 (Some n) (Some u) (hint_Nonce h) = Inr h"
    by (cases h) (auto simp: NewStealthHint_def Let_def)
  finally show ?thesis .
qed

lemma WrapProofSig_involution:
  assumes "\<And>k n. length (keystream k n) = n"
  shows "WrapProofSig sha256 keystream (Some n) nonce sg = Some w \<Longrightarrow> WrapProofSig sha256 keystream (Some n) nonce w = Some sg"
  using assms by (auto simp: WrapProofSig_def Let_def xorBytes_cancel)

lemma SplitProof_iff:
  "SplitProof objs = Some (others, p) \<longleftrightarrow>
     objs = others @ [StatusProof (Some p)] \<and> list_all (\<lambda>x. \<exists>y. x = Other y) others"
proof -
  have no: "list_ex (\<lambda>x. case x of StatusProof _ \<Rightarrow> True | Other _ \<Rightarrow> False) xs = (\<not> list_all (\<lambda>x. \<exists>y. x = Other y) xs)" for xs
    by (induction xs) (auto split: attachment.splits)
  show ?thesis
  proof (cases objs rule: rev_cases)
    case (snoc xs x)
    then show ?thesis unfolding SplitProof_def no by (auto split: attachment.splits option.splits)
  qed (simp add: SplitProof_def)
qed

end
