(* ===== verification/Properties_Services.thy ===== *)
theory Properties_Services
  imports Tree_Nodes Discovery Permits Bip39 Nearby
begin

text \<open>
  The properties of the node services: the tree of values, discovery, permits, recovery phrases and
  stealth hints.
\<close>

text \<open>
  C31: the paths of a client node's children.  Listing the children of a node gives each of them the
  node's path and its own name exactly when the path's slice is full; with spare capacity all the
  appends write the same array cell, and every child carries the name listed last.  Slices double,
  so the children of a node three levels deep share one path.
\<close>

theorem client_children_paths:
  assumes "slice_ok st path" and "Node_Sub path names st = (subs, st')" and "names \<noteq> []"
  shows "map fst subs = names \<and>
    (\<forall>(n, s) \<in> set subs. read_slice st' s = read_slice st path @ [if sl_len path = sl_cap path then n else last names])"
proof (cases "sl_len path = sl_cap path")
  case True
  then show ?thesis using Node_Sub_fresh [OF assms(1) True assms(2) assms(1)] by (auto split: prod.splits)
next
  case False
  then have "sl_len path < sl_cap path" using assms(1) by (simp add: slice_ok_def)
  then show ?thesis using Node_Sub_clobbered [OF assms(1) _ assms(2,3)] False by (auto split: prod.splits)
qed

definition deep_node :: "slice \<times> store" where
  "deep_node = (let (root, st) = Client_Root [] in walk [''etc'', ''app'', ''conf''] root st)"

lemma client_children_paths_witness:
  "Node_Path (snd (Node_Sub (fst deep_node) [''host'', ''port''] (snd deep_node)))
      (snd (hd (fst (Node_Sub (fst deep_node) [''host'', ''port''] (snd deep_node))))) = ''/etc/app/conf/port''"
proof -
  have d: "deep_node = (\<lparr>sl_arr = 3, sl_len = 3, sl_cap = 4\<rparr>, [[], [''etc''], [''etc'', ''app''], [''etc'', ''app'', ''conf'', []]])"
    by (simp add: deep_node_def Client_Root_def go_append_def newcap_def read_slice_def)
  have ok: "slice_ok (snd deep_node) (fst deep_node)" by (simp add: d slice_ok_def)
  obtain subs st' where s: "Node_Sub (fst deep_node) [''host'', ''port''] (snd deep_node) = (subs, st')" by (metis prod.exhaust)
  have p: "map fst subs = [''host'', ''port'']"
    "\<forall>(n, s) \<in> set subs. read_slice st' s = read_slice (snd deep_node) (fst deep_node) @ [''port'']"
    using client_children_paths [OF ok s] by (auto simp: d)
  then obtain n sl rest where "subs = (n, sl) # rest" by (cases subs) auto
  then have "read_slice st' (snd (hd subs)) = [''etc'', ''app'', ''conf'', ''port'']" using p(2) by (simp add: d read_slice_def)
  then show ?thesis using s by (simp add: Node_Path_def)
qed

text \<open>
  C27: walking a path with create ends at the node of that path, whatever others create meanwhile.
  For a client node's path of non-empty segments without slashes, sent as text, the walk succeeds
  on every tree that keeps the node contract; afterwards every node that was there still is, the
  segments lead from the root to the node returned, and walking again without create finds it.
\<close>

theorem query_creates_path:
  assumes "store_laws kids nsub ncreate others"
    and "\<forall>s \<in> set (read_slice st path). s \<noteq> [] \<and> CHR ''/'' \<notin> set s"
  shows "\<exists>c w'. Query nsub ncreate others w root (Node_Path st path) True = (Inr c, w') \<and>
    reaches kids w' root (read_slice st path) = Some c \<and> (\<forall>n. kids w n \<subseteq>\<^sub>m kids w' n) \<and>
    Query nsub ncreate others w' root (Node_Path st path) False = (Inr c, w')"
proof -
  let ?ss = "if read_slice st path = [] then [[]] else read_slice st path"
  have f: "filter (\<lambda>s. s \<noteq> []) ?ss = read_slice st path" using assms(2) by (auto simp: filter_id_conv)
  obtain c w' where c: "query_segments nsub ncreate others True w [] ?ss root = (Inr c, w')"
    "reaches kids w' root (read_slice st path) = Some c" "\<forall>n. kids w n \<subseteq>\<^sub>m kids w' n"
    using query_segments_creates [OF assms(1), of w "[]" ?ss root] unfolding f by blast
  have "\<And>v m. nsub v m = Inr (kids v m)" using assms(1) by (simp add: store_laws_def)
  then have "query_segments nsub ncreate others False w' [] ?ss root = (Inr c, w')"
    using query_segments_finds [of nsub kids ncreate others w' "[]" ?ss root] c(2) unfolding f by auto
  then show ?thesis using c unfolding Query_Path [OF assms(2)] by blast
qed

definition demo_kids :: "string list list \<Rightarrow> string list \<Rightarrow> string \<rightharpoonup> string list" where
  "demo_kids w n s = (if n @ [s] \<in> set w then Some (n @ [s]) else None)"

definition demo_create :: "string list list \<Rightarrow> string list \<Rightarrow> string \<Rightarrow> string list res \<times> string list list" where
  "demo_create w n s = (if n @ [s] \<in> set w then (Inl ErrAlreadyExists, w) else (Inr (n @ [s]), w @ [n @ [s]]))"

lemma demo_store_laws: "store_laws demo_kids (\<lambda>w n. Inr (demo_kids w n)) demo_create (\<lambda>w. w @ [[''etc'']])"
  by (auto simp: store_laws_def demo_kids_def demo_create_def map_le_def)

lemma query_creates_path_witness:
  "\<exists>c w'. Query (\<lambda>w n. Inr (demo_kids w n)) demo_create (\<lambda>w. w @ [[''etc'']]) [] [] (Node_Path (snd deep_node) (fst deep_node)) True = (Inr c, w') \<and>
     reaches demo_kids w' [] [''etc'', ''app'', ''conf''] = Some c"
proof -
  have d: "read_slice (snd deep_node) (fst deep_node) = [''etc'', ''app'', ''conf'']"
    by (simp add: deep_node_def Client_Root_def go_append_def newcap_def read_slice_def)
  show ?thesis using query_creates_path [OF demo_store_laws, of "snd deep_node" "fst deep_node" "[]" "[]"] unfolding d by auto
qed

text \<open>
  C28: a bound value reads its own writes and converges to its node.  Take any interleaving, after
  Bind, of local sets and clears that the node accepts or refuses, of updates by others and of
  notifications, which the node sends in the order in which it took the objects.  The value always
  reads the last thing it was told: what Bind found, an accepted set (before its notification, too),
  a refused write applied locally, or a notification.  With no notification on its way it reads what
  the node holds, unless the last word was a write the node refused; applying those on their way
  always ends, and if there are any, ends there.  Without such refused writes the followers hear
  every object of the value's type that the node took exactly once, in its order.
\<close>

theorem value_converges:
  assumes "TValue_Bind (Inr obj) v = (None, x)" and "bv_step\<^sup>*\<^sup>* (newly_bound obj x) b"
  shows "TValue_Get (bv_value b) = bv_last b \<and>
    (bv_pending b = [] \<and> \<not> bv_drift b \<longrightarrow> TValue_Get (bv_value b) = cast (bv_node b)) \<and>
    (\<exists>b'. bv_step\<^sup>*\<^sup>* b b' \<and> bv_pending b' = [] \<and> bv_node b' = bv_node b \<and>
       (bv_pending b \<noteq> [] \<or> \<not> bv_drift b \<longrightarrow> TValue_Get (bv_value b') = cast (bv_node b))) \<and>
    (\<not> bv_fell b \<longrightarrow> tv_pushed (bv_value b) @ heard (bv_pending b) = tv_pushed v @ heard (bv_history b))"
proof -
  have inv: "bv_inv (tv_pushed v) b" by (rule bv_run_inv [OF assms(2) TValue_Bind_inv [OF assms(1)]])
  obtain b' where b': "bv_step\<^sup>*\<^sup>* b b'" "bv_pending b' = []" "bv_node b' = bv_node b"
    "bv_drift b' = (bv_drift b \<and> bv_pending b = [])"
    using bv_drains by blast
  have inv': "bv_inv (tv_pushed v) b'" by (rule bv_run_inv [OF b'(1) inv])
  then have "TValue_Get (bv_value b') = cast (bv_node b)" if "bv_pending b \<noteq> [] \<or> \<not> bv_drift b"
    using that b' by (auto simp: bv_inv_def)
  then show ?thesis using inv b' by (auto simp: bv_inv_def)
qed

lemma value_converges_witness:
  "\<exists>b b'. TValue_Get (bv_value b) = Some (1 :: nat) \<and> bv_pending b \<noteq> [] \<and> bv_step\<^sup>*\<^sup>* b b' \<and> bv_pending b' = [] \<and>
     TValue_Get (bv_value b') = Some 2"
proof -
  define x :: "nat tvalue" where "x = \<lparr>tv_bound = True, tv_cached = Some 1, tv_pushed = [], tv_NoLocal = False\<rparr>"
  have b: "TValue_Bind (Inr (TVal 1)) (NewValue False) = (None, x)"
    by (simp add: TValue_Bind_def NewValue_def tv_update_def x_def)
  let ?b = "node_takes (TVal 2) (newly_bound (TVal 1) x)"
  have r: "bv_step\<^sup>*\<^sup>* (newly_bound (TVal 1) x) ?b" using bv_remote [of "newly_bound (TVal 1) x" "TVal 2"] by simp
  obtain b' where "bv_step\<^sup>*\<^sup>* ?b b'" "bv_pending b' = []" "TValue_Get (bv_value b') = Some 2"
    using value_converges [OF b r] by (auto simp: node_takes_def newly_bound_def cast_def)
  then show ?thesis
    by (intro exI [of _ ?b] exI [of _ b']) (simp add: node_takes_def newly_bound_def TValue_Get_def x_def)
qed





text \<open>
  C30: a narrowed permit never grants more than its issuer meant.  A permit that allows an action and
  carries a constraint the action cannot read is a permit for one of the actions that do not look
  at constraints; and a permit that allows an action of the node is one the node accepts as valid.
\<close>

theorem unreadable_constraints_refused:
  assumes "Permit_Allows p a" and "known_action a"
  shows "ValidatePermit prototypes (Some p) = None \<and>
    (\<forall>os c. p_Constraints p = Some os \<longrightarrow> c \<in> set os \<longrightarrow> \<not> readable a c \<longrightarrow>
      a = CreateObjectAction \<or> (\<exists>t \<in> set unconstrainable_types. a = Unconstrainable t))"
proof -
  have "a = CreateObjectAction \<or> (\<exists>t \<in> set unconstrainable_types. a = Unconstrainable t)"
    if "p_Constraints p = Some os" "c \<in> set os" "\<not> readable a c" for os c
    using unreadable_refused [OF assms(1) that] assms(2) by (auto simp: known_action_def)
  then show ?thesis using allowed_is_valid [OF assms(2,1)] by blast
qed

lemma unreadable_constraints_refused_witness:
  "ValidatePermit prototypes (Some \<lparr>p_Action = ''mod.services.service_discovery_action'',
     p_Constraints = Some [Scope (Some [Some \<lparr>dr_Services = [''mail''], dr_Nodes = []\<rparr>])], p_Delegation = 0\<rparr>) = None"
  using unreadable_constraints_refused [of "\<lparr>p_Action = ''mod.services.service_discovery_action'',
     p_Constraints = Some [Scope (Some [Some \<lparr>dr_Services = [''mail''], dr_Nodes = []\<rparr>])], p_Delegation = 0\<rparr>"
     "ServiceDiscoveryAction ''mail'' (Some ''n'')"]
  by (simp add: Permit_Allows_def action_ObjectType_def ApplyConstraints_def DiscoveryRule_Allows_def allowsService_def allowsNode_def known_action_def)

text \<open>
  C24: recovery phrases and entropy correspond one to one.  Under every hash function a phrase is the
  one written for some entropy exactly when it reads back as that entropy; every entropy of an
  allowed size has a phrase, and no other has one.
\<close>

theorem mnemonic_bijection:
  "(EntropyToMnemonic sha256 e = Inr ws \<longleftrightarrow> MnemonicToEntropy sha256 ws = Inr e) \<and>
   ((\<exists>ws. EntropyToMnemonic sha256 e = Inr ws) \<longleftrightarrow> entropy_length (length e))"
proof -
  have ex: "\<exists>ws. EntropyToMnemonic sha256 e = Inr ws \<and> MnemonicToEntropy sha256 ws = Inr e" if "entropy_length (length e)"
  proof -
    obtain m where m: "length e = 4 * m" "m \<in> {4..8}" using \<open>entropy_length (length e)\<close> entropy_length_iff by auto
    show ?thesis using EntropyToMnemonic_eq [OF m, of sha256] mnemonic_of_entropy [OF m, of sha256] by blast
  qed
  have no: "entropy_length (length e)" if "EntropyToMnemonic sha256 e = Inr ws" for ws
    using EntropyToMnemonic_error [of e sha256] that by auto
  show ?thesis using ex no entropy_of_mnemonic [of sha256 ws e] by (metis sum.inject(2))
qed

text \<open>
  C25: a stealth hint opens to what it was made of and to nothing else.  Whoever knows the user opens
  it to a node, and whoever knows the node opens it to a user, exactly when the hint is the one
  made of that node and user with its nonce; so both readers agree on every hint.
\<close>

theorem stealth_hint_opens:
  assumes "hashes_ok sha256 sha512" and "curve_ok curve" and "curve n" and "curve u"
  shows "(StealthHint_Open sha256 sha512 curve (Some h) (Some u) = (Some n, True) \<longleftrightarrow>
      NewStealthHint sha256 sha512 (Some n) (Some u) (hint_Nonce h) = Inr h) \<and>
    (StealthHint_OpenWithNode sha256 sha512 curve (Some h) (Some n) = (Some u, True) \<longleftrightarrow>
      StealthHint_Open sha256 sha512 curve (Some h) (Some u) = (Some n, True))"
  using Open_iff [OF assms(1,2,4), of h n] OpenWithNode_iff [OF assms(1,2,3), of h u] assms(3,4) by simp

definition demo_sha256 :: "bytes \<Rightarrow> bytes" where "demo_sha256 x = replicate 32 (of_nat (length x))"
definition demo_sha512 :: "bytes \<Rightarrow> bytes" where "demo_sha512 x = replicate 64 (of_nat (length x))"
definition demo_curve :: "bytes \<Rightarrow> bool" where "demo_curve k \<longleftrightarrow> length k = 33 \<and> (hd k = 2 \<or> hd k = 3)"

lemma demo_hashes: "hashes_ok demo_sha256 demo_sha512"
  by (simp add: hashes_ok_def demo_sha256_def demo_sha512_def)

lemma demo_curve_ok: "curve_ok demo_curve"
  by (simp add: curve_ok_def demo_curve_def keyLen_def)

lemma stealth_hint_opens_witness:
  "\<exists>h. NewStealthHint demo_sha256 demo_sha512 (Some (2 # replicate 32 7)) (Some (3 # replicate 32 9)) 5 = Inr h \<and>
     StealthHint_Open demo_sha256 demo_sha512 demo_curve (Some h) (Some (3 # replicate 32 9)) = (Some (2 # replicate 32 7), True)"
proof -
  obtain h where h: "NewStealthHint demo_sha256 demo_sha512 (Some (2 # replicate 32 7)) (Some (3 # replicate 32 9)) 5 = Inr h"
    "hint_Nonce h = 5"
    by (simp add: NewStealthHint_def Let_def)
  have "demo_curve (2 # replicate 32 7)" "demo_curve (3 # replicate 32 9)" by (simp_all add: demo_curve_def)
  from stealth_hint_opens [OF demo_hashes demo_curve_ok this, of h] show ?thesis using h by auto
qed

end
