(* ===== verification/Json.thy ===== *)
theory Json
  imports Primitives Base64 Objectify "HOL-Library.Char_ord"
begin

text \<open>
  The JSON forms of the leaf types: the \<^verbatim>\<open>MarshalJSON\<close> and \<^verbatim>\<open>UnmarshalJSON\<close> methods of the scalar types of
  \<^verbatim>\<open>src/astral\<close>, of \<^verbatim>\<open>ObjectID\<close>, and the envelope \<^verbatim>\<open>JSONAdapter\<close> of \<^verbatim>\<open>object.go\<close>.

  A JSON document is its value, as \<^verbatim>\<open>encoding/json\<close> sees it between the text and the Go value: numbers keep
  their literal, objects their members in order.  Marshalling replaces what is not UTF-8 in a
  string, lists the members of a map by key, and reading a map keeps the last of two equal keys.
  Reading \<^verbatim>\<open>null\<close> leaves a scalar as it was.  A nil byte slice and an empty one are one value here; it is
  written as \<^verbatim>\<open>null\<close>, and both of its forms are read back as empty (\<open>bytes_forms\<close>).
\<close>

subsection \<open>Values\<close>

datatype json =
    JNull
  | JBool bool
  | JNum string
  | JStr string
  | JArr "json list"
  | JObj "(string \<times> json) list"

subsection \<open>Strings\<close>

text \<open>The bytes of the first rune of a string as \<^verbatim>\<open>unicode/utf8\<close> accepts them; 0 when it has none.\<close>

definition conts :: "nat \<Rightarrow> nat \<Rightarrow> nat \<Rightarrow> string \<Rightarrow> bool" where
  "conts k lo hi cs \<longleftrightarrow>
     k \<le> length cs \<and> lo \<le> of_char (hd cs) \<and> of_char (hd cs) \<le> hi \<and>
     (\<forall>c \<in> set (take (k - 1) (tl cs)). 0x80 \<le> (of_char c :: nat) \<and> (of_char c :: nat) \<le> 0xBF)"

fun rune_size :: "string \<Rightarrow> nat" where
  "rune_size [] = 0"
| "rune_size (c # cs) =
     (let b = of_char c :: nat
      in if b < 0x80 then 1
         else if 0xC2 \<le> b \<and> b \<le> 0xDF then (if conts 1 0x80 0xBF cs then 2 else 0)
         else if b = 0xE0 then (if conts 2 0xA0 0xBF cs then 3 else 0)
         else if b = 0xED then (if conts 2 0x80 0x9F cs then 3 else 0)
         else if 0xE1 \<le> b \<and> b \<le> 0xEF then (if conts 2 0x80 0xBF cs then 3 else 0)
         else if b = 0xF0 then (if conts 3 0x90 0xBF cs then 4 else 0)
         else if 0xF1 \<le> b \<and> b \<le> 0xF3 then (if conts 3 0x80 0xBF cs then 4 else 0)
         else if b = 0xF4 then (if conts 3 0x80 0x8F cs then 4 else 0)
         else 0)"

text \<open>A byte that begins no rune becomes U+FFFD.\<close>

function coerce_utf8 :: "string \<Rightarrow> string" where
  "coerce_utf8 [] = []"
| "coerce_utf8 (c # cs) =
     (let n = rune_size (c # cs)
      in if n = 0 then [CHR 0xEF, CHR 0xBF, CHR 0xBD] @ coerce_utf8 cs
         else take n (c # cs) @ coerce_utf8 (drop n (c # cs)))"
  by pat_completeness auto
termination by (relation "measure length") auto

definition valid_utf8 :: "string \<Rightarrow> bool" where
  "valid_utf8 s \<longleftrightarrow> coerce_utf8 s = s"

lemma ascii_valid: "(\<forall>c \<in> set s. (of_char c :: nat) < 0x80) \<Longrightarrow> valid_utf8 s"
  unfolding valid_utf8_def by (induction s) auto

subsection \<open>What encoding/json does\<close>

definition ErrJSON :: error where "ErrJSON = ErrMsg ''json: cannot unmarshal''"

definition res_map :: "('a \<Rightarrow> 'b) \<Rightarrow> 'a res \<Rightarrow> 'b res" where
  "res_map f r = (case r of Inl e \<Rightarrow> Inl e | Inr x \<Rightarrow> Inr (f x))"

lemma res_map_simps [simp]: "res_map f (Inl e) = Inl e" "res_map f (Inr x) = Inr (f x)"
  by (simp_all add: res_map_def)

lemma res_map_Inr_iff: "res_map f r = Inr y \<longleftrightarrow> (\<exists>x. r = Inr x \<and> y = f x)"
  by (cases r) auto

lemma res_map_cong [fundef_cong]: "r = s \<Longrightarrow> (\<And>x. s = Inr x \<Longrightarrow> f x = g x) \<Longrightarrow> res_map f r = res_map g s"
  by (cases s) simp_all

fun map_res :: "('a \<Rightarrow> 'b res) \<Rightarrow> 'a list \<Rightarrow> 'b list res" where
  "map_res f [] = Inr []"
| "map_res f (x # xs) = (case f x of Inl e \<Rightarrow> Inl e | Inr y \<Rightarrow> res_map (Cons y) (map_res f xs))"

lemma map_res_cong [fundef_cong]: "xs = ys \<Longrightarrow> (\<And>x. x \<in> set ys \<Longrightarrow> f x = g x) \<Longrightarrow> map_res f xs = map_res g ys"
proof (induction ys arbitrary: xs)
  case (Cons y ys)
  then show ?case by (auto split: sum.splits)
qed simp

lemma map_res_total: "(\<And>x. x \<in> set xs \<Longrightarrow> \<exists>y. f x = Inr y) \<Longrightarrow> \<exists>ys. map_res f xs = Inr ys"
  by (induction xs) force+

lemma map_res_Inr: "map_res f xs = Inr ys \<longleftrightarrow> list_all2 (\<lambda>x y. f x = Inr y) xs ys"
  by (induction xs arbitrary: ys) (auto simp: res_map_Inr_iff list_all2_Cons1 split: sum.splits)

text \<open>Reading into a fresh \<^verbatim>\<open>map[string]json.RawMessage\<close> and into a fresh \<^verbatim>\<open>[]json.RawMessage\<close>; writing them.\<close>

definition into_map :: "('k \<times> 'v) list \<Rightarrow> ('k \<times> 'v) list" where
  "into_map kvs = fold (\<lambda>(k, v). AList.update k v) kvs []"

definition json_members :: "json \<Rightarrow> (string \<times> json) list res" where
  "json_members j = (case j of JObj kvs \<Rightarrow> Inr (into_map kvs) | JNull \<Rightarrow> Inr [] | _ \<Rightarrow> Inl ErrJSON)"

definition json_elems :: "json \<Rightarrow> json list res" where
  "json_elems j = (case j of JArr js \<Rightarrow> Inr js | JNull \<Rightarrow> Inr [] | _ \<Rightarrow> Inl ErrJSON)"

definition json_object :: "(string \<times> json) list \<Rightarrow> json" where
  "json_object kvs = JObj (map (\<lambda>(k, v). (coerce_utf8 k, v)) (sort_key fst kvs))"

definition json_string :: "string \<Rightarrow> json \<Rightarrow> string res" where
  "json_string old j = (case j of JStr s \<Rightarrow> Inr s | JNull \<Rightarrow> Inr old | _ \<Rightarrow> Inl ErrJSON)"

definition json_uint :: "'a::len word \<Rightarrow> json \<Rightarrow> 'a word res" where
  "json_uint old j = (case j of JNum s \<Rightarrow> parseUintText s | JNull \<Rightarrow> Inr old | _ \<Rightarrow> Inl ErrJSON)"

definition json_int :: "'a::len word \<Rightarrow> json \<Rightarrow> 'a word res" where
  "json_int old j = (case j of JNum s \<Rightarrow> parseIntText s | JNull \<Rightarrow> Inr old | _ \<Rightarrow> Inl ErrJSON)"

definition json_bool :: "bool \<Rightarrow> json \<Rightarrow> bool res" where
  "json_bool old j = (case j of JBool b \<Rightarrow> Inr b | JNull \<Rightarrow> Inr old | _ \<Rightarrow> Inl ErrJSON)"

text \<open>A byte slice is base64 text; an array of numbers is read too.\<close>

definition json_bytes :: "json \<Rightarrow> bytes res" where
  "json_bytes j =
     (case j of
        JStr s \<Rightarrow> b64_decode s
      | JArr js \<Rightarrow> map_res (json_uint 0) js
      | JNull \<Rightarrow> Inr []
      | _ \<Rightarrow> Inl ErrJSON)"

definition bytes_json :: "bytes \<Rightarrow> json" where
  "bytes_json b = (if b = [] then JNull else JStr (b64_encode b))"

lemma bytes_forms: "json_bytes JNull = Inr []" "json_bytes (JStr (b64_encode [])) = Inr []"
  by (simp_all add: json_bytes_def b64_round_trip del: b64_encode.simps)

lemma bytes_json_back [simp]: "json_bytes (bytes_json b) = Inr b"
  by (simp add: json_bytes_def bytes_json_def b64_round_trip del: b64_encode.simps)

lemma update_fst: "fst ` set (AList.update k v m) = insert k (fst ` set m)"
  by (induction m) auto

lemma update_new: "k \<notin> fst ` set m \<Longrightarrow> AList.update k v m = m @ [(k, v)]"
  by (induction m) auto

lemma fold_update_fst: "fst ` set (fold (\<lambda>(k, v). AList.update k v) kvs m) = fst ` set m \<union> fst ` set kvs"
  by (induction kvs arbitrary: m) (simp_all add: update_fst split_beta)

lemma into_map_keys_distinct: "distinct (map fst m) \<Longrightarrow> distinct (map fst (fold (\<lambda>(k, v). AList.update k v) kvs m))"
  by (induction kvs arbitrary: m) (auto simp: distinct_update)

lemma fold_update_new: "distinct (map fst (m @ kvs)) \<Longrightarrow> fold (\<lambda>(k, v). AList.update k v) kvs m = m @ kvs"
proof (induction kvs arbitrary: m)
  case (Cons p kvs)
  obtain k v where p: "p = (k, v)" by force
  have "AList.update k v m = m @ [(k, v)]" using Cons.prems p by (intro update_new) auto
  then show ?case using Cons.IH [of "m @ [(k, v)]"] Cons.prems p by simp
qed simp

lemma into_map_fst: "fst ` set (into_map kvs) = fst ` set kvs" "distinct (map fst (into_map kvs))"
  by (simp_all add: into_map_def fold_update_fst into_map_keys_distinct)

lemma fold_update_subset: "set (fold (\<lambda>(k, v). AList.update k v) kvs m) \<subseteq> set m \<union> set kvs"
proof (induction kvs arbitrary: m)
  case (Cons p kvs)
  have "set (AList.update (fst p) (snd p) m) \<subseteq> insert p (set m)" by (induction m) auto
  then show ?case using Cons.IH [of "AList.update (fst p) (snd p) m"] by (simp add: split_beta) blast
qed simp

lemma into_map_subset: "set (into_map kvs) \<subseteq> set kvs"
  using fold_update_subset [of kvs "[]"] by (simp add: into_map_def)

lemma into_map_distinct: "distinct (map fst kvs) \<Longrightarrow> into_map kvs = kvs"
  using fold_update_new [of "[]" kvs] by (simp add: into_map_def)

lemma json_size_member: "(k, j) \<in> set kvs \<Longrightarrow> size j < size (JObj kvs)"
  by (induction kvs) auto

lemma json_size_elem: "j \<in> set js \<Longrightarrow> size j < size (JArr js)"
  by (induction js) auto

lemma members_smaller: "json_members j = Inr m \<Longrightarrow> (k, x) \<in> set m \<Longrightarrow> size x < size j"
  using into_map_subset by (fastforce simp: json_members_def dest: json_size_member split: json.splits)

lemma elems_smaller: "json_elems j = Inr js \<Longrightarrow> x \<in> set js \<Longrightarrow> size x < size j"
  by (auto simp: json_elems_def dest: json_size_elem split: json.splits)

subsection \<open>The scalar types\<close>

definition Uint8_MarshalJSON :: "8 word \<Rightarrow> json" where
  "Uint8_MarshalJSON u = JNum (formatUint 10 (unat u))"

definition Uint8_UnmarshalJSON :: "8 word \<Rightarrow> json \<Rightarrow> 8 word res" where
  "Uint8_UnmarshalJSON u j = json_uint u j"

definition Uint16_MarshalJSON :: "16 word \<Rightarrow> json" where
  "Uint16_MarshalJSON u = JNum (formatUint 10 (unat u))"

definition Uint16_UnmarshalJSON :: "16 word \<Rightarrow> json \<Rightarrow> 16 word res" where
  "Uint16_UnmarshalJSON u j = json_uint u j"

definition Uint32_MarshalJSON :: "32 word \<Rightarrow> json" where
  "Uint32_MarshalJSON u = JNum (formatUint 10 (unat u))"

definition Uint32_UnmarshalJSON :: "32 word \<Rightarrow> json \<Rightarrow> 32 word res" where
  "Uint32_UnmarshalJSON u j = json_uint u j"

definition Uint64_MarshalJSON :: "64 word \<Rightarrow> json" where
  "Uint64_MarshalJSON u = JNum (formatUint 10 (unat u))"

definition Uint64_UnmarshalJSON :: "64 word \<Rightarrow> json \<Rightarrow> 64 word res" where
  "Uint64_UnmarshalJSON u j = json_uint u j"

definition Int8_MarshalJSON :: "8 word \<Rightarrow> json" where
  "Int8_MarshalJSON i = JNum (formatInt (sint i))"

definition Int8_UnmarshalJSON :: "8 word \<Rightarrow> json \<Rightarrow> 8 word res" where
  "Int8_UnmarshalJSON i j = json_int i j"

definition Int16_MarshalJSON :: "16 word \<Rightarrow> json" where
  "Int16_MarshalJSON i = JNum (formatInt (sint i))"

definition Int16_UnmarshalJSON :: "16 word \<Rightarrow> json \<Rightarrow> 16 word res" where
  "Int16_UnmarshalJSON i j = json_int i j"

definition Int32_MarshalJSON :: "32 word \<Rightarrow> json" where
  "Int32_MarshalJSON i = JNum (formatInt (sint i))"

definition Int32_UnmarshalJSON :: "32 word \<Rightarrow> json \<Rightarrow> 32 word res" where
  "Int32_UnmarshalJSON i j = json_int i j"

definition Int64_MarshalJSON :: "64 word \<Rightarrow> json" where
  "Int64_MarshalJSON i = JNum (formatInt (sint i))"

definition Int64_UnmarshalJSON :: "64 word \<Rightarrow> json \<Rightarrow> 64 word res" where
  "Int64_UnmarshalJSON i j = json_int i j"

definition String8_MarshalJSON :: "string \<Rightarrow> json" where
  "String8_MarshalJSON s = JStr (coerce_utf8 s)"

definition String8_UnmarshalJSON :: "string \<Rightarrow> json \<Rightarrow> string res" where
  "String8_UnmarshalJSON s j = json_string s j"

definition String16_MarshalJSON :: "string \<Rightarrow> json" where
  "String16_MarshalJSON s = JStr (coerce_utf8 s)"

definition String16_UnmarshalJSON :: "string \<Rightarrow> json \<Rightarrow> string res" where
  "String16_UnmarshalJSON s j = json_string s j"

definition String32_MarshalJSON :: "string \<Rightarrow> json" where
  "String32_MarshalJSON s = JStr (coerce_utf8 s)"

definition String32_UnmarshalJSON :: "string \<Rightarrow> json \<Rightarrow> string res" where
  "String32_UnmarshalJSON s j = json_string s j"

definition String64_MarshalJSON :: "string \<Rightarrow> json" where
  "String64_MarshalJSON s = JStr (coerce_utf8 s)"

definition String64_UnmarshalJSON :: "string \<Rightarrow> json \<Rightarrow> string res" where
  "String64_UnmarshalJSON s j = json_string s j"

definition Bytes8_MarshalJSON :: "bytes \<Rightarrow> json" where
  "Bytes8_MarshalJSON b = bytes_json b"

definition Bytes8_UnmarshalJSON :: "json \<Rightarrow> bytes res" where
  "Bytes8_UnmarshalJSON j = json_bytes j"

definition Bytes16_MarshalJSON :: "bytes \<Rightarrow> json" where
  "Bytes16_MarshalJSON b = bytes_json b"

definition Bytes16_UnmarshalJSON :: "json \<Rightarrow> bytes res" where
  "Bytes16_UnmarshalJSON j = json_bytes j"

definition Bytes32_MarshalJSON :: "bytes \<Rightarrow> json" where
  "Bytes32_MarshalJSON b = bytes_json b"

definition Bytes32_UnmarshalJSON :: "json \<Rightarrow> bytes res" where
  "Bytes32_UnmarshalJSON j = json_bytes j"

definition Bytes64_MarshalJSON :: "bytes \<Rightarrow> json" where
  "Bytes64_MarshalJSON b = bytes_json b"

definition Bytes64_UnmarshalJSON :: "json \<Rightarrow> bytes res" where
  "Bytes64_UnmarshalJSON j = json_bytes j"

definition Bool_MarshalJSON :: "bool \<Rightarrow> json" where
  "Bool_MarshalJSON b = JBool b"

definition Bool_UnmarshalJSON :: "bool \<Rightarrow> json \<Rightarrow> bool res" where
  "Bool_UnmarshalJSON b j = json_bool b j"

definition Nonce_MarshalJSON :: "64 word \<Rightarrow> json" where
  "Nonce_MarshalJSON nonce = JStr (formatUint 16 (unat nonce))"

definition Nonce_UnmarshalJSON :: "json \<Rightarrow> 64 word res" where
  "Nonce_UnmarshalJSON j =
     (case json_string [] j of
        Inl e \<Rightarrow> Inl e
      | Inr s \<Rightarrow> res_map of_nat (parseUint s 16 64))"

definition Zone_MarshalJSON :: "8 word \<Rightarrow> json" where
  "Zone_MarshalJSON zone = JStr (Zone_String zone)"

definition Zone_UnmarshalJSON :: "json \<Rightarrow> 8 word res" where
  "Zone_UnmarshalJSON j = res_map Zones (json_string [] j)"

definition Duration_MarshalJSON :: "64 word \<Rightarrow> json" where
  "Duration_MarshalJSON d = JNum (formatInt (sint d))"

definition Duration_UnmarshalJSON :: "64 word \<Rightarrow> json \<Rightarrow> 64 word res" where
  "Duration_UnmarshalJSON d j = json_int d j"

definition ObjectID_MarshalJSON :: "objectID \<Rightarrow> json" where
  "ObjectID_MarshalJSON i = JStr (ObjectID_String i)"

definition ObjectID_UnmarshalJSON :: "json \<Rightarrow> objectID res" where
  "ObjectID_UnmarshalJSON j =
     (case json_string [] j of
        Inl e \<Rightarrow> Inl e
      | Inr s \<Rightarrow> if s = [] then Inr zeroID else ParseID s)"

definition Blob_MarshalJSON :: "bytes \<Rightarrow> json" where
  "Blob_MarshalJSON b = bytes_json b"

definition Blob_UnmarshalJSON :: "json \<Rightarrow> bytes res" where
  "Blob_UnmarshalJSON j = json_bytes j"

definition ErrorMessage_MarshalJSON :: "string \<Rightarrow> json" where
  "ErrorMessage_MarshalJSON msg = JStr (coerce_utf8 msg)"

definition ErrorMessage_UnmarshalJSON :: "string \<Rightarrow> json \<Rightarrow> string res" where
  "ErrorMessage_UnmarshalJSON msg j = json_string msg j"

definition EmptyObject_MarshalJSON :: json where
  "EmptyObject_MarshalJSON = JNull"

definition EmptyObject_UnmarshalJSON :: "json \<Rightarrow> unit res" where
  "EmptyObject_UnmarshalJSON j = Inr ()"

text \<open>
  What the standard library and other types contribute: Unicode lower case, the calendar text of an
  instant, and the methods of a compile-time type on its payload.
\<close>

record json_env =
  je_lower :: "string \<Rightarrow> string"
  je_time :: "int \<Rightarrow> json res"
  je_parseTime :: "json \<Rightarrow> int res"
  je_native :: "string \<Rightarrow> bytes \<Rightarrow> json res"
  je_parseNative :: "string \<Rightarrow> json \<Rightarrow> bytes res"

definition Time_MarshalJSON :: "json_env \<Rightarrow> int \<Rightarrow> json res" where
  "Time_MarshalJSON env t = je_time env t"

definition Time_UnmarshalJSON :: "json_env \<Rightarrow> json \<Rightarrow> int res" where
  "Time_UnmarshalJSON env j = je_parseTime env j"

fun prim_MarshalJSON :: "json_env \<Rightarrow> prim \<Rightarrow> json res" where
  "prim_MarshalJSON env (PUint8 x) = Inr (Uint8_MarshalJSON x)"
| "prim_MarshalJSON env (PUint16 x) = Inr (Uint16_MarshalJSON x)"
| "prim_MarshalJSON env (PUint32 x) = Inr (Uint32_MarshalJSON x)"
| "prim_MarshalJSON env (PUint64 x) = Inr (Uint64_MarshalJSON x)"
| "prim_MarshalJSON env (PInt8 x) = Inr (Int8_MarshalJSON x)"
| "prim_MarshalJSON env (PInt16 x) = Inr (Int16_MarshalJSON x)"
| "prim_MarshalJSON env (PInt32 x) = Inr (Int32_MarshalJSON x)"
| "prim_MarshalJSON env (PInt64 x) = Inr (Int64_MarshalJSON x)"
| "prim_MarshalJSON env (PString8 x) = Inr (String8_MarshalJSON x)"
| "prim_MarshalJSON env (PString16 x) = Inr (String16_MarshalJSON x)"
| "prim_MarshalJSON env (PString32 x) = Inr (String32_MarshalJSON x)"
| "prim_MarshalJSON env (PString64 x) = Inr (String64_MarshalJSON x)"
| "prim_MarshalJSON env (PBytes8 x) = Inr (Bytes8_MarshalJSON x)"
| "prim_MarshalJSON env (PBytes16 x) = Inr (Bytes16_MarshalJSON x)"
| "prim_MarshalJSON env (PBytes32 x) = Inr (Bytes32_MarshalJSON x)"
| "prim_MarshalJSON env (PBytes64 x) = Inr (Bytes64_MarshalJSON x)"
| "prim_MarshalJSON env (PBool x) = Inr (Bool_MarshalJSON x)"
| "prim_MarshalJSON env (PTime x) = Time_MarshalJSON env x"
| "prim_MarshalJSON env (PObjectID x) = Inr (ObjectID_MarshalJSON x)"
| "prim_MarshalJSON env (PNonce x) = Inr (Nonce_MarshalJSON x)"
| "prim_MarshalJSON env (PDuration x) = Inr (Duration_MarshalJSON x)"
| "prim_MarshalJSON env (PZone x) = Inr (Zone_MarshalJSON x)"

fun prim_UnmarshalJSON :: "json_env \<Rightarrow> prim \<Rightarrow> json \<Rightarrow> prim res" where
  "prim_UnmarshalJSON env (PUint8 x) j = res_map PUint8 (Uint8_UnmarshalJSON x j)"
| "prim_UnmarshalJSON env (PUint16 x) j = res_map PUint16 (Uint16_UnmarshalJSON x j)"
| "prim_UnmarshalJSON env (PUint32 x) j = res_map PUint32 (Uint32_UnmarshalJSON x j)"
| "prim_UnmarshalJSON env (PUint64 x) j = res_map PUint64 (Uint64_UnmarshalJSON x j)"
| "prim_UnmarshalJSON env (PInt8 x) j = res_map PInt8 (Int8_UnmarshalJSON x j)"
| "prim_UnmarshalJSON env (PInt16 x) j = res_map PInt16 (Int16_UnmarshalJSON x j)"
| "prim_UnmarshalJSON env (PInt32 x) j = res_map PInt32 (Int32_UnmarshalJSON x j)"
| "prim_UnmarshalJSON env (PInt64 x) j = res_map PInt64 (Int64_UnmarshalJSON x j)"
| "prim_UnmarshalJSON env (PString8 x) j = res_map PString8 (String8_UnmarshalJSON x j)"
| "prim_UnmarshalJSON env (PString16 x) j = res_map PString16 (String16_UnmarshalJSON x j)"
| "prim_UnmarshalJSON env (PString32 x) j = res_map PString32 (String32_UnmarshalJSON x j)"
| "prim_UnmarshalJSON env (PString64 x) j = res_map PString64 (String64_UnmarshalJSON x j)"
| "prim_UnmarshalJSON env (PBytes8 x) j = res_map PBytes8 (Bytes8_UnmarshalJSON j)"
| "prim_UnmarshalJSON env (PBytes16 x) j = res_map PBytes16 (Bytes16_UnmarshalJSON j)"
| "prim_UnmarshalJSON env (PBytes32 x) j = res_map PBytes32 (Bytes32_UnmarshalJSON j)"
| "prim_UnmarshalJSON env (PBytes64 x) j = res_map PBytes64 (Bytes64_UnmarshalJSON j)"
| "prim_UnmarshalJSON env (PBool x) j = res_map PBool (Bool_UnmarshalJSON x j)"
| "prim_UnmarshalJSON env (PTime x) j = res_map PTime (Time_UnmarshalJSON env j)"
| "prim_UnmarshalJSON env (PObjectID x) j = res_map PObjectID (ObjectID_UnmarshalJSON j)"
| "prim_UnmarshalJSON env (PNonce x) j = res_map PNonce (Nonce_UnmarshalJSON j)"
| "prim_UnmarshalJSON env (PDuration x) j = res_map PDuration (Duration_UnmarshalJSON x j)"
| "prim_UnmarshalJSON env (PZone x) j = res_map PZone (Zone_UnmarshalJSON j)"

subsection \<open>Leaf values come back\<close>

text \<open>Strings are UTF-8, and a zone has no bits beyond its three letters.\<close>

fun prim_json_ok :: "json_env \<Rightarrow> prim \<Rightarrow> bool" where
  "prim_json_ok env (PString8 x) \<longleftrightarrow> valid_utf8 x"
| "prim_json_ok env (PString16 x) \<longleftrightarrow> valid_utf8 x"
| "prim_json_ok env (PString32 x) \<longleftrightarrow> valid_utf8 x"
| "prim_json_ok env (PString64 x) \<longleftrightarrow> valid_utf8 x"
| "prim_json_ok env (PTime x) \<longleftrightarrow> (case je_time env x of Inl e \<Rightarrow> False | Inr j \<Rightarrow> je_parseTime env j = Inr x)"
| "prim_json_ok env (PObjectID x) \<longleftrightarrow> oid_ok x"
| "prim_json_ok env (PZone x) \<longleftrightarrow> x \<le> ZoneAll"
| "prim_json_ok env _ \<longleftrightarrow> True"

lemmas json_leaf_defs =
  Uint8_MarshalJSON_def Uint16_MarshalJSON_def Uint32_MarshalJSON_def Uint64_MarshalJSON_def
  Uint8_UnmarshalJSON_def Uint16_UnmarshalJSON_def Uint32_UnmarshalJSON_def Uint64_UnmarshalJSON_def
  Int8_MarshalJSON_def Int16_MarshalJSON_def Int32_MarshalJSON_def Int64_MarshalJSON_def
  Int8_UnmarshalJSON_def Int16_UnmarshalJSON_def Int32_UnmarshalJSON_def Int64_UnmarshalJSON_def
  String8_MarshalJSON_def String16_MarshalJSON_def String32_MarshalJSON_def String64_MarshalJSON_def
  String8_UnmarshalJSON_def String16_UnmarshalJSON_def String32_UnmarshalJSON_def String64_UnmarshalJSON_def
  Bytes8_MarshalJSON_def Bytes16_MarshalJSON_def Bytes32_MarshalJSON_def Bytes64_MarshalJSON_def
  Bytes8_UnmarshalJSON_def Bytes16_UnmarshalJSON_def Bytes32_UnmarshalJSON_def Bytes64_UnmarshalJSON_def
  Bool_MarshalJSON_def Bool_UnmarshalJSON_def Nonce_MarshalJSON_def Nonce_UnmarshalJSON_def
  Zone_MarshalJSON_def Zone_UnmarshalJSON_def Duration_MarshalJSON_def Duration_UnmarshalJSON_def
  ObjectID_MarshalJSON_def ObjectID_UnmarshalJSON_def Time_MarshalJSON_def Time_UnmarshalJSON_def

lemma json_numbers_back:
  fixes u :: "'a::len word"
  assumes "8 dvd LENGTH('a)"
  shows "json_uint v (JNum (formatUint 10 (unat u))) = Inr u" "json_int v (JNum (formatInt (sint u))) = Inr u"
  using assms by (simp_all add: json_uint_def json_int_def parseUintText_format parseIntText_format)

lemma nonce_json_back: "Nonce_UnmarshalJSON (Nonce_MarshalJSON n) = Inr n"
proof -
  have "unat n < 2 ^ 64" using unsigned_less [of n] by simp
  moreover have "formatUint 16 (unat n) \<noteq> []" by (subst formatUint.simps) simp
  ultimately show ?thesis by (simp add: json_leaf_defs json_string_def parseUint_def parse_digits_format)
qed

lemma zone_json_back: "z \<le> ZoneAll \<Longrightarrow> Zone_UnmarshalJSON (Zone_MarshalJSON z) = Inr z"
proof -
  assume "z \<le> ZoneAll"
  then have "unat z \<le> 7" by (simp add: ZoneAll_def ZoneDevice_def ZoneVirtual_def ZoneNetwork_def word_le_nat_alt)
  then have "unat z \<in> set [0 ..< 8]" by simp
  then have "(of_nat (unat z) :: 8 word) \<in> of_nat ` set [0 ..< 8]" by (rule imageI)
  then have "z = 0 \<or> z = 1 \<or> z = 2 \<or> z = 3 \<or> z = 4 \<or> z = 5 \<or> z = 6 \<or> z = 7" by (auto simp: upt_rec)
  then show ?thesis
    by (auto simp: json_leaf_defs json_string_def Zone_String_def Zones_def ZoneDevice_def ZoneVirtual_def ZoneNetwork_def)
qed

lemma oid_json_back: "oid_ok i \<Longrightarrow> ObjectID_UnmarshalJSON (ObjectID_MarshalJSON i) = Inr i"
  using parse_string [of i] by (auto simp: json_leaf_defs json_string_def ObjectID_String_def idPrefix_def)

lemma prim_json_back:
  "prim_json_ok env p \<Longrightarrow> prim_type q = prim_type p \<Longrightarrow> prim_MarshalJSON env p = Inr j \<Longrightarrow> prim_UnmarshalJSON env q j = Inr p"
proof (cases p)
  case (PNonce x)
  then show "prim_json_ok env p \<Longrightarrow> prim_type q = prim_type p \<Longrightarrow> prim_MarshalJSON env p = Inr j \<Longrightarrow> ?thesis"
    using nonce_json_back [of x] by (cases q) auto
next
  case (PZone x)
  then show "prim_json_ok env p \<Longrightarrow> prim_type q = prim_type p \<Longrightarrow> prim_MarshalJSON env p = Inr j \<Longrightarrow> ?thesis"
    using zone_json_back [of x] by (cases q) auto
next
  case (PObjectID x)
  then show "prim_json_ok env p \<Longrightarrow> prim_type q = prim_type p \<Longrightarrow> prim_MarshalJSON env p = Inr j \<Longrightarrow> ?thesis"
    using oid_json_back [of x] by (cases q) auto
qed (cases q; auto simp: json_leaf_defs json_string_def json_bool_def json_numbers_back valid_utf8_def)+

lemma prim_json_total: "prim_json_ok env p \<Longrightarrow> \<exists>j. prim_MarshalJSON env p = Inr j"
  by (cases p) (auto simp: Time_MarshalJSON_def split: sum.splits)

subsection \<open>The envelope\<close>

definition JSONAdapter_MarshalJSON :: "string \<Rightarrow> json \<Rightarrow> json" where
  "JSONAdapter_MarshalJSON typ j = JObj [(''Type'', JStr (coerce_utf8 typ)), (''Object'', j)]"

text \<open>The order of a Go map is not fixed, and so not which of several faults is reported; any one is an error.\<close>

definition JSONAdapter_UnmarshalJSON :: "(string \<Rightarrow> string) \<Rightarrow> json \<Rightarrow> (string \<times> json option) res" where
  "JSONAdapter_UnmarshalJSON lower j =
     (case json_members j of
        Inl e \<Rightarrow> Inl e
      | Inr members \<Rightarrow>
          let types = filter (\<lambda>(k, v). lower k = ''type'') members;
              objects = filter (\<lambda>(k, v). lower k = ''object'') members
          in if length types + length objects < length members then Inl (ErrMsg ''excess fields in json envelope'')
             else if length types > 1 \<or> length objects > 1
             then Inl (ErrMsg ''json envelope has duplicate fields due to case insensitivity'')
             else (case (case types of [] \<Rightarrow> Inr [] | (k, v) # _ \<Rightarrow> json_string [] v) of
                     Inl e \<Rightarrow> Inl e
                   | Inr typ \<Rightarrow> Inr (typ, case objects of [] \<Rightarrow> None | (k, v) # _ \<Rightarrow> Some v)))"

text \<open>The lower case of Unicode is the one of ASCII on ASCII.\<close>

definition lower_ok :: "(string \<Rightarrow> string) \<Rightarrow> bool" where
  "lower_ok lower \<longleftrightarrow> (\<forall>s. (\<forall>c \<in> set s. (of_char c :: nat) < 0x80) \<longrightarrow> lower s = ToLower s)"

lemma adapter_back:
  assumes "lower_ok lower" and "valid_utf8 typ"
  shows "JSONAdapter_UnmarshalJSON lower (JSONAdapter_MarshalJSON typ j) = Inr (typ, Some j)"
proof -
  have low: "ToLower ''Type'' = ''type''" "ToLower ''Object'' = ''object''" by code_simp+
  have "lower ''Type'' = ''type''" "lower ''Object'' = ''object''"
    using assms(1) low by (simp_all add: lower_ok_def)
  then show ?thesis using assms(2)
    by (simp add: JSONAdapter_UnmarshalJSON_def JSONAdapter_MarshalJSON_def json_members_def into_map_def json_string_def valid_utf8_def)
qed

lemma adapter_smaller: "JSONAdapter_UnmarshalJSON lower j = Inr (typ, Some x) \<Longrightarrow> size x < size j"
proof -
  assume a: "JSONAdapter_UnmarshalJSON lower j = Inr (typ, Some x)"
  then obtain m where m: "json_members j = Inr m" by (auto simp: JSONAdapter_UnmarshalJSON_def split: sum.splits)
  with a obtain k rest where "filter (\<lambda>(k, v). lower k = ''object'') m = (k, x) # rest"
    by (auto simp: JSONAdapter_UnmarshalJSON_def Let_def split: sum.splits if_splits list.splits prod.splits)
  then have "(k, x) \<in> set (filter (\<lambda>(k, v). lower k = ''object'') m)" by simp
  then show ?thesis using members_smaller [OF m, of k x] by simp
qed

end
