(* ===== verification/Runtime_Json.thy ===== *)
theory Runtime_Json
  imports Json Runtime_Codec
begin

text \<open>
  The JSON form of runtime objects: \<^verbatim>\<open>MarshalJSON\<close>, \<^verbatim>\<open>UnmarshalJSON\<close>, \<^verbatim>\<open>marshalFieldJSON\<close> and
  \<^verbatim>\<open>unmarshalFieldJSON\<close> of \<^verbatim>\<open>src/astral/runtime_object.go\<close>, the JSON methods of \<^verbatim>\<open>runtime_slice.go\<close>,
  \<^verbatim>\<open>runtime_array.go\<close> and \<^verbatim>\<open>runtime_map.go\<close> with \<^verbatim>\<open>unmarshalRuntimeBlueprintPtr\<close>, and the element views they
  use (\<^verbatim>\<open>slice_value.go\<close>, \<^verbatim>\<open>array_value.go\<close>, \<^verbatim>\<open>map_value.go\<close>, \<^verbatim>\<open>ptr_value.go\<close>, \<^verbatim>\<open>interface_value.go\<close>).

  \<open>bps\<close> is the package's default registry: the JSON readers resolve every name there.  Reading recurses
  into the values of the document, so it ends without a budget.  An empty map is the nil one.  A
  reader that fails leaves an object half filled in Go; here it has no result.
\<close>

subsection \<open>Writing\<close>

text \<open>\<open>J\<close> is what the value's own \<^verbatim>\<open>MarshalJSON\<close> gives.\<close>

definition elem_MarshalJSON :: "string \<Rightarrow> obj \<Rightarrow> json res \<Rightarrow> json res" where
  "elem_MarshalJSON elemName v J =
     (if elemName = [] then
        if isPtrNil v then Inr JNull
        else if ObjectType v = [] then Inl (ErrMsg ''object behind interface has no type'')
        else res_map (JSONAdapter_MarshalJSON (ObjectType v)) J
      else if v = Absent then Inr JNull else J)"

definition marshalFieldJSON :: "spec option \<Rightarrow> obj \<Rightarrow> json res \<Rightarrow> json res" where
  "marshalFieldJSON sp v J =
     (if (case sp of Some (PtrSpec t) \<Rightarrow> isPtrNil v | _ \<Rightarrow> False) then Inr JNull
      else if v = Absent then Inl (ErrMsg ''nil value for spec'')
      else case sp of
        None \<Rightarrow> Inl (ErrMsg ''unknown spec'')
      | Some ObjectSpec \<Rightarrow> if v = NilObj then Inr JNull else res_map (JSONAdapter_MarshalJSON (ObjectType v)) J
      | Some _ \<Rightarrow> J)"

definition map_key_text :: "mapkey \<Rightarrow> string" where
  "map_key_text k = (case k of KString s \<Rightarrow> s | KUint u \<Rightarrow> formatUint 10 (unat u))"

definition mapValue_MarshalJSON :: "gokind \<Rightarrow> (mapkey \<times> json res) list \<Rightarrow> json res" where
  "mapValue_MarshalJSON kind kjs =
     (if kjs = [] then Inr JNull
      else if supportedMapKey kind = None then Inl (ErrMsg ''map_value: unsupported key kind'')
      else res_map (\<lambda>kvs. json_object (into_map kvs)) (map_res (\<lambda>(k, J). res_map (Pair (map_key_text k)) J) kjs))"

fun obj_MarshalJSON :: "json_env \<Rightarrow> obj \<Rightarrow> json res" where
  "obj_MarshalJSON env Absent = Inr JNull"
| "obj_MarshalJSON env NilObj = Inr EmptyObject_MarshalJSON"
| "obj_MarshalJSON env (Prim p) = prim_MarshalJSON env p"
| "obj_MarshalJSON env (Native n payload) = je_native env n payload"
| "obj_MarshalJSON env (Struct bp vs) =
     res_map (\<lambda>kvs. json_object (into_map kvs))
       (map_res (\<lambda>(f, v, J). res_map (Pair (Name f)) (marshalFieldJSON (Spec f) v J))
         (zip (Fields bp) (map (\<lambda>v. (v, obj_MarshalJSON env v)) vs)))"
| "obj_MarshalJSON env (Alias bp v) = obj_MarshalJSON env v"
| "obj_MarshalJSON env (RSlice en vs) = res_map JArr (map_res (\<lambda>(v, J). elem_MarshalJSON en v J) (map (\<lambda>v. (v, obj_MarshalJSON env v)) vs))"
| "obj_MarshalJSON env (RArray en vs) = res_map JArr (map_res (\<lambda>(v, J). elem_MarshalJSON en v J) (map (\<lambda>v. (v, obj_MarshalJSON env v)) vs))"
| "obj_MarshalJSON env (RMap kind vn es) =
     mapValue_MarshalJSON kind (map (\<lambda>(k, v, J). (k, elem_MarshalJSON vn v J)) (map (\<lambda>(k, v). (k, v, obj_MarshalJSON env v)) es))"

subsection \<open>Reading\<close>

type_synonym json_into = "obj \<Rightarrow> json \<Rightarrow> obj res"

definition newJSON :: "registry \<Rightarrow> json_into \<Rightarrow> string \<Rightarrow> json \<Rightarrow> obj res" where
  "newJSON bps rec t j = (case New bps t of None \<Rightarrow> Inl (ErrBlueprintNotFound t) | Some o1 \<Rightarrow> rec o1 j)"

definition unmarshalRuntimeBlueprintPtr :: "registry \<Rightarrow> json_into \<Rightarrow> string \<Rightarrow> json \<Rightarrow> obj res" where
  "unmarshalRuntimeBlueprintPtr bps rec typeName raw =
     (if raw = JNull then Inr Absent
      else case New bps typeName of
        Some o1 \<Rightarrow> if is_runtime o1 then rec o1 raw else Inl (ErrBlueprintNotFound typeName)
      | None \<Rightarrow> Inl (ErrBlueprintNotFound typeName))"

text \<open>The object an envelope names; without a payload it stays as built.\<close>

definition open_envelope :: "json_env \<Rightarrow> registry \<Rightarrow> json_into \<Rightarrow> json \<Rightarrow> obj res" where
  "open_envelope env bps rec raw =
     (case JSONAdapter_UnmarshalJSON (je_lower env) raw of
        Inl e \<Rightarrow> Inl e
      | Inr (typ, payload) \<Rightarrow>
          (case New bps typ of
             None \<Rightarrow> Inl (ErrBlueprintNotFound typ)
           | Some o1 \<Rightarrow> (case payload of None \<Rightarrow> Inr o1 | Some j \<Rightarrow> rec o1 j)))"

definition elem_UnmarshalJSON :: "json_env \<Rightarrow> registry \<Rightarrow> json_into \<Rightarrow> string \<Rightarrow> json \<Rightarrow> obj res" where
  "elem_UnmarshalJSON env bps rec en raw =
     (if isRuntimeBlueprintType bps en then unmarshalRuntimeBlueprintPtr bps rec en raw
      else if raw = JNull then Inr Absent
      else if en = [] then open_envelope env bps rec raw
      else newJSON bps rec en raw)"

definition RuntimeSlice_UnmarshalJSON :: "json_env \<Rightarrow> registry \<Rightarrow> json_into \<Rightarrow> string \<Rightarrow> json \<Rightarrow> obj res" where
  "RuntimeSlice_UnmarshalJSON env bps rec en j =
     (case json_elems j of
        Inl e \<Rightarrow> Inl e
      | Inr js \<Rightarrow> res_map (RSlice en) (map_res (elem_UnmarshalJSON env bps rec en) js))"

definition RuntimeArray_UnmarshalJSON :: "json_env \<Rightarrow> registry \<Rightarrow> json_into \<Rightarrow> string \<Rightarrow> nat \<Rightarrow> json \<Rightarrow> obj res" where
  "RuntimeArray_UnmarshalJSON env bps rec en len j =
     (if j = JNull then Inr (RArray en (replicate len Absent))
      else case json_elems j of
        Inl e \<Rightarrow> Inl e
      | Inr js \<Rightarrow>
          if length js \<noteq> len then Inl (ErrMsg ''runtime_array: wrong number of elements'')
          else res_map (RArray en) (map_res (elem_UnmarshalJSON env bps rec en) js))"

text \<open>
  Keys are parsed at the width of the key type.  The members are taken in their order in the document; Go's
  order is not fixed, which shows only where two keys parse to one number.
\<close>

definition parse_map_key :: "gokind \<Rightarrow> string \<Rightarrow> mapkey res" where
  "parse_map_key kind k =
     (case supportedMapKey kind of
        None \<Rightarrow> Inl (ErrMsg ''map_value: unsupported key kind'')
      | Some width \<Rightarrow>
          if width = 0 then Inr (KString k) else res_map (\<lambda>u. KUint (of_nat u)) (parseUint k 10 (width * 8)))"

definition RuntimeMap_UnmarshalJSON :: "json_env \<Rightarrow> registry \<Rightarrow> json_into \<Rightarrow> gokind \<Rightarrow> string \<Rightarrow> json \<Rightarrow> obj res" where
  "RuntimeMap_UnmarshalJSON env bps rec kind vn j =
     (if j = JNull then Inr (RMap kind vn [])
      else if supportedMapKey kind = None then Inl (ErrMsg ''map_value: unsupported key kind'')
      else case json_members j of
        Inl e \<Rightarrow> Inl e
      | Inr kvs \<Rightarrow>
          res_map (\<lambda>es. RMap kind vn (into_map es))
            (map_res (\<lambda>(k, raw). case parse_map_key kind k of
                         Inl e \<Rightarrow> Inl e
                       | Inr mk \<Rightarrow> res_map (Pair mk) (elem_UnmarshalJSON env bps rec vn raw)) kvs))"

definition unmarshalFieldJSON :: "json_env \<Rightarrow> registry \<Rightarrow> json_into \<Rightarrow> spec option \<Rightarrow> json \<Rightarrow> obj res" where
  "unmarshalFieldJSON env bps rec sp raw =
     (case sp of
        None \<Rightarrow> Inl (ErrMsg ''unknown spec'')
      | Some (PrimitiveSpec p) \<Rightarrow> newJSON bps rec p raw
      | Some (RefSpec t) \<Rightarrow> newJSON bps rec t raw
      | Some (SliceSpec t) \<Rightarrow>
          (case newRuntimeSliceWith bps t of Inl e \<Rightarrow> Inl e | Inr _ \<Rightarrow> RuntimeSlice_UnmarshalJSON env bps rec t raw)
      | Some (ArraySpec t n) \<Rightarrow>
          (case newRuntimeArrayWith bps t n of Inl e \<Rightarrow> Inl e | Inr _ \<Rightarrow> RuntimeArray_UnmarshalJSON env bps rec t (unat n) raw)
      | Some (MapSpec k t) \<Rightarrow>
          (case newRuntimeMapWith bps k t of
             Inl e \<Rightarrow> Inl e
           | Inr _ \<Rightarrow> (case resolveKeyType k of Inl e \<Rightarrow> Inl e | Inr kt \<Rightarrow> RuntimeMap_UnmarshalJSON env bps rec kt t raw))
      | Some (PtrSpec t) \<Rightarrow> if raw = JNull then Inr NilObj else newJSON bps rec t raw
      | Some ObjectSpec \<Rightarrow> if raw = JNull then Inr NilObj else open_envelope env bps rec raw)"

text \<open>Two keys that differ only in case make the document ambiguous.\<close>

definition fold_keys :: "(string \<Rightarrow> string) \<Rightarrow> (string \<times> json) list \<Rightarrow> (string \<times> json) list res" where
  "fold_keys lower raw =
     (if distinct (map (\<lambda>(k, v). lower k) raw) then Inr (map (\<lambda>(k, v). (lower k, v)) raw)
      else Inl (ErrMsg ''object has duplicate fields due to case insensitivity''))"

text \<open>The recursive calls go to values inside the document, or to the same value for the object behind an alias.\<close>

definition same_below :: "nat \<Rightarrow> json_into \<Rightarrow> json_into \<Rightarrow> bool" where
  "same_below n rec rec' \<longleftrightarrow> (\<forall>o1 j. size j < n \<longrightarrow> rec o1 j = rec' o1 j)"

lemma same_below_mono: "same_below n rec rec' \<Longrightarrow> m \<le> n \<Longrightarrow> same_below m rec rec'"
  by (auto simp: same_below_def)

lemma newJSON_same: "same_below (Suc (size j)) rec rec' \<Longrightarrow> newJSON bps rec t j = newJSON bps rec' t j"
  by (auto simp: newJSON_def same_below_def split: option.splits)

lemma bpPtr_same:
  "same_below (Suc (size j)) rec rec' \<Longrightarrow> unmarshalRuntimeBlueprintPtr bps rec t j = unmarshalRuntimeBlueprintPtr bps rec' t j"
  by (auto simp: unmarshalRuntimeBlueprintPtr_def same_below_def split: option.splits)

lemma envelope_same: "same_below (Suc (size j)) rec rec' \<Longrightarrow> open_envelope env bps rec j = open_envelope env bps rec' j"
  using adapter_smaller by (auto simp: open_envelope_def same_below_def less_SucI split: option.splits sum.splits)

lemma elem_same:
  "same_below (Suc (size j)) rec rec' \<Longrightarrow> elem_UnmarshalJSON env bps rec en j = elem_UnmarshalJSON env bps rec' en j"
  by (simp add: elem_UnmarshalJSON_def bpPtr_same envelope_same newJSON_same)

lemma slice_same:
  assumes "same_below (size j) rec rec'"
  shows "RuntimeSlice_UnmarshalJSON env bps rec en j = RuntimeSlice_UnmarshalJSON env bps rec' en j"
    and "RuntimeArray_UnmarshalJSON env bps rec en len j = RuntimeArray_UnmarshalJSON env bps rec' en len j"
proof -
  have "map_res (elem_UnmarshalJSON env bps rec en) js = map_res (elem_UnmarshalJSON env bps rec' en) js" if "json_elems j = Inr js" for js
    using elems_smaller [OF that] by (intro map_res_cong elem_same same_below_mono [OF assms]) (simp_all add: Suc_le_eq)
  then show "RuntimeSlice_UnmarshalJSON env bps rec en j = RuntimeSlice_UnmarshalJSON env bps rec' en j"
    "RuntimeArray_UnmarshalJSON env bps rec en len j = RuntimeArray_UnmarshalJSON env bps rec' en len j"
    by (simp_all add: RuntimeSlice_UnmarshalJSON_def RuntimeArray_UnmarshalJSON_def split: sum.splits)
qed

lemma map_same:
  assumes "same_below (size j) rec rec'"
  shows "RuntimeMap_UnmarshalJSON env bps rec kind vn j = RuntimeMap_UnmarshalJSON env bps rec' kind vn j"
proof -
  have el: "elem_UnmarshalJSON env bps rec vn raw = elem_UnmarshalJSON env bps rec' vn raw"
    if "json_members j = Inr kvs" "(k, raw) \<in> set kvs" for kvs k raw
    using members_smaller [OF that] by (intro elem_same same_below_mono [OF assms]) (simp add: Suc_le_eq)
  show ?thesis
  proof (cases "json_members j")
    case (Inr kvs)
    have "map_res (\<lambda>(k, raw). case parse_map_key kind k of Inl e \<Rightarrow> Inl e | Inr mk \<Rightarrow> res_map (Pair mk) (elem_UnmarshalJSON env bps rec vn raw)) kvs =
        map_res (\<lambda>(k, raw). case parse_map_key kind k of Inl e \<Rightarrow> Inl e | Inr mk \<Rightarrow> res_map (Pair mk) (elem_UnmarshalJSON env bps rec' vn raw)) kvs"
      by (rule map_res_cong [OF refl]) (auto simp: el [OF Inr] split: sum.splits)
    then show ?thesis by (simp add: RuntimeMap_UnmarshalJSON_def Inr)
  qed (simp add: RuntimeMap_UnmarshalJSON_def)
qed

lemma into_congs [fundef_cong]:
  assumes "j = j'" and "\<And>o1 x. size x < size j' \<Longrightarrow> rec o1 x = rec' o1 x"
  shows "RuntimeSlice_UnmarshalJSON env bps rec en j = RuntimeSlice_UnmarshalJSON env bps rec' en j'"
    and "RuntimeArray_UnmarshalJSON env bps rec en len j = RuntimeArray_UnmarshalJSON env bps rec' en len j'"
    and "RuntimeMap_UnmarshalJSON env bps rec kind en j = RuntimeMap_UnmarshalJSON env bps rec' kind en j'"
proof -
  have "same_below (size j') rec rec'" using assms(2) by (simp add: same_below_def)
  note s = slice_same [OF this] map_same [OF this]
  show "RuntimeSlice_UnmarshalJSON env bps rec en j = RuntimeSlice_UnmarshalJSON env bps rec' en j'"
    "RuntimeArray_UnmarshalJSON env bps rec en len j = RuntimeArray_UnmarshalJSON env bps rec' en len j'"
    "RuntimeMap_UnmarshalJSON env bps rec kind en j = RuntimeMap_UnmarshalJSON env bps rec' kind en j'"
    unfolding assms(1) by (rule s)+
qed

lemma field_cong [fundef_cong]:
  assumes "sp = sp'" and "raw = raw'" and "\<And>o1 j. size j < Suc (size raw') \<Longrightarrow> rec o1 j = rec' o1 j"
  shows "unmarshalFieldJSON env bps rec sp raw = unmarshalFieldJSON env bps rec' sp' raw'"
proof -
  have b: "same_below (Suc (size raw')) rec rec'" using assms(3) by (simp add: same_below_def)
  have b': "same_below (size raw') rec rec'" by (rule same_below_mono [OF b]) simp
  note s = newJSON_same [OF b] slice_same [OF b'] map_same [OF b'] envelope_same [OF b]
  show ?thesis unfolding assms(1,2) unmarshalFieldJSON_def s by (rule refl)
qed

lemma fold_keys_smaller:
  "fold_keys lower m = Inr low \<Longrightarrow> map_of low k = Some x \<Longrightarrow> json_members j = Inr m \<Longrightarrow> size x < size j"
  using members_smaller by (fastforce simp: fold_keys_def dest: map_of_SomeD split: if_splits)

function obj_UnmarshalJSON :: "json_env \<Rightarrow> registry \<Rightarrow> obj \<Rightarrow> json \<Rightarrow> obj res" where
  "obj_UnmarshalJSON env bps o1 j =
     (case o1 of
        Absent \<Rightarrow> Inl (ErrMsg ''alias-kind has no underlying primitive bound'')
      | NilObj \<Rightarrow> res_map (\<lambda>_. NilObj) (EmptyObject_UnmarshalJSON j)
      | Prim p \<Rightarrow> res_map Prim (prim_UnmarshalJSON env p j)
      | Native n payload \<Rightarrow> res_map (Native n) (je_parseNative env n j)
      | Struct bp vs \<Rightarrow>
          (case json_members j of
             Inl e \<Rightarrow> Inl e
           | Inr raw \<Rightarrow>
               (case fold_keys (je_lower env) raw of
                  Inl e \<Rightarrow> Inl e
                | Inr low \<Rightarrow>
                    res_map (Struct bp)
                      (map_res (\<lambda>(f, v).
                          case map_of low (je_lower env (Name f)) of
                            None \<Rightarrow> Inr v
                          | Some rawField \<Rightarrow> unmarshalFieldJSON env bps (\<lambda>o2 x. obj_UnmarshalJSON env bps o2 x) (Spec f) rawField)
                        (zip (Fields bp) vs))))
      | Alias bp v \<Rightarrow> if j = JNull then Inr (Alias bp v) else res_map (Alias bp) (obj_UnmarshalJSON env bps v j)
      | RSlice en vs \<Rightarrow> RuntimeSlice_UnmarshalJSON env bps (\<lambda>o2 x. obj_UnmarshalJSON env bps o2 x) en j
      | RArray en vs \<Rightarrow> RuntimeArray_UnmarshalJSON env bps (\<lambda>o2 x. obj_UnmarshalJSON env bps o2 x) en (length vs) j
      | RMap kind vn es \<Rightarrow> RuntimeMap_UnmarshalJSON env bps (\<lambda>o2 x. obj_UnmarshalJSON env bps o2 x) kind vn j)"
  by pat_completeness auto
termination
  by (relation "measures [\<lambda>(env, bps, o1, j). size j, \<lambda>(env, bps, o1, j). size o1]")
    (auto dest: fold_keys_smaller)

declare obj_UnmarshalJSON.simps [simp del]

subsection \<open>Objects that come back\<close>

text \<open>A fresh struct has a slot for every field.\<close>

fun sized :: "obj \<Rightarrow> bool" where
  "sized (Struct bp vs) \<longleftrightarrow> length vs = length (Fields bp)"
| "sized (Alias bp v) \<longleftrightarrow> sized v"
| "sized _ \<longleftrightarrow> True"

lemma zeroFields_length: "zeroFields rec bps fs d left = Some (Inr vs, l) \<Longrightarrow> length vs = length fs"
proof (induction fs arbitrary: left vs l)
  case (Cons f fs)
  then show ?case by (auto split: option.splits sum.splits prod.splits)
qed simp

lemma newAt_sized: "newAt k r t d left = Some (Inr (Some v), l) \<Longrightarrow> sized v"
proof (induction k arbitrary: r t d left v l)
  case (Suc k)
  have proto: "sized (newProto e)" for e by (simp add: newProto_def Let_def split: option.splits)
  have made: "sized x" if "newRuntimeObjectAt (newAt k) lvl b d left = Some (Inr x, l')" for lvl b x l'
    using that Suc.IH zeroFields_length
    by (auto simp: newRuntimeObjectAt_def newWith_def split: if_splits option.splits sum.splits prod.splits bool.splits)
  from Suc.prems obtain e lvl where lk: "lookup_entry r t = Some (e, lvl)" by (auto split: option.splits)
  then show ?case using Suc.prems proto made
    by (auto split: entry.splits if_splits option.splits sum.splits prod.splits)
qed simp

lemma New_sized: "New bps t = Some z \<Longrightarrow> sized z"
  by (auto simp: New_def newWith_def split: option.splits prod.splits sum.splits intro: newAt_sized)

text \<open>Objects whose JSON form is not the bare \<^verbatim>\<open>null\<close> that stands for absence.\<close>

definition solid :: "json_env \<Rightarrow> obj \<Rightarrow> bool" where
  "solid env v \<longleftrightarrow> obj_MarshalJSON env v \<noteq> Inr JNull"

definition json_elem_ok :: "json_env \<Rightarrow> registry \<Rightarrow> string \<Rightarrow> obj \<Rightarrow> bool" where
  "json_elem_ok env bps en v \<longleftrightarrow>
     elem_ok bps en v \<and> (v \<noteq> Absent \<longrightarrow> (if en = [] then valid_utf8 (ObjectType v) \<and> ObjectType v \<noteq> [] else solid env v))"

definition json_field_ok :: "json_env \<Rightarrow> registry \<Rightarrow> spec option \<Rightarrow> obj \<Rightarrow> bool" where
  "json_field_ok env bps sp v =
     (case sp of
        Some (MapSpec k t) \<Rightarrow>
          (case v of RMap kt vn es \<Rightarrow> vn = t \<and> resolveKeyType k = Inr kt \<and> resolveElemType bps t = None | _ \<Rightarrow> False)
      | Some (PtrSpec t) \<Rightarrow> field_ok bps sp v \<and> (v = NilObj \<or> solid env v)
      | Some ObjectSpec \<Rightarrow> field_ok bps sp v \<and> (v = NilObj \<or> valid_utf8 (ObjectType v))
      | _ \<Rightarrow> field_ok bps sp v)"

fun json_ok :: "json_env \<Rightarrow> (string \<Rightarrow> bytes \<Rightarrow> bool) \<Rightarrow> registry \<Rightarrow> obj \<Rightarrow> bool" where
  "json_ok env nok bps (Prim p) \<longleftrightarrow> prim_json_ok env p"
| "json_ok env nok bps (Native n pl) \<longleftrightarrow> nok n pl"
| "json_ok env nok bps (Struct bp vs) \<longleftrightarrow>
     (\<forall>f \<in> set (Fields bp). isASCII (Name f)) \<and> distinct (map (\<lambda>f. ToLower (Name f)) (Fields bp)) \<and>
     list_all2 (\<lambda>f v. json_field_ok env bps (Spec f) v) (Fields bp) vs \<and> (\<forall>v \<in> set vs. json_ok env nok bps v)"
| "json_ok env nok bps (Alias bp v) \<longleftrightarrow> solid env v \<and> json_ok env nok bps v"
| "json_ok env nok bps (RSlice en vs) \<longleftrightarrow> (\<forall>v \<in> set vs. json_elem_ok env bps en v \<and> json_ok env nok bps v)"
| "json_ok env nok bps (RArray en vs) \<longleftrightarrow> (\<forall>v \<in> set vs. json_elem_ok env bps en v \<and> json_ok env nok bps v)"
| "json_ok env nok bps (RMap kind vn es) \<longleftrightarrow>
     (case supportedMapKey kind of
        None \<Rightarrow> False
      | Some width \<Rightarrow> (\<forall>(k, v) \<in> set es. key_ok width k \<and> valid_utf8 (map_key_text k) \<and> json_elem_ok env bps vn v \<and> json_ok env nok bps v)) \<and>
     distinct (map fst es) \<and> sorted (map (\<lambda>(k, v). map_key_text k) es)"
| "json_ok env nok bps _ \<longleftrightarrow> True"

fun json_like :: "obj \<Rightarrow> obj \<Rightarrow> bool" where
  "json_like (RSlice a vs) (RSlice b ws) \<longleftrightarrow> a = b"
| "json_like (RArray a vs) (RArray b ws) \<longleftrightarrow> a = b \<and> length vs = length ws"
| "json_like (RMap k a vs) (RMap l b ws) \<longleftrightarrow> k = l \<and> a = b"
| "json_like z v \<longleftrightarrow> like z v \<and> sized z"

definition comes_back :: "json_env \<Rightarrow> registry \<Rightarrow> obj \<Rightarrow> bool" where
  "comes_back env bps v \<longleftrightarrow>
     (\<forall>z j. obj_MarshalJSON env v = Inr j \<longrightarrow> json_like z v \<longrightarrow> obj_UnmarshalJSON env bps z j = Inr v)"

lemma like_sized: "like z v \<Longrightarrow> sized z \<Longrightarrow> json_like z v"
  by (cases z; cases v) auto

lemma new_back:
  "comes_back env bps v \<Longrightarrow> named_ok bps t v \<Longrightarrow> obj_MarshalJSON env v = Inr j \<Longrightarrow>
     newJSON bps (obj_UnmarshalJSON env bps) t j = Inr v"
  by (auto simp: named_ok_def newJSON_def comes_back_def intro: like_sized New_sized split: option.splits)

lemma envelope_back:
  "comes_back env bps v \<Longrightarrow> named_ok bps (ObjectType v) v \<Longrightarrow> valid_utf8 (ObjectType v) \<Longrightarrow> lower_ok (je_lower env) \<Longrightarrow>
     obj_MarshalJSON env v = Inr j \<Longrightarrow>
     open_envelope env bps (obj_UnmarshalJSON env bps) (JSONAdapter_MarshalJSON (ObjectType v) j) = Inr v"
  by (auto simp: named_ok_def open_envelope_def adapter_back comes_back_def intro: like_sized New_sized split: option.splits)

lemma adapter_not_null [simp]: "JSONAdapter_MarshalJSON t j \<noteq> JNull"
  by (simp add: JSONAdapter_MarshalJSON_def)

lemma elem_back:
  assumes v: "comes_back env bps v" "json_elem_ok env bps en v" and low: "lower_ok (je_lower env)"
    and m: "elem_MarshalJSON en v (obj_MarshalJSON env v) = Inr j"
  shows "elem_UnmarshalJSON env bps (obj_UnmarshalJSON env bps) en j = Inr v"
proof (cases "v = Absent")
  case True
  then have "j = JNull" using m by (auto simp: elem_MarshalJSON_def isPtrNil_def split: if_splits)
  then show ?thesis using True by (simp add: elem_UnmarshalJSON_def unmarshalRuntimeBlueprintPtr_def)
next
  case False
  show ?thesis
  proof (cases "en = []")
    case True
    then have n: "named_ok bps (ObjectType v) v" "v \<noteq> NilObj" "valid_utf8 (ObjectType v)"
      using v False by (auto simp: json_elem_ok_def elem_ok_def)
    then obtain i where "obj_MarshalJSON env v = Inr i" "j = JSONAdapter_MarshalJSON (ObjectType v) i"
      using m True False by (auto simp: elem_MarshalJSON_def isPtrNil_def res_map_Inr_iff split: if_splits)
    then show ?thesis using True envelope_back [OF v(1) n(1,3) low] by (simp add: elem_UnmarshalJSON_def isRuntimeBlueprintType_def)
  next
    case ne: False
    then have j: "obj_MarshalJSON env v = Inr j" "j \<noteq> JNull"
      using m v False by (auto simp: elem_MarshalJSON_def json_elem_ok_def solid_def)
    have n: "named_ok bps en v" "isRuntimeBlueprintType bps en \<Longrightarrow> is_runtime v"
      using v(2) ne False by (auto simp: json_elem_ok_def elem_ok_def)
    then obtain z where z: "New bps en = Some z" "like z v" by (auto simp: named_ok_def split: option.splits)
    have "is_runtime z" if "is_runtime v" using z(2) that by (cases z; cases v) (auto simp: is_runtime_def)
    moreover have "obj_UnmarshalJSON env bps z j = Inr v"
      using v(1) j(1) like_sized [OF z(2) New_sized [OF z(1)]] by (simp add: comes_back_def)
    ultimately show ?thesis using ne j n z
      by (auto simp: elem_UnmarshalJSON_def unmarshalRuntimeBlueprintPtr_def newJSON_def)
  qed
qed

lemma elems_back:
  assumes "\<forall>v \<in> set vs. comes_back env bps v \<and> json_elem_ok env bps en v" and "lower_ok (je_lower env)"
    and "map_res (\<lambda>(v, J). elem_MarshalJSON en v J) (map (\<lambda>v. (v, obj_MarshalJSON env v)) vs) = Inr js"
  shows "map_res (elem_UnmarshalJSON env bps (obj_UnmarshalJSON env bps) en) js = Inr vs" "length js = length vs"
proof -
  from assms(3) have l: "list_all2 (\<lambda>v j. elem_MarshalJSON en v (obj_MarshalJSON env v) = Inr j) vs js"
    by (simp add: map_res_Inr list_all2_map1)
  then show "length js = length vs" by (simp add: list_all2_lengthD)
  from l assms(1) have "list_all2 (\<lambda>v j. elem_UnmarshalJSON env bps (obj_UnmarshalJSON env bps) en j = Inr v) vs js"
    using elem_back [OF _ _ assms(2)] by (auto simp: list_all2_conv_all_nth)
  then show "map_res (elem_UnmarshalJSON env bps (obj_UnmarshalJSON env bps) en) js = Inr vs"
    by (simp add: map_res_Inr list_all2_conv_all_nth)
qed

lemma field_back:
  assumes v: "comes_back env bps v" and ok: "json_field_ok env bps sp v" and low: "lower_ok (je_lower env)"
    and m: "marshalFieldJSON sp v (obj_MarshalJSON env v) = Inr j"
  shows "unmarshalFieldJSON env bps (obj_UnmarshalJSON env bps) sp j = Inr v"
proof (cases sp)
  case (Some s)
  have into: "obj_UnmarshalJSON env bps z j = Inr v" if "obj_MarshalJSON env v = Inr j" "json_like z v" for z
    using v that by (simp add: comes_back_def)
  show ?thesis
  proof (cases s)
    case (PrimitiveSpec p)
    then have n: "named_ok bps p v" using ok Some by (simp add: json_field_ok_def field_ok_def)
    then show ?thesis using Some PrimitiveSpec m named_not_absent [OF n] new_back [OF v n]
      by (simp add: marshalFieldJSON_def unmarshalFieldJSON_def)
  next
    case (RefSpec t)
    then have n: "named_ok bps t v" using ok Some by (simp add: json_field_ok_def field_ok_def)
    then show ?thesis using Some RefSpec m named_not_absent [OF n] new_back [OF v n]
      by (simp add: marshalFieldJSON_def unmarshalFieldJSON_def)
  next
    case (SliceSpec t)
    then obtain vs where vs: "v = RSlice t vs" "resolveElemType bps t = None"
      using ok Some by (auto simp: json_field_ok_def field_ok_def split: obj.splits)
    then have "obj_UnmarshalJSON env bps (RSlice t []) j = Inr v"
      using into [of "RSlice t []"] m Some SliceSpec by (simp add: marshalFieldJSON_def del: obj_MarshalJSON.simps)
    then show ?thesis using Some SliceSpec vs
      by (simp add: unmarshalFieldJSON_def newRuntimeSliceWith_def obj_UnmarshalJSON.simps [of _ _ "RSlice t []"])
  next
    case (ArraySpec t n)
    then obtain vs where vs: "v = RArray t vs" "resolveElemType bps t = None" "length vs = unat n"
      using ok Some by (auto simp: json_field_ok_def field_ok_def split: obj.splits)
    then have "obj_UnmarshalJSON env bps (RArray t vs) j = Inr v"
      using into [of "RArray t vs"] m Some ArraySpec by (simp add: marshalFieldJSON_def del: obj_MarshalJSON.simps)
    then show ?thesis using Some ArraySpec vs
      by (simp add: unmarshalFieldJSON_def newRuntimeArrayWith_def obj_UnmarshalJSON.simps [of _ _ "RArray t vs"])
  next
    case (MapSpec k t)
    then obtain kt es where es: "v = RMap kt t es" "resolveKeyType k = Inr kt" "resolveElemType bps t = None"
      using ok Some by (auto simp: json_field_ok_def split: obj.splits)
    then have "obj_UnmarshalJSON env bps (RMap kt t []) j = Inr v"
      using into [of "RMap kt t []"] m Some MapSpec by (simp add: marshalFieldJSON_def del: obj_MarshalJSON.simps)
    then show ?thesis using Some MapSpec es
      by (simp add: unmarshalFieldJSON_def newRuntimeMapWith_def obj_UnmarshalJSON.simps [of _ _ "RMap kt t []"])
  next
    case (PtrSpec t)
    show ?thesis
    proof (cases "v = NilObj")
      case True
      then show ?thesis using m Some PtrSpec by (simp add: marshalFieldJSON_def unmarshalFieldJSON_def isPtrNil_def)
    next
      case False
      then have n: "named_ok bps t v" "solid env v" using ok Some PtrSpec by (auto simp: json_field_ok_def field_ok_def)
      then have "obj_MarshalJSON env v = Inr j" using m Some PtrSpec False named_not_absent [OF n(1)] by (auto simp: marshalFieldJSON_def isPtrNil_def)
      then show ?thesis using n new_back [OF v n(1)] Some PtrSpec by (auto simp: unmarshalFieldJSON_def solid_def)
    qed
  next
    case ObjectSpec
    show ?thesis
    proof (cases "v = NilObj")
      case True
      then show ?thesis using m Some ObjectSpec by (simp add: marshalFieldJSON_def unmarshalFieldJSON_def)
    next
      case False
      then have n: "named_ok bps (ObjectType v) v" "valid_utf8 (ObjectType v)" using ok Some ObjectSpec by (auto simp: json_field_ok_def field_ok_def)
      then obtain i where "obj_MarshalJSON env v = Inr i" "j = JSONAdapter_MarshalJSON (ObjectType v) i"
        using m Some ObjectSpec False named_not_absent [OF n(1)] by (auto simp: marshalFieldJSON_def res_map_Inr_iff)
      then show ?thesis using envelope_back [OF v n low] Some ObjectSpec by (simp add: unmarshalFieldJSON_def)
    qed
  qed
qed (use ok in \<open>simp add: json_field_ok_def field_ok_def\<close>)

lemma object_members:
  assumes "distinct (map fst kvs)" and "\<forall>(k, v) \<in> set kvs. valid_utf8 k"
  shows "json_members (json_object kvs) = Inr (sort_key fst kvs)"
proof -
  have "map (\<lambda>(k, v). (coerce_utf8 k, v)) (sort_key fst kvs) = sort_key fst kvs"
    using assms(2) by (intro map_idI) (auto simp: valid_utf8_def)
  moreover have "distinct (map fst (sort_key fst kvs))"
    using assms(1) by (metis distinct_map distinct_sort set_sort)
  ultimately show ?thesis by (simp add: json_members_def json_object_def into_map_distinct)
qed

lemma fold_keys_lookup:
  assumes "distinct (map (\<lambda>(k, v). lower k) kvs)" and "(k, x) \<in> set kvs"
  shows "\<exists>low. fold_keys lower (sort_key fst kvs) = Inr low \<and> map_of low (lower k) = Some x"
proof -
  have "mset (map (\<lambda>(k, v). lower k) (sort_key fst kvs)) = mset (map (\<lambda>(k, v). lower k) kvs)" by simp
  then have d: "distinct (map (\<lambda>(k, v). lower k) (sort_key fst kvs))" using assms(1) by (metis mset_eq_imp_distinct_iff)
  let ?low = "map (\<lambda>(k, v). (lower k, v)) (sort_key fst kvs)"
  have "map fst ?low = map (\<lambda>(k, v). lower k) (sort_key fst kvs)" by (simp add: split_beta comp_def)
  moreover have "(lower k, x) \<in> set ?low" using assms(2) by force
  ultimately have "map_of ?low (lower k) = Some x" using d by (metis map_of_is_SomeI)
  then show ?thesis using d by (simp add: fold_keys_def)
qed

lemma struct_back:
  assumes v: "\<forall>v \<in> set vs. comes_back env bps v" and low: "lower_ok (je_lower env)" and z: "length zs = length (Fields bp)"
    and ascii: "\<forall>f \<in> set (Fields bp). isASCII (Name f)" and d: "distinct (map (\<lambda>f. ToLower (Name f)) (Fields bp))"
    and ok: "list_all2 (\<lambda>f v. json_field_ok env bps (Spec f) v) (Fields bp) vs"
    and m: "obj_MarshalJSON env (Struct bp vs) = Inr j"
  shows "obj_UnmarshalJSON env bps (Struct bp zs) j = Inr (Struct bp vs)"
proof -
  let ?fs = "Fields bp"
  let ?J = "\<lambda>f v. marshalFieldJSON (Spec f) v (obj_MarshalJSON env v)"
  have len: "length vs = length ?fs" using ok by (simp add: list_all2_lengthD)
  obtain kvs where kvs: "map_res (\<lambda>(f, v, J). res_map (Pair (Name f)) (marshalFieldJSON (Spec f) v J))
      (zip ?fs (map (\<lambda>v. (v, obj_MarshalJSON env v)) vs)) = Inr kvs" and j: "j = json_object (into_map kvs)"
    using m by (auto simp: res_map_Inr_iff)
  then have n: "length kvs = length ?fs"
    "\<And>i. i < length ?fs \<Longrightarrow> fst (kvs ! i) = Name (?fs ! i) \<and> ?J (?fs ! i) (vs ! i) = Inr (snd (kvs ! i))"
    using len by (auto simp: map_res_Inr list_all2_conv_all_nth res_map_Inr_iff)
  have lower: "je_lower env (Name f) = ToLower (Name f)" "valid_utf8 (Name f)" if "f \<in> set ?fs" for f
  proof -
    have a: "\<forall>c \<in> set (Name f). (of_char c :: nat) < 0x80" using that ascii by (fastforce simp: isASCII_def)
    show "je_lower env (Name f) = ToLower (Name f)" "valid_utf8 (Name f)"
      using a low ascii_valid [OF a] by (simp_all add: lower_ok_def)
  qed
  have names: "map fst kvs = map Name ?fs" using n by (intro nth_equalityI) auto
  have lowers: "map (\<lambda>(k, v). je_lower env k) kvs = map (\<lambda>f. ToLower (Name f)) ?fs"
    using n lower by (intro nth_equalityI) (auto simp: split_beta)
  have "distinct (map fst kvs)" unfolding names using d by (metis (mono_tags, lifting) distinct_map inj_onI inj_on_def)
  moreover have "\<forall>(k, v) \<in> set kvs. valid_utf8 k"
    using n lower(2) by (auto simp: in_set_conv_nth split_beta) (metis nth_mem prod.collapse prod.inject)+
  ultimately have mem: "json_members j = Inr (sort_key fst kvs)" unfolding j by (simp add: into_map_distinct object_members)
  have "distinct (map (\<lambda>(k, v). je_lower env k) kvs)" unfolding lowers by (rule d)
  note look = fold_keys_lookup [OF this]
  have "\<exists>l. fold_keys (je_lower env) (sort_key fst kvs) = Inr l"
  proof (cases kvs)
    case (Cons a as)
    then show ?thesis using look [of "fst a" "snd a"] by auto
  qed (simp add: fold_keys_def)
  then obtain l where l: "fold_keys (je_lower env) (sort_key fst kvs) = Inr l" by blast
  have at: "map_of l (je_lower env (Name (?fs ! i))) = Some (snd (kvs ! i))" if "i < length ?fs" for i
  proof -
    have "(fst (kvs ! i), snd (kvs ! i)) \<in> set kvs" using n(1) that by simp
    then show ?thesis using look [of "fst (kvs ! i)" "snd (kvs ! i)"] n(2) [OF that] l by simp
  qed
  have "map_res (\<lambda>(f, v). case map_of l (je_lower env (Name f)) of None \<Rightarrow> Inr v
        | Some rawField \<Rightarrow> unmarshalFieldJSON env bps (obj_UnmarshalJSON env bps) (Spec f) rawField) (zip ?fs zs) = Inr vs"
    unfolding map_res_Inr using len z at n ok v field_back [OF _ _ low]
    by (auto simp: list_all2_conv_all_nth)
  then show ?thesis by (simp add: obj_UnmarshalJSON.simps [of _ _ "Struct bp zs"] mem l)
qed

lemma key_back: "supportedMapKey kind = Some width \<Longrightarrow> key_ok width k \<Longrightarrow> parse_map_key kind (map_key_text k) = Inr k"
  by (auto simp: parse_map_key_def map_key_text_def key_ok_def split: mapkey.splits)

lemma map_back:
  assumes v: "\<forall>(k, v) \<in> set es. comes_back env bps v" and low: "lower_ok (je_lower env)"
    and ok: "json_ok env nok bps (RMap kind vn es)" and m: "obj_MarshalJSON env (RMap kind vn es) = Inr j"
  shows "RuntimeMap_UnmarshalJSON env bps (obj_UnmarshalJSON env bps) kind vn j = Inr (RMap kind vn es)"
proof (cases "es = []")
  case True
  then show ?thesis using m by (simp add: mapValue_MarshalJSON_def RuntimeMap_UnmarshalJSON_def)
next
  case False
  obtain width where w: "supportedMapKey kind = Some width" using ok by (auto split: option.splits)
  then have e: "key_ok width k \<and> valid_utf8 (map_key_text k) \<and> json_elem_ok env bps vn x" if "(k, x) \<in> set es" for k x
    using ok that by auto
  obtain kvs where "map_res (\<lambda>(k, J). res_map (Pair (map_key_text k)) J)
      (map (\<lambda>(k, v, J). (k, elem_MarshalJSON vn v J)) (map (\<lambda>(k, v). (k, v, obj_MarshalJSON env v)) es)) = Inr kvs"
    and j: "j = json_object (into_map kvs)"
    using m False w by (auto simp: mapValue_MarshalJSON_def res_map_Inr_iff)
  then have n: "length kvs = length es" "\<And>i. i < length es \<Longrightarrow> fst (kvs ! i) = map_key_text (fst (es ! i)) \<and>
      elem_MarshalJSON vn (snd (es ! i)) (obj_MarshalJSON env (snd (es ! i))) = Inr (snd (kvs ! i))"
    by (auto simp: map_res_Inr list_all2_conv_all_nth res_map_Inr_iff split_beta)
  have keys: "map fst kvs = map (\<lambda>(k, v). map_key_text k) es" using n by (intro nth_equalityI) (auto simp: split_beta)
  have inj: "inj_on map_key_text (fst ` set es)"
    using e key_back [OF w] by (auto intro!: inj_onI) (metis sum.inject(2))
  then have "distinct (map map_key_text (map fst es))" using ok by (simp add: distinct_map comp_inj_on)
  then have d: "distinct (map fst kvs)" unfolding keys by (simp add: case_prod_unfold comp_def)
  have utf: "\<forall>(k, v) \<in> set kvs. valid_utf8 k"
  proof clarify
    fix k x
    assume "(k, x) \<in> set kvs"
    then have "k \<in> set (map fst kvs)" by force
    then show "valid_utf8 k" unfolding keys using e by auto
  qed
  have "sorted (map fst kvs)" unfolding keys using ok by simp
  then have s: "sort_key fst kvs = kvs" by (simp add: sort_key_id_if_sorted)
  have mem: "json_members j = Inr kvs" unfolding j using d utf by (simp add: into_map_distinct object_members s)
  have "list_all2 (\<lambda>(k, raw) (mk, x). parse_map_key kind k = Inr mk \<and> elem_UnmarshalJSON env bps (obj_UnmarshalJSON env bps) vn raw = Inr x) kvs es"
    using n e v key_back [OF w] elem_back [OF _ _ low]
    by (auto simp: list_all2_conv_all_nth split_beta) (metis nth_mem prod.collapse)+
  then have "map_res (\<lambda>(k, raw). case parse_map_key kind k of Inl e \<Rightarrow> Inl e
      | Inr mk \<Rightarrow> res_map (Pair mk) (elem_UnmarshalJSON env bps (obj_UnmarshalJSON env bps) vn raw)) kvs = Inr es"
    by (auto simp: map_res_Inr elim!: list_all2_mono)
  moreover have "j \<noteq> JNull" unfolding j by (simp add: json_object_def)
  ultimately show ?thesis using w mem ok by (simp add: RuntimeMap_UnmarshalJSON_def into_map_distinct)
qed

theorem json_back:
  assumes low: "lower_ok (je_lower env)"
    and nat: "\<And>n p j. nok n p \<Longrightarrow> je_native env n p = Inr j \<Longrightarrow> je_parseNative env n j = Inr p"
  shows "json_ok env nok bps v \<Longrightarrow> comes_back env bps v"
proof (induction v)
  case (Prim p)
  then show ?case unfolding comes_back_def
  proof (intro allI impI)
    fix z j
    assume "obj_MarshalJSON env (Prim p) = Inr j" and "json_like z (Prim p)"
    moreover from this obtain q where "z = Prim q" "prim_type q = prim_type p" by (cases z) auto
    ultimately show "obj_UnmarshalJSON env bps z j = Inr (Prim p)"
      using Prim prim_json_back [of env p q j] by (simp add: obj_UnmarshalJSON.simps)
  qed
next
  case (Native n p)
  then show ?case unfolding comes_back_def
    using nat [of n p] by (auto simp: obj_UnmarshalJSON.simps elim!: json_like.elims like.elims)
next
  case (Struct bp vs)
  then have c: "\<forall>v \<in> set vs. comes_back env bps v" by auto
  show ?case unfolding comes_back_def
  proof (intro allI impI)
    fix z j
    assume m: "obj_MarshalJSON env (Struct bp vs) = Inr j" and "json_like z (Struct bp vs)"
    then obtain zs where z: "z = Struct bp zs" "length zs = length (Fields bp)" by (cases z) auto
    show "obj_UnmarshalJSON env bps z j = Inr (Struct bp vs)"
      unfolding z(1) by (rule struct_back [OF c low z(2) _ _ _ m]) (use Struct.prems in simp_all)
  qed
next
  case (Alias bp v)
  then have c: "comes_back env bps v" "solid env v" by auto
  show ?case unfolding comes_back_def
  proof (intro allI impI)
    fix z j
    assume m: "obj_MarshalJSON env (Alias bp v) = Inr j" and "json_like z (Alias bp v)"
    then obtain y where z: "z = Alias bp y" "like y v" "sized y" by (cases z) auto
    then have "obj_UnmarshalJSON env bps y j = Inr v" using c(1) m like_sized by (simp add: comes_back_def)
    then show "obj_UnmarshalJSON env bps z j = Inr (Alias bp v)"
      using c(2) m z(1) by (simp add: obj_UnmarshalJSON.simps [of _ _ "Alias bp y"] solid_def)
  qed
next
  case (RSlice en vs)
  then have c: "\<forall>v \<in> set vs. comes_back env bps v \<and> json_elem_ok env bps en v" by auto
  show ?case unfolding comes_back_def
  proof (intro allI impI)
    fix z j
    assume "obj_MarshalJSON env (RSlice en vs) = Inr j" and "json_like z (RSlice en vs)"
    moreover from this(2) obtain zs where "z = RSlice en zs" by (cases z) auto
    ultimately show "obj_UnmarshalJSON env bps z j = Inr (RSlice en vs)"
      using elems_back [OF c low]
      by (auto simp: obj_UnmarshalJSON.simps [of _ _ "RSlice en zs"] RuntimeSlice_UnmarshalJSON_def json_elems_def res_map_Inr_iff)
  qed
next
  case (RArray en vs)
  then have c: "\<forall>v \<in> set vs. comes_back env bps v \<and> json_elem_ok env bps en v" by auto
  show ?case unfolding comes_back_def
  proof (intro allI impI)
    fix z j
    assume "obj_MarshalJSON env (RArray en vs) = Inr j" and "json_like z (RArray en vs)"
    moreover from this(2) obtain zs where "z = RArray en zs" "length zs = length vs" by (cases z) auto
    ultimately show "obj_UnmarshalJSON env bps z j = Inr (RArray en vs)"
      using elems_back [OF c low]
      by (auto simp: obj_UnmarshalJSON.simps [of _ _ "RArray en zs"] RuntimeArray_UnmarshalJSON_def json_elems_def res_map_Inr_iff)
  qed
next
  case (RMap kind vn es)
  have c: "\<forall>(k, v) \<in> set es. comes_back env bps v"
  proof clarify
    fix k x
    assume "(k, x) \<in> set es"
    then show "comes_back env bps x" using RMap by (auto split: option.splits)
  qed
  show ?case unfolding comes_back_def
  proof (intro allI impI)
    fix z j
    assume m: "obj_MarshalJSON env (RMap kind vn es) = Inr j" and "json_like z (RMap kind vn es)"
    then obtain zs where "z = RMap kind vn zs" by (cases z) auto
    then show "obj_UnmarshalJSON env bps z j = Inr (RMap kind vn es)"
      using map_back [OF c low RMap.prems m] by (simp add: obj_UnmarshalJSON.simps [of _ _ "RMap kind vn zs"])
  qed
qed (auto simp: comes_back_def obj_UnmarshalJSON.simps EmptyObject_UnmarshalJSON_def elim!: json_like.elims like.elims)

subsection \<open>Every such object is written\<close>

lemma elem_written:
  "json_elem_ok env bps en v \<Longrightarrow> obj_MarshalJSON env v = Inr j \<Longrightarrow> \<exists>i. elem_MarshalJSON en v (obj_MarshalJSON env v) = Inr i"
  by (auto simp: elem_MarshalJSON_def json_elem_ok_def isPtrNil_def)

lemma field_written:
  "json_field_ok env bps sp v \<Longrightarrow> obj_MarshalJSON env v = Inr j \<Longrightarrow> \<exists>i. marshalFieldJSON sp v (obj_MarshalJSON env v) = Inr i"
  by (auto simp: marshalFieldJSON_def json_field_ok_def field_ok_def isPtrNil_def dest: named_not_absent split: option.splits spec.splits obj.splits)

lemma elems_written:
  assumes "\<And>v. v \<in> set vs \<Longrightarrow> json_elem_ok env bps en v \<and> (\<exists>j. obj_MarshalJSON env v = Inr j)"
  shows "\<exists>js. map_res (\<lambda>(v, J). elem_MarshalJSON en v J) (map (\<lambda>v. (v, obj_MarshalJSON env v)) vs) = Inr js"
  using assms elem_written by (intro map_res_total) fastforce

lemma json_written:
  assumes nat: "\<And>n p. nok n p \<Longrightarrow> \<exists>j. je_native env n p = Inr j"
  shows "json_ok env nok bps v \<Longrightarrow> \<exists>j. obj_MarshalJSON env v = Inr j"
proof (induction v)
  case (Struct bp vs)
  have "\<exists>kvs. map_res (\<lambda>(f, v, J). res_map (Pair (Name f)) (marshalFieldJSON (Spec f) v J))
      (zip (Fields bp) (map (\<lambda>v. (v, obj_MarshalJSON env v)) vs)) = Inr kvs"
  proof (rule map_res_total, clarify)
    fix f v J
    assume "(f, v, J) \<in> set (zip (Fields bp) (map (\<lambda>v. (v, obj_MarshalJSON env v)) vs))"
    then obtain i where "i < length vs" "i < length (Fields bp)" "f = Fields bp ! i" "v = vs ! i" "J = obj_MarshalJSON env v"
      by (auto simp: set_zip)
    moreover from this have v: "json_field_ok env bps (Spec f) v" "v \<in> set vs" "json_ok env nok bps v"
      using Struct.prems by (auto simp: list_all2_conv_all_nth)
    moreover obtain j where "obj_MarshalJSON env v = Inr j" using Struct.IH [OF v(2,3)] by blast
    ultimately obtain y where "marshalFieldJSON (Spec f) v J = Inr y" using field_written by blast
    then show "\<exists>y. res_map (Pair (Name f)) (marshalFieldJSON (Spec f) v J) = Inr y" by simp
  qed
  then show ?case by (auto simp: res_map_Inr_iff)
next
  case (RSlice en vs)
  then show ?case using elems_written [of vs env bps en] by (auto simp: res_map_Inr_iff)
next
  case (RArray en vs)
  then show ?case using elems_written [of vs env bps en] by (auto simp: res_map_Inr_iff)
next
  case (RMap kind vn es)
  have "\<exists>kvs. map_res (\<lambda>(k, J). res_map (Pair (map_key_text k)) J)
      (map (\<lambda>(k, v, J). (k, elem_MarshalJSON vn v J)) (map (\<lambda>(k, v). (k, v, obj_MarshalJSON env v)) es)) = Inr kvs"
  proof (rule map_res_total, clarify)
    fix k J
    assume "(k, J) \<in> set (map (\<lambda>(k, v, J). (k, elem_MarshalJSON vn v J)) (map (\<lambda>(k, v). (k, v, obj_MarshalJSON env v)) es))"
    then obtain v where e: "(k, v) \<in> set es" and J: "J = elem_MarshalJSON vn v (obj_MarshalJSON env v)" by auto
    then have v: "json_elem_ok env bps vn v" "json_ok env nok bps v" using RMap.prems by (auto split: option.splits)
    moreover obtain j where "obj_MarshalJSON env v = Inr j" using RMap.IH [OF e _ v(2)] by auto
    ultimately obtain y where "elem_MarshalJSON vn v (obj_MarshalJSON env v) = Inr y" using elem_written by blast
    then show "\<exists>y. res_map (Pair (map_key_text k)) J = Inr y" by (simp add: J)
  qed
  then show ?case using RMap.prems by (auto simp: mapValue_MarshalJSON_def res_map_Inr_iff split: option.splits)
qed (auto simp: nat prim_json_total)

text \<open>
  A present value whose form is \<^verbatim>\<open>null\<close> is read as absent behind a pointer: an optional \<^verbatim>\<open>bytes8\<close> field that
  points to a nil slice is lost, though the binary form carries it.
\<close>

lemma null_pointer_lost:
  "marshalFieldJSON (Some (PtrSpec ''bytes8'')) (Prim (PBytes8 [])) (obj_MarshalJSON env (Prim (PBytes8 []))) = Inr JNull"
  "unmarshalFieldJSON env bps rec (Some (PtrSpec ''bytes8'')) JNull = Inr NilObj"
  by (simp_all add: marshalFieldJSON_def unmarshalFieldJSON_def isPtrNil_def Bytes8_MarshalJSON_def bytes_json_def)

end
