(* ===== verification/Json_Channel.thy ===== *)
theory Json_Channel
  imports Runtime_Json Bundle
begin

text \<open>
  What travels in JSON envelopes: \<^verbatim>\<open>src/astral/channel/json_sender.go\<close> and \<^verbatim>\<open>json_receiver.go\<close>, and the JSON
  form of \<^verbatim>\<open>src/astral/bundle.go\<close>.  A stream is the list of documents on it.
\<close>

definition item_MarshalJSON :: "json_env \<Rightarrow> item \<Rightarrow> json res" where
  "item_MarshalJSON env x =
     (case x of
        Obj v \<Rightarrow> obj_MarshalJSON env v
      | Blob b \<Rightarrow> Inr (Blob_MarshalJSON b)
      | Unparsed t b \<Rightarrow> Inl (ErrMsg ''cannot marshal an unparsed object''))"

subsection \<open>Channels\<close>

definition JSONSender_Send :: "json_env \<Rightarrow> item \<Rightarrow> json list \<Rightarrow> error option \<times> json list" where
  "JSONSender_Send env x stream =
     (case x of
        Unparsed t b \<Rightarrow> (Some (ErrMsg ''cannot send unparsed objects over JSON''), stream)
      | _ \<Rightarrow>
          (case item_MarshalJSON env x of
             Inl e \<Rightarrow> (Some e, stream)
           | Inr j \<Rightarrow> (None, stream @ [JSONAdapter_MarshalJSON (item_type x) j])))"

text \<open>The receiver keeps its first error and answers it from then on.\<close>

definition JSONReceiver_Receive :: "json_env \<Rightarrow> registry \<Rightarrow> error option \<times> json list \<Rightarrow> item res \<times> error option \<times> json list" where
  "JSONReceiver_Receive env bps st =
     (case st of
        (Some e, stream) \<Rightarrow> (Inl e, Some e, stream)
      | (None, []) \<Rightarrow> (Inl IoEOF, Some IoEOF, [])
      | (None, doc # rest) \<Rightarrow>
          (case JSONAdapter_UnmarshalJSON (je_lower env) doc of
             Inl e \<Rightarrow> (Inl e, Some e, rest)
           | Inr (typ, payload) \<Rightarrow>
               (case New bps typ of
                  None \<Rightarrow> (Inl (ErrStreamCorrupted typ), Some (ErrStreamCorrupted typ), rest)
                | Some object \<Rightarrow>
                    (case (case payload of None \<Rightarrow> Inr object | Some j \<Rightarrow> obj_UnmarshalJSON env bps object j) of
                       Inl e \<Rightarrow> (Inl e, Some e, rest)
                     | Inr v \<Rightarrow> (Inr (Obj v), None, rest)))))"

subsection \<open>Bundles\<close>

definition Bundle_MarshalJSON :: "json_env \<Rightarrow> object_bundle \<Rightarrow> json res" where
  "Bundle_MarshalJSON env b =
     (if b_objects b = [] then Inr JNull
      else res_map JArr (map_res (\<lambda>x. res_map (JSONAdapter_MarshalJSON (item_type x)) (item_MarshalJSON env x)) (b_objects b)))"

text \<open>
  The payload is read into the variable that holds the new object.  A \<^verbatim>\<open>null\<close> there sets the variable to
  nil, and the append that follows asks the nil object for its type: None is that panic.
\<close>

fun append_members :: "(bytes \<Rightarrow> bytes) \<Rightarrow> json_env \<Rightarrow> registry \<Rightarrow> (string \<times> json option) list \<Rightarrow> object_bundle \<Rightarrow> (error option \<times> object_bundle) option" where
  "append_members sha256 env bps [] b = Some (None, b)"
| "append_members sha256 env bps ((typ, payload) # ms) b =
     (case New bps typ of
        None \<Rightarrow> Some (Some (ErrBlueprintNotFound typ), b)
      | Some object \<Rightarrow>
          if payload = Some JNull then None
          else case (case payload of None \<Rightarrow> Inr object | Some j \<Rightarrow> obj_UnmarshalJSON env bps object j) of
            Inl e \<Rightarrow> Some (Some e, b)
          | Inr v \<Rightarrow>
              (case Bundle_append sha256 (Obj v) b of
                 (Some e, b1) \<Rightarrow> Some (Some e, b1)
               | (None, b1) \<Rightarrow> append_members sha256 env bps ms b1))"

text \<open>The index is made anew; the objects are not.\<close>

definition Bundle_UnmarshalJSON :: "(bytes \<Rightarrow> bytes) \<Rightarrow> json_env \<Rightarrow> registry \<Rightarrow> json \<Rightarrow> object_bundle \<Rightarrow> (error option \<times> object_bundle) option" where
  "Bundle_UnmarshalJSON sha256 env bps j b =
     (let a = b\<lparr>b_index := Some Map.empty\<rparr>
      in case json_elems j of
        Inl e \<Rightarrow> Some (Some e, a)
      | Inr js \<Rightarrow>
          (case map_res (JSONAdapter_UnmarshalJSON (je_lower env)) js of
             Inl e \<Rightarrow> Some (Some e, a)
           | Inr jlist \<Rightarrow> append_members sha256 env bps jlist a))"

subsection \<open>What arrives\<close>

definition json_item_ok :: "json_env \<Rightarrow> (string \<Rightarrow> bytes \<Rightarrow> bool) \<Rightarrow> registry \<Rightarrow> obj \<Rightarrow> bool" where
  "json_item_ok env nok bps v \<longleftrightarrow> json_ok env nok bps v \<and> named_ok bps (ObjectType v) v \<and> valid_utf8 (ObjectType v)"

definition json_natives_ok :: "json_env \<Rightarrow> (string \<Rightarrow> bytes \<Rightarrow> bool) \<Rightarrow> bool" where
  "json_natives_ok env nok \<longleftrightarrow>
     (\<forall>n p. nok n p \<longrightarrow> (\<exists>j. je_native env n p = Inr j \<and> je_parseNative env n j = Inr p))"

lemma json_object_back:
  assumes "lower_ok (je_lower env)" and "json_natives_ok env nok" and "json_ok env nok bps v"
    and "named_ok bps t v" and "New bps t = Some z"
  shows "\<exists>j. obj_MarshalJSON env v = Inr j \<and> obj_UnmarshalJSON env bps z j = Inr v"
proof -
  obtain j where j: "obj_MarshalJSON env v = Inr j"
    using json_written [OF _ assms(3)] assms(2) unfolding json_natives_ok_def by blast
  have "comes_back env bps v"
    by (rule json_back [OF assms(1) _ assms(3)]) (use assms(2) in \<open>fastforce simp: json_natives_ok_def\<close>)
  moreover have "json_like z v" using assms(4,5) New_sized like_sized by (auto simp: named_ok_def)
  ultimately show ?thesis using j by (auto simp: comes_back_def)
qed

lemma json_item_back:
  assumes "lower_ok (je_lower env)" and "json_natives_ok env nok" and "json_item_ok env nok bps v"
  obtains j z where "obj_MarshalJSON env v = Inr j" "New bps (ObjectType v) = Some z" "obj_UnmarshalJSON env bps z j = Inr v"
    "JSONAdapter_UnmarshalJSON (je_lower env) (JSONAdapter_MarshalJSON (ObjectType v) j) = Inr (ObjectType v, Some j)"
proof -
  obtain z where "New bps (ObjectType v) = Some z"
    using assms(3) by (auto simp: json_item_ok_def named_ok_def split: option.splits)
  then show ?thesis
    using json_object_back [OF assms(1,2), of bps v "ObjectType v" z] adapter_back [OF assms(1), of "ObjectType v"] assms(3) that
    by (auto simp: json_item_ok_def)
qed

text \<open>A channel of documents delivers what was sent, one at a time.\<close>

lemma json_channel_step:
  assumes "lower_ok (je_lower env)" and "json_natives_ok env nok" and "json_item_ok env nok bps v"
  shows "\<exists>doc. (\<forall>stream. JSONSender_Send env (Obj v) stream = (None, stream @ [doc])) \<and>
    (\<forall>rest. JSONReceiver_Receive env bps (None, doc # rest) = (Inr (Obj v), None, rest))"
  using json_item_back [OF assms] by (fastforce simp: JSONSender_Send_def JSONReceiver_Receive_def item_MarshalJSON_def)

lemma json_latch:
  "JSONReceiver_Receive env bps (None, stream) = (Inl e, st) \<Longrightarrow> JSONReceiver_Receive env bps st = (Inl e, st)"
  by (auto simp: JSONReceiver_Receive_def split: list.splits option.splits prod.splits sum.splits)

text \<open>An untyped blob is sent, but no registry builds it: it ends the stream of its receiver.\<close>

lemma json_blob_breaks:
  assumes "lower_ok (je_lower env)" and "New bps [] = None"
  shows "\<exists>doc. JSONSender_Send env (Blob b) stream = (None, stream @ [doc]) \<and>
    JSONReceiver_Receive env bps (None, doc # rest) = (Inl (ErrStreamCorrupted []), Some (ErrStreamCorrupted []), rest)"
proof -
  have "valid_utf8 []" by (simp add: valid_utf8_def)
  from adapter_back [OF assms(1) this] assms(2) show ?thesis
    by (simp add: JSONSender_Send_def JSONReceiver_Receive_def item_MarshalJSON_def)
qed

text \<open>The members of a bundle are read up to the first one that is \<^verbatim>\<open>null\<close>.\<close>

lemma members_appended:
  assumes "lower_ok (je_lower env)" and "json_natives_ok env nok"
  shows "\<forall>v \<in> set vs. json_item_ok env nok bps v \<Longrightarrow>
    list_all2 (\<lambda>v j. obj_MarshalJSON env v = Inr j) vs js \<Longrightarrow> append_all sha256 (map Obj vs) b = (None, b1) \<Longrightarrow>
    append_members sha256 env bps (map2 (\<lambda>v j. (ObjectType v, Some j)) vs js) b =
      (if \<forall>v \<in> set vs. solid env v then Some (None, b1) else None)"
proof (induction vs arbitrary: js b)
  case (Cons v vs)
  then obtain j js1 where js: "js = j # js1" "obj_MarshalJSON env v = Inr j" "list_all2 (\<lambda>v j. obj_MarshalJSON env v = Inr j) vs js1"
    by (auto simp: list_all2_Cons1)
  obtain z where z: "New bps (ObjectType v) = Some z" "obj_UnmarshalJSON env bps z j = Inr v"
    using json_item_back [OF assms, of bps v] Cons.prems(1) js(2) by auto
  obtain b2 where b2: "Bundle_append sha256 (Obj v) b = (None, b2)" "append_all sha256 (map Obj vs) b2 = (None, b1)"
    using Cons.prems(3) by (auto split: prod.splits option.splits)
  show ?case using js z b2 Cons.IH [OF _ js(3) b2(2)] Cons.prems(1) by (auto simp: solid_def)
qed simp

lemma bundle_read_back:
  assumes "lower_ok (je_lower env)" and "json_natives_ok env nok" and ok: "\<forall>v \<in> set vs. json_item_ok env nok bps v"
    and app: "Bundle_Append sha256 (map Obj vs) NewBundle = (None, b)"
  shows "\<exists>j. Bundle_MarshalJSON env b = Inr j \<and>
    Bundle_UnmarshalJSON sha256 env bps j NewBundle = (if \<forall>v \<in> set vs. solid env v then Some (None, b) else None)"
proof -
  have new: "bundle_inv sha256 NewBundle" by (simp add: bundle_inv_def NewBundle_def index_of_def index_ok_Nil)
  from Bundle_Append_inv [OF new app] have objs: "b_objects b = map Obj vs" by (auto simp: NewBundle_def)
  have app1: "append_all sha256 (map Obj vs) \<lparr>b_objects = [], b_index = Some Map.empty\<rparr> = (None, b)"
    using app by (simp add: Bundle_Append_def NewBundle_def index_of_def)
  obtain js where js: "list_all2 (\<lambda>v j. obj_MarshalJSON env v = Inr j) vs js"
    using map_res_total [of vs "obj_MarshalJSON env"] ok json_item_back [OF assms(1,2)] unfolding map_res_Inr by metis
  note read = members_appended [OF assms(1,2) ok js app1]
  let ?docs = "map2 (\<lambda>v j. JSONAdapter_MarshalJSON (ObjectType v) j) vs js"
  show ?thesis
  proof (cases "vs = []")
    case True
    then show ?thesis using objs read js by (simp add: Bundle_MarshalJSON_def Bundle_UnmarshalJSON_def json_elems_def NewBundle_def)
  next
    case False
    have "map_res (\<lambda>x. res_map (JSONAdapter_MarshalJSON (item_type x)) (item_MarshalJSON env x)) (map Obj vs) = Inr ?docs"
      using js by (auto simp: map_res_Inr list_all2_conv_all_nth item_MarshalJSON_def)
    moreover have "map_res (JSONAdapter_UnmarshalJSON (je_lower env)) ?docs = Inr (map2 (\<lambda>v j. (ObjectType v, Some j)) vs js)"
      using js ok adapter_back [OF assms(1)] by (auto simp: map_res_Inr list_all2_conv_all_nth json_item_ok_def)
    ultimately show ?thesis using False objs read
      by (simp add: Bundle_MarshalJSON_def Bundle_UnmarshalJSON_def json_elems_def NewBundle_def)
  qed
qed

text \<open>Reading into a bundle that holds objects keeps them and forgets where they are.\<close>

lemma bundle_index_forgotten:
  "Bundle_UnmarshalJSON sha256 env bps JNull b = Some (None, b\<lparr>b_index := Some Map.empty\<rparr>) \<and>
   Bundle_Fetch i (b\<lparr>b_index := Some Map.empty\<rparr>) = None"
  by (simp add: Bundle_UnmarshalJSON_def json_elems_def Bundle_Fetch_def index_of_def)

end
