(* ===== verification/Properties_Json.thy ===== *)
theory Properties_Json
  imports Json_Channel Sample
begin

text \<open>
  The properties of the JSON form of objects and bundles, over the definitions of \<open>Json\<close>, \<open>Runtime_Json\<close> and
  \<open>Json_Channel\<close>.
\<close>

text \<open>
  C17: JSON carries an object.  An object of a type the registry can build has a JSON form, and
  reading that form into a fresh object of the type gives the object back, whatever it nests:
  fields by name whatever their case, typed envelopes in polymorphic slots, map keys as text,
  \<^verbatim>\<open>null\<close> for absence.  The object holds UTF-8 strings, zones without stray bits and identifiers
  the text can carry, field names that stay apart in lower case, maps in key order, and no value
  behind a pointer whose own form is \<^verbatim>\<open>null\<close>; compile-time types read back what they write.
\<close>

theorem json_round_trip:
  assumes "lower_ok (je_lower env)" and "json_natives_ok env nok"
    and "json_ok env nok bps v" and "named_ok bps t v" and "New bps t = Some z"
  shows "\<exists>j. obj_MarshalJSON env v = Inr j \<and> obj_UnmarshalJSON env bps z j = Inr v"
  using json_object_back [OF assms] .

definition sampleEnv :: json_env where
  "sampleEnv = \<lparr>je_lower = ToLower, je_time = (\<lambda>t. Inl ErrJSON), je_parseTime = (\<lambda>j. Inl ErrJSON),
     je_native = (\<lambda>n p. Inr (bytes_json p)), je_parseNative = (\<lambda>n. json_bytes)\<rparr>"

lemma sample_env: "lower_ok (je_lower sampleEnv)" "json_natives_ok sampleEnv (\<lambda>n p. True)"
  by (simp_all add: sampleEnv_def lower_ok_def json_natives_ok_def)

lemma sample_json_ok: "json_ok sampleEnv (\<lambda>n p. True) sampleRegistry sampleObject"
proof -
  have low: "ToLower ''a'' = ''a''" "ToLower ''b'' = ''b''" "ToLower ''c'' = ''c''" by code_simp+
  have asc: "isASCII ''a''" "isASCII ''b''" "isASCII ''c''" by code_simp+
  show ?thesis
    by (simp add: sampleObject_def low asc json_field_ok_def json_elem_ok_def field_ok_def elem_ok_def named_ok_def
        sample_uint8 sample_resolve sample_not_runtime solid_def Uint8_MarshalJSON_def)
qed

theorem json_round_trip_witness:
  "obj_MarshalJSON sampleEnv sampleObject =
     Inr (JObj [(''a'', JNum ''7''), (''b'', JArr [JNum ''1'', JNull]), (''c'', JNull)]) \<and>
   obj_UnmarshalJSON sampleEnv sampleRegistry (Struct demo [Prim (PUint8 0), RSlice ''uint8'' [], NilObj])
     (JObj [(''a'', JNum ''7''), (''b'', JArr [JNum ''1'', JNull]), (''c'', JNull)]) = Inr sampleObject"
proof -
  have "obj_MarshalJSON sampleEnv sampleObject =
     Inr (JObj [(''a'', JNum ''7''), (''b'', JArr [JNum ''1'', JNull]), (''c'', JNull)])"
    unfolding sampleObject_def sampleEnv_def by code_simp
  moreover have "named_ok sampleRegistry ''demo'' sampleObject" using sample_ok(1) by (simp add: sampleObject_def)
  ultimately show ?thesis using json_round_trip [OF sample_env sample_json_ok _ sample_demo] by auto
qed

text \<open>
  C33: a bundle survives JSON exactly when none of its members is written as \<^verbatim>\<open>null\<close>.  The form of a
  bundle filled with Append lists its members in order; a new bundle that reads it has the same objects
  under the same identifiers, but a member whose own form is \<^verbatim>\<open>null\<close> (an ack, an end of stream) makes the
  reader dereference nil and panic.
\<close>

theorem bundle_json_round_trip:
  assumes "lower_ok (je_lower env)" and "json_natives_ok env nok" and "\<forall>v \<in> set vs. json_item_ok env nok bps v"
    and "Bundle_Append sha256 (map Obj vs) NewBundle = (None, b)"
  shows "\<exists>j. Bundle_MarshalJSON env b = Inr j \<and>
    Bundle_UnmarshalJSON sha256 env bps j NewBundle = (if \<forall>v \<in> set vs. solid env v then Some (None, b) else None)"
  using bundle_read_back [OF assms] .

theorem bundle_json_round_trip_witness:
  "\<exists>b. Bundle_Append (\<lambda>_. replicate 32 0) [Obj (Prim (PUint8 5))] NewBundle = (None, b) \<and>
     Bundle_UnmarshalJSON (\<lambda>_. replicate 32 0) sampleEnv sampleRegistry
       (JArr [JObj [(''Type'', JStr ''uint8''), (''Object'', JNum ''5'')]]) NewBundle = Some (None, b)"
proof -
  let ?x = "Obj (Prim (PUint8 5))"
  obtain s where s: "object_key (\<lambda>_. replicate 32 0) ?x = Inr s"
    by (simp add: object_key_def ResolveObjectID_def canonicalForm_def stage_def Stamp_WriteTo_def write_eval)
  let ?b = "\<lparr>b_objects = [?x], b_index = Some [s \<mapsto> 0]\<rparr>"
  have app: "Bundle_Append (\<lambda>_. replicate 32 0) (map Obj [Prim (PUint8 5)]) NewBundle = (None, ?b)"
    by (simp add: Bundle_Append_def Bundle_append_def NewBundle_def index_of_def s)
  have utf: "coerce_utf8 ''uint8'' = ''uint8''" by code_simp
  have json: "obj_MarshalJSON sampleEnv (Prim (PUint8 5)) = Inr (JNum ''5'')" by code_simp
  have "\<forall>v \<in> set [Prim (PUint8 5)]. json_item_ok sampleEnv (\<lambda>n p. True) sampleRegistry v"
    by (simp add: json_item_ok_def named_ok_def sample_uint8 valid_utf8_def utf)
  from bundle_json_round_trip [OF sample_env this app] app json show ?thesis
    by (auto simp: Bundle_MarshalJSON_def item_MarshalJSON_def JSONAdapter_MarshalJSON_def utf solid_def)
qed

end
