(* ===== verification/Net_Addr.thy ===== *)
theory Net_Addr
  imports Hex
begin

text \<open>
  The part of Go's \<^verbatim>\<open>net\<close> and \<^verbatim>\<open>net/netip\<close> under the endpoint types: IP addresses as byte slices (nil is
  the empty one), their text in both families, and the text of a host with a port.
\<close>

subsection \<open>The forms of an address\<close>

definition v4InV6Prefix :: bytes where
  "v4InV6Prefix = replicate 10 0 @ [0xFF, 0xFF]"

definition To4 :: "bytes \<Rightarrow> bytes option" where
  "To4 a = (if length a = 4 then Some a
            else if length a = 16 \<and> take 12 a = v4InV6Prefix then Some (drop 12 a) else None)"

definition To16 :: "bytes \<Rightarrow> bytes option" where
  "To16 a = (if length a = 4 then Some (v4InV6Prefix @ a) else if length a = 16 then Some a else None)"

subsection \<open>Dotted decimals\<close>

fun v4_loop :: "nat \<Rightarrow> nat \<Rightarrow> bytes \<Rightarrow> string \<Rightarrow> bytes option" where
  "v4_loop val digLen fs [] = (if length fs < 3 then None else Some (fs @ [of_nat val]))"
| "v4_loop val digLen fs (c # s) =
     (case digit_val c of
        Some d \<Rightarrow>
          if 9 < d then None
          else if digLen = 1 \<and> val = 0 then None
          else if 255 < val * 10 + d then None
          else v4_loop (val * 10 + d) (Suc digLen) fs s
      | None \<Rightarrow>
          if c \<noteq> CHR ''.'' \<or> digLen = 0 \<or> s = [] \<or> length fs = 3 then None
          else v4_loop 0 0 (fs @ [of_nat val]) s)"

definition parseIPv4Fields :: "string \<Rightarrow> bytes option" where
  "parseIPv4Fields s = v4_loop 0 0 [] s"

definition string4 :: "bytes \<Rightarrow> string" where
  "string4 a = Join (map (\<lambda>b. formatUint 10 (unat b)) a) ''.''"

lemma v4_loop_number:
  "n < 256 \<Longrightarrow> v4_loop 0 0 fs (formatUint 10 n @ s) = v4_loop n (length (formatUint 10 n)) fs s"
proof (induction "10 :: nat" n arbitrary: s rule: formatUint.induct)
  case (1 n)
  show ?case
  proof (cases "n < 10")
    case True
    then show ?thesis by (simp add: formatUint.simps [of 10 n])
  next
    case False
    then have "v4_loop 0 0 fs (formatUint 10 (n div 10) @ t) = v4_loop (n div 10) (length (formatUint 10 (n div 10))) fs t" for t
      using 1 by simp
    moreover have "n div 10 \<noteq> 0" "n mod 10 < 36" "n mod 10 \<le> 9" "n div 10 * 10 + n mod 10 = n" using False by auto
    ultimately show ?thesis using False 1(2) by (auto simp: formatUint.simps [of 10 n])
  qed
qed

lemma formatUint_length_pos [simp]: "length (formatUint base n) \<noteq> 0"
  by simp

lemma digit_val_dot [simp]: "digit_val CHR ''.'' = None" "digit_val CHR '':'' = None"
  by (simp_all add: digit_val_def)

lemma v4_text_back: "length a = 4 \<Longrightarrow> parseIPv4Fields (string4 a) = Some a"
proof -
  assume "length a = 4"
  then obtain p q r s where a: "a = [p, q, r, s]" by (auto simp: numeral_eq_Suc length_Suc_conv)
  have lt: "unat x < 256" for x :: byte using unat_byte by simp
  have last: "v4_loop 0 0 [p, q, r] (formatUint 10 (unat s)) = Some a"
    using v4_loop_number [OF lt, of "[p, q, r]" s "[]"] a by simp
  show ?thesis unfolding a parseIPv4Fields_def string4_def
    using last a by (simp add: v4_loop_number [OF lt])
qed

subsection \<open>Groups of hexadecimal digits\<close>

fun u16s :: "bytes \<Rightarrow> nat list" where
  "u16s (a # b # bs) = (unat a * 256 + unat b) # u16s bs"
| "u16s _ = []"

definition u16_bytes :: "nat list \<Rightarrow> bytes" where
  "u16_bytes ws = concat (map (\<lambda>w. [of_nat (w div 256), of_nat w]) ws)"

lemma u16_bytes_back: "even (length a) \<Longrightarrow> u16_bytes (u16s a) = a"
proof (induction a rule: u16s.induct)
  case (1 p q bs)
  have "(unat p * 256 + unat q) div 256 = unat p" using unat_byte [of q] by simp
  moreover have "(of_nat (unat p * 256 + unat q) :: byte) = q"
    by (simp add: word256_zero)
  ultimately show ?case using 1 by (simp add: u16_bytes_def)
qed (simp_all add: u16_bytes_def)

lemma u16s_length: "length (u16s a) = length a div 2"
  by (induction a rule: u16s.induct) auto

lemma u16s_bound: "w \<in> set (u16s a) \<Longrightarrow> w < 65536"
proof (induction a rule: u16s.induct)
  case (1 p q bs)
  then show ?case using unat_byte [of p] unat_byte [of q] by auto
qed auto

text \<open>The longest run of two or more zero groups, the first of several; 255 is none.\<close>

fun zero_run :: "nat \<Rightarrow> nat list \<Rightarrow> nat \<times> nat \<Rightarrow> nat \<times> nat" where
  "zero_run i [] best = best"
| "zero_run i (w # ws) (zstart, zend) =
     (let l = length (takeWhile (\<lambda>x. x = 0) (w # ws))
      in zero_run (Suc i) ws (if 2 \<le> l \<and> zend - zstart < l then (i, i + l) else (zstart, zend)))"

definition hex_groups :: "nat list \<Rightarrow> string" where
  "hex_groups ws = Join (map (formatUint 16) ws) '':''"

definition string6 :: "nat list \<Rightarrow> string" where
  "string6 ws =
     (case zero_run 0 ws (255, 255) of
        (zstart, zend) \<Rightarrow>
          if zstart = 255 then hex_groups ws else hex_groups (take zstart ws) @ ''::'' @ hex_groups (drop zend ws))"

text \<open>The groups read so far, where an ellipsis stood among them, and the text left over.\<close>

definition v6_group :: "string \<Rightarrow> (nat \<times> string) option" where
  "v6_group s =
     (let ds = takeWhile (\<lambda>c. hex_val c \<noteq> None) s
      in if ds = [] \<or> 4 < length ds then None
         else case parse_digits 16 65535 0 ds of Inl e \<Rightarrow> None | Inr v \<Rightarrow> Some (v, dropWhile (\<lambda>c. hex_val c \<noteq> None) s))"

fun v6_loop :: "nat \<Rightarrow> nat list \<Rightarrow> nat option \<Rightarrow> string \<Rightarrow> (nat list \<times> nat option \<times> string) option" where
  "v6_loop 0 fs ellipsis s = Some (fs, ellipsis, s)"
| "v6_loop (Suc k) fs ellipsis s =
     (case v6_group s of
        None \<Rightarrow> None
      | Some (v, []) \<Rightarrow> Some (fs @ [v], ellipsis, [])
      | Some (v, c # r) \<Rightarrow>
          if c = CHR ''.'' then
            (if ellipsis = None \<and> length fs \<noteq> 6 \<or> 6 < length fs then None
             else case parseIPv4Fields s of None \<Rightarrow> None | Some q \<Rightarrow> Some (fs @ u16s q, ellipsis, []))
          else if c \<noteq> CHR '':'' then None
          else (case r of
                  [] \<Rightarrow> None
                | d # r2 \<Rightarrow>
                    if d \<noteq> CHR '':'' then v6_loop k (fs @ [v]) ellipsis r
                    else if ellipsis \<noteq> None then None
                    else if r2 = [] then Some (fs @ [v], Some (length fs + 1), [])
                    else v6_loop k (fs @ [v]) (Some (length fs + 1)) r2))"

definition expand :: "nat list \<times> nat option \<times> string \<Rightarrow> nat list option" where
  "expand r =
     (case r of (fs, ellipsis, s) \<Rightarrow>
        if s \<noteq> [] then None
        else if length fs < 8 then
          (case ellipsis of None \<Rightarrow> None | Some i \<Rightarrow> Some (take i fs @ replicate (8 - length fs) 0 @ drop i fs))
        else if ellipsis \<noteq> None then None else Some fs)"

definition parseIPv6 :: "string \<Rightarrow> nat list option" where
  "parseIPv6 s =
     (if prefix ''::'' s then
        if s = ''::'' then Some (replicate 8 0)
        else Option.bind (v6_loop 8 [] (Some 0) (drop 2 s)) expand
      else Option.bind (v6_loop 8 [] None s) expand)"

text \<open>A zone after a percent sign is refused, whatever it is.\<close>

definition net_ParseIP :: "string \<Rightarrow> bytes" where
  "net_ParseIP s =
     (case dropWhile (\<lambda>c. c \<noteq> CHR ''.'' \<and> c \<noteq> CHR '':'' \<and> c \<noteq> CHR ''%'') s of
        [] \<Rightarrow> []
      | c # r \<Rightarrow>
          if c = CHR ''.'' then (case parseIPv4Fields s of None \<Rightarrow> [] | Some a \<Rightarrow> v4InV6Prefix @ a)
          else if CHR ''%'' \<in> set s then []
          else (case parseIPv6 s of None \<Rightarrow> [] | Some ws \<Rightarrow> u16_bytes ws))"

definition net_IP_String :: "bytes \<Rightarrow> string" where
  "net_IP_String a =
     (if a = [] then ''<nil>''
      else if length a \<noteq> 4 \<and> length a \<noteq> 16 then ''?'' @ hex_encode a
      else case To4 a of Some p4 \<Rightarrow> string4 p4 | None \<Rightarrow> string6 (u16s a))"

subsection \<open>Hosts with ports\<close>

definition last_index :: "string \<Rightarrow> char \<Rightarrow> nat option" where
  "last_index s c = map_option (\<lambda>i. length s - 1 - i) (index_byte (rev s) c)"

definition SplitHostPort :: "string \<Rightarrow> (string \<times> string) res" where
  "SplitHostPort hostport =
     (let missingPort = Inl (ErrMsg ''missing port in address'');
          tooManyColons = Inl (ErrMsg ''too many colons in address'');
          finish = (\<lambda>host i j k.
            if CHR ''['' \<in> set (drop j hostport) then Inl (ErrMsg ''unexpected '[' in address'')
            else if CHR '']'' \<in> set (drop k hostport) then Inl (ErrMsg ''unexpected ']' in address'')
            else Inr (host, drop (i + 1) hostport))
      in case last_index hostport CHR '':'' of
           None \<Rightarrow> missingPort
         | Some i \<Rightarrow>
             if hd hostport = CHR ''['' then
               (case index_byte hostport CHR '']'' of
                  None \<Rightarrow> Inl (ErrMsg ''missing ']' in address'')
                | Some e \<Rightarrow>
                    if e + 1 = length hostport then missingPort
                    else if e + 1 = i then finish (take (e - 1) (drop 1 hostport)) i 1 (e + 1)
                    else if hostport ! (e + 1) = CHR '':'' then tooManyColons else missingPort)
             else if CHR '':'' \<in> set (take i hostport) then tooManyColons
             else finish (take i hostport) i 0 0)"

definition JoinHostPort :: "string \<Rightarrow> string \<Rightarrow> string" where
  "JoinHostPort host port =
     (if CHR '':'' \<in> set host then ''['' @ host @ '']:'' @ port else host @ '':'' @ port)"

lemma index_byte_rev: "c \<notin> set t \<Longrightarrow> last_index (s @ c # t) c = Some (length s)"
  by (simp add: last_index_def)

lemma split_join:
  assumes "CHR ''['' \<notin> set host" "CHR '']'' \<notin> set host" and "set port \<inter> {CHR '':'', CHR ''['', CHR '']''} = {}" and "host \<noteq> []"
  shows "SplitHostPort (JoinHostPort host port) = Inr (host, port)"
proof (cases "CHR '':'' \<in> set host")
  case True
  have "last_index (''['' @ host @ '']:'' @ port) CHR '':'' = Some (length host + 2)"
    using index_byte_rev [of "CHR '':''" port "''['' @ host @ '']''"] assms(3) by simp
  moreover have "index_byte (''['' @ host @ '']:'' @ port) CHR '']'' = Some (length host + 1)"
    using index_byte_append [of "CHR '']''" "''['' @ host" "'':'' @ port"] assms(2) by simp
  ultimately show ?thesis using True assms by (simp add: SplitHostPort_def JoinHostPort_def)
next
  case False
  have "last_index (host @ '':'' @ port) CHR '':'' = Some (length host)"
    using index_byte_rev [of "CHR '':''" port host] assms(3) by simp
  moreover have "hd (host @ '':'' @ port) \<noteq> CHR ''[''" using assms(1,4) by (cases host) auto
  ultimately show ?thesis using False assms by (simp add: SplitHostPort_def JoinHostPort_def)
qed

subsection \<open>Addresses come back\<close>

lemma format_hex_length: "n < 16 ^ Suc k \<Longrightarrow> length (formatUint 16 n) \<le> Suc k"
proof (induction k arbitrary: n)
  case (Suc k)
  show ?case
  proof (cases "n < 16")
    case False
    then have "n div 16 < 16 ^ Suc k" using Suc.prems by (simp add: div_less_iff_less_mult mult.commute)
    then show ?thesis using Suc.IH False by (simp add: formatUint.simps [of 16 n])
  qed (simp add: formatUint.simps)
qed (simp add: formatUint.simps)

lemma format_hex_chars: "c \<in> set (formatUint 16 n) \<Longrightarrow> \<exists>d < 16. c = digit_char d"
proof (induction "16 :: nat" n rule: formatUint.induct)
  case (1 n)
  have "\<exists>d < 16. digit_char (n mod 16) = digit_char d" by (rule exI [of _ "n mod 16"]) simp
  with 1 show ?case by (cases "n < 16") (auto simp: formatUint.simps [of 16 n])
qed

lemma hex_val_colon [simp]: "hex_val CHR '':'' = None" "hex_val CHR ''.'' = None"
  by (simp_all add: hex_val_def)

lemma v6_group_format:
  assumes "w < 65536" and "s = [] \<or> hex_val (hd s) = None"
  shows "v6_group (formatUint 16 w @ s) = Some (w, s)"
proof -
  have hex: "\<forall>c \<in> set (formatUint 16 w). hex_val c \<noteq> None" using format_hex_chars by force
  have "takeWhile (\<lambda>c. hex_val c \<noteq> None) (formatUint 16 w @ s) = formatUint 16 w"
    "dropWhile (\<lambda>c. hex_val c \<noteq> None) (formatUint 16 w @ s) = s"
    using hex assms(2) by (cases s; simp add: takeWhile_append dropWhile_append)+
  moreover have "parse_digits 16 65535 0 (formatUint 16 w) = Inr w" using assms(1) by (intro parse_digits_format) auto
  moreover have "length (formatUint 16 w) \<le> 4" using format_hex_length [of w 3] assms(1) by simp
  ultimately show ?thesis by (simp add: v6_group_def not_less)
qed

lemma hex_groups_simps [simp]:
  "hex_groups [] = []" "hex_groups [w] = formatUint 16 w"
  "hex_groups (w # v # ws) = formatUint 16 w @ '':'' @ hex_groups (v # ws)"
  by (simp_all add: hex_groups_def)

lemma hex_groups_head: "\<exists>c r d. hex_groups (w # ws) = c # r \<and> d < 16 \<and> c = digit_char d"
proof -
  obtain c r where c: "formatUint 16 w = c # r" by (cases "formatUint 16 w") auto
  moreover have "\<exists>d < 16. c = digit_char d" using format_hex_chars [of c w] c by simp
  ultimately show ?thesis by (cases ws) auto
qed

lemma digit_char_plain: "d < 36 \<Longrightarrow> digit_char d \<notin> {CHR '':'', CHR ''.'', CHR ''%'', CHR ''['', CHR '']''}"
  using of_char_digit_char [of d] by (auto split: if_splits)

lemma v6_loop_groups:
  "ws \<noteq> [] \<Longrightarrow> length ws \<le> k \<Longrightarrow> \<forall>w \<in> set ws. w < 65536 \<Longrightarrow>
     v6_loop k fs ellipsis (hex_groups ws) = Some (fs @ ws, ellipsis, [])"
proof (induction ws arbitrary: k fs rule: induct_list012)
  case (2 w)
  then obtain m where "k = Suc m" by (cases k) auto
  then show ?case using v6_group_format [of w "[]"] 2 by simp
next
  case (3 w v ws)
  then obtain m where k: "k = Suc m" "length (v # ws) \<le> m" by (cases k) auto
  obtain c r d where c: "hex_groups (v # ws) = c # r" "d < 16" "c = digit_char d" using hex_groups_head by blast
  then have "c \<noteq> CHR '':''" using digit_char_plain [of d] by auto
  moreover have "v6_loop m (fs @ [w]) ellipsis (hex_groups (v # ws)) = Some ((fs @ [w]) @ v # ws, ellipsis, [])"
    using 3 k(2) by (intro 3(2)) auto
  ultimately show ?case using v6_group_format [of w "CHR '':'' # c # r"] 3(5) c(1) k(1) by simp
qed simp

lemma v6_loop_ellipsis:
  "ws \<noteq> [] \<Longrightarrow> length ws \<le> k \<Longrightarrow> \<forall>w \<in> set ws. w < 65536 \<Longrightarrow>
     v6_loop k fs None (hex_groups ws @ ''::'' @ s) =
       (if s = [] then Some (fs @ ws, Some (length (fs @ ws)), [])
        else v6_loop (k - length ws) (fs @ ws) (Some (length (fs @ ws))) s)"
proof (induction ws arbitrary: k fs rule: induct_list012)
  case (2 w)
  then obtain m where "k = Suc m" by (cases k) auto
  then show ?case using v6_group_format [of w "''::'' @ s"] 2 by simp
next
  case (3 w v ws)
  then obtain m where k: "k = Suc m" "length (v # ws) \<le> m" by (cases k) auto
  obtain c r d where c: "hex_groups (v # ws) = c # r" "d < 16" "c = digit_char d" using hex_groups_head by blast
  then have "c \<noteq> CHR '':''" using digit_char_plain [of d] by auto
  moreover have "v6_loop m (fs @ [w]) None (hex_groups (v # ws) @ ''::'' @ s) =
       (if s = [] then Some ((fs @ [w]) @ v # ws, Some (length ((fs @ [w]) @ v # ws)), [])
        else v6_loop (m - length (v # ws)) ((fs @ [w]) @ v # ws) (Some (length ((fs @ [w]) @ v # ws))) s)"
    using 3 k(2) by (intro 3(2)) auto
  ultimately show ?case using v6_group_format [of w "CHR '':'' # c # r @ ''::'' @ s"] 3(5) c(1) k(1) by simp
qed simp

definition run_ok :: "nat list \<Rightarrow> nat \<times> nat \<Rightarrow> bool" where
  "run_ok ws b \<longleftrightarrow> fst b = 255 \<or> fst b < snd b \<and> snd b \<le> length ws \<and> (\<forall>j. fst b \<le> j \<longrightarrow> j < snd b \<longrightarrow> ws ! j = 0)"

lemma zero_run_ok: "run_ok (pre @ ws) b \<Longrightarrow> length pre = i \<Longrightarrow> run_ok (pre @ ws) (zero_run i ws b)"
proof (induction ws arbitrary: pre i b)
  case (Cons w ws)
  obtain zs ze where b: "b = (zs, ze)" by force
  let ?l = "length (takeWhile (\<lambda>x. x = 0) (w # ws))"
  have "?l \<le> length (w # ws)" by (rule length_takeWhile_le)
  moreover have "(w # ws) ! j = 0" if "j < ?l" for j
    using nth_mem [OF that] takeWhile_nth [OF that] by (metis (mono_tags, lifting) set_takeWhileD)
  ultimately have new: "run_ok (pre @ w # ws) (i, i + ?l)" if "2 \<le> ?l"
    using that Cons.prems(2) by (auto simp: run_ok_def nth_append)
  have "run_ok ((pre @ [w]) @ ws) (if 2 \<le> ?l \<and> ze - zs < ?l then (i, i + ?l) else (zs, ze))"
    using new Cons.prems(1) b by simp
  from Cons.IH [OF this, of "Suc i"] show ?case unfolding b zero_run.simps Let_def
    using Cons.prems(2) by (simp del: takeWhile.simps)
qed simp

lemma run_split:
  assumes "run_ok ws (s, e)" and "s \<noteq> 255"
  shows "take s ws @ replicate (e - s) 0 @ drop e ws = ws"
proof -
  have "s < e" "e \<le> length ws" and z: "\<And>j. s \<le> j \<Longrightarrow> j < e \<Longrightarrow> ws ! j = 0" using assms by (auto simp: run_ok_def)
  then have "replicate (e - s) 0 = take (e - s) (drop s ws)" by (intro nth_equalityI) auto
  then show ?thesis using \<open>s < e\<close> by (metis append.assoc append_take_drop_id less_imp_le_nat take_add le_add_diff_inverse)
qed

lemma v6_text_back:
  assumes len: "length ws = 8" and w: "\<forall>w \<in> set ws. w < 65536"
  shows "parseIPv6 (string6 ws) = Some ws"
proof -
  obtain s e where r: "zero_run 0 ws (255, 255) = (s, e)" by force
  have ok: "run_ok ws (s, e)" using zero_run_ok [of "[]" ws "(255, 255)" 0] r by (simp add: run_ok_def)
  have plain: "\<not> prefix ''::'' (hex_groups (v # vs) @ t)" for v vs t
    using hex_groups_head [of v vs] digit_char_plain by (auto simp: prefix_def)
  show ?thesis
  proof (cases "s = 255")
    case True
    obtain v vs where ws: "ws = v # vs" using len by (cases ws) auto
    then have "v6_loop 8 [] None (hex_groups ws) = Some (ws, None, [])" using len w v6_loop_groups [of ws 8 "[]" None] by simp
    then show ?thesis using True r plain [of v vs "[]"] ws len by (simp add: string6_def parseIPv6_def expand_def)
  next
    case False
    let ?a = "take s ws" let ?b = "drop e ws"
    have bounds: "s < e" "e \<le> 8" using ok False len by (auto simp: run_ok_def)
    have ws: "?a @ replicate (e - s) 0 @ ?b = ws" by (rule run_split [OF ok False])
    have bs: "\<forall>w \<in> set ?a. w < 65536" "\<forall>w \<in> set ?b. w < 65536" using w by (auto dest: in_set_takeD in_set_dropD)
    have shown: "string6 ws = hex_groups ?a @ ''::'' @ hex_groups ?b" using r False by (simp add: string6_def)
    have exp: "expand (?a @ ?b, Some s, []) = Some ws" using bounds len ws by (simp add: expand_def)
    have tail: "v6_loop k ?a (Some s) (hex_groups ?b) = Some (?a @ ?b, Some s, [])" if "?b \<noteq> []" "length ?b \<le> k" for k
      using v6_loop_groups [OF that bs(2)] by simp
    have empty: "hex_groups vs = [] \<longleftrightarrow> vs = []" for vs
      using hex_groups_head [of "hd vs" "tl vs"] by (cases vs) auto
    show ?thesis
    proof (cases "s = 0")
      case True
      show ?thesis
      proof (cases "?b = []")
        case b: True
        then have "ws = replicate 8 0" using ws True bounds len by simp
        then show ?thesis using shown True b by (simp add: parseIPv6_def)
      next
        case b: False
        then show ?thesis using shown True exp tail [of 8] len empty by (auto simp: parseIPv6_def)
      qed
    next
      case s0: False
      then obtain v vs where a: "?a = v # vs" using len by (cases ?a) auto
      have la: "length ?a = s" using bounds len by simp
      have le: "?a \<noteq> []" "length ?a \<le> 8" using s0 la bounds by auto
      note loop = v6_loop_ellipsis [OF le bs(1), of "[]", unfolded la append_Nil]
      have "v6_loop 8 [] None (string6 ws) = Some (?a @ ?b, Some s, [])"
      proof (cases "?b = []")
        case True
        then show ?thesis using loop [of "[]"] shown by simp
      next
        case b: False
        have "v6_loop (8 - s) ?a (Some s) (hex_groups ?b) = Some (?a @ ?b, Some s, [])"
          by (rule tail [OF b]) (use bounds len in simp)
        then show ?thesis using loop [of "hex_groups ?b"] shown empty b by simp
      qed
      then show ?thesis using exp shown a plain [of v vs "''::'' @ hex_groups ?b"] by (simp add: parseIPv6_def)
    qed
  qed
qed

lemma Join_chars: "c \<in> set (Join xs sep) \<Longrightarrow> c \<in> set sep \<or> (\<exists>x \<in> set xs. c \<in> set x)"
  by (induction xs sep rule: Join.induct) auto

lemma string4_chars: "c \<in> set (string4 a) \<Longrightarrow> c = CHR ''.'' \<or> (\<exists>d < 10. c = digit_char d)"
  unfolding string4_def by (drule Join_chars) (auto dest: formatUint_chars)

lemma hex_groups_chars: "c \<in> set (hex_groups ws) \<Longrightarrow> c = CHR '':'' \<or> (\<exists>d < 16. c = digit_char d)"
  unfolding hex_groups_def by (drule Join_chars) (auto dest: format_hex_chars)

lemma string6_chars: "c \<in> set (string6 ws) \<Longrightarrow> c = CHR '':'' \<or> (\<exists>d < 16. c = digit_char d)"
  by (auto simp: string6_def dest!: hex_groups_chars split: prod.splits if_splits)

lemma dropWhile_first:
  assumes "c \<in> set s" and "\<And>x. x \<in> set s \<Longrightarrow> P x \<longleftrightarrow> x \<noteq> c"
  shows "\<exists>r. dropWhile P s = c # r"
  using assms by (induction s) auto

lemma text_family:
  "x \<in> set (string4 q) \<Longrightarrow> x \<noteq> CHR '':'' \<and> x \<noteq> CHR ''%''"
  "x \<in> set (string6 ws) \<Longrightarrow> x \<noteq> CHR ''.'' \<and> x \<noteq> CHR ''%''"
proof -
  have d: "digit_char d \<noteq> CHR '':'' \<and> digit_char d \<noteq> CHR ''.'' \<and> digit_char d \<noteq> CHR ''%''" if "d < 16" for d
    using digit_char_plain [of d] that by simp
  show "x \<noteq> CHR '':'' \<and> x \<noteq> CHR ''%''" if x: "x \<in> set (string4 q)"
    using string4_chars [OF x] by (elim disjE exE conjE) (use d in auto)
  show "x \<noteq> CHR ''.'' \<and> x \<noteq> CHR ''%''" if x: "x \<in> set (string6 ws)"
    using string6_chars [OF x] by (elim disjE exE conjE) (use d in auto)
qed

text \<open>The text of an address is read as its long form; nil is read from anything that is no address.\<close>

lemma ParseIP_String:
  assumes "length a = 4 \<or> length a = 16"
  shows "To16 a = Some (net_ParseIP (net_IP_String a))"
proof (cases "To4 a")
  case (Some q)
  have "v4InV6Prefix @ drop 12 a = a" if "take 12 a = v4InV6Prefix" using append_take_drop_id [of 12 a] that by simp
  with Some have q: "length q = 4" "To16 a = Some (v4InV6Prefix @ q)"
    by (auto simp: To4_def To16_def v4InV6Prefix_def split: if_splits)
  have dot: "CHR ''.'' \<in> set (string4 q)" using q(1) by (auto simp: string4_def numeral_eq_Suc length_Suc_conv)
  have "(x \<noteq> CHR ''.'' \<and> x \<noteq> CHR '':'' \<and> x \<noteq> CHR ''%'') \<longleftrightarrow> x \<noteq> CHR ''.''" if "x \<in> set (string4 q)" for x
    using text_family(1) [OF that] by simp
  from dropWhile_first [OF dot this] obtain r where "dropWhile (\<lambda>c. c \<noteq> CHR ''.'' \<and> c \<noteq> CHR '':'' \<and> c \<noteq> CHR ''%'') (string4 q) = CHR ''.'' # r" by blast
  then have "net_ParseIP (string4 q) = v4InV6Prefix @ q" by (simp add: net_ParseIP_def v4_text_back q(1))
  moreover have "net_IP_String a = string4 q" using assms Some by (auto simp: net_IP_String_def)
  ultimately show ?thesis using q(2) by simp
next
  case None
  then have len: "length a = 16" using assms by (auto simp: To4_def)
  then have ws: "length (u16s a) = 8" "\<forall>w \<in> set (u16s a). w < 65536" by (auto simp: u16s_length u16s_bound)
  have colon: "CHR '':'' \<in> set (string6 (u16s a))"
  proof -
    obtain v w vs where "u16s a = v # w # vs" using ws(1) by (cases "u16s a"; cases "tl (u16s a)") auto
    then have "CHR '':'' \<in> set (hex_groups (u16s a))" by simp
    then show ?thesis by (cases "zero_run 0 (u16s a) (255, 255)") (simp add: string6_def)
  qed
  have "(x \<noteq> CHR ''.'' \<and> x \<noteq> CHR '':'' \<and> x \<noteq> CHR ''%'') \<longleftrightarrow> x \<noteq> CHR '':''" if "x \<in> set (string6 (u16s a))" for x
    using text_family(2) [OF that] by simp
  from dropWhile_first [OF colon this] obtain r where
    "dropWhile (\<lambda>c. c \<noteq> CHR ''.'' \<and> c \<noteq> CHR '':'' \<and> c \<noteq> CHR ''%'') (string6 (u16s a)) = CHR '':'' # r" by blast
  moreover have "CHR ''%'' \<notin> set (string6 (u16s a))" using text_family(2) by blast
  ultimately have "net_ParseIP (string6 (u16s a)) = a"
    using len by (simp add: net_ParseIP_def v6_text_back [OF ws] u16_bytes_back)
  moreover have "net_IP_String a = string6 (u16s a)" using len None by (auto simp: net_IP_String_def)
  ultimately show ?thesis using len by (simp add: To16_def)
qed

lemma IP_String_chars:
  assumes "length a \<in> {0, 4, 16}" and "c \<in> {CHR ''['', CHR '']''}"
  shows "c \<notin> set (net_IP_String a)"
proof -
  have d: "c \<noteq> digit_char d" if "d < 16" for d using digit_char_plain [of d] that assms(2) by auto
  have "c \<notin> set (string4 q)" for q
  proof
    assume "c \<in> set (string4 q)"
    from string4_chars [OF this] obtain e where "e < 10" "c = digit_char e" using assms(2) by auto
    then show False using d [of e] by simp
  qed
  moreover have "c \<notin> set (string6 ws)" for ws using string6_chars [of c ws] d assms(2) by force
  ultimately show ?thesis using assms by (auto simp: net_IP_String_def split: option.splits)
qed

lemma string4_not_Nil: "length a = 4 \<Longrightarrow> string4 a \<noteq> []"
  by (cases a; cases "tl a") (auto simp: string4_def)

lemma IP_String_not_Nil: "length a \<in> {0, 4, 16} \<Longrightarrow> net_IP_String a \<noteq> []"
proof -
  have "string6 ws \<noteq> []" if "length ws = 8" for ws
    using that hex_groups_head [of "hd ws" "tl ws"] by (cases ws) (auto simp: string6_def split: prod.splits)
  then show "length a \<in> {0, 4, 16} \<Longrightarrow> ?thesis"
    by (auto simp: net_IP_String_def To4_def string4_not_Nil u16s_length)
qed

end
