(* ===== verification/Endpoints.thy ===== *)
theory Endpoints
  imports Net_Addr Json Identity Base32
begin

text \<open>
  Network endpoints and the values in them: \<^verbatim>\<open>src/api/ip/ip.go\<close>, the \<^verbatim>\<open>endpoint.go\<close> files of \<^verbatim>\<open>src/api/tcp\<close>, \<^verbatim>\<open>kcp\<close>,
  \<^verbatim>\<open>nat\<close>, \<^verbatim>\<open>tor\<close> and \<^verbatim>\<open>gateway\<close>, \<^verbatim>\<open>src/api/tor/digest.go\<close> and \<^verbatim>\<open>src/api/messaging/message_id.go\<close>.  An address is the
  byte slice under \<^verbatim>\<open>net.IP\<close>; \<open>upper\<close> is Unicode upper case, which on ASCII is that of ASCII (\<open>upper_ok\<close>).
\<close>

subsection \<open>IP addresses\<close>

definition ParseIP :: "string \<Rightarrow> bytes res" where
  "ParseIP s = Inr (net_ParseIP s)"

definition IP_IsIPv4 :: "bytes \<Rightarrow> bool" where
  "IP_IsIPv4 a \<longleftrightarrow> To4 a \<noteq> None"

definition IP_IsIPv6 :: "bytes \<Rightarrow> bool" where
  "IP_IsIPv6 a \<longleftrightarrow> To16 a \<noteq> None"

definition IP_String :: "bytes \<Rightarrow> string" where
  "IP_String a = net_IP_String a"

definition IP_WriteTo :: "bytes \<Rightarrow> writer" where
  "IP_WriteTo a = (case To4 a of Some p4 \<Rightarrow> Bytes8_WriteTo p4 | None \<Rightarrow> Bytes8_WriteTo a)"

definition IP_ReadFrom :: "bytes reader" where
  "IP_ReadFrom = Bytes8_ReadFrom"

definition IP_UnmarshalText :: "string \<Rightarrow> bytes res" where
  "IP_UnmarshalText s = (let parsed = net_ParseIP s in if parsed = [] then Inl (ErrMsg ''invalid IP'') else Inr parsed)"

definition IP_MarshalText :: "bytes \<Rightarrow> string" where
  "IP_MarshalText a = IP_String a"

definition IP_MarshalJSON :: "bytes \<Rightarrow> json" where
  "IP_MarshalJSON a = JStr (coerce_utf8 (IP_String a))"

definition IP_UnmarshalJSON :: "json \<Rightarrow> bytes res" where
  "IP_UnmarshalJSON j =
     (case json_string [] j of
        Inl e \<Rightarrow> Inl e
      | Inr str \<Rightarrow> (let parsed = net_ParseIP str in if parsed = [] then Inl (ErrMsg ''invalid IP'') else Inr parsed))"

text \<open>The ranges of \<^verbatim>\<open>net.IP\<close>.\<close>

definition ip_Equal :: "bytes \<Rightarrow> bytes \<Rightarrow> bool" where
  "ip_Equal a b \<longleftrightarrow> (if length a = length b then a = b else To16 a \<noteq> None \<and> To16 a = To16 b)"

definition ip_range :: "(bytes \<Rightarrow> bool) \<Rightarrow> (bytes \<Rightarrow> bool) \<Rightarrow> bytes \<Rightarrow> bool" where
  "ip_range v4 v6 a = (case To4 a of Some p4 \<Rightarrow> v4 p4 | None \<Rightarrow> length a = 16 \<and> v6 a)"

definition IP_IsLoopback :: "bytes \<Rightarrow> bool" where
  "IP_IsLoopback = ip_range (\<lambda>q. q ! 0 = 127) (\<lambda>a. a = replicate 15 0 @ [1])"

definition IsMulticast :: "bytes \<Rightarrow> bool" where
  "IsMulticast = ip_range (\<lambda>q. q ! 0 AND 0xF0 = 0xE0) (\<lambda>a. a ! 0 = 0xFF)"

definition IsLinkLocalUnicast :: "bytes \<Rightarrow> bool" where
  "IsLinkLocalUnicast = ip_range (\<lambda>q. q ! 0 = 169 \<and> q ! 1 = 254) (\<lambda>a. a ! 0 = 0xFE \<and> a ! 1 AND 0xC0 = 0x80)"

definition IsUnspecified :: "bytes \<Rightarrow> bool" where
  "IsUnspecified a \<longleftrightarrow> ip_Equal a (v4InV6Prefix @ [0, 0, 0, 0]) \<or> ip_Equal a (replicate 16 0)"

definition IP_IsGlobalUnicast :: "bytes \<Rightarrow> bool" where
  "IP_IsGlobalUnicast a \<longleftrightarrow>
     (length a = 4 \<or> length a = 16) \<and> \<not> ip_Equal a (v4InV6Prefix @ [255, 255, 255, 255]) \<and>
     \<not> IsUnspecified a \<and> \<not> IP_IsLoopback a \<and> \<not> IsMulticast a \<and> \<not> IsLinkLocalUnicast a"

definition IP_IsPrivate :: "bytes \<Rightarrow> bool" where
  "IP_IsPrivate =
     ip_range (\<lambda>q. q ! 0 = 10 \<or> q ! 0 = 172 \<and> q ! 1 AND 0xF0 = 16 \<or> q ! 0 = 192 \<and> q ! 1 = 168)
       (\<lambda>a. a ! 0 AND 0xFE = 0xFC)"

definition IP_IsPublic :: "bytes \<Rightarrow> bool" where
  "IP_IsPublic a \<longleftrightarrow> IP_IsGlobalUnicast a \<and> \<not> IP_IsPrivate a"

subsection \<open>Addresses with ports\<close>

record endpoint =
  ep_IP :: bytes
  ep_Port :: "16 word"

definition ep_Address :: "endpoint \<Rightarrow> string" where
  "ep_Address e = JoinHostPort (IP_String (ep_IP e)) (formatUint 10 (unat (ep_Port e)))"

text \<open>
  The parser that the three packages repeat.  The port is shifted as a signed number, so only one above the
  range is refused, and then cut to its width.
\<close>

definition parse_endpoint :: "string \<Rightarrow> endpoint res" where
  "parse_endpoint s =
     (case SplitHostPort s of
        Inl e \<Rightarrow> Inl e
      | Inr (h, p) \<Rightarrow>
          (case ParseIP h of
             Inl e \<Rightarrow> Inl e
           | Inr a \<Rightarrow>
               (case parseInt p 10 64 of
                  Inl e \<Rightarrow> Inl e
                | Inr port \<Rightarrow>
                    if 0 < drop_bit 16 port then Inl (ErrMsg ''port out of range'')
                    else Inr \<lparr>ep_IP = a, ep_Port = of_int port\<rparr>)))"

definition ep_IsZero :: "endpoint option \<Rightarrow> bool" where
  "ep_IsZero e = (case e of None \<Rightarrow> True | Some e1 \<Rightarrow> ep_IP e1 = [])"

definition tcp_Address :: "endpoint \<Rightarrow> string" where "tcp_Address e = ep_Address e"
definition tcp_MarshalText :: "endpoint \<Rightarrow> string" where "tcp_MarshalText e = tcp_Address e"
definition tcp_UnmarshalText :: "string \<Rightarrow> endpoint res" where "tcp_UnmarshalText s = parse_endpoint s"
definition tcp_ParseEndpoint :: "string \<Rightarrow> endpoint res" where "tcp_ParseEndpoint s = parse_endpoint s"
definition tcp_MarshalJSON :: "endpoint \<Rightarrow> json" where "tcp_MarshalJSON e = JStr (coerce_utf8 (tcp_Address e))"
definition tcp_IsZero :: "endpoint option \<Rightarrow> bool" where "tcp_IsZero e = ep_IsZero e"

definition tcp_UnmarshalJSON :: "json \<Rightarrow> endpoint res" where
  "tcp_UnmarshalJSON j = (case json_string [] j of Inl e \<Rightarrow> Inl e | Inr s \<Rightarrow> tcp_ParseEndpoint s)"

definition kcp_Address :: "endpoint \<Rightarrow> string" where "kcp_Address e = ep_Address e"
definition kcp_MarshalText :: "endpoint \<Rightarrow> string" where "kcp_MarshalText e = kcp_Address e"
definition kcp_UnmarshalText :: "string \<Rightarrow> endpoint res" where "kcp_UnmarshalText s = parse_endpoint s"
definition kcp_ParseEndpoint :: "string \<Rightarrow> endpoint res" where "kcp_ParseEndpoint s = parse_endpoint s"
definition kcp_MarshalJSON :: "endpoint \<Rightarrow> json" where "kcp_MarshalJSON e = JStr (coerce_utf8 (kcp_Address e))"
definition kcp_IsZero :: "endpoint option \<Rightarrow> bool" where "kcp_IsZero e = ep_IsZero e"
definition kcp_UDPAddr :: "endpoint \<Rightarrow> bytes \<times> nat" where "kcp_UDPAddr e = (net_ParseIP (IP_String (ep_IP e)), unat (ep_Port e))"

definition kcp_UnmarshalJSON :: "json \<Rightarrow> endpoint res" where
  "kcp_UnmarshalJSON j = (case json_string [] j of Inl e \<Rightarrow> Inl e | Inr s \<Rightarrow> kcp_UnmarshalText s)"

definition nat_Address :: "endpoint \<Rightarrow> string" where "nat_Address e = ep_Address e"
definition nat_MarshalText :: "endpoint \<Rightarrow> string" where "nat_MarshalText e = nat_Address e"
definition nat_UnmarshalText :: "string \<Rightarrow> endpoint res" where "nat_UnmarshalText s = parse_endpoint s"
definition nat_ParseEndpoint :: "string \<Rightarrow> endpoint res" where "nat_ParseEndpoint s = parse_endpoint s"
definition nat_IsZero :: "endpoint option \<Rightarrow> bool" where "nat_IsZero e = ep_IsZero e"
definition nat_UDPAddr :: "endpoint \<Rightarrow> bytes \<times> nat" where "nat_UDPAddr e = (net_ParseIP (IP_String (ep_IP e)), unat (ep_Port e))"

subsection \<open>Onion services\<close>

definition DigestSize :: nat where "DigestSize = 35"

definition zeroDigestText :: string where "zeroDigestText = ''unknown''"

definition ErrInvalidDigestLength :: error where "ErrInvalidDigestLength = ErrMsg ''invalid digest length''"

definition stdAlphabet :: string where "stdAlphabet = ''ABCDEFGHIJKLMNOPQRSTUVWXYZ234567''"

definition Digest_WriteTo :: "bytes \<Rightarrow> writer" where
  "Digest_WriteTo d =
     (if d = [] then Write (replicate DigestSize 0)
      else if length d = DigestSize then Write d else wfail ErrInvalidDigestLength)"

definition Digest_ReadFrom :: "bytes reader" where
  "Digest_ReadFrom = rbind (ReadFull DigestSize) (\<lambda>v. rret (if v = replicate DigestSize 0 then [] else v))"

definition Digest_String :: "bytes \<Rightarrow> string" where
  "Digest_String d = (if d = [] then zeroDigestText else ToLower (b32_encode stdAlphabet d) @ ''.onion'')"

definition cut_suffix :: "string \<Rightarrow> string \<Rightarrow> string" where
  "cut_suffix s suf = (if suffix suf s then take (length s - length suf) s else s)"

definition Digest_UnmarshalText :: "(string \<Rightarrow> string) \<Rightarrow> string \<Rightarrow> bytes res" where
  "Digest_UnmarshalText upper s =
     (if s = zeroDigestText then Inr []
      else case b32_decode stdAlphabet (cut_suffix (upper s) ''.ONION'') of
        Inl e \<Rightarrow> Inl e
      | Inr b \<Rightarrow> if length b \<noteq> DigestSize then Inl ErrInvalidDigestLength else Inr b)"

definition Digest_MarshalText :: "bytes \<Rightarrow> string" where
  "Digest_MarshalText d = Digest_String d"

definition Digest_MarshalJSON :: "bytes \<Rightarrow> json" where
  "Digest_MarshalJSON d = JStr (coerce_utf8 (Digest_MarshalText d))"

definition Digest_UnmarshalJSON :: "(string \<Rightarrow> string) \<Rightarrow> json \<Rightarrow> bytes res" where
  "Digest_UnmarshalJSON upper j = (case json_string [] j of Inl e \<Rightarrow> Inl e | Inr s \<Rightarrow> Digest_UnmarshalText upper s)"

definition DigestFromString :: "(string \<Rightarrow> string) \<Rightarrow> string \<Rightarrow> bytes res" where
  "DigestFromString upper s = Digest_UnmarshalText upper s"

record tor_endpoint =
  te_Digest :: bytes
  te_Port :: "16 word"

definition tor_IsZero :: "tor_endpoint \<Rightarrow> bool" where
  "tor_IsZero e \<longleftrightarrow> te_Digest e = []"

definition tor_Address :: "tor_endpoint \<Rightarrow> string" where
  "tor_Address e =
     (if tor_IsZero e then ''unknown'' else Digest_String (te_Digest e) @ '':'' @ formatUint 10 (unat (te_Port e)))"

text \<open>The digest is stored before the port is looked at; the port is cut to its width unchecked.\<close>

definition tor_UnmarshalText :: "(string \<Rightarrow> string) \<Rightarrow> string \<Rightarrow> tor_endpoint \<Rightarrow> error option \<times> tor_endpoint" where
  "tor_UnmarshalText upper s e =
     (if s = ''unknown'' then (None, \<lparr>te_Digest = [], te_Port = 0\<rparr>)
      else case cut CHR '':'' s of
        (h, p, False) \<Rightarrow> (Some (ErrMsg ''invalid format''), e)
      | (h, p, True) \<Rightarrow>
          (case Digest_UnmarshalText upper h of
             Inl err \<Rightarrow> (Some err, e)
           | Inr d \<Rightarrow>
               (case parseInt p 10 64 of
                  Inl err \<Rightarrow> (Some err, e\<lparr>te_Digest := d\<rparr>)
                | Inr port \<Rightarrow> (None, e\<lparr>te_Digest := d, te_Port := of_int port\<rparr>))))"

definition tor_MarshalText :: "tor_endpoint \<Rightarrow> string" where
  "tor_MarshalText e = tor_Address e"

definition tor_MarshalJSON :: "tor_endpoint \<Rightarrow> json" where
  "tor_MarshalJSON e = JStr (coerce_utf8 (tor_Address e))"

definition tor_UnmarshalJSON :: "(string \<Rightarrow> string) \<Rightarrow> json \<Rightarrow> tor_endpoint \<Rightarrow> error option \<times> tor_endpoint" where
  "tor_UnmarshalJSON upper j e = (case json_string [] j of Inl err \<Rightarrow> (Some err, e) | Inr s \<Rightarrow> tor_UnmarshalText upper s e)"

subsection \<open>Gateways\<close>

record gateway_endpoint =
  ge_GatewayID :: identity
  ge_TargetID :: identity

definition gateway_Address :: "gateway_endpoint \<Rightarrow> string" where
  "gateway_Address e = Identity_String (ge_GatewayID e) @ '':'' @ Identity_String (ge_TargetID e)"

definition gateway_UnmarshalText :: "(bytes \<Rightarrow> bool) \<Rightarrow> string \<Rightarrow> gateway_endpoint \<Rightarrow> error option \<times> gateway_endpoint" where
  "gateway_UnmarshalText curve s e =
     (case cut CHR '':'' s of
        (a, b, False) \<Rightarrow> (Some (ErrMsg ''malformed endpoint''), e)
      | (a, b, True) \<Rightarrow>
          (case ParseIdentity curve a of
             Inl err \<Rightarrow> (Some err, e\<lparr>ge_GatewayID := None\<rparr>)
           | Inr gw \<Rightarrow>
               (case ParseIdentity curve b of
                  Inl err \<Rightarrow> (Some err, e\<lparr>ge_GatewayID := gw, ge_TargetID := None\<rparr>)
                | Inr target \<Rightarrow> (None, e\<lparr>ge_GatewayID := gw, ge_TargetID := target\<rparr>))))"

definition gateway_MarshalText :: "gateway_endpoint \<Rightarrow> string" where
  "gateway_MarshalText e = gateway_Address e"

definition gateway_ParseEndpoint :: "(bytes \<Rightarrow> bool) \<Rightarrow> string \<Rightarrow> gateway_endpoint res" where
  "gateway_ParseEndpoint curve s =
     (case cut CHR '':'' s of
        (a, b, False) \<Rightarrow> Inl (ErrMsg ''malformed endpoint'')
      | (a, b, True) \<Rightarrow>
          (case ParseIdentity curve a of
             Inl err \<Rightarrow> Inl err
           | Inr gw \<Rightarrow>
               (case ParseIdentity curve b of
                  Inl err \<Rightarrow> Inl err
                | Inr target \<Rightarrow> Inr \<lparr>ge_GatewayID = gw, ge_TargetID = target\<rparr>)))"

definition gateway_MarshalJSON :: "gateway_endpoint \<Rightarrow> json" where
  "gateway_MarshalJSON e = JStr (coerce_utf8 (gateway_Address e))"

definition gateway_UnmarshalJSON :: "(bytes \<Rightarrow> bool) \<Rightarrow> json \<Rightarrow> gateway_endpoint res" where
  "gateway_UnmarshalJSON curve j = (case json_string [] j of Inl e \<Rightarrow> Inl e | Inr s \<Rightarrow> gateway_ParseEndpoint curve s)"

definition gateway_IsZero :: "gateway_endpoint \<Rightarrow> bool" where
  "gateway_IsZero e \<longleftrightarrow> Identity_IsZero (ge_GatewayID e) \<and> Identity_IsZero (ge_TargetID e)"

subsection \<open>Message identifiers\<close>

definition errInvalidMessageID :: error where "errInvalidMessageID = ErrMsg ''invalid message id''"

definition ParseMessageID :: "string \<Rightarrow> bytes res" where
  "ParseMessageID s =
     (if length s \<noteq> 32 then Inl errInvalidMessageID
      else case hex_decode s of Inl e \<Rightarrow> Inl errInvalidMessageID | Inr i \<Rightarrow> Inr i)"

definition MessageID_IsZero :: "bytes \<Rightarrow> bool" where
  "MessageID_IsZero i \<longleftrightarrow> i = replicate 16 0"

definition MessageID_String :: "bytes \<Rightarrow> string" where
  "MessageID_String i = hex_encode i"

definition MessageID_WriteTo :: "bytes \<Rightarrow> writer" where
  "MessageID_WriteTo i = Write i"

definition MessageID_ReadFrom :: "bytes reader" where
  "MessageID_ReadFrom = ReadFull 16"

definition MessageID_MarshalJSON :: "bytes \<Rightarrow> json" where
  "MessageID_MarshalJSON i = JStr (coerce_utf8 (MessageID_String i))"

definition MessageID_UnmarshalJSON :: "json \<Rightarrow> bytes res" where
  "MessageID_UnmarshalJSON j = (case json_string [] j of Inl e \<Rightarrow> Inl e | Inr s \<Rightarrow> ParseMessageID s)"

definition MessageID_MarshalText :: "bytes \<Rightarrow> string" where
  "MessageID_MarshalText i = MessageID_String i"

definition MessageID_UnmarshalText :: "string \<Rightarrow> bytes res" where
  "MessageID_UnmarshalText s = ParseMessageID s"

text \<open>None is a driver value that is neither a string nor a byte slice.\<close>

definition MessageID_Scan :: "string option \<Rightarrow> bytes res" where
  "MessageID_Scan src = (case src of Some v \<Rightarrow> MessageID_UnmarshalText v | None \<Rightarrow> Inl errInvalidMessageID)"

subsection \<open>Addresses\<close>

lemma To4_To16: "To16 a = Some b \<Longrightarrow> To4 b = To4 a \<and> length b = 16"
  by (auto simp: To16_def To4_def v4InV6Prefix_def split: if_splits)

text \<open>Which range an address is in does not depend on its form.\<close>

lemma IsPublic_form:
  assumes "To16 a = Some b"
  shows "IP_IsPublic b = IP_IsPublic a"
proof (cases "length a = 4")
  case True
  then have b: "b = v4InV6Prefix @ a" and q: "To4 a = Some a" using assms by (auto simp: To16_def To4_def)
  have eq: "ip_Equal b (v4InV6Prefix @ c) = ip_Equal a (v4InV6Prefix @ c)" if "length c = 4" for c
    using that True b by (simp add: ip_Equal_def To16_def v4InV6Prefix_def)
  have "b ! 10 = 255" by (simp add: b v4InV6Prefix_def nth_append)
  then have "b \<noteq> replicate 16 0" by auto
  then have z: "\<not> ip_Equal b (replicate 16 0)" "\<not> ip_Equal a (replicate 16 0)"
    using True To4_To16 [OF assms] assms by (auto simp: ip_Equal_def To16_def)
  have "length b = 16" "To4 b = Some a" using To4_To16 [OF assms] q by simp_all
  then show ?thesis using True q eq z
    by (simp add: IP_IsPublic_def IP_IsGlobalUnicast_def IP_IsPrivate_def IP_IsLoopback_def IsMulticast_def IsLinkLocalUnicast_def
        IsUnspecified_def ip_range_def)
next
  case False
  then show ?thesis using assms by (auto simp: To16_def split: if_splits)
qed

text \<open>The binary form of an address is its short one; the text is read as the long one.\<close>

lemma ip_wire: "length a \<in> {4, 16} \<Longrightarrow> reads_back (IP_WriteTo a) IP_ReadFrom (case To4 a of Some q \<Rightarrow> q | None \<Rightarrow> a)"
  using rb_Bytes(1) by (auto simp: IP_WriteTo_def IP_ReadFrom_def split: option.splits)

lemma ip_text: "length a \<in> {4, 16} \<Longrightarrow> To16 a = Some b \<Longrightarrow> IP_UnmarshalText (IP_MarshalText a) = Inr b"
proof -
  assume "length a \<in> {4, 16}" and b: "To16 a = Some b"
  then have "net_ParseIP (net_IP_String a) = b" using ParseIP_String [of a] by simp
  then show ?thesis using To4_To16 [OF b] by (auto simp: IP_UnmarshalText_def IP_MarshalText_def IP_String_def Let_def)
qed

lemma port_text:
  fixes p :: "16 word"
  shows "parseInt (formatUint 10 (unat p)) 10 64 = Inr (uint p)" "uint p < 65536"
proof -
  have "unat p < 65536" using unsigned_less [of p] by simp
  then have "int (unat p) < 65536" by linarith
  then show "uint p < 65536" by simp
  moreover have "- (2 ^ (64 - 1)) \<le> uint p" by (rule order_trans [of _ 0]) simp_all
  ultimately show "parseInt (formatUint 10 (unat p)) 10 64 = Inr (uint p)"
    using parseInt_format [of 64 "uint p"] by (simp add: formatInt_def not_less)
qed

lemma endpoint_back:
  assumes "length (ep_IP e) \<in> {4, 16}" and "To16 (ep_IP e) = Some a"
  shows "parse_endpoint (ep_Address e) = Inr (e\<lparr>ep_IP := a\<rparr>)"
proof -
  let ?n = "unat (ep_Port e)"
  have "set (formatUint 10 ?n) \<inter> {CHR '':'', CHR ''['', CHR '']''} = {}"
    using formatUint_avoids [of "CHR '':''" ?n] formatUint_avoids [of "CHR ''[''" ?n] formatUint_avoids [of "CHR '']''" ?n] by simp
  then have split: "SplitHostPort (ep_Address e) = Inr (IP_String (ep_IP e), formatUint 10 ?n)"
    using assms(1) IP_String_chars [of "ep_IP e"] IP_String_not_Nil [of "ep_IP e"]
    unfolding ep_Address_def IP_String_def by (intro split_join) auto
  have "drop_bit 16 (uint (ep_Port e)) = 0" using port_text(2) [of "ep_Port e"] by (simp add: drop_bit_eq_div)
  moreover have "net_ParseIP (IP_String (ep_IP e)) = a" using ParseIP_String [of "ep_IP e"] assms by (simp add: IP_String_def)
  ultimately show ?thesis using split by (simp add: parse_endpoint_def ParseIP_def port_text(1))
qed

text \<open>
  What the parsers let through: a port below zero, cut to its width, and a host that is no address, as the
  endpoint without one.
\<close>

lemma negative_port_wraps: "tcp_ParseEndpoint ''1.2.3.4:-1'' = Inr \<lparr>ep_IP = v4InV6Prefix @ [1, 2, 3, 4], ep_Port = 65535\<rparr>"
proof -
  have "SplitHostPort ''1.2.3.4:-1'' = Inr (''1.2.3.4'', ''-1'')" "net_ParseIP ''1.2.3.4'' = v4InV6Prefix @ [1, 2, 3, 4]"
    by code_simp+
  moreover have "parseInt ''-1'' 10 64 = Inr (- 1)" by (simp add: parseInt_def parseUint_def digit_val_def)
  ultimately show ?thesis by (simp add: tcp_ParseEndpoint_def parse_endpoint_def ParseIP_def)
qed

lemma any_host_parses: "tcp_ParseEndpoint ''nowhere:80'' = Inr \<lparr>ep_IP = [], ep_Port = 80\<rparr>"
proof -
  have "SplitHostPort ''nowhere:80'' = Inr (''nowhere'', ''80'')" "net_ParseIP ''nowhere'' = []" by code_simp+
  moreover have "parseInt ''80'' 10 64 = Inr 80" by (simp add: parseInt_def parseUint_def digit_val_def)
  ultimately show ?thesis by (simp add: tcp_ParseEndpoint_def parse_endpoint_def ParseIP_def drop_bit_eq_div)
qed

subsection \<open>Digests\<close>

definition to_upper :: "char \<Rightarrow> char" where
  "to_upper c = (let k = of_char c :: nat in if 97 \<le> k \<and> k \<le> 122 then char_of (k - 32) else c)"

definition upper_ok :: "(string \<Rightarrow> string) \<Rightarrow> bool" where
  "upper_ok upper \<longleftrightarrow>
     (\<forall>s. (\<forall>c \<in> set s. (of_char c :: nat) < 0x80) \<longrightarrow> upper s = map to_upper s)"

lemma stdAlphabet_ok: "alphabet_ok stdAlphabet"
  by (simp add: alphabet_ok_def stdAlphabet_def strip_newlines_def)

lemma upper_lower: "(of_char c :: nat) < 97 \<Longrightarrow> to_upper (to_lower c) = c"
  by (auto simp: to_upper_def to_lower_def Let_def)

lemma stdAlphabet_codes: "c \<in> set stdAlphabet \<Longrightarrow> 50 \<le> (of_char c :: nat) \<and> (of_char c :: nat) \<le> 90 \<and> (of_char c :: nat) \<noteq> 58"
  by (auto simp: stdAlphabet_def)

lemma stdAlphabet_upper:
  "c \<in> set stdAlphabet \<Longrightarrow> (of_char (to_lower c) :: nat) < 0x80 \<and> to_lower c \<noteq> CHR '':'' \<and> to_upper (to_lower c) = c"
proof -
  assume "c \<in> set stdAlphabet"
  note k = stdAlphabet_codes [OF this]
  then have "(of_char (to_lower c) :: nat) < 0x80 \<and> (of_char (to_lower c) :: nat) \<noteq> 58" by (simp add: to_lower_def Let_def)
  then show ?thesis using upper_lower [of c] k by auto
qed

lemma digest_back:
  assumes "upper_ok upper" and "d = [] \<or> length d = DigestSize"
  shows "Digest_UnmarshalText upper (Digest_String d) = Inr d \<and> CHR '':'' \<notin> set (Digest_String d) \<and>
    (d \<noteq> [] \<longrightarrow> Digest_String d \<noteq> zeroDigestText)"
proof (cases "d = []")
  case False
  then have len: "length d = 5 * 7" using assms(2) by (simp add: DigestSize_def)
  let ?e = "b32_encode stdAlphabet d"
  have e: "set ?e \<subseteq> set stdAlphabet" "length ?e = 8 * 7" "b32_decode stdAlphabet ?e = Inr d"
    using set_b32_encode [OF stdAlphabet_ok len] b32_length [OF len] b32_round_trip [OF stdAlphabet_ok len] by auto
  have up: "upper (ToLower ?e @ ''.onion'') = ?e @ ''.ONION''"
  proof -
    have "\<forall>c \<in> set (ToLower ?e @ ''.onion''). (of_char c :: nat) < 0x80"
      using e(1) stdAlphabet_upper by (auto simp: ToLower_def)
    then have "upper (ToLower ?e @ ''.onion'') = map to_upper (ToLower ?e) @ map to_upper ''.onion''"
      using assms(1) unfolding upper_ok_def by (metis map_append)
    moreover have "map to_upper (ToLower ?e) = ?e"
      using e(1) stdAlphabet_upper unfolding ToLower_def map_map by (intro map_idI) auto
    moreover have "map to_upper ''.onion'' = ''.ONION''" by code_simp
    ultimately show ?thesis by simp
  qed
  have "length (Digest_String d) = 62" using False e(2) by (simp add: Digest_String_def ToLower_def)
  then have "Digest_String d \<noteq> zeroDigestText" by (auto simp: zeroDigestText_def)
  moreover have "CHR '':'' \<notin> set (Digest_String d)"
  proof
    assume "CHR '':'' \<in> set (Digest_String d)"
    then obtain x where "x \<in> set ?e" "to_lower x = CHR '':''" using False by (auto simp: Digest_String_def ToLower_def)
    then show False using e(1) stdAlphabet_upper [of x] by auto
  qed
  moreover have "suffix ''.ONION'' (?e @ ''.ONION'')" by (simp add: suffix_def)
  ultimately show ?thesis using False e len up
    by (simp add: Digest_UnmarshalText_def Digest_String_def cut_suffix_def DigestSize_def)
qed (simp add: Digest_String_def Digest_UnmarshalText_def zeroDigestText_def)

lemma digest_wire:
  "d = [] \<or> length d = DigestSize \<and> d \<noteq> replicate DigestSize 0 \<Longrightarrow> reads_back (Digest_WriteTo d) Digest_ReadFrom d"
proof -
  assume d: "d = [] \<or> length d = DigestSize \<and> d \<noteq> replicate DigestSize 0"
  let ?p = "if d = [] then replicate DigestSize 0 else d"
  have "reads_back (wseq (Write ?p) wskip) Digest_ReadFrom d"
    unfolding Digest_ReadFrom_def by (rule rb_seq [OF rb_write]) (use d in \<open>auto simp: rb_skip\<close>)
  then show ?thesis using d by (auto simp: Digest_WriteTo_def)
qed

lemma tor_back:
  assumes "upper_ok upper" and "length (te_Digest e) = DigestSize"
  shows "tor_UnmarshalText upper (tor_Address e) z = (None, e)"
proof -
  let ?n = "unat (te_Port e)" let ?d = "Digest_String (te_Digest e)"
  have ne: "te_Digest e \<noteq> []" using assms(2) by (auto simp: DigestSize_def)
  note d = digest_back [OF assms(1) disjI2 [OF assms(2)]]
  have "cut CHR '':'' (?d @ '':'' @ formatUint 10 ?n) = (?d, formatUint 10 ?n, True)" using d cut_at by simp
  moreover have "?d @ '':'' @ formatUint 10 ?n \<noteq> ''unknown''"
  proof
    assume "?d @ '':'' @ formatUint 10 ?n = ''unknown''"
    then have "CHR '':'' \<in> set ''unknown''" by (metis Un_iff list.set_intros(1) append_Cons set_append)
    then show False by simp
  qed
  ultimately show ?thesis using ne d by (simp add: tor_UnmarshalText_def tor_Address_def tor_IsZero_def port_text(1))
qed

text \<open>A port beyond sixteen bits is cut without an error.\<close>

lemma tor_port_wraps:
  assumes "Digest_UnmarshalText upper h = Inr d" and "CHR '':'' \<notin> set h"
  shows "tor_UnmarshalText upper (h @ '':65616'') e = (None, e\<lparr>te_Digest := d, te_Port := 80\<rparr>)"
proof -
  have "cut CHR '':'' (h @ '':65616'') = (h, ''65616'', True)" using cut_at [OF assms(2), of "''65616''"] by simp
  moreover have "h @ '':65616'' \<noteq> ''unknown''" by (cases h rule: rev_cases) auto
  moreover have "parseInt ''65616'' 10 64 = Inr 65616" by (simp add: parseInt_def parseUint_def digit_val_def)
  ultimately show ?thesis using assms(1) by (simp add: tor_UnmarshalText_def)
qed

lemma hex_plain: "c \<in> set (hex_encode bs) \<Longrightarrow> \<exists>d < 16. c = digit_char d"
proof (induction bs)
  case (Cons b bs)
  have "unat b div 16 < 16" using unat_byte [of b] by simp
  moreover have "unat b mod 16 < 16" by simp
  moreover have "c = digit_char (unat b div 16) \<or> c = digit_char (unat b mod 16) \<or> c \<in> set (hex_encode bs)"
    using Cons.prems by simp
  ultimately show ?case using Cons.IH by blast
qed simp

lemma identity_text_plain: "CHR '':'' \<notin> set (Identity_String i)"
proof
  assume "CHR '':'' \<in> set (Identity_String i)"
  then obtain bs where "CHR '':'' \<in> set (hex_encode bs)" by (auto simp: Identity_String_def anyoneKey_def split: option.splits)
  then obtain d where "d < 16" "CHR '':'' = digit_char d" using hex_plain by blast
  then show False using digit_char_plain [of d] by simp
qed

lemma gateway_back:
  assumes "curve_ok curve" and "identity_ok curve (ge_GatewayID e)" and "identity_ok curve (ge_TargetID e)"
  shows "gateway_ParseEndpoint curve (gateway_Address e) = Inr e \<and> gateway_UnmarshalText curve (gateway_Address e) z = (None, e)"
  using ParseIdentity_String [OF assms(1)] assms(2,3) cut_at [OF identity_text_plain [of "ge_GatewayID e"]]
  by (simp add: gateway_ParseEndpoint_def gateway_UnmarshalText_def gateway_Address_def)

lemma message_id_back: "length i = 16 \<Longrightarrow> ParseMessageID (MessageID_String i) = Inr i"
  and message_id_wire: "length i = 16 \<Longrightarrow> reads_back (MessageID_WriteTo i) MessageID_ReadFrom i"
  by (simp_all add: ParseMessageID_def MessageID_String_def MessageID_WriteTo_def MessageID_ReadFrom_def rb_write)

end
