(* ===== verification/Properties_Net.thy ===== *)
theory Properties_Net
  imports Endpoints
begin

text \<open>The property of network endpoints, over the definitions of \<open>Endpoints\<close>.\<close>

text \<open>
  C26: endpoints are read back from their text.  The text of an address and a port, in either family, is
  parsed by all three packages as the same endpoint with its address in the long form; an onion
  endpoint and a gateway endpoint are read back as they were, whatever the receiver held before.
\<close>

theorem endpoint_text_round_trip:
  assumes "upper_ok upper" and "curve_ok curve" and "length (ep_IP e) \<in> {4, 16}" and "length (te_Digest t) = DigestSize"
    and "identity_ok curve (ge_GatewayID g)" and "identity_ok curve (ge_TargetID g)"
  shows "(\<exists>a. To16 (ep_IP e) = Some a \<and> tcp_ParseEndpoint (tcp_Address e) = Inr (e\<lparr>ep_IP := a\<rparr>) \<and>
      kcp_ParseEndpoint (kcp_Address e) = Inr (e\<lparr>ep_IP := a\<rparr>) \<and> nat_ParseEndpoint (nat_Address e) = Inr (e\<lparr>ep_IP := a\<rparr>)) \<and>
    tor_UnmarshalText upper (tor_Address t) t0 = (None, t) \<and>
    gateway_ParseEndpoint curve (gateway_Address g) = Inr g"
proof -
  obtain a where "To16 (ep_IP e) = Some a" using assms(3) by (auto simp: To16_def)
  then show ?thesis using endpoint_back [OF assms(3)] tor_back [OF assms(1,4)] gateway_back [OF assms(2,5,6)]
    by (simp add: tcp_ParseEndpoint_def tcp_Address_def kcp_ParseEndpoint_def kcp_Address_def nat_ParseEndpoint_def nat_Address_def)
qed

theorem endpoint_text_round_trip_witness:
  "tcp_ParseEndpoint (tcp_Address \<lparr>ep_IP = [10, 0, 0, 1], ep_Port = 1791\<rparr>) = Inr \<lparr>ep_IP = v4InV6Prefix @ [10, 0, 0, 1], ep_Port = 1791\<rparr> \<and>
   tor_UnmarshalText (map to_upper) (tor_Address \<lparr>te_Digest = replicate 35 7, te_Port = 80\<rparr>) \<lparr>te_Digest = [], te_Port = 0\<rparr> =
     (None, \<lparr>te_Digest = replicate 35 7, te_Port = 80\<rparr>)"
proof -
  have "upper_ok (map to_upper)" by (simp add: upper_ok_def)
  moreover have "curve_ok (\<lambda>_. False)" by (simp add: curve_ok_def)
  ultimately show ?thesis
    using endpoint_text_round_trip [of "map to_upper" "\<lambda>_. False" "\<lparr>ep_IP = [10, 0, 0, 1], ep_Port = 1791\<rparr>"
        "\<lparr>te_Digest = replicate 35 7, te_Port = 80\<rparr>" "\<lparr>ge_GatewayID = None, ge_TargetID = None\<rparr>" "\<lparr>te_Digest = [], te_Port = 0\<rparr>"]
    by (auto simp: DigestSize_def identity_ok_def To16_def)
qed

end
