(* ===== verification/Fan_Out.thy ===== *)
theory Fan_Out
  imports Go_Prelude "HOL-Library.Sublist"
begin

text \<open>
  The object sources of an app: \<^verbatim>\<open>src/lib/apps/object_describer.go\<close>, \<^verbatim>\<open>object_finder.go\<close> and \<^verbatim>\<open>object_searcher.go\<close>.
  One request is fanned out to every source; a goroutine per source reads its stream and hands the
  usable values to one relay, which passes them to the loop that sends them to the caller.  The
  channels between them are unbuffered, so a value is handed over in one step, and every wait also
  ends with the context.  The three ops differ in the values they drop and in their arguments;
  what they share is here, and the ops are in \<open>Object_Sources\<close>.
\<close>

subsection \<open>Goroutines\<close>

text \<open>A source is nil, refuses the request, or streams values (nil ones among them) and then closes, or not.\<close>

datatype 'a source = NilSource | Refuses | Stream "'a option list" bool

datatype 'a worker = Starting "'a source" | Reading "'a option list" bool | Sending 'a "'a option list" bool | Returned

datatype 'a relay = RelayWaits | RelayHolds 'a | RelayClosed

datatype 'a sender_loop = LoopWaits | LoopHolds 'a | LoopEnded "error option"

record 'a fan =
  fo_workers :: "'a worker list"
  fo_found_closed :: bool
  fo_relay :: "'a relay"
  fo_loop :: "'a sender_loop"
  fo_sent :: "'a list"
  fo_eos :: bool
  fo_done :: bool

definition fan_start :: "'a source list \<Rightarrow> 'a fan" where
  "fan_start sources =
     \<lparr>fo_workers = map Starting sources, fo_found_closed = False, fo_relay = RelayWaits, fo_loop = LoopWaits,
      fo_sent = [], fo_eos = False, fo_done = False\<rparr>"

text \<open>What a goroutine does next on its own; None while it waits for another one.\<close>

definition worker_next :: "('a \<Rightarrow> bool) \<Rightarrow> 'a worker \<Rightarrow> 'a worker option" where
  "worker_next usable w =
     (case w of
        Starting (Stream xs ends) \<Rightarrow> Some (Reading xs ends)
      | Starting _ \<Rightarrow> Some Returned
      | Reading (x # xs) ends \<Rightarrow>
          (case x of
             None \<Rightarrow> Some (Reading xs ends)
           | Some v \<Rightarrow> if usable v then Some (Sending v xs ends) else Some (Reading xs ends))
      | Reading [] ends \<Rightarrow> if ends then Some Returned else None
      | _ \<Rightarrow> None)"

text \<open>The loop after the last value: the end-of-stream marker, sent or not, and the deferred cancel.\<close>

definition loop_finish :: "error option \<Rightarrow> 'a fan \<Rightarrow> 'a fan" where
  "loop_finish e s = s\<lparr>fo_loop := LoopEnded e, fo_eos := (e = None), fo_done := True\<rparr>"

inductive fan_step :: "('a \<Rightarrow> bool) \<Rightarrow> 'a fan \<Rightarrow> 'a fan \<Rightarrow> bool" for usable where
  work: "i < length (fo_workers s) \<Longrightarrow> worker_next usable (fo_workers s ! i) = Some w \<Longrightarrow>
    fan_step usable s (s\<lparr>fo_workers := (fo_workers s)[i := w]\<rparr>)"
| quit: "i < length (fo_workers s) \<Longrightarrow> fo_done s \<Longrightarrow> fo_workers s ! i = Reading xs ends \<or> fo_workers s ! i = Sending v xs ends \<Longrightarrow>
    fan_step usable s (s\<lparr>fo_workers := (fo_workers s)[i := Returned]\<rparr>)"
| hand: "i < length (fo_workers s) \<Longrightarrow> fo_workers s ! i = Sending v xs ends \<Longrightarrow> fo_relay s = RelayWaits \<Longrightarrow>
    fan_step usable s (s\<lparr>fo_workers := (fo_workers s)[i := Reading xs ends], fo_relay := RelayHolds v\<rparr>)"
| close_found: "\<forall>w \<in> set (fo_workers s). w = Returned \<Longrightarrow> \<not> fo_found_closed s \<Longrightarrow>
    fan_step usable s (s\<lparr>fo_found_closed := True\<rparr>)"
| relay_end: "fo_relay s = RelayWaits \<Longrightarrow> fo_found_closed s \<Longrightarrow> fan_step usable s (s\<lparr>fo_relay := RelayClosed\<rparr>)"
| relay_quit: "fo_done s \<Longrightarrow> fo_relay s \<noteq> RelayClosed \<Longrightarrow> fan_step usable s (s\<lparr>fo_relay := RelayClosed\<rparr>)"
| deliver: "fo_relay s = RelayHolds v \<Longrightarrow> fo_loop s = LoopWaits \<Longrightarrow>
    fan_step usable s (s\<lparr>fo_relay := RelayWaits, fo_loop := LoopHolds v\<rparr>)"
| send: "fo_loop s = LoopHolds v \<Longrightarrow> fan_step usable s (s\<lparr>fo_loop := LoopWaits, fo_sent := fo_sent s @ [v]\<rparr>)"
| send_fails: "fo_loop s = LoopHolds v \<Longrightarrow> fan_step usable s (s\<lparr>fo_loop := LoopEnded (Some e), fo_done := True\<rparr>)"
| finish: "fo_loop s = LoopWaits \<Longrightarrow> fo_relay s = RelayClosed \<or> fo_done s \<Longrightarrow> fan_step usable s (loop_finish e s)"
| cancel: "\<not> fo_done s \<Longrightarrow> fan_step usable s (s\<lparr>fo_done := True\<rparr>)"

inductive fan_reachable :: "('a \<Rightarrow> bool) \<Rightarrow> 'a source list \<Rightarrow> 'a fan \<Rightarrow> bool" for usable sources where
  fan_init: "fan_reachable usable sources (fan_start sources)"
| fan_next: "fan_reachable usable sources s \<Longrightarrow> fan_step usable s t \<Longrightarrow> fan_reachable usable sources t"

subsection \<open>Merging\<close>

text \<open>\<open>merged yss zs\<close>: \<open>zs\<close> takes the lists \<open>yss\<close> apart value by value, each in its order.\<close>

inductive merged :: "'a list list \<Rightarrow> 'a list \<Rightarrow> bool" where
  merged_empty: "(\<forall>ys \<in> set yss. ys = []) \<Longrightarrow> merged yss []"
| merged_snoc: "merged yss zs \<Longrightarrow> i < length yss \<Longrightarrow> merged (yss[i := yss ! i @ [v]]) (zs @ [v])"

fun wanted :: "('a \<Rightarrow> bool) \<Rightarrow> 'a source \<Rightarrow> 'a list" where
  "wanted usable (Stream xs ends) = filter usable (map the (filter (\<lambda>x. x \<noteq> None) xs))"
| "wanted usable _ = []"

fun pending_of :: "('a \<Rightarrow> bool) \<Rightarrow> 'a worker \<Rightarrow> 'a list" where
  "pending_of usable (Starting s) = wanted usable s"
| "pending_of usable (Reading xs ends) = wanted usable (Stream xs ends)"
| "pending_of usable (Sending v xs ends) = v # wanted usable (Stream xs ends)"
| "pending_of usable Returned = []"

text \<open>How much of its source a goroutine has handed over.\<close>

definition taken_ok :: "('a \<Rightarrow> bool) \<Rightarrow> bool \<Rightarrow> 'a source \<Rightarrow> 'a worker \<Rightarrow> 'a list \<Rightarrow> bool" where
  "taken_ok usable cancelled src w ys \<longleftrightarrow>
     (if w = Returned \<and> cancelled then prefix ys (wanted usable src) else ys @ pending_of usable w = wanted usable src)"

definition held :: "'a fan \<Rightarrow> 'a list" where
  "held s = (case fo_loop s of LoopHolds v \<Rightarrow> [v] | _ \<Rightarrow> []) @ (case fo_relay s of RelayHolds v \<Rightarrow> [v] | _ \<Rightarrow> [])"

text \<open>\<open>yss\<close> is what each source has handed over, \<open>zs\<close> all of it in the order it came.\<close>

definition fan_at :: "('a \<Rightarrow> bool) \<Rightarrow> 'a source list \<Rightarrow> 'a fan \<Rightarrow> 'a list list \<Rightarrow> 'a list \<Rightarrow> bool" where
  "fan_at usable sources s yss zs \<longleftrightarrow>
     merged yss zs \<and> length yss = length sources \<and> length (fo_workers s) = length sources \<and>
     (\<forall>i < length sources. taken_ok usable (fo_done s) (sources ! i) (fo_workers s ! i) (yss ! i)) \<and>
     (case fo_loop s of
        LoopEnded e \<Rightarrow> fo_done s \<and> prefix (fo_sent s) zs
      | _ \<Rightarrow> if fo_relay s = RelayClosed \<and> fo_done s then prefix (fo_sent s @ held s) zs else fo_sent s @ held s = zs)"

definition fan_inv :: "('a \<Rightarrow> bool) \<Rightarrow> 'a source list \<Rightarrow> 'a fan \<Rightarrow> bool" where
  "fan_inv usable sources s \<longleftrightarrow>
     (\<exists>yss zs. fan_at usable sources s yss zs) \<and>
     (fo_found_closed s \<longrightarrow> (\<forall>w \<in> set (fo_workers s). w = Returned)) \<and> (fo_eos s \<longrightarrow> fo_done s) \<and>
     (fo_relay s = RelayClosed \<longrightarrow> fo_done s \<or> fo_found_closed s)"

lemma worker_next_taken:
  "taken_ok usable c src w ys \<Longrightarrow> worker_next usable w = Some w' \<Longrightarrow> taken_ok usable c src w' ys"
  by (auto simp: taken_ok_def worker_next_def split: worker.splits source.splits list.splits option.splits if_splits)

lemma taken_cancel: "taken_ok usable c src w ys \<Longrightarrow> taken_ok usable True src w ys"
  by (cases c) (auto simp: taken_ok_def)

lemma taken_quit: "taken_ok usable True src w ys \<Longrightarrow> taken_ok usable True src Returned ys"
  by (auto simp: taken_ok_def split: if_splits) (metis prefixI)

lemma taken_hand: "taken_ok usable c src (Sending v xs ends) ys \<Longrightarrow> taken_ok usable c src (Reading xs ends) (ys @ [v])"
  by (simp add: taken_ok_def)

lemma fan_start_inv: "fan_inv usable sources (fan_start sources)"
proof -
  have "merged (replicate (length sources) []) []" by (rule merged_empty) simp
  then have "fan_at usable sources (fan_start sources) (replicate (length sources) []) []"
    by (simp add: fan_at_def fan_start_def taken_ok_def held_def)
  then show ?thesis by (auto simp: fan_inv_def fan_start_def)
qed

text \<open>Steps of one worker, and steps that leave the workers alone.\<close>

lemma fan_at_worker:
  assumes "fan_at usable sources s yss zs" and "i < length (fo_workers s)"
    and "\<And>ys. taken_ok usable (fo_done s) (sources ! i) (fo_workers s ! i) ys \<Longrightarrow> taken_ok usable (fo_done s) (sources ! i) w ys"
  shows "fan_at usable sources (s\<lparr>fo_workers := (fo_workers s)[i := w]\<rparr>) yss zs"
  using assms by (auto simp: fan_at_def held_def nth_list_update split: sender_loop.splits)

lemma fan_at_hand:
  assumes "fan_at usable sources s yss zs" and "i < length (fo_workers s)" and "fo_workers s ! i = Sending v xs ends"
    and "fo_relay s = RelayWaits"
  shows "fan_at usable sources (s\<lparr>fo_workers := (fo_workers s)[i := Reading xs ends], fo_relay := RelayHolds v\<rparr>)
    (yss[i := yss ! i @ [v]]) (zs @ [v])"
proof -
  have "merged (yss[i := yss ! i @ [v]]) (zs @ [v])" using assms by (intro merged_snoc) (auto simp: fan_at_def)
  moreover have "taken_ok usable (fo_done s) (sources ! i) (Reading xs ends) (yss ! i @ [v])"
    using assms by (intro taken_hand) (auto simp: fan_at_def)
  ultimately show ?thesis using assms
    by (auto simp: fan_at_def held_def nth_list_update split: sender_loop.splits)
qed

lemma fan_step_inv: "fan_step usable s t \<Longrightarrow> fan_inv usable sources s \<Longrightarrow> fan_inv usable sources t"
proof (induction rule: fan_step.induct)
  case (work i s w)
  then obtain yss zs where at: "fan_at usable sources s yss zs" by (auto simp: fan_inv_def)
  have "fan_at usable sources (s\<lparr>fo_workers := (fo_workers s)[i := w]\<rparr>) yss zs"
    by (rule fan_at_worker [OF at work(1)]) (rule worker_next_taken [OF _ work(2)])
  moreover have "fo_workers s ! i \<noteq> Returned" using work(2) by (auto simp: worker_next_def)
  ultimately show ?case using work by (auto simp: fan_inv_def)
next
  case (quit i s xs ends v)
  then obtain yss zs where at: "fan_at usable sources s yss zs" by (auto simp: fan_inv_def)
  have "fan_at usable sources (s\<lparr>fo_workers := (fo_workers s)[i := Returned]\<rparr>) yss zs"
    using quit by (intro fan_at_worker [OF at quit(1)]) (auto intro: taken_quit)
  then show ?case using quit by (auto simp: fan_inv_def dest!: set_update_subset_insert [THEN subsetD])
next
  case (hand i s v xs ends)
  then obtain yss zs where at: "fan_at usable sources s yss zs" by (auto simp: fan_inv_def)
  have "fo_workers s ! i \<in> set (fo_workers s)" by (rule nth_mem [OF hand(1)])
  then have "\<not> fo_found_closed s" using hand by (auto simp: fan_inv_def)
  moreover note fan_at_hand [OF at hand(1,2,3)]
  ultimately show ?case using hand(4) by (auto simp: fan_inv_def)
next
  case (close_found s)
  then obtain yss zs where "fan_at usable sources s yss zs" by (auto simp: fan_inv_def)
  then have "fan_at usable sources (s\<lparr>fo_found_closed := True\<rparr>) yss zs" using close_found by (auto simp: fan_at_def held_def split: sender_loop.splits)
  then show ?case using close_found by (auto simp: fan_inv_def)
next
  case (relay_end s)
  then obtain yss zs where "fan_at usable sources s yss zs" by (auto simp: fan_inv_def)
  then have "fan_at usable sources (s\<lparr>fo_relay := RelayClosed\<rparr>) yss zs" using relay_end by (auto simp: fan_at_def held_def split: sender_loop.splits)
  then show ?case using relay_end by (auto simp: fan_inv_def)
next
  case (relay_quit s)
  then obtain yss zs where "fan_at usable sources s yss zs" by (auto simp: fan_inv_def)
  then have "fan_at usable sources (s\<lparr>fo_relay := RelayClosed\<rparr>) yss zs" using relay_quit by (auto simp: fan_at_def held_def split: sender_loop.splits relay.splits)
  then show ?case using relay_quit by (auto simp: fan_inv_def)
next
  case (deliver s v)
  then obtain yss zs where "fan_at usable sources s yss zs" by (auto simp: fan_inv_def)
  then have "fan_at usable sources (s\<lparr>fo_relay := RelayWaits, fo_loop := LoopHolds v\<rparr>) yss zs" using deliver by (auto simp: fan_at_def held_def)
  then show ?case using deliver by (auto simp: fan_inv_def)
next
  case (send s v)
  then obtain yss zs where "fan_at usable sources s yss zs" by (auto simp: fan_inv_def)
  then have "fan_at usable sources (s\<lparr>fo_loop := LoopWaits, fo_sent := fo_sent s @ [v]\<rparr>) yss zs" using send by (auto simp: fan_at_def held_def)
  then show ?case using send by (auto simp: fan_inv_def)
next
  case (send_fails s v e)
  then obtain yss zs where "fan_at usable sources s yss zs" by (auto simp: fan_inv_def)
  then have "fan_at usable sources (s\<lparr>fo_loop := LoopEnded (Some e), fo_done := True\<rparr>) yss zs" using send_fails by (auto simp: fan_at_def held_def intro: taken_cancel dest: append_prefixD split: if_splits)
  then show ?case using send_fails by (auto simp: fan_inv_def)
next
  case (finish s e)
  then obtain yss zs where "fan_at usable sources s yss zs" by (auto simp: fan_inv_def)
  then have "fan_at usable sources (loop_finish e s) yss zs" using finish by (auto simp: fan_at_def held_def loop_finish_def intro: taken_cancel split: if_splits)
  then show ?case using finish by (auto simp: fan_inv_def loop_finish_def)
next
  case (cancel s)
  then obtain yss zs where "fan_at usable sources s yss zs" by (auto simp: fan_inv_def)
  then have "fan_at usable sources (s\<lparr>fo_done := True\<rparr>) yss zs" using cancel by (auto simp: fan_at_def held_def intro: taken_cancel split: sender_loop.splits)
  then show ?case using cancel by (auto simp: fan_inv_def)
qed

lemma fan_reachable_inv: "fan_reachable usable sources s \<Longrightarrow> fan_inv usable sources s"
  by (induction rule: fan_reachable.induct) (auto intro: fan_start_inv fan_step_inv)

text \<open>What was sent so far came from the sources, each in its order.\<close>

lemma fan_sent_merged:
  assumes "fan_reachable usable sources s"
  shows "\<exists>yss zs. merged yss zs \<and> prefix (fo_sent s) zs \<and> list_all2 (\<lambda>ys src. prefix ys (wanted usable src)) yss sources"
proof -
  obtain yss zs where at: "fan_at usable sources s yss zs" using fan_reachable_inv [OF assms] by (auto simp: fan_inv_def)
  have "prefix (fo_sent s) zs"
    using at by (auto simp: fan_at_def split: sender_loop.splits if_splits dest: append_prefixD)
  moreover have "prefix (yss ! i) (wanted usable (sources ! i))" if "i < length sources" for i
  proof -
    have "taken_ok usable (fo_done s) (sources ! i) (fo_workers s ! i) (yss ! i)" using at that by (simp add: fan_at_def)
    from taken_quit [OF taken_cancel [OF this]] show ?thesis by (simp add: taken_ok_def)
  qed
  ultimately show ?thesis using at
    by (intro exI [of _ yss] exI [of _ zs]) (simp add: fan_at_def list_all2_conv_all_nth)
qed

text \<open>Unless the request was cancelled, the marker follows everything the sources had to offer.\<close>

lemma fan_eos_complete:
  assumes "fan_reachable usable sources s" and "\<not> fo_done s" and "fan_step usable s t" and "fo_eos t"
  shows "merged (map (wanted usable) sources) (fo_sent t)"
proof -
  have inv: "fan_inv usable sources s" by (rule fan_reachable_inv [OF assms(1)])
  then obtain yss zs where at: "fan_at usable sources s yss zs" and eos: "\<not> fo_eos s" using assms(2) by (auto simp: fan_inv_def)
  from assms(3) eos assms(4) have fin: "fo_loop s = LoopWaits" "fo_relay s = RelayClosed" "fo_sent t = fo_sent s"
    using assms(2) by (auto elim!: fan_step.cases simp: loop_finish_def)
  then have ret: "\<forall>w \<in> set (fo_workers s). w = Returned" using inv assms(2) by (auto simp: fan_inv_def)
  have "yss ! i = wanted usable (sources ! i)" if "i < length sources" for i
  proof -
    have "fo_workers s ! i = Returned" using ret at that by (auto simp: fan_at_def)
    then show ?thesis using at that assms(2) by (auto simp: fan_at_def taken_ok_def)
  qed
  then have "yss = map (wanted usable) sources" using at by (intro nth_equalityI) (auto simp: fan_at_def)
  moreover have "zs = fo_sent s" using at fin assms(2) by (auto simp: fan_at_def held_def)
  ultimately show ?thesis using at fin(3) by (simp add: fan_at_def)
qed

subsection \<open>Every request ends\<close>

fun worker_weight :: "'a worker \<Rightarrow> nat" where
  "worker_weight (Starting (Stream xs ends)) = 4 * length xs + 2"
| "worker_weight (Starting _) = 2"
| "worker_weight (Reading xs ends) = 4 * length xs + 1"
| "worker_weight (Sending v xs ends) = 4 * length xs + 4"
| "worker_weight Returned = 0"

definition fan_weight :: "'a fan \<Rightarrow> nat" where
  "fan_weight s =
     sum_list (map worker_weight (fo_workers s)) + (if fo_found_closed s then 0 else 1) +
     (case fo_relay s of RelayWaits \<Rightarrow> 1 | RelayHolds v \<Rightarrow> 3 | RelayClosed \<Rightarrow> 0) +
     (case fo_loop s of LoopWaits \<Rightarrow> 1 | LoopHolds v \<Rightarrow> 2 | LoopEnded e \<Rightarrow> 0) + (if fo_done s then 0 else 1)"

lemma worker_next_weight: "worker_next usable w = Some w' \<Longrightarrow> worker_weight w' < worker_weight w"
  by (auto simp: worker_next_def split: worker.splits source.splits list.splits option.splits if_splits)

lemma workers_weight:
  "i < length ws \<Longrightarrow> worker_weight w + k \<le> worker_weight (ws ! i) \<Longrightarrow>
     sum_list (map worker_weight (ws[i := w])) + k \<le> sum_list (map worker_weight ws)"
proof -
  assume i: "i < length ws" and le: "worker_weight w + k \<le> worker_weight (ws ! i)"
  have "worker_weight (ws ! i) \<le> sum_list (map worker_weight ws)" using i by (intro member_le_sum_list) auto
  then show ?thesis using i le by (simp add: map_update sum_list_update)
qed

lemma fan_step_weight: "fan_step usable s t \<Longrightarrow> fan_weight t < fan_weight s"
proof (induction rule: fan_step.induct)
  case (work i s w)
  then have "sum_list (map worker_weight ((fo_workers s)[i := w])) + 1 \<le> sum_list (map worker_weight (fo_workers s))"
    using worker_next_weight [of usable "fo_workers s ! i" w] by (intro workers_weight) auto
  then show ?case using work by (simp add: fan_weight_def)
next
  case (quit i s xs ends v)
  then have "sum_list (map worker_weight ((fo_workers s)[i := Returned])) + 1 \<le> sum_list (map worker_weight (fo_workers s))"
    by (intro workers_weight) auto
  then show ?case using quit by (simp add: fan_weight_def)
next
  case (hand i s v xs ends)
  then have "sum_list (map worker_weight ((fo_workers s)[i := Reading xs ends])) + 3 \<le> sum_list (map worker_weight (fo_workers s))"
    by (intro workers_weight) auto
  then show ?case using hand by (simp add: fan_weight_def)
qed (auto simp: fan_weight_def loop_finish_def split: relay.splits sender_loop.splits)

fun ends_ok :: "'a worker \<Rightarrow> bool" where
  "ends_ok (Starting (Stream xs ends)) = ends"
| "ends_ok (Reading xs ends) = ends"
| "ends_ok (Sending v xs ends) = ends"
| "ends_ok _ = True"

lemma worker_next_ends: "worker_next usable w = Some w' \<Longrightarrow> ends_ok w \<Longrightarrow> ends_ok w'"
  by (auto simp: worker_next_def split: worker.splits source.splits list.splits option.splits if_splits)

lemma fan_step_ends: "fan_step usable s t \<Longrightarrow> \<forall>w \<in> set (fo_workers s). ends_ok w \<Longrightarrow> \<forall>w \<in> set (fo_workers t). ends_ok w"
proof (induction rule: fan_step.induct)
  case (work i s w)
  then have "ends_ok w" using worker_next_ends [OF work(2)] by simp
  then show ?case using work set_update_subset_insert [of "fo_workers s" i w] by auto
next
  case (quit i s xs ends v)
  then show ?case using set_update_subset_insert [of "fo_workers s" i Returned] by auto
next
  case (hand i s v xs ends)
  then have "ends_ok (fo_workers s ! i)" using nth_mem [OF hand(1)] by blast
  then have "ends_ok (Reading xs ends)" using hand(2) by simp
  then show ?case using hand set_update_subset_insert [of "fo_workers s" i "Reading xs ends"] by auto
qed (auto simp: loop_finish_def)

lemma fan_reachable_ends:
  "fan_reachable usable sources s \<Longrightarrow> \<forall>src \<in> set sources. ends_ok (Starting src) \<Longrightarrow> \<forall>w \<in> set (fo_workers s). ends_ok w"
proof (induction rule: fan_reachable.induct)
  case (fan_next s t)
  then show ?case using fan_step_ends by blast
qed (simp add: fan_start_def)

definition fan_finished :: "'a fan \<Rightarrow> bool" where
  "fan_finished s \<longleftrightarrow>
     (\<forall>w \<in> set (fo_workers s). w = Returned) \<and> fo_found_closed s \<and> fo_relay s = RelayClosed \<and> (\<exists>e. fo_loop s = LoopEnded e)"

lemma passing_on:
  assumes "fo_relay s = RelayHolds v" and "fo_loop s \<noteq> LoopWaits \<longrightarrow> (\<exists>x. fo_loop s = LoopHolds x) \<or> fo_done s"
  shows "\<exists>t. fan_step usable s t"
  using assms fan_step.deliver fan_step.send fan_step.relay_quit by (metis relay.distinct(5))

text \<open>While a goroutine is left something can happen: nothing waits for what never comes.\<close>

lemma fan_progress:
  assumes r: "fan_reachable usable sources s" and e: "(\<forall>src \<in> set sources. ends_ok (Starting src)) \<or> fo_done s"
    and n: "\<not> fan_finished s"
  shows "\<exists>t. fan_step usable s t"
proof -
  have inv: "fan_inv usable sources s" by (rule fan_reachable_inv [OF r])
  then have ended: "fo_done s" if "fo_loop s = LoopEnded x" for x using that by (auto simp: fan_inv_def fan_at_def)
  have pass: "\<exists>t. fan_step usable s t" if "fo_relay s = RelayHolds v" for v
    using passing_on [OF that] ended by (cases "fo_loop s") auto
  show ?thesis
  proof (cases "\<forall>w \<in> set (fo_workers s). w = Returned")
    case True
    show ?thesis
    proof (cases "fo_relay s")
      case RelayWaits
      then show ?thesis using True fan_step.close_found [of s usable] fan_step.relay_end [of s usable] by blast
    next
      case RelayClosed
      show ?thesis
      proof (cases "fo_loop s")
        case LoopWaits
        then show ?thesis using RelayClosed by (intro exI) (rule fan_step.finish, simp_all)
      next
        case (LoopHolds v)
        then show ?thesis by (intro exI) (rule fan_step.send)
      next
        case (LoopEnded x)
        then show ?thesis using True RelayClosed n fan_step.close_found [of s usable] by (auto simp: fan_finished_def)
      qed
    qed (rule pass)
  next
    case False
    then obtain i where i: "i < length (fo_workers s)" "fo_workers s ! i \<noteq> Returned" by (auto simp: in_set_conv_nth)
    have open_: "\<not> fo_found_closed s" using inv False by (auto simp: fan_inv_def)
    show ?thesis
    proof (cases "worker_next usable (fo_workers s ! i)")
      case (Some w)
      then show ?thesis using fan_step.work [OF i(1)] by blast
    next
      case None
      then consider (stuck) "fo_workers s ! i = Reading [] False" | (sending) v xs ends where "fo_workers s ! i = Sending v xs ends"
        using i(2) by (auto simp: worker_next_def split: worker.splits source.splits list.splits option.splits if_splits)
      then show ?thesis
      proof cases
        case stuck
        then have "\<not> ends_ok (fo_workers s ! i)" by simp
        then have "fo_done s" using e fan_reachable_ends [OF r] nth_mem [OF i(1)] by blast
        then show ?thesis using fan_step.quit [OF i(1)] stuck by blast
      next
        case sending
        show ?thesis
        proof (cases "fo_relay s")
          case RelayWaits
          then show ?thesis using fan_step.hand [OF i(1) sending] by blast
        next
          case RelayClosed
          then have "fo_done s" using inv open_ by (auto simp: fan_inv_def)
          then show ?thesis using fan_step.quit [OF i(1)] sending by blast
        qed (rule pass)
      qed
    qed
  qed
qed

end
