(* ===== verification/Search_Query.thy ===== *)
theory Search_Query
  imports Json Discovery
begin

text \<open>
  Search queries: \<^verbatim>\<open>src/api/objects/search_query.go\<close>, \<^verbatim>\<open>query_tag.go\<close> and \<^verbatim>\<open>err_tag_unsupported.go\<close>.  A query is a list of tags
  and free words; its text is what a user types.  \<open>lower\<close> is Unicode lower case.  Reading runes
  turns what is not UTF-8 into U+FFFD before anything else is looked at.
\<close>

definition TagModRequire :: string where "TagModRequire = []"
definition TagModExclude :: string where "TagModExclude = ''EXCLUDE''"
definition TagModOptional :: string where "TagModOptional = ''OPTIONAL''"
definition TagModOptionalExclude :: string where "TagModOptionalExclude = ''OPTIONAL_EXCLUDE''"

lemmas tag_mods = TagModRequire_def TagModExclude_def TagModOptional_def TagModOptionalExclude_def

record query_tag =
  qt_Name :: string
  qt_Mod :: string
  qt_Value :: string

record search_query =
  sq_Query :: string
  sq_Tags :: "query_tag list"

definition NewErrTagUnsupported :: "string \<Rightarrow> error" where
  "NewErrTagUnsupported n = ErrMsg (''tag '' @ n @ '' is unsupported'')"

fun required_tags :: "string list \<Rightarrow> query_tag list \<Rightarrow> error option" where
  "required_tags known [] = None"
| "required_tags known (t # ts) =
     (if (qt_Mod t = TagModRequire \<or> qt_Mod t = TagModExclude) \<and> qt_Name t \<notin> set known
      then Some (NewErrTagUnsupported (qt_Name t)) else required_tags known ts)"

definition RequiredTagsIn :: "string list \<Rightarrow> search_query \<Rightarrow> error option" where
  "RequiredTagsIn known q = required_tags known (sq_Tags q)"

subsection \<open>Printing\<close>

definition quote_spaces :: "string \<Rightarrow> string" where
  "quote_spaces s = (if CHR '' '' \<in> set s then [CHR 0x22] @ s @ [CHR 0x22] else s)"

definition tag_prefix :: "string \<Rightarrow> string" where
  "tag_prefix m =
     (if m = TagModExclude then ''-'' else if m = TagModOptional then ''?''
      else if m = TagModOptionalExclude then ''~'' else [])"

definition tag_text :: "query_tag \<Rightarrow> string" where
  "tag_text t = tag_prefix (qt_Mod t) @ qt_Name t @ '':'' @ quote_spaces (qt_Value t)"

definition SearchQuery_MarshalText :: "search_query \<Rightarrow> string" where
  "SearchQuery_MarshalText q =
     (let s = TrimSpace (sq_Query q)
      in Join (map tag_text (sq_Tags q) @ (if s = [] then [] else [quote_spaces s])) '' '')"

subsection \<open>Parsing\<close>

fun tokenize_loop :: "bool \<Rightarrow> string \<Rightarrow> string list \<Rightarrow> string \<Rightarrow> string list" where
  "tokenize_loop inQuote cur tokens [] = (if cur = [] then tokens else tokens @ [cur])"
| "tokenize_loop inQuote cur tokens (c # s) =
     (if c = CHR 0x22 then tokenize_loop (\<not> inQuote) cur tokens s
      else if c = CHR '' '' \<and> \<not> inQuote
      then tokenize_loop inQuote [] (if cur = [] then tokens else tokens @ [cur]) s
      else tokenize_loop inQuote (cur @ [c]) tokens s)"

definition tokenizeQuery :: "string \<Rightarrow> string list" where
  "tokenizeQuery s = tokenize_loop False [] [] (coerce_utf8 s)"

definition token_mod :: "string \<Rightarrow> string \<times> string" where
  "token_mod token =
     (if prefix ''-'' token then (TagModExclude, tl token)
      else if prefix ''?'' token then (TagModOptional, tl token)
      else if prefix ''~'' token then (TagModOptionalExclude, tl token)
      else ([], token))"

definition parse_token :: "(string \<Rightarrow> string) \<Rightarrow> string \<Rightarrow> string list \<times> query_tag list \<Rightarrow> string list \<times> query_tag list" where
  "parse_token lower token acc =
     (case acc of (words, tags) \<Rightarrow>
        (case token_mod token of (m, token1) \<Rightarrow>
           (case cut CHR '':'' token1 of
              (name, value, True) \<Rightarrow> (words, tags @ [\<lparr>qt_Name = lower name, qt_Mod = m, qt_Value = lower value\<rparr>])
            | (name, value, False) \<Rightarrow> (words @ [lower token1], tags))))"

definition SearchQuery_UnmarshalText :: "(string \<Rightarrow> string) \<Rightarrow> string \<Rightarrow> search_query" where
  "SearchQuery_UnmarshalText lower s =
     (case fold (parse_token lower) (tokenizeQuery s) ([], []) of
        (words, tags) \<Rightarrow> \<lparr>sq_Query = Join words '' '', sq_Tags = tags\<rparr>)"

subsection \<open>Queries come back\<close>

definition unmarked :: "string \<Rightarrow> bool" where
  "unmarked s \<longleftrightarrow> \<not> prefix ''-'' s \<and> \<not> prefix ''?'' s \<and> \<not> prefix ''~'' s"

definition tag_ok :: "(string \<Rightarrow> string) \<Rightarrow> query_tag \<Rightarrow> bool" where
  "tag_ok lower t \<longleftrightarrow>
     qt_Mod t \<in> {TagModRequire, TagModExclude, TagModOptional, TagModOptionalExclude} \<and>
     set (qt_Name t) \<inter> {CHR '' '', CHR 0x22, CHR '':''} = {} \<and> CHR 0x22 \<notin> set (qt_Value t) \<and>
     lower (qt_Name t) = qt_Name t \<and> lower (qt_Value t) = qt_Value t \<and> (qt_Mod t = TagModRequire \<longrightarrow> unmarked (qt_Name t @ '':''))"

definition words_ok :: "(string \<Rightarrow> string) \<Rightarrow> string \<Rightarrow> bool" where
  "words_ok lower s \<longleftrightarrow>
     TrimSpace s = s \<and> set s \<inter> {CHR 0x22, CHR '':''} = {} \<and> lower s = s \<and> unmarked s"

lemma tokenize_plain:
  "CHR 0x22 \<notin> set p \<Longrightarrow> inQuote \<or> CHR '' '' \<notin> set p \<Longrightarrow>
     tokenize_loop inQuote cur tokens (p @ s) = tokenize_loop inQuote (cur @ p) tokens s"
  by (induction p arbitrary: cur) auto

lemma tokenize_quoted:
  "CHR 0x22 \<notin> set p \<Longrightarrow> tokenize_loop False cur tokens (quote_spaces p @ s) = tokenize_loop False (cur @ p) tokens s"
  by (cases "CHR '' '' \<in> set p") (simp_all add: quote_spaces_def tokenize_plain)

text \<open>A token as it is after the quotes are gone.\<close>

definition tag_token :: "query_tag \<Rightarrow> string" where
  "tag_token t = tag_prefix (qt_Mod t) @ qt_Name t @ '':'' @ qt_Value t"

lemma tag_prefix_plain: "set (tag_prefix m) \<inter> {CHR '' '', CHR 0x22} = {}"
  by (simp add: tag_prefix_def)

lemma tokenize_tag:
  assumes "tag_ok lower t"
  shows "tokenize_loop False [] tokens (tag_text t @ s) = tokenize_loop False (tag_token t) tokens s"
proof -
  let ?p = "tag_prefix (qt_Mod t) @ qt_Name t @ '':''"
  have "CHR 0x22 \<notin> set ?p" "CHR '' '' \<notin> set ?p" using assms tag_prefix_plain [of "qt_Mod t"] by (auto simp: tag_ok_def)
  then have "tokenize_loop False [] tokens (?p @ quote_spaces (qt_Value t) @ s) = tokenize_loop False ?p tokens (quote_spaces (qt_Value t) @ s)"
    using tokenize_plain [of ?p False "[]" tokens] by simp
  then show ?thesis using assms tokenize_quoted [of "qt_Value t" ?p tokens s] by (simp add: tag_text_def tag_token_def tag_ok_def)
qed

lemma tokenize_text:
  assumes "\<forall>t \<in> set ts. tag_ok lower t" and "CHR 0x22 \<notin> set w"
  shows "tokenize_loop False [] tokens (Join (map tag_text ts @ (if w = [] then [] else [quote_spaces w])) '' '') =
    tokens @ map tag_token ts @ (if w = [] then [] else [w])"
  using assms(1)
proof (induction ts arbitrary: tokens)
  case Nil
  show ?case using tokenize_quoted [OF assms(2), of "[]" tokens "[]"] by simp
next
  case (Cons t ts)
  have ne: "tag_token t \<noteq> []" by (simp add: tag_token_def)
  let ?rest = "map tag_text ts @ (if w = [] then [] else [quote_spaces w])"
  show ?case
  proof (cases "?rest = []")
    case True
    then show ?thesis using Cons.prems tokenize_tag [of lower t tokens "[]"] ne by (auto split: if_splits)
  next
    case False
    have "tokenize_loop False [] tokens (tag_text t @ '' '' @ Join ?rest '' '') =
        tokenize_loop False [] (tokens @ [tag_token t]) (Join ?rest '' '')"
      using Cons.prems tokenize_tag [of lower t tokens "'' '' @ Join ?rest '' ''"] ne by simp
    then show ?thesis using Cons.IH [of "tokens @ [tag_token t]"] Cons.prems Join_Cons [OF False, of "tag_text t"] by simp
  qed
qed

lemma unmarked_append: "unmarked (a @ '':'') \<Longrightarrow> unmarked (a @ '':'' @ b)"
  by (cases a) (auto simp: unmarked_def)

lemma token_mod_unmarked: "unmarked s \<Longrightarrow> token_mod s = ([], s)"
  by (simp add: token_mod_def unmarked_def)

lemma parse_tag: "tag_ok lower t \<Longrightarrow> parse_token lower (tag_token t) (words, tags) = (words, tags @ [t])"
proof -
  assume ok: "tag_ok lower t"
  have "token_mod (tag_token t) = (qt_Mod t, qt_Name t @ '':'' @ qt_Value t)"
  proof (cases "qt_Mod t = TagModRequire")
    case True
    then have "unmarked (qt_Name t @ '':'' @ qt_Value t)" using ok unmarked_append by (simp add: tag_ok_def)
    then show ?thesis using True token_mod_unmarked by (simp add: tag_token_def tag_prefix_def tag_mods)
  next
    case False
    then have "qt_Mod t \<in> {TagModExclude, TagModOptional, TagModOptionalExclude}" using ok by (simp add: tag_ok_def)
    then show ?thesis by (auto simp: tag_token_def tag_prefix_def token_mod_def tag_mods)
  qed
  moreover have "cut CHR '':'' (qt_Name t @ '':'' @ qt_Value t) = (qt_Name t, qt_Value t, True)"
    using ok cut_at [of "CHR '':''" "qt_Name t"] by (auto simp: tag_ok_def)
  ultimately show ?thesis using ok by (simp add: parse_token_def tag_ok_def)
qed

lemma parse_tags: "\<forall>t \<in> set ts. tag_ok lower t \<Longrightarrow> fold (parse_token lower) (map tag_token ts) (words, tags) = (words, tags @ ts)"
  by (induction ts arbitrary: tags) (simp_all add: parse_tag)

lemma query_text_back:
  assumes tags: "\<forall>t \<in> set (sq_Tags q). tag_ok lower t" and w: "words_ok lower (sq_Query q)"
    and utf: "valid_utf8 (SearchQuery_MarshalText q)"
  shows "SearchQuery_UnmarshalText lower (SearchQuery_MarshalText q) = q"
proof -
  let ?w = "sq_Query q"
  have trim: "TrimSpace ?w = ?w" and quotes: "CHR 0x22 \<notin> set ?w" using w by (auto simp: words_ok_def)
  have m: "SearchQuery_MarshalText q = Join (map tag_text (sq_Tags q) @ (if ?w = [] then [] else [quote_spaces ?w])) '' ''"
    unfolding SearchQuery_MarshalText_def Let_def trim by (rule refl)
  have "tokenizeQuery (SearchQuery_MarshalText q) = map tag_token (sq_Tags q) @ (if ?w = [] then [] else [?w])"
    unfolding tokenizeQuery_def utf [unfolded valid_utf8_def] unfolding m using tokenize_text [OF tags quotes, of "[]"] by simp
  moreover have "parse_token lower ?w (words, tags') = (words @ [?w], tags')" for words tags'
    using w token_mod_unmarked [of ?w] cut_none [of "CHR '':''" ?w] by (auto simp: parse_token_def words_ok_def)
  ultimately show ?thesis using parse_tags [OF tags, of "[]" "[]"] by (simp add: SearchQuery_UnmarshalText_def)
qed

text \<open>
  A modifier on a bare word is dropped with its sign: what was to be excluded is searched for.
\<close>

lemma excluded_word_searched: "SearchQuery_UnmarshalText ToLower ''cats -dogs'' = \<lparr>sq_Query = ''cats dogs'', sq_Tags = []\<rparr>"
  by code_simp

text \<open>Free words with a colon are printed as they are and read as a tag.\<close>

lemma colon_word_becomes_tag:
  "SearchQuery_UnmarshalText ToLower (SearchQuery_MarshalText \<lparr>sq_Query = ''a:b'', sq_Tags = []\<rparr>) =
     \<lparr>sq_Query = [], sq_Tags = [\<lparr>qt_Name = ''a'', qt_Mod = [], qt_Value = ''b''\<rparr>]\<rparr>"
  by code_simp

lemma required_tags_None:
  "RequiredTagsIn known q = None \<longleftrightarrow>
     (\<forall>t \<in> set (sq_Tags q). qt_Mod t \<in> {TagModRequire, TagModExclude} \<longrightarrow> qt_Name t \<in> set known)"
proof -
  have "required_tags known ts = None \<longleftrightarrow> (\<forall>t \<in> set ts. qt_Mod t \<in> {TagModRequire, TagModExclude} \<longrightarrow> qt_Name t \<in> set known)" for ts
    by (induction ts) auto
  then show ?thesis by (simp add: RequiredTagsIn_def)
qed

end
