(* ===== verification/Object_Sources.thy ===== *)
theory Object_Sources
  imports Fan_Out App_Handler Search_Query Identity Runtime
begin

text \<open>
  The ops of an app that answer for its objects (\<^verbatim>\<open>src/lib/apps/object_describer.go\<close>, \<^verbatim>\<open>object_finder.go\<close> and
  \<^verbatim>\<open>object_searcher.go\<close>) over the goroutines of \<open>Fan_Out\<close>, and the options that mount them.
\<close>

subsection \<open>The three ops\<close>

record descriptor =
  d_SourceID :: identity
  d_ObjectID :: "objectID option"
  d_Data :: "obj option"

record search_result =
  sr_SourceID :: identity
  sr_ObjectID :: "objectID option"

definition describe_usable :: "descriptor \<Rightarrow> bool" where
  "describe_usable d \<longleftrightarrow> d_Data d \<noteq> None"

definition find_usable :: "identity \<Rightarrow> bool" where
  "find_usable p \<longleftrightarrow> \<not> Identity_IsZero p"

definition search_usable :: "search_result \<Rightarrow> bool" where
  "search_usable r \<longleftrightarrow> (case sr_ObjectID r of None \<Rightarrow> False | Some i \<Rightarrow> i \<noteq> zeroID)"

datatype op_message = OpError string | OpEOS

text \<open>Without an identifier the caller gets an error and the marker; the sources are not asked.\<close>

definition Describe_op :: "descriptor source list \<Rightarrow> objectID option \<Rightarrow> op_message list + descriptor fan" where
  "Describe_op describers ID =
     (if ID = None \<or> ID = Some zeroID then Inl [OpError ''id is required'', OpEOS] else Inr (fan_start describers))"

definition Find_op :: "identity source list \<Rightarrow> objectID option \<Rightarrow> op_message list + identity fan" where
  "Find_op finders ID =
     (if ID = None \<or> ID = Some zeroID then Inl [OpError ''id is required'', OpEOS] else Inr (fan_start finders))"

definition Search_op :: "(string \<Rightarrow> string) \<Rightarrow> (search_query \<Rightarrow> search_result source) list \<Rightarrow> string \<Rightarrow> search_result fan" where
  "Search_op lower searchers query = fan_start (map (\<lambda>s. s (SearchQuery_UnmarshalText lower query)) searchers)"

definition describe_step :: "descriptor fan \<Rightarrow> descriptor fan \<Rightarrow> bool" where "describe_step = fan_step describe_usable"
definition find_step :: "identity fan \<Rightarrow> identity fan \<Rightarrow> bool" where "find_step = fan_step find_usable"
definition search_step :: "search_result fan \<Rightarrow> search_result fan \<Rightarrow> bool" where "search_step = fan_step search_usable"

text \<open>
  The option that mounts an op and registers the app for it: \<open>m\<close> is what mounting on the router gives,
  \<open>h\<close> the hook that keeps the registration's lease.
\<close>

definition mount_scoped :: "bool \<Rightarrow> error option \<Rightarrow> string \<Rightarrow> error option" where
  "mount_scoped scoped add what = (if scoped then add else Some (ErrMsg (''router cannot mount scoped object '' @ what @ '' route'')))"

definition with_sources :: "string \<Rightarrow> 'a list \<Rightarrow> error option \<Rightarrow> hook \<Rightarrow> serve_config \<Rightarrow> serve_config res" where
  "with_sources none sources m h cfg =
     (if sources = [] then Inl (ErrMsg none)
      else Inr (cfg\<lparr>sc_mounts := sc_mounts cfg @ [Some m], sc_hooks := sc_hooks cfg @ [h]\<rparr>))"

definition WithObjectDescriber :: "bool \<Rightarrow> error option \<Rightarrow> descriptor source list \<Rightarrow> hook \<Rightarrow> serve_config \<Rightarrow> serve_config res" where
  "WithObjectDescriber scoped add describers h cfg =
     with_sources ''no object describers'' describers (mount_scoped scoped add ''describer'') h cfg"

definition WithObjectFinder :: "bool \<Rightarrow> error option \<Rightarrow> identity source list \<Rightarrow> hook \<Rightarrow> serve_config \<Rightarrow> serve_config res" where
  "WithObjectFinder scoped add finders h cfg =
     with_sources ''no object finders'' finders (mount_scoped scoped add ''finder'') h cfg"

definition WithObjectSearcher :: "bool \<Rightarrow> error option \<Rightarrow> (search_query \<Rightarrow> search_result source) list \<Rightarrow> hook \<Rightarrow> serve_config \<Rightarrow> serve_config res" where
  "WithObjectSearcher scoped add searchers h cfg =
     with_sources ''no object searchers'' searchers (mount_scoped scoped add ''searcher'') h cfg"

end
