(* ===== verification/Properties_Sources.thy ===== *)
theory Properties_Sources
  imports Object_Sources
begin

text \<open>The properties of the object sources of an app and of search queries, over \<open>Fan_Out\<close> and \<open>Search_Query\<close>.\<close>

text \<open>
  C22: a request fanned out to the object sources of an app is answered in full and leaves nothing
  behind.  What was sent is always a merge of what the sources streamed, nil and unusable values
  dropped, each source in its order; if nobody cancels, the end marker follows all of it; every run
  is finite, and as long as the sources close their streams, or the context ended, it goes on
  until every goroutine has returned.
\<close>

theorem fan_out_delivers:
  assumes "fan_reachable usable sources s"
  shows "(\<exists>yss zs. merged yss zs \<and> prefix (fo_sent s) zs \<and> list_all2 (\<lambda>ys src. prefix ys (wanted usable src)) yss sources) \<and>
    (\<forall>t. fan_step usable s t \<longrightarrow> fan_weight t < fan_weight s \<and>
       (fo_eos t \<and> \<not> fo_done s \<longrightarrow> merged (map (wanted usable) sources) (fo_sent t))) \<and>
    ((\<forall>src \<in> set sources. ends_ok (Starting src)) \<or> fo_done s \<longrightarrow> fan_finished s \<or> (\<exists>t. fan_step usable s t))"
  using fan_sent_merged [OF assms] fan_step_weight fan_eos_complete [OF assms] fan_progress [OF assms] by blast

theorem fan_out_delivers_witness:
  "\<exists>t. fan_step find_usable (fan_start [Stream [Some (Some [2]), None] True, NilSource]) t \<and>
     fan_weight t < fan_weight (fan_start [Stream [Some (Some [2]), None] True, NilSource :: identity source])"
proof -
  let ?sources = "[Stream [Some (Some [2]), None] True, NilSource :: identity source]"
  have "\<not> fan_finished (fan_start ?sources)" by (simp add: fan_finished_def fan_start_def)
  then show ?thesis using fan_out_delivers [OF fan_init [where usable = find_usable and sources = ?sources]] by auto
qed




end
