(* ===== verification/Spec2Isabelle.thy ===== *)
theory Spec2Isabelle
  imports Properties_Codec Properties_Registry Properties_Values Properties_Sync Properties_Routing Properties_Objects
    Properties_Messages Properties_Apps Properties_Services Properties_Json
    Properties_Net Properties_Sources
begin

text \<open>
  \<^bold>\<open>astral-go.\<close>  The library describes typed objects by schemas (Blueprints), keeps them in a
  registry, moves objects between peers as bytes, and routes queries between them.  This
  development models that core: the resource ledger under the codecs, the scalar types, the
  schemas and their registry, the objects built from schemas at run time and their binary codec;
  the channels that carry them; the synchronisation helpers; query strings, routers and the
  service of a query by an op; an app's side of its session with the node; and the services with
  logic of their own: the tree of values, discovery, permits, recovery phrases and stealth hints.

  \<^bold>\<open>Parts and theories.\<close>
  \<^item> \<open>Go_Prelude\<close>: errors as values, bytes and strings, big-endian integers, the parts of Go's
    \<^verbatim>\<open>strconv\<close> and \<^verbatim>\<open>strings\<close> the sources use.
  \<^item> \<open>Ledger\<close> (\<^verbatim>\<open>depth.go\<close>, \<^verbatim>\<open>read_bounded.go\<close>, \<^verbatim>\<open>write_payload.go\<close>, \<^verbatim>\<open>build_budget.go\<close>): streams that
    carry a budget of depth, frames and bytes, and the contract \<open>reads_back\<close> between a writer
    and a reader.
  \<^item> \<open>Scalars\<close>, \<open>Primitives\<close> (\<^verbatim>\<open>fixed_width.go\<close>, \<^verbatim>\<open>uint_types.go\<close>, \<^verbatim>\<open>int_types.go\<close>, \<^verbatim>\<open>bool.go\<close>,
    \<^verbatim>\<open>byte_types.go\<close>, \<^verbatim>\<open>string_types.go\<close>, \<^verbatim>\<open>nonce.go\<close>, \<^verbatim>\<open>zone.go\<close>, \<^verbatim>\<open>time.go\<close>, \<^verbatim>\<open>type_encoder.go\<close> and
    others): the leaf types, with the locales \<open>wire_codec\<close> and \<open>text_codec\<close> interpreted on each.
  \<^item> \<open>Base32\<close>, \<open>ObjectID\<close> (\<^verbatim>\<open>object_id.go\<close>, \<^verbatim>\<open>object_resolver.go\<close>): content identifiers.
  \<^item> \<open>SigMap\<close> (\<^verbatim>\<open>src/sig/map.go\<close>, \<^verbatim>\<open>set.go\<close>): the synchronised map and set, with the locales
    \<open>keyed_store\<close> and \<open>collection\<close>.
  \<^item> \<open>Blueprint\<close>, \<open>Blueprint_Order\<close>, \<open>Blueprint_Wire\<close>, \<open>Reflect\<close>, \<open>Registry\<close> (\<^verbatim>\<open>blueprint.go\<close>, the
    \<^verbatim>\<open>*_spec.go\<close> files, \<^verbatim>\<open>blueprints.go\<close>, \<^verbatim>\<open>blueprint_reflect.go\<close>): schemas, their validation, order,
    wire form and derivation, and the registry with its parent chain.  A registry is its list
    of entries in registration order; the steps Add and RegisterBlueprint generate
    \<open>reg_reachable\<close>.
  \<^item> \<open>Objectify\<close> (\<^verbatim>\<open>objectify.go\<close> and the \<^verbatim>\<open>*_value.go\<close> files): the codecs of composite Go values,
    parameterised by the codecs of their parts.
  \<^item> \<open>Runtime\<close>, \<open>Reader_Steps\<close>, \<open>Runtime_Codec\<close> (\<^verbatim>\<open>runtime_object.go\<close>, \<^verbatim>\<open>runtime_slice.go\<close>,
    \<^verbatim>\<open>runtime_array.go\<close>, \<^verbatim>\<open>runtime_map.go\<close>, \<^verbatim>\<open>runtime_blueprint_codec.go\<close>, \<^verbatim>\<open>object.go\<close>): objects built
    from schemas and their codec.  The locale \<open>reader_step\<close> collects what every reader does to
    its stream; it is interpreted for the nesting depth and for the bytes consumed.
  \<^item> \<open>Json\<close>, \<open>Runtime_Json\<close> (the \<^verbatim>\<open>MarshalJSON\<close> and \<^verbatim>\<open>UnmarshalJSON\<close> methods of the same files): the JSON form of the
    leaf types and of runtime objects.  A document is its value as \<^verbatim>\<open>encoding/json\<close> sees it; reading recurses
    into the document.  \<open>Json_Channel\<close> has the JSON channels and the JSON form of bundles.
  \<^item> \<open>Normalize\<close> (\<^verbatim>\<open>normalize.go\<close>, Get and Set of \<^verbatim>\<open>runtime_object.go\<close>): values on their way into the
    fields of a runtime object.
  \<^item> \<open>Channel\<close>, \<open>Base64\<close>, \<open>Text_Channel\<close> (\<^verbatim>\<open>src/astral/channel\<close>, the text forms of \<^verbatim>\<open>byte_types.go\<close>, \<^verbatim>\<open>string_types.go\<close>
    and \<^verbatim>\<open>blob.go\<close>): the binary, canonical and text framing of objects on a stream, the dispatch of
    received objects to handlers (Switch) and the batch loop over it.
  \<^item> \<open>Bundle\<close> (\<^verbatim>\<open>bundle.go\<close>): collections of objects indexed by identifier, and their wire form.
  \<^item> \<open>Sig_Ring\<close>, \<open>Sig_Pool\<close>, \<open>Sig_Queue\<close>, \<open>Sig_Diff\<close>, \<open>Sig_Sync\<close> (\<^verbatim>\<open>src/sig\<close>): the ring buffer with the
    locale \<open>bounded_queue\<close> it refines, the resource pool with its waiting callers as a step
    relation, the broadcast queue as a heap of nodes, the slice differences, the switch, the
    compare-and-swap cell, the idle tracker and the backoff timer.
  \<^item> \<open>Url_Query\<close>, \<open>Query_Editor\<close> (\<^verbatim>\<open>src/lib/query\<close>, \<^verbatim>\<open>src/astral/log/snake_case.go\<close>): query strings with the part
    of \<^verbatim>\<open>net/url\<close> they use, and the editor that binds parameters to struct fields.
  \<^item> \<open>Routing\<close> (\<^verbatim>\<open>context.go\<close>, \<^verbatim>\<open>in_flight_query.go\<close>, \<^verbatim>\<open>codes.go\<close>, \<^verbatim>\<open>err_rejected.go\<close>, \<^verbatim>\<open>src/lib/query/route.go\<close>, the
    routers of \<^verbatim>\<open>src/lib/routing\<close>): contexts, queries in flight and the tree of routers, with the
    locale \<open>sort_func\<close> for what \<^verbatim>\<open>slices.SortFunc\<close> promises.
  \<^item> \<open>Incoming\<close> (\<^verbatim>\<open>incoming_query.go\<close>, \<^verbatim>\<open>op.go\<close>, \<^verbatim>\<open>conn.go\<close>): one query served by an op's goroutine while
    its caller waits; \<open>serve_step\<close> interleaves the two.
  \<^item> \<open>Native_Values\<close>, \<open>Go_Values\<close> (\<^verbatim>\<open>int_values.go\<close>, \<^verbatim>\<open>bool_value.go\<close>, \<^verbatim>\<open>string_value.go\<close>, \<^verbatim>\<open>objectify.go\<close>): the views over
    native values and the choice of a view by the kind of a Go type (\<open>gtype\<close>), so that \<open>gv_WriteTo\<close> and
    \<open>gv_ReadFrom\<close> are the codec of whole Go values.
  \<^item> \<open>Same_Bytes\<close>, \<open>Interop\<close>: the relation \<open>alike\<close> between writers of one format, and the comparison of a
    compiled struct with the runtime object of the Blueprint derived from its type.
  \<^item> \<open>Api_Messages\<close> (\<^verbatim>\<open>src/api\<close>, and the structs of \<^verbatim>\<open>src/astral\<close> and \<^verbatim>\<open>src/lib\<close> of the same form): the messages of the
    node services as their \<open>gtype\<close>s.
  \<^item> \<open>Str_Order\<close>, \<open>Hex\<close>: the order of strings by which long lists of names are shown distinct, and
    hexadecimal text.
  \<^item> \<open>Identity\<close> (\<^verbatim>\<open>identity.go\<close>): identities as compressed public keys, and their forms.
  \<^item> \<open>Bip39_Words\<close>, \<open>Bip39\<close> (\<^verbatim>\<open>src/api/bip137sig\<close>): the word list, phrases, entropy, seeds and derivation paths.
  \<^item> \<open>Nearby\<close> (\<^verbatim>\<open>src/api/nearby\<close>): stealth hints and status proofs.
  \<^item> \<open>Streams\<close> (\<^verbatim>\<open>src/streams\<close>): the buffered writer, the cancellable reader and the dispenser, each a step
    relation of its callers and goroutines and an instance of the locale \<open>conduit\<close>; the limited reader,
    the skipper and the counters.
  \<^item> \<open>App_Registrar\<close> (\<^verbatim>\<open>src/lib/apps/registrar.go\<close>, \<^verbatim>\<open>registration_lease.go\<close>): the loop that keeps an app bound to its
    node, as the relation \<open>reg_step\<close>, and the keeper of its lease.
  \<^item> \<open>Apphost\<close> (\<^verbatim>\<open>src/lib/apphost\<close>, the routers of \<^verbatim>\<open>src/lib/astrald\<close>, \<^verbatim>\<open>src/lib/ipc\<close>): sessions with the node, retries,
    the gate, the connection monitor and IPC addresses.
  \<^item> \<open>App_Handler\<close> (\<^verbatim>\<open>src/lib/apps/handler.go\<close>, \<^verbatim>\<open>pending_query.go\<close>, \<^verbatim>\<open>serve.go\<close>, \<^verbatim>\<open>gate.go\<close>): the connections an app
    accepts, screens, routes and answers, as the relation \<open>app_step\<close>.
  \<^item> \<open>Tree_Nodes\<close> (\<^verbatim>\<open>src/api/tree\<close>): client nodes over slices that share arrays, the walk along a path, values
    bound to a node, and recursive deletion.
  \<^item> \<open>Discovery\<close> (\<^verbatim>\<open>src/api/services\<close>): service names, the discovery stream, its watcher, and providers.
  \<^item> \<open>Permits\<close> (\<^verbatim>\<open>src/api/auth\<close>, \<^verbatim>\<open>src/api/policy\<close>): actions, constraints, permits and their validation.
  \<^item> \<open>Net_Addr\<close>, \<open>Endpoints\<close> (\<^verbatim>\<open>src/api/ip\<close>, \<^verbatim>\<open>tcp\<close>, \<^verbatim>\<open>kcp\<close>, \<^verbatim>\<open>nat\<close>, \<^verbatim>\<open>tor\<close>, \<^verbatim>\<open>gateway\<close>): the text of IP addresses and hosts with
    ports as \<^verbatim>\<open>net\<close> has it, and the endpoints of the networks with their forms.
  \<^item> \<open>Search_Query\<close> (\<^verbatim>\<open>src/api/objects\<close>): search queries and their text.
  \<^item> \<open>Fan_Out\<close>, \<open>Object_Sources\<close> (\<^verbatim>\<open>object_describer.go\<close>, \<^verbatim>\<open>object_finder.go\<close>, \<^verbatim>\<open>object_searcher.go\<close> of \<^verbatim>\<open>src/lib/apps\<close>): requests
    fanned out to the object sources of an app, as the relation \<open>fan_step\<close>.
  \<^item> \<open>Sample\<close>, \<open>Sample_Query\<close>: a registry, an object and an argument struct on which the
    witnesses evaluate.
  \<^item> \<open>Properties_Codec\<close>, \<open>Properties_Registry\<close>, \<open>Properties_Values\<close>, \<open>Properties_Sync\<close>,
    \<open>Properties_Routing\<close>, \<open>Properties_Objects\<close>, \<open>Properties_Messages\<close>, \<open>Properties_Apps\<close>,
    \<open>Properties_Services\<close>, \<open>Properties_Json\<close>, \<open>Properties_Net\<close>, \<open>Properties_Sources\<close>:
    the properties, and further theorems on the same parts.

  \<^bold>\<open>What is shown.\<close>  Round trips for every leaf type, for type tags, identifiers, schemas, maps
  and whole objects; that decoding ends and is bounded in bytes on any input; that
  construction ends and is bounded in nodes once the primitive names are bound to
  compile-time prototypes, and a counterexample without that condition; that the encoding of
  maps is canonical; that an object read from its JSON form is the object written, and a bundle exactly when no
  member is written as \<^verbatim>\<open>null\<close>; the invariant of every reachable registry, its freedom from reference
  cycles, and that a peer accepts a replay in enumeration order; the exact behaviour of
  validation, registration and ordering.  The ring buffer refines a bounded queue; a pool loses no
  wakeup; a subscriber receives what is pushed, in order; the slice differences are multiset
  differences; a switch runs one task.  Arguments marshalled by a caller are the ones an op
  finds; a priority router follows the priorities under every sorter; a tree of op and scope
  routers implements a map from dotted paths to ops; a served query is answered once, and a
  caller that waits is answered in bounded steps.  Setting a field keeps an object encodable; a
  binary channel delivers what was sent, in order, and one bad object costs only its own answer;
  a batch answers its inputs one by one; a bundle delivers its objects, found by identifier.
  Every message of the node services survives the wire, has a type name of its own and derives a
  valid Blueprint (but for one with a map), and the runtime object of that Blueprint is written
  byte for byte as the message is.  A registrar keeps exactly the accepted handlers bound under every
  interleaving, and stops for good after one refusal; a query is sent to the node once however often it
  is retried, and no session leaks; an app answers only connections that carry its token, once each;
  a request fanned out to many sources sends a merge of their streams and leaves no goroutine behind;
  the buffered writer loses and reorders nothing.  Phrases and entropy correspond one to one; a
  stealth hint opens for nobody it was not made for; endpoints and search queries are read back from their text; walking a path creates it under interference; a
  bound value converges to its node; a watcher offers what the last event says; a permit with a
  constraint its action cannot read allows nothing, but for the actions that read none.

  \<^bold>\<open>Fuel.\<close>  Two recursions go through the registry.  \<open>newAt\<close> is given \<open>newFuel\<close>; running out is the
  value None, and \<open>newAt_total\<close> shows it does not happen.  \<open>readInto\<close> is given \<open>readFuel\<close>;
  \<open>readInto_fuel\<close> shows that more fuel never changes the result, since each recursion
  passes a frame and the ledger allows sixty-four.  \<open>deleteRecursive\<close> is given fuel for the levels of the
  tree; with as much as the subtree is deep it deletes exactly that subtree.

  \<^bold>\<open>Parameters.\<close>  SHA-256 is an argument of the resolvers.  A compile-time type outside the
  primitives is its payload, read by the argument \<open>nread\<close> with the named hypotheses that it
  reads back what was written and leaves the depth as it was.  Types with their own text
  methods, floats and byte slices in query arguments are the argument \<open>text_types\<close>; what an op
  answers to a router is the argument \<open>serve\<close>.  The text methods of an object's type are the
  arguments \<open>mtext\<close> and \<open>utext\<close> of the text channel.  The point check of secp256k1 is the argument \<open>curve\<close> with
  \<open>curve_ok\<close>, the hash functions of \<open>Nearby\<close> have \<open>hashes_ok\<close> (their lengths), and PBKDF2, the keystream and the
  random source are plain arguments.  The nodes of a tree are given by their operations with the laws
  \<open>store_laws\<close> and \<open>delete_laws\<close>, which hold for a prefix-closed set of paths.  What a node answers an app is
  the record \<open>attempt\<close> or \<open>reg_env\<close>, without laws.  Unicode lower case, the calendar text of an instant and the
  JSON methods of compile-time types are the record \<open>json_env\<close>, with \<open>lower_ok\<close> (lower case of ASCII is that of
  ASCII) and the law that such a type reads back what it writes; Unicode upper case has \<open>upper_ok\<close> likewise.

  \<^bold>\<open>Not modelled.\<close>  The text of JSON documents, the JSON forms of compiled structs, the rendering
  channel, floating-point text, logging and terminal output, the
  clients under \<^verbatim>\<open>src/api\<close> that send one message and hand on its answer, the bytes a caller sends over
  an accepted connection, pipes, and the static checker under \<^verbatim>\<open>src/internal\<close>.  Concurrency is
  modelled as the order of atomic operations: a method that holds its lock throughout is one
  step, and goroutines, timers and waiting callers are further steps of a step relation.
\<close>

end
